(* ===== verification/BTree_Map.thy ===== *)
theory BTree_Map
  imports Atom_Prelude
begin

text \<open>
  Rust's \<open>alloc::collections::BTreeMap\<close>, as the kernel uses it: a finite map whose
  iteration order is the order of the keys. The model is an association list kept
  strictly sorted by key, so that \<open>iter()\<close>, \<open>keys()\<close>, \<open>values()\<close> and \<open>len()\<close> are the
  list itself and every operation computes. The interface the components rely on is the
  locale \<open>ordered_map\<close>: the lookup laws need no invariant, the order and size laws need
  \<open>wf\<close>, which every operation keeps.
\<close>

section \<open>The interface\<close>

locale ordered_map =
  fixes empty :: "'m"
    and get :: "'m \<Rightarrow> 'k::linorder \<Rightarrow> 'v option"
    and insert :: "'k \<Rightarrow> 'v \<Rightarrow> 'm \<Rightarrow> 'm"
    and remove :: "'k \<Rightarrow> 'm \<Rightarrow> 'm"
    and iter :: "'m \<Rightarrow> ('k \<times> 'v) list"
    and wf :: "'m \<Rightarrow> bool"
  assumes get_empty: "get empty k = None"
    and get_insert: "get (insert k v m) j = (if j = k then Some v else get m j)"
    and get_remove: "get (remove k m) j = (if j = k then None else get m j)"
    and wf_empty: "wf empty"
    and wf_insert: "wf m \<Longrightarrow> wf (insert k v m)"
    and wf_remove: "wf m \<Longrightarrow> wf (remove k m)"
    and iter_sorted: "wf m \<Longrightarrow> sorted_wrt (<) (map fst (iter m))"
    and iter_get: "wf m \<Longrightarrow> (k, v) \<in> set (iter m) \<longleftrightarrow> get m k = Some v"
begin

lemma dom_insert: "dom (get (insert k v m)) = Set.insert k (dom (get m))"
  by (auto simp: get_insert dom_def)

lemma dom_remove: "dom (get (remove k m)) = dom (get m) - {k}"
  by (auto simp: get_remove dom_def split: if_splits)

lemma distinct_keys: "wf m \<Longrightarrow> distinct (map fst (iter m))"
  using iter_sorted strict_sorted_iff by blast

lemma set_keys: "wf m \<Longrightarrow> set (map fst (iter m)) = dom (get m)"
  by (auto simp: iter_get dom_def image_iff) (metis fst_conv iter_get surj_pair)

lemma finite_dom: "wf m \<Longrightarrow> finite (dom (get m))"
  by (metis List.finite_set set_keys)

lemma length_iter: "wf m \<Longrightarrow> length (iter m) = card (dom (get m))"
  by (metis distinct_card distinct_keys length_map set_keys)

lemma length_insert_fresh:
  assumes "wf m" and "get m k = None"
  shows "length (iter (insert k v m)) = Suc (length (iter m))"
proof -
  from assms(2) have "k \<notin> dom (get m)" by auto
  with assms(1) show ?thesis
    by (simp add: length_iter wf_insert dom_insert finite_dom)
qed

lemma length_insert_present:
  assumes "wf m" and "get m k \<noteq> None"
  shows "length (iter (insert k v m)) = length (iter m)"
proof -
  from assms(2) have "Set.insert k (dom (get m)) = dom (get m)" by auto
  with assms(1) show ?thesis by (simp add: length_iter wf_insert dom_insert)
qed

lemma length_remove_present:
  assumes "wf m" and "get m k \<noteq> None"
  shows "Suc (length (iter (remove k m))) = length (iter m)"
proof -
  from assms(2) have "k \<in> dom (get m)" by auto
  with assms(1) show ?thesis
    by (simp add: length_iter wf_remove dom_remove finite_dom card_Suc_Diff1 del: card_Diff_insert)
qed

end

section \<open>The implementation\<close>

type_synonym ('k, 'v) btree = "('k \<times> 'v) list"

definition bt_empty :: "('k, 'v) btree" where
  "bt_empty = []"

definition bt_get :: "('k, 'v) btree \<Rightarrow> 'k \<Rightarrow> 'v option" where
  "bt_get m k = map_of m k"

fun bt_insert :: "'k::linorder \<Rightarrow> 'v \<Rightarrow> ('k, 'v) btree \<Rightarrow> ('k, 'v) btree" where
  "bt_insert key val [] = [(key, val)]"
| "bt_insert key val (kv # rest) =
     (if fst kv < key then kv # bt_insert key val rest
      else if key < fst kv then (key, val) # kv # rest
      else (key, val) # rest)"

definition bt_remove :: "'k \<Rightarrow> ('k, 'v) btree \<Rightarrow> ('k, 'v) btree" where
  "bt_remove key m = filter (\<lambda>kv. fst kv \<noteq> key) m"

definition bt_contains :: "('k, 'v) btree \<Rightarrow> 'k \<Rightarrow> bool" where
  "bt_contains m k \<longleftrightarrow> bt_get m k \<noteq> None"

definition bt_iter :: "('k, 'v) btree \<Rightarrow> ('k \<times> 'v) list" where
  "bt_iter m = m"

definition bt_keys :: "('k, 'v) btree \<Rightarrow> 'k list" where
  "bt_keys m = map fst m"

definition bt_values :: "('k, 'v) btree \<Rightarrow> 'v list" where
  "bt_values m = map snd m"

definition bt_len :: "('k, 'v) btree \<Rightarrow> nat" where
  "bt_len m = length m"

definition bt_wf :: "('k::linorder, 'v) btree \<Rightarrow> bool" where
  "bt_wf m \<longleftrightarrow> sorted_wrt (<) (map fst m)"

lemma map_of_bt_insert: "map_of (bt_insert k v m) = (map_of m)(k \<mapsto> v)"
  by (induction m) (auto simp: fun_eq_iff)

lemma fst_set_bt_insert: "fst ` set (bt_insert k v m) = Set.insert k (fst ` set m)"
  by (induction m) (auto simp: not_less)

lemma bt_wf_Cons: "bt_wf (kv # rest) \<longleftrightarrow> (\<forall>k \<in> fst ` set rest. fst kv < k) \<and> bt_wf rest"
  by (auto simp: bt_wf_def)

lemma bt_wf_insert: "bt_wf m \<Longrightarrow> bt_wf (bt_insert k v m)"
proof (induction m)
  case (Cons kv rest)
  consider "fst kv < k" | "k < fst kv" | "k = fst kv" by fastforce
  then show ?case
  proof cases
    case 1
    have "\<forall>j \<in> fst ` set (bt_insert k v rest). fst kv < j"
      using 1 Cons.prems by (simp only: fst_set_bt_insert) (simp add: bt_wf_Cons)
    with 1 Cons show ?thesis by (simp add: bt_wf_Cons)
  next
    case 2
    with Cons.prems have "\<forall>j \<in> fst ` set rest. k < j" by (auto simp: bt_wf_Cons)
    with 2 Cons.prems show ?thesis by (auto simp: bt_wf_Cons)
  next
    case 3
    with Cons.prems show ?thesis by (simp add: bt_wf_Cons)
  qed
qed (simp add: bt_wf_def)

lemma map_of_filter_key: "map_of (filter (\<lambda>kv. fst kv \<noteq> k) m) j = (if j = k then None else map_of m j)"
  by (induction m) auto

lemma bt_wf_remove: "bt_wf m \<Longrightarrow> bt_wf (bt_remove k m)"
  by (simp add: bt_wf_def bt_remove_def sorted_wrt_map sorted_wrt_filter)

lemma bt_wf_distinct: "bt_wf m \<Longrightarrow> distinct (map fst m)"
  using bt_wf_def strict_sorted_iff by blast

lemma bt_get_insert: "bt_get (bt_insert k v m) j = (if j = k then Some v else bt_get m j)"
  by (simp add: bt_get_def map_of_bt_insert)

lemma bt_get_remove: "bt_get (bt_remove k m) j = (if j = k then None else bt_get m j)"
  by (simp add: bt_get_def bt_remove_def map_of_filter_key)

lemma bt_iter_mem: "bt_wf m \<Longrightarrow> (k, v) \<in> set (bt_iter m) \<longleftrightarrow> bt_get m k = Some v"
  by (simp add: bt_get_def bt_iter_def bt_wf_distinct)

interpretation bt: ordered_map bt_empty bt_get bt_insert bt_remove bt_iter bt_wf
  by (unfold_locales, simp add: bt_get_def bt_empty_def, rule bt_get_insert, rule bt_get_remove,
      simp add: bt_wf_def bt_empty_def, erule bt_wf_insert, erule bt_wf_remove,
      simp add: bt_iter_def bt_wf_def, erule bt_iter_mem)

lemmas bt_lookup [simp] = bt.get_empty bt.get_insert bt.get_remove
lemma bt_get_insert_fun: "bt_get (bt_insert k v m) = (bt_get m)(k \<mapsto> v)"
  by (auto simp: fun_eq_iff)

lemma bt_get_remove_fun: "bt_get (bt_remove k m) = (bt_get m)(k := None)"
  for k :: "'k::linorder"
  by (auto simp: fun_eq_iff)

lemmas bt_wf_ops [simp, intro] = bt.wf_empty bt.wf_insert bt.wf_remove

lemma bt_contains_ops [simp]:
  "\<not> bt_contains bt_empty k"
  "bt_contains (bt_insert k v m) j \<longleftrightarrow> j = k \<or> bt_contains m j"
  "bt_contains (bt_remove k m) j \<longleftrightarrow> j \<noteq> k \<and> bt_contains m j"
  by (auto simp: bt_contains_def)

lemma bt_values_mem: "bt_wf m \<Longrightarrow> v \<in> set (bt_values m) \<longleftrightarrow> (\<exists>k. bt_get m k = Some v)"
  using bt.iter_get [of m _ v] by (force simp: bt_values_def bt_iter_def image_iff)

lemma bt_len_remove: "bt_len (bt_remove k m) \<le> bt_len m"
  by (simp add: bt_len_def bt_remove_def)

lemma bt_len_remove_less: "bt_get m k = Some v \<Longrightarrow> bt_len (bt_remove k m) < bt_len m"
  unfolding bt_len_def bt_remove_def bt_get_def
  by (rule length_filter_less) (auto dest: map_of_SomeD)

lemma bt_insert_twice [simp]: "bt_insert k v (bt_insert k u m) = bt_insert k v m"
  by (induction m) auto

lemma bt_insert_last: "\<forall>j \<in> fst ` set m. j < k \<Longrightarrow> bt_insert k v m = m @ [(k, v)]"
  by (induction m) auto

lemma bt_rebuild:
  assumes "bt_wf m"
  shows "fold (\<lambda>(k, v). bt_insert k v) m bt_empty = m"
  using assms
proof (induction m rule: rev_induct)
  case (snoc kv m)
  then have "bt_wf m" "\<forall>j \<in> fst ` set m. j < fst kv" by (auto simp: bt_wf_def sorted_wrt_append)
  with snoc.IH show ?case by (cases kv) (simp add: bt_insert_last)
qed (simp add: bt_empty_def)

text \<open>
  A registry keyed by identifiers that a counter hands out, the shape of the kernel's
  tables of capabilities, ports, shared regions and address spaces: each value carries
  its own key and every key is below the next identifier.
\<close>

definition registry_ok :: "('v \<Rightarrow> u64) \<Rightarrow> u64 \<Rightarrow> (u64, 'v) btree \<Rightarrow> bool" where
  "registry_ok id_of nxt m \<longleftrightarrow>
     bt_wf m \<and> (\<forall>k v. bt_get m k = Some v \<longrightarrow> id_of v = k \<and> k < nxt)"

lemma registry_empty: "registry_ok id_of nxt bt_empty"
  by (simp add: registry_ok_def)

lemma registry_fresh: "registry_ok id_of nxt m \<Longrightarrow> bt_get m nxt = None"
  by (metis less_irrefl not_None_eq registry_ok_def)

lemma registry_bump:
  "registry_ok id_of nxt m \<Longrightarrow> nxt \<noteq> u64_max \<Longrightarrow> registry_ok id_of (nxt + 1) m"
  by (simp add: registry_ok_def word_less_inc_iff) (blast intro: less_imp_le)

lemma registry_insert:
  "registry_ok id_of nxt m \<Longrightarrow> id_of v = k \<Longrightarrow> k < nxt \<Longrightarrow> registry_ok id_of nxt (bt_insert k v m)"
  by (auto simp: registry_ok_def)

lemma registry_alloc:
  "registry_ok id_of nxt m \<Longrightarrow> nxt \<noteq> u64_max \<Longrightarrow> id_of v = nxt \<Longrightarrow>
   registry_ok id_of (nxt + 1) (bt_insert nxt v m)"
  by (auto simp: registry_ok_def word_less_inc_iff intro: less_imp_le)

lemma registry_remove: "registry_ok id_of nxt m \<Longrightarrow> registry_ok id_of nxt (bt_remove k m)"
  by (auto simp: registry_ok_def)

lemma registry_get: "registry_ok id_of nxt m \<Longrightarrow> bt_get m k = Some v \<Longrightarrow> id_of v = k \<and> k < nxt"
  by (simp add: registry_ok_def)

lemma registry_wf: "registry_ok id_of nxt m \<Longrightarrow> bt_wf m"
  by (simp add: registry_ok_def)

end
