(* ===== verification/Rust_Str.thy ===== *)
theory Rust_Str
  imports Atom_Prelude "HOL-Library.Char_ord" "HOL-Library.List_Lexorder"
begin

text \<open>
  The part of Rust's \<open>str\<close> the parsers use, on ASCII text: trimming, splitting, lines,
  prefixes and suffixes. Strings are ordered byte by byte, as \<open>str\<close> is.
\<close>

definition is_ws :: "char \<Rightarrow> bool" where
  "is_ws c \<longleftrightarrow> of_char c \<in> {9, 10, 11, 12, 13, 32 :: nat}"

definition trim_start :: "string \<Rightarrow> string" where
  "trim_start s = dropWhile is_ws s"

definition trim :: "string \<Rightarrow> string" where
  "trim s = rev (dropWhile is_ws (rev (dropWhile is_ws s)))"

definition starts_with :: "string \<Rightarrow> string \<Rightarrow> bool" where
  "starts_with s p \<longleftrightarrow> take (length p) s = p"

definition ends_with :: "string \<Rightarrow> string \<Rightarrow> bool" where
  "ends_with s p \<longleftrightarrow> starts_with (rev s) (rev p)"

definition strip_prefix :: "string \<Rightarrow> string \<Rightarrow> string option" where
  "strip_prefix s p = (if starts_with s p then Some (drop (length p) s) else None)"

definition strip_suffix :: "string \<Rightarrow> string \<Rightarrow> string option" where
  "strip_suffix s p = (if ends_with s p then Some (take (length s - length p) s) else None)"

fun split_char :: "char \<Rightarrow> string \<Rightarrow> string list" where
  "split_char c [] = [[]]"
| "split_char c (x # xs) =
     (if x = c then [] # split_char c xs
      else (case split_char c xs of [] \<Rightarrow> [[x]] | p # ps \<Rightarrow> (x # p) # ps))"

definition split_once :: "char \<Rightarrow> string \<Rightarrow> (string \<times> string) option" where
  "split_once c s = (if c \<in> set s then Some (takeWhile (\<lambda>x. x \<noteq> c) s, tl (dropWhile (\<lambda>x. x \<noteq> c) s)) else None)"

abbreviation newline :: char where "newline \<equiv> CHR 0x0A"

definition strip_cr :: "string \<Rightarrow> string" where
  "strip_cr s = (case strip_suffix s [CHR 0x0D] of Some r \<Rightarrow> r | None \<Rightarrow> s)"

text \<open>
  \<open>lines()\<close>: every line ends at a newline, which is removed with a carriage return before
  it; what follows the last newline is a line unless it is empty.
\<close>

definition str_lines :: "string \<Rightarrow> string list" where
  "str_lines s =
     (let ps = split_char newline s in map strip_cr (butlast ps) @ (if last ps = [] then [] else [last ps]))"

section \<open>Facts\<close>

named_theorems str_simps \<open>strings\<close>

lemma split_char_neq_Nil [simp]: "split_char c s \<noteq> []"
  by (induction s) (auto split: list.split)

lemma split_char_no_sep: "c \<notin> set s \<Longrightarrow> split_char c s = [s]"
  by (induction s) auto

lemma split_char_append: "c \<notin> set p \<Longrightarrow> split_char c (p @ c # s) = p # split_char c s"
  by (induction p) auto

lemma split_char_join: "concat (map (\<lambda>p. p @ [c]) (butlast (split_char c s))) @ last (split_char c s) = s"
proof (induction s)
  case (Cons x xs)
  show ?case
  proof (cases "split_char c xs")
    case (Cons p ps)
    with Cons.IH show ?thesis by (cases ps) auto
  qed simp
qed simp

definition unlines :: "string list \<Rightarrow> string" where
  "unlines ls = concat (map (\<lambda>l. l @ [newline]) ls)"

lemma split_unlines: "\<forall>l \<in> set ls. newline \<notin> set l \<Longrightarrow> split_char newline (unlines ls) = ls @ [[]]"
  by (induction ls) (simp_all add: unlines_def split_char_append)

lemma strip_cr_id: "CHR 0x0D \<notin> set l \<Longrightarrow> strip_cr l = l"
  by (cases l rule: rev_cases) (auto simp: strip_cr_def strip_suffix_def ends_with_def starts_with_def)

lemma str_lines_unlines:
  assumes "\<forall>l \<in> set ls. newline \<notin> set l \<and> CHR 0x0D \<notin> set l"
  shows "str_lines (unlines ls) = ls"
proof -
  have "map strip_cr ls = ls" using assms by (simp add: map_idI strip_cr_id)
  with assms show ?thesis by (simp add: str_lines_def split_unlines)
qed

text \<open>A text with no white space at either end is what \<open>trim\<close> leaves.\<close>

definition trimmed :: "string \<Rightarrow> bool" where
  "trimmed s \<longleftrightarrow> s = [] \<or> \<not> is_ws (hd s) \<and> \<not> is_ws (last s)"

lemma dropWhile_hd: "s = [] \<or> \<not> P (hd s) \<Longrightarrow> dropWhile P s = s"
  by (cases s) auto

lemma trim_trimmed: "trimmed s \<Longrightarrow> trim s = s"
  by (auto simp: trim_def trimmed_def dropWhile_hd hd_rev)

lemma trimmed_trim: "trimmed (trim s)"
proof (cases "dropWhile is_ws s = []")
  case False
  let ?d = "dropWhile is_ws s" and ?t = "dropWhile is_ws (rev (dropWhile is_ws s))"
  from False have h: "\<not> is_ws (hd ?d)" by (rule hd_dropWhile)
  then have "\<exists>c \<in> set (rev ?d). \<not> is_ws c" using False by (metis hd_in_set set_rev)
  then have t: "?t \<noteq> []" by (simp add: dropWhile_eq_Nil_conv) 
  then have e: "\<not> is_ws (hd ?t)" by (rule hd_dropWhile)
  have "last ?t = last (rev ?d)" using t by (metis dropWhile_eq_drop last_drop length_drop length_greater_0_conv zero_less_diff)
  with False have "last ?t = hd ?d" by (simp add: last_rev)
  with h e t show ?thesis by (simp add: trim_def trimmed_def hd_rev last_rev)
qed (simp only: trim_def trimmed_def rev.simps dropWhile.simps simp_thms)

lemma trim_idem [simp]: "trim (trim s) = trim s"
  by (rule trim_trimmed [OF trimmed_trim])

lemma trim_leading: "is_ws c \<Longrightarrow> trim (c # s) = trim s"
  by (simp add: trim_def)

lemma trim_trailing: "is_ws c \<Longrightarrow> trimmed s \<Longrightarrow> trim (s @ [c]) = s"
proof (cases "s = []")
  case False
  assume "is_ws c" and "trimmed s"
  with False have "dropWhile is_ws (s @ [c]) = s @ [c]" "dropWhile is_ws (rev s) = rev s"
    by (auto intro!: dropWhile_hd simp: trimmed_def hd_rev)
  with \<open>is_ws c\<close> show ?thesis by (simp add: trim_def)
qed (simp add: trim_def)

lemma starts_with_append [simp]: "starts_with (p @ s) p"
  by (simp add: starts_with_def)

lemma ends_with_append [simp]: "ends_with (s @ p) p"
  by (simp add: ends_with_def starts_with_def)

lemma strip_prefix_append [simp]: "strip_prefix (p @ s) p = Some s"
  by (simp add: strip_prefix_def)

lemma strip_suffix_append [simp]: "strip_suffix (s @ p) p = Some s"
  by (simp add: strip_suffix_def)

lemma strip_prefix_Some_iff: "strip_prefix s p = Some r \<longleftrightarrow> s = p @ r"
  by (auto simp: strip_prefix_def starts_with_def) (metis append_take_drop_id)

lemma split_once_append: "c \<notin> set k \<Longrightarrow> split_once c (k @ c # v) = Some (k, v)"
  by (simp add: split_once_def takeWhile_append dropWhile_append)

end
