(* ===== verification/Service_Manager.thy ===== *)
theory Service_Manager
  imports BTree_Map Rust_Str
begin

text \<open>
  The service manager, \<^verbatim>\<open>kernel/src/service_manager.rs\<close>: parsing of the boot manifest,
  the startup order by depth-first search over the declared dependencies, and the
  lifecycle states of the services. The manifest is ASCII text.
\<close>

section \<open>The manifest\<close>

record service_spec =
  sv_name :: string
  sv_binary :: string
  sv_capabilities :: "string list"
  sv_depends_on :: "string list"

definition service_spec_new :: "string \<Rightarrow> service_spec" where
  "service_spec_new name = \<lparr>sv_name = name, sv_binary = [], sv_capabilities = [], sv_depends_on = []\<rparr>"

datatype manifest_error =
    InvalidSection nat string
  | DuplicateService string
  | OrphanKeyValue nat string
  | UnknownKey string nat
  | MissingBinary string
  | UnknownDependency string string
  | DependencyCycle string
  | EmptyManifest

text \<open>An operation that does not return a value: an error it reports, or a panic of an \<open>expect\<close>.\<close>

datatype 'e abort = Reported 'e | Panicked

type_synonym boot_manifest = "(string, service_spec) btree"

definition manifest_service :: "boot_manifest \<Rightarrow> string \<Rightarrow> service_spec option" where
  "manifest_service m name = bt_get m name"

definition manifest_count :: "boot_manifest \<Rightarrow> nat" where
  "manifest_count m = bt_len m"

section \<open>Parsing\<close>

definition parse_key_value :: "string \<Rightarrow> nat \<Rightarrow> manifest_error + string \<times> string" where
  "parse_key_value line line_no =
     (case split_once (CHR ''='') line of
        Some (key, val) \<Rightarrow> Inr (trim key, trim val)
      | None \<Rightarrow> Inl (OrphanKeyValue line_no line))"

abbreviation quote :: string where "quote \<equiv> [CHR 0x22]"

text \<open>\<open>strip_prefix('"').and_then(|v| v.strip_suffix('"'))\<close>, otherwise the text itself.\<close>

definition unquote :: "string \<Rightarrow> string" where
  "unquote s =
     (case strip_prefix s quote of
        None \<Rightarrow> s
      | Some v \<Rightarrow> (case strip_suffix v quote of None \<Rightarrow> s | Some r \<Rightarrow> r))"

definition parse_string :: "string \<Rightarrow> string" where
  "parse_string val = unquote (trim val)"

definition parse_array :: "string \<Rightarrow> nat \<Rightarrow> manifest_error + string list" where
  "parse_array val line_no =
     (let trimmed = trim val in
      if \<not> starts_with trimmed ''['' \<or> \<not> ends_with trimmed '']'' then Inl (InvalidSection line_no trimmed)
      else
        let inner = take (length trimmed - 2) (drop 1 trimmed)
        in Inr (map unquote (filter (\<lambda>i. i \<noteq> []) (map trim (split_char (CHR '','') inner)))))"

type_synonym parse_state = "boot_manifest \<times> string option"

definition parse_line :: "nat \<Rightarrow> string \<Rightarrow> parse_state \<Rightarrow> manifest_error abort + parse_state" where
  "parse_line line_no raw_line = (\<lambda>(services, current_service).
     let line = trim raw_line in
     if line = [] \<or> starts_with line ''#'' then Inr (services, current_service)
     else if starts_with line ''['' then
       if \<not> ends_with line '']'' then Inl (Reported (InvalidSection line_no line))
       else
         (case strip_prefix (take (length line - 2) (drop 1 line)) ''service.'' of
            Some name \<Rightarrow>
              if bt_contains services name then Inl (Reported (DuplicateService name))
              else Inr (bt_insert name (service_spec_new name) services, Some name)
          | None \<Rightarrow> Inl (Reported (InvalidSection line_no line)))
     else
       (case current_service of
          None \<Rightarrow> Inl (Reported (OrphanKeyValue line_no line))
        | Some service_name \<Rightarrow>
            (case parse_key_value line line_no of
               Inl e \<Rightarrow> Inl (Reported e)
             | Inr (key, val) \<Rightarrow>
                 (case bt_get services service_name of
                    None \<Rightarrow> Inl Panicked
                  | Some spec \<Rightarrow>
                      if key = ''binary'' then
                        Inr (bt_insert service_name (spec\<lparr>sv_binary := parse_string val\<rparr>) services, current_service)
                      else if key = ''capabilities'' then
                        (case parse_array val line_no of
                           Inl e \<Rightarrow> Inl (Reported e)
                         | Inr caps \<Rightarrow> Inr (bt_insert service_name (spec\<lparr>sv_capabilities := caps\<rparr>) services, current_service))
                      else if key = ''depends_on'' then
                        (case parse_array val line_no of
                           Inl e \<Rightarrow> Inl (Reported e)
                         | Inr deps \<Rightarrow> Inr (bt_insert service_name (spec\<lparr>sv_depends_on := deps\<rparr>) services, current_service))
                      else Inl (Reported (UnknownKey key line_no))))))"

fun parse_lines :: "nat \<Rightarrow> string list \<Rightarrow> parse_state \<Rightarrow> manifest_error abort + parse_state" where
  "parse_lines idx [] st = Inr st"
| "parse_lines idx (raw_line # rest) st =
     (case parse_line (idx + 1) raw_line st of
        Inl e \<Rightarrow> Inl e
      | Inr st1 \<Rightarrow> parse_lines (idx + 1) rest st1)"

definition parse_manifest :: "string \<Rightarrow> manifest_error abort + boot_manifest" where
  "parse_manifest text =
     (case parse_lines 0 (str_lines text) (bt_empty, None) of
        Inl e \<Rightarrow> Inl e
      | Inr (services, _) \<Rightarrow>
          (case find (\<lambda>spec. sv_binary spec = []) (bt_values services) of
             Some spec \<Rightarrow> Inl (Reported (MissingBinary (sv_name spec)))
           | None \<Rightarrow> if services = bt_empty then Inl (Reported EmptyManifest) else Inr services))"

section \<open>The startup order\<close>

record visit_state =
  vs_visiting :: "string set"
  vs_visited :: "string set"
  vs_order :: "string list"

function (sequential) visit :: "boot_manifest \<Rightarrow> string \<Rightarrow> visit_state \<Rightarrow> manifest_error + visit_state"
  and visit_deps :: "boot_manifest \<Rightarrow> string \<Rightarrow> string list \<Rightarrow> visit_state \<Rightarrow> manifest_error + visit_state" where
  "visit m name st =
     (if name \<in> vs_visiting st then Inl (DependencyCycle name)
      else if name \<in> vs_visited st then Inr st
      else
        (case visit_deps m name (case bt_get m name of Some spec \<Rightarrow> sv_depends_on spec | None \<Rightarrow> [])
                (st\<lparr>vs_visiting := insert name (vs_visiting st)\<rparr>) of
           Inl e \<Rightarrow> Inl e
         | Inr st1 \<Rightarrow>
             Inr (st1\<lparr>vs_visiting := vs_visiting st1 - {name}, vs_visited := insert name (vs_visited st1),
                  vs_order := vs_order st1 @ [name]\<rparr>)))"
| "visit_deps m name [] st = Inr st"
| "visit_deps m name (dep # deps) st =
     (if \<not> bt_contains m dep then Inl (UnknownDependency name dep)
      else
        (case visit m dep st of
           Inl e \<Rightarrow> Inl e
         | Inr st1 \<Rightarrow> visit_deps m name deps st1))"
  by pat_completeness auto

text \<open>A call that succeeds leaves the set of services being visited as it was.\<close>

lemma visit_visiting:
  "visit_visit_deps_dom (Inl (m, name, st)) \<Longrightarrow> visit m name st = Inr st' \<Longrightarrow> vs_visiting st' = vs_visiting st"
  "visit_visit_deps_dom (Inr (m, name, deps, st)) \<Longrightarrow> visit_deps m name deps st = Inr st' \<Longrightarrow> vs_visiting st' = vs_visiting st"
proof (induction m name st and m name deps st arbitrary: st' and st' rule: visit_visit_deps.pinduct)
  case (1 m name st)
  show ?case
  proof (cases "name \<in> vs_visiting st \<or> name \<in> vs_visited st")
    case True
    with 1(3) show ?thesis by (auto simp: visit.psimps [OF 1(1)] split: if_splits)
  next
    case False
    with 1(3) obtain st1 where st1: "visit_deps m name (case bt_get m name of Some spec \<Rightarrow> sv_depends_on spec | None \<Rightarrow> [])
        (st\<lparr>vs_visiting := insert name (vs_visiting st)\<rparr>) = Inr st1" "vs_visiting st' = vs_visiting st1 - {name}"
      by (auto simp: visit.psimps [OF 1(1)] split: sum.splits)
    from 1(2) [OF _ _ st1(1)] st1(2) False show ?thesis by simp
  qed
next
  case (2 m name st)
  then show ?case by (simp add: visit_deps.psimps)
next
  case (3 m name dep deps st)
  from 3(4) obtain st1 where st1: "bt_contains m dep" "visit m dep st = Inr st1" "visit_deps m name deps st1 = Inr st'"
    by (auto simp: visit_deps.psimps(2) [OF 3(1)] split: if_splits sum.splits)
  from 3(2) [OF _ st1(2)] 3(3) [OF _ st1(2) st1(3)] st1(1) show ?case by simp
qed

definition unvisiting :: "boot_manifest \<Rightarrow> visit_state \<Rightarrow> nat" where
  "unvisiting m st = card (fst ` set m - vs_visiting st)"

lemma unvisiting_enter:
  "name \<notin> vs_visiting st \<Longrightarrow> bt_get m name \<noteq> None \<Longrightarrow>
   unvisiting m (st\<lparr>vs_visiting := insert name (vs_visiting st)\<rparr>) < unvisiting m st"
  unfolding unvisiting_def by (rule psubset_card_mono) (auto simp: bt_get_def map_of_eq_None_iff)

termination visit
proof (relation "measures [\<lambda>x. case x of Inl (m, _, st) \<Rightarrow> unvisiting m st | Inr (m, _, _, st) \<Rightarrow> unvisiting m st,
    \<lambda>x. case x of Inl _ \<Rightarrow> 1 | Inr (_, _, deps, _) \<Rightarrow> 2 * length deps]", goal_cases)
  case (2 m name st)
  show ?case
  proof (cases "bt_get m name")
    case None
    then have "name \<notin> fst ` set m" by (simp add: bt_get_def map_of_eq_None_iff)
    then have "fst ` set m - insert name (vs_visiting st) = fst ` set m - vs_visiting st" by auto
    with None show ?thesis by (simp add: unvisiting_def)
  next
    case (Some spec)
    with unvisiting_enter [OF 2(1)] show ?thesis by simp
  qed
next
  case (4 m name dep deps st st1)
  then have "vs_visiting st1 = vs_visiting st" by (auto dest: visit_visiting(1))
  then show ?case by (simp add: unvisiting_def)
qed simp_all

definition visit_state_new :: visit_state where
  "visit_state_new = \<lparr>vs_visiting = {}, vs_visited = {}, vs_order = []\<rparr>"

fun visit_all :: "boot_manifest \<Rightarrow> string list \<Rightarrow> visit_state \<Rightarrow> manifest_error + visit_state" where
  "visit_all m [] st = Inr st"
| "visit_all m (name # names) st =
     (if name \<notin> vs_visited st then
        (case visit m name st of Inl e \<Rightarrow> Inl e | Inr st1 \<Rightarrow> visit_all m names st1)
      else visit_all m names st)"

definition startup_order :: "boot_manifest \<Rightarrow> manifest_error + string list" where
  "startup_order m =
     (case visit_all m (bt_keys m) visit_state_new of Inl e \<Rightarrow> Inl e | Inr st \<Rightarrow> Inr (vs_order st))"

section \<open>The service registry\<close>

datatype service_state = SvcPending | SvcReady | SvcFailed

record service_runtime =
  sr_state :: service_state
  sr_granted_capabilities :: "string list"

record service_manager =
  sm_manifest :: boot_manifest
  sm_plan :: "string list"
  sm_registry :: "(string, service_runtime) btree"

datatype lifecycle_error = UnknownService string | InvalidTransition string service_state service_state

definition service_manager_build :: "boot_manifest \<Rightarrow> manifest_error + service_manager" where
  "service_manager_build m =
     (if manifest_count m = 0 then Inl EmptyManifest
      else
        (case startup_order m of
           Inl e \<Rightarrow> Inl e
         | Inr plan \<Rightarrow>
             Inr \<lparr>sm_manifest = m, sm_plan = plan,
                  sm_registry = fold (\<lambda>(name, spec). bt_insert name
                    \<lparr>sr_state = SvcPending, sr_granted_capabilities = sv_capabilities spec\<rparr>) (bt_iter m) bt_empty\<rparr>))"

definition get_service_state :: "service_manager \<Rightarrow> string \<Rightarrow> service_state option" where
  "get_service_state sm name = map_option sr_state (bt_get (sm_registry sm) name)"

definition mark_ready :: "string \<Rightarrow> service_manager \<Rightarrow> (lifecycle_error + unit) \<times> service_manager" where
  "mark_ready name sm =
     (case bt_get (sm_registry sm) name of
        None \<Rightarrow> (Inl (UnknownService name), sm)
      | Some rt \<Rightarrow>
          (case sr_state rt of
             SvcPending \<Rightarrow> (Inr (), sm\<lparr>sm_registry := bt_insert name (rt\<lparr>sr_state := SvcReady\<rparr>) (sm_registry sm)\<rparr>)
           | SvcReady \<Rightarrow> (Inr (), sm)
           | SvcFailed \<Rightarrow> (Inl (InvalidTransition name SvcFailed SvcReady), sm)))"

definition mark_failed :: "string \<Rightarrow> service_manager \<Rightarrow> (lifecycle_error + unit) \<times> service_manager" where
  "mark_failed name sm =
     (case bt_get (sm_registry sm) name of
        None \<Rightarrow> (Inl (UnknownService name), sm)
      | Some rt \<Rightarrow>
          (case sr_state rt of
             SvcFailed \<Rightarrow> (Inr (), sm)
           | _ \<Rightarrow> (Inr (), sm\<lparr>sm_registry := bt_insert name (rt\<lparr>sr_state := SvcFailed\<rparr>) (sm_registry sm)\<rparr>)))"

definition planned_capabilities :: "service_manager \<Rightarrow> string \<Rightarrow> string list option" where
  "planned_capabilities sm name = map_option sr_granted_capabilities (bt_get (sm_registry sm) name)"

definition EMBEDDED_BOOT_MANIFEST :: string where
  \<open>EMBEDDED_BOOT_MANIFEST = unlines
    ['''',
     ''[service.ui_shell]'',
     ''binary = "/init/ui_shell.elf"'',
     ''capabilities = ["FrameBufferCap", "PointerCap"]'',
     '''',
     ''[service.fs_server]'',
     ''binary = "/init/fs.elf"'',
     ''capabilities = ["MemRegionCap", "IPCPortCap"]'',
     ''depends_on = ["storage_driver"]'',
     '''',
     ''[service.storage_driver]'',
     ''binary = "/init/nvme_driver.elf"'',
     ''capabilities = ["IRQCap:33", "DeviceCap:0000:01:00.0", "DMABufferCap"]'']\<close>

definition init_embedded_manifest :: "manifest_error abort + service_manager" where
  "init_embedded_manifest =
     (case parse_manifest EMBEDDED_BOOT_MANIFEST of
        Inl e \<Rightarrow> Inl e
      | Inr m \<Rightarrow> (case service_manager_build m of Inl e \<Rightarrow> Inl (Reported e) | Inr sm \<Rightarrow> Inr sm))"


section \<open>The startup order is topological\<close>

definition deps_of :: "boot_manifest \<Rightarrow> string \<Rightarrow> string list" where
  "deps_of m name = (case bt_get m name of Some spec \<Rightarrow> sv_depends_on spec | None \<Rightarrow> [])"

definition dep_rel :: "boot_manifest \<Rightarrow> (string \<times> string) set" where
  "dep_rel m = {(a, b). b \<in> set (deps_of m a)}"

definition topological :: "boot_manifest \<Rightarrow> string list \<Rightarrow> bool" where
  "topological m order \<longleftrightarrow> (\<forall>i < length order. set (deps_of m (order ! i)) \<subseteq> set (take i order))"

lemma topological_snoc:
  assumes "topological m order" and "set (deps_of m name) \<subseteq> set order"
  shows "topological m (order @ [name])"
  using assms by (auto simp: topological_def nth_append less_Suc_eq)

definition visit_ok :: "boot_manifest \<Rightarrow> visit_state \<Rightarrow> bool" where
  "visit_ok m st \<longleftrightarrow> vs_visited st = set (vs_order st) \<and> distinct (vs_order st)
     \<and> vs_visiting st \<inter> vs_visited st = {} \<and> topological m (vs_order st)
     \<and> vs_visited st \<subseteq> {n. bt_contains m n}"

declare visit.simps [simp del] visit_deps.simps [simp del]

lemmas visit_eqs = visit.simps [folded deps_of_def] visit_deps.simps

lemma visit_Inr_cases:
  "visit m name st = Inr st' \<Longrightarrow> name \<notin> vs_visiting st \<and> (name \<in> vs_visited st \<and> st' = st \<or>
     name \<notin> vs_visited st \<and> (\<exists>st1. visit_deps m name (deps_of m name) (st\<lparr>vs_visiting := insert name (vs_visiting st)\<rparr>) = Inr st1
       \<and> st' = st1\<lparr>vs_visiting := vs_visiting st1 - {name}, vs_visited := insert name (vs_visited st1),
            vs_order := vs_order st1 @ [name]\<rparr>))"
  by (auto simp: visit_eqs split: if_splits sum.splits)

lemma visit_deps_Inr_cases:
  "visit_deps m name (dep # deps) st = Inr st' \<Longrightarrow>
   \<exists>st1. bt_contains m dep \<and> visit m dep st = Inr st1 \<and> visit_deps m name deps st1 = Inr st'"
  by (auto simp: visit_eqs split: if_splits sum.splits)

lemma visit_keeps_visiting:
  "visit m name st = Inr st' \<Longrightarrow> vs_visiting st' = vs_visiting st"
  "visit_deps m name deps st = Inr st' \<Longrightarrow> vs_visiting st' = vs_visiting st"
proof (induction m name st and m name deps st arbitrary: st' and st' rule: visit_visit_deps.induct)
  case (1 m name st)
  from visit_Inr_cases [OF 1(2)] show ?case
  proof (elim conjE disjE exE)
    fix st1
    assume n: "name \<notin> vs_visiting st" "name \<notin> vs_visited st"
      and st1: "visit_deps m name (deps_of m name) (st\<lparr>vs_visiting := insert name (vs_visiting st)\<rparr>) = Inr st1"
      and "st' = st1\<lparr>vs_visiting := vs_visiting st1 - {name}, vs_visited := insert name (vs_visited st1),
            vs_order := vs_order st1 @ [name]\<rparr>"
    with 1(1) [OF n st1 [unfolded deps_of_def]] show ?thesis by simp
  qed simp
next
  case (3 m name dep deps st)
  from visit_deps_Inr_cases [OF 3(3)] obtain st1
    where st1: "bt_contains m dep" "visit m dep st = Inr st1" "visit_deps m name deps st1 = Inr st'" by blast
  from 3(1) [OF _ st1(2)] 3(2) [OF _ st1(2,3)] st1(1) show ?case by simp
qed (simp add: visit_eqs)

lemma visit_enter_ok:
  "visit_ok m st \<Longrightarrow> name \<notin> vs_visited st \<Longrightarrow> visit_ok m (st\<lparr>vs_visiting := insert name (vs_visiting st)\<rparr>)"
  by (auto simp: visit_ok_def)

lemma visit_leave_ok:
  assumes "visit_ok m st" and "name \<in> vs_visiting st" and "set (deps_of m name) \<subseteq> vs_visited st" and "bt_contains m name"
  shows "visit_ok m (st\<lparr>vs_visiting := vs_visiting st - {name}, vs_visited := insert name (vs_visited st),
    vs_order := vs_order st @ [name]\<rparr>)"
  using assms by (auto simp: visit_ok_def intro!: topological_snoc)

lemma visit_success:
  "visit m name st = Inr st' \<Longrightarrow> visit_ok m st \<Longrightarrow> bt_contains m name \<Longrightarrow>
     visit_ok m st' \<and> name \<in> vs_visited st' \<and> vs_visited st \<subseteq> vs_visited st'"
  "visit_deps m name deps st = Inr st' \<Longrightarrow> visit_ok m st \<Longrightarrow>
     visit_ok m st' \<and> set deps \<subseteq> vs_visited st' \<and> vs_visited st \<subseteq> vs_visited st'"
proof (induction m name st and m name deps st arbitrary: st' and st' rule: visit_visit_deps.induct)
  case (1 m name st)
  show ?case
  proof (cases "name \<in> vs_visiting st \<or> name \<in> vs_visited st")
    case True
    with 1(2,3) show ?thesis by (auto simp: visit_eqs split: if_splits)
  next
    case False
    let ?st = "st\<lparr>vs_visiting := insert name (vs_visiting st)\<rparr>"
    from False 1(2) obtain st1 where st1: "visit_deps m name (deps_of m name) ?st = Inr st1"
      and st': "st' = st1\<lparr>vs_visiting := vs_visiting st1 - {name}, vs_visited := insert name (vs_visited st1),
        vs_order := vs_order st1 @ [name]\<rparr>"
      by (auto simp: visit_eqs split: sum.splits)
    have ok1: "visit_ok m st1" "set (deps_of m name) \<subseteq> vs_visited st1" "vs_visited st \<subseteq> vs_visited st1"
      using 1(1) [OF _ _ st1 [unfolded deps_of_def] visit_enter_ok [OF 1(3)]] False by (auto simp: deps_of_def)
    moreover have "name \<in> vs_visiting st1" using visit_keeps_visiting(2) [OF st1] by simp
    ultimately show ?thesis using visit_leave_ok 1(4) by (auto simp: st')
  qed
next
  case (3 m name dep deps st)
  from visit_deps_Inr_cases [OF 3(3)] obtain st1
    where st1: "bt_contains m dep" "visit m dep st = Inr st1" "visit_deps m name deps st1 = Inr st'" by blast
  from 3(1) [OF _ st1(2) 3(4) st1(1)] st1(1)
  have a: "visit_ok m st1" "dep \<in> vs_visited st1" "vs_visited st \<subseteq> vs_visited st1" by auto
  from 3(2) [OF _ st1(2,3) a(1)] st1(1)
  have "visit_ok m st'" "set deps \<subseteq> vs_visited st'" "vs_visited st1 \<subseteq> vs_visited st'" by auto
  with a show ?case by auto
qed (auto simp: visit_eqs)

text \<open>An error names a cycle or a dependency that no service provides.\<close>

fun justified :: "boot_manifest \<Rightarrow> manifest_error \<Rightarrow> bool" where
  "justified m (DependencyCycle n) \<longleftrightarrow> (n, n) \<in> (dep_rel m)\<^sup>+"
| "justified m (UnknownDependency a b) \<longleftrightarrow> (a, b) \<in> dep_rel m \<and> \<not> bt_contains m b"
| "justified m _ \<longleftrightarrow> False"

lemma visit_failure:
  "visit m name st = Inl e \<Longrightarrow> \<forall>v \<in> vs_visiting st. (v, name) \<in> (dep_rel m)\<^sup>+ \<Longrightarrow> justified m e"
  "visit_deps m name deps st = Inl e \<Longrightarrow> \<forall>v \<in> vs_visiting st. (v, name) \<in> (dep_rel m)\<^sup>* \<Longrightarrow>
     set deps \<subseteq> set (deps_of m name) \<Longrightarrow> justified m e"
proof (induction m name st and m name deps st rule: visit_visit_deps.induct)
  case (1 m name st)
  show ?case
  proof (cases "name \<in> vs_visiting st")
    case True
    with 1(2,3) show ?thesis by (auto simp: visit_eqs)
  next
    case False
    let ?st = "st\<lparr>vs_visiting := insert name (vs_visiting st)\<rparr>"
    from False 1(2) have f: "name \<notin> vs_visited st" "visit_deps m name (deps_of m name) ?st = Inl e"
      by (auto simp: visit_eqs split: if_splits sum.splits)
    from 1(3) have "\<forall>v \<in> vs_visiting ?st. (v, name) \<in> (dep_rel m)\<^sup>*" by (auto intro: trancl_into_rtrancl)
    from 1(1) [OF False f(1) f(2) [unfolded deps_of_def] this] show ?thesis by (simp add: deps_of_def)
  qed
next
  case (3 m name dep deps st)
  show ?case
  proof (cases "bt_contains m dep")
    case False
    with 3(3,5) show ?thesis by (auto simp: visit_eqs dep_rel_def)
  next
    case True
    have dep: "(name, dep) \<in> dep_rel m" using 3(5) by (simp add: dep_rel_def)
    show ?thesis
    proof (cases "visit m dep st")
      case (Inl e')
      with True 3(3) have "e' = e" by (simp add: visit_eqs)
      moreover have "\<forall>v \<in> vs_visiting st. (v, dep) \<in> (dep_rel m)\<^sup>+" using 3(4) dep by (blast intro: rtrancl_into_trancl1)
      ultimately show ?thesis using 3(1) [of ] True Inl by auto
    next
      case (Inr st1)
      with True 3(3) have "visit_deps m name deps st1 = Inl e" by (simp add: visit_eqs)
      from 3(2) [OF _ Inr this] visit_keeps_visiting(1) [OF Inr] 3(4,5) True show ?thesis by simp
    qed
  qed
qed (auto simp: visit_eqs)

lemma visit_all_spec:
  assumes "visit_ok m st" and "vs_visiting st = {}" and "\<forall>n \<in> set names. bt_contains m n"
  shows "case visit_all m names st of
      Inl e \<Rightarrow> justified m e
    | Inr st' \<Rightarrow> visit_ok m st' \<and> set names \<subseteq> vs_visited st' \<and> vs_visited st \<subseteq> vs_visited st'"
  using assms
proof (induction names arbitrary: st)
  case (Cons name names)
  show ?case
  proof (cases "name \<in> vs_visited st")
    case True
    with Cons.IH [of st] Cons.prems show ?thesis by (auto split: sum.splits)
  next
    case False
    show ?thesis
    proof (cases "visit m name st")
      case (Inl e)
      with visit_failure(1) [OF Inl] Cons.prems False show ?thesis by simp
    next
      case (Inr st1)
      from visit_success(1) [OF Inr] Cons.prems
      have "visit_ok m st1" "name \<in> vs_visited st1" "vs_visited st \<subseteq> vs_visited st1" by auto
      moreover have "vs_visiting st1 = {}" using visit_keeps_visiting(1) [OF Inr] Cons.prems by simp
      ultimately show ?thesis using Cons.IH [of st1] Cons.prems Inr False by (auto split: sum.splits)
    qed
  qed
qed simp

lemma bt_keys_contains: "set (bt_keys m) = {n. bt_contains m n}"
  by (auto simp: bt_keys_def bt_contains_def bt_get_def map_of_eq_None_iff)

lemma startup_order_spec:
  "case startup_order m of
     Inl e \<Rightarrow> justified m e
   | Inr plan \<Rightarrow> distinct plan \<and> set plan = set (bt_keys m) \<and> topological m plan"
proof -
  have "visit_ok m visit_state_new" by (simp add: visit_ok_def visit_state_new_def topological_def)
  from visit_all_spec [OF this, of "bt_keys m"] show ?thesis
    by (auto simp: startup_order_def visit_state_new_def bt_keys_contains visit_ok_def split: sum.splits)
qed

lemma length_takeWhile_less_iff: "length (takeWhile P xs) < length xs \<longleftrightarrow> (\<exists>x \<in> set xs. \<not> P x)"
  by (induction xs) auto

lemma topological_acyclic:
  assumes "topological m plan" and "\<And>a b. (a, b) \<in> dep_rel m \<Longrightarrow> a \<in> set plan"
  shows "acyclic (dep_rel m)"
proof -
  define idx where "idx a = length (takeWhile (\<lambda>x. x \<noteq> a) plan)" for a
  have "idx b < idx a" if "(a, b) \<in> dep_rel m" for a b
  proof -
    have a: "idx a < length plan"
      using assms(2) [OF that] by (auto simp: idx_def length_takeWhile_less_iff)
    moreover from a have "plan ! idx a = a"
      unfolding idx_def using nth_length_takeWhile [of "\<lambda>x. x \<noteq> a" plan] by simp
    ultimately have a: "idx a < length plan" "plan ! idx a = a" .
    have "set (deps_of m (plan ! idx a)) \<subseteq> set (take (idx a) plan)" using assms(1) a(1) by (simp add: topological_def)
    with that a(2) have "b \<in> set (take (idx a) plan)" by (auto simp: dep_rel_def)
    then obtain j where j: "j < idx a" "j < length plan" "plan ! j = b" by (auto simp: in_set_conv_nth)
    then have "idx b \<le> j" unfolding idx_def by (metis (mono_tags, lifting) leI nth_mem set_takeWhileD takeWhile_nth)
    with j(1) show ?thesis by simp
  qed
  then have "dep_rel m \<subseteq> (inv_image less_than idx)\<inverse>" by auto
  then show ?thesis by (metis acyclic_converse acyclic_subset wf_acyclic wf_inv_image wf_less_than)
qed

lemma dep_rel_contains: "(a, b) \<in> dep_rel m \<Longrightarrow> bt_contains m a"
  by (cases "bt_get m a") (simp_all add: dep_rel_def deps_of_def bt_contains_def)

lemma startup_order_exact:
  "(\<exists>plan. startup_order m = Inr plan) \<longleftrightarrow> acyclic (dep_rel m) \<and> Range (dep_rel m) \<subseteq> set (bt_keys m)"
proof
  assume "\<exists>plan. startup_order m = Inr plan"
  then obtain plan where p: "distinct plan" "set plan = set (bt_keys m)" "topological m plan"
    using startup_order_spec [of m] by auto
  have dom: "a \<in> set plan" if "(a, b) \<in> dep_rel m" for a b
    using dep_rel_contains [OF that] by (simp add: p(2) bt_keys_contains)
  have "b \<in> set plan" if ab: "(a, b) \<in> dep_rel m" for a b
  proof -
    from dom [OF ab] obtain i where i: "i < length plan" "plan ! i = a" by (auto simp: in_set_conv_nth)
    then have "set (deps_of m a) \<subseteq> set (take i plan)" using p(3) by (auto simp: topological_def)
    moreover have "b \<in> set (deps_of m a)" using ab by (simp add: dep_rel_def)
    ultimately have "b \<in> set (take i plan)" by (rule subsetD)
    then show ?thesis by (rule in_set_takeD)
  qed
  then have "Range (dep_rel m) \<subseteq> set plan" by auto
  with topological_acyclic [OF p(3) dom] show "acyclic (dep_rel m) \<and> Range (dep_rel m) \<subseteq> set (bt_keys m)"
    by (simp only: p(2))
next
  assume ok: "acyclic (dep_rel m) \<and> Range (dep_rel m) \<subseteq> set (bt_keys m)"
  show "\<exists>plan. startup_order m = Inr plan"
  proof (cases "startup_order m")
    case (Inl e)
    with startup_order_spec [of m] have "justified m e" by simp
    moreover have "bt_contains m b" if "(a, b) \<in> dep_rel m" for a b
      using subsetD [OF conjunct2 [OF ok] RangeI [OF that]] by (simp add: bt_keys_contains)
    moreover have "(n, n) \<notin> (dep_rel m)\<^sup>+" for n using ok by (simp add: acyclic_def)
    ultimately have False by (cases e) auto
    then show ?thesis ..
  qed simp
qed


section \<open>Parsing yields a well-formed manifest\<close>

definition specs_named :: "boot_manifest \<Rightarrow> bool" where
  "specs_named m \<longleftrightarrow> bt_wf m \<and> (\<forall>name spec. bt_get m name = Some spec \<longrightarrow> sv_name spec = name)"

fun parse_state_ok :: "parse_state \<Rightarrow> bool" where
  "parse_state_ok (services, current) \<longleftrightarrow>
     specs_named services \<and> (case current of None \<Rightarrow> True | Some name \<Rightarrow> bt_contains services name)"

lemma specs_named_insert: "specs_named m \<Longrightarrow> sv_name spec = name \<Longrightarrow> specs_named (bt_insert name spec m)"
  by (auto simp: specs_named_def)

lemma specs_named_get: "specs_named m \<Longrightarrow> bt_get m name = Some spec \<Longrightarrow> sv_name spec = name"
  by (simp add: specs_named_def)

lemma parse_line_ok:
  assumes "parse_state_ok st"
  shows "case parse_line n line st of Inl e \<Rightarrow> e \<noteq> Panicked | Inr st' \<Rightarrow> parse_state_ok st'"
proof -
  obtain services current where st: "st = (services, current)" by fastforce
  consider (sect) "starts_with (trim line) ''[''" | (skip) "trim line = [] \<or> starts_with (trim line) ''#''"
    | (item) "\<not> starts_with (trim line) ''['' \<and> \<not> (trim line = [] \<or> starts_with (trim line) ''#'')" by blast
  then show ?thesis
  proof cases
    case skip
    with assms show ?thesis by (simp add: parse_line_def st)
  next
    case sect
    with assms show ?thesis
      by (auto simp: parse_line_def st Let_def service_spec_new_def specs_named_insert split: option.split)
  next
    case item
    show ?thesis
    proof (cases current)
      case (Some name)
      with assms obtain spec where spec: "bt_get services name = Some spec" "sv_name spec = name" "specs_named services"
        by (auto simp: st bt_contains_def specs_named_get)
      show ?thesis
      proof (cases "parse_key_value (trim line) n")
        case (Inr kv)
        with item Some spec show ?thesis
          by (cases kv; cases "parse_array (snd kv) n")
            (simp_all add: parse_line_def st Let_def specs_named_insert)
      qed (use item Some in \<open>simp add: parse_line_def st Let_def\<close>)
    qed (use item in \<open>simp add: parse_line_def st Let_def\<close>)
  qed
qed

lemma parse_lines_ok:
  "parse_state_ok st \<Longrightarrow> case parse_lines n ls st of Inl e \<Rightarrow> e \<noteq> Panicked | Inr st' \<Rightarrow> parse_state_ok st'"
proof (induction ls arbitrary: n st)
  case (Cons l ls)
  show ?case
  proof (cases "parse_line (n + 1) l st")
    case (Inr st1)
    with parse_line_ok [OF Cons.prems, of "n + 1" l] Cons.IH [of st1 "n + 1"] show ?thesis by simp
  qed (use parse_line_ok [OF Cons.prems, of "n + 1" l] in simp)
qed simp

lemma find_None_all: "find P xs = None \<longleftrightarrow> (\<forall>x \<in> set xs. \<not> P x)"
  by (induction xs) auto

lemma parse_manifest_ok:
  "case parse_manifest text of
     Inl e \<Rightarrow> e \<noteq> Panicked
   | Inr m \<Rightarrow> specs_named m \<and> m \<noteq> bt_empty \<and> (\<forall>spec \<in> set (bt_values m). sv_binary spec \<noteq> [])"
proof -
  have "parse_state_ok (bt_empty, None)" by (simp add: specs_named_def)
  from parse_lines_ok [OF this, of 0 "str_lines text"] show ?thesis
  proof (cases "parse_lines 0 (str_lines text) (bt_empty, None)")
    case (Inr st)
    with parse_lines_ok [OF \<open>parse_state_ok (bt_empty, None)\<close>, of 0 "str_lines text"] show ?thesis
      by (cases st) (auto simp: parse_manifest_def find_None_all split: option.split)
  qed (simp add: parse_manifest_def)
qed

section \<open>Printing and parsing again\<close>

text \<open>
  A printer for manifests in the format the parser documents. Names and binaries may hold
  any character but line ends, list entries any but line ends and commas.
\<close>

definition quoted :: "string \<Rightarrow> string" where
  "quoted s = quote @ s @ quote"

fun join :: "string \<Rightarrow> string list \<Rightarrow> string" where
  "join sep [] = []"
| "join sep [p] = p"
| "join sep (p # ps) = p @ sep @ join sep ps"

definition print_array :: "string list \<Rightarrow> string" where
  "print_array xs = ''['' @ join '','' (map quoted xs) @ '']''"

definition print_service :: "service_spec \<Rightarrow> string list" where
  "print_service spec =
     [''[service.'' @ sv_name spec @ '']'',
      ''binary = '' @ quoted (sv_binary spec),
      ''capabilities = '' @ print_array (sv_capabilities spec),
      ''depends_on = '' @ print_array (sv_depends_on spec)]"

definition print_manifest :: "boot_manifest \<Rightarrow> string" where
  "print_manifest m = unlines (concat (map print_service (bt_values m)))"

definition line_free :: "string \<Rightarrow> bool" where
  "line_free s \<longleftrightarrow> newline \<notin> set s \<and> CHR 0x0D \<notin> set s"

definition entry_ok :: "string \<Rightarrow> bool" where
  "entry_ok s \<longleftrightarrow> line_free s \<and> CHR '','' \<notin> set s"

definition printable :: "service_spec \<Rightarrow> bool" where
  "printable spec \<longleftrightarrow> line_free (sv_name spec) \<and> line_free (sv_binary spec) \<and> sv_binary spec \<noteq> []
     \<and> list_all entry_ok (sv_capabilities spec) \<and> list_all entry_ok (sv_depends_on spec)"

lemma is_ws_eval [simp]:
  "is_ws (CHR '' '')" "\<not> is_ws (CHR ''['')" "\<not> is_ws (CHR '']'')" "\<not> is_ws (CHR 0x22)"
  "\<not> is_ws (CHR ''y'')" "\<not> is_ws (CHR ''s'')" "\<not> is_ws (CHR ''n'')"
  "\<not> is_ws (CHR ''b'')" "\<not> is_ws (CHR ''c'')" "\<not> is_ws (CHR ''d'')"
  by (simp_all add: is_ws_def)

lemma trim_quoted [simp]: "trim (quoted s) = quoted s"
  by (rule trim_trimmed) (simp add: trimmed_def quoted_def)

lemma trim_array [simp]: "trim (print_array xs) = print_array xs"
  by (rule trim_trimmed) (simp add: trimmed_def print_array_def)

lemma unquote_quoted [simp]: "unquote (quoted s) = s"
proof -
  have "strip_prefix (quoted s) quote = Some (s @ quote)" by (simp only: quoted_def strip_prefix_append)
  then show ?thesis by (simp only: unquote_def option.case strip_suffix_append)
qed

lemma split_join:
  assumes "\<forall>p \<in> set ps. CHR '','' \<notin> set p" and "ps \<noteq> []"
  shows "split_char (CHR '','') (join '','' ps) = ps"
  using assms
proof (induction ps)
  case (Cons p ps)
  then show ?case by (cases ps) (simp_all add: split_char_no_sep split_char_append)
qed simp

lemma parse_array_print:
  assumes "list_all entry_ok xs"
  shows "parse_array (print_array xs) n = Inr xs"
proof -
  have inner: "take (length (print_array xs) - 2) (drop (Suc 0) (print_array xs)) = join '','' (map quoted xs)"
    by (simp add: print_array_def)
  have se: "starts_with (print_array xs) ''[''" "ends_with (print_array xs) '']''"
    by (simp_all add: print_array_def starts_with_def ends_with_def)
  have "\<forall>p \<in> set (map quoted xs). CHR '','' \<notin> set p" using assms by (auto simp: entry_ok_def quoted_def list_all_iff)
  then have "filter (\<lambda>i. i \<noteq> []) (map trim (split_char (CHR '','') (join '','' (map quoted xs)))) = map quoted xs"
  proof (cases "xs = []")
    case False
    assume "\<forall>p \<in> set (map quoted xs). CHR '','' \<notin> set p"
    with False have "split_char (CHR '','') (join '','' (map quoted xs)) = map quoted xs" by (intro split_join) auto
    then show ?thesis by (simp add: comp_def filter_map) (simp add: quoted_def)
  qed (simp add: trim_def)
  then show ?thesis by (simp add: parse_array_def Let_def inner se comp_def)
qed

lemma key_value_line:
  assumes "key \<in> {''binary'', ''capabilities'', ''depends_on''}" and "trimmed val" and "val \<noteq> []"
  shows "trim (key @ '' = '' @ val) = key @ '' = '' @ val"
    and "parse_key_value (key @ '' = '' @ val) n = Inr (key, val)"
    and "\<not> starts_with (key @ '' = '' @ val) ''[''" and "\<not> starts_with (key @ '' = '' @ val) ''#''"
proof -
  show "trim (key @ '' = '' @ val) = key @ '' = '' @ val"
    using assms by (intro trim_trimmed) (auto simp: trimmed_def)
  have "split_once (CHR ''='') ((key @ '' '') @ CHR ''='' # '' '' @ val) = Some (key @ '' '', '' '' @ val)"
    using assms(1) by (intro split_once_append) auto
  moreover have "trim (key @ '' '') = key" using assms(1) by (intro trim_trailing) (auto simp: trimmed_def)
  moreover have "trim ('' '' @ val) = val" using assms(2) by (simp add: trim_leading trim_trimmed)
  ultimately show "parse_key_value (key @ '' = '' @ val) n = Inr (key, val)" by (simp add: parse_key_value_def)
  show "\<not> starts_with (key @ '' = '' @ val) ''[''" "\<not> starts_with (key @ '' = '' @ val) ''#''"
    using assms(1) by (auto simp: starts_with_def)
qed


lemma parse_section_line:
  assumes "\<not> bt_contains services name"
  shows "parse_line n (''[service.'' @ name @ '']'') (services, cur)
    = Inr (bt_insert name (service_spec_new name) services, Some name)"
proof -
  let ?l = "''[service.'' @ name @ '']''"
  have t: "trim ?l = ?l" by (rule trim_trimmed) (simp add: trimmed_def)
  have se: "starts_with ?l ''[''" "\<not> starts_with ?l ''#''" "ends_with ?l '']''"
    by (simp_all add: starts_with_def ends_with_def)
  have "take (length ?l - 2) (drop 1 ?l) = ''service.'' @ name" by simp
  then have "strip_prefix (take (length ?l - 2) (drop 1 ?l)) ''service.'' = Some name"
    by (simp only: strip_prefix_append)
  with t se assms show ?thesis by (simp only: parse_line_def Let_def) simp
qed

lemma parse_item_line:
  assumes "key \<in> {''binary'', ''capabilities'', ''depends_on''}" and "trimmed val" and "val \<noteq> []"
    and "bt_get services name = Some spec"
  shows "parse_line n (key @ '' = '' @ val) (services, Some name) =
    (if key = ''binary'' then Inr (bt_insert name (spec\<lparr>sv_binary := parse_string val\<rparr>) services, Some name)
     else (case parse_array val n of
         Inl e \<Rightarrow> Inl (Reported e)
       | Inr xs \<Rightarrow> Inr (bt_insert name (if key = ''capabilities'' then spec\<lparr>sv_capabilities := xs\<rparr>
             else spec\<lparr>sv_depends_on := xs\<rparr>) services, Some name)))"
proof -
  define l where "l = key @ '' = '' @ val"
  note l = key_value_line [OF assms(1-3), folded l_def]
  have l0: "l \<noteq> []" by (simp add: l_def)
  have step: "parse_line n l (services, Some name) =
      (if key = ''binary'' then Inr (bt_insert name (spec\<lparr>sv_binary := parse_string val\<rparr>) services, Some name)
       else if key = ''capabilities'' then
         (case parse_array val n of Inl e \<Rightarrow> Inl (Reported e)
          | Inr caps \<Rightarrow> Inr (bt_insert name (spec\<lparr>sv_capabilities := caps\<rparr>) services, Some name))
       else if key = ''depends_on'' then
         (case parse_array val n of Inl e \<Rightarrow> Inl (Reported e)
          | Inr deps \<Rightarrow> Inr (bt_insert name (spec\<lparr>sv_depends_on := deps\<rparr>) services, Some name))
       else Inl (Reported (UnknownKey key n)))"
    by (simp add: parse_line_def Let_def l l0 assms(4))
  from assms(1) consider "key = ''binary''" | "key = ''capabilities''" | "key = ''depends_on''" by blast
  then show ?thesis unfolding l_def [symmetric] step by cases (simp_all split: sum.split)
qed

lemma parse_service:
  assumes "printable spec" and "\<not> bt_contains services (sv_name spec)"
  shows "parse_lines n (print_service spec @ rest) (services, cur)
    = parse_lines (n + 4) rest (bt_insert (sv_name spec) spec services, Some (sv_name spec))"
proof -
  have q: "trimmed (quoted b)" "quoted b \<noteq> []" for b by (simp_all add: trimmed_def quoted_def)
  have a: "trimmed (print_array xs)" "print_array xs \<noteq> []" for xs by (simp_all add: trimmed_def print_array_def)
  have p: "parse_string (quoted b) = b" for b by (simp add: parse_string_def)
  have ar: "parse_array (print_array (sv_capabilities spec)) k = Inr (sv_capabilities spec)"
    "parse_array (print_array (sv_depends_on spec)) k = Inr (sv_depends_on spec)" for k
    using assms(1) by (simp_all add: printable_def parse_array_print)
  have eta: "\<lparr>sv_name = sv_name spec, sv_binary = sv_binary spec, sv_capabilities = sv_capabilities spec,
      sv_depends_on = sv_depends_on spec\<rparr> = spec" by simp
  note lines = parse_section_line [OF assms(2)] parse_item_line [OF _ q, of "''binary''"]
    parse_item_line [OF _ a, of "''capabilities''"] parse_item_line [OF _ a, of "''depends_on''"]
  show ?thesis
    by (simp only: print_service_def append_Cons append_Nil parse_lines.simps lines)
      (simp add: lines [simplified] p ar service_spec_new_def eta numeral_eq_Suc)
qed


lemma parse_services:
  assumes "list_all printable specs" and "distinct (map sv_name specs)"
    and "\<forall>spec \<in> set specs. \<not> bt_contains services (sv_name spec)"
  shows "\<exists>cur'. parse_lines n (concat (map print_service specs)) (services, cur)
    = Inr (fold (\<lambda>spec. bt_insert (sv_name spec) spec) specs services, cur')"
  using assms
proof (induction specs arbitrary: n services cur)
  case (Cons spec specs)
  from Cons.prems(2) have "sv_name s \<noteq> sv_name spec" if "s \<in> set specs" for s
    using imageI [OF that, of sv_name] by auto
  with Cons.prems have c: "list_all printable specs" "distinct (map sv_name specs)"
    "\<forall>s \<in> set specs. \<not> bt_contains (bt_insert (sv_name spec) spec services) (sv_name s)"
    "printable spec" "\<not> bt_contains services (sv_name spec)" by auto
  from Cons.IH [OF c(1-3), of "n + 4" "Some (sv_name spec)"] show ?case
    by (simp add: parse_service [OF c(4,5)])
qed simp

lemma line_free_append [simp]: "line_free (a @ b) \<longleftrightarrow> line_free a \<and> line_free b"
  by (auto simp: line_free_def)

lemma line_free_Cons [simp]: "line_free []" "line_free (c # s) \<longleftrightarrow> c \<noteq> newline \<and> c \<noteq> CHR 0x0D \<and> line_free s"
  by (auto simp: line_free_def)

lemma line_free_quoted [simp]: "line_free (quoted s) = line_free s"
  by (simp add: quoted_def)

lemma line_free_join: "\<forall>p \<in> set ps. line_free p \<Longrightarrow> line_free (join '','' ps)"
proof (induction ps)
  case (Cons p ps)
  then show ?case by (cases ps) (simp_all add: line_free_def)
qed (simp add: line_free_def)

lemma line_free_array: "list_all entry_ok xs \<Longrightarrow> line_free (print_array xs)"
  unfolding print_array_def by (simp add: line_free_join entry_ok_def list_all_iff)

lemma line_free_keys:
  "line_free ''[service.''" "line_free ''binary = ''" "line_free ''capabilities = ''" "line_free ''depends_on = ''"
  by (simp_all add: line_free_def)

lemma print_service_lines: "printable spec \<Longrightarrow> \<forall>l \<in> set (print_service spec). line_free l"
  by (simp only: print_service_def printable_def set_simps ball_simps line_free_append line_free_keys line_free_array
      line_free_quoted line_free_Cons simp_thms) simp

lemma parse_print:
  assumes "specs_named m" and "m \<noteq> bt_empty" and "list_all printable (bt_values m)"
  shows "parse_manifest (print_manifest m) = Inr m"
proof -
  from assms(1) have wf: "bt_wf m" by (simp add: specs_named_def)
  have kv: "kv \<in> set m \<Longrightarrow> sv_name (snd kv) = fst kv" for kv
    using assms(1) bt_iter_mem [OF wf, of "fst kv" "snd kv"] by (simp add: specs_named_def bt_iter_def)
  then have names: "map sv_name (bt_values m) = map fst m" by (simp add: bt_values_def)
  have "fold (\<lambda>spec. bt_insert (sv_name spec) spec) (bt_values m) bt_empty = fold (\<lambda>(k, v). bt_insert k v) m bt_empty"
    unfolding bt_values_def fold_map comp_def by (rule fold_cong) (auto simp: kv)
  moreover have "str_lines (print_manifest m) = concat (map print_service (bt_values m))"
    unfolding print_manifest_def using assms(3)
    by (intro str_lines_unlines) (auto simp: list_all_iff line_free_def [symmetric] dest: print_service_lines)
  moreover obtain cur where "parse_lines 0 (concat (map print_service (bt_values m))) (bt_empty, None)
      = Inr (fold (\<lambda>spec. bt_insert (sv_name spec) spec) (bt_values m) bt_empty, cur)"
    using parse_services [OF assms(3), of bt_empty 0 None] bt_wf_distinct [OF wf] by (auto simp: names)
  moreover have "find (\<lambda>spec. sv_binary spec = []) (bt_values m) = None"
    using assms(3) by (auto simp: find_None_all list_all_iff printable_def)
  ultimately show ?thesis using assms(2) by (simp add: parse_manifest_def bt_rebuild [OF wf])
qed


section \<open>Lifecycle\<close>

inductive svc_step :: "service_manager \<Rightarrow> service_manager \<Rightarrow> bool" where
  MarkReady: "svc_step sm (snd (mark_ready name sm))"
| MarkFailed: "svc_step sm (snd (mark_failed name sm))"

lemma svc_step_failed:
  "svc_step sm sm' \<Longrightarrow> get_service_state sm name = Some SvcFailed \<Longrightarrow> get_service_state sm' name = Some SvcFailed"
  by (induction rule: svc_step.induct)
    (auto simp: mark_ready_def mark_failed_def get_service_state_def split: option.split service_state.split)

lemma svc_step_frame:
  "svc_step sm sm' \<Longrightarrow> sm_plan sm' = sm_plan sm \<and> sm_manifest sm' = sm_manifest sm
     \<and> planned_capabilities sm' = planned_capabilities sm"
  by (induction rule: svc_step.induct)
    (auto simp: mark_ready_def mark_failed_def planned_capabilities_def fun_eq_iff split: option.split service_state.split)

lemma svc_steps_frame:
  "svc_step\<^sup>*\<^sup>* sm sm' \<Longrightarrow> sm_plan sm' = sm_plan sm \<and> sm_manifest sm' = sm_manifest sm
     \<and> planned_capabilities sm' = planned_capabilities sm
     \<and> (get_service_state sm name = Some SvcFailed \<longrightarrow> get_service_state sm' name = Some SvcFailed)"
  by (induction rule: rtranclp_induct) (auto dest: svc_step_frame svc_step_failed)

section \<open>Properties\<close>

text \<open>
  C20. The startup plan is a topological order: it lists every service of the manifest
  exactly once and each service after all it depends on. When planning fails, the error
  names a service on a dependency cycle or a dependency that the manifest lacks.
\<close>

theorem startup_plan_topological:
  "case startup_order m of
     Inr plan \<Rightarrow> distinct plan \<and> set plan = set (bt_keys m)
       \<and> (\<forall>i < length plan. set (deps_of m (plan ! i)) \<subseteq> set (take i plan))
   | Inl e \<Rightarrow> justified m e"
  using startup_order_spec [of m] by (simp add: topological_def split: sum.splits)

definition example_spec :: "string \<Rightarrow> string list \<Rightarrow> string \<times> service_spec" where
  "example_spec name deps = (name, \<lparr>sv_name = name, sv_binary = ''/init/a.elf'', sv_capabilities = [], sv_depends_on = deps\<rparr>)"

definition example_manifest :: boot_manifest where
  "example_manifest = [example_spec ''fs'' [''nvme'', ''log''], example_spec ''log'' [], example_spec ''nvme'' [''log'']]"

theorem startup_plan_topological_witness:
  "startup_order example_manifest = Inr [''log'', ''nvme'', ''fs'']
   \<and> set (deps_of example_manifest ''fs'') \<subseteq> {''log'', ''nvme''}"
proof -
  have "startup_order example_manifest = Inr [''log'', ''nvme'', ''fs'']" by code_simp
  moreover from this startup_plan_topological [of example_manifest]
  have "\<forall>i < 3. set (deps_of example_manifest ([''log'', ''nvme'', ''fs''] ! i)) \<subseteq> set (take i [''log'', ''nvme'', ''fs''])" by simp
  from spec [OF this, of 2] have "set (deps_of example_manifest ''fs'') \<subseteq> {''log'', ''nvme''}" by simp
  ultimately show ?thesis by blast
qed

text \<open>
  C21. Planning ends for every manifest, and it succeeds exactly for those whose dependency
  relation has no cycle and names only services of the manifest.
\<close>

theorem startup_plan_exact:
  "(\<exists>plan. startup_order m = Inr plan) \<longleftrightarrow> acyclic (dep_rel m) \<and> Range (dep_rel m) \<subseteq> set (bt_keys m)"
  by (rule startup_order_exact)

text \<open>
  Parsing never panics, whatever the text, and a manifest it accepts is well formed:
  not empty, keyed by the names of its services, each with a binary.
\<close>

lemma parse_manifest_well_formed:
  "case parse_manifest input of
     Inl e \<Rightarrow> e \<noteq> Panicked
   | Inr m \<Rightarrow> specs_named m \<and> m \<noteq> bt_empty \<and> list_all (\<lambda>spec. sv_binary spec \<noteq> []) (bt_values m)"
  using parse_manifest_ok [of input] by (simp add: list_all_iff split: sum.splits)

text \<open>
  C22. Printing a manifest and parsing the text gives the manifest back, for all names and
  binaries without line ends and all list entries without line ends and commas.
\<close>

theorem parse_print_manifest:
  assumes "specs_named m" and "m \<noteq> bt_empty" and "list_all printable (bt_values m)"
  shows "parse_manifest (print_manifest m) = Inr m"
  by (rule parse_print [OF assms])

theorem parse_print_manifest_witness: "parse_manifest (print_manifest example_manifest) = Inr example_manifest"
proof -
  have "specs_named example_manifest"
    by (simp add: specs_named_def example_manifest_def example_spec_def bt_wf_def bt_get_def less_char_def)
  moreover have "example_manifest \<noteq> bt_empty" "list_all printable (bt_values example_manifest)" by code_simp+
  ultimately show ?thesis by (rule parse_print_manifest)
qed

text \<open>
  The manifest embedded in the kernel loads: parsing and planning succeed, and the
  plan starts the storage driver before the file server.
\<close>

lemma embedded_manifest_loads:
  "map_sum id (\<lambda>sm. (sm_plan sm, planned_capabilities sm ''storage_driver'')) init_embedded_manifest
   = Inr ([''storage_driver'', ''fs_server'', ''ui_shell''],
       Some [''IRQCap:33'', ''DeviceCap:0000:01:00.0'', ''DMABufferCap''])"
  by code_simp

text \<open>
  A failed service stays failed: no sequence of lifecycle reports makes it ready again,
  and no report changes the plan, the manifest or the capabilities planned for a service.
\<close>

lemma failed_is_final:
  assumes "svc_step\<^sup>*\<^sup>* sm sm'" and "get_service_state sm name = Some SvcFailed"
  shows "get_service_state sm' name = Some SvcFailed \<and> mark_ready name sm' = (Inl (InvalidTransition name SvcFailed SvcReady), sm')
    \<and> sm_plan sm' = sm_plan sm \<and> planned_capabilities sm' = planned_capabilities sm"
proof -
  have "get_service_state sm' name = Some SvcFailed" using svc_steps_frame [OF assms(1)] assms(2) by simp
  then obtain rt where "bt_get (sm_registry sm') name = Some rt" "sr_state rt = SvcFailed"
    by (auto simp: get_service_state_def)
  with svc_steps_frame [OF assms(1)] show ?thesis by (auto simp: mark_ready_def get_service_state_def)
qed

definition example_manager :: service_manager where
  "example_manager = \<lparr>sm_manifest = example_manifest, sm_plan = [''log'', ''nvme'', ''fs''],
     sm_registry = [(''log'', \<lparr>sr_state = SvcFailed, sr_granted_capabilities = []\<rparr>),
                    (''nvme'', \<lparr>sr_state = SvcPending, sr_granted_capabilities = []\<rparr>)]\<rparr>"

end
