(* ===== verification/Pmm.thy ===== *)
theory Pmm
  imports Atom_Prelude
begin

text \<open>
  The physical memory manager, \<^verbatim>\<open>kernel/src/mm/pmm.rs\<close>: a bitmap of 4 KiB pages with one
  bit per page (0 free, 1 allocated), a linear first-fit allocator for single pages and
  for contiguous runs, and the counters beside it. The static bitmap
  \<open>[u8; MAX_PAGES / 8]\<close> is a function from byte index to byte; \<open>pmm_index_in_bounds\<close>
  shows that no operation indexes it out of range. Page numbers and page counts are
  natural numbers (all are below \<open>2 ^ 64\<close>), addresses are 64-bit words.

  Physical memory itself is a function from the base address of a page to the 512
  quadwords of the page: every access of the modelled code goes through a page-aligned
  base. The interface the rest of memory management relies on is the locale
  \<open>page_allocator\<close>.
\<close>

section \<open>The boot memory map (boot.rs)\<close>

record efi_memory_descriptor =
  d_typ :: u32
  d_pad :: u32
  d_physical_start :: u64
  d_virtual_start :: u64
  d_number_of_pages :: u64
  d_attribute :: u64

definition EFI_CONVENTIONAL_MEMORY :: u32 where
  "EFI_CONVENTIONAL_MEMORY = 7"

section \<open>State\<close>

abbreviation MAX_PAGES :: nat where
  "MAX_PAGES \<equiv> 262144"

abbreviation PAGE_SIZE :: usize where
  "PAGE_SIZE \<equiv> 4096"

record pmm =
  pm_bitmap :: "nat \<Rightarrow> u8"
  pm_total :: nat
  pm_free :: nat
  pm_next_free_hint :: nat
  pm_largest_free_run :: nat

type_synonym phys_mem = "usize \<Rightarrow> nat \<Rightarrow> u64"

record ram = pmm +
  ram_mem :: phys_mem

section \<open>Bitmap operations\<close>

definition is_page_free :: "'a pmm_scheme \<Rightarrow> nat \<Rightarrow> bool" where
  "is_page_free pm page \<longleftrightarrow>
     (if page \<ge> pm_total pm then False
      else (pm_bitmap pm (page div 8) AND push_bit (page mod 8) 1) = 0)"

definition set_page_free :: "nat \<Rightarrow> 'a pmm_scheme \<Rightarrow> 'a pmm_scheme" where
  "set_page_free page pm =
     (if page \<ge> pm_total pm then pm
      else pm\<lparr>pm_bitmap := (pm_bitmap pm)
             (page div 8 := pm_bitmap pm (page div 8) AND NOT (push_bit (page mod 8) 1))\<rparr>)"

definition set_page_allocated :: "nat \<Rightarrow> 'a pmm_scheme \<Rightarrow> 'a pmm_scheme" where
  "set_page_allocated page pm =
     (if page \<ge> pm_total pm then pm
      else pm\<lparr>pm_bitmap := (pm_bitmap pm)
             (page div 8 := pm_bitmap pm (page div 8) OR push_bit (page mod 8) 1)\<rparr>)"

section \<open>Initialisation\<close>

definition desc_start_page :: "efi_memory_descriptor \<Rightarrow> usize" where
  "desc_start_page d = d_physical_start d div PAGE_SIZE"

definition desc_end_page :: "efi_memory_descriptor \<Rightarrow> usize" where
  "desc_end_page d = saturating_add (desc_start_page d) (d_number_of_pages d)"

definition pmm_tracked_end :: "efi_memory_descriptor list \<Rightarrow> usize" where
  "pmm_tracked_end ds =
     fold (\<lambda>d tracked. if desc_end_page d > tracked then desc_end_page d else tracked) ds 0"

definition pmm_free_range :: "nat \<Rightarrow> nat \<Rightarrow> 'a pmm_scheme \<times> nat \<Rightarrow> 'a pmm_scheme \<times> nat" where
  "pmm_free_range start_page end_page =
     fold (\<lambda>page (pm, n). (set_page_free page pm, n + 1)) [start_page ..< end_page]"

definition pmm_free_descriptor ::
  "nat \<Rightarrow> efi_memory_descriptor \<Rightarrow> 'a pmm_scheme \<times> nat \<Rightarrow> 'a pmm_scheme \<times> nat" where
  "pmm_free_descriptor total_pages d st =
     (if d_typ d \<noteq> EFI_CONVENTIONAL_MEMORY then st
      else
        let start_page = unat (desc_start_page d);
            end_page = min (unat (desc_end_page d)) total_pages
        in if start_page \<ge> total_pages then st else pmm_free_range start_page end_page st)"

definition pmm_run_step :: "'a pmm_scheme \<Rightarrow> nat \<Rightarrow> nat \<times> nat \<Rightarrow> nat \<times> nat" where
  "pmm_run_step pm page = (\<lambda>(current_run, max_run).
     if is_page_free pm page then (current_run + 1, max (current_run + 1) max_run)
     else (0, max_run))"

definition pmm_init :: "efi_memory_descriptor list \<Rightarrow> 'a pmm_scheme \<Rightarrow> 'a pmm_scheme" where
  "pmm_init ds pm0 =
     (let total_pages = min (unat (pmm_tracked_end ds)) MAX_PAGES;
          pm1 = pm0\<lparr>pm_bitmap := (\<lambda>_. 0xFF), pm_total := total_pages, pm_next_free_hint := 0\<rparr>;
          (pm2, free_pages) = fold (pmm_free_descriptor total_pages) ds (pm1, 0);
          pm3 = pm2\<lparr>pm_free := free_pages\<rparr>;
          max_run = snd (fold (pmm_run_step pm3) [0 ..< total_pages] (0, 0))
      in pm3\<lparr>pm_largest_free_run := max_run\<rparr>)"

section \<open>Allocation and release\<close>

definition page_to_addr :: "nat \<Rightarrow> usize" where
  "page_to_addr page = of_nat page * PAGE_SIZE"

definition addr_to_page :: "usize \<Rightarrow> nat" where
  "addr_to_page addr = unat (addr div PAGE_SIZE)"

definition alloc_page :: "'a pmm_scheme \<Rightarrow> usize option \<times> 'a pmm_scheme" where
  "alloc_page pm =
     (if pm_free pm = 0 then (None, pm)
      else case find (is_page_free pm) [0 ..< pm_total pm] of
             None \<Rightarrow> (None, pm)
           | Some page \<Rightarrow>
               (Some (page_to_addr page),
                (set_page_allocated page pm)\<lparr>pm_free := pm_free pm - 1\<rparr>))"

definition free_page :: "usize \<Rightarrow> 'a pmm_scheme \<Rightarrow> 'a pmm_scheme" where
  "free_page addr pm =
     (if addr mod PAGE_SIZE \<noteq> 0 then pm
      else
        let page = addr_to_page addr in
        if page \<ge> MAX_PAGES then pm
        else if \<not> is_page_free pm page
             then (set_page_free page pm)\<lparr>pm_free := pm_free pm + 1\<rparr>
             else pm)"

definition run_is_free :: "'a pmm_scheme \<Rightarrow> nat \<Rightarrow> nat \<Rightarrow> bool" where
  "run_is_free pm count start \<longleftrightarrow> list_all (\<lambda>i. is_page_free pm (start + i)) [0 ..< count]"

definition alloc_pages :: "nat \<Rightarrow> 'a pmm_scheme \<Rightarrow> usize option \<times> 'a pmm_scheme" where
  "alloc_pages count pm =
     (if count = 0 then (None, pm)
      else if count = 1 then alloc_page pm
      else if pm_free pm < count then (None, pm)
      else if pm_total pm < count then (None, pm)
      else case find (run_is_free pm count) [0 ..< Suc (pm_total pm - count)] of
             None \<Rightarrow> (None, pm)
           | Some start \<Rightarrow>
               (Some (page_to_addr start),
                (fold (\<lambda>i. set_page_allocated (start + i)) [0 ..< count] pm)
                  \<lparr>pm_free := pm_free pm - count\<rparr>))"

definition free_pages :: "usize \<Rightarrow> nat \<Rightarrow> 'a pmm_scheme \<Rightarrow> 'a pmm_scheme" where
  "free_pages addr count pm = fold (\<lambda>i. free_page (addr + of_nat i * PAGE_SIZE)) [0 ..< count] pm"

definition zero_frame :: "usize \<Rightarrow> 'a ram_scheme \<Rightarrow> 'a ram_scheme" where
  "zero_frame addr r = r\<lparr>ram_mem := (ram_mem r)(addr := \<lambda>_. 0)\<rparr>"

definition alloc_page_zeroed :: "'a ram_scheme \<Rightarrow> usize option \<times> 'a ram_scheme" where
  "alloc_page_zeroed r =
     (case alloc_page r of
        (None, r') \<Rightarrow> (None, r')
      | (Some addr, r') \<Rightarrow> (Some addr, zero_frame addr r'))"

definition alloc_pages_zeroed :: "nat \<Rightarrow> 'a ram_scheme \<Rightarrow> usize option \<times> 'a ram_scheme" where
  "alloc_pages_zeroed count0 r =
     (let count = max count0 1 in
      case alloc_pages count r of
        (None, r') \<Rightarrow> (None, r')
      | (Some addr, r') \<Rightarrow>
          (Some addr, fold (\<lambda>i. zero_frame (addr + of_nat i * PAGE_SIZE)) [0 ..< count] r'))"

section \<open>Alignment and statistics\<close>

definition is_page_aligned :: "usize \<Rightarrow> bool" where
  "is_page_aligned addr \<longleftrightarrow> addr mod PAGE_SIZE = 0"

definition align_down :: "usize \<Rightarrow> usize" where
  "align_down addr = addr AND NOT (PAGE_SIZE - 1)"

definition align_up :: "usize \<Rightarrow> usize" where
  "align_up addr = (addr + PAGE_SIZE - 1) AND NOT (PAGE_SIZE - 1)"

definition pmm_get_stats :: "'a pmm_scheme \<Rightarrow> nat \<times> nat" where
  "pmm_get_stats pm = (pm_total pm, pm_free pm)"

record memory_stats =
  st_total_pages :: usize
  st_free_pages :: usize
  st_used_pages :: usize
  st_total_bytes :: usize
  st_free_bytes :: usize
  st_used_bytes :: usize

definition get_detailed_stats :: "'a pmm_scheme \<Rightarrow> memory_stats" where
  "get_detailed_stats pm =
     (let total = of_nat (pm_total pm); free = of_nat (pm_free pm); used = total - free in
      \<lparr>st_total_pages = total, st_free_pages = free, st_used_pages = used,
       st_total_bytes = total * PAGE_SIZE, st_free_bytes = free * PAGE_SIZE,
       st_used_bytes = used * PAGE_SIZE\<rparr>)"

section \<open>The abstract view: a set of free pages\<close>

definition free_set :: "'a pmm_scheme \<Rightarrow> nat set" where
  "free_set pm = {p. is_page_free pm p}"

text \<open>
  The invariant of the manager: the tracked range fits the bitmap and the counter of
  free pages is the number of clear bits.
\<close>

definition pmm_inv :: "'a pmm_scheme \<Rightarrow> bool" where
  "pmm_inv pm \<longleftrightarrow> pm_total pm \<le> MAX_PAGES \<and> pm_free pm = card (free_set pm)"

lemma is_page_free_bit:
  "is_page_free pm p \<longleftrightarrow> p < pm_total pm \<and> \<not> bit (pm_bitmap pm (p div 8)) (p mod 8)"
  by (auto simp: is_page_free_def bit_iff_and_push_bit_not_eq_0)

lemma page_index_split: "(p::nat) = q \<longleftrightarrow> p div 8 = q div 8 \<and> p mod 8 = q mod 8"
  by (metis div_mult_mod_eq)

lemma pm_total_set_free [simp]: "pm_total (set_page_free p pm) = pm_total pm"
  by (simp add: set_page_free_def)

lemma pm_total_set_allocated [simp]: "pm_total (set_page_allocated p pm) = pm_total pm"
  by (simp add: set_page_allocated_def)

lemma pm_free_set_free [simp]: "pm_free (set_page_free p pm) = pm_free pm"
  by (simp add: set_page_free_def)

lemma pm_free_set_allocated [simp]: "pm_free (set_page_allocated p pm) = pm_free pm"
  by (simp add: set_page_allocated_def)

lemma is_page_free_counters [simp]:
  "is_page_free (pm\<lparr>pm_free := n\<rparr>) p = is_page_free pm p"
  "is_page_free (pm\<lparr>pm_largest_free_run := n\<rparr>) p = is_page_free pm p"
  by (simp_all add: is_page_free_def)

lemma bit_mask_byte: "k < 8 \<Longrightarrow> j < 8 \<Longrightarrow> bit (2 ^ k :: u8) j \<longleftrightarrow> j = k"
  by (auto simp: bit_exp_iff possible_bit_word)

lemma is_page_free_set_free [simp]:
  "is_page_free (set_page_free p pm) q \<longleftrightarrow> (q = p \<and> p < pm_total pm) \<or> is_page_free pm q"
proof (cases "q div 8 = p div 8")
  case True
  then have "q = p \<longleftrightarrow> q mod 8 = p mod 8" by (metis page_index_split)
  with True show ?thesis
    by (auto simp: is_page_free_bit set_page_free_def bit_and_iff bit_not_iff bit_mask_byte)
qed (auto simp: is_page_free_bit set_page_free_def)

lemma is_page_free_set_allocated [simp]:
  "is_page_free (set_page_allocated p pm) q \<longleftrightarrow> q \<noteq> p \<and> is_page_free pm q"
proof (cases "q div 8 = p div 8")
  case True
  then have "q = p \<longleftrightarrow> q mod 8 = p mod 8" by (metis page_index_split)
  with True show ?thesis
    by (auto simp: is_page_free_bit set_page_allocated_def bit_or_iff bit_mask_byte)
qed (auto simp: is_page_free_bit set_page_allocated_def)

lemma free_set_subset: "free_set pm \<subseteq> {..< pm_total pm}"
  by (auto simp: free_set_def is_page_free_bit)

lemma finite_free_set [simp]: "finite (free_set pm)"
  using free_set_subset finite_subset by blast

lemma free_set_set_free:
  "free_set (set_page_free p pm) = (if p < pm_total pm then insert p (free_set pm) else free_set pm)"
  by (auto simp: free_set_def)

lemma free_set_set_allocated [simp]: "free_set (set_page_allocated p pm) = free_set pm - {p}"
  by (auto simp: free_set_def)

lemma free_set_counters [simp]:
  "free_set (pm\<lparr>pm_free := n\<rparr>) = free_set pm"
  "free_set (pm\<lparr>pm_largest_free_run := n\<rparr>) = free_set pm"
  by (simp_all add: free_set_def)

text \<open>
  Every byte index the bitmap operations form from a tracked page is inside the array of
  \<open>MAX_PAGES / 8\<close> bytes.
\<close>

lemma pmm_index_in_bounds: "pmm_inv pm \<Longrightarrow> p < pm_total pm \<Longrightarrow> p div 8 < MAX_PAGES div 8"
  by (auto simp: pmm_inv_def)

lemma find_upt_Some:
  "find P [0 ..< n] = Some i \<longleftrightarrow> i < n \<and> P i \<and> (\<forall>j < i. \<not> P j)"
  by (auto simp: find_Some_iff nth_upt)

lemma find_upt_None: "find P [0 ..< n] = None \<longleftrightarrow> (\<forall>j < n. \<not> P j)"
  by (auto simp: find_None_iff)

section \<open>Single pages\<close>

lemma alloc_page_None:
  "pmm_inv pm \<Longrightarrow> alloc_page pm = (None, pm') \<Longrightarrow> pm' = pm \<and> free_set pm = {}"
  by (auto simp: alloc_page_def pmm_inv_def find_upt_None free_set_def is_page_free_bit
        split: if_splits option.splits)

lemma alloc_page_Some:
  assumes "alloc_page pm = (Some a, pm')"
  obtains p where "a = page_to_addr p" "p \<in> free_set pm" "\<And>q. q \<in> free_set pm \<Longrightarrow> p \<le> q"
    "pm' = (set_page_allocated p pm)\<lparr>pm_free := pm_free pm - 1\<rparr>"
proof -
  from assms obtain p where p: "find (is_page_free pm) [0 ..< pm_total pm] = Some p"
    and a: "a = page_to_addr p" "pm' = (set_page_allocated p pm)\<lparr>pm_free := pm_free pm - 1\<rparr>"
    by (auto simp: alloc_page_def split: if_splits option.splits)
  from p have "p \<in> free_set pm" "\<And>q. q \<in> free_set pm \<Longrightarrow> p \<le> q"
    by (auto simp: find_upt_Some free_set_def not_less [symmetric])
  with a that show thesis by blast
qed

lemma alloc_page_inv:
  assumes "pmm_inv pm" and "alloc_page pm = (r, pm')"
  shows "pmm_inv pm'"
proof (cases r)
  case None
  with assms show ?thesis using alloc_page_None by blast
next
  case (Some a)
  with assms(2) obtain p where "p \<in> free_set pm"
    "pm' = (set_page_allocated p pm)\<lparr>pm_free := pm_free pm - 1\<rparr>"
    by (metis alloc_page_Some)
  with assms(1) show ?thesis by (simp add: pmm_inv_def)
qed

lemma unat_page_size: "unat PAGE_SIZE = 4096"
  by simp

lemma unat_page_to_addr: "p < 2 ^ 52 \<Longrightarrow> unat (page_to_addr p) = p * 4096"
  by (simp add: page_to_addr_def unat_word_ariths unat_of_nat)

lemma page_to_addr_aligned [simp]: "page_to_addr p mod PAGE_SIZE = 0"
proof -
  have "unat (page_to_addr p mod PAGE_SIZE) = 0"
    by (simp add: page_to_addr_def unat_mod unat_word_ariths mod_mod_cancel)
  then show ?thesis by (simp only: unat_eq_zero)
qed

lemma addr_to_page_to_addr [simp]: "p < 2 ^ 52 \<Longrightarrow> addr_to_page (page_to_addr p) = p"
  by (simp add: addr_to_page_def unat_div unat_page_to_addr)

lemma page_to_addr_to_page:
  assumes "a mod PAGE_SIZE = 0"
  shows "page_to_addr (addr_to_page a) = a"
  using assms word_mod_div_equality [of a PAGE_SIZE]
  by (simp add: addr_to_page_def page_to_addr_def)

lemma page_to_addr_inj: "p < 2 ^ 52 \<Longrightarrow> q < 2 ^ 52 \<Longrightarrow> page_to_addr p = page_to_addr q \<longleftrightarrow> p = q"
  by (metis addr_to_page_to_addr)

section \<open>The allocator interface\<close>

text \<open>
  What the virtual memory manager, shared memory and the loader rely on: an allocation
  takes one free page and changes the status of no other, a release gives a managed page
  back. \<open>free\<close> is the set of free page addresses and \<open>managed\<close> the set of all page
  addresses the allocator hands out.
\<close>

text \<open>
  The loop both \<open>SharedRegion::new\<close> and its error path run: take \<open>n\<close> pages, and give all
  of them back when one allocation fails.
\<close>

fun alloc_loop ::
  "('s \<Rightarrow> usize option \<times> 's) \<Rightarrow> (usize \<Rightarrow> 's \<Rightarrow> 's) \<Rightarrow> nat \<Rightarrow> usize list \<Rightarrow> 's \<Rightarrow> usize list option \<times> 's" where
  "alloc_loop alloc dealloc 0 pages s = (Some pages, s)"
| "alloc_loop alloc dealloc (Suc n) pages s =
     (case alloc s of
        (Some phys, s') \<Rightarrow> alloc_loop alloc dealloc n (pages @ [phys]) s'
      | (None, s') \<Rightarrow> (None, fold dealloc pages s'))"

locale page_allocator =
  fixes alloc :: "'s \<Rightarrow> usize option \<times> 's"
    and dealloc :: "usize \<Rightarrow> 's \<Rightarrow> 's"
    and free :: "'s \<Rightarrow> usize set"
    and managed :: "'s \<Rightarrow> usize set"
    and ok :: "'s \<Rightarrow> bool"
  assumes free_managed: "ok s \<Longrightarrow> free s \<subseteq> managed s"
    and managed_aligned: "ok s \<Longrightarrow> a \<in> managed s \<Longrightarrow> a mod PAGE_SIZE = 0"
    and alloc_None: "ok s \<Longrightarrow> alloc s = (None, s') \<Longrightarrow> s' = s \<and> free s = {}"
    and alloc_Some: "ok s \<Longrightarrow> alloc s = (Some a, s') \<Longrightarrow>
      ok s' \<and> a \<in> free s \<and> free s' = free s - {a} \<and> managed s' = managed s"
    and dealloc: "ok s \<Longrightarrow> a \<in> managed s \<Longrightarrow>
      ok (dealloc a s) \<and> free (dealloc a s) = insert a (free s) \<and> managed (dealloc a s) = managed s"
begin

lemma dealloc_all:
  "ok s \<Longrightarrow> set as \<subseteq> managed s \<Longrightarrow>
   ok (fold dealloc as s) \<and> free (fold dealloc as s) = set as \<union> free s
   \<and> managed (fold dealloc as s) = managed s"
proof (induction as arbitrary: s)
  case (Cons a as)
  from Cons.prems have "ok (dealloc a s)" "set as \<subseteq> managed (dealloc a s)"
    and d: "free (dealloc a s) = insert a (free s)" "managed (dealloc a s) = managed s"
    using dealloc [of s a] by auto
  with Cons.IH [of "dealloc a s"] show ?case by auto
qed simp

text \<open>
  A loop that gets all its pages returns fresh, distinct pages in order; a loop that
  fails leaves the set of free pages as it was.
\<close>

lemma alloc_loop_Some:
  assumes "ok s" and "alloc_loop alloc dealloc n pages s = (Some as, s')"
  shows "\<exists>new. as = pages @ new \<and> length new = n \<and> distinct new \<and> set new \<subseteq> free s
    \<and> free s' = free s - set new \<and> ok s' \<and> managed s' = managed s"
  using assms
proof (induction n arbitrary: pages s)
  case (Suc n)
  from Suc.prems(2) obtain a s1 where a: "alloc s = (Some a, s1)"
    and rest: "alloc_loop alloc dealloc n (pages @ [a]) s1 = (Some as, s')"
    by (auto split: prod.splits option.splits)
  from alloc_Some [OF Suc.prems(1) a] have s1: "ok s1" "a \<in> free s" "free s1 = free s - {a}"
    "managed s1 = managed s" by auto
  from Suc.IH [OF s1(1) rest] obtain new where new: "as = (pages @ [a]) @ new" "length new = n"
    "distinct new" "set new \<subseteq> free s1" "free s' = free s1 - set new" "ok s'"
    "managed s' = managed s1" by blast
  then have "as = pages @ (a # new)" "length (a # new) = Suc n" "distinct (a # new)"
    "set (a # new) \<subseteq> free s" "free s' = free s - set (a # new)"
    using s1 by auto
  with new s1 show ?case by metis
qed simp

lemma alloc_loop_None:
  assumes "ok s" and "set pages \<subseteq> managed s" and "alloc_loop alloc dealloc n pages s = (None, s')"
  shows "free s' = set pages \<union> free s \<and> ok s' \<and> managed s' = managed s"
  using assms
proof (induction n arbitrary: pages s)
  case (Suc n)
  obtain r s1 where al: "alloc s = (r, s1)" by fastforce
  show ?case
  proof (cases r)
    case None
    with al alloc_None [OF Suc.prems(1)] have "s1 = s" by blast
    with al None Suc.prems dealloc_all show ?thesis by auto
  next
    case (Some a)
    with al alloc_Some [OF Suc.prems(1)] have s1: "ok s1" "a \<in> free s" "free s1 = free s - {a}"
      "managed s1 = managed s" by auto
    from s1(2) Suc.prems(1) free_managed have "a \<in> managed s" by blast
    with Suc.prems s1 have "set (pages @ [a]) \<subseteq> managed s1" by auto
    from Suc.IH [OF s1(1) this] Suc.prems(3) al Some s1 show ?thesis by auto
  qed
qed simp

end

definition free_addrs :: "'a pmm_scheme \<Rightarrow> usize set" where
  "free_addrs pm = page_to_addr ` free_set pm"

definition managed_addrs :: "'a pmm_scheme \<Rightarrow> usize set" where
  "managed_addrs pm = page_to_addr ` {..< pm_total pm}"

lemma pmm_inv_page_bound: "pmm_inv pm \<Longrightarrow> p < pm_total pm \<Longrightarrow> p < 2 ^ 52"
  by (auto simp: pmm_inv_def)

lemma free_set_bound: "pmm_inv pm \<Longrightarrow> p \<in> free_set pm \<Longrightarrow> p < 2 ^ 52"
  using free_set_subset pmm_inv_page_bound by blast

lemma free_addrs_subset: "free_addrs pm \<subseteq> managed_addrs pm"
  using free_set_subset by (auto simp: free_addrs_def managed_addrs_def)

lemma free_addrs_iff:
  "pmm_inv pm \<Longrightarrow> p < pm_total pm \<Longrightarrow> page_to_addr p \<in> free_addrs pm \<longleftrightarrow> is_page_free pm p"
  by (auto simp: free_addrs_def free_set_def image_iff)
    (metis (mono_tags) free_set_bound free_set_def mem_Collect_eq page_to_addr_inj pmm_inv_page_bound)

lemma alloc_page_total: "alloc_page pm = (r, pm') \<Longrightarrow> pm_total pm' = pm_total pm"
  by (auto simp: alloc_page_def split: if_splits option.splits)

lemma alloc_page_free_addrs:
  assumes inv: "pmm_inv pm" and al: "alloc_page pm = (Some a, pm')"
  shows "a \<in> free_addrs pm \<and> free_addrs pm' = free_addrs pm - {a} \<and> managed_addrs pm' = managed_addrs pm"
proof -
  from al obtain p where p: "a = page_to_addr p" "p \<in> free_set pm"
    "pm' = (set_page_allocated p pm)\<lparr>pm_free := pm_free pm - 1\<rparr>"
    by (metis alloc_page_Some)
  have "inj_on page_to_addr (free_set pm)"
    by (rule inj_onI) (metis free_set_bound inv page_to_addr_inj)
  then have "page_to_addr ` (free_set pm - {p}) = page_to_addr ` free_set pm - {page_to_addr p}"
    using p(2) by (auto simp: inj_on_image_set_diff [of _ "free_set pm"])
  with p show ?thesis by (simp add: free_addrs_def managed_addrs_def)
qed

lemma free_page_managed:
  assumes inv: "pmm_inv pm" and a: "a \<in> managed_addrs pm"
  shows "pmm_inv (free_page a pm) \<and> free_addrs (free_page a pm) = insert a (free_addrs pm)
    \<and> managed_addrs (free_page a pm) = managed_addrs pm"
proof -
  from a obtain p where p: "a = page_to_addr p" "p < pm_total pm"
    by (auto simp: managed_addrs_def)
  from inv p(2) have b: "p < 2 ^ 52" "p < MAX_PAGES" by (auto simp: pmm_inv_def)
  show ?thesis
  proof (cases "is_page_free pm p")
    case True
    then have "free_page a pm = pm" using p b by (simp add: free_page_def)
    with True inv p show ?thesis by (simp add: free_addrs_iff insert_absorb)
  next
    case False
    then have "free_page a pm = (set_page_free p pm)\<lparr>pm_free := pm_free pm + 1\<rparr>"
      using p b by (simp add: free_page_def)
    moreover have "p \<notin> free_set pm" using False by (simp add: free_set_def)
    ultimately show ?thesis using inv p
      by (simp add: pmm_inv_def free_addrs_def managed_addrs_def free_set_set_free)
  qed
qed

interpretation pmm_alloc: page_allocator alloc_page free_page free_addrs managed_addrs pmm_inv
proof unfold_locales
  fix s s' :: "'a pmm_scheme" and a
  show "free_addrs s \<subseteq> managed_addrs s" by (rule free_addrs_subset)
  show "a \<in> managed_addrs s \<Longrightarrow> a mod PAGE_SIZE = 0" by (auto simp: managed_addrs_def)
  show "pmm_inv s \<Longrightarrow> alloc_page s = (None, s') \<Longrightarrow> s' = s \<and> free_addrs s = {}"
    using alloc_page_None by (fastforce simp: free_addrs_def)
  show "pmm_inv s \<Longrightarrow> alloc_page s = (Some a, s') \<Longrightarrow>
      pmm_inv s' \<and> a \<in> free_addrs s \<and> free_addrs s' = free_addrs s - {a}
      \<and> managed_addrs s' = managed_addrs s"
    using alloc_page_free_addrs alloc_page_inv by blast
  show "pmm_inv s \<Longrightarrow> a \<in> managed_addrs s \<Longrightarrow>
      pmm_inv (free_page a s) \<and> free_addrs (free_page a s) = insert a (free_addrs s)
      \<and> managed_addrs (free_page a s) = managed_addrs s"
    by (rule free_page_managed)
qed

lemma ram_mem_frame [simp]:
  "pmm_inv (r\<lparr>ram_mem := m\<rparr>) = pmm_inv r" "free_addrs (r\<lparr>ram_mem := m\<rparr>) = free_addrs r"
  "managed_addrs (r\<lparr>ram_mem := m\<rparr>) = managed_addrs r"
  by (simp_all add: pmm_inv_def free_addrs_def managed_addrs_def free_set_def is_page_free_def)

lemma alloc_page_zeroed_cases:
  "alloc_page_zeroed r = (None, r') \<longleftrightarrow> alloc_page r = (None, r')"
  "alloc_page_zeroed r = (Some a, r') \<longleftrightarrow> (\<exists>r1. alloc_page r = (Some a, r1) \<and> r' = zero_frame a r1)"
  by (auto simp: alloc_page_zeroed_def split: prod.splits option.splits)

lemma zero_frame_pmm [simp]:
  "pmm_inv (zero_frame a r) = pmm_inv r" "free_addrs (zero_frame a r) = free_addrs r"
  "managed_addrs (zero_frame a r) = managed_addrs r"
  by (simp_all add: zero_frame_def)

interpretation ram_alloc: page_allocator alloc_page_zeroed free_page free_addrs managed_addrs pmm_inv
proof unfold_locales
  fix s s' :: "'a ram_scheme" and a
  show "pmm_inv s \<Longrightarrow> free_addrs s \<subseteq> managed_addrs s" by (rule pmm_alloc.free_managed)
  show "pmm_inv s \<Longrightarrow> a \<in> managed_addrs s \<Longrightarrow> a mod PAGE_SIZE = 0"
    by (rule pmm_alloc.managed_aligned)
  show "pmm_inv s \<Longrightarrow> alloc_page_zeroed s = (None, s') \<Longrightarrow> s' = s \<and> free_addrs s = {}"
    by (simp add: alloc_page_zeroed_cases pmm_alloc.alloc_None)
  show "pmm_inv s \<Longrightarrow> alloc_page_zeroed s = (Some a, s') \<Longrightarrow>
      pmm_inv s' \<and> a \<in> free_addrs s \<and> free_addrs s' = free_addrs s - {a}
      \<and> managed_addrs s' = managed_addrs s"
    using pmm_alloc.alloc_Some by (fastforce simp: alloc_page_zeroed_cases)
  show "pmm_inv s \<Longrightarrow> a \<in> managed_addrs s \<Longrightarrow>
      pmm_inv (free_page a s) \<and> free_addrs (free_page a s) = insert a (free_addrs s)
      \<and> managed_addrs (free_page a s) = managed_addrs s"
    by (rule pmm_alloc.dealloc)
qed

lemma set_page_allocated_mem [simp]: "ram_mem (set_page_allocated p r) = ram_mem r"
  by (simp add: set_page_allocated_def)

lemma set_page_free_mem [simp]: "ram_mem (set_page_free p r) = ram_mem r"
  by (simp add: set_page_free_def)

lemma free_page_mem [simp]: "ram_mem (free_page a r) = ram_mem r"
  by (simp add: free_page_def Let_def)

lemma alloc_page_mem: "alloc_page r = (x, r') \<Longrightarrow> ram_mem r' = ram_mem r"
  by (auto simp: alloc_page_def split: if_splits option.splits)

lemma alloc_page_zeroed_mem:
  "alloc_page_zeroed r = (Some a, r') \<Longrightarrow> ram_mem r' = (ram_mem r)(a := \<lambda>_. 0)"
  by (auto simp: alloc_page_zeroed_cases zero_frame_def alloc_page_mem)

section \<open>Contiguous runs\<close>

lemma free_set_fold_allocated:
  "free_set (fold (\<lambda>i. set_page_allocated (start + i)) xs pm) = free_set pm - (+) start ` set xs"
  by (induction xs arbitrary: pm) auto

lemma pm_total_fold_allocated [simp]:
  "pm_total (fold (\<lambda>i. set_page_allocated (start + i)) xs pm) = pm_total pm"
  by (induction xs arbitrary: pm) auto

lemma run_is_free_iff: "run_is_free pm n start \<longleftrightarrow> {start ..< start + n} \<subseteq> free_set pm"
proof -
  have "run_is_free pm n start \<longleftrightarrow> (\<forall>i < n. start + i \<in> free_set pm)"
    by (auto simp: run_is_free_def list_all_iff free_set_def)
  also have "\<dots> \<longleftrightarrow> {start ..< start + n} \<subseteq> free_set pm"
    by (auto simp: subset_iff) (metis add_diff_inverse_nat add_less_cancel_left not_less)
  finally show ?thesis .
qed

lemma image_plus_upt: "(+) start ` set [0 ..< n] = {start ..< start + n}"
  by (simp add: add.commute)

lemma run_fits:
  assumes "{start ..< start + n} \<subseteq> free_set pm" "n \<noteq> 0"
  shows "start < Suc (pm_total pm - n)" "n \<le> pm_total pm"
proof -
  from assms have "start + n - 1 \<in> free_set pm" by (simp add: subset_iff)
  then have "start + n \<le> pm_total pm" using free_set_subset [of pm] assms(2) by fastforce
  then show "start < Suc (pm_total pm - n)" "n \<le> pm_total pm" by simp_all
qed

lemma alloc_pages_Some:
  assumes "alloc_pages n pm = (Some a, pm')" and "2 \<le> n"
  obtains start where "a = page_to_addr start" "{start ..< start + n} \<subseteq> free_set pm"
    "\<And>s. {s ..< s + n} \<subseteq> free_set pm \<Longrightarrow> start \<le> s"
    "free_set pm' = free_set pm - {start ..< start + n}"
    "pm_free pm' = pm_free pm - n" "pm_total pm' = pm_total pm"
proof -
  from assms obtain start where
    s: "find (run_is_free pm n) [0 ..< Suc (pm_total pm - n)] = Some start"
    and a: "a = page_to_addr start"
    and pm': "pm' = (fold (\<lambda>i. set_page_allocated (start + i)) [0 ..< n] pm)\<lparr>pm_free := pm_free pm - n\<rparr>"
    by (auto simp: alloc_pages_def split: if_splits option.splits)
  from s have run: "run_is_free pm n start" and least: "\<And>j. j < start \<Longrightarrow> \<not> run_is_free pm n j"
    by (auto simp only: find_upt_Some)
  have "start \<le> t" if "{t ..< t + n} \<subseteq> free_set pm" for t
    using that least [of t] by (auto simp: run_is_free_iff not_less [symmetric])
  with run a pm' show thesis
    by (intro that [of start]) (auto simp: run_is_free_iff free_set_fold_allocated image_plus_upt simp del: set_upt)
qed

lemma alloc_pages_None:
  assumes "pmm_inv pm" and "alloc_pages n pm = (None, pm')" and "n \<noteq> 0"
  shows "pm' = pm \<and> (\<nexists>start. {start ..< start + n} \<subseteq> free_set pm)"
proof (cases "n = 1")
  case True
  with assms have "alloc_page pm = (None, pm')" by (simp add: alloc_pages_def)
  with assms(1) True show ?thesis using alloc_page_None by fastforce
next
  case False
  with assms have pm': "pm' = pm"
    by (auto simp: alloc_pages_def split: if_splits option.splits)
  have "\<not> {start ..< start + n} \<subseteq> free_set pm" for start
  proof
    assume run: "{start ..< start + n} \<subseteq> free_set pm"
    from card_mono [OF _ run] assms(1) have "n \<le> pm_free pm" by (simp add: pmm_inv_def)
    with assms(2,3) False run_fits [OF run assms(3)]
    have "find (run_is_free pm n) [0 ..< Suc (pm_total pm - n)] = None"
      by (auto simp: alloc_pages_def split: if_splits option.splits)
    with run_fits [OF run assms(3)] run show False
      by (auto simp only: find_upt_None run_is_free_iff)
  qed
  with pm' show ?thesis by blast
qed

section \<open>Initialisation from the memory map\<close>

definition desc_pages :: "nat \<Rightarrow> efi_memory_descriptor \<Rightarrow> nat set" where
  "desc_pages tot d =
     (if d_typ d = EFI_CONVENTIONAL_MEMORY
      then {unat (desc_start_page d) ..< min (unat (desc_end_page d)) tot} else {})"

lemma pmm_free_range_spec:
  assumes "b \<le> pm_total pm" and "pmm_free_range a b (pm, n) = (pm', n')"
  shows "free_set pm' = free_set pm \<union> {a ..< b} \<and> n' = n + (b - a) \<and> pm_total pm' = pm_total pm"
proof -
  have "fold (\<lambda>page (pm, n). (set_page_free page pm, n + 1)) xs (pm, n) = (pm', n') \<Longrightarrow>
      set xs \<subseteq> {..< pm_total pm} \<Longrightarrow>
      free_set pm' = free_set pm \<union> set xs \<and> n' = n + length xs \<and> pm_total pm' = pm_total pm"
    for xs and pm pm' :: "'a pmm_scheme" and n n' :: nat
  proof (induction xs arbitrary: pm n)
    case (Cons x xs)
    from Cons.IH [of "set_page_free x pm" "n + 1"] Cons.prems show ?case
      by (auto simp: free_set_set_free)
  qed simp
  from this [of "[a ..< b]" pm n pm' n'] assms show ?thesis
    by (simp add: pmm_free_range_def subset_iff)
qed

lemma pmm_free_descriptor_spec:
  assumes "tot = pm_total pm" and "pmm_free_descriptor tot d (pm, n) = (pm', n')"
  shows "free_set pm' = free_set pm \<union> desc_pages tot d \<and> n' = n + card (desc_pages tot d)
    \<and> pm_total pm' = pm_total pm"
  using assms pmm_free_range_spec [of "min (unat (desc_end_page d)) tot" pm "unat (desc_start_page d)" n pm' n']
  by (auto simp: pmm_free_descriptor_def desc_pages_def Let_def split: if_splits)

lemma pmm_free_descriptors_spec:
  assumes "tot = pm_total pm" and "fold (pmm_free_descriptor tot) ds (pm, n) = (pm', n')"
  shows "free_set pm' = free_set pm \<union> (\<Union>d \<in> set ds. desc_pages tot d)
    \<and> n' = n + (\<Sum>d \<leftarrow> ds. card (desc_pages tot d)) \<and> pm_total pm' = pm_total pm"
  using assms
proof (induction ds arbitrary: pm n)
  case (Cons d ds)
  obtain pm1 n1 where d: "pmm_free_descriptor tot d (pm, n) = (pm1, n1)" by fastforce
  note d1 = pmm_free_descriptor_spec [OF Cons.prems(1) d]
  from Cons.IH [of pm1 n1] Cons.prems d d1 show ?case by auto
qed simp

lemma free_set_full: "pm_bitmap pm = (\<lambda>_. 0xFF) \<Longrightarrow> free_set pm = {}"
proof -
  have "(0xFF :: u8) = - 1" by simp
  then show "pm_bitmap pm = (\<lambda>_. 0xFF) \<Longrightarrow> free_set pm = {}"
    by (simp only: free_set_def is_page_free_bit) (simp add: bit_minus_1_iff)
qed

lemma pmm_init_spec:
  fixes pm0 :: "'a pmm_scheme"
  defines "tot ds \<equiv> min (unat (pmm_tracked_end ds)) MAX_PAGES"
  shows "pm_total (pmm_init ds pm0) = tot ds"
    and "free_set (pmm_init ds pm0) = (\<Union>d \<in> set ds. desc_pages (tot ds) d)"
    and "pm_free (pmm_init ds pm0) = (\<Sum>d \<leftarrow> ds. card (desc_pages (tot ds) d))"
proof -
  define pm1 where "pm1 = pm0\<lparr>pm_bitmap := (\<lambda>_. 0xFF), pm_total := tot ds, pm_next_free_hint := 0\<rparr>"
  have e: "free_set pm1 = {}" by (rule free_set_full) (simp add: pm1_def)
  obtain pm2 n where f: "fold (pmm_free_descriptor (tot ds)) ds (pm1, 0) = (pm2, n)" by fastforce
  have t: "tot ds = pm_total pm1" by (simp add: pm1_def)
  note spec = pmm_free_descriptors_spec [OF t f]
  define r where "r = snd (fold (pmm_run_step (pm2\<lparr>pm_free := n\<rparr>)) [0 ..< tot ds] (0, 0))"
  have i: "pmm_init ds pm0 = pm2\<lparr>pm_free := n, pm_largest_free_run := r\<rparr>"
    by (simp add: pmm_init_def Let_def f [unfolded pm1_def] r_def flip: tot_def)
  show "pm_total (pmm_init ds pm0) = tot ds"
    and "free_set (pmm_init ds pm0) = (\<Union>d \<in> set ds. desc_pages (tot ds) d)"
    and "pm_free (pmm_init ds pm0) = (\<Sum>d \<leftarrow> ds. card (desc_pages (tot ds) d))"
    using spec e t by (simp_all add: i)
qed

definition conventional_disjoint :: "efi_memory_descriptor list \<Rightarrow> bool" where
  "conventional_disjoint ds \<longleftrightarrow>
     sorted_wrt (\<lambda>d e. desc_pages MAX_PAGES d \<inter> desc_pages MAX_PAGES e = {}) ds"

lemma finite_desc_pages [simp]: "finite (desc_pages tot d)"
  by (simp add: desc_pages_def)

lemma desc_pages_mono: "tot \<le> tot' \<Longrightarrow> desc_pages tot d \<subseteq> desc_pages tot' d"
  by (auto simp: desc_pages_def)

lemma card_desc_pages_disjoint:
  assumes "tot \<le> MAX_PAGES" and "conventional_disjoint ds"
  shows "card (\<Union>d \<in> set ds. desc_pages tot d) = (\<Sum>d \<leftarrow> ds. card (desc_pages tot d))"
  using assms(2)
proof (induction ds)
  case (Cons d ds)
  have "desc_pages tot d \<inter> (\<Union>e \<in> set ds. desc_pages tot e) = {}"
    using Cons.prems desc_pages_mono [OF assms(1)] by (fastforce simp: conventional_disjoint_def)
  then have "card (desc_pages tot d \<union> (\<Union>e \<in> set ds. desc_pages tot e)) =
      card (desc_pages tot d) + card (\<Union>e \<in> set ds. desc_pages tot e)"
    by (intro card_Un_disjoint) auto
  with Cons show ?case by (simp add: conventional_disjoint_def)
qed simp

section \<open>Alignment\<close>

lemma align_down_mod: "align_down a = a - a mod PAGE_SIZE"
proof -
  have m: "a mod PAGE_SIZE = a AND (PAGE_SIZE - 1)"
    using word_mod_2p_is_mask [of 12 a] by (simp add: mask_eq_exp_minus_1)
  have "(a AND (PAGE_SIZE - 1)) + (a AND NOT (PAGE_SIZE - 1)) = a"
    by (subst disjunctive_add_eq_or) (auto simp: bit_simps intro!: bit_word_eqI)
  then show ?thesis by (simp only: align_down_def m) (metis add_diff_cancel_left')
qed

lemma align_up_align_down: "align_up a = align_down (a + (PAGE_SIZE - 1))"
  by (simp add: align_up_def align_down_def add.commute)

lemma unat_align_down: "unat (align_down a) = unat a div 4096 * 4096"
proof -
  have "a mod PAGE_SIZE \<le> a" by (simp add: word_le_nat_alt unat_mod)
  then have "unat (a - a mod PAGE_SIZE) = unat a - unat a mod 4096"
    by (simp only: unat_sub unat_mod) simp
  then show ?thesis
    by (simp only: align_down_mod minus_mod_eq_div_mult)
qed

lemma unat_align_up:
  assumes "unat a \<le> 2 ^ 64 - 4096"
  shows "unat (align_up a) = (unat a + 4095) div 4096 * 4096"
  using assms by (simp add: align_up_align_down unat_align_down unat_word_ariths)

lemma align_up_wraps:
  assumes "2 ^ 64 - 4096 < unat a"
  shows "align_up a = 0"
proof -
  have "unat a < 2 ^ 64" using unsigned_less [of a] by simp
  with assms have "(unat a + 4095) mod 2 ^ 64 = unat a + 4095 - 2 ^ 64"
    by (subst mod_if) (simp add: mod_less)
  with assms \<open>unat a < 2 ^ 64\<close> have "(unat a + 4095) mod 2 ^ 64 < 4096" by simp
  then have "unat (align_up a) = 0"
    by (simp add: align_up_align_down unat_align_down unat_word_ariths)
  then show ?thesis by (simp only: unat_eq_zero)
qed

lemma is_page_aligned_align_down [simp]: "is_page_aligned (align_down a)"
proof -
  have "unat (align_down a mod PAGE_SIZE) = 0" by (simp add: unat_mod unat_align_down)
  then show ?thesis by (simp only: is_page_aligned_def unat_eq_zero)
qed

lemma is_page_aligned_align_up [simp]: "is_page_aligned (align_up a)"
  by (simp add: align_up_align_down)

section \<open>Release\<close>

lemma free_pages_managed:
  assumes "pmm_inv pm" and "\<And>i. i < n \<Longrightarrow> a + of_nat i * PAGE_SIZE \<in> managed_addrs pm"
  shows "pmm_inv (free_pages a n pm)
    \<and> free_addrs (free_pages a n pm) = (\<lambda>i. a + of_nat i * PAGE_SIZE) ` {..< n} \<union> free_addrs pm
    \<and> managed_addrs (free_pages a n pm) = managed_addrs pm"
proof -
  have "free_pages a n pm = fold free_page (map (\<lambda>i. a + of_nat i * PAGE_SIZE) [0 ..< n]) pm"
    by (simp add: free_pages_def fold_map comp_def)
  moreover have "set (map (\<lambda>i. a + of_nat i * PAGE_SIZE) [0 ..< n]) \<subseteq> managed_addrs pm"
    using assms(2) by auto
  ultimately show ?thesis
    using pmm_alloc.dealloc_all [OF assms(1), of "map (\<lambda>i. a + of_nat i * PAGE_SIZE) [0 ..< n]"]
    by (simp add: atLeast0LessThan)
qed

lemma page_to_addr_add: "page_to_addr p + of_nat i * PAGE_SIZE = page_to_addr (p + i)"
  by (simp add: page_to_addr_def algebra_simps)

lemma free_set_addrs: "pmm_inv pm \<Longrightarrow> free_set pm = addr_to_page ` free_addrs pm"
  using free_set_bound [of pm] by (force simp: free_addrs_def image_image)

lemma alloc_pages_single:
  assumes "alloc_pages 1 pm = (Some a, pm')"
  obtains p where "a = page_to_addr p" "p \<in> free_set pm" "\<And>q. q \<in> free_set pm \<Longrightarrow> p \<le> q"
    "free_set pm' = free_set pm - {p}" "pm_free pm' = pm_free pm - 1" "pm_total pm' = pm_total pm"
proof -
  from assms have "alloc_page pm = (Some a, pm')" by (simp add: alloc_pages_def)
  then show thesis using that by (elim alloc_page_Some) auto
qed

lemma alloc_pages_run:
  assumes "alloc_pages n pm = (Some a, pm')"
  obtains start where "1 \<le> n" "a = page_to_addr start" "{start ..< start + n} \<subseteq> free_set pm"
    "\<And>s. {s ..< s + n} \<subseteq> free_set pm \<Longrightarrow> start \<le> s"
    "free_set pm' = free_set pm - {start ..< start + n}"
    "pm_free pm' = pm_free pm - n" "pm_total pm' = pm_total pm"
proof -
  consider "n = 0" | "n = 1" | "2 \<le> n" by linarith
  then show thesis
  proof cases
    case 1
    with assms show ?thesis by (simp add: alloc_pages_def)
  next
    case 2
    with assms have "alloc_pages 1 pm = (Some a, pm')" by simp
    then obtain p where p: "a = page_to_addr p" "p \<in> free_set pm" "\<And>q. q \<in> free_set pm \<Longrightarrow> p \<le> q"
      "free_set pm' = free_set pm - {p}" "pm_free pm' = pm_free pm - 1" "pm_total pm' = pm_total pm"
      by (metis alloc_pages_single)
    have "{p ..< p + 1} = {p}" by auto
    with 2 p show ?thesis by (intro that [of p]) simp_all
  next
    case 3
    from alloc_pages_Some [OF assms 3] obtain start where "a = page_to_addr start"
      "{start ..< start + n} \<subseteq> free_set pm" "\<And>s. {s ..< s + n} \<subseteq> free_set pm \<Longrightarrow> start \<le> s"
      "free_set pm' = free_set pm - {start ..< start + n}"
      "pm_free pm' = pm_free pm - n" "pm_total pm' = pm_total pm" by metis
    with 3 show ?thesis by (intro that [of start]) simp_all
  qed
qed

lemma alloc_pages_inv:
  assumes "pmm_inv pm" and "alloc_pages n pm = (Some a, pm')"
  shows "pmm_inv pm'"
  using assms(2)
proof (rule alloc_pages_run)
  fix start
  assume "{start ..< start + n} \<subseteq> free_set pm" "free_set pm' = free_set pm - {start ..< start + n}"
    "pm_free pm' = pm_free pm - n" "pm_total pm' = pm_total pm"
  with assms(1) show ?thesis by (simp add: pmm_inv_def card_Diff_subset)
qed

section \<open>Properties\<close>

lemma free_set_code: "free_set pm = set (filter (is_page_free pm) [0 ..< pm_total pm])"
  using free_set_subset by (fastforce simp: free_set_def)

definition pmm_example :: pmm where
  "pmm_example = \<lparr>pm_bitmap = (\<lambda>i. if i = 0 then 0xE5 else 0xFF), pm_total = 16, pm_free = 3,
     pm_next_free_hint = 0, pm_largest_free_run = 2\<rparr>"

lemma pmm_example_free: "free_set pmm_example = {1, 3, 4}"
  by (simp add: free_set_code pmm_example_def is_page_free_def upt_rec, simp add: numeral_eq_Suc)

lemma pmm_example_inv: "pmm_inv pmm_example"
  by (simp add: pmm_inv_def pmm_example_free) (simp add: pmm_example_def)

text \<open>
  \<open>alloc_page\<close> is a first-fit allocator: under the invariant it fails exactly when no
  page is free, leaving the state alone, and otherwise it returns the address of the
  lowest free page, removes that page and no other from the free set, and keeps the
  invariant, in particular that the counter is the number of free pages.
\<close>

lemma alloc_page_first_fit:
  assumes "pmm_inv pm"
  shows "case alloc_page pm of
      (None, pm') \<Rightarrow> pm' = pm \<and> free_set pm = {}
    | (Some a, pm') \<Rightarrow> free_set pm \<noteq> {} \<and> a = page_to_addr (Min (free_set pm))
        \<and> free_set pm' = free_set pm - {Min (free_set pm)} \<and> pmm_inv pm'"
proof (cases "alloc_page pm")
  case (Pair r pm')
  show ?thesis
  proof (cases r)
    case None
    with Pair alloc_page_None [OF assms] show ?thesis by simp
  next
    case (Some a)
    with Pair obtain p where p: "a = page_to_addr p" "p \<in> free_set pm"
      "\<And>q. q \<in> free_set pm \<Longrightarrow> p \<le> q" "pm' = (set_page_allocated p pm)\<lparr>pm_free := pm_free pm - 1\<rparr>"
      by (metis alloc_page_Some)
    then have "Min (free_set pm) = p" by (intro Min_eqI) auto
    with p Pair Some alloc_page_inv [OF assms Pair] show ?thesis by auto
  qed
qed

text \<open>
  C11. \<open>alloc_pages\<close> searches exhaustively: under the invariant it fails for a positive
  count only when no run of that many free pages exists, and otherwise takes exactly the
  lowest such run and keeps the invariant.
\<close>

theorem alloc_pages_lowest_run:
  assumes "pmm_inv pm" and "1 \<le> n"
  shows "case alloc_pages n pm of
      (None, pm') \<Rightarrow> pm' = pm \<and> (\<forall>s. \<not> {s ..< s + n} \<subseteq> free_set pm)
    | (Some a, pm') \<Rightarrow> (\<exists>start. a = page_to_addr start \<and> {start ..< start + n} \<subseteq> free_set pm
        \<and> (\<forall>s < start. \<not> {s ..< s + n} \<subseteq> free_set pm)
        \<and> free_set pm' = free_set pm - {start ..< start + n} \<and> pmm_inv pm')"
proof (cases "alloc_pages n pm")
  case (Pair r pm')
  show ?thesis
  proof (cases r)
    case None
    with Pair assms alloc_pages_None [OF assms(1), of n pm'] show ?thesis by simp
  next
    case (Some a)
    with Pair have al: "alloc_pages n pm = (Some a, pm')" by simp
    show ?thesis
      by (rule alloc_pages_run [OF al])
        (use al alloc_pages_inv [OF assms(1) al] in \<open>auto simp flip: not_le\<close>)
  qed
qed

theorem alloc_pages_lowest_run_witness:
  "fst (alloc_pages 2 pmm_example) = Some 0x3000 \<and> fst (alloc_pages 3 pmm_example) = None
   \<and> (\<exists>start. {start ..< start + 2} \<subseteq> free_set pmm_example)"
  using alloc_pages_lowest_run [OF pmm_example_inv, of 2] alloc_pages_lowest_run [OF pmm_example_inv, of 3]
  by (auto simp: alloc_pages_def pmm_example_def run_is_free_def is_page_free_def upt_rec page_to_addr_def)

text \<open>
  Releasing what was allocated restores the allocator: after \<open>alloc_pages\<close> and
  \<open>free_pages\<close> of the same run the set of free pages and the free counter are what they
  were, and the invariant holds.
\<close>

lemma alloc_free_pages_restores:
  assumes "pmm_inv pm" and "alloc_pages n pm = (Some a, pm')"
  shows "free_set (free_pages a n pm') = free_set pm \<and> pm_free (free_pages a n pm') = pm_free pm
    \<and> pmm_inv (free_pages a n pm')"
  using assms(2)
proof (rule alloc_pages_run)
  fix start
  assume a: "a = page_to_addr start" and run: "{start ..< start + n} \<subseteq> free_set pm"
    and f: "free_set pm' = free_set pm - {start ..< start + n}" and t: "pm_total pm' = pm_total pm"
  note inv' = alloc_pages_inv [OF assms]
  have "a + of_nat i * PAGE_SIZE \<in> managed_addrs pm'" if "i < n" for i
  proof -
    from that run have "start + i \<in> free_set pm" by (simp add: subset_iff)
    with t free_set_subset [of pm] have "start + i < pm_total pm'" by auto
    then show ?thesis by (simp add: a page_to_addr_add managed_addrs_def)
  qed
  note fr = free_pages_managed [OF inv' this, of n]
  have "(\<lambda>i. a + of_nat i * PAGE_SIZE) ` {..< n} = page_to_addr ` {start ..< start + n}"
    by (simp add: a page_to_addr_add image_image flip: image_plus_upt image_add_atLeastLessThan)
      (simp add: image_image lessThan_atLeast0 flip: image_add_atLeastLessThan)
  with fr f run have "free_addrs (free_pages a n pm') = free_addrs pm"
    by (auto simp: free_addrs_def)
  with fr assms(1) have "free_set (free_pages a n pm') = free_set pm" by (simp add: free_set_addrs)
  with fr assms(1) show ?thesis by (simp add: pmm_inv_def)
qed

text \<open>
  C12. Boot-time initialisation establishes the invariant: when the conventional
  descriptors of the firmware's map do not overlap, the free pages are exactly the pages of
  conventional descriptors below the tracked end (at most \<open>MAX_PAGES\<close>), and the free
  counter counts them.
\<close>

theorem pmm_init_establishes_inv:
  assumes "conventional_disjoint ds"
  shows "pmm_inv (pmm_init ds pm0)
    \<and> free_set (pmm_init ds pm0) =
        (\<Union>d \<in> set ds. desc_pages (min (unat (pmm_tracked_end ds)) MAX_PAGES) d)"
  using card_desc_pages_disjoint [OF _ assms, of "min (unat (pmm_tracked_end ds)) MAX_PAGES"]
  by (simp add: pmm_inv_def pmm_init_spec)

definition efi_example :: "efi_memory_descriptor list" where
  "efi_example =
    [\<lparr>d_typ = 7, d_pad = 0, d_physical_start = 0x1000, d_virtual_start = 0, d_number_of_pages = 3, d_attribute = 0\<rparr>,
     \<lparr>d_typ = 2, d_pad = 0, d_physical_start = 0x4000, d_virtual_start = 0, d_number_of_pages = 2, d_attribute = 0\<rparr>,
     \<lparr>d_typ = 7, d_pad = 0, d_physical_start = 0x6000, d_virtual_start = 0, d_number_of_pages = 1, d_attribute = 0\<rparr>]"

lemma efi_example_pages:
  "map (\<lambda>d. (d_typ d, unat (desc_start_page d), unat (desc_end_page d))) efi_example =
     [(7, 1, 4), (2, 4, 6), (7, 6, 7)]"
  by code_simp

lemma efi_example_tracked: "unat (pmm_tracked_end efi_example) = 7"
  by code_simp

lemma efi_example_desc_pages:
  "4 < tot \<Longrightarrow> map (desc_pages tot) efi_example = [{1 ..< 4}, {}, {6 ..< min 7 tot}]"
  using efi_example_pages by (auto simp: efi_example_def desc_pages_def EFI_CONVENTIONAL_MEMORY_def)

theorem pmm_init_establishes_inv_witness:
  "pmm_inv (pmm_init efi_example pmm_example) \<and> free_set (pmm_init efi_example pmm_example) = {1, 2, 3, 6}"
proof -
  have d: "(\<Union>d \<in> set efi_example. desc_pages tot d) = \<Union> (set (map (desc_pages tot) efi_example))" for tot
    by simp
  have "sorted_wrt (\<lambda>A B. A \<inter> B = {}) (map (desc_pages MAX_PAGES) efi_example)"
    by (subst efi_example_desc_pages) auto
  then have "conventional_disjoint efi_example"
    by (simp add: conventional_disjoint_def sorted_wrt_map)
  moreover have "\<Union> (set (map (desc_pages 7) efi_example)) = {1, 2, 3, 6}"
    by (subst efi_example_desc_pages) auto
  ultimately show ?thesis
    using pmm_init_establishes_inv [of efi_example pmm_example] by (simp only: efi_example_tracked d) simp
qed

end
