(* ===== verification/Vm.thy ===== *)
theory Vm
  imports Pmm
begin

text \<open>
  The virtual memory manager, \<^verbatim>\<open>kernel/src/mm/vm.rs\<close>: four-level page tables in physical
  memory, the walk that creates missing tables, mapping, unmapping, remapping and
  translation, the sharing of the kernel half between address spaces, and the
  initialisation from the firmware memory map. A reference to a page table entry is the
  base of its table and an index. \<open>invlpg\<close> and the load of CR3 are recorded in the state.
\<close>

section \<open>Flags and entries\<close>

datatype vm_error = VmNotInitialized | VmUnaligned | VmAlreadyMapped | VmNotMapped | VmOutOfMemory

type_synonym page_flags = u64

definition PG_PRESENT :: page_flags where "PG_PRESENT = push_bit 0 1"
definition PG_WRITABLE :: page_flags where "PG_WRITABLE = push_bit 1 1"
definition PG_USER :: page_flags where "PG_USER = push_bit 2 1"
definition PG_WRITE_THROUGH :: page_flags where "PG_WRITE_THROUGH = push_bit 3 1"
definition PG_CACHE_DISABLE :: page_flags where "PG_CACHE_DISABLE = push_bit 4 1"
definition PG_GLOBAL :: page_flags where "PG_GLOBAL = push_bit 8 1"
definition PG_NO_EXECUTE :: page_flags where "PG_NO_EXECUTE = push_bit 63 1"
definition ADDR_MASK :: u64 where "ADDR_MASK = 0x000FFFFFFFFFF000"

lemmas pg_consts = PG_PRESENT_def PG_WRITABLE_def PG_USER_def PG_WRITE_THROUGH_def
  PG_CACHE_DISABLE_def PG_GLOBAL_def PG_NO_EXECUTE_def

definition kernel_rw :: page_flags where
  "kernel_rw = PG_PRESENT OR PG_WRITABLE OR PG_GLOBAL"

definition with_nx :: "page_flags \<Rightarrow> page_flags" where
  "with_nx f = f OR PG_NO_EXECUTE"

definition pg_without :: "page_flags \<Rightarrow> page_flags \<Rightarrow> page_flags" where
  "pg_without f other = f AND NOT other"

definition pte_present :: "u64 \<Rightarrow> bool" where
  "pte_present e \<longleftrightarrow> e AND PG_PRESENT \<noteq> 0"

definition pte_addr :: "u64 \<Rightarrow> usize" where
  "pte_addr e = e AND ADDR_MASK"

definition pte_set :: "usize \<Rightarrow> page_flags \<Rightarrow> u64" where
  "pte_set addr flags = (addr AND ADDR_MASK) OR flags"

section \<open>State\<close>

record vmm = ram +
  vm_active_pml4 :: usize
  vm_mapped_pages :: usize
  vm_page_table_pages :: usize
  vm_invalidated :: "usize list"
  vm_cr3 :: u64

type_synonym pte_ref = "usize \<times> nat"

definition read_entry :: "'a ram_scheme \<Rightarrow> pte_ref \<Rightarrow> u64" where
  "read_entry s = (\<lambda>(t, i). ram_mem s t i)"

definition write_entry :: "pte_ref \<Rightarrow> u64 \<Rightarrow> 'a ram_scheme \<Rightarrow> 'a ram_scheme" where
  "write_entry = (\<lambda>(t, i) e s. s\<lparr>ram_mem := (ram_mem s)(t := (ram_mem s t)(i := e))\<rparr>)"

definition invalidate_page :: "usize \<Rightarrow> 'a vmm_scheme \<Rightarrow> 'a vmm_scheme" where
  "invalidate_page addr s = s\<lparr>vm_invalidated := addr # vm_invalidated s\<rparr>"

section \<open>The table walk\<close>

definition split_indices :: "usize \<Rightarrow> nat \<times> nat \<times> nat \<times> nat" where
  "split_indices virt =
     (unat (drop_bit 39 virt AND 0x1FF), unat (drop_bit 30 virt AND 0x1FF),
      unat (drop_bit 21 virt AND 0x1FF), unat (drop_bit 12 virt AND 0x1FF))"

text \<open>The result is the base of the table and the updated \<open>created\<close> flag.\<close>

definition ensure_table ::
  "pte_ref \<Rightarrow> bool \<Rightarrow> bool \<Rightarrow> 'a vmm_scheme \<Rightarrow> (vm_error + usize \<times> bool) \<times> 'a vmm_scheme" where
  "ensure_table entry create created s =
     (if pte_present (read_entry s entry) then (Inr (pte_addr (read_entry s entry), created), s)
      else if \<not> create then (Inl VmNotMapped, s)
      else
        (case alloc_page_zeroed s of
           (None, s1) \<Rightarrow> (Inl VmOutOfMemory, s1)
         | (Some phys, s1) \<Rightarrow>
             let s2 = s1\<lparr>vm_page_table_pages := vm_page_table_pages s1 + 1\<rparr>
             in (Inr (phys, True), write_entry entry (pte_set phys (PG_PRESENT OR PG_WRITABLE)) s2)))"

definition ensure_table_user ::
  "pte_ref \<Rightarrow> bool \<Rightarrow> bool \<Rightarrow> bool \<Rightarrow> 'a vmm_scheme \<Rightarrow> (vm_error + usize \<times> bool) \<times> 'a vmm_scheme" where
  "ensure_table_user entry create created user_access s =
     (if pte_present (read_entry s entry) then
        let s1 = (if user_access \<and> read_entry s entry AND PG_USER = 0
                  then write_entry entry (read_entry s entry OR PG_USER) s else s)
        in (Inr (pte_addr (read_entry s1 entry), created), s1)
      else if \<not> create then (Inl VmNotMapped, s)
      else
        (case alloc_page_zeroed s of
           (None, s1) \<Rightarrow> (Inl VmOutOfMemory, s1)
         | (Some phys, s1) \<Rightarrow>
             let s2 = s1\<lparr>vm_page_table_pages := vm_page_table_pages s1 + 1\<rparr>;
                 table_flags = (PG_PRESENT OR PG_WRITABLE) OR (if user_access then PG_USER else 0)
             in (Inr (phys, True), write_entry entry (pte_set phys table_flags) s2)))"

definition walk_to_entry_with_root ::
  "usize \<Rightarrow> usize \<Rightarrow> bool \<Rightarrow> 'a vmm_scheme \<Rightarrow> (vm_error + pte_ref \<times> bool) \<times> 'a vmm_scheme" where
  "walk_to_entry_with_root pml4_phys virt create s =
     (let (pml4_idx, pdpt_idx, pd_idx, pt_idx) = split_indices virt in
      case ensure_table (pml4_phys, pml4_idx) create False s of
        (Inl e, s1) \<Rightarrow> (Inl e, s1)
      | (Inr (pdpt, created1), s1) \<Rightarrow>
          (case ensure_table (pdpt, pdpt_idx) create created1 s1 of
             (Inl e, s2) \<Rightarrow> (Inl e, s2)
           | (Inr (pd, created2), s2) \<Rightarrow>
               (case ensure_table (pd, pd_idx) create created2 s2 of
                  (Inl e, s3) \<Rightarrow> (Inl e, s3)
                | (Inr (pt, created3), s3) \<Rightarrow> (Inr ((pt, pt_idx), created3), s3))))"

definition walk_to_entry_with_root_user ::
  "usize \<Rightarrow> usize \<Rightarrow> bool \<Rightarrow> bool \<Rightarrow> 'a vmm_scheme \<Rightarrow> (vm_error + pte_ref \<times> bool) \<times> 'a vmm_scheme" where
  "walk_to_entry_with_root_user pml4_phys virt create user_access s =
     (let (pml4_idx, pdpt_idx, pd_idx, pt_idx) = split_indices virt in
      case ensure_table_user (pml4_phys, pml4_idx) create False user_access s of
        (Inl e, s1) \<Rightarrow> (Inl e, s1)
      | (Inr (pdpt, created1), s1) \<Rightarrow>
          (case ensure_table_user (pdpt, pdpt_idx) create created1 user_access s1 of
             (Inl e, s2) \<Rightarrow> (Inl e, s2)
           | (Inr (pd, created2), s2) \<Rightarrow>
               (case ensure_table_user (pd, pd_idx) create created2 user_access s2 of
                  (Inl e, s3) \<Rightarrow> (Inl e, s3)
                | (Inr (pt, created3), s3) \<Rightarrow> (Inr ((pt, pt_idx), created3), s3))))"

definition walk_to_entry :: "usize \<Rightarrow> bool \<Rightarrow> 'a vmm_scheme \<Rightarrow> (vm_error + pte_ref \<times> bool) \<times> 'a vmm_scheme" where
  "walk_to_entry virt create s =
     (if vm_active_pml4 s = 0 then (Inl VmNotInitialized, s)
      else walk_to_entry_with_root_user (vm_active_pml4 s) virt create False s)"

section \<open>Mapping\<close>

definition map_page_internal ::
  "usize \<Rightarrow> usize \<Rightarrow> usize \<Rightarrow> page_flags \<Rightarrow> 'a vmm_scheme \<Rightarrow> (vm_error + unit) \<times> 'a vmm_scheme" where
  "map_page_internal pml4_phys virt phys flags s =
     (if \<not> is_page_aligned virt \<or> \<not> is_page_aligned phys then (Inl VmUnaligned, s)
      else
        (case walk_to_entry_with_root_user pml4_phys virt True (flags AND PG_USER \<noteq> 0) s of
           (Inl e, s1) \<Rightarrow> (Inl e, s1)
         | (Inr (entry, created_table), s1) \<Rightarrow>
             if pte_present (read_entry s1 entry) then (Inl VmAlreadyMapped, s1)
             else
               let s2 = write_entry entry (pte_set phys flags) s1;
                   s3 = s2\<lparr>vm_mapped_pages := vm_mapped_pages s2 + 1\<rparr>
               in (Inr (), if created_table then invalidate_page virt s3 else s3)))"

definition map_page :: "usize \<Rightarrow> usize \<Rightarrow> page_flags \<Rightarrow> 'a vmm_scheme \<Rightarrow> (vm_error + unit) \<times> 'a vmm_scheme" where
  "map_page virt phys flags s =
     (if \<not> is_page_aligned virt \<or> \<not> is_page_aligned phys then (Inl VmUnaligned, s)
      else if vm_active_pml4 s = 0 then (Inl VmNotInitialized, s)
      else map_page_internal (vm_active_pml4 s) virt phys flags s)"

definition map_page_in_pml4 ::
  "usize \<Rightarrow> usize \<Rightarrow> usize \<Rightarrow> page_flags \<Rightarrow> 'a vmm_scheme \<Rightarrow> (vm_error + unit) \<times> 'a vmm_scheme" where
  "map_page_in_pml4 pml4_phys virt phys flags s =
     (if \<not> is_page_aligned virt \<or> \<not> is_page_aligned phys then (Inl VmUnaligned, s)
      else if pml4_phys = 0 then (Inl VmNotInitialized, s)
      else map_page_internal pml4_phys virt phys flags s)"

definition clone_kernel_mappings :: "usize \<Rightarrow> 'a vmm_scheme \<Rightarrow> (vm_error + unit) \<times> 'a vmm_scheme" where
  "clone_kernel_mappings dst s =
     (if \<not> is_page_aligned dst then (Inl VmUnaligned, s)
      else if vm_active_pml4 s = 0 then (Inl VmNotInitialized, s)
      else
        (Inr (), fold (\<lambda>i s. write_entry (dst, i) (read_entry s (vm_active_pml4 s, i)) s) [256 ..< 512]
                   (fold (\<lambda>i. write_entry (dst, i) 0) [0 ..< 256] s)))"

definition unmap_page :: "usize \<Rightarrow> 'a vmm_scheme \<Rightarrow> (vm_error + unit) \<times> 'a vmm_scheme" where
  "unmap_page virt s =
     (if \<not> is_page_aligned virt then (Inl VmUnaligned, s)
      else
        (case walk_to_entry virt False s of
           (Inl e, s1) \<Rightarrow> (Inl e, s1)
         | (Inr (entry, _), s1) \<Rightarrow>
             if \<not> pte_present (read_entry s1 entry) then (Inl VmNotMapped, s1)
             else
               let s2 = write_entry entry 0 s1
               in (Inr (), invalidate_page virt (s2\<lparr>vm_mapped_pages := vm_mapped_pages s2 - 1\<rparr>))))"

definition unmap_page_in_pml4 :: "usize \<Rightarrow> usize \<Rightarrow> 'a vmm_scheme \<Rightarrow> (vm_error + unit) \<times> 'a vmm_scheme" where
  "unmap_page_in_pml4 pml4_phys virt s =
     (if \<not> is_page_aligned virt then (Inl VmUnaligned, s)
      else if pml4_phys = 0 then (Inl VmNotInitialized, s)
      else
        (case walk_to_entry_with_root_user pml4_phys virt False False s of
           (Inl e, s1) \<Rightarrow> (Inl e, s1)
         | (Inr (entry, _), s1) \<Rightarrow>
             if \<not> pte_present (read_entry s1 entry) then (Inl VmNotMapped, s1)
             else
               let s2 = write_entry entry 0 s1
               in (Inr (), s2\<lparr>vm_mapped_pages := vm_mapped_pages s2 - 1\<rparr>)))"

text \<open>The loop over the four levels of \<open>remap_page_user\<close>, which the source unrolls.\<close>

fun promote_user :: "usize \<Rightarrow> nat list \<Rightarrow> 'a vmm_scheme \<Rightarrow> bool \<times> 'a vmm_scheme" where
  "promote_user t [] s = (True, s)"
| "promote_user t (i # is) s =
     (if \<not> pte_present (read_entry s (t, i)) then (False, s)
      else
        let s1 = write_entry (t, i) (read_entry s (t, i) OR PG_USER) s
        in promote_user (pte_addr (read_entry s1 (t, i))) is s1)"

definition remap_page_user :: "usize \<Rightarrow> 'a vmm_scheme \<Rightarrow> (vm_error + unit) \<times> 'a vmm_scheme" where
  "remap_page_user virt s =
     (if \<not> is_page_aligned virt then (Inl VmUnaligned, s)
      else if vm_active_pml4 s = 0 then (Inl VmNotInitialized, s)
      else
        let (pml4_idx, pdpt_idx, pd_idx, pt_idx) = split_indices virt;
            (found, s1) = promote_user (vm_active_pml4 s) [pml4_idx, pdpt_idx, pd_idx, pt_idx] s
        in if found then (Inr (), invalidate_page virt s1) else (Inl VmNotMapped, s1))"

definition remap_page_flags :: "usize \<Rightarrow> page_flags \<Rightarrow> 'a vmm_scheme \<Rightarrow> (vm_error + unit) \<times> 'a vmm_scheme" where
  "remap_page_flags virt additional_flags s =
     (if \<not> is_page_aligned virt then (Inl VmUnaligned, s)
      else
        (case walk_to_entry virt False s of
           (Inl e, s1) \<Rightarrow> (Inl e, s1)
         | (Inr (entry, _), s1) \<Rightarrow>
             if \<not> pte_present (read_entry s1 entry) then (Inl VmNotMapped, s1)
             else
               let raw = read_entry s1 entry; phys = raw AND ADDR_MASK; current_flags = raw AND NOT ADDR_MASK
               in (Inr (), invalidate_page virt (write_entry entry (pte_set phys (current_flags OR additional_flags)) s1))))"

definition query_mapping_in_pml4 ::
  "usize \<Rightarrow> usize \<Rightarrow> 'a vmm_scheme \<Rightarrow> (vm_error + usize \<times> page_flags) \<times> 'a vmm_scheme" where
  "query_mapping_in_pml4 pml4_phys virt s =
     (if \<not> is_page_aligned virt then (Inl VmUnaligned, s)
      else if pml4_phys = 0 then (Inl VmNotInitialized, s)
      else
        (case walk_to_entry_with_root_user pml4_phys virt False False s of
           (Inl e, s1) \<Rightarrow> (Inl e, s1)
         | (Inr (entry, _), s1) \<Rightarrow>
             if \<not> pte_present (read_entry s1 entry) then (Inl VmNotMapped, s1)
             else (Inr (pte_addr (read_entry s1 entry), read_entry s1 entry), s1)))"

definition remap_page :: "usize \<Rightarrow> usize \<Rightarrow> page_flags \<Rightarrow> 'a vmm_scheme \<Rightarrow> (vm_error + unit) \<times> 'a vmm_scheme" where
  "remap_page virt new_phys flags s =
     (if \<not> is_page_aligned virt \<or> \<not> is_page_aligned new_phys then (Inl VmUnaligned, s)
      else
        (case walk_to_entry virt False s of
           (Inl e, s1) \<Rightarrow> (Inl e, s1)
         | (Inr (entry, _), s1) \<Rightarrow>
             if \<not> pte_present (read_entry s1 entry) then (Inl VmNotMapped, s1)
             else (Inr (), invalidate_page virt (write_entry entry (pte_set new_phys flags) s1))))"

definition vm_translate :: "usize \<Rightarrow> 'a vmm_scheme \<Rightarrow> usize option" where
  "vm_translate virt s =
     (case walk_to_entry virt False s of
        (Inl e, s1) \<Rightarrow> None
      | (Inr (entry, _), s1) \<Rightarrow>
          if \<not> pte_present (read_entry s1 entry) then None else Some (pte_addr (read_entry s1 entry)))"

section \<open>Initialisation\<close>

definition is_mappable_ram :: "u32 \<Rightarrow> bool" where
  "is_mappable_ram typ \<longleftrightarrow> typ \<in> {1, 2, 3, 4, 5, 6, 7, 9, 10, 14}"

definition is_code_descriptor :: "u32 \<Rightarrow> bool" where
  "is_code_descriptor typ \<longleftrightarrow> typ \<in> {1, 3, 5}"

definition EFI_MEMORY_UC :: u64 where "EFI_MEMORY_UC = 0x1"
definition EFI_MEMORY_WC :: u64 where "EFI_MEMORY_WC = 0x2"
definition EFI_MEMORY_WT :: u64 where "EFI_MEMORY_WT = 0x4"
definition EFI_MEMORY_WB :: u64 where "EFI_MEMORY_WB = 0x8"
definition EFI_MEMORY_UCE :: u64 where "EFI_MEMORY_UCE = 0x10"
definition EFI_MEMORY_WP :: u64 where "EFI_MEMORY_WP = 0x1000"
definition EFI_MEMORY_RP :: u64 where "EFI_MEMORY_RP = 0x2000"
definition EFI_MEMORY_XP :: u64 where "EFI_MEMORY_XP = 0x8000000000000000"

definition apply_cacheability_flags :: "page_flags \<Rightarrow> u64 \<Rightarrow> page_flags" where
  "apply_cacheability_flags flags attribute =
     (if attribute AND (EFI_MEMORY_UC OR EFI_MEMORY_UCE) \<noteq> 0 then flags OR PG_CACHE_DISABLE
      else if attribute AND EFI_MEMORY_WT \<noteq> 0 then flags OR PG_WRITE_THROUGH
      else if attribute AND EFI_MEMORY_WC \<noteq> 0 then flags OR PG_CACHE_DISABLE
      else if attribute AND EFI_MEMORY_WB \<noteq> 0 then flags
      else flags)"

definition flags_for_descriptor :: "efi_memory_descriptor \<Rightarrow> page_flags" where
  "flags_for_descriptor desc =
     (let flags = kernel_rw;
          flags1 = (if d_attribute desc AND EFI_MEMORY_XP \<noteq> 0 \<or> \<not> is_code_descriptor (d_typ desc)
                    then with_nx flags else flags);
          flags2 = (if d_attribute desc AND (EFI_MEMORY_WP OR EFI_MEMORY_RP) \<noteq> 0
                    then pg_without flags1 PG_WRITABLE else flags1)
      in apply_cacheability_flags flags2 (d_attribute desc))"

text \<open>\<open>(start..end).step_by(PAGE_SIZE)\<close>.\<close>

definition page_range :: "usize \<Rightarrow> usize \<Rightarrow> usize list" where
  "page_range start stop =
     (if start < stop then map (\<lambda>k. start + of_nat k * PAGE_SIZE) [0 ..< (unat (stop - start) + 4095) div 4096] else [])"

definition HIGHER_HALF_BASE :: usize where "HIGHER_HALF_BASE = 0xFFFF800000000000"
definition HIGHER_HALF_MIRROR_SIZE :: usize where "HIGHER_HALF_MIRROR_SIZE = 512 * 1024 * 1024"

definition identity_map_page :: "usize \<Rightarrow> page_flags \<Rightarrow> usize \<Rightarrow> 'a vmm_scheme \<Rightarrow> 'a vmm_scheme" where
  "identity_map_page pml4_phys flags phys s =
     (let s1 = snd (map_page_internal pml4_phys phys phys flags s) in
      if phys < HIGHER_HALF_MIRROR_SIZE
      then snd (map_page_internal pml4_phys (HIGHER_HALF_BASE + phys) phys flags s1)
      else s1)"

definition identity_map_descriptor :: "usize \<Rightarrow> efi_memory_descriptor \<Rightarrow> 'a vmm_scheme \<Rightarrow> 'a vmm_scheme" where
  "identity_map_descriptor pml4_phys desc s =
     (if \<not> is_mappable_ram (d_typ desc) then s
      else
        let region_start = align_down (d_physical_start desc);
            region_end = align_up (d_physical_start desc + d_number_of_pages desc * PAGE_SIZE)
        in fold (identity_map_page pml4_phys (flags_for_descriptor desc)) (page_range region_start region_end) s)"

definition device_flags :: page_flags where
  "device_flags = PG_PRESENT OR PG_WRITABLE OR PG_CACHE_DISABLE OR PG_GLOBAL"

text \<open>\<open>None\<close> is the panic of \<open>expect\<close> when no page is left for the root table.\<close>

definition vm_init :: "efi_memory_descriptor list \<Rightarrow> 'a vmm_scheme \<Rightarrow> 'a vmm_scheme option" where
  "vm_init descs s =
     (case alloc_page_zeroed s of
        (None, _) \<Rightarrow> None
      | (Some pml4_phys, s0) \<Rightarrow>
          let s1 = s0\<lparr>vm_page_table_pages := vm_page_table_pages s0 + 1, vm_active_pml4 := pml4_phys\<rparr>;
              s2 = fold (identity_map_descriptor pml4_phys) descs s1;
              s3 = snd (map_page_internal pml4_phys pml4_phys pml4_phys kernel_rw s2);
              s4 = fold (\<lambda>i s. snd (map_page_internal pml4_phys (0xB8000 + of_nat i * PAGE_SIZE)
                     (0xB8000 + of_nat i * PAGE_SIZE) device_flags s)) [0 ..< 8] s3;
              s5 = snd (map_page_internal pml4_phys 0xFEE00000 0xFEE00000 device_flags s4);
              s6 = snd (map_page_internal pml4_phys 0xFEC00000 0xFEC00000 device_flags s5)
          in Some (s6\<lparr>vm_cr3 := pml4_phys\<rparr>))"

definition fb_flags :: page_flags where
  "fb_flags = PG_PRESENT OR PG_WRITABLE OR PG_USER OR PG_CACHE_DISABLE OR PG_GLOBAL OR PG_NO_EXECUTE"

definition map_framebuffer :: "u64 \<Rightarrow> usize \<Rightarrow> 'a vmm_scheme \<Rightarrow> bool \<times> 'a vmm_scheme" where
  "map_framebuffer fb_addr fb_size s =
     fold (\<lambda>phys (no_error, s).
        case map_page phys phys fb_flags s of
          (Inr (), s1) \<Rightarrow> (no_error, s1)
        | (Inl VmAlreadyMapped, s1) \<Rightarrow> (no_error, s1)
        | (Inl e, s1) \<Rightarrow> (False, s1))
       (page_range (align_down fb_addr) (align_up (fb_addr + fb_size))) (True, s)"

text \<open>\<open>start..=top\<close> in steps of a page; both ends are aligned. The stack pointer is an argument.\<close>

definition ensure_current_stack_mapped :: "usize \<Rightarrow> usize \<Rightarrow> 'a vmm_scheme \<Rightarrow> bool \<times> 'a vmm_scheme" where
  "ensure_current_stack_mapped rsp pages s =
     (if pages = 0 then (True, s)
      else
        let top = align_down rsp; start = saturating_sub top ((pages - 1) * PAGE_SIZE) in
        fold (\<lambda>k (success, s).
            let page = start + of_nat k * PAGE_SIZE in
            if vm_translate page s \<noteq> None then (success, s)
            else
              (case map_page page page (with_nx kernel_rw) s of
                 (Inr (), s1) \<Rightarrow> (success, s1)
               | (Inl VmAlreadyMapped, s1) \<Rightarrow> (success, s1)
               | (Inl e, s1) \<Rightarrow> (False, s1)))
          [0 ..< Suc (unat (top - start) div 4096)] (True, s))"

end
