(* ===== verification/Vm_Tables.thy ===== *)
theory Vm_Tables
  imports Vm
begin

text \<open>
  What the page tables of \<^verbatim>\<open>Vm\<close> mean. The abstract view of an address space is a partial
  function from virtual pages to entries, read off the four levels of tables. The
  invariant assigns every table page a key: the path of indices that leads to it, and the
  address space it belongs to, or none when it lies in the kernel half, which address
  spaces share. The lemmas show that each operation changes the view as specified, at
  one page and in one address space. The contract that the region operations rely on
  is the locale \<open>page_mapper\<close>.
\<close>

section \<open>Entries and indices\<close>

lemma bit_ADDR_MASK: "bit ADDR_MASK n \<longleftrightarrow> 12 \<le> n \<and> n < 52"
proof -
  have e: "ADDR_MASK = push_bit 12 (mask 40)" by (simp add: ADDR_MASK_def mask_eq_exp_minus_1 push_bit_eq_mult)
  show ?thesis unfolding e bit_push_bit_iff bit_mask_iff by auto
qed

lemma pte_present_bit: "pte_present e \<longleftrightarrow> bit e 0"
  using and_exp_eq_0_iff_not_bit [of e 0] by (simp add: pte_present_def PG_PRESENT_def)

lemma not_present_0 [simp]: "\<not> pte_present 0"
  by (simp add: pte_present_bit)

lemma bit_PG_USER: "bit PG_USER n \<longleftrightarrow> n = 2"
  by (simp only: PG_USER_def push_bit_of_1 bit_exp_iff) auto

lemma pte_user [simp]:
  "pte_present (e OR PG_USER) = pte_present e" "pte_addr (e OR PG_USER) = pte_addr e"
proof -
  show "pte_present (e OR PG_USER) = pte_present e" by (simp add: pte_present_bit bit_or_iff bit_PG_USER)
  show "pte_addr (e OR PG_USER) = pte_addr e"
    by (rule bit_word_eqI) (auto simp: pte_addr_def bit_and_iff bit_or_iff bit_ADDR_MASK bit_PG_USER)
qed

lemma pte_set_present [simp]: "pte_present (pte_set a f) = pte_present f"
  by (auto simp: pte_present_bit pte_set_def bit_or_iff bit_and_iff bit_ADDR_MASK)

definition table_address :: "usize \<Rightarrow> bool" where
  "table_address a \<longleftrightarrow> a AND ADDR_MASK = a"

definition pure_flags :: "page_flags \<Rightarrow> bool" where
  "pure_flags f \<longleftrightarrow> f AND ADDR_MASK = 0"

lemma pte_set_addr: "table_address a \<Longrightarrow> pure_flags f \<Longrightarrow> pte_addr (pte_set a f) = a"
  by (simp add: pte_addr_def pte_set_def table_address_def pure_flags_def and.assoc bit.conj_disj_distrib2)

lemma table_flags [simp]:
  "pte_present ((PG_PRESENT OR PG_WRITABLE) OR (if u then PG_USER else 0))"
  "pure_flags ((PG_PRESENT OR PG_WRITABLE) OR (if u then PG_USER else 0))"
proof -
  have p: "bit PG_PRESENT n \<longleftrightarrow> n = 0" and w: "bit PG_WRITABLE n \<longleftrightarrow> n = 1" for n
    by (simp_all only: PG_PRESENT_def PG_WRITABLE_def push_bit_of_1 bit_exp_iff) auto
  show "pte_present ((PG_PRESENT OR PG_WRITABLE) OR (if u then PG_USER else 0))"
    by (simp add: pte_present_bit bit_or_iff p)
  show "pure_flags ((PG_PRESENT OR PG_WRITABLE) OR (if u then PG_USER else 0))"
    unfolding pure_flags_def
    by (rule bit_word_eqI) (auto simp: bit_and_iff bit_or_iff bit_ADDR_MASK p w bit_PG_USER split: if_splits)
qed

lemma managed_table_address:
  assumes "pmm_inv s" and "a \<in> managed_addrs s"
  shows "table_address a"
proof -
  from assms obtain p where p: "a = page_to_addr p" "p < 2 ^ 18"
    by (auto simp: managed_addrs_def pmm_inv_def)
  have "a = push_bit 12 (word_of_nat p)" by (simp add: p(1) page_to_addr_def push_bit_eq_mult mult.commute)
  moreover have low: "bit (word_of_nat p :: u64) n \<Longrightarrow> n < 18" for n
  proof -
    assume "bit (word_of_nat p :: u64) n"
    then have "bit p n" by (simp add: bit_of_nat_iff)
    moreover have "take_bit 18 p = p" using p(2) by (simp add: take_bit_nat_eq_self)
    ultimately show "n < 18" by (metis bit_take_bit_iff)
  qed
  ultimately show ?thesis unfolding table_address_def
    by (intro bit_word_eqI) (auto simp: bit_and_iff bit_ADDR_MASK bit_push_bit_iff dest: low)
qed

definition idx_list :: "usize \<Rightarrow> nat list" where
  "idx_list v = (case split_indices v of (a, b, c, d) \<Rightarrow> [a, b, c, d])"

lemma idx_bound: "unat (x AND 0x1FF :: u64) < 512"
proof -
  have "x AND 0x1FF = take_bit 9 x" by (simp add: take_bit_eq_mask mask_eq_exp_minus_1)
  then have "unat (x AND 0x1FF) = take_bit 9 (unat x)" by (simp only: unsigned_take_bit_eq)
  also have "\<dots> < 2 ^ 9" by (rule take_bit_nat_less_exp)
  finally show ?thesis by simp
qed

lemma idx_list_simps [simp]: "length (idx_list v) = 4" "\<forall>i \<in> set (idx_list v). i < 512"
  by (simp_all add: idx_list_def split_indices_def idx_bound)

lemma idx_list_shape: "\<exists>a b c d. idx_list v = [a, b, c, d]"
  by (simp add: idx_list_def split: prod.split)

definition same_page :: "usize \<Rightarrow> usize \<Rightarrow> bool" where
  "same_page v w \<longleftrightarrow> idx_list v = idx_list w"

definition kernel_half :: "usize \<Rightarrow> bool" where
  "kernel_half v \<longleftrightarrow> 256 \<le> hd (idx_list v)"

section \<open>Locations and entries\<close>

fun pt_loc :: "phys_mem \<Rightarrow> usize \<Rightarrow> nat list \<Rightarrow> pte_ref option" where
  "pt_loc m t [] = None"
| "pt_loc m t [i] = Some (t, i)"
| "pt_loc m t (i # is) = (if pte_present (m t i) then pt_loc m (pte_addr (m t i)) is else None)"

definition pt_entry :: "phys_mem \<Rightarrow> usize \<Rightarrow> nat list \<Rightarrow> u64 option" where
  "pt_entry m t is =
     (case pt_loc m t is of
        None \<Rightarrow> None
      | Some (t', i) \<Rightarrow> if pte_present (m t' i) then Some (m t' i) else None)"

definition vm_view :: "'a ram_scheme \<Rightarrow> usize \<Rightarrow> usize \<Rightarrow> u64 option" where
  "vm_view s r v = pt_entry (ram_mem s) r (idx_list v)"

lemma pt_loc_Cons: "is \<noteq> [] \<Longrightarrow> pt_loc m t (i # is) = (if pte_present (m t i) then pt_loc m (pte_addr (m t i)) is else None)"
  by (cases "is") auto

lemma pt_entry_simps:
  "pt_entry m t [i] = (if pte_present (m t i) then Some (m t i) else None)"
  "is \<noteq> [] \<Longrightarrow> pt_entry m t (i # is) = (if pte_present (m t i) then pt_entry m (pte_addr (m t i)) is else None)"
  by (simp_all add: pt_entry_def pt_loc_Cons)

lemma pt_entry_zero: "m t = (\<lambda>_. 0) \<Longrightarrow> pt_entry m t is = None"
  by (cases "(m, t, is)" rule: pt_loc.cases) (simp_all add: pt_entry_def)

section \<open>Keys\<close>

type_synonym pt_key = "usize option \<times> nat list"

fun child_key :: "pt_key \<Rightarrow> nat \<Rightarrow> pt_key" where
  "child_key (owner, path) i = (if path = [] \<and> 256 \<le> i then None else owner, path @ [i])"

definition keyed :: "(usize \<Rightarrow> pt_key option) \<Rightarrow> phys_mem \<Rightarrow> bool" where
  "keyed K m \<longleftrightarrow> (\<forall>t k i. K t = Some k \<and> length (snd k) < 3 \<and> i < 512 \<and> pte_present (m t i)
     \<longrightarrow> K (pte_addr (m t i)) = Some (child_key k i))"

lemma keyedD:
  "keyed K m \<Longrightarrow> K t = Some k \<Longrightarrow> length (snd k) < 3 \<Longrightarrow> i < 512 \<Longrightarrow> pte_present (m t i) \<Longrightarrow>
   K (pte_addr (m t i)) = Some (child_key k i)"
  unfolding keyed_def by blast

definition at_level :: "(usize \<Rightarrow> pt_key option) \<Rightarrow> usize \<Rightarrow> nat list \<Rightarrow> bool" where
  "at_level K t is \<longleftrightarrow> (\<exists>k. K t = Some k \<and> length (snd k) + length is = 4) \<and> (\<forall>i \<in> set is. i < 512)"

lemma length_child_key [simp]: "length (snd (child_key k i)) = Suc (length (snd k))"
  by (cases k) simp

lemma at_level_child:
  assumes "keyed K m" and "at_level K t (i # is)" and "is \<noteq> []" and "pte_present (m t i)"
  shows "at_level K (pte_addr (m t i)) is"
proof -
  from assms(2) obtain k where k: "K t = Some k" "length (snd k) + Suc (length is) = 4" "i < 512" "\<forall>i \<in> set is. i < 512"
    by (auto simp: at_level_def)
  with assms(3) have "length (snd k) < 3" by (cases "is") auto
  with k have "K (pte_addr (m t i)) = Some (child_key k i)" by (intro keyedD [OF assms(1) k(1) _ _ assms(4)])
  with k show ?thesis by (simp add: at_level_def)
qed

lemma foldl_child_key:
  "foldl child_key (owner, path) js = (if path = [] \<and> js \<noteq> [] \<and> 256 \<le> hd js then None else owner, path @ js)"
  by (induction js arbitrary: owner path) auto

lemma pt_loc_key:
  assumes "keyed K m" and "K t = Some k" and "at_level K t is" and "pt_loc m t is = Some (t', i')"
  shows "is \<noteq> [] \<and> i' = last is \<and> K t' = Some (foldl child_key k (butlast is))"
  using assms
proof (induction m t "is" arbitrary: k rule: pt_loc.induct)
  case (3 m t i j js)
  then have pr: "pte_present (m t i)" "pt_loc m (pte_addr (m t i)) (j # js) = Some (t', i')" by (auto split: if_splits)
  have lev: "at_level K (pte_addr (m t i)) (j # js)" using at_level_child [of K m t i "j # js"] 3 pr(1) by simp
  have "K (pte_addr (m t i)) = Some (child_key k i)"
    using keyedD [of K m t k i] 3 pr(1) by (simp add: at_level_def)
  from 3(1) [OF pr(1) 3(2) this lev pr(2)] show ?case by simp
qed auto


section \<open>What a walk may do\<close>

definition vm_ok :: "(usize \<Rightarrow> pt_key option) \<Rightarrow> 'a ram_scheme \<Rightarrow> bool" where
  "vm_ok K s \<longleftrightarrow> pmm_inv s \<and> keyed K (ram_mem s) \<and> dom K \<subseteq> managed_addrs s - free_addrs s"

definition view_eq :: "(usize \<Rightarrow> pt_key option) \<Rightarrow> phys_mem \<Rightarrow> phys_mem \<Rightarrow> bool" where
  "view_eq K m m' \<longleftrightarrow> (\<forall>t is. at_level K t is \<longrightarrow> pt_entry m' t is = pt_entry m t is)"

definition extends :: "(usize \<Rightarrow> pt_key option) \<Rightarrow> phys_mem \<Rightarrow> phys_mem \<Rightarrow> bool" where
  "extends K m m' \<longleftrightarrow> (\<forall>t i. t \<in> dom K \<and> pte_present (m t i) \<longrightarrow> pte_present (m' t i) \<and> pte_addr (m' t i) = pte_addr (m t i))"

text \<open>
  A growth step: keys are added for pages that were free, no view changes, and memory that
  is neither a table nor free is untouched.
\<close>

definition grows ::
  "(usize \<Rightarrow> pt_key option) \<Rightarrow> 'a vmm_scheme \<Rightarrow> (usize \<Rightarrow> pt_key option) \<Rightarrow> 'a vmm_scheme \<Rightarrow> bool" where
  "grows K s K' s' \<longleftrightarrow> vm_ok K' s' \<and> K \<subseteq>\<^sub>m K' \<and> view_eq K (ram_mem s) (ram_mem s') \<and> extends K (ram_mem s) (ram_mem s')
     \<and> free_addrs s' = free_addrs s - (dom K' - dom K) \<and> dom K' - dom K \<subseteq> free_addrs s
     \<and> managed_addrs s' = managed_addrs s
     \<and> (\<forall>a. a \<notin> dom K \<and> a \<notin> free_addrs s \<longrightarrow> ram_mem s' a = ram_mem s a)
     \<and> vm_active_pml4 s' = vm_active_pml4 s"

lemma grows_refl: "vm_ok K s \<Longrightarrow> grows K s K s"
  by (simp add: grows_def view_eq_def extends_def)

lemma at_level_mono: "K \<subseteq>\<^sub>m K' \<Longrightarrow> at_level K t is \<Longrightarrow> at_level K' t is"
  by (auto simp: at_level_def map_le_def dom_def)

lemma grows_trans:
  assumes "grows K s K1 s1" and "grows K1 s1 K2 s2"
  shows "grows K s K2 s2"
proof -
  have le: "K \<subseteq>\<^sub>m K1" "K1 \<subseteq>\<^sub>m K2" and f: "free_addrs s1 = free_addrs s - (dom K1 - dom K)" "dom K1 - dom K \<subseteq> free_addrs s"
    "free_addrs s2 = free_addrs s1 - (dom K2 - dom K1)" "dom K2 - dom K1 \<subseteq> free_addrs s1"
    using assms by (simp_all add: grows_def)
  then have d: "dom K \<subseteq> dom K1" "dom K1 \<subseteq> dom K2" by (auto dest: map_le_implies_dom_le)
  have "view_eq K (ram_mem s) (ram_mem s2)"
    using assms at_level_mono [OF le(1)] by (simp add: grows_def view_eq_def)
  moreover have "extends K (ram_mem s) (ram_mem s2)"
  proof -
    have a: "extends K (ram_mem s) (ram_mem s1)" and b: "extends K1 (ram_mem s1) (ram_mem s2)"
      using assms by (simp_all add: grows_def)
    show ?thesis unfolding extends_def
    proof (intro allI impI)
      fix t i assume t: "t \<in> dom K \<and> pte_present (ram_mem s t i)"
      with a have "pte_present (ram_mem s1 t i)" "pte_addr (ram_mem s1 t i) = pte_addr (ram_mem s t i)"
        unfolding extends_def by blast+
      moreover have "t \<in> dom K1" using t d(1) by blast
      ultimately show "pte_present (ram_mem s2 t i) \<and> pte_addr (ram_mem s2 t i) = pte_addr (ram_mem s t i)"
        using b unfolding extends_def by metis
    qed
  qed
  moreover have "ram_mem s2 a = ram_mem s a" if "a \<notin> dom K" "a \<notin> free_addrs s" for a
  proof -
    from that f(1,2) have a1: "a \<notin> dom K1" "a \<notin> free_addrs s1" by blast+
    have "ram_mem s1 a = ram_mem s a" using assms(1) that unfolding grows_def by blast
    moreover have "ram_mem s2 a = ram_mem s1 a" using assms(2) a1 unfolding grows_def by blast
    ultimately show ?thesis by simp
  qed
  moreover have "free_addrs s2 = free_addrs s - (dom K2 - dom K)" "dom K2 - dom K \<subseteq> free_addrs s"
    using f d by blast+
  ultimately show ?thesis
    using assms map_le_trans [OF le] unfolding grows_def by metis
qed

lemma extends_pt_loc:
  assumes "keyed K m" and "extends K m m'" and "at_level K t is" and "pt_loc m t is = Some l"
  shows "pt_loc m' t is = Some l"
  using assms
proof (induction m t "is" rule: pt_loc.induct)
  case (3 m t i j js)
  then have pr: "pte_present (m t i)" "pt_loc m (pte_addr (m t i)) (j # js) = Some l" by (auto split: if_splits)
  have "at_level K (pte_addr (m t i)) (j # js)" using at_level_child [of K m t i "j # js"] 3 pr(1) by simp
  from 3(1) [OF pr(1) 3(2,3) this pr(2)] have "pt_loc m' (pte_addr (m t i)) (j # js) = Some l" .
  moreover have "pte_present (m' t i)" "pte_addr (m' t i) = pte_addr (m t i)"
    using 3(3,4) pr(1) by (auto simp: extends_def at_level_def)
  ultimately show ?case by simp
qed simp_all

text \<open>Two memories with the same presence and addresses above the leaves and the same leaves.\<close>

lemma same_shape_entry:
  assumes "keyed K m"
    and "\<And>t k i. K t = Some k \<Longrightarrow> length (snd k) < 3 \<Longrightarrow> pte_present (m' t i) = pte_present (m t i) \<and> pte_addr (m' t i) = pte_addr (m t i)"
    and "at_level K t is"
  shows "pt_loc m' t is = pt_loc m t is"
  using assms
proof (induction m t "is" rule: pt_loc.induct)
  case (3 m t i j js)
  from 3(4) obtain k where k: "K t = Some k" "length (snd k) < 3" by (auto simp: at_level_def)
  from 3(3) [OF this] have e: "pte_present (m' t i) = pte_present (m t i)" "pte_addr (m' t i) = pte_addr (m t i)" by auto
  show ?case
  proof (cases "pte_present (m t i)")
    case True
    have "at_level K (pte_addr (m t i)) (j # js)" using at_level_child [of K m t i "j # js"] 3 True by simp
    with 3(1) [OF True 3(2)] 3(3) e True show ?thesis by simp
  qed (simp add: e)
qed simp_all

lemma ram_mem_write [simp]:
  "ram_mem (write_entry (t, i) e s) = (ram_mem s)(t := (ram_mem s t)(i := e))"
  by (simp add: write_entry_def)

lemma write_entry_frame [simp]:
  "pmm_inv (write_entry l e s) = pmm_inv s" "free_addrs (write_entry l e s) = free_addrs s"
  "managed_addrs (write_entry l e s) = managed_addrs s"
  by (simp_all add: write_entry_def split: prod.split)

lemma vmm_write_entry_frame [simp]:
  "vm_active_pml4 (write_entry l e s) = vm_active_pml4 s" "vm_mapped_pages (write_entry l e s) = vm_mapped_pages s"
  "vm_page_table_pages (write_entry l e s) = vm_page_table_pages s" "vm_invalidated (write_entry l e s) = vm_invalidated s"
  by (simp_all add: write_entry_def split: prod.split)

lemma read_write_entry [simp]:
  "read_entry (write_entry l e s) l' = (if l' = l then e else read_entry s l')"
  by (cases l; cases l') (auto simp: read_entry_def)

text \<open>Adding the USER bit to an entry that is not a leaf.\<close>

lemma grows_promote:
  assumes ok: "vm_ok K s" and k: "K t = Some k" "length (snd k) < 3"
  shows "grows K s K (write_entry (t, i) (read_entry s (t, i) OR PG_USER) s)"
proof -
  let ?s = "write_entry (t, i) (read_entry s (t, i) OR PG_USER) s"
  have e: "pte_present (ram_mem ?s u j) = pte_present (ram_mem s u j) \<and> pte_addr (ram_mem ?s u j) = pte_addr (ram_mem s u j)" for u j
    by (simp add: read_entry_def)
  then have "keyed K (ram_mem ?s)" using ok by (simp add: vm_ok_def keyed_def)
  then have "vm_ok K ?s" using ok by (simp add: vm_ok_def)
  moreover have "view_eq K (ram_mem s) (ram_mem ?s)"
    unfolding view_eq_def
  proof (intro allI impI)
    fix u "is" assume lev: "at_level K u is"
    have loc: "pt_loc (ram_mem ?s) u is = pt_loc (ram_mem s) u is"
      by (rule same_shape_entry [OF _ e lev]) (use ok in \<open>simp add: vm_ok_def\<close>)
    show "pt_entry (ram_mem ?s) u is = pt_entry (ram_mem s) u is"
    proof (cases "pt_loc (ram_mem s) u is")
      case (Some l)
      obtain t' i' where l: "l = (t', i')" by fastforce
      from lev obtain ku where ku: "K u = Some ku" "length (snd ku) + length is = 4" by (auto simp: at_level_def)
      from pt_loc_key [OF _ ku(1) lev Some [unfolded l]] ok
      have "is \<noteq> []" "K t' = Some (foldl child_key ku (butlast is))" by (auto simp: vm_ok_def)
      moreover have "length (snd (foldl child_key ku js)) = length (snd ku) + length js" for js
        by (induction js arbitrary: ku) simp_all
      ultimately have "t' \<noteq> t" using k ku(2) by auto
      then show ?thesis using Some loc l by (simp add: pt_entry_def)
    qed (simp add: pt_entry_def loc [simplified])
  qed
  ultimately show ?thesis using e k by (auto simp: grows_def extends_def)
qed


lemma alloc_zeroed_vmm_frame:
  assumes "alloc_page_zeroed s = (x, s1)"
  shows "vm_active_pml4 s1 = vm_active_pml4 s" "vm_mapped_pages s1 = vm_mapped_pages s"
    "vm_page_table_pages s1 = vm_page_table_pages s" "vm_invalidated s1 = vm_invalidated s"
  using assms
  by (auto simp: alloc_page_zeroed_def alloc_page_def zero_frame_def set_page_allocated_def split: if_splits option.splits)

lemma vm_counter_frame [simp]:
  "pmm_inv (s\<lparr>vm_page_table_pages := n\<rparr>) = pmm_inv s" "free_addrs (s\<lparr>vm_page_table_pages := n\<rparr>) = free_addrs s"
  "managed_addrs (s\<lparr>vm_page_table_pages := n\<rparr>) = managed_addrs s"
  "pmm_inv (s\<lparr>vm_mapped_pages := n\<rparr>) = pmm_inv s" "free_addrs (s\<lparr>vm_mapped_pages := n\<rparr>) = free_addrs s"
  "managed_addrs (s\<lparr>vm_mapped_pages := n\<rparr>) = managed_addrs s"
  "pmm_inv (s\<lparr>vm_invalidated := l\<rparr>) = pmm_inv s" "free_addrs (s\<lparr>vm_invalidated := l\<rparr>) = free_addrs s"
  "managed_addrs (s\<lparr>vm_invalidated := l\<rparr>) = managed_addrs s"
  by (simp_all add: pmm_inv_def free_addrs_def managed_addrs_def free_set_def is_page_free_def)

text \<open>A zeroed table hung below an entry that was not present.\<close>

lemma view_new_table:
  assumes keyed: "keyed K m" and k: "K t = Some k" "length (snd k) < 3" and e: "\<not> pte_present (m t i)"
    and a: "a \<notin> dom K" and e': "pte_present e'" "pte_addr e' = a"
    and m': "\<And>u. u \<in> dom K \<Longrightarrow> u \<noteq> t \<Longrightarrow> m' u = m u" "m' t = (m t)(i := e')" "m' a = (\<lambda>_. 0)"
    and lev: "at_level K u is"
  shows "pt_entry m' u is = pt_entry m u is"
  using lev
proof (induction "is" arbitrary: u)
  case Nil
  then show ?case by (simp add: pt_entry_def)
next
  case (Cons j js)
  from Cons.prems obtain ku where ku: "K u = Some ku" "length (snd ku) + Suc (length js) = 4"
    by (auto simp: at_level_def)
  from ku(1) have dom: "u \<in> dom K" by (rule domI)
  show ?case
  proof (cases "js = []")
    case True
    with ku k have "u \<noteq> t" by auto
    then have "m' u = m u" by (rule m'(1) [OF dom])
    with True show ?thesis by (simp add: pt_entry_simps)
  next
    case False
    show ?thesis
    proof (cases "u = t \<and> j = i")
      case True
      with False e e' m' show ?thesis by (simp add: pt_entry_simps pt_entry_zero)
    next
      case other: False
      then have same: "m' u j = m u j" using m'(1) [OF dom] m'(2) by (cases "u = t") auto
      show ?thesis
      proof (cases "pte_present (m u j)")
        case True
        have "at_level K (pte_addr (m u j)) js" using at_level_child [OF keyed Cons.prems False True] .
        from Cons.IH [OF this] False same True show ?thesis by (simp add: pt_entry_simps)
      qed (simp add: pt_entry_simps False same)
    qed
  qed
qed

lemma grows_new_table:
  assumes ok: "vm_ok K s" and k: "K t = Some k" "length (snd k) < 3" "i < 512" and e: "\<not> pte_present (read_entry s (t, i))"
    and al: "alloc_page_zeroed s = (Some a, s1)" and fl: "pte_present fl" "pure_flags fl"
    and s': "s' = write_entry (t, i) (pte_set a fl) (s1\<lparr>vm_page_table_pages := n\<rparr>)"
  shows "grows K s (K(a \<mapsto> child_key k i)) s'"
proof -
  let ?K = "K(a \<mapsto> child_key k i)"
  from ok have inv: "pmm_inv s" and kd: "keyed K (ram_mem s)" and d: "dom K \<subseteq> managed_addrs s - free_addrs s"
    by (auto simp: vm_ok_def)
  from ram_alloc.alloc_Some [OF inv al] have s1: "pmm_inv s1" "a \<in> free_addrs s" "free_addrs s1 = free_addrs s - {a}"
    "managed_addrs s1 = managed_addrs s" by auto
  have am: "a \<in> managed_addrs s" using ram_alloc.free_managed [OF inv] s1(2) by blast
  have a: "a \<notin> dom K" using d s1(2) by blast
  then have ta: "t \<noteq> a" using k(1) by auto
  have addr: "pte_addr (pte_set a fl) = a" by (rule pte_set_addr [OF managed_table_address [OF inv am] fl(2)])
  have mem: "ram_mem s' = (ram_mem s)(a := \<lambda>_. 0, t := (ram_mem s t)(i := pte_set a fl))"
    using alloc_page_zeroed_mem [OF al] ta by (simp add: s')
  have "keyed ?K (ram_mem s')"
    unfolding keyed_def
  proof (intro allI impI, elim conjE)
    fix u ku j assume u: "?K u = Some ku" "length (snd ku) < 3" "j < 512" "pte_present (ram_mem s' u j)"
    from u(4) have ua: "u \<noteq> a" using ta by (auto simp: mem)
    with u(1) have Ku: "K u = Some ku" by simp
    show "?K (pte_addr (ram_mem s' u j)) = Some (child_key ku j)"
    proof (cases "u = t \<and> j = i")
      case True
      with Ku k(1) addr ta show ?thesis by (simp add: mem)
    next
      case False
      then have same: "ram_mem s' u j = ram_mem s u j" using ua by (auto simp: mem)
      from keyedD [OF kd Ku u(2,3)] u(4) same have "K (pte_addr (ram_mem s u j)) = Some (child_key ku j)" by simp
      with a same show ?thesis by (cases "pte_addr (ram_mem s u j) = a") auto
    qed
  qed
  moreover have fr: "free_addrs s' = free_addrs s - {a}" "managed_addrs s' = managed_addrs s" "pmm_inv s'"
    using s1 by (simp_all add: s')
  ultimately have "vm_ok ?K s'" using d am by (auto simp: vm_ok_def)
  moreover have "view_eq K (ram_mem s) (ram_mem s')"
    unfolding view_eq_def
  proof (intro allI impI)
    fix u "is" assume "at_level K u is"
    then show "pt_entry (ram_mem s') u is = pt_entry (ram_mem s) u is"
      by (rule view_new_table [OF kd k(1,2) e [unfolded read_entry_def, simplified] a _ addr, rotated -1])
        (use fl(1) a ta in \<open>auto simp: mem\<close>)
  qed
  moreover have "extends K (ram_mem s) (ram_mem s')"
    using e a by (auto simp: extends_def mem read_entry_def)
  moreover have "K \<subseteq>\<^sub>m ?K" using a by (auto simp: map_le_def)
  moreover have "ram_mem s' b = ram_mem s b" if "b \<notin> dom K \<and> b \<notin> free_addrs s" for b
    using that s1(2) k(1) by (auto simp: mem)
  moreover have "dom ?K - dom K = {a}" using a by auto
  moreover have "vm_active_pml4 s' = vm_active_pml4 s" using alloc_zeroed_vmm_frame [OF al] by (simp add: s')
  ultimately show ?thesis using fr s1(2) unfolding grows_def by simp
qed


section \<open>The walk\<close>

lemma ensure_table_user_spec:
  assumes ok: "vm_ok K s" and k: "K t = Some k" "length (snd k) < 3" "i < 512"
    and en: "ensure_table_user (t, i) create c u s = (x, s')"
  shows "\<exists>K'. grows K s K' s' \<and> (case x of
      Inl e \<Rightarrow> \<not> pte_present (ram_mem s t i) \<and> (e = VmNotMapped \<and> \<not> create \<or> e = VmOutOfMemory \<and> create \<and> free_addrs s = {}) \<and> s' = s
    | Inr (t', c') \<Rightarrow> K' t' = Some (child_key k i) \<and> pte_present (ram_mem s' t i) \<and> pte_addr (ram_mem s' t i) = t'
        \<and> dom K' \<subseteq> insert t' (dom K))"
proof (cases "pte_present (ram_mem s t i)")
  case True
  then have x: "x = Inr (pte_addr (ram_mem s t i), c)"
    and s': "s' = (if u \<and> read_entry s (t, i) AND PG_USER = 0 then write_entry (t, i) (read_entry s (t, i) OR PG_USER) s else s)"
    using en by (auto simp: ensure_table_user_def read_entry_def Let_def split: if_splits)
  have g: "grows K s K s'" using grows_promote [OF ok k(1,2), of i] grows_refl [OF ok] by (simp add: s')
  have "K (pte_addr (ram_mem s t i)) = Some (child_key k i)" using ok k True by (intro keyedD) (auto simp: vm_ok_def)
  moreover have "pte_present (ram_mem s' t i)" "pte_addr (ram_mem s' t i) = pte_addr (ram_mem s t i)"
    using True by (auto simp: s' read_entry_def)
  ultimately show ?thesis using g x True by auto
next
  case False
  then have np: "\<not> pte_present (read_entry s (t, i))" by (simp add: read_entry_def)
  show ?thesis
  proof (cases create)
    case cr: True
    obtain r s1 where al: "alloc_page_zeroed s = (r, s1)" by fastforce
    show ?thesis
    proof (cases r)
      case None
      with al ram_alloc.alloc_None [of s s1] ok have "s1 = s" "free_addrs s = {}" by (auto simp: vm_ok_def)
      with None al np cr en False grows_refl [OF ok] show ?thesis by (auto simp: ensure_table_user_def)
    next
      case (Some a)
      let ?fl = "(PG_PRESENT OR PG_WRITABLE) OR (if u then PG_USER else 0)"
      let ?s2 = "s1\<lparr>vm_page_table_pages := vm_page_table_pages s1 + 1\<rparr>"
      have s': "s' = write_entry (t, i) (pte_set a ?fl) ?s2" and x: "x = Inr (a, True)"
        using en np cr al Some by (simp_all add: ensure_table_user_def Let_def)
      have g: "grows K s (K(a \<mapsto> child_key k i)) s'"
        by (rule grows_new_table [OF ok k np al [unfolded Some] table_flags s'])
      have inv: "pmm_inv s" using ok by (simp add: vm_ok_def)
      have "a \<in> managed_addrs s"
        using ram_alloc.alloc_Some [OF inv al [unfolded Some]] ram_alloc.free_managed [OF inv] by blast
      then have "pte_addr (pte_set a ?fl) = a" using managed_table_address [OF inv] by (intro pte_set_addr) simp_all
      then show ?thesis using g by (intro exI [of _ "K(a \<mapsto> child_key k i)"]) (auto simp: x s')
    qed
  next
    case cr: False
    with np en grows_refl [OF ok] False show ?thesis by (auto simp: ensure_table_user_def)
  qed
qed

text \<open>When memory runs out during a walk, the pages that were free have become tables.\<close>

lemma grows_exhausted:
  assumes "grows K s K' s'" and "free_addrs s' = {}" and "dom K' \<subseteq> A \<union> dom K" and "finite A"
  shows "card (free_addrs s) \<le> card A"
proof -
  have "free_addrs s' = free_addrs s - (dom K' - dom K)" using assms(1) by (simp add: grows_def)
  with assms(2,3) have "free_addrs s \<subseteq> A" by blast
  with assms(4) show ?thesis by (rule card_mono)
qed

text \<open>Three levels of tables in one step.\<close>

lemma walk_spec:
  assumes ok: "vm_ok K s" and r: "K r = Some (w, [])"
    and walk: "walk_to_entry_with_root_user r v create u s = (x, s')"
  shows "\<exists>K'. grows K s K' s' \<and> (case x of
      Inl e \<Rightarrow> vm_view s r v = None \<and> (e = VmNotMapped \<and> \<not> create \<or> e = VmOutOfMemory \<and> create \<and> card (free_addrs s) \<le> 2)
    | Inr (l, c) \<Rightarrow> pt_loc (ram_mem s') r (idx_list v) = Some l)"
proof -
  obtain i4 i3 i2 i1 where sp: "split_indices v = (i4, i3, i2, i1)" by (metis prod_cases4)
  then have idx: "idx_list v = [i4, i3, i2, i1]" by (simp add: idx_list_def)
  have b: "i4 < 512" "i3 < 512" "i2 < 512" "i1 < 512" using idx_list_simps(2) [of v] by (simp_all add: idx)
  have nolev: "pt_loc m t [] = None" for m t by simp
  obtain x1 s1 where e1: "ensure_table_user (r, i4) create False u s = (x1, s1)" by fastforce
  note st1 = ensure_table_user_spec [OF ok r _ b(1) e1, simplified]
  show ?thesis
  proof (cases x1)
    case (Inl e)
    with st1 e1 walk sp show ?thesis
      by (auto simp: walk_to_entry_with_root_user_def vm_view_def idx pt_entry_simps)
  next
    case (Inr tc1)
    obtain t3 c1 where t3: "tc1 = (t3, c1)" by fastforce
    obtain K1 where g1: "grows K s K1 s1" and k1: "K1 t3 = Some (child_key (w, []) i4)"
      and p1: "pte_present (ram_mem s1 r i4)" "pte_addr (ram_mem s1 r i4) = t3" and d1: "dom K1 \<subseteq> {t3} \<union> dom K"
      using st1 Inr t3 by auto
    have ok1: "vm_ok K1 s1" and le1: "K \<subseteq>\<^sub>m K1" using g1 by (auto simp: grows_def)
    obtain x2 s2 where e2: "ensure_table_user (t3, i3) create c1 u s1 = (x2, s2)" by fastforce
    note st2 = ensure_table_user_spec [OF ok1 k1 _ b(2) e2, simplified]
    have v1: "vm_view s1 r v = vm_view s r v"
      using g1 r b by (simp add: grows_def view_eq_def vm_view_def idx at_level_def)
    show ?thesis
    proof (cases x2)
      case (Inl e)
      then obtain K2 where "grows K1 s1 K2 s2" "\<not> pte_present (ram_mem s1 t3 i3)"
        "e = VmNotMapped \<and> \<not> create \<or> e = VmOutOfMemory \<and> create \<and> card (free_addrs s) \<le> 1"
        using st2 grows_exhausted [OF g1 _ d1] by auto
      moreover have "vm_view s1 r v = None"
        using p1 calculation(2) by (simp add: vm_view_def idx pt_entry_simps)
      ultimately show ?thesis
        using grows_trans [OF g1] walk sp e1 e2 Inr Inl t3 v1
        by (auto simp: walk_to_entry_with_root_user_def)
    next
      case Inr2: (Inr tc2)
      obtain t2 c2 where t2: "tc2 = (t2, c2)" by fastforce
      obtain K2 where g2: "grows K1 s1 K2 s2" and k2: "K2 t2 = Some (child_key (child_key (w, []) i4) i3)"
        and p2: "pte_present (ram_mem s2 t3 i3)" "pte_addr (ram_mem s2 t3 i3) = t2" and d21: "dom K2 \<subseteq> insert t2 (dom K1)"
        using st2 Inr2 t2 by auto
      have d2: "dom K2 \<subseteq> {t2, t3} \<union> dom K" using d1 d21 by blast
      have ok2: "vm_ok K2 s2" using g2 by (auto simp: grows_def)
      have q2: "pte_present (ram_mem s2 r i4)" "pte_addr (ram_mem s2 r i4) = t3"
        using g2 p1 r le1 by (auto simp: grows_def extends_def map_le_def dom_def)
      obtain x3 s3 where e3: "ensure_table_user (t2, i2) create c2 u s2 = (x3, s3)" by fastforce
      note st3 = ensure_table_user_spec [OF ok2 k2 _ b(3) e3, simplified]
      note g12 = grows_trans [OF g1 g2]
      have v2: "vm_view s2 r v = vm_view s r v"
        using g12 r b by (simp add: grows_def view_eq_def vm_view_def idx at_level_def)
      show ?thesis
      proof (cases x3)
        case (Inl e)
        then obtain K3 where "grows K2 s2 K3 s3" "\<not> pte_present (ram_mem s2 t2 i2)"
          "e = VmNotMapped \<and> \<not> create \<or> e = VmOutOfMemory \<and> create \<and> card (free_addrs s) \<le> 2"
          using st3 grows_exhausted [OF g12 _ d2] order_trans [OF _ card_insert_le_m1 [of 2 "{t3}" t2]] by auto
        moreover have "vm_view s2 r v = None"
          using p2 q2 calculation(2) by (simp add: vm_view_def idx pt_entry_simps)
        ultimately show ?thesis
          using grows_trans [OF g12] walk sp e1 e2 e3 Inr Inr2 Inl t3 t2 v2
          by (auto simp: walk_to_entry_with_root_user_def)
      next
        case Inr3: (Inr tc3)
        obtain t1 c3 where t1: "tc3 = (t1, c3)" by fastforce
        obtain K3 where g3: "grows K2 s2 K3 s3"
          and p3: "pte_present (ram_mem s3 t2 i2)" "pte_addr (ram_mem s3 t2 i2) = t1"
          using st3 Inr3 t1 by auto
        have "r \<in> dom K2" "t3 \<in> dom K2"
          using r le1 k1 g2 by (auto simp: grows_def map_le_def dom_def)
        with g3 q2 p2 have q3: "pte_present (ram_mem s3 r i4)" "pte_addr (ram_mem s3 r i4) = t3"
          "pte_present (ram_mem s3 t3 i3)" "pte_addr (ram_mem s3 t3 i3) = t2"
          by (auto simp: grows_def extends_def)
        with p3 have "pt_loc (ram_mem s3) r (idx_list v) = Some (t1, i1)" by (simp add: idx)
        then show ?thesis
          using grows_trans [OF g12 g3] walk sp e1 e2 e3 Inr Inr2 Inr3 t3 t2 t1
          by (auto simp: walk_to_entry_with_root_user_def)
      qed
    qed
  qed
qed


text \<open>A walk that creates nothing only reads.\<close>

lemma walk_read:
  "walk_to_entry_with_root_user r v False False s =
     (case pt_loc (ram_mem s) r (idx_list v) of None \<Rightarrow> Inl VmNotMapped | Some l \<Rightarrow> Inr (l, False), s)"
proof -
  obtain i4 i3 i2 i1 where sp: "split_indices v = (i4, i3, i2, i1)" by (metis prod_cases4)
  show ?thesis
    by (simp add: walk_to_entry_with_root_user_def sp idx_list_def ensure_table_user_def read_entry_def)
qed

lemma query_mapping_view:
  "query_mapping_in_pml4 r v s =
     (if \<not> is_page_aligned v then Inl VmUnaligned
      else if r = 0 then Inl VmNotInitialized
      else (case vm_view s r v of None \<Rightarrow> Inl VmNotMapped | Some e \<Rightarrow> Inr (pte_addr e, e)), s)"
  by (auto simp: query_mapping_in_pml4_def walk_read vm_view_def pt_entry_def read_entry_def split: option.splits)

lemma translate_view:
  "vm_active_pml4 s \<noteq> 0 \<Longrightarrow> vm_translate v s = map_option pte_addr (vm_view s (vm_active_pml4 s) v)"
  by (auto simp: vm_translate_def walk_to_entry_def walk_read vm_view_def pt_entry_def read_entry_def split: option.splits)

section \<open>Writing a leaf\<close>

lemma length_foldl_child_key: "length (snd (foldl child_key k js)) = length (snd k) + length js"
  by (induction js arbitrary: k) simp_all

lemma pt_loc_level:
  assumes "keyed K m" and "at_level K t is" and "pt_loc m t is = Some (t', i')"
  shows "\<exists>k. K t' = Some k \<and> length (snd k) = 3"
proof -
  from assms(2) obtain k where k: "K t = Some k" "length (snd k) + length is = 4" by (auto simp: at_level_def)
  from pt_loc_key [OF assms(1) k(1) assms(2,3)] k show ?thesis
    by (cases "is") (auto simp: length_foldl_child_key)
qed

lemma write_leaf:
  assumes ok: "vm_ok K s" and k: "K t = Some k" "length (snd k) = 3" and lev: "at_level K u is"
  shows "pt_loc (ram_mem (write_entry (t, i) e s)) u is = pt_loc (ram_mem s) u is"
    and "pt_entry (ram_mem (write_entry (t, i) e s)) u is =
      (if pt_loc (ram_mem s) u is = Some (t, i) then (if pte_present e then Some e else None)
       else pt_entry (ram_mem s) u is)"
proof -
  have kd: "keyed K (ram_mem s)" using ok by (simp add: vm_ok_def)
  show loc: "pt_loc (ram_mem (write_entry (t, i) e s)) u is = pt_loc (ram_mem s) u is"
  proof (rule same_shape_entry [OF kd _ lev], goal_cases)
    case (1 w kw j)
    with k have "w \<noteq> t" by auto
    then show ?case by simp
  qed
  show "pt_entry (ram_mem (write_entry (t, i) e s)) u is =
      (if pt_loc (ram_mem s) u is = Some (t, i) then (if pte_present e then Some e else None)
       else pt_entry (ram_mem s) u is)"
    unfolding pt_entry_def loc by (auto split: option.split)
qed

lemma write_leaf_ok:
  assumes ok: "vm_ok K s" and k: "K t = Some k" "length (snd k) = 3"
  shows "vm_ok K (write_entry (t, i) e s)"
proof -
  have "keyed K (ram_mem (write_entry (t, i) e s))"
    unfolding keyed_def
  proof (intro allI impI, elim conjE)
    fix w kw j assume w: "K w = Some kw" "length (snd kw) < 3" "j < 512" "pte_present (ram_mem (write_entry (t, i) e s) w j)"
    with k have "w \<noteq> t" by auto
    with w keyedD [of K "ram_mem s" w kw j] ok
    show "K (pte_addr (ram_mem (write_entry (t, i) e s) w j)) = Some (child_key kw j)" by (simp add: vm_ok_def)
  qed
  with ok show ?thesis by (simp add: vm_ok_def)
qed

section \<open>Operations on the view\<close>

text \<open>
  The roots of the address spaces; every root carries itself as owner. \<open>view_update\<close> says
  that the view of address space \<open>r\<close> at page \<open>v\<close> becomes \<open>x\<close> and every other view is
  kept, where the tables of the kernel half may be shared.
\<close>

definition roots_ok :: "usize set \<Rightarrow> (usize \<Rightarrow> pt_key option) \<Rightarrow> bool" where
  "roots_ok R K \<longleftrightarrow> (\<forall>r \<in> R. K r = Some (Some r, []))"

text \<open>
  The invariant of memory management: \<open>R\<close> are the root tables in use, \<open>D\<close> the data pages
  that are allocated; tables, data pages and free pages are disjoint.
\<close>

definition vm_inv :: "usize set \<Rightarrow> usize set \<Rightarrow> 'a ram_scheme \<Rightarrow> bool" where
  "vm_inv R D s \<longleftrightarrow>
     (\<exists>K. vm_ok K s \<and> roots_ok R K \<and> dom K \<inter> D = {} \<and> D \<subseteq> managed_addrs s - free_addrs s)"

definition view_update :: "usize set \<Rightarrow> usize \<Rightarrow> usize \<Rightarrow> u64 option \<Rightarrow> 'a ram_scheme \<Rightarrow> 'a ram_scheme \<Rightarrow> bool" where
  "view_update R r v x s s' \<longleftrightarrow>
     (\<forall>w. vm_view s' r w = (if same_page v w then x else vm_view s r w))
     \<and> (\<forall>r' \<in> R - {r}. \<forall>w. \<not> kernel_half v \<or> \<not> same_page v w \<longrightarrow> vm_view s' r' w = vm_view s r' w)"

lemma at_level_root: "K r = Some (w, []) \<Longrightarrow> at_level K r (idx_list v)"
  by (simp add: at_level_def)

lemma root_locations_differ:
  assumes kd: "keyed K m" and r: "K r = Some (Some r, [])" "K r' = Some (Some r', [])"
    and loc: "pt_loc m r (idx_list v) = Some l" "pt_loc m r' (idx_list w) = Some l"
  shows "same_page v w" and "r = r' \<or> kernel_half v"
proof -
  obtain t i where l: "l = (t, i)" by fastforce
  from r have lev: "at_level K r (idx_list v)" "at_level K r' (idx_list w)" by (auto intro: at_level_root)
  obtain a b c d where v: "idx_list v = [a, b, c, d]" using idx_list_shape by blast
  obtain a' b' c' d' where w: "idx_list w = [a', b', c', d']" using idx_list_shape by blast
  have 1: "i = d" "K t = Some (if 256 \<le> a then None else Some r, [a, b, c])"
    using pt_loc_key [OF kd r(1) lev(1) loc(1) [unfolded l]] by (simp_all add: v split: if_splits)
  have 2: "i = d'" "K t = Some (if 256 \<le> a' then None else Some r', [a', b', c'])"
    using pt_loc_key [OF kd r(2) lev(2) loc(2) [unfolded l]] by (simp_all add: w split: if_splits)
  from 1 2 show "same_page v w" by (simp add: same_page_def v w)
  from 1 2 show "r = r' \<or> kernel_half v" by (auto simp: kernel_half_def v split: if_splits)
qed

lemma write_leaf_update:
  assumes ok: "vm_ok K s" and R: "roots_ok R K" and r: "r \<in> R" and loc: "pt_loc (ram_mem s) r (idx_list v) = Some l"
  shows "vm_ok K (write_entry l e s) \<and> view_update R r v (if pte_present e then Some e else None) s (write_entry l e s)"
proof -
  obtain t i where l: "l = (t, i)" by fastforce
  have kd: "keyed K (ram_mem s)" using ok by (simp add: vm_ok_def)
  have Kr: "K r' = Some (Some r', [])" if "r' \<in> R" for r' using R that by (simp add: roots_ok_def)
  have lev: "at_level K r' (idx_list w)" if "r' \<in> R" for r' w using Kr [OF that] by (rule at_level_root)
  obtain k where k: "K t = Some k" "length (snd k) = 3"
    using pt_loc_level [OF kd lev [OF r] loc [unfolded l]] by blast
  have view: "vm_view (write_entry l e s) r' w = (if pt_loc (ram_mem s) r' (idx_list w) = Some l
      then (if pte_present e then Some e else None) else vm_view s r' w)" if "r' \<in> R" for r' w
    unfolding vm_view_def l by (rule write_leaf(2) [OF ok k lev [OF that]])
  have "pt_loc (ram_mem s) r (idx_list w) = Some l \<longleftrightarrow> same_page v w" for w
  proof
    assume "pt_loc (ram_mem s) r (idx_list w) = Some l"
    then show "same_page v w" by (rule root_locations_differ(1) [OF kd Kr [OF r] Kr [OF r] loc])
  next
    assume "same_page v w"
    then have "idx_list w = idx_list v" by (simp add: same_page_def)
    with loc show "pt_loc (ram_mem s) r (idx_list w) = Some l" by (simp only:)
  qed
  moreover have "pt_loc (ram_mem s) r' (idx_list w) \<noteq> Some l"
    if "r' \<in> R - {r}" "\<not> kernel_half v \<or> \<not> same_page v w" for r' w
  proof
    assume l': "pt_loc (ram_mem s) r' (idx_list w) = Some l"
    from that have "K r' = Some (Some r', [])" "r \<noteq> r'" by (auto intro: Kr)
    with root_locations_differ [OF kd Kr [OF r] this(1) loc l'] that(2) show False by blast
  qed
  ultimately have "view_update R r v (if pte_present e then Some e else None) s (write_entry l e s)"
    using view r by (simp add: view_update_def)
  with write_leaf_ok [OF ok k] show ?thesis by (simp add: l)
qed


text \<open>What an operation keeps: every view, the data pages and their contents.\<close>

definition same_views :: "usize set \<Rightarrow> 'a ram_scheme \<Rightarrow> 'a ram_scheme \<Rightarrow> bool" where
  "same_views R s s' \<longleftrightarrow> (\<forall>r \<in> R. \<forall>w. vm_view s' r w = vm_view s r w)"

definition same_data :: "usize set \<Rightarrow> 'a vmm_scheme \<Rightarrow> 'a vmm_scheme \<Rightarrow> bool" where
  "same_data D s s' \<longleftrightarrow> (\<forall>a \<in> D. ram_mem s' a = ram_mem s a) \<and> managed_addrs s' = managed_addrs s
     \<and> free_addrs s' \<subseteq> free_addrs s \<and> vm_active_pml4 s' = vm_active_pml4 s"

lemma same_data_refl [simp]: "same_data D s s"
  by (simp add: same_data_def)

lemma same_data_trans: "same_data D s s1 \<Longrightarrow> same_data D s1 s2 \<Longrightarrow> same_data D s s2"
  by (auto simp: same_data_def)

lemma same_views_refl [simp]: "same_views R s s"
  by (simp add: same_views_def)

lemma same_views_trans: "same_views R s s1 \<Longrightarrow> same_views R s1 s2 \<Longrightarrow> same_views R s s2"
  by (simp add: same_views_def)

lemma roots_ok_mono: "roots_ok R K \<Longrightarrow> K \<subseteq>\<^sub>m K' \<Longrightarrow> roots_ok R K'"
  by (auto simp: roots_ok_def map_le_def dom_def)

lemma roots_ok_level: "roots_ok R K \<Longrightarrow> r \<in> R \<Longrightarrow> at_level K r (idx_list v)"
  by (auto simp: roots_ok_def intro: at_level_root)

lemma grows_inv:
  assumes g: "grows K s K' s'" and R: "roots_ok R K" and D: "dom K \<inter> D = {}" "D \<subseteq> managed_addrs s - free_addrs s"
  shows "vm_ok K' s' \<and> roots_ok R K' \<and> dom K' \<inter> D = {} \<and> D \<subseteq> managed_addrs s' - free_addrs s'"
    and "same_views R s s'" and "same_data D s s'"
proof -
  have le: "K \<subseteq>\<^sub>m K'" and f: "free_addrs s' = free_addrs s - (dom K' - dom K)" "dom K' - dom K \<subseteq> free_addrs s"
    "managed_addrs s' = managed_addrs s" and ok: "vm_ok K' s'"
    using g by (auto simp: grows_def)
  have "dom K' \<inter> D = {}" "D \<subseteq> managed_addrs s' - free_addrs s'" using f D by blast+
  with ok roots_ok_mono [OF R le]
  show "vm_ok K' s' \<and> roots_ok R K' \<and> dom K' \<inter> D = {} \<and> D \<subseteq> managed_addrs s' - free_addrs s'" by blast
  show "same_views R s s'"
    using g R by (simp add: same_views_def grows_def view_eq_def vm_view_def roots_ok_level)
  have "ram_mem s' a = ram_mem s a" if "a \<in> D" for a
  proof -
    have "a \<notin> dom K \<and> a \<notin> free_addrs s" using that D by blast
    with g show ?thesis unfolding grows_def by blast
  qed
  with f g show "same_data D s s'" by (auto simp: same_data_def grows_def)
qed

lemma write_leaf_inv:
  assumes K: "vm_ok K s" "roots_ok R K" "dom K \<inter> D = {}" "D \<subseteq> managed_addrs s - free_addrs s"
    and r: "r \<in> R" and loc: "pt_loc (ram_mem s) r (idx_list v) = Some l"
  shows "vm_inv R D (write_entry l e s)"
    and "view_update R r v (if pte_present e then Some e else None) s (write_entry l e s)"
    and "same_data D s (write_entry l e s)"
proof -
  note w = write_leaf_update [OF K(1,2) r loc, of e]
  from w K show "vm_inv R D (write_entry l e s)" by (auto simp: vm_inv_def)
  from w show "view_update R r v (if pte_present e then Some e else None) s (write_entry l e s)" by blast
  obtain t i where l: "l = (t, i)" by fastforce
  have "keyed K (ram_mem s)" using K(1) by (simp add: vm_ok_def)
  from pt_loc_level [OF this roots_ok_level [OF K(2) r] loc [unfolded l]] have "t \<in> dom K" by auto
  with K(3) have "a \<noteq> t" if "a \<in> D" for a using that by blast
  then show "same_data D s (write_entry l e s)" by (simp add: same_data_def l)
qed

lemma vm_counters_inv [simp]:
  "vm_inv R D (s\<lparr>vm_mapped_pages := n\<rparr>) = vm_inv R D s" "vm_inv R D (s\<lparr>vm_invalidated := l\<rparr>) = vm_inv R D s"
  "vm_view (s\<lparr>vm_mapped_pages := n\<rparr>) = vm_view s" "vm_view (s\<lparr>vm_invalidated := l\<rparr>) = vm_view s"
  "same_data D s0 (s\<lparr>vm_mapped_pages := n\<rparr>) = same_data D s0 s" "same_data D s0 (s\<lparr>vm_invalidated := l\<rparr>) = same_data D s0 s"
  "same_views R s0 (s\<lparr>vm_mapped_pages := n\<rparr>) = same_views R s0 s" "same_views R s0 (s\<lparr>vm_invalidated := l\<rparr>) = same_views R s0 s"
  "view_update R r v x s0 (s\<lparr>vm_mapped_pages := n\<rparr>) = view_update R r v x s0 s"
  "view_update R r v x s0 (s\<lparr>vm_invalidated := l\<rparr>) = view_update R r v x s0 s"
  by (simp_all add: vm_inv_def vm_ok_def vm_view_def same_data_def same_views_def view_update_def fun_eq_iff)

lemma view_update_trans:
  "same_views R s s1 \<Longrightarrow> r \<in> R \<Longrightarrow> view_update R r v x s1 s2 \<Longrightarrow> view_update R r v x s s2"
  by (simp add: view_update_def same_views_def)

lemma map_page_internal_spec:
  assumes inv: "vm_inv R D s" and r: "r \<in> R" and mp: "map_page_internal r v p f s = (x, s')"
  shows "vm_inv R D s' \<and> same_data D s s' \<and> (case x of
      Inr _ \<Rightarrow> is_page_aligned v \<and> is_page_aligned p \<and> vm_view s r v = None
        \<and> view_update R r v (if pte_present f then Some (pte_set p f) else None) s s'
    | Inl e \<Rightarrow> same_views R s s' \<and> (e = VmUnaligned \<and> \<not> (is_page_aligned v \<and> is_page_aligned p) \<and> s' = s
        \<or> e = VmAlreadyMapped \<and> vm_view s r v \<noteq> None
        \<or> e = VmOutOfMemory \<and> vm_view s r v = None \<and> card (free_addrs s) \<le> 2))"
proof (cases "is_page_aligned v \<and> is_page_aligned p")
  case False
  with mp inv show ?thesis by (auto simp: map_page_internal_def)
next
  case al: True
  obtain K where K: "vm_ok K s" "roots_ok R K" "dom K \<inter> D = {}" "D \<subseteq> managed_addrs s - free_addrs s"
    using inv by (auto simp: vm_inv_def)
  have Kr: "K r = Some (Some r, [])" using K(2) r by (simp add: roots_ok_def)
  obtain y s1 where walk: "walk_to_entry_with_root_user r v True (f AND PG_USER \<noteq> 0) s = (y, s1)" by fastforce
  from walk_spec [OF K(1) Kr walk] obtain K1 where g: "grows K s K1 s1" and y: "case y of
      Inl e \<Rightarrow> vm_view s r v = None \<and> (e = VmNotMapped \<and> \<not> True \<or> e = VmOutOfMemory \<and> True \<and> card (free_addrs s) \<le> 2)
    | Inr (l, c) \<Rightarrow> pt_loc (ram_mem s1) r (idx_list v) = Some l" by blast
  note K1 = grows_inv(1) [OF g K(2-4)] and views = grows_inv(2) [OF g K(2-4)] and data = grows_inv(3) [OF g K(2-4)]
  have inv1: "vm_inv R D s1" using K1 by (auto simp: vm_inv_def)
  show ?thesis
  proof (cases y)
    case (Inl e)
    with mp al walk y inv1 views data show ?thesis by (auto simp: map_page_internal_def)
  next
    case (Inr lc)
    obtain l c where lc: "lc = (l, c)" by fastforce
    have loc: "pt_loc (ram_mem s1) r (idx_list v) = Some l" using y Inr lc by simp
    have view1: "vm_view s r v = (if pte_present (read_entry s1 l) then Some (read_entry s1 l) else None)"
    proof -
      have "vm_view s r v = vm_view s1 r v" using views r by (simp add: same_views_def)
      also have "\<dots> = (if pte_present (read_entry s1 l) then Some (read_entry s1 l) else None)"
        using loc by (cases l) (simp add: vm_view_def pt_entry_def read_entry_def)
      finally show ?thesis .
    qed
    show ?thesis
    proof (cases "pte_present (read_entry s1 l)")
      case True
      with mp al walk Inr lc inv1 views data view1 show ?thesis by (auto simp: map_page_internal_def)
    next
      case False
      note w = write_leaf_inv [OF conjunct1 [OF K1] _ _ _ r loc, of D "pte_set p f"]
      from K1 have w: "vm_inv R D (write_entry l (pte_set p f) s1)"
        "view_update R r v (if pte_present f then Some (pte_set p f) else None) s1 (write_entry l (pte_set p f) s1)"
        "same_data D s1 (write_entry l (pte_set p f) s1)"
        using w by auto
      have "x = Inr ()" and s': "s' = (let s2 = write_entry l (pte_set p f) s1;
          s3 = s2\<lparr>vm_mapped_pages := vm_mapped_pages s2 + 1\<rparr> in if c then invalidate_page v s3 else s3)"
        using mp al walk Inr lc False by (auto simp: map_page_internal_def Let_def)
      moreover have "vm_inv R D s'" "same_data D s1 s'"
        "view_update R r v (if pte_present f then Some (pte_set p f) else None) s1 s'"
        using w by (simp_all add: s' Let_def invalidate_page_def)
      ultimately show ?thesis
        using al view1 False view_update_trans [OF views r] same_data_trans [OF data] by simp
    qed
  qed
qed

lemma unmap_page_in_pml4_spec:
  assumes inv: "vm_inv R D s" and r: "r \<in> R" "r \<noteq> 0" and al: "is_page_aligned v"
  shows "unmap_page_in_pml4 r v s = (Inl VmNotMapped, s) \<and> vm_view s r v = None
    \<or> (\<exists>s'. unmap_page_in_pml4 r v s = (Inr (), s') \<and> vm_view s r v \<noteq> None \<and> vm_inv R D s' \<and> same_data D s s'
        \<and> view_update R r v None s s' \<and> vm_invalidated s' = vm_invalidated s)"
proof (cases "pt_loc (ram_mem s) r (idx_list v)")
  case None
  then show ?thesis using r al by (simp add: unmap_page_in_pml4_def walk_read vm_view_def pt_entry_def)
next
  case (Some l)
  obtain K where K: "vm_ok K s" "roots_ok R K" "dom K \<inter> D = {}" "D \<subseteq> managed_addrs s - free_addrs s"
    using inv by (auto simp: vm_inv_def)
  note w = write_leaf_inv [OF K r(1) Some, of 0, simplified]
  have view: "vm_view s r v = (if pte_present (read_entry s l) then Some (read_entry s l) else None)"
    using Some by (cases l) (simp add: vm_view_def pt_entry_def read_entry_def)
  show ?thesis
    using Some r al w view by (simp add: unmap_page_in_pml4_def walk_read Let_def)
qed


lemma unmap_page_spec:
  assumes inv: "vm_inv R D s" and r: "vm_active_pml4 s \<in> R" "vm_active_pml4 s \<noteq> 0" and al: "is_page_aligned v"
  shows "unmap_page v s = (Inl VmNotMapped, s) \<and> vm_view s (vm_active_pml4 s) v = None
    \<or> (\<exists>s'. unmap_page v s = (Inr (), s') \<and> vm_view s (vm_active_pml4 s) v \<noteq> None \<and> vm_inv R D s' \<and> same_data D s s'
        \<and> view_update R (vm_active_pml4 s) v None s s')"
proof (cases "pt_loc (ram_mem s) (vm_active_pml4 s) (idx_list v)")
  case None
  then show ?thesis using r al by (simp add: unmap_page_def walk_to_entry_def walk_read vm_view_def pt_entry_def)
next
  case (Some l)
  obtain K where K: "vm_ok K s" "roots_ok R K" "dom K \<inter> D = {}" "D \<subseteq> managed_addrs s - free_addrs s"
    using inv by (auto simp: vm_inv_def)
  note w = write_leaf_inv [OF K r(1) Some, of 0, simplified]
  have view: "vm_view s (vm_active_pml4 s) v = (if pte_present (read_entry s l) then Some (read_entry s l) else None)"
    using Some by (cases l) (simp add: vm_view_def pt_entry_def read_entry_def)
  show ?thesis
    using Some r al w view by (simp add: unmap_page_def walk_to_entry_def walk_read Let_def invalidate_page_def)
qed

text \<open>Data pages: taking one from the allocator and giving it back.\<close>

lemma vm_inv_alloc:
  assumes inv: "vm_inv R D s" and al: "alloc_page_zeroed s = (Some a, s')"
  shows "vm_inv R (insert a D) s' \<and> a \<notin> D \<and> same_views R s s' \<and> same_data D s s' \<and> ram_mem s' a = (\<lambda>_. 0)
    \<and> free_addrs s' = free_addrs s - {a} \<and> a \<in> free_addrs s"
proof -
  obtain K where K: "vm_ok K s" "roots_ok R K" "dom K \<inter> D = {}" "D \<subseteq> managed_addrs s - free_addrs s"
    using inv by (auto simp: vm_inv_def)
  have pinv: "pmm_inv s" and kd: "keyed K (ram_mem s)" and d: "dom K \<subseteq> managed_addrs s - free_addrs s"
    using K(1) by (auto simp: vm_ok_def)
  from ram_alloc.alloc_Some [OF pinv al] have s': "pmm_inv s'" "a \<in> free_addrs s" "free_addrs s' = free_addrs s - {a}"
    "managed_addrs s' = managed_addrs s" by auto
  have mem: "ram_mem s' = (ram_mem s)(a := \<lambda>_. 0)" by (rule alloc_page_zeroed_mem [OF al])
  have a: "a \<notin> dom K" "a \<notin> D" "a \<in> managed_addrs s" using s'(2) d K(4) ram_alloc.free_managed [OF pinv] by blast+
  have same: "ram_mem s' t = ram_mem s t" if "t \<in> dom K" for t using that a(1) by (auto simp: mem)
  have "keyed K (ram_mem s')"
    unfolding keyed_def
  proof (intro allI impI, elim conjE)
    fix t k i assume t: "K t = Some k" "length (snd k) < 3" "i < 512" "pte_present (ram_mem s' t i)"
    then have "ram_mem s' t = ram_mem s t" by (intro same) (rule domI)
    with t keyedD [OF kd t(1-3)] show "K (pte_addr (ram_mem s' t i)) = Some (child_key k i)" by simp
  qed
  then have ok: "vm_ok K s'" using s' d by (auto simp: vm_ok_def)
  have "vm_inv R (insert a D) s'"
    unfolding vm_inv_def by (rule exI [of _ K]) (use ok K a s' in auto)
  moreover have "same_views R s s'"
    unfolding same_views_def
  proof (intro ballI allI)
    fix r w assume "r \<in> R"
    note lev = roots_ok_level [OF K(2) this, of w]
    have loc: "pt_loc (ram_mem s') r (idx_list w) = pt_loc (ram_mem s) r (idx_list w)"
      by (rule same_shape_entry [OF kd _ lev]) (use same in \<open>auto simp: dom_def\<close>)
    show "vm_view s' r w = vm_view s r w"
    proof (cases "pt_loc (ram_mem s) r (idx_list w)")
      case (Some l)
      obtain t i where l: "l = (t, i)" by fastforce
      from pt_loc_level [OF kd lev Some [unfolded l]] have "t \<in> dom K" by auto
      with Some loc same l show ?thesis by (simp add: vm_view_def pt_entry_def)
    qed (simp add: vm_view_def pt_entry_def loc)
  qed
  moreover have "same_data D s s'"
    using a(2) s' alloc_zeroed_vmm_frame(1) [OF al] by (auto simp: same_data_def mem)
  ultimately show ?thesis using a s' mem by simp
qed

lemma free_page_vmm_frame [simp]:
  "vm_active_pml4 (free_page a s) = vm_active_pml4 s" "vm_view (free_page a s) = vm_view s"
  by (simp_all add: free_page_def Let_def set_page_free_def vm_view_def fun_eq_iff)

lemma vm_inv_free:
  assumes inv: "vm_inv R D s" and a: "a \<in> D"
  shows "vm_inv R (D - {a}) (free_page a s) \<and> free_addrs (free_page a s) = insert a (free_addrs s)
    \<and> managed_addrs (free_page a s) = managed_addrs s"
proof -
  obtain K where K: "vm_ok K s" "roots_ok R K" "dom K \<inter> D = {}" "D \<subseteq> managed_addrs s - free_addrs s"
    using inv by (auto simp: vm_inv_def)
  have pinv: "pmm_inv s" and kd: "keyed K (ram_mem s)" and d: "dom K \<subseteq> managed_addrs s - free_addrs s"
    using K(1) by (auto simp: vm_ok_def)
  from a K(4) have "a \<in> managed_addrs s" by blast
  from ram_alloc.dealloc [OF pinv this]
  have f: "pmm_inv (free_page a s)" "free_addrs (free_page a s) = insert a (free_addrs s)"
    "managed_addrs (free_page a s) = managed_addrs s" by auto
  have "vm_ok K (free_page a s)" using f kd d a K(3) by (auto simp: vm_ok_def)
  with f K(2-4) have "vm_inv R (D - {a}) (free_page a s)" unfolding vm_inv_def by (intro exI [of _ K]) auto
  with f show ?thesis by blast
qed

section \<open>Canonical addresses\<close>

definition canonical_page :: "usize \<Rightarrow> bool" where
  "canonical_page v \<longleftrightarrow> is_page_aligned v \<and> (drop_bit 47 v = 0 \<or> drop_bit 47 v = mask 17)"

definition user_page :: "usize \<Rightarrow> bool" where
  "user_page v \<longleftrightarrow> is_page_aligned v \<and> v < 2 ^ 47"

lemma idx_list_bits:
  assumes "idx_list v = idx_list w" and "12 \<le> n" and "n < 48"
  shows "bit v n = bit w n"
proof -
  have field: "bit v n = bit w n" if "drop_bit k v AND 0x1FF = drop_bit k w AND 0x1FF" "k \<le> n" "n < k + 9" for k
  proof -
    have m: "(0x1FF :: u64) = mask 9" by (simp add: mask_eq_exp_minus_1)
    have "bit (drop_bit k v AND 0x1FF) (n - k) = bit (drop_bit k w AND 0x1FF) (n - k)" using that(1) by simp
    moreover have "n - k < 9" using that(2,3) by simp
    ultimately show ?thesis using that(2) unfolding m by (simp add: bit_and_iff bit_drop_bit_eq bit_mask_iff)
  qed
  from assms(1) have e: "drop_bit 39 v AND 0x1FF = drop_bit 39 w AND 0x1FF" "drop_bit 30 v AND 0x1FF = drop_bit 30 w AND 0x1FF"
    "drop_bit 21 v AND 0x1FF = drop_bit 21 w AND 0x1FF" "drop_bit 12 v AND 0x1FF = drop_bit 12 w AND 0x1FF"
    by (simp_all add: idx_list_def split_indices_def word_unat_eq_iff)
  from assms(2,3) consider "n < 21" | "21 \<le> n" "n < 30" | "30 \<le> n" "n < 39" | "39 \<le> n" by linarith
  then show ?thesis
    by cases (use field e assms(2,3) in auto)
qed

lemma aligned_low_bits: "is_page_aligned v \<Longrightarrow> n < 12 \<Longrightarrow> \<not> bit v n"
proof -
  assume "is_page_aligned v" and n: "n < 12"
  then have "take_bit 12 v = 0" by (simp add: is_page_aligned_def take_bit_eq_mod)
  with n show ?thesis by (metis bit_0_eq bit_take_bit_iff bot_apply bot_bool_def)
qed

lemma canonical_same_page:
  assumes "canonical_page v" and "canonical_page w" and "same_page v w"
  shows "v = w"
proof (rule bit_word_eqI)
  fix n assume n: "n < LENGTH(64)"
  have high: "bit u n = bit u 47" if "canonical_page u" "47 \<le> n" for u
  proof -
    have "bit (drop_bit 47 u) (n - 47) = bit (drop_bit 47 u) 0"
      using that n by (auto simp: canonical_page_def bit_mask_iff)
    then show ?thesis using that(2) by (simp add: bit_drop_bit_eq)
  qed
  consider "n < 12" | "12 \<le> n" "n < 48" | "48 \<le> n" by linarith
  then show "bit v n = bit w n"
  proof cases
    case 1
    with assms aligned_low_bits show ?thesis by (simp add: canonical_page_def)
  next
    case 2
    with assms(3) show ?thesis by (intro idx_list_bits) (auto simp: same_page_def)
  next
    case 3
    with high assms have "bit v n = bit v 47" "bit w n = bit w 47" by auto
    moreover have "bit v 47 = bit w 47" using assms(3) by (intro idx_list_bits) (auto simp: same_page_def)
    ultimately show ?thesis by simp
  qed
qed

lemma user_page_canonical: "user_page v \<Longrightarrow> canonical_page v \<and> \<not> kernel_half v"
proof -
  assume u: "user_page v"
  then have "unat v < 2 ^ 47" by (simp add: user_page_def word_less_nat_alt)
  then have "unat (drop_bit 47 v) = 0" by (simp only: unat_drop_bit_eq) (simp add: drop_bit_eq_div)
  then have d: "drop_bit 47 v = 0" by (simp only: unat_eq_0)
  define x where "x = drop_bit 39 v"
  have m: "(0x1FF :: u64) = mask 9" by (simp add: mask_eq_exp_minus_1)
  have "\<not> bit (drop_bit 47 v) 0" using d by simp
  then have x8: "\<not> bit x 8" by (simp add: x_def bit_drop_bit_eq)
  have "take_bit 8 (x AND mask 9) = x AND mask 9"
  proof (rule bit_word_eqI)
    fix n :: nat
    have "n < 9 \<longleftrightarrow> n < 8 \<or> n = 8" by auto
    with x8 show "bit (take_bit 8 (x AND mask 9)) n = bit (x AND mask 9) n"
      by (auto simp: bit_take_bit_iff bit_and_iff bit_mask_iff simp del: mask_numeral take_bit_and)
  qed
  then have "take_bit 8 (drop_bit 39 v AND 0x1FF) = drop_bit 39 v AND 0x1FF" by (simp only: x_def m)
  then have "unat (drop_bit 39 v AND 0x1FF) = take_bit 8 (unat (drop_bit 39 v AND 0x1FF))"
    by (metis unsigned_take_bit_eq)
  then have "unat (drop_bit 39 v AND 0x1FF) < 256" using take_bit_nat_less_exp [of 8 "unat (drop_bit 39 v AND 0x1FF)"] by simp
  with d u show ?thesis by (simp add: canonical_page_def user_page_def kernel_half_def idx_list_def split_indices_def)
qed

end
