(* ===== verification/Page_Mapper.thy ===== *)
theory Page_Mapper
  imports Vm_Tables
begin

text \<open>
  The contract of mapping and unmapping single pages in one address space, and what the
  loops over regions make of it: the shared memory manager and the address space manager
  both map a run of pages one at a time and unmap what they mapped when one page fails.
  \<open>view\<close> is the mapping of the address space, \<open>rest\<close> everything the operations must not
  touch.
\<close>

fun unmap_run :: "('v \<Rightarrow> 's \<Rightarrow> ('e + unit) \<times> 's) \<Rightarrow> 'v list \<Rightarrow> 's \<Rightarrow> nat \<times> 's" where
  "unmap_run unmap [] s = (0, s)"
| "unmap_run unmap (v # vs) s =
     (case unmap v s of
        (Inr _, s1) \<Rightarrow> (let (n, s2) = unmap_run unmap vs s1 in (Suc n, s2))
      | (Inl _, s1) \<Rightarrow> unmap_run unmap vs s1)"

text \<open>
  The loop over the pages of a region: on an error the pages mapped so far are unmapped;
  the result then holds the error, how many pages had been mapped and how many of them
  were unmapped again.
\<close>

fun map_run ::
  "('v \<Rightarrow> 'p \<Rightarrow> 's \<Rightarrow> ('e + unit) \<times> 's) \<Rightarrow> ('v \<Rightarrow> 's \<Rightarrow> ('e + unit) \<times> 's) \<Rightarrow> ('v \<times> 'p) list \<Rightarrow> 'v list \<Rightarrow> 's
    \<Rightarrow> ('e \<times> nat \<times> nat + unit) \<times> 's" where
  "map_run mp unmap [] mapped s = (Inr (), s)"
| "map_run mp unmap ((v, p) # rest) mapped s =
     (case mp v p s of
        (Inr _, s1) \<Rightarrow> map_run mp unmap rest (mapped @ [v]) s1
      | (Inl e, s1) \<Rightarrow> (let (n, s2) = unmap_run unmap mapped s1 in (Inl (e, length mapped, n), s2)))"

locale page_mapper =
  fixes mp :: "'v \<Rightarrow> 'p \<Rightarrow> 's \<Rightarrow> ('e + unit) \<times> 's"
    and unmap :: "'v \<Rightarrow> 's \<Rightarrow> ('e + unit) \<times> 's"
    and view :: "'s \<Rightarrow> 'v \<Rightarrow> 'x option"
    and "entry" :: "'p \<Rightarrow> 'x"
    and rest :: "'s \<Rightarrow> 'o"
    and valid :: "'v \<Rightarrow> bool"
    and ok :: "'s \<Rightarrow> bool"
  assumes map_ok: "ok s \<Longrightarrow> valid v \<Longrightarrow> mp v p s = (Inr u, s') \<Longrightarrow>
      ok s' \<and> rest s' = rest s \<and> view s v = None \<and> view s' = (view s)(v \<mapsto> entry p)"
    and map_error: "ok s \<Longrightarrow> valid v \<Longrightarrow> mp v p s = (Inl e, s') \<Longrightarrow> ok s' \<and> rest s' = rest s \<and> view s' = view s"
    and unmap_ok: "ok s \<Longrightarrow> valid v \<Longrightarrow> unmap v s = (Inr u, s') \<Longrightarrow>
      ok s' \<and> rest s' = rest s \<and> view s v \<noteq> None \<and> view s' = (view s)(v := None)"
    and unmap_error: "ok s \<Longrightarrow> valid v \<Longrightarrow> unmap v s = (Inl e, s') \<Longrightarrow> s' = s \<and> view s v = None"
begin

lemma unmap_run_view:
  assumes "ok s" and "\<forall>v \<in> set vs. valid v" and "unmap_run unmap vs s = (n, s')"
  shows "ok s' \<and> rest s' = rest s \<and> view s' = (\<lambda>w. if w \<in> set vs then None else view s w)
    \<and> (distinct vs \<longrightarrow> n = length (filter (\<lambda>v. view s v \<noteq> None) vs))"
  using assms
proof (induction vs arbitrary: s n)
  case Nil
  then show ?case by auto
next
  case (Cons v vs)
  obtain x s1 where u: "unmap v s = (x, s1)" by fastforce
  show ?case
  proof (cases x)
    case (Inl e)
    from unmap_error [OF Cons.prems(1) _ u [unfolded Inl]] Cons.prems(2) have "s1 = s" "view s v = None" by auto
    with Cons.IH [OF Cons.prems(1), of n] Cons.prems(2,3) u Inl show ?thesis by (auto simp: fun_eq_iff)
  next
    case (Inr w)
    from unmap_ok [OF Cons.prems(1) _ u [unfolded Inr]] Cons.prems(2)
    have s1: "ok s1" "rest s1 = rest s" "view s v \<noteq> None" "view s1 = (view s)(v := None)" by auto
    obtain n1 where n1: "unmap_run unmap vs s1 = (n1, s')" "n = Suc n1"
      using Cons.prems(3) u Inr by (auto split: prod.splits)
    have "filter (\<lambda>w. view s1 w \<noteq> None) vs = filter (\<lambda>w. view s w \<noteq> None) vs" if "v \<notin> set vs"
      using that s1(4) by (intro filter_cong) auto
    with Cons.IH [OF s1(1) _ n1(1)] Cons.prems(2) s1 n1(2) show ?thesis by (auto simp: fun_eq_iff)
  qed
qed

lemma map_run_view:
  assumes "ok s" and "\<forall>v \<in> set mapped. valid v" and "\<forall>v \<in> set (map fst vps). valid v" and "distinct (mapped @ map fst vps)"
    and "\<forall>v \<in> set mapped. view s v \<noteq> None" and "map_run mp unmap vps mapped s = (x, s')"
  shows "ok s' \<and> rest s' = rest s \<and> (case x of
      Inr _ \<Rightarrow> (\<forall>v \<in> set (map fst vps). view s v = None) \<and> view s' = view s ++ map_of (map (\<lambda>(v, p). (v, entry p)) vps)
    | Inl (e, m, n) \<Rightarrow> view s' = (\<lambda>w. if w \<in> set mapped then None else view s w) \<and> n = m)"
  using assms
proof (induction vps arbitrary: mapped s)
  case Nil
  then show ?case by auto
next
  case (Cons vp vps)
  obtain v p where vp: "vp = (v, p)" by fastforce
  obtain y s1 where m: "mp v p s = (y, s1)" by fastforce
  have v: "valid v" "v \<notin> set mapped" using Cons.prems(3,4) vp by auto
  show ?case
  proof (cases y)
    case (Inl e)
    from map_error [OF Cons.prems(1) v(1) m [unfolded Inl]] have s1: "ok s1" "rest s1 = rest s" "view s1 = view s" by auto
    obtain n where n: "unmap_run unmap mapped s1 = (n, s')" "x = Inl (e, length mapped, n)"
      using Cons.prems(6) vp m Inl by (auto split: prod.splits)
    have "filter (\<lambda>v. view s v \<noteq> None) mapped = mapped" using Cons.prems(5) by (simp add: filter_id_conv)
    with unmap_run_view [OF s1(1) Cons.prems(2) n(1)] s1 n(2) Cons.prems(4) show ?thesis by auto
  next
    case (Inr u)
    from map_ok [OF Cons.prems(1) v(1) m [unfolded Inr]]
    have s1: "ok s1" "rest s1 = rest s" "view s v = None" "view s1 = (view s)(v \<mapsto> entry p)" by auto
    have run: "map_run mp unmap vps (mapped @ [v]) s1 = (x, s')" using Cons.prems(6) vp m Inr by simp
    have "\<forall>w \<in> set (mapped @ [v]). valid w" "\<forall>w \<in> set (map fst vps). valid w" "distinct ((mapped @ [v]) @ map fst vps)"
      "\<forall>w \<in> set (mapped @ [v]). view s1 w \<noteq> None"
      using Cons.prems(2-5) v s1(4) vp by auto
    note IH = Cons.IH [OF s1(1) this run]
    show ?thesis
    proof (cases x)
      case (Inl emn)
      with IH s1 v show ?thesis by (cases emn) (auto simp: fun_eq_iff)
    next
      case Inr2: (Inr u')
      have nv: "v \<notin> set (map fst vps)" using Cons.prems(4) vp by auto
      then have "map_of (map (\<lambda>(v, p). (v, entry p)) vps) v = None" by (force simp: map_of_eq_None_iff)
      moreover have "view s w = None" if "w \<in> set (map fst vps)" for w
      proof -
        from that nv have "w \<noteq> v" by auto
        with that IH Inr2 s1(4) show ?thesis by (auto split: if_splits)
      qed
      ultimately show ?thesis using IH s1 Inr2 by (auto simp: vp map_add_def fun_eq_iff split: option.splits)
    qed
  qed
qed

text \<open>Mapping a run maps every page of it or leaves the view alone.\<close>

lemma map_run_all_or_nothing:
  assumes "ok s" and "\<forall>v \<in> set (map fst vps). valid v" and "distinct (map fst vps)" and "map_run mp unmap vps [] s = (x, s')"
  shows "ok s' \<and> rest s' = rest s \<and> (case x of
      Inr _ \<Rightarrow> (\<forall>v \<in> set (map fst vps). view s v = None) \<and> view s' = view s ++ map_of (map (\<lambda>(v, p). (v, entry p)) vps)
    | Inl (e, m, n) \<Rightarrow> view s' = view s \<and> n = m)"
  using map_run_view [OF assms(1) _ assms(2) _ _ assms(4)] assms(3) by (auto split: sum.splits prod.splits)

end

section \<open>The page tables are a mapper\<close>

text \<open>
  For an address space \<open>r\<close> and mapping flags that make an entry present. In the user half
  the rest is the view of every other address space; the data pages and their contents
  are part of it in both halves.
\<close>

definition user_view :: "usize \<Rightarrow> 'a ram_scheme \<Rightarrow> usize \<Rightarrow> u64 option" where
  "user_view r s v = (if user_page v then vm_view s r v else None)"

definition canonical_view :: "usize \<Rightarrow> 'a ram_scheme \<Rightarrow> usize \<Rightarrow> u64 option" where
  "canonical_view r s v = (if canonical_page v then vm_view s r v else None)"

definition other_views :: "usize set \<Rightarrow> usize \<Rightarrow> usize set \<Rightarrow> 'a vmm_scheme \<Rightarrow>
    (usize \<Rightarrow> usize \<Rightarrow> u64 option) \<times> (usize \<Rightarrow> (nat \<Rightarrow> u64) option) \<times> usize" where
  "other_views R r D s =
     (\<lambda>r' v. if r' \<in> R - {r} then vm_view s r' v else if r' = r \<and> \<not> user_page v \<and> canonical_page v then vm_view s r v else None,
      \<lambda>a. if a \<in> D then Some (ram_mem s a) else None, vm_active_pml4 s)"

definition data_pages :: "usize set \<Rightarrow> 'a vmm_scheme \<Rightarrow> (usize \<Rightarrow> (nat \<Rightarrow> u64) option) \<times> usize" where
  "data_pages D s = (\<lambda>a. if a \<in> D then Some (ram_mem s a) else None, vm_active_pml4 s)"

lemma same_data_pages: "same_data D s s' \<Longrightarrow> data_pages D s' = data_pages D s"
  by (auto simp: same_data_def data_pages_def fun_eq_iff)

lemma other_views_eq:
  assumes "same_data D s s'" and "\<And>r' v. r' \<in> R - {r} \<Longrightarrow> vm_view s' r' v = vm_view s r' v"
    and "\<And>v. canonical_page v \<Longrightarrow> \<not> user_page v \<Longrightarrow> vm_view s' r v = vm_view s r v"
  shows "other_views R r D s' = other_views R r D s"
  using assms by (auto simp: same_data_def other_views_def fun_eq_iff)

lemma view_update_user:
  assumes up: "view_update R r v x s s'" and v: "user_page v"
  shows "user_view r s' = (user_view r s)(v := x)"
    and "r' \<in> R - {r} \<Longrightarrow> vm_view s' r' w = vm_view s r' w"
    and "canonical_page w \<Longrightarrow> \<not> user_page w \<Longrightarrow> vm_view s' r w = vm_view s r w"
proof -
  note c = user_page_canonical [OF v]
  have same: "same_page v w \<longleftrightarrow> v = w" if "canonical_page w" for w
    using canonical_same_page [of v w] c that by (auto simp: same_page_def)
  have one: "vm_view s' r w = (if same_page v w then x else vm_view s r w)" for w
    using up by (simp add: view_update_def)
  show "user_view r s' = (user_view r s)(v := x)"
  proof
    fix w show "user_view r s' w = ((user_view r s)(v := x)) w"
      using one [of w] same [of w] user_page_canonical [of w] v by (auto simp: user_view_def)
  qed
  show "r' \<in> R - {r} \<Longrightarrow> vm_view s' r' w = vm_view s r' w" using up c by (simp add: view_update_def)
  show "canonical_page w \<Longrightarrow> \<not> user_page w \<Longrightarrow> vm_view s' r w = vm_view s r w"
    using one [of w] same [of w] v by auto
qed

lemma view_update_canonical:
  assumes up: "view_update R r v x s s'" and v: "canonical_page v"
  shows "canonical_view r s' = (canonical_view r s)(v := x)"
proof
  fix w
  have "same_page v w \<longleftrightarrow> v = w" if "canonical_page w"
    using canonical_same_page [OF v that] by (auto simp: same_page_def)
  then show "canonical_view r s' w = ((canonical_view r s)(v := x)) w"
    using up v by (auto simp: canonical_view_def view_update_def)
qed

lemma user_page_aligned: "user_page v \<Longrightarrow> is_page_aligned v"
  by (simp add: user_page_def)

definition space_ok :: "usize set \<Rightarrow> usize \<Rightarrow> usize set \<Rightarrow> page_flags \<Rightarrow> 'a vmm_scheme \<Rightarrow> bool" where
  "space_ok R r D f s \<longleftrightarrow> vm_inv R D s \<and> r \<in> R \<and> r \<noteq> 0 \<and> pte_present f"

interpretation space_mapper: page_mapper "\<lambda>v p. map_page_in_pml4 r v p f" "unmap_page_in_pml4 r" "user_view r"
  "\<lambda>p. pte_set p f" "other_views R r D" user_page "space_ok R r D f" for R r D f
proof (unfold_locales, goal_cases)
  case (1 s v p u s')
  then have inv: "vm_inv R D s" "r \<in> R" "r \<noteq> 0" "pte_present f" by (simp_all add: space_ok_def)
  have "map_page_internal r v p f s = (Inr u, s')" using 1(3) inv by (auto simp: map_page_in_pml4_def split: if_splits)
  from map_page_internal_spec [OF inv(1,2) this] inv(4)
  have sp: "vm_inv R D s'" "same_data D s s'" "vm_view s r v = None" "view_update R r v (Some (pte_set p f)) s s'" by auto
  note up = view_update_user [OF sp(4) 1(2)]
  have "other_views R r D s' = other_views R r D s" by (rule other_views_eq [OF sp(2)]) (use up in auto)
  with sp up(1) inv 1(2) show ?case by (simp add: space_ok_def user_view_def)
next
  case (2 s v p e s')
  then have inv: "vm_inv R D s" "r \<in> R" "r \<noteq> 0" "pte_present f" by (simp_all add: space_ok_def)
  consider "s' = s" | "map_page_internal r v p f s = (Inl e, s')"
    using 2(3) inv by (auto simp: map_page_in_pml4_def split: if_splits)
  then show ?case
  proof cases
    case 2
    from map_page_internal_spec [OF inv(1,2) this]
    have sp: "vm_inv R D s'" "same_data D s s'" "same_views R s s'" by auto
    have "other_views R r D s' = other_views R r D s"
      by (rule other_views_eq [OF sp(2)]) (use sp(3) inv(2) in \<open>auto simp: same_views_def\<close>)
    moreover have "user_view r s' = user_view r s" using sp(3) inv(2) by (auto simp: same_views_def user_view_def fun_eq_iff)
    ultimately show ?thesis using sp inv by (simp add: space_ok_def)
  qed (use 2 in simp)
next
  case (3 s v u s')
  then have inv: "vm_inv R D s" "r \<in> R" "r \<noteq> 0" "pte_present f" by (simp_all add: space_ok_def)
  from unmap_page_in_pml4_spec [OF inv(1-3) user_page_aligned [OF 3(2)]] 3(3)
  have sp: "vm_inv R D s'" "same_data D s s'" "vm_view s r v \<noteq> None" "view_update R r v None s s'" by auto
  note up = view_update_user [OF sp(4) 3(2)]
  have "other_views R r D s' = other_views R r D s" by (rule other_views_eq [OF sp(2)]) (use up in auto)
  with sp up(1) inv 3(2) show ?case by (simp add: space_ok_def user_view_def)
next
  case (4 s v e s')
  then have inv: "vm_inv R D s" "r \<in> R" "r \<noteq> 0" by (simp_all add: space_ok_def)
  from unmap_page_in_pml4_spec [OF inv user_page_aligned [OF 4(2)]] 4(3) show ?case by (auto simp: user_view_def)
qed

text \<open>The active address space, which the shared memory manager maps into.\<close>

definition active_ok :: "usize set \<Rightarrow> usize \<Rightarrow> usize set \<Rightarrow> page_flags \<Rightarrow> 'a vmm_scheme \<Rightarrow> bool" where
  "active_ok R r D f s \<longleftrightarrow> vm_inv R D s \<and> r \<in> R \<and> r \<noteq> 0 \<and> vm_active_pml4 s = r \<and> pte_present f"

interpretation active_mapper: page_mapper "\<lambda>v p. map_page v p f" unmap_page "canonical_view r"
  "\<lambda>p. pte_set p f" "data_pages D" canonical_page "active_ok R r D f" for R r D f
proof (unfold_locales, goal_cases)
  case (1 s v p u s')
  then have inv: "vm_inv R D s" "r \<in> R" "r \<noteq> 0" "vm_active_pml4 s = r" "pte_present f" by (simp_all add: active_ok_def)
  have "map_page_internal r v p f s = (Inr u, s')" using 1(3) inv by (auto simp: map_page_def split: if_splits)
  from map_page_internal_spec [OF inv(1,2) this] inv(5)
  have sp: "vm_inv R D s'" "same_data D s s'" "vm_view s r v = None" "view_update R r v (Some (pte_set p f)) s s'" by auto
  from sp view_update_canonical [OF sp(4) 1(2)] inv 1(2) same_data_pages [OF sp(2)] show ?case
    by (simp add: active_ok_def canonical_view_def same_data_def)
next
  case (2 s v p e s')
  then have inv: "vm_inv R D s" "r \<in> R" "r \<noteq> 0" "vm_active_pml4 s = r" "pte_present f" by (simp_all add: active_ok_def)
  consider "s' = s" | "map_page_internal r v p f s = (Inl e, s')"
    using 2(3) inv by (auto simp: map_page_def split: if_splits)
  then show ?case
  proof cases
    case 2
    from map_page_internal_spec [OF inv(1,2) this]
    have sp: "vm_inv R D s'" "same_data D s s'" "same_views R s s'" by auto
    have "canonical_view r s' = canonical_view r s" using sp(3) inv(2) by (auto simp: same_views_def canonical_view_def fun_eq_iff)
    with sp inv same_data_pages [OF sp(2)] show ?thesis by (simp add: active_ok_def same_data_def)
  qed (use 2 in simp)
next
  case (3 s v u s')
  then have inv: "vm_inv R D s" "r \<in> R" "r \<noteq> 0" "vm_active_pml4 s = r" "pte_present f" by (simp_all add: active_ok_def)
  have "is_page_aligned v" using 3(2) by (simp add: canonical_page_def)
  from unmap_page_spec [OF inv(1) _ _ this] 3(3) inv(2-4)
  have sp: "vm_inv R D s'" "same_data D s s'" "vm_view s r v \<noteq> None" "view_update R r v None s s'" by auto
  from sp view_update_canonical [OF sp(4) 3(2)] inv 3(2) same_data_pages [OF sp(2)] show ?case
    by (simp add: active_ok_def canonical_view_def same_data_def)
next
  case (4 s v e s')
  then have inv: "vm_inv R D s" "r \<in> R" "r \<noteq> 0" "vm_active_pml4 s = r" by (simp_all add: active_ok_def)
  have "is_page_aligned v" using 4(2) by (simp add: canonical_page_def)
  from unmap_page_spec [OF inv(1) _ _ this] 4(3) inv(2-4) show ?case by (auto simp: canonical_view_def)
qed

end
