(* ===== verification/Vm_Spaces.thy ===== *)
theory Vm_Spaces
  imports Page_Mapper
begin

text \<open>
  Address spaces at the level of the page tables: sharing the kernel half with a new root,
  an example with two address spaces, and the properties of mapping, unmapping and cloning.
\<close>

section \<open>Cloning the kernel half\<close>

lemma fold_clear_entries:
  "distinct is \<Longrightarrow> ram_mem (fold (\<lambda>i. write_entry (dst, i) 0) is s) = (ram_mem s)(dst := (\<lambda>i. if i \<in> set is then 0 else ram_mem s dst i))"
  by (induction "is" arbitrary: s) (auto simp: fun_eq_iff)

lemma fold_clear_frame:
  "free_addrs (fold (\<lambda>i. write_entry (dst, i) 0) is s) = free_addrs s \<and> managed_addrs (fold (\<lambda>i. write_entry (dst, i) 0) is s) = managed_addrs s
   \<and> pmm_inv (fold (\<lambda>i. write_entry (dst, i) 0) is s) = pmm_inv s"
  by (induction "is" arbitrary: s) auto

lemma fold_clear_active:
  "vm_active_pml4 (fold (\<lambda>i. write_entry (dst, i) 0) is s) = vm_active_pml4 s"
  by (induction "is" arbitrary: s) auto

abbreviation copy_entry :: "usize \<Rightarrow> nat \<Rightarrow> 'a vmm_scheme \<Rightarrow> 'a vmm_scheme" where
  "copy_entry dst i s \<equiv> write_entry (dst, i) (read_entry s (vm_active_pml4 s, i)) s"

lemma fold_copy_entries:
  "vm_active_pml4 s \<noteq> dst \<Longrightarrow> ram_mem (fold (copy_entry dst) is s)
     = (ram_mem s)(dst := (\<lambda>i. if i \<in> set is then ram_mem s (vm_active_pml4 s) i else ram_mem s dst i))
   \<and> free_addrs (fold (copy_entry dst) is s) = free_addrs s \<and> managed_addrs (fold (copy_entry dst) is s) = managed_addrs s
   \<and> pmm_inv (fold (copy_entry dst) is s) = pmm_inv s \<and> vm_active_pml4 (fold (copy_entry dst) is s) = vm_active_pml4 s"
  by (induction "is" arbitrary: s) (auto simp: fun_eq_iff read_entry_def)

lemma clone_kernel_mappings_frame:
  assumes "is_page_aligned dst" and "vm_active_pml4 s \<noteq> 0" and "vm_active_pml4 s \<noteq> dst"
  shows "\<exists>s'. clone_kernel_mappings dst s = (Inr (), s')
    \<and> ram_mem s' = (ram_mem s)(dst := (\<lambda>i. if i < 256 then 0 else if i < 512 then ram_mem s (vm_active_pml4 s) i else ram_mem s dst i))
    \<and> free_addrs s' = free_addrs s \<and> managed_addrs s' = managed_addrs s \<and> pmm_inv s' = pmm_inv s
    \<and> vm_active_pml4 s' = vm_active_pml4 s"
proof -
  define A B :: "nat list" where "A = [0 ..< 256]" and "B = [256 ..< 512]"
  have AB: "i \<in> set A \<longleftrightarrow> i < 256" "i \<in> set B \<longleftrightarrow> 256 \<le> i \<and> i < 512" "distinct A" for i
    unfolding A_def B_def set_upt by (simp_all only: atLeastLessThan_iff distinct_upt) auto
  define s1 where "s1 = fold (\<lambda>i. write_entry (dst, i) 0) A s"
  have s1: "ram_mem s1 = (ram_mem s)(dst := (\<lambda>i. if i \<in> set A then 0 else ram_mem s dst i))"
    "vm_active_pml4 s1 = vm_active_pml4 s"
    "free_addrs s1 = free_addrs s" "managed_addrs s1 = managed_addrs s" "pmm_inv s1 = pmm_inv s"
    unfolding s1_def by (rule fold_clear_entries [OF AB(3)], rule fold_clear_active, simp_all add: fold_clear_frame)
  have "clone_kernel_mappings dst s = (Inr (), fold (copy_entry dst) B s1)"
    unfolding clone_kernel_mappings_def s1_def A_def [symmetric] B_def [symmetric] using assms by simp
  moreover have ne: "vm_active_pml4 s1 \<noteq> dst" using assms(3) s1(2) by simp
  note fc = fold_copy_entries [OF ne, of B]
  moreover have "ram_mem (fold (copy_entry dst) B s1)
      = (ram_mem s)(dst := (\<lambda>i. if i < 256 then 0 else if i < 512 then ram_mem s (vm_active_pml4 s) i else ram_mem s dst i))"
    using fc assms(3) by (auto simp: s1 AB fun_eq_iff)
  ultimately show ?thesis using s1 by auto
qed

lemma clone_new_root:
  assumes inv: "vm_inv R D s" and act: "vm_active_pml4 s \<in> R" "vm_active_pml4 s \<noteq> 0" and dst: "dst \<in> D"
  shows "\<exists>s'. clone_kernel_mappings dst s = (Inr (), s') \<and> vm_inv (insert dst R) (D - {dst}) s' \<and> same_views R s s'
    \<and> same_data (D - {dst}) s s' \<and> free_addrs s' = free_addrs s
    \<and> (\<forall>v. vm_view s' dst v = (if kernel_half v then vm_view s (vm_active_pml4 s) v else None))"
proof -
  let ?a = "vm_active_pml4 s"
  obtain K where K: "vm_ok K s" "roots_ok R K" "dom K \<inter> D = {}" "D \<subseteq> managed_addrs s - free_addrs s"
    using inv by (auto simp: vm_inv_def)
  have pinv: "pmm_inv s" and kd: "keyed K (ram_mem s)" and d: "dom K \<subseteq> managed_addrs s - free_addrs s"
    using K(1) by (auto simp: vm_ok_def)
  have Ka: "K ?a = Some (Some ?a, [])" using K(2) act(1) by (simp add: roots_ok_def)
  have nd: "dst \<notin> dom K" "dst \<in> managed_addrs s" using dst K(3,4) by blast+
  then have "?a \<noteq> dst" using Ka by auto
  moreover have "is_page_aligned dst" using pmm_alloc.managed_aligned [OF pinv nd(2)] by (simp add: is_page_aligned_def)
  ultimately obtain s' where s': "clone_kernel_mappings dst s = (Inr (), s')"
    and mem: "ram_mem s' = (ram_mem s)(dst := (\<lambda>i. if i < 256 then 0 else if i < 512 then ram_mem s ?a i else ram_mem s dst i))"
    and fr: "free_addrs s' = free_addrs s" "managed_addrs s' = managed_addrs s" "pmm_inv s' = pmm_inv s" "vm_active_pml4 s' = ?a"
    using clone_kernel_mappings_frame act(2) by blast
  let ?K = "K(dst \<mapsto> (Some dst, []))"
  have same: "ram_mem s' t = ram_mem s t" if "t \<in> dom K" for t using that nd(1) by (auto simp: mem)
  have "keyed ?K (ram_mem s')"
    unfolding keyed_def
  proof (intro allI impI, elim conjE)
    fix t k i assume t: "?K t = Some k" "length (snd k) < 3" "i < 512" "pte_present (ram_mem s' t i)"
    show "?K (pte_addr (ram_mem s' t i)) = Some (child_key k i)"
    proof (cases "t = dst")
      case True
      with t have i: "256 \<le> i" "k = (Some dst, [])" "pte_present (ram_mem s ?a i)" "ram_mem s' t i = ram_mem s ?a i"
        by (auto simp: mem split: if_splits)
      from keyedD [OF kd Ka _ t(3) i(3)] i have "K (pte_addr (ram_mem s' t i)) = Some (child_key k i)" by simp
      with nd(1) show ?thesis by (cases "pte_addr (ram_mem s' t i) = dst") auto
    next
      case False
      with t(1) have Kt: "K t = Some k" by simp
      have "ram_mem s' t = ram_mem s t" using False by (simp add: mem)
      with keyedD [OF kd Kt t(2,3)] t(4) have "K (pte_addr (ram_mem s' t i)) = Some (child_key k i)" by simp
      with nd(1) show ?thesis by (cases "pte_addr (ram_mem s' t i) = dst") auto
    qed
  qed
  then have ok: "vm_ok ?K s'" using pinv d nd(2) fr K(4) dst by (auto simp: vm_ok_def)
  have "roots_ok (insert dst R) ?K" using K(2) nd(1) by (auto simp: roots_ok_def)
  then have inv': "vm_inv (insert dst R) (D - {dst}) s'"
    unfolding vm_inv_def by (intro exI [of _ ?K] conjI) (use ok K(3,4) fr in auto)
  have loc: "pt_entry (ram_mem s') t is = pt_entry (ram_mem s) t is" if "at_level K t is" for t "is"
  proof -
    have "pt_loc (ram_mem s') t is = pt_loc (ram_mem s) t is"
      by (rule same_shape_entry [OF kd _ that]) (use same in \<open>auto simp: dom_def\<close>)
    moreover have "ram_mem s' t' = ram_mem s t'" if "pt_loc (ram_mem s) t is = Some (t', i')" for t' i'
      using pt_loc_level [OF kd \<open>at_level K t is\<close> that] same by (auto simp: dom_def)
    ultimately show ?thesis by (auto simp: pt_entry_def split: option.split)
  qed
  then have views: "same_views R s s'"
    using roots_ok_level [OF K(2)] by (simp add: same_views_def vm_view_def)
  have "vm_view s' dst v = (if kernel_half v then vm_view s ?a v else None)" for v
  proof -
    obtain a b c e where v: "idx_list v = [a, b, c, e]" using idx_list_shape by blast
    then have bound: "a < 512" "b < 512" "c < 512" "e < 512" using idx_list_simps(2) [of v] by simp_all
    show ?thesis
    proof (cases "256 \<le> a \<and> pte_present (ram_mem s ?a a)")
      case True
      then have "K (pte_addr (ram_mem s ?a a)) = Some (child_key (Some ?a, []) a)" by (intro keyedD [OF kd Ka]) (use bound in auto)
      then have "at_level K (pte_addr (ram_mem s ?a a)) [b, c, e]" using bound by (simp add: at_level_def)
      from loc [OF this] True bound(1) show ?thesis
        by (simp add: vm_view_def v kernel_half_def pt_entry_simps mem)
    qed (use bound in \<open>auto simp: vm_view_def v kernel_half_def pt_entry_simps mem\<close>)
  qed
  moreover have "same_data (D - {dst}) s s'" using fr by (simp add: same_data_def mem)
  ultimately show ?thesis using s' inv' views fr by blast
qed

section \<open>Dropping a root\<close>

text \<open>No table entry points to a root, so a root can be freed; the tables below it stay allocated.\<close>

lemma vm_inv_drop_root:
  assumes inv: "vm_inv R D s" and r: "r \<in> R"
  shows "vm_inv (R - {r}) D (free_page r s)"
proof -
  obtain K where K: "vm_ok K s" "roots_ok R K" "dom K \<inter> D = {}" "D \<subseteq> managed_addrs s - free_addrs s"
    using inv by (auto simp: vm_inv_def)
  have pinv: "pmm_inv s" and kd: "keyed K (ram_mem s)" and d: "dom K \<subseteq> managed_addrs s - free_addrs s"
    using K(1) by (auto simp: vm_ok_def)
  have Kr: "K r = Some (Some r, [])" using K(2) r by (simp add: roots_ok_def)
  then have rd: "r \<in> dom K" by (rule domI)
  from rd d have "r \<in> managed_addrs s" by blast
  from ram_alloc.dealloc [OF pinv this]
  have f: "pmm_inv (free_page r s)" "free_addrs (free_page r s) = insert r (free_addrs s)"
    "managed_addrs (free_page r s) = managed_addrs s" by auto
  have "keyed (K(r := None)) (ram_mem (free_page r s))"
    unfolding keyed_def
  proof (intro allI impI, elim conjE)
    fix t k i assume t: "(K(r := None)) t = Some k" "length (snd k) < 3" "i < 512" "pte_present (ram_mem (free_page r s) t i)"
    then have "K t = Some k" by (auto split: if_splits)
    from keyedD [OF kd this t(2,3)] t(4) have c: "K (pte_addr (ram_mem s t i)) = Some (child_key k i)" by simp
    then have "pte_addr (ram_mem s t i) \<noteq> r" using Kr by (cases k) auto
    with c show "(K(r := None)) (pte_addr (ram_mem (free_page r s) t i)) = Some (child_key k i)" by simp
  qed
  then have ok: "vm_ok (K(r := None)) (free_page r s)" using f d by (auto simp: vm_ok_def)
  show ?thesis unfolding vm_inv_def
  proof (intro exI [of _ "K(r := None)"] conjI)
    show "roots_ok (R - {r}) (K(r := None))" using K(2) by (auto simp: roots_ok_def)
    show "dom (K(r := None)) \<inter> D = {}" using K(3) by auto
    have "r \<notin> D" using K(3) rd by blast
    then show "D \<subseteq> managed_addrs (free_page r s) - free_addrs (free_page r s)" using K(4) f by auto
  qed (rule ok)
qed

section \<open>State beside the page tables\<close>

text \<open>The operations change nothing of the state that extends the virtual memory manager's.\<close>

named_theorems vmm_more \<open>fields outside the virtual memory manager\<close>

lemma alloc_page_zeroed_more [vmm_more]: "vmm.more (snd (alloc_page_zeroed s)) = vmm.more s"
  by (auto simp: alloc_page_zeroed_def alloc_page_def zero_frame_def set_page_allocated_def split: prod.split option.split)

lemma free_page_more [vmm_more]: "vmm.more (free_page a s) = vmm.more s"
  by (simp add: free_page_def set_page_free_def Let_def)

lemma write_entry_more [vmm_more]: "vmm.more (write_entry l e s) = vmm.more s"
  by (simp add: write_entry_def split: prod.split)

lemma ensure_table_user_more [vmm_more]: "vmm.more (snd (ensure_table_user l c b u s)) = vmm.more s"
  using alloc_page_zeroed_more [of s]
  by (auto simp: ensure_table_user_def Let_def write_entry_more split: prod.splits option.splits)

lemma walk_more [vmm_more]: "vmm.more (snd (walk_to_entry_with_root_user r v c u s)) = vmm.more s"
proof -
  obtain i4 i3 i2 i1 where sp: "split_indices v = (i4, i3, i2, i1)" by (metis prod_cases4)
  obtain x1 s1 where e1: "ensure_table_user (r, i4) c False u s = (x1, s1)" by fastforce
  have m1: "vmm.more s1 = vmm.more s" using ensure_table_user_more [of "(r, i4)" c False u s] e1 by simp
  show ?thesis
  proof (cases x1)
    case (Inr tc)
    obtain t3 c1 where tc: "tc = (t3, c1)" by fastforce
    obtain x2 s2 where e2: "ensure_table_user (t3, i3) c c1 u s1 = (x2, s2)" by fastforce
    have m2: "vmm.more s2 = vmm.more s" using ensure_table_user_more [of "(t3, i3)" c c1 u s1] e2 m1 by simp
    show ?thesis
    proof (cases x2)
      case Inr2: (Inr tc2)
      obtain t2 c2 where tc2: "tc2 = (t2, c2)" by fastforce
      obtain x3 s3 where e3: "ensure_table_user (t2, i2) c c2 u s2 = (x3, s3)" by fastforce
      have "vmm.more s3 = vmm.more s" using ensure_table_user_more [of "(t2, i2)" c c2 u s2] e3 m2 by simp
      then show ?thesis using e1 e2 e3 Inr tc Inr2 tc2
        by (auto simp: walk_to_entry_with_root_user_def sp split: sum.split prod.split)
    qed (use e1 e2 Inr tc m2 in \<open>simp add: walk_to_entry_with_root_user_def sp\<close>)
  qed (use e1 m1 in \<open>simp add: walk_to_entry_with_root_user_def sp\<close>)
qed

lemma map_page_internal_more [vmm_more]: "vmm.more (snd (map_page_internal r v p f s)) = vmm.more s"
  using walk_more [of r v True "f AND PG_USER \<noteq> 0" s]
  by (auto simp: map_page_internal_def Let_def invalidate_page_def write_entry_more split: prod.splits sum.splits)

lemma map_page_more [vmm_more]:
  "vmm.more (snd (map_page v p f s)) = vmm.more s" "vmm.more (snd (map_page_in_pml4 r v p f s)) = vmm.more s"
  by (simp_all add: map_page_def map_page_in_pml4_def map_page_internal_more)

lemma unmap_page_more [vmm_more]:
  "vmm.more (snd (unmap_page v s)) = vmm.more s" "vmm.more (snd (unmap_page_in_pml4 r v s)) = vmm.more s"
  by (simp_all add: unmap_page_def unmap_page_in_pml4_def walk_to_entry_def walk_read Let_def invalidate_page_def
      write_entry_more split: option.split)

lemma clone_more [vmm_more]: "vmm.more (snd (clone_kernel_mappings dst s)) = vmm.more s"
proof -
  have a: "vmm.more (fold (\<lambda>i. write_entry (dst, i) 0) is s) = vmm.more s" for "is" and s :: "'a vmm_scheme"
    by (induction "is" arbitrary: s) (simp_all add: write_entry_more)
  have b: "vmm.more (fold (copy_entry dst) is s) = vmm.more s" for "is" and s :: "'a vmm_scheme"
    by (induction "is" arbitrary: s) (simp_all add: write_entry_more)
  show ?thesis unfolding clone_kernel_mappings_def by (simp add: a b del: upt_rec_numeral)
qed

text \<open>What every single mapping and unmapping keeps, a run keeps.\<close>

lemma unmap_run_preserves:
  assumes "\<And>v s. P s \<Longrightarrow> P (snd (unmap v s))" and "P s"
  shows "P (snd (unmap_run unmap vs s))"
  using assms(2)
proof (induction vs arbitrary: s)
  case (Cons v vs)
  obtain x s1 where u: "unmap v s = (x, s1)" by fastforce
  with assms(1) [OF Cons.prems, of v] have "P s1" by simp
  with Cons.IH [of s1] u show ?case by (cases x) (auto split: prod.splits)
qed simp

lemma map_run_preserves:
  assumes mp: "\<And>v p s. P s \<Longrightarrow> P (snd (mp v p s))" and un: "\<And>v s. P s \<Longrightarrow> P (snd (unmap v s))" and "P s"
  shows "P (snd (map_run mp unmap vps mapped s))"
  using assms(3)
proof (induction vps arbitrary: mapped s)
  case (Cons vp vps)
  obtain v p where vp: "vp = (v, p)" by fastforce
  obtain x s1 where m: "mp v p s = (x, s1)" by fastforce
  with mp [OF Cons.prems, of v p] have "P s1" by simp
  with unmap_run_preserves [where P = P and unmap = unmap and vs = mapped and s = s1, OF un] Cons.IH [of s1 "mapped @ [v]"] m vp
  show ?case by (cases x) (auto split: prod.splits)
qed simp

lemma unmap_run_keeps:
  assumes "\<And>v s. g (snd (unmap v s)) = g s"
  shows "g (snd (unmap_run unmap vs s)) = g s"
  by (rule unmap_run_preserves [where P = "\<lambda>s'. g s' = g s"]) (simp_all add: assms)

lemma map_run_keeps:
  assumes "\<And>v p s. g (snd (mp v p s)) = g s" and "\<And>v s. g (snd (unmap v s)) = g s"
  shows "g (snd (map_run mp unmap vps mapped s)) = g s"
  by (rule map_run_preserves [where P = "\<lambda>s'. g s' = g s"]) (simp_all add: assms)

section \<open>An example with two address spaces\<close>

definition vm_example :: vmm where
  "vm_example = \<lparr>pm_bitmap = (\<lambda>i. if i = 0 then 0x07 else 0), pm_total = 16, pm_free = 13, pm_next_free_hint = 0,
     pm_largest_free_run = 13, ram_mem = (\<lambda>_ _. 0), vm_active_pml4 = 0x1000, vm_mapped_pages = 0,
     vm_page_table_pages = 2, vm_invalidated = [], vm_cr3 = 0x1000\<rparr>"

lemma vm_example_free: "free_set vm_example = {3 ..< 16}"
proof -
  have "is_page_free vm_example p \<longleftrightarrow> p \<in> {3 ..< 16}" for p
  proof (cases "p < 16")
    case True
    then have "p \<in> set [0 ..< 16]" by simp
    then show ?thesis by (simp add: upt_rec) (auto simp: is_page_free_def vm_example_def)
  qed (simp add: is_page_free_def vm_example_def)
  then show ?thesis by (intro set_eqI) (simp only: free_set_def mem_Collect_eq)
qed

lemma vm_example_low:
  assumes "p < 3"
  shows "page_to_addr p \<in> managed_addrs vm_example - free_addrs vm_example"
proof -
  have "page_to_addr p \<notin> page_to_addr ` {3 ..< 16}"
  proof
    assume "page_to_addr p \<in> page_to_addr ` {3 ..< 16}"
    then obtain q where "q \<in> {3 ..< 16}" "page_to_addr p = page_to_addr q" by blast
    with assms page_to_addr_inj [of p q] show False by simp
  qed
  moreover have "page_to_addr p \<in> managed_addrs vm_example"
    using assms unfolding managed_addrs_def by (intro imageI) (simp add: vm_example_def)
  ultimately show ?thesis by (simp add: free_addrs_def vm_example_free)
qed

lemma vm_example_tables:
  "\<exists>K. vm_ok K vm_example \<and> roots_ok {0x1000, 0x2000} K \<and> dom K = {0x1000, 0x2000}"
proof -
  let ?K = "[0x1000 \<mapsto> (Some 0x1000, []), 0x2000 \<mapsto> (Some 0x2000, [])] :: usize \<Rightarrow> pt_key option"
  have "pmm_inv vm_example" by (simp add: pmm_inv_def vm_example_free) (simp add: vm_example_def)
  moreover have "keyed ?K (ram_mem vm_example)" by (simp add: keyed_def vm_example_def)
  moreover have "dom ?K \<subseteq> managed_addrs vm_example - free_addrs vm_example"
  proof -
    have "0x1000 = page_to_addr 1" "0x2000 = page_to_addr 2" by (simp_all add: page_to_addr_def)
    with vm_example_low [of 1] vm_example_low [of 2] show ?thesis by simp
  qed
  ultimately show ?thesis by (intro exI [of _ ?K]) (auto simp: vm_ok_def roots_ok_def)
qed

lemma vm_example_inv: "vm_inv {0x1000, 0x2000} {} vm_example"
  using vm_example_tables by (auto simp: vm_inv_def)

section \<open>Properties\<close>

text \<open>
  C23. Mapping a page is exact and isolated: a successful \<open>map_page_in_pml4\<close> found the page
  unmapped; afterwards the address space maps that page to the new entry and every other page
  as before; no other address space changes at a user page, nor anywhere but at this page;
  the tables, the data pages and the free pages stay disjoint and no data page is written.
\<close>

theorem map_page_isolated:
  assumes "vm_inv R D s" and "r \<in> R" and "pte_present f" and "map_page_in_pml4 r v p f s = (Inr (), s')"
  shows "vm_view s r v = None
    \<and> (\<forall>w. vm_view s' r w = (if same_page v w then Some (pte_set p f) else vm_view s r w))
    \<and> (\<forall>r' \<in> R - {r}. \<forall>w. \<not> kernel_half v \<or> \<not> same_page v w \<longrightarrow> vm_view s' r' w = vm_view s r' w)
    \<and> vm_inv R D s' \<and> (\<forall>a \<in> D. ram_mem s' a = ram_mem s a)"
proof -
  have "map_page_internal r v p f s = (Inr (), s')" using assms(4) by (auto simp: map_page_in_pml4_def split: if_splits)
  from map_page_internal_spec [OF assms(1,2) this] assms(3) show ?thesis
    by (simp add: view_update_def same_data_def)
qed

abbreviation user_rw :: page_flags where
  "user_rw \<equiv> PG_PRESENT OR PG_WRITABLE OR PG_USER"

lemma user_rw_present: "pte_present user_rw"
  by code_simp

lemma map_page_succeeds:
  assumes "vm_inv R D s" and "r \<in> R" and "r \<noteq> 0" and "is_page_aligned v" and "is_page_aligned p"
    and "vm_view s r v = None" and "3 \<le> card (free_addrs s)"
  shows "map_page_in_pml4 r v p f s = (Inr (), snd (map_page_in_pml4 r v p f s))"
proof -
  obtain x s' where m: "map_page_internal r v p f s = (x, s')" by fastforce
  from map_page_internal_spec [OF assms(1,2) m] assms(4-7) have "x = Inr ()" by (cases x) auto
  with m assms(3-5) show ?thesis by (simp add: map_page_in_pml4_def)
qed

lemma vm_example_card: "card (free_addrs vm_example) = 13"
proof -
  have "inj_on page_to_addr {3 ..< 16}" by (intro inj_onI) (simp add: page_to_addr_inj)
  then show ?thesis by (simp add: free_addrs_def vm_example_free card_image)
qed

lemma vm_example_view: "vm_view vm_example r v = None"
  by (simp add: vm_view_def pt_entry_zero vm_example_def)

lemma vm_example_maps:
  "map_page_in_pml4 0x1000 0x400000 0x8000 f vm_example = (Inr (), snd (map_page_in_pml4 0x1000 0x400000 0x8000 f vm_example))"
  by (rule map_page_succeeds [OF vm_example_inv]) (simp_all add: vm_example_card vm_example_view is_page_aligned_def)

theorem map_page_isolated_witness:
  "vm_view (snd (map_page_in_pml4 0x1000 0x400000 0x8000 user_rw vm_example)) 0x1000 0x400000 = Some (pte_set 0x8000 user_rw)
   \<and> vm_view (snd (map_page_in_pml4 0x1000 0x400000 0x8000 user_rw vm_example)) 0x2000 0x400000 = vm_view vm_example 0x2000 0x400000"
proof -
  have "\<not> kernel_half 0x400000" "same_page 0x400000 0x400000" by code_simp+
  with map_page_isolated [OF vm_example_inv _ user_rw_present vm_example_maps] show ?thesis by auto
qed

text \<open>
  A mapping that fails changes no address space: every view is as before, and the error
  says which precondition failed: an unaligned address, a root of zero, a page that is
  already mapped, or fewer than the three free pages that the missing tables may take.
\<close>

lemma map_page_error_harmless:
  assumes "vm_inv R D s" and "r \<in> R" and "map_page_in_pml4 r v p f s = (Inl e, s')"
  shows "vm_inv R D s' \<and> (\<forall>r' \<in> R. \<forall>w. vm_view s' r' w = vm_view s r' w)
    \<and> (e = VmUnaligned \<and> \<not> (is_page_aligned v \<and> is_page_aligned p) \<or> e = VmNotInitialized \<and> r = 0
       \<or> e = VmAlreadyMapped \<and> vm_view s r v \<noteq> None \<or> e = VmOutOfMemory \<and> vm_view s r v = None \<and> card (free_addrs s) \<le> 2)"
proof -
  consider (unaligned) "\<not> (is_page_aligned v \<and> is_page_aligned p)" "e = VmUnaligned" "s' = s"
    | (zero) "r = 0" "e = VmNotInitialized" "s' = s" | (internal) "map_page_internal r v p f s = (Inl e, s')"
    using assms(3) unfolding map_page_in_pml4_def by (metis Inl_inject prod.inject)
  then show ?thesis
  proof cases
    case internal
    note sp = map_page_internal_spec [OF assms(1,2) this, simplified]
    from sp have "vm_inv R D s' \<and> (\<forall>r' \<in> R. \<forall>w. vm_view s' r' w = vm_view s r' w)" by (simp add: same_views_def)
    moreover from sp have "e = VmUnaligned \<and> \<not> (is_page_aligned v \<and> is_page_aligned p)
       \<or> e = VmAlreadyMapped \<and> vm_view s r v \<noteq> None \<or> e = VmOutOfMemory \<and> vm_view s r v = None \<and> card (free_addrs s) \<le> 2"
      by blast
    ultimately show ?thesis by blast
  next
    case unaligned
    with assms(1) show ?thesis by simp
  next
    case zero
    with assms(1) show ?thesis by simp
  qed
qed

text \<open>
  Unmapping undoes mapping: after a successful mapping of a user page, unmapping it
  succeeds, and every address space has the view it had before.
\<close>

lemma map_unmap_restores:
  assumes "vm_inv R D s" and "r \<in> R" and "pte_present f" and "user_page v"
    and "map_page_in_pml4 r v p f s = (Inr (), s1)"
  shows "\<exists>s2. unmap_page_in_pml4 r v s1 = (Inr (), s2) \<and> vm_inv R D s2
    \<and> (\<forall>r' \<in> R. \<forall>w. vm_view s2 r' w = vm_view s r' w)"
proof -
  have r: "r \<noteq> 0" and al: "is_page_aligned v" using assms(4,5) by (auto simp: map_page_in_pml4_def user_page_def split: if_splits)
  have "map_page_internal r v p f s = (Inr (), s1)" using assms(5) by (auto simp: map_page_in_pml4_def split: if_splits)
  from map_page_internal_spec [OF assms(1,2) this] assms(3)
  have m: "vm_inv R D s1" "vm_view s r v = None" "view_update R r v (Some (pte_set p f)) s s1" by auto
  then have "vm_view s1 r v \<noteq> None" by (simp add: view_update_def same_page_def)
  with unmap_page_in_pml4_spec [OF m(1) assms(2) r al] obtain s2
    where s2: "unmap_page_in_pml4 r v s1 = (Inr (), s2)" "vm_inv R D s2" "view_update R r v None s1 s2" by auto
  have "vm_view s2 r' w = vm_view s r' w" if "r' \<in> R" for r' w
  proof (cases "r' = r")
    case True
    have "vm_view s r w = None" if "same_page v w" using that m(2) by (simp add: same_page_def vm_view_def)
    with m(3) s2(3) True show ?thesis by (simp add: view_update_def)
  next
    case False
    with that m(3) s2(3) user_page_canonical [OF assms(4)] show ?thesis by (simp add: view_update_def)
  qed
  with s2 show ?thesis by blast
qed

text \<open>
  A cloned root shares exactly the kernel: after \<open>clone_kernel_mappings\<close> into a fresh page
  the new address space maps no user page and sees in the kernel half what the active one
  sees, and the existing address spaces are unchanged.
\<close>

lemma clone_shares_kernel_half:
  assumes "vm_inv R D s" and "vm_active_pml4 s \<in> R" and "vm_active_pml4 s \<noteq> 0" and "dst \<in> D"
  shows "\<exists>s'. clone_kernel_mappings dst s = (Inr (), s') \<and> vm_inv (insert dst R) (D - {dst}) s'
    \<and> (\<forall>r \<in> R. \<forall>v. vm_view s' r v = vm_view s r v)
    \<and> (\<forall>v. vm_view s' dst v = (if kernel_half v then vm_view s (vm_active_pml4 s) v else None))"
  using clone_new_root [OF assms] by (auto simp: same_views_def)

text \<open>
  Flags are not masked: address bits among the flags reach the entry and change the page
  that is mapped.
\<close>

lemma flags_corrupt_address: "pte_addr (pte_set 0x8000 (user_rw OR 0x10000)) = 0x18000"
  by code_simp

text \<open>
  \<open>unmap_page_in_pml4\<close> executes no \<open>invlpg\<close>: a translation cached for the active address
  space stays usable after the unmapping.
\<close>

lemma unmap_without_invalidation:
  assumes "vm_inv R D s" and "r \<in> R" and "r \<noteq> 0" and "is_page_aligned v" and "vm_view s r v \<noteq> None"
  shows "vm_invalidated (snd (unmap_page_in_pml4 r v s)) = vm_invalidated s"
  using unmap_page_in_pml4_spec [OF assms(1-4)] assms(5) by auto

end
