(* ===== verification/Addr_Space.thy ===== *)
theory Addr_Space
  imports Vm_Spaces BTree_Map
begin

text \<open>
  Address spaces, \<^verbatim>\<open>kernel/src/mm/addrspace.rs\<close>: creation with a clone of the kernel half,
  destruction, and mapping, unmapping and remapping of regions of user pages with the
  checks of the manager. The loops over pages are those of \<^verbatim>\<open>Page_Mapper\<close>.
\<close>

section \<open>State\<close>

type_synonym addrspace_id = u64

definition KERNEL_BASE :: usize where "KERNEL_BASE = 0xFFFF800000000000"
definition USER_CANONICAL_MAX :: usize where "USER_CANONICAL_MAX = 0x00007FFFFFFFFFFF"
definition MAX_REGION_SIZE :: usize where "MAX_REGION_SIZE = 256 * 1024 * 1024"

datatype addrspace_error =
    AsNotFound | AsOutOfMemory | AsPermissionDenied | AsInvalidAddress | AsInvalidSize
  | AsKernelSpaceViolation | AsInUse | AsAlreadyMapped | AsNotMapped | AsKernelMappingSetupFailed

record address_space =
  as_id :: addrspace_id
  as_pml4_phys :: usize
  as_owner :: u64
  as_mapping_count :: usize

record as_sys = vmm +
  as_spaces :: "(addrspace_id, address_space) btree"
  as_next_id :: u64

definition as_is_owned_by :: "address_space \<Rightarrow> u64 \<Rightarrow> bool" where
  "as_is_owned_by a t \<longleftrightarrow> as_owner a = t"

definition inc_mappings :: "usize \<Rightarrow> address_space \<Rightarrow> address_space" where
  "inc_mappings count a = a\<lparr>as_mapping_count := saturating_add (as_mapping_count a) count\<rparr>"

definition dec_mappings :: "usize \<Rightarrow> address_space \<Rightarrow> address_space" where
  "dec_mappings count a = a\<lparr>as_mapping_count := saturating_sub (as_mapping_count a) count\<rparr>"

section \<open>Operations\<close>

text \<open>\<open>AddressSpace::new\<close>; the identifier is taken from a static counter at the end.\<close>

definition address_space_new :: "u64 \<Rightarrow> 'a as_sys_scheme \<Rightarrow> (addrspace_error + address_space) \<times> 'a as_sys_scheme" where
  "address_space_new owner s =
     (case alloc_page_zeroed s of
        (None, s1) \<Rightarrow> (Inl AsOutOfMemory, s1)
      | (Some pml4_phys, s1) \<Rightarrow>
          (case clone_kernel_mappings pml4_phys s1 of
             (Inl _, s2) \<Rightarrow> (Inl AsKernelMappingSetupFailed, free_page pml4_phys s2)
           | (Inr _, s2) \<Rightarrow>
               (Inr \<lparr>as_id = as_next_id s2, as_pml4_phys = pml4_phys, as_owner = owner, as_mapping_count = 0\<rparr>,
                s2\<lparr>as_next_id := as_next_id s2 + 1\<rparr>)))"

definition create_address_space :: "u64 \<Rightarrow> 'a as_sys_scheme \<Rightarrow> (addrspace_error + addrspace_id) \<times> 'a as_sys_scheme" where
  "create_address_space owner s =
     (case address_space_new owner s of
        (Inl e, s1) \<Rightarrow> (Inl e, s1)
      | (Inr a, s1) \<Rightarrow> (Inr (as_id a), s1\<lparr>as_spaces := bt_insert (as_id a) a (as_spaces s1)\<rparr>))"

text \<open>Removing the entry drops the address space, which frees its root table.\<close>

definition destroy_address_space ::
  "addrspace_id \<Rightarrow> u64 \<Rightarrow> 'a as_sys_scheme \<Rightarrow> (addrspace_error + unit) \<times> 'a as_sys_scheme" where
  "destroy_address_space i caller s =
     (case bt_get (as_spaces s) i of
        None \<Rightarrow> (Inl AsNotFound, s)
      | Some a \<Rightarrow>
          if \<not> as_is_owned_by a caller then (Inl AsPermissionDenied, s)
          else if as_mapping_count a > 0 then (Inl AsInUse, s)
          else (Inr (), free_page (as_pml4_phys a) (s\<lparr>as_spaces := bt_remove i (as_spaces s)\<rparr>)))"

definition region_virt :: "usize \<Rightarrow> nat \<Rightarrow> usize list" where
  "region_virt base n = map (\<lambda>i. base + of_nat i * PAGE_SIZE) [0 ..< n]"

definition region_pages :: "usize \<Rightarrow> usize \<Rightarrow> nat \<Rightarrow> (usize \<times> usize) list" where
  "region_pages virt phys n = zip (region_virt virt n) (region_virt phys n)"

definition num_pages :: "usize \<Rightarrow> nat" where
  "num_pages sz = unat (align_up sz div PAGE_SIZE)"

text \<open>The checks on a user range that mapping and unmapping share, in the order of \<open>map_region\<close>.\<close>

definition check_user_range :: "usize \<Rightarrow> usize \<Rightarrow> addrspace_error option" where
  "check_user_range virt_addr sz =
     (let region_end = saturating_add virt_addr sz in
      if region_end > USER_CANONICAL_MAX then Some AsInvalidSize
      else if region_end > KERNEL_BASE then Some AsKernelSpaceViolation
      else None)"

definition map_region ::
  "addrspace_id \<Rightarrow> u64 \<Rightarrow> usize \<Rightarrow> usize \<Rightarrow> usize \<Rightarrow> page_flags \<Rightarrow> 'a as_sys_scheme \<Rightarrow> (addrspace_error + unit) \<times> 'a as_sys_scheme" where
  "map_region i caller virt_addr phys_addr sz flags s =
     (if \<not> is_page_aligned virt_addr \<or> \<not> is_page_aligned phys_addr then (Inl AsInvalidAddress, s)
      else if sz = 0 then (Inl AsInvalidSize, s)
      else if sz > MAX_REGION_SIZE then (Inl AsInvalidSize, s)
      else if virt_addr > USER_CANONICAL_MAX then (Inl AsInvalidAddress, s)
      else if virt_addr \<ge> KERNEL_BASE then (Inl AsKernelSpaceViolation, s)
      else
        (case check_user_range virt_addr sz of
           Some e \<Rightarrow> (Inl e, s)
         | None \<Rightarrow>
             (case bt_get (as_spaces s) i of
                None \<Rightarrow> (Inl AsNotFound, s)
              | Some a \<Rightarrow>
                  if \<not> as_is_owned_by a caller then (Inl AsPermissionDenied, s)
                  else
                    (case map_run (\<lambda>v p. map_page_in_pml4 (as_pml4_phys a) v p flags) (unmap_page_in_pml4 (as_pml4_phys a))
                            (region_pages virt_addr phys_addr (num_pages sz)) [] s of
                       (Inl (e, mapped, rolled_back), s1) \<Rightarrow>
                         let remaining = mapped - rolled_back in
                         (Inl AsAlreadyMapped,
                          if remaining > 0
                          then s1\<lparr>as_spaces := bt_insert i (inc_mappings (of_nat remaining) a) (as_spaces s1)\<rparr> else s1)
                     | (Inr _, s1) \<Rightarrow>
                         (Inr (), s1\<lparr>as_spaces := bt_insert i (inc_mappings (of_nat (num_pages sz)) a) (as_spaces s1)\<rparr>)))))"

definition unmap_region ::
  "addrspace_id \<Rightarrow> u64 \<Rightarrow> usize \<Rightarrow> usize \<Rightarrow> 'a as_sys_scheme \<Rightarrow> (addrspace_error + unit) \<times> 'a as_sys_scheme" where
  "unmap_region i caller virt_addr sz s =
     (if \<not> is_page_aligned virt_addr then (Inl AsInvalidAddress, s)
      else if virt_addr > USER_CANONICAL_MAX then (Inl AsInvalidAddress, s)
      else if sz = 0 then (Inl AsInvalidSize, s)
      else if virt_addr \<ge> KERNEL_BASE then (Inl AsKernelSpaceViolation, s)
      else
        (case check_user_range virt_addr sz of
           Some e \<Rightarrow> (Inl e, s)
         | None \<Rightarrow>
             (case bt_get (as_spaces s) i of
                None \<Rightarrow> (Inl AsNotFound, s)
              | Some a \<Rightarrow>
                  if \<not> as_is_owned_by a caller then (Inl AsPermissionDenied, s)
                  else
                    let (_, s1) = unmap_run (unmap_page_in_pml4 (as_pml4_phys a)) (region_virt virt_addr (num_pages sz)) s
                    in (Inr (), s1\<lparr>as_spaces := bt_insert i (dec_mappings (of_nat (num_pages sz)) a) (as_spaces s1)\<rparr>))))"

text \<open>The three loops of \<open>remap_region\<close>: query every old page, unmap them, map the new ones.\<close>

fun query_run :: "usize \<Rightarrow> usize list \<Rightarrow> 'a vmm_scheme \<Rightarrow> (usize \<times> page_flags) list option" where
  "query_run pml4 [] s = Some []"
| "query_run pml4 (v # vs) s =
     (case fst (query_mapping_in_pml4 pml4 v s) of
        Inl _ \<Rightarrow> None
      | Inr m \<Rightarrow> map_option (Cons m) (query_run pml4 vs s))"

fun remap_run :: "usize \<Rightarrow> (usize \<times> usize \<times> page_flags) list \<Rightarrow> 'a vmm_scheme \<Rightarrow> bool \<times> 'a vmm_scheme" where
  "remap_run pml4 [] s = (True, s)"
| "remap_run pml4 ((v, p, f) # rest) s =
     (case map_page_in_pml4 pml4 v p f s of
        (Inl _, s1) \<Rightarrow> (False, s1)
      | (Inr _, s1) \<Rightarrow> remap_run pml4 rest s1)"

definition remap_region ::
  "addrspace_id \<Rightarrow> u64 \<Rightarrow> usize \<Rightarrow> usize \<Rightarrow> usize \<Rightarrow> 'a as_sys_scheme \<Rightarrow> (addrspace_error + unit) \<times> 'a as_sys_scheme" where
  "remap_region i caller old_virt new_virt sz s =
     (if \<not> is_page_aligned old_virt \<or> \<not> is_page_aligned new_virt then (Inl AsInvalidAddress, s)
      else if sz = 0 then (Inl AsInvalidSize, s)
      else if new_virt \<ge> KERNEL_BASE \<or> saturating_add new_virt sz > KERNEL_BASE then (Inl AsKernelSpaceViolation, s)
      else
        (case bt_get (as_spaces s) i of
           None \<Rightarrow> (Inl AsNotFound, s)
         | Some a \<Rightarrow>
             if \<not> as_is_owned_by a caller then (Inl AsPermissionDenied, s)
             else
               let pml4 = as_pml4_phys a; n = num_pages sz in
               (case query_run pml4 (region_virt old_virt n) s of
                  None \<Rightarrow> (Inl AsNotMapped, s)
                | Some mappings \<Rightarrow>
                    let (_, s1) = unmap_run (unmap_page_in_pml4 pml4) (region_virt old_virt n) s;
                        (done, s2) = remap_run pml4 (zip (region_virt new_virt n) mappings) s1
                    in if done then (Inr (), s2) else (Inl AsAlreadyMapped, s2))))"

definition pml4_of :: "addrspace_id \<Rightarrow> 'a as_sys_scheme \<Rightarrow> usize option" where
  "pml4_of i s = map_option as_pml4_phys (bt_get (as_spaces s) i)"

section \<open>The pages of a checked range\<close>

lemma length_region_virt [simp]: "length (region_virt v n) = n"
  by (simp add: region_virt_def)

lemma region_pages_fst [simp]: "map fst (region_pages v p n) = region_virt v n"
  by (simp add: region_pages_def)

lemma num_pages_small:
  assumes "unat sz < 2 ^ 47"
  shows "num_pages sz = (unat sz + 4095) div 4096"
proof -
  have "unat (align_up sz) = (unat sz + 4095) div 4096 * 4096" by (rule unat_align_up) (use assms in simp)
  then show ?thesis by (simp add: num_pages_def unat_div)
qed

lemma checked_range:
  assumes "check_user_range v sz = None"
  shows "unat v + unat sz < 2 ^ 47"
proof -
  have "unat (saturating_add v sz) \<le> unat USER_CANONICAL_MAX"
    using assms by (auto simp: check_user_range_def Let_def word_le_nat_alt not_less split: if_splits)
  then show ?thesis unfolding unat_saturating_add by (simp add: USER_CANONICAL_MAX_def)
qed

lemma page_of_range:
  assumes r: "unat v + unat sz < 2 ^ 47" and i: "i < num_pages sz"
  shows "unat (v + of_nat i * PAGE_SIZE) = unat v + i * 4096 \<and> unat v + i * 4096 < 2 ^ 47"
proof -
  have "num_pages sz = (unat sz + 4095) div 4096" by (rule num_pages_small) (use r in simp)
  with i have "i * 4096 < unat sz" by linarith
  moreover from this r have "unat (of_nat i * PAGE_SIZE :: u64) = i * 4096"
    by (simp add: unat_word_ariths unat_of_nat)
  ultimately show ?thesis using r by (simp add: unat_word_ariths)
qed

lemma region_virt_user:
  assumes "check_user_range v sz = None" and "is_page_aligned v"
  shows "distinct (region_virt v (num_pages sz))" and "\<forall>w \<in> set (region_virt v (num_pages sz)). user_page w"
proof -
  note r = checked_range [OF assms(1)]
  have "inj_on (\<lambda>i. v + of_nat i * PAGE_SIZE) {0 ..< num_pages sz}"
  proof (rule inj_onI)
    fix i j assume a: "i \<in> {0 ..< num_pages sz}" "j \<in> {0 ..< num_pages sz}" "v + of_nat i * PAGE_SIZE = v + of_nat j * PAGE_SIZE"
    then have "unat (v + of_nat i * PAGE_SIZE) = unat (v + of_nat j * PAGE_SIZE)" by (simp only:)
    with page_of_range [OF r, of i] page_of_range [OF r, of j] a(1,2) show "i = j" by simp
  qed
  then show "distinct (region_virt v (num_pages sz))" by (simp add: region_virt_def distinct_map)
  have "unat v mod 4096 = 0" using assms(2) by (simp add: is_page_aligned_def unat_eq_zero [symmetric] unat_mod)
  then have "is_page_aligned (v + of_nat i * PAGE_SIZE) \<and> v + of_nat i * PAGE_SIZE < 2 ^ 47" if "i < num_pages sz" for i
    using page_of_range [OF r that]
    by (simp add: is_page_aligned_def unat_eq_zero [symmetric] unat_mod word_less_nat_alt mod_add_eq [symmetric])
  then show "\<forall>w \<in> set (region_virt v (num_pages sz)). user_page w" by (auto simp: region_virt_def user_page_def)
qed

section \<open>Invariant\<close>

text \<open>
  Every registered address space has a root table of its own, different from the active
  one. Page zero is not available, as a root at address zero stands for an uninitialised
  manager.
\<close>

definition as_inv :: "usize set \<Rightarrow> usize set \<Rightarrow> 'a as_sys_scheme \<Rightarrow> bool" where
  "as_inv R D s \<longleftrightarrow> vm_inv R D s \<and> 0 \<in> D \<and> vm_active_pml4 s \<in> R \<and> registry_ok as_id (as_next_id s) (as_spaces s)
     \<and> (\<forall>i a. bt_get (as_spaces s) i = Some a \<longrightarrow> as_pml4_phys a \<in> R - {vm_active_pml4 s})
     \<and> (\<forall>i j a b. bt_get (as_spaces s) i = Some a \<longrightarrow> bt_get (as_spaces s) j = Some b \<longrightarrow>
          as_pml4_phys a = as_pml4_phys b \<longrightarrow> i = j)"

lemma root_not_data: "vm_inv R D s \<Longrightarrow> r \<in> R \<Longrightarrow> r \<notin> D"
  by (auto simp: vm_inv_def roots_ok_def dom_def)

lemma as_inv_root:
  assumes "as_inv R D s" and "bt_get (as_spaces s) i = Some a"
  shows "as_pml4_phys a \<in> R" and "as_pml4_phys a \<noteq> 0"
proof -
  from assms show r: "as_pml4_phys a \<in> R" by (auto simp: as_inv_def)
  from assms(1) have "vm_inv R D s" "0 \<in> D" by (simp_all add: as_inv_def)
  with root_not_data [OF this(1) r] show "as_pml4_phys a \<noteq> 0" by metis
qed

lemma as_fields_frame [simp]:
  "vm_inv R D (s\<lparr>as_spaces := x\<rparr>) = vm_inv R D s" "vm_view (s\<lparr>as_spaces := x\<rparr>) = vm_view s"
  "vm_inv R D (s\<lparr>as_next_id := n\<rparr>) = vm_inv R D s" "vm_view (s\<lparr>as_next_id := n\<rparr>) = vm_view s"
  by (simp_all add: vm_inv_def vm_ok_def vm_view_def fun_eq_iff pmm_inv_def free_addrs_def managed_addrs_def free_set_def
      is_page_free_def)

lemma as_fields_more: "vmm.more s' = vmm.more s \<Longrightarrow> as_spaces s' = as_spaces s \<and> as_next_id s' = as_next_id s"
  by (cases s; cases s') simp

lemma as_inv_vm:
  assumes "as_inv R D s" and "vm_inv R D s'" and "vm_active_pml4 s' = vm_active_pml4 s" and "vmm.more s' = vmm.more s"
  shows "as_inv R D s'"
  using assms as_fields_more [OF assms(4)] by (simp add: as_inv_def)

lemma as_inv_set:
  assumes "as_inv R D s" and "bt_get (as_spaces s) i = Some a" and "as_id b = as_id a" and "as_pml4_phys b = as_pml4_phys a"
  shows "as_inv R D (s\<lparr>as_spaces := bt_insert i b (as_spaces s)\<rparr>)"
proof -
  have reg: "registry_ok as_id (as_next_id s) (as_spaces s)" using assms(1) by (simp add: as_inv_def)
  from registry_get [OF reg assms(2)] assms(3) have "as_id b = i" "i < as_next_id s" by auto
  with registry_insert [OF reg this] assms(1,2,4) show ?thesis by (auto simp: as_inv_def split: if_splits)
qed

lemma count_frame [simp]:
  "as_id (inc_mappings n a) = as_id a" "as_pml4_phys (inc_mappings n a) = as_pml4_phys a" "as_owner (inc_mappings n a) = as_owner a"
  "as_id (dec_mappings n a) = as_id a" "as_pml4_phys (dec_mappings n a) = as_pml4_phys a" "as_owner (dec_mappings n a) = as_owner a"
  by (simp_all add: inc_mappings_def dec_mappings_def)

lemma other_viewsD:
  assumes "other_views R r D s' = other_views R r D s"
  shows "\<forall>r' \<in> R - {r}. \<forall>w. vm_view s' r' w = vm_view s r' w" and "\<forall>a \<in> D. ram_mem s' a = ram_mem s a"
    and "vm_active_pml4 s' = vm_active_pml4 s"
proof -
  from assms have e: "\<And>r' w. fst (other_views R r D s') r' w = fst (other_views R r D s) r' w"
    "\<And>a. fst (snd (other_views R r D s')) a = fst (snd (other_views R r D s)) a"
    "snd (snd (other_views R r D s')) = snd (snd (other_views R r D s))" by simp_all
  show "\<forall>r' \<in> R - {r}. \<forall>w. vm_view s' r' w = vm_view s r' w"
  proof (intro ballI allI)
    fix r' w assume "r' \<in> R - {r}" with e(1) [of r' w] show "vm_view s' r' w = vm_view s r' w" by (simp add: other_views_def)
  qed
  show "\<forall>a \<in> D. ram_mem s' a = ram_mem s a"
  proof
    fix a assume "a \<in> D" with e(2) [of a] show "ram_mem s' a = ram_mem s a" by (simp add: other_views_def)
  qed
  show "vm_active_pml4 s' = vm_active_pml4 s" using e(3) by (simp add: other_views_def)
qed

section \<open>Mapping and unmapping regions\<close>

abbreviation region_entries :: "usize \<Rightarrow> usize \<Rightarrow> nat \<Rightarrow> page_flags \<Rightarrow> usize \<Rightarrow> u64 option" where
  "region_entries v p n f \<equiv> map_of (map (\<lambda>(v, p). (v, pte_set p f)) (region_pages v p n))"

lemma user_view_as_spaces [simp]: "user_view r (s\<lparr>as_spaces := x\<rparr>) = user_view r s"
  by (simp add: user_view_def fun_eq_iff)

lemma map_region_run:
  assumes inv: "as_inv R D s" and a: "bt_get (as_spaces s) i = Some a" and f: "pte_present f"
    and c: "check_user_range v sz = None" "is_page_aligned v"
    and run: "map_run (\<lambda>v p. map_page_in_pml4 (as_pml4_phys a) v p f) (unmap_page_in_pml4 (as_pml4_phys a))
      (region_pages v p (num_pages sz)) [] s = (x, s1)"
  shows "as_inv R D s1 \<and> as_spaces s1 = as_spaces s
    \<and> (\<forall>r \<in> R - {as_pml4_phys a}. \<forall>w. vm_view s1 r w = vm_view s r w) \<and> (\<forall>d \<in> D. ram_mem s1 d = ram_mem s d)
    \<and> (case x of
        Inl (e, m, n) \<Rightarrow> n = m \<and> user_view (as_pml4_phys a) s1 = user_view (as_pml4_phys a) s
      | Inr _ \<Rightarrow> (\<forall>w \<in> set (region_virt v (num_pages sz)). user_view (as_pml4_phys a) s w = None)
          \<and> user_view (as_pml4_phys a) s1 = user_view (as_pml4_phys a) s ++ region_entries v p (num_pages sz) f)"
proof -
  let ?r = "as_pml4_phys a"
  have sp: "space_ok R ?r D f s" using inv as_inv_root [OF inv a] f by (simp add: space_ok_def as_inv_def)
  have vs: "\<forall>w \<in> set (map fst (region_pages v p (num_pages sz))). user_page w" "distinct (map fst (region_pages v p (num_pages sz)))"
    using region_virt_user [OF c] by simp_all
  note m = space_mapper.map_run_all_or_nothing [OF sp vs run]
  then have inv1: "vm_inv R D s1" and ov: "other_views R ?r D s1 = other_views R ?r D s" by (simp_all add: space_ok_def)
  have more: "vmm.more s1 = vmm.more s"
    using map_run_keeps [where g = vmm.more and mp = "\<lambda>v p. map_page_in_pml4 ?r v p f" and unmap = "unmap_page_in_pml4 ?r"
        and vps = "region_pages v p (num_pages sz)" and mapped = "[]" and s = s] run
    by (simp add: map_page_more unmap_page_more)
  have i1: "as_inv R D s1" by (rule as_inv_vm [OF inv inv1 other_viewsD(3) [OF ov] more])
  from m have "case x of Inl (e, m, n) \<Rightarrow> n = m \<and> user_view ?r s1 = user_view ?r s
      | Inr _ \<Rightarrow> (\<forall>w \<in> set (region_virt v (num_pages sz)). user_view ?r s w = None)
          \<and> user_view ?r s1 = user_view ?r s ++ region_entries v p (num_pages sz) f"
    by (simp split: sum.splits prod.splits)
  with i1 other_viewsD(1,2) [OF ov] as_fields_more [OF more] show ?thesis by simp
qed

lemma unmap_region_run:
  assumes inv: "as_inv R D s" and a: "bt_get (as_spaces s) i = Some a"
    and c: "check_user_range v sz = None" "is_page_aligned v"
    and run: "unmap_run (unmap_page_in_pml4 (as_pml4_phys a)) (region_virt v (num_pages sz)) s = (n, s1)"
  shows "as_inv R D s1 \<and> as_spaces s1 = as_spaces s
    \<and> (\<forall>r \<in> R - {as_pml4_phys a}. \<forall>w. vm_view s1 r w = vm_view s r w) \<and> (\<forall>d \<in> D. ram_mem s1 d = ram_mem s d)
    \<and> user_view (as_pml4_phys a) s1 = (\<lambda>w. if w \<in> set (region_virt v (num_pages sz)) then None else user_view (as_pml4_phys a) s w)"
proof -
  let ?r = "as_pml4_phys a"
  have sp: "space_ok R ?r D PG_PRESENT s"
    using inv as_inv_root [OF inv a] by (simp add: space_ok_def as_inv_def pte_present_def PG_PRESENT_def)
  note m = space_mapper.unmap_run_view [OF sp region_virt_user(2) [OF c] run]
  then have inv1: "vm_inv R D s1" and ov: "other_views R ?r D s1 = other_views R ?r D s" by (simp_all add: space_ok_def)
  have more: "vmm.more s1 = vmm.more s"
    using unmap_run_keeps [where g = vmm.more and unmap = "unmap_page_in_pml4 ?r" and vs = "region_virt v (num_pages sz)" and s = s] run
    by (simp add: unmap_page_more)
  have "as_inv R D s1" by (rule as_inv_vm [OF inv inv1 other_viewsD(3) [OF ov] more])
  with m other_viewsD(1,2) [OF ov] as_fields_more [OF more] show ?thesis by simp
qed

lemma map_region_spec:
  assumes "as_inv R D s" and "bt_get (as_spaces s) i = Some a" and "pte_present f"
    and "map_region i caller v p sz f s = (x, s')"
  shows "as_inv R D s' \<and> (\<forall>r \<in> R - {as_pml4_phys a}. \<forall>w. vm_view s' r w = vm_view s r w)
    \<and> (\<forall>d \<in> D. ram_mem s' d = ram_mem s d)
    \<and> (case x of
        Inl e \<Rightarrow> user_view (as_pml4_phys a) s' = user_view (as_pml4_phys a) s \<and> as_spaces s' = as_spaces s
      | Inr _ \<Rightarrow> as_owner a = caller \<and> (\<forall>w \<in> set (region_virt v (num_pages sz)). user_view (as_pml4_phys a) s w = None)
          \<and> user_view (as_pml4_phys a) s' = user_view (as_pml4_phys a) s ++ region_entries v p (num_pages sz) f
          \<and> as_spaces s' = bt_insert i (inc_mappings (of_nat (num_pages sz)) a) (as_spaces s))"
proof (cases "s' = s \<and> isl x")
  case True
  with assms(1) show ?thesis by (cases x) auto
next
  case False
  then have c: "check_user_range v sz = None" "is_page_aligned v" "as_is_owned_by a caller"
    using assms(2,4) by (auto simp: map_region_def split: if_splits option.splits)
  obtain y s1 where run: "map_run (\<lambda>v p. map_page_in_pml4 (as_pml4_phys a) v p f) (unmap_page_in_pml4 (as_pml4_phys a))
      (region_pages v p (num_pages sz)) [] s = (y, s1)" by fastforce
  note m = map_region_run [OF assms(1-3) c(1,2) run]
  show ?thesis
  proof (cases y)
    case (Inl emn)
    obtain e k n where emn: "emn = (e, k, n)" by (cases emn)
    from m Inl emn have "n = k" by simp
    with False assms(2,4) run c Inl emn have "s' = s1" "isl x" by (auto simp: map_region_def split: if_splits)
    with m Inl emn show ?thesis by (cases x) auto
  next
    case (Inr u)
    with False assms(2,4) run c have s': "x = Inr ()"
      "s' = s1\<lparr>as_spaces := bt_insert i (inc_mappings (of_nat (num_pages sz)) a) (as_spaces s1)\<rparr>"
      by (auto simp: map_region_def split: if_splits)
    from m assms(2) have "as_inv R D s'" unfolding s'(2) by (intro as_inv_set [where a = a]) simp_all
    with m Inr s' c(3) show ?thesis by (simp add: as_is_owned_by_def)
  qed
qed

text \<open>
  C24. Mapping a region is all or nothing and isolated: on success the caller owns the address
  space, no page of the region was mapped, and its user half maps in addition exactly the pages
  of the region, counted in the mapping count; on an error neither its user half nor the
  registry changes. No other address space and no data page changes, and the invariant holds.
\<close>

theorem map_region_all_or_nothing:
  assumes "as_inv R D s" and "bt_get (as_spaces s) i = Some a" and "pte_present f"
    and "map_region i caller v p sz f s = (x, s')"
  shows "as_inv R D s' \<and> (\<forall>r \<in> R - {as_pml4_phys a}. \<forall>w. vm_view s' r w = vm_view s r w)
    \<and> (\<forall>d \<in> D. ram_mem s' d = ram_mem s d)
    \<and> (case x of
        Inl e \<Rightarrow> user_view (as_pml4_phys a) s' = user_view (as_pml4_phys a) s \<and> as_spaces s' = as_spaces s
      | Inr _ \<Rightarrow> as_owner a = caller \<and> (\<forall>w \<in> set (region_virt v (num_pages sz)). user_view (as_pml4_phys a) s w = None)
          \<and> user_view (as_pml4_phys a) s' = user_view (as_pml4_phys a) s ++ region_entries v p (num_pages sz) f
          \<and> as_spaces s' = bt_insert i (inc_mappings (of_nat (num_pages sz)) a) (as_spaces s))"
  by (rule map_region_spec [OF assms])

section \<open>An example with one registered address space\<close>

definition as_example :: as_sys where
  "as_example = vmm.extend vm_example
     \<lparr>as_spaces = bt_insert 1 \<lparr>as_id = 1, as_pml4_phys = 0x2000, as_owner = 7, as_mapping_count = 0\<rparr> bt_empty, as_next_id = 2\<rparr>"

lemma vm_example_page0: "vm_inv {0x1000, 0x2000} {0} vm_example"
proof -
  obtain K where K: "vm_ok K vm_example" "roots_ok {0x1000, 0x2000} K" "dom K = {0x1000, 0x2000}"
    using vm_example_tables by blast
  have "page_to_addr 0 \<in> managed_addrs vm_example - free_addrs vm_example" by (rule vm_example_low) simp
  then have "{0} \<subseteq> managed_addrs vm_example - free_addrs vm_example" by (simp add: page_to_addr_def)
  with K show ?thesis unfolding vm_inv_def by (intro exI [of _ K]) simp
qed

lemma as_example_fields [simp]:
  "as_spaces as_example = bt_insert 1 \<lparr>as_id = 1, as_pml4_phys = 0x2000, as_owner = 7, as_mapping_count = 0\<rparr> bt_empty"
  "as_next_id as_example = 2" "vm_active_pml4 as_example = 0x1000"
  by (simp_all add: as_example_def vmm.extend_def vm_example_def)

lemma as_example_frame:
  "vm_inv R D as_example = vm_inv R D vm_example" "vm_view as_example = vm_view vm_example" "free_addrs as_example = free_addrs vm_example"
  by (simp_all add: as_example_def vmm.extend_def vm_inv_def vm_ok_def vm_view_def fun_eq_iff pmm_inv_def free_addrs_def
      managed_addrs_def free_set_def is_page_free_def vm_example_def)

lemma as_example_inv: "as_inv {0x1000, 0x2000} {0} as_example"
  using registry_insert [OF registry_empty, of as_id "\<lparr>as_id = 1, as_pml4_phys = 0x2000, as_owner = 7, as_mapping_count = 0\<rparr>" 1 2]
  by (simp add: as_inv_def as_example_frame vm_example_page0)

theorem map_region_all_or_nothing_witness:
  "\<exists>x s'. map_region 1 7 0x400000 0x8000 0x1000 user_rw as_example = (x, s') \<and> as_inv {0x1000, 0x2000} {0} s'
    \<and> x = Inr () \<and> user_view 0x2000 s' 0x400000 = Some (pte_set 0x8000 user_rw)
    \<and> vm_view s' 0x1000 0x400000 = None"
proof -
  have np: "num_pages 0x1000 = 1" "check_user_range 0x400000 0x1000 = None" "is_page_aligned 0x400000" "is_page_aligned 0x8000"
    "\<not> (0x1000 > MAX_REGION_SIZE)" "\<not> (0x400000 > USER_CANONICAL_MAX)" "\<not> (0x400000 \<ge> KERNEL_BASE)" "user_page 0x400000"
    by code_simp+
  have rp: "region_pages 0x400000 0x8000 1 = [(0x400000, 0x8000)]" by code_simp
  obtain x s' where m: "map_region 1 7 0x400000 0x8000 0x1000 user_rw as_example = (x, s')" by fastforce
  have "vm_inv {0x1000, 0x2000} {0} as_example" by (simp add: as_example_frame vm_example_page0)
  from map_page_succeeds [OF this, of "0x2000" "0x400000" "0x8000" user_rw] np(3,4)
  obtain s1 where "map_page_in_pml4 0x2000 0x400000 0x8000 user_rw as_example = (Inr (), s1)"
    by (auto simp: as_example_frame vm_example_view vm_example_card)
  then have "x = Inr ()" using m np rp by (auto simp: map_region_def as_is_owned_by_def split: if_splits)
  with map_region_all_or_nothing [OF as_example_inv _ user_rw_present m] m np rp show ?thesis
    by (auto simp: as_example_frame vm_example_view)
qed

section \<open>Every operation keeps the invariant\<close>

lemma active_nonzero: "as_inv R D s \<Longrightarrow> vm_active_pml4 s \<noteq> 0"
  using root_not_data [of R D s "vm_active_pml4 s"] by (auto simp: as_inv_def)

text \<open>Unmapping and mapping any pages, not only user pages, keeps the tables well formed.\<close>

lemma unmap_keeps_inv:
  assumes "vm_inv R D s" and "r \<in> R" and "r \<noteq> 0"
  shows "vm_inv R D (snd (unmap_page_in_pml4 r v s)) \<and> same_data D s (snd (unmap_page_in_pml4 r v s))"
proof (cases "is_page_aligned v")
  case True
  from unmap_page_in_pml4_spec [OF assms this] assms(1) show ?thesis by auto
qed (simp add: unmap_page_in_pml4_def assms(1))

lemma unmap_run_inv:
  assumes "vm_inv R D s" and "r \<in> R" and "r \<noteq> 0"
  shows "vm_inv R D (snd (unmap_run (unmap_page_in_pml4 r) vs s)) \<and> same_data D s (snd (unmap_run (unmap_page_in_pml4 r) vs s))"
  by (rule unmap_run_preserves) (use unmap_keeps_inv [OF _ assms(2,3)] same_data_trans assms(1) in \<open>blast, simp\<close>)

lemma map_page_in_pml4_inv:
  assumes "vm_inv R D s" and "r \<in> R" and "map_page_in_pml4 r v p f s = (x, s1)"
  shows "vm_inv R D s1 \<and> same_data D s s1"
proof (cases "s1 = s")
  case False
  with assms(3) have "map_page_internal r v p f s = (x, s1)" by (auto simp: map_page_in_pml4_def split: if_splits)
  from map_page_internal_spec [OF assms(1,2) this] show ?thesis by blast
qed (simp add: assms(1))

lemma remap_run_inv:
  assumes "vm_inv R D s" and "r \<in> R"
  shows "vm_inv R D (snd (remap_run r vpfs s)) \<and> same_data D s (snd (remap_run r vpfs s)) \<and> vmm.more (snd (remap_run r vpfs s)) = vmm.more s"
  using assms(1)
proof (induction vpfs arbitrary: s)
  case (Cons vpf vpfs)
  obtain v p f where vpf: "vpf = (v, p, f)" by (cases vpf)
  obtain x s1 where m: "map_page_in_pml4 r v p f s = (x, s1)" by fastforce
  from map_page_in_pml4_inv [OF Cons.prems assms(2) m] have "vm_inv R D s1" "same_data D s s1" by simp_all
  moreover have "vmm.more s1 = vmm.more s" using map_page_more(2) [of r v p f s] m by simp
  ultimately show ?case using Cons.IH [of s1] m by (cases x) (auto simp: vpf intro: same_data_trans)
qed simp

lemma create_inv:
  assumes inv: "as_inv R D s" and id: "as_next_id s \<noteq> u64_max" and cr: "create_address_space owner s = (Inr i, s')"
  shows "\<exists>r. r \<notin> R \<and> as_inv (insert r R) D s' \<and> same_views R s s' \<and> pml4_of i s' = Some r
    \<and> (\<forall>v. vm_view s' r v = (if kernel_half v then vm_view s (vm_active_pml4 s) v else None))"
proof -
  have vi: "vm_inv R D s" and act: "vm_active_pml4 s \<in> R" and reg: "registry_ok as_id (as_next_id s) (as_spaces s)"
    using inv by (simp_all add: as_inv_def)
  obtain r s1 where al: "alloc_page_zeroed s = (Some r, s1)"
    using cr by (auto simp: create_address_space_def address_space_new_def split: prod.splits option.splits)
  from vm_inv_alloc [OF vi al] have v1: "vm_inv R (insert r D) s1" "r \<notin> D" "same_views R s s1" "same_data D s s1" by auto
  have a1: "vm_active_pml4 s1 = vm_active_pml4 s" using v1(4) by (simp add: same_data_def)
  from clone_new_root [OF v1(1), of r] act active_nonzero [OF inv] obtain s2
    where s2: "clone_kernel_mappings r s1 = (Inr (), s2)" "vm_inv (insert r R) (insert r D - {r}) s2" "same_views R s1 s2"
      "same_data (insert r D - {r}) s1 s2"
      and new: "\<And>v. vm_view s2 r v = (if kernel_half v then vm_view s1 (vm_active_pml4 s) v else None)"
    by (auto simp: a1)
  have D: "insert r D - {r} = D" using v1(2) by auto
  have "vmm.more s1 = vmm.more s" using alloc_page_zeroed_more [of s] al by simp
  moreover have "vmm.more s2 = vmm.more s1" using clone_more [of r s1] s2(1) by simp
  ultimately have f: "as_spaces s2 = as_spaces s" "as_next_id s2 = as_next_id s" using as_fields_more [of s2 s] by simp_all
  let ?a = "\<lparr>as_id = as_next_id s, as_pml4_phys = r, as_owner = owner, as_mapping_count = 0\<rparr>"
  have s': "i = as_next_id s" "s' = s2\<lparr>as_next_id := as_next_id s + 1, as_spaces := bt_insert (as_next_id s) ?a (as_spaces s)\<rparr>"
    using cr al s2(1) f by (auto simp: create_address_space_def address_space_new_def)
  have rR: "r \<notin> R" using root_not_data [OF v1(1), of r] by blast
  moreover have "vm_active_pml4 s2 = vm_active_pml4 s" using s2(4) a1 by (simp add: same_data_def)
  moreover have "as_pml4_phys b \<in> R" if "bt_get (as_spaces s) j = Some b" for j b using as_inv_root(1) [OF inv that] .
  moreover have "registry_ok as_id (as_next_id s + 1) (bt_insert (as_next_id s) ?a (as_spaces s))"
    by (rule registry_alloc [OF reg id]) simp
  ultimately have "as_inv (insert r R) D s'"
    using inv s2(2) act rR registry_fresh [OF reg] unfolding as_inv_def s' D by (auto split: if_splits)
  moreover have "same_views R s s'" using same_views_trans [OF v1(3) s2(3)] by (simp add: s' same_views_def)
  moreover have "vm_view s1 (vm_active_pml4 s) v = vm_view s (vm_active_pml4 s) v" for v
    using v1(3) act by (simp add: same_views_def)
  ultimately show ?thesis using rR new by (auto simp: s' pml4_of_def)
qed

lemma create_error:
  assumes inv: "as_inv R D s" and cr: "create_address_space owner s = (Inl e, s')"
  shows "e = AsOutOfMemory \<and> free_addrs s = {} \<and> s' = s"
proof (cases "alloc_page_zeroed s")
  case (Pair x s1)
  show ?thesis
  proof (cases x)
    case None
    then have "s1 = s" using Pair by (auto simp: alloc_page_zeroed_def alloc_page_def split: option.splits prod.splits if_splits)
    moreover have "pmm_inv s" using inv by (auto simp: as_inv_def vm_inv_def vm_ok_def)
    from ram_alloc.alloc_None [OF this] None Pair have "free_addrs s = {}" by simp
    ultimately show ?thesis using None Pair cr by (simp add: create_address_space_def address_space_new_def)
  next
    case (Some r)
    have vi: "vm_inv R D s" and act: "vm_active_pml4 s \<in> R" using inv by (simp_all add: as_inv_def)
    from vm_inv_alloc [OF vi Pair [unfolded Some]] have v1: "vm_inv R (insert r D) s1" "same_data D s s1" by auto
    from clone_new_root [OF v1(1), of r] act active_nonzero [OF inv] v1(2) obtain s2 where "clone_kernel_mappings r s1 = (Inr (), s2)"
      by (auto simp: same_data_def)
    with Some Pair cr show ?thesis by (simp add: create_address_space_def address_space_new_def)
  qed
qed

lemma destroy_inv:
  assumes inv: "as_inv R D s" and ds: "destroy_address_space i caller s = (Inr u, s')"
  shows "\<exists>a. bt_get (as_spaces s) i = Some a \<and> as_owner a = caller \<and> as_mapping_count a = 0
    \<and> as_inv (R - {as_pml4_phys a}) D s' \<and> (\<forall>r v. vm_view s' r v = vm_view s r v)"
proof -
  obtain a where a: "bt_get (as_spaces s) i = Some a" "as_owner a = caller" "as_mapping_count a = 0"
    and s': "s' = free_page (as_pml4_phys a) (s\<lparr>as_spaces := bt_remove i (as_spaces s)\<rparr>)"
    using ds by (auto simp: destroy_address_space_def as_is_owned_by_def word_gt_0 split: option.splits if_splits)
  let ?s = "s\<lparr>as_spaces := bt_remove i (as_spaces s)\<rparr>"
  have vi: "vm_inv R D ?s" using inv by (simp add: as_inv_def)
  have vi': "vm_inv (R - {as_pml4_phys a}) D s'"
    unfolding s' by (rule vm_inv_drop_root [OF vi as_inv_root(1) [OF inv a(1)]])
  have "vmm.more s' = vmm.more ?s" by (simp only: s' free_page_more)
  then have f: "as_spaces s' = bt_remove i (as_spaces s)" "as_next_id s' = as_next_id s" using as_fields_more [of s' ?s] by simp_all
  have ac: "vm_active_pml4 s' = vm_active_pml4 s" by (simp add: s')
  have reg: "registry_ok as_id (as_next_id s) (as_spaces s)" using inv by (simp add: as_inv_def)
  have "as_pml4_phys a \<in> R - {vm_active_pml4 s}" "vm_active_pml4 s \<in> R" using inv a(1) unfolding as_inv_def by blast+
  then have ne: "vm_active_pml4 s \<in> R - {as_pml4_phys a}" by auto
  have "as_pml4_phys b \<in> R - {vm_active_pml4 s} \<and> as_pml4_phys b \<noteq> as_pml4_phys a" if "bt_get (as_spaces s) j = Some b" "j \<noteq> i" for j b
    using inv a(1) that unfolding as_inv_def by blast
  then have "as_inv (R - {as_pml4_phys a}) D s'"
    using inv vi' ne registry_remove [OF reg, of i] registry_wf [OF reg] unfolding as_inv_def f ac by (simp split: if_splits)
  then show ?thesis using a by (simp add: s')
qed

lemma unmap_region_inv:
  assumes inv: "as_inv R D s"
  shows "as_inv R D (snd (unmap_region i caller v sz s))"
proof (cases "snd (unmap_region i caller v sz s) = s")
  case False
  then obtain a where a: "bt_get (as_spaces s) i = Some a" and c: "check_user_range v sz = None" "is_page_aligned v"
    by (auto simp: unmap_region_def split: if_splits option.splits)
  obtain n s1 where run: "unmap_run (unmap_page_in_pml4 (as_pml4_phys a)) (region_virt v (num_pages sz)) s = (n, s1)" by fastforce
  note m = unmap_region_run [OF inv a c run]
  from False a c run have "snd (unmap_region i caller v sz s)
      = s1\<lparr>as_spaces := bt_insert i (dec_mappings (of_nat (num_pages sz)) a) (as_spaces s1)\<rparr>"
    by (auto simp: unmap_region_def split: if_splits)
  moreover have "as_inv R D \<dots>" by (rule as_inv_set [where a = a]) (use m a in simp_all)
  ultimately show ?thesis by simp
qed (simp add: inv)

lemma remap_region_inv:
  assumes inv: "as_inv R D s"
  shows "as_inv R D (snd (remap_region i caller ov nv sz s))"
proof (cases "snd (remap_region i caller ov nv sz s) = s")
  case False
  then obtain a where a: "bt_get (as_spaces s) i = Some a" by (auto simp: remap_region_def split: if_splits option.splits)
  let ?r = "as_pml4_phys a" and ?n = "num_pages sz"
  have vi: "vm_inv R D s" using inv by (simp add: as_inv_def)
  obtain k s1 where u: "unmap_run (unmap_page_in_pml4 ?r) (region_virt ov ?n) s = (k, s1)" by fastforce
  have u1: "vm_inv R D s1" "same_data D s s1"
    using unmap_run_inv [OF vi as_inv_root [OF inv a], of "region_virt ov ?n"] u by simp_all
  have "vmm.more s1 = vmm.more s"
    using unmap_run_keeps [where g = vmm.more and unmap = "unmap_page_in_pml4 ?r" and vs = "region_virt ov ?n" and s = s] u
    by (simp add: unmap_page_more)
  moreover obtain ms where "query_run ?r (region_virt ov ?n) s = Some ms"
    and s': "snd (remap_region i caller ov nv sz s) = snd (remap_run ?r (zip (region_virt nv ?n) ms) s1)"
    using False a u by (auto simp: remap_region_def Let_def split: if_splits option.splits prod.splits)
  moreover note remap_run_inv [OF u1(1) as_inv_root(1) [OF inv a], of "zip (region_virt nv ?n) ms"]
  ultimately show ?thesis
    using u1 by (intro as_inv_vm [OF inv]) (simp_all add: same_data_def)
qed (simp add: inv)

lemma map_run_inv:
  assumes "vm_inv R D s" and "r \<in> R" and "r \<noteq> 0"
  shows "vm_inv R D (snd (map_run (\<lambda>v p. map_page_in_pml4 r v p f) (unmap_page_in_pml4 r) vps mapped s))
    \<and> same_data D s (snd (map_run (\<lambda>v p. map_page_in_pml4 r v p f) (unmap_page_in_pml4 r) vps mapped s))"
proof (rule map_run_preserves)
  fix v p s' assume "vm_inv R D s' \<and> same_data D s s'"
  then show "vm_inv R D (snd (map_page_in_pml4 r v p f s')) \<and> same_data D s (snd (map_page_in_pml4 r v p f s'))"
    using map_page_in_pml4_inv [OF _ assms(2), of D s' v p f] same_data_trans by (metis prod.collapse)
qed (use unmap_keeps_inv [OF _ assms(2,3)] same_data_trans assms(1) in \<open>blast, simp\<close>)

lemma map_region_inv:
  assumes inv: "as_inv R D s"
  shows "as_inv R D (snd (map_region i caller v p sz f s))"
proof (cases "snd (map_region i caller v p sz f s) = s")
  case False
  then obtain a where a: "bt_get (as_spaces s) i = Some a" by (auto simp: map_region_def split: if_splits option.splits)
  let ?r = "as_pml4_phys a"
  let ?run = "map_run (\<lambda>v p. map_page_in_pml4 ?r v p f) (unmap_page_in_pml4 ?r) (region_pages v p (num_pages sz)) [] s"
  obtain x s1 where run: "?run = (x, s1)" by fastforce
  have vi: "vm_inv R D s" using inv by (simp add: as_inv_def)
  have s1: "vm_inv R D s1" "same_data D s s1"
    using map_run_inv [OF vi as_inv_root [OF inv a], of f "region_pages v p (num_pages sz)" "[]"] run by simp_all
  have more: "vmm.more s1 = vmm.more s"
    using map_run_keeps [where g = vmm.more and mp = "\<lambda>v p. map_page_in_pml4 ?r v p f" and unmap = "unmap_page_in_pml4 ?r"
        and vps = "region_pages v p (num_pages sz)" and mapped = "[]" and s = s] run
    by (simp add: map_page_more unmap_page_more)
  have i1: "as_inv R D s1" by (rule as_inv_vm [OF inv s1(1) _ more]) (use s1(2) in \<open>simp add: same_data_def\<close>)
  have set: "as_inv R D (s1\<lparr>as_spaces := bt_insert i (inc_mappings n a) (as_spaces s1)\<rparr>)" for n
    by (rule as_inv_set [OF i1, where a = a]) (use as_fields_more [OF more] a in simp_all)
  show ?thesis
  proof (cases x)
    case (Inl emn)
    obtain e k n where "emn = (e, k, n)" by (cases emn)
    with False a run Inl have "snd (map_region i caller v p sz f s)
        = (if k - n > 0 then s1\<lparr>as_spaces := bt_insert i (inc_mappings (of_nat (k - n)) a) (as_spaces s1)\<rparr> else s1)"
      by (simp add: map_region_def Let_def split: if_split_asm option.splits)
    with i1 set show ?thesis by (simp only: split: if_split) blast
  next
    case (Inr u)
    with False a run have "snd (map_region i caller v p sz f s)
        = s1\<lparr>as_spaces := bt_insert i (inc_mappings (of_nat (num_pages sz)) a) (as_spaces s1)\<rparr>"
      by (simp add: map_region_def split: if_split_asm option.splits)
    with set show ?thesis by (simp only:)
  qed
qed (simp add: inv)

section \<open>State beside the address spaces\<close>

lemma as_more: "vmm.more s' = vmm.more s \<Longrightarrow> as_sys.more s' = as_sys.more s"
  by (cases s; cases s') simp

lemma runs_as_more:
  "as_sys.more (snd (map_run (\<lambda>v p. map_page_in_pml4 r v p f) (unmap_page_in_pml4 r) vps mapped s)) = as_sys.more s"
  "as_sys.more (snd (unmap_run (unmap_page_in_pml4 r) vs s)) = as_sys.more s"
  by (rule map_run_keeps unmap_run_keeps; rule as_more, rule map_page_more unmap_page_more)+

lemma create_more: "as_sys.more (snd (create_address_space owner s)) = as_sys.more s"
proof -
  obtain x s1 where al: "alloc_page_zeroed s = (x, s1)" by fastforce
  then have m1: "as_sys.more s1 = as_sys.more s" using as_more [OF alloc_page_zeroed_more [of s]] by simp
  show ?thesis
  proof (cases x)
    case (Some r)
    obtain y s2 where cl: "clone_kernel_mappings r s1 = (y, s2)" by fastforce
    then have "as_sys.more s2 = as_sys.more s" using as_more [OF clone_more [of r s1]] m1 by simp
    then show ?thesis using al Some cl as_more [OF free_page_more [of r s2]]
      by (cases y) (simp_all add: create_address_space_def address_space_new_def)
  qed (use al m1 in \<open>simp add: create_address_space_def address_space_new_def\<close>)
qed

lemma destroy_more: "as_sys.more (snd (destroy_address_space i caller s)) = as_sys.more s"
  by (simp add: destroy_address_space_def as_more [OF free_page_more] split: option.split)

lemma map_region_more: "as_sys.more (snd (map_region i caller v p sz f s)) = as_sys.more s"
proof (cases "bt_get (as_spaces s) i")
  case (Some a)
  let ?r = "as_pml4_phys a"
  obtain x s1 where run: "map_run (\<lambda>v p. map_page_in_pml4 ?r v p f) (unmap_page_in_pml4 ?r) (region_pages v p (num_pages sz)) [] s = (x, s1)"
    by fastforce
  then have "as_sys.more s1 = as_sys.more s" using runs_as_more(1) [of ?r f "region_pages v p (num_pages sz)" "[]" s] by simp
  then show ?thesis using Some run by (auto simp: map_region_def Let_def split: option.split sum.split)
qed (auto simp: map_region_def split: option.split)

lemma unmap_region_more: "as_sys.more (snd (unmap_region i caller v sz s)) = as_sys.more s"
proof (cases "bt_get (as_spaces s) i")
  case (Some a)
  let ?r = "as_pml4_phys a"
  obtain n s1 where run: "unmap_run (unmap_page_in_pml4 ?r) (region_virt v (num_pages sz)) s = (n, s1)" by fastforce
  then have "as_sys.more s1 = as_sys.more s" using runs_as_more(2) [of ?r "region_virt v (num_pages sz)" s] by simp
  then show ?thesis using Some run by (auto simp: unmap_region_def split: option.split)
qed (auto simp: unmap_region_def split: option.split)

lemma remap_run_more: "vmm.more (snd (remap_run r vpfs s)) = vmm.more s"
proof (induction vpfs arbitrary: s)
  case (Cons vpf vpfs)
  obtain v p f where vpf: "vpf = (v, p, f)" by (cases vpf)
  obtain x s1 where m: "map_page_in_pml4 r v p f s = (x, s1)" by fastforce
  then have "vmm.more s1 = vmm.more s" using map_page_more(2) [of r v p f s] by simp
  then show ?case using m Cons.IH [of s1] by (cases x) (simp_all add: vpf)
qed simp

lemma remap_region_more: "as_sys.more (snd (remap_region i caller ov nv sz s)) = as_sys.more s"
proof (cases "bt_get (as_spaces s) i")
  case (Some a)
  let ?r = "as_pml4_phys a"
  obtain n s1 where run: "unmap_run (unmap_page_in_pml4 ?r) (region_virt ov (num_pages sz)) s = (n, s1)" by fastforce
  then have "as_sys.more s1 = as_sys.more s" using runs_as_more(2) [of ?r "region_virt ov (num_pages sz)" s] by simp
  then have "as_sys.more (snd (remap_run ?r vpfs s1)) = as_sys.more s" for vpfs using as_more [OF remap_run_more [of ?r vpfs s1]] by simp
  then show ?thesis using Some run by (auto simp: remap_region_def Let_def split: option.split prod.split) (metis snd_conv)+
qed (auto simp: remap_region_def)

section \<open>Properties\<close>

text \<open>
  C25. A new address space is empty and shares the kernel: the registered identifier is new, its
  root is no root in use, it maps no user page, it sees the kernel half of the active
  address space, and every existing address space keeps its view. Creation fails only when
  no page is free, and then changes nothing.
\<close>

theorem create_address_space_fresh:
  assumes "as_inv R D s" and "as_next_id s \<noteq> u64_max"
  shows "case create_address_space owner s of
      (Inl e, s') \<Rightarrow> e = AsOutOfMemory \<and> free_addrs s = {} \<and> s' = s
    | (Inr i, s') \<Rightarrow> \<exists>r. r \<notin> R \<and> as_inv (insert r R) D s' \<and> pml4_of i s' = Some r
        \<and> (\<forall>r' \<in> R. \<forall>v. vm_view s' r' v = vm_view s r' v)
        \<and> (\<forall>v. vm_view s' r v = (if kernel_half v then vm_view s (vm_active_pml4 s) v else None))"
proof -
  obtain x s' where c: "create_address_space owner s = (x, s')" by fastforce
  show ?thesis
  proof (cases x)
    case (Inl e)
    with create_error [OF assms(1)] c show ?thesis by simp
  next
    case (Inr i)
    with create_inv [OF assms, of owner i s'] c show ?thesis by (auto simp: same_views_def)
  qed
qed

theorem create_address_space_fresh_witness:
  "\<exists>i s' r. create_address_space 9 as_example = (Inr i, s') \<and> pml4_of i s' = Some r \<and> r \<notin> {0x1000, 0x2000}
    \<and> vm_view s' r 0x400000 = None"
proof -
  have k: "\<not> kernel_half 0x400000" by code_simp
  obtain x s' where c: "create_address_space 9 as_example = (x, s')" by fastforce
  have "free_addrs as_example \<noteq> {}" using vm_example_card by (auto simp: as_example_frame)
  with c create_address_space_fresh [OF as_example_inv, of 9] k show ?thesis by (cases x) auto
qed

text \<open>
  C26. Only the owner changes an address space: for a caller that does not own it, every
  operation on it fails and leaves the whole state as it is.
\<close>

theorem only_owner_changes_space:
  assumes "bt_get (as_spaces s) i = Some a" and "as_owner a \<noteq> caller"
  shows "(\<exists>e. map_region i caller v p sz f s = (Inl e, s)) \<and> (\<exists>e. unmap_region i caller v sz s = (Inl e, s))
    \<and> (\<exists>e. remap_region i caller v v' sz s = (Inl e, s)) \<and> destroy_address_space i caller s = (Inl AsPermissionDenied, s)"
proof (intro conjI)
  have o: "\<not> as_is_owned_by a caller" using assms(2) by (simp add: as_is_owned_by_def)
  show "\<exists>e. map_region i caller v p sz f s = (Inl e, s)"
    using assms(1) o by (auto simp: map_region_def split: option.split)
  show "\<exists>e. unmap_region i caller v sz s = (Inl e, s)"
    using assms(1) o by (auto simp: unmap_region_def split: option.split)
  show "\<exists>e. remap_region i caller v v' sz s = (Inl e, s)"
    using assms(1) o by (auto simp: remap_region_def)
  show "destroy_address_space i caller s = (Inl AsPermissionDenied, s)"
    using assms(1) o by (simp add: destroy_address_space_def)
qed

theorem only_owner_changes_space_witness:
  "destroy_address_space 1 8 as_example = (Inl AsPermissionDenied, as_example)"
  using only_owner_changes_space [of as_example 1 _ 8] by simp

section \<open>Divergences\<close>

text \<open>
  \<open>unmap_region\<close> subtracts the size of the region from the mapping count, whatever of it was
  mapped: a region that maps nothing still lowers the count, so an address space with live
  mappings can be destroyed.
\<close>

lemma unmap_region_counts_unmapped:
  assumes "as_inv R D s" and "bt_get (as_spaces s) i = Some a" and "as_owner a = caller"
    and "is_page_aligned v" and "v \<le> USER_CANONICAL_MAX" and "sz \<noteq> 0" and "check_user_range v sz = None"
    and "\<forall>w \<in> set (region_virt v (num_pages sz)). user_view (as_pml4_phys a) s w = None"
  shows "\<exists>s'. unmap_region i caller v sz s = (Inr (), s') \<and> user_view (as_pml4_phys a) s' = user_view (as_pml4_phys a) s
    \<and> bt_get (as_spaces s') i = Some (dec_mappings (of_nat (num_pages sz)) a)"
proof -
  obtain n s1 where run: "unmap_run (unmap_page_in_pml4 (as_pml4_phys a)) (region_virt v (num_pages sz)) s = (n, s1)" by fastforce
  note m = unmap_region_run [OF assms(1,2,7,4) run]
  have "\<not> v > USER_CANONICAL_MAX" using assms(5) by simp
  moreover have "USER_CANONICAL_MAX < KERNEL_BASE" by (simp add: USER_CANONICAL_MAX_def KERNEL_BASE_def)
  with assms(5) have "\<not> v \<ge> KERNEL_BASE" by (simp add: not_le order.strict_trans1)
  ultimately have "unmap_region i caller v sz s
      = (Inr (), s1\<lparr>as_spaces := bt_insert i (dec_mappings (of_nat (num_pages sz)) a) (as_spaces s1)\<rparr>)"
    using assms(2-4,6,7) run by (simp add: unmap_region_def as_is_owned_by_def)
  moreover have "user_view (as_pml4_phys a) s1 = user_view (as_pml4_phys a) s" using m assms(8) by auto
  ultimately show ?thesis by simp
qed

text \<open>
  \<open>remap_region\<close> compares the new address with the base of the kernel half only, so an address
  between the halves passes; its table indices are those of the first kernel page.
\<close>

lemma remap_target_in_kernel_half:
  "\<not> (0x800000000000 \<ge> KERNEL_BASE \<or> saturating_add 0x800000000000 0x1000 > KERNEL_BASE)
   \<and> same_page 0x800000000000 KERNEL_BASE \<and> kernel_half 0x800000000000"
  by code_simp

end
