(* ===== verification/Shared_Mem.thy ===== *)
theory Shared_Mem
  imports Addr_Space
begin

text \<open>
  Shared memory regions, \<^verbatim>\<open>kernel/src/shared_mem.rs\<close>: allocation of zeroed pages for a region,
  mapping it for a thread with rollback, unmapping, and destruction by the owner when no
  mapping is left.
\<close>

section \<open>Flags\<close>

record region_flags =
  rf_read :: bool
  rf_write :: bool
  rf_execute :: bool

definition rf_read_only :: region_flags where
  "rf_read_only = \<lparr>rf_read = True, rf_write = False, rf_execute = False\<rparr>"

definition rf_read_write :: region_flags where
  "rf_read_write = \<lparr>rf_read = True, rf_write = True, rf_execute = False\<rparr>"

definition rf_read_exec :: region_flags where
  "rf_read_exec = \<lparr>rf_read = True, rf_write = False, rf_execute = True\<rparr>"

definition rf_read_write_exec :: region_flags where
  "rf_read_write_exec = \<lparr>rf_read = True, rf_write = True, rf_execute = True\<rparr>"

definition rf_to_page_flags :: "region_flags \<Rightarrow> page_flags" where
  "rf_to_page_flags fl =
     (let f0 = PG_PRESENT;
          f1 = (if rf_write fl then f0 OR PG_WRITABLE else f0);
          f2 = (if \<not> rf_execute fl then with_nx f1 else f1)
      in f2 OR PG_USER)"

definition rf_from_raw :: "u64 \<Rightarrow> region_flags" where
  "rf_from_raw raw =
     (let bits = raw AND 0x7 in
      if bits = raw then
        let elf_read = bits AND 0x4 \<noteq> 0; elf_write = bits AND 0x2 \<noteq> 0; elf_exec = bits AND 0x1 \<noteq> 0;
            custom_read = bits AND 0x1 \<noteq> 0; custom_write = bits AND 0x2 \<noteq> 0; custom_exec = bits AND 0x4 \<noteq> 0;
            looks_like_elf = elf_exec \<and> \<not> custom_exec
        in if looks_like_elf then \<lparr>rf_read = elf_read, rf_write = elf_write, rf_execute = elf_exec\<rparr>
           else \<lparr>rf_read = custom_read, rf_write = custom_write, rf_execute = custom_exec\<rparr>
      else \<lparr>rf_read = raw AND 0x1 \<noteq> 0, rf_write = raw AND 0x2 \<noteq> 0, rf_execute = raw AND 0x4 \<noteq> 0\<rparr>)"

definition rf_to_raw :: "region_flags \<Rightarrow> u64" where
  "rf_to_raw fl =
     (let raw0 = 0;
          raw1 = (if rf_read fl then raw0 OR 0x4 else raw0);
          raw2 = (if rf_write fl then raw1 OR 0x2 else raw1)
      in if rf_execute fl then raw2 OR 0x1 else raw2)"

section \<open>State\<close>

type_synonym region_id = u64

datatype shared_mem_error =
    ShmInvalidRegion | ShmInvalidSize | ShmPermissionDenied | ShmOutOfMemory | ShmUnaligned
  | ShmAlreadyMapped | ShmNotMapped | ShmMappingFailed | ShmRegionInUse

record region_mapping =
  rm_thread :: u64
  rm_virt :: usize
  rm_flags :: region_flags

record shared_region =
  sr_id :: region_id
  sr_owner :: u64
  sr_size :: usize
  sr_pages :: "usize list"
  sr_mappings :: "region_mapping list"
  sr_ref_count :: usize

record shm_sys = as_sys +
  shm_regions :: "(region_id, shared_region) btree"
  shm_next_id :: u64

record region_info =
  ri_id :: region_id
  ri_owner :: u64
  ri_size :: usize
  ri_ref_count :: usize

record shared_mem_stats =
  sms_total_regions :: nat
  sms_total_size :: usize
  sms_total_mappings :: usize

section \<open>Operations of a region\<close>

definition shared_region_new :: "region_id \<Rightarrow> u64 \<Rightarrow> usize \<Rightarrow> 'a ram_scheme \<Rightarrow> (shared_mem_error + shared_region) \<times> 'a ram_scheme" where
  "shared_region_new i owner sz s =
     (if num_pages sz = 0 then (Inl ShmInvalidSize, s)
      else
        (case alloc_loop alloc_page_zeroed free_page (num_pages sz) [] s of
           (None, s1) \<Rightarrow> (Inl ShmOutOfMemory, s1)
         | (Some pages, s1) \<Rightarrow>
             (Inr \<lparr>sr_id = i, sr_owner = owner, sr_size = align_up sz, sr_pages = pages, sr_mappings = [], sr_ref_count = 0\<rparr>, s1)))"

definition map_error :: "vm_error \<Rightarrow> shared_mem_error" where
  "map_error e = (case e of VmAlreadyMapped \<Rightarrow> ShmAlreadyMapped | VmOutOfMemory \<Rightarrow> ShmOutOfMemory | _ \<Rightarrow> ShmMappingFailed)"

definition shared_region_map ::
  "shared_region \<Rightarrow> u64 \<Rightarrow> usize \<Rightarrow> region_flags \<Rightarrow> 'a vmm_scheme \<Rightarrow> (shared_mem_error + shared_region) \<times> 'a vmm_scheme" where
  "shared_region_map rg thread_id virt_addr flags s =
     (if \<not> is_page_aligned virt_addr then (Inl ShmUnaligned, s)
      else if \<exists>m \<in> set (sr_mappings rg). rm_thread m = thread_id then (Inl ShmAlreadyMapped, s)
      else
        (case map_run (\<lambda>v p. map_page v p (rf_to_page_flags flags)) unmap_page
                (zip (region_virt virt_addr (length (sr_pages rg))) (sr_pages rg)) [] s of
           (Inl (e, _, _), s1) \<Rightarrow> (Inl (map_error e), s1)
         | (Inr _, s1) \<Rightarrow>
             (Inr (rg\<lparr>sr_mappings := sr_mappings rg @ [\<lparr>rm_thread = thread_id, rm_virt = virt_addr, rm_flags = flags\<rparr>],
                      sr_ref_count := sr_ref_count rg + 1\<rparr>), s1)))"

definition shared_region_unmap :: "shared_region \<Rightarrow> u64 \<Rightarrow> 'a vmm_scheme \<Rightarrow> (shared_mem_error + shared_region) \<times> 'a vmm_scheme" where
  "shared_region_unmap rg thread_id s =
     (case position (\<lambda>m. rm_thread m = thread_id) (sr_mappings rg) of
        None \<Rightarrow> (Inl ShmNotMapped, s)
      | Some idx \<Rightarrow>
          let mapping = sr_mappings rg ! idx;
              (_, s1) = unmap_run unmap_page (region_virt (rm_virt mapping) (length (sr_pages rg))) s
          in (Inr (rg\<lparr>sr_mappings := remove_first (\<lambda>m. rm_thread m = thread_id) (sr_mappings rg), sr_ref_count := sr_ref_count rg - 1\<rparr>), s1))"

definition can_destroy :: "shared_region \<Rightarrow> bool" where
  "can_destroy rg \<longleftrightarrow> sr_ref_count rg = 0"

definition shared_region_destroy :: "shared_region \<Rightarrow> 'a pmm_scheme \<Rightarrow> 'a pmm_scheme" where
  "shared_region_destroy rg s = fold free_page (sr_pages rg) s"

section \<open>Operations of the manager\<close>

text \<open>The identifier is taken before the pages, so a failed creation uses one up.\<close>

definition create_region :: "u64 \<Rightarrow> usize \<Rightarrow> 'a shm_sys_scheme \<Rightarrow> (shared_mem_error + region_id) \<times> 'a shm_sys_scheme" where
  "create_region owner sz s =
     (let i = shm_next_id s; s0 = s\<lparr>shm_next_id := shm_next_id s + 1\<rparr> in
      case shared_region_new i owner sz s0 of
        (Inl e, s1) \<Rightarrow> (Inl e, s1)
      | (Inr rg, s1) \<Rightarrow> (Inr i, s1\<lparr>shm_regions := bt_insert i rg (shm_regions s1)\<rparr>))"

definition shm_map_region ::
  "region_id \<Rightarrow> u64 \<Rightarrow> usize \<Rightarrow> region_flags \<Rightarrow> 'a shm_sys_scheme \<Rightarrow> (shared_mem_error + unit) \<times> 'a shm_sys_scheme" where
  "shm_map_region i thread_id virt_addr flags s =
     (case bt_get (shm_regions s) i of
        None \<Rightarrow> (Inl ShmInvalidRegion, s)
      | Some rg \<Rightarrow>
          (case shared_region_map rg thread_id virt_addr flags s of
             (Inl e, s1) \<Rightarrow> (Inl e, s1)
           | (Inr rg', s1) \<Rightarrow> (Inr (), s1\<lparr>shm_regions := bt_insert i rg' (shm_regions s1)\<rparr>)))"

definition shm_unmap_region :: "region_id \<Rightarrow> u64 \<Rightarrow> 'a shm_sys_scheme \<Rightarrow> (shared_mem_error + unit) \<times> 'a shm_sys_scheme" where
  "shm_unmap_region i thread_id s =
     (case bt_get (shm_regions s) i of
        None \<Rightarrow> (Inl ShmInvalidRegion, s)
      | Some rg \<Rightarrow>
          (case shared_region_unmap rg thread_id s of
             (Inl e, s1) \<Rightarrow> (Inl e, s1)
           | (Inr rg', s1) \<Rightarrow> (Inr (), s1\<lparr>shm_regions := bt_insert i rg' (shm_regions s1)\<rparr>)))"

definition destroy_region :: "region_id \<Rightarrow> u64 \<Rightarrow> 'a shm_sys_scheme \<Rightarrow> (shared_mem_error + unit) \<times> 'a shm_sys_scheme" where
  "destroy_region i caller s =
     (case bt_get (shm_regions s) i of
        None \<Rightarrow> (Inl ShmInvalidRegion, s)
      | Some rg \<Rightarrow>
          if sr_owner rg \<noteq> caller then (Inl ShmPermissionDenied, s)
          else if \<not> can_destroy rg then (Inl ShmRegionInUse, s)
          else (Inr (), shared_region_destroy rg (s\<lparr>shm_regions := bt_remove i (shm_regions s)\<rparr>)))"

definition get_region_info :: "region_id \<Rightarrow> 'a shm_sys_scheme \<Rightarrow> shared_mem_error + region_info" where
  "get_region_info i s =
     (case bt_get (shm_regions s) i of
        None \<Rightarrow> Inl ShmInvalidRegion
      | Some rg \<Rightarrow> Inr \<lparr>ri_id = sr_id rg, ri_owner = sr_owner rg, ri_size = sr_size rg, ri_ref_count = sr_ref_count rg\<rparr>)"

definition shm_get_stats :: "'a shm_sys_scheme \<Rightarrow> shared_mem_stats" where
  "shm_get_stats s =
     \<lparr>sms_total_regions = bt_len (shm_regions s),
      sms_total_size = sum_list (map sr_size (bt_values (shm_regions s))),
      sms_total_mappings = sum_list (map sr_ref_count (bt_values (shm_regions s)))\<rparr>"

section \<open>Allocation of the pages of a region\<close>

lemma remove_first_props:
  "distinct (map g xs) \<Longrightarrow> distinct (map g (remove_first P xs))"
  "(\<exists>x \<in> set xs. P x) \<Longrightarrow> length xs = Suc (length (remove_first P xs))"
  "set (remove_first P xs) \<subseteq> set xs"
proof -
  show sub: "set (remove_first P xs) \<subseteq> set xs" for xs by (induction xs) auto
  show "distinct (map g xs) \<Longrightarrow> distinct (map g (remove_first P xs))"
  proof (induction xs)
    case (Cons x xs)
    with sub [of xs] show ?case by auto
  qed simp
  show "(\<exists>x \<in> set xs. P x) \<Longrightarrow> length xs = Suc (length (remove_first P xs))" by (induction xs) auto
qed

lemma alloc_loop_vm_Some:
  assumes "vm_inv R D s" and "alloc_loop alloc_page_zeroed free_page n pages s = (Some as, s')"
  shows "\<exists>new. as = pages @ new \<and> length new = n \<and> distinct new \<and> set new \<subseteq> free_addrs s - D \<and> vm_inv R (D \<union> set new) s'
    \<and> same_views R s s' \<and> same_data D s s' \<and> (\<forall>a \<in> set new. ram_mem s' a = (\<lambda>_. 0)) \<and> free_addrs s' = free_addrs s - set new"
  using assms
proof (induction n arbitrary: pages D s)
  case (Suc n)
  obtain a s1 where a: "alloc_page_zeroed s = (Some a, s1)"
    and rest: "alloc_loop alloc_page_zeroed free_page n (pages @ [a]) s1 = (Some as, s')"
    using Suc.prems(2) by (auto split: prod.splits option.splits)
  from vm_inv_alloc [OF Suc.prems(1) a]
  have s1: "vm_inv R (insert a D) s1" "a \<notin> D" "same_views R s s1" "same_data D s s1" "ram_mem s1 a = (\<lambda>_. 0)"
    "free_addrs s1 = free_addrs s - {a}" "a \<in> free_addrs s" by auto
  from Suc.IH [OF s1(1) rest] obtain new where new: "as = (pages @ [a]) @ new" "length new = n" "distinct new"
    "set new \<subseteq> free_addrs s1 - insert a D" "vm_inv R (insert a D \<union> set new) s'" "same_views R s1 s'" "same_data (insert a D) s1 s'"
    "\<forall>a \<in> set new. ram_mem s' a = (\<lambda>_. 0)" "free_addrs s' = free_addrs s1 - set new" by blast
  have "same_data D s s'" using new(7) by (intro same_data_trans [OF s1(4)]) (simp add: same_data_def)
  moreover have "ram_mem s' a = (\<lambda>_. 0)" using new(7) s1(5) by (simp add: same_data_def)
  moreover have "same_views R s s'" by (rule same_views_trans [OF s1(3) new(6)])
  ultimately show ?case using new s1 by (intro exI [of _ "a # new"]) auto
qed (auto simp: same_data_def same_views_def)

lemma free_list_vm:
  assumes "vm_inv R D s" and "set as \<subseteq> D" and "distinct as"
  shows "vm_inv R (D - set as) (fold free_page as s) \<and> free_addrs (fold free_page as s) = free_addrs s \<union> set as
    \<and> ram_mem (fold free_page as s) = ram_mem s \<and> vm_view (fold free_page as s) = vm_view s
    \<and> vm_active_pml4 (fold free_page as s) = vm_active_pml4 s \<and> vmm.more (fold free_page as s) = vmm.more s"
  using assms
proof (induction as arbitrary: D s)
  case (Cons a as)
  from vm_inv_free [OF Cons.prems(1), of a] Cons.prems(2)
  have f: "vm_inv R (D - {a}) (free_page a s)" "free_addrs (free_page a s) = insert a (free_addrs s)" by auto
  have "set as \<subseteq> D - {a}" using Cons.prems(2,3) by auto
  from Cons.IH [OF f(1) this] Cons.prems(3) f(2) show ?case
    by (simp add: free_page_more Diff_insert2 [symmetric] insert_commute)
qed simp

lemma alloc_loop_vm_None:
  assumes "vm_inv R D s" and "set pages \<subseteq> D" and "distinct pages"
    and "alloc_loop alloc_page_zeroed free_page n pages s = (None, s')"
  shows "vm_inv R (D - set pages) s' \<and> free_addrs s' = free_addrs s \<union> set pages \<and> same_views R s s'
    \<and> (\<forall>a \<in> D. ram_mem s' a = ram_mem s a) \<and> vm_active_pml4 s' = vm_active_pml4 s"
  using assms
proof (induction n arbitrary: pages D s)
  case (Suc n)
  obtain x s1 where al: "alloc_page_zeroed s = (x, s1)" by fastforce
  show ?case
  proof (cases x)
    case None
    have "pmm_inv s" using Suc.prems(1) by (auto simp: vm_inv_def vm_ok_def)
    with al None ram_alloc.alloc_None [of s s1] have "s1 = s" by auto
    with al None Suc.prems(4) have "s' = fold free_page pages s" by simp
    with free_list_vm [OF Suc.prems(1-3)] show ?thesis by (simp add: same_views_def)
  next
    case (Some a)
    from vm_inv_alloc [OF Suc.prems(1) al [unfolded Some]]
    have s1: "vm_inv R (insert a D) s1" "a \<notin> D" "same_views R s s1" "same_data D s s1"
      "free_addrs s1 = free_addrs s - {a}" "a \<in> free_addrs s" by auto
    have ps: "set (pages @ [a]) \<subseteq> insert a D" "distinct (pages @ [a])" using Suc.prems(2,3) s1(2) by auto
    have "alloc_loop alloc_page_zeroed free_page n (pages @ [a]) s1 = (None, s')" using Suc.prems(4) al Some by simp
    from Suc.IH [OF s1(1) ps this]
    have ih: "vm_inv R (insert a D - set (pages @ [a])) s'" "free_addrs s' = free_addrs s1 \<union> set (pages @ [a])" "same_views R s1 s'"
      "\<forall>d \<in> insert a D. ram_mem s' d = ram_mem s1 d" "vm_active_pml4 s' = vm_active_pml4 s1" by auto
    have "insert a D - set (pages @ [a]) = D - set pages" using s1(2) by auto
    moreover have "free_addrs s' = free_addrs s \<union> set pages" using ih(2) s1(5,6) by auto
    moreover have "same_views R s s'" by (rule same_views_trans [OF s1(3) ih(3)])
    ultimately show ?thesis using ih s1(4) by (simp add: same_data_def)
  qed
qed simp

lemma alloc_loop_more [vmm_more]: "vmm.more (snd (alloc_loop alloc_page_zeroed free_page n pages s)) = vmm.more s"
proof (induction n arbitrary: pages s)
  case (Suc n)
  have fr: "vmm.more (fold free_page as s) = vmm.more s" for as and s :: "'a vmm_scheme"
    by (induction as arbitrary: s) (simp_all add: free_page_more)
  obtain x s1 where al: "alloc_page_zeroed s = (x, s1)" by fastforce
  then have "vmm.more s1 = vmm.more s" using alloc_page_zeroed_more [of s] by simp
  then show ?case using al fr Suc [of _ s1] by (cases x) simp_all
qed simp

section \<open>Invariant\<close>

text \<open>
  The pages of a region are allocated, belong to no page table and to no other region; its
  size is that of its pages and its reference count the number of its mappings, of which a
  thread has at most one.
\<close>

definition region_ok :: "usize set \<Rightarrow> shared_region \<Rightarrow> bool" where
  "region_ok D rg \<longleftrightarrow> sr_pages rg \<noteq> [] \<and> distinct (sr_pages rg) \<and> set (sr_pages rg) \<subseteq> D - {0}
     \<and> sr_size rg = of_nat (length (sr_pages rg)) * PAGE_SIZE
     \<and> sr_ref_count rg = of_nat (length (sr_mappings rg)) \<and> distinct (map rm_thread (sr_mappings rg))"

definition shm_inv :: "usize set \<Rightarrow> usize set \<Rightarrow> 'a shm_sys_scheme \<Rightarrow> bool" where
  "shm_inv R D s \<longleftrightarrow> as_inv R D s \<and> registry_ok sr_id (shm_next_id s) (shm_regions s)
     \<and> (\<forall>i rg. bt_get (shm_regions s) i = Some rg \<longrightarrow> region_ok D rg)
     \<and> (\<forall>i j rg rg'. bt_get (shm_regions s) i = Some rg \<longrightarrow> bt_get (shm_regions s) j = Some rg' \<longrightarrow> i \<noteq> j \<longrightarrow>
          set (sr_pages rg) \<inter> set (sr_pages rg') = {})"

lemma shm_fields_frame [simp]:
  "vm_inv R D (s\<lparr>shm_regions := x\<rparr>) = vm_inv R D s" "vm_view (s\<lparr>shm_regions := x\<rparr>) = vm_view s"
  "vm_inv R D (s\<lparr>shm_next_id := n\<rparr>) = vm_inv R D s" "vm_view (s\<lparr>shm_next_id := n\<rparr>) = vm_view s"
  "free_addrs (s\<lparr>shm_regions := x\<rparr>) = free_addrs s" "free_addrs (s\<lparr>shm_next_id := n\<rparr>) = free_addrs s"
  by (simp_all add: vm_inv_def vm_ok_def vm_view_def fun_eq_iff pmm_inv_def free_addrs_def managed_addrs_def free_set_def
      is_page_free_def)

lemma shm_fields_as [simp]:
  "as_inv R D (s\<lparr>shm_regions := x\<rparr>) = as_inv R D s" "as_inv R D (s\<lparr>shm_next_id := n\<rparr>) = as_inv R D s"
  by (simp_all add: as_inv_def)

lemma shm_fields_more:
  "vmm.more s' = vmm.more s \<Longrightarrow> as_spaces s' = as_spaces s \<and> as_next_id s' = as_next_id s
     \<and> shm_regions s' = shm_regions s \<and> shm_next_id s' = shm_next_id s"
  by (cases s; cases s') simp

lemma as_inv_data:
  assumes "as_inv R D s" and "vm_inv R D' s'" and "0 \<in> D'" and "vm_active_pml4 s' = vm_active_pml4 s"
    and "as_spaces s' = as_spaces s" and "as_next_id s' = as_next_id s"
  shows "as_inv R D' s'"
  using assms by (simp add: as_inv_def)

lemma region_ok_mono: "region_ok D rg \<Longrightarrow> set (sr_pages rg) \<subseteq> D' \<Longrightarrow> region_ok D' rg"
  by (auto simp: region_ok_def)

text \<open>Operations of the page tables keep everything; an updated region keeps its pages.\<close>

lemma shm_inv_vm:
  assumes "shm_inv R D s" and "vm_inv R D s'" and "vm_active_pml4 s' = vm_active_pml4 s" and "vmm.more s' = vmm.more s"
  shows "shm_inv R D s'"
proof -
  note f = shm_fields_more [OF assms(4)]
  have a: "as_inv R D s" using assms(1) by (simp add: shm_inv_def)
  have "as_inv R D s'" by (rule as_inv_vm [OF a assms(2-4)])
  with assms(1) f show ?thesis by (simp add: shm_inv_def)
qed

lemma shm_inv_set:
  assumes "shm_inv R D s" and "bt_get (shm_regions s) i = Some rg" and "sr_id rg' = sr_id rg" and "sr_pages rg' = sr_pages rg"
    and "region_ok D rg'"
  shows "shm_inv R D (s\<lparr>shm_regions := bt_insert i rg' (shm_regions s)\<rparr>)"
proof -
  have reg: "registry_ok sr_id (shm_next_id s) (shm_regions s)" using assms(1) by (simp add: shm_inv_def)
  from registry_get [OF reg assms(2)] assms(3) have "sr_id rg' = i" "i < shm_next_id s" by auto
  from registry_insert [OF reg this] assms show ?thesis by (auto simp: shm_inv_def split: if_splits)
qed

lemma active_facts:
  assumes "shm_inv R D s"
  shows "vm_inv R D s" and "vm_active_pml4 s \<in> R" and "vm_active_pml4 s \<noteq> 0"
  using assms active_nonzero [of R D s] by (simp_all add: shm_inv_def as_inv_def)

lemma map_page_inv:
  assumes "vm_inv R D s" and "vm_active_pml4 s \<in> R"
  shows "vm_inv R D (snd (map_page v p f s)) \<and> same_data D s (snd (map_page v p f s))"
proof (cases "snd (map_page v p f s) = s")
  case False
  obtain x s1 where m: "map_page_internal (vm_active_pml4 s) v p f s = (x, s1)" by fastforce
  with False have "snd (map_page v p f s) = s1" by (auto simp: map_page_def split: if_splits)
  with map_page_internal_spec [OF assms m] show ?thesis by blast
qed (simp add: assms)

lemma unmap_page_inv:
  assumes "vm_inv R D s" and "vm_active_pml4 s \<in> R" and "vm_active_pml4 s \<noteq> 0"
  shows "vm_inv R D (snd (unmap_page v s)) \<and> same_data D s (snd (unmap_page v s))"
proof (cases "is_page_aligned v")
  case True
  from unmap_page_spec [OF assms True] assms(1) show ?thesis by auto
qed (simp add: unmap_page_def assms)

definition vm_step_ok :: "usize set \<Rightarrow> usize set \<Rightarrow> 'a vmm_scheme \<Rightarrow> 'a vmm_scheme \<Rightarrow> bool" where
  "vm_step_ok R D s s' \<longleftrightarrow> vm_inv R D s' \<and> same_data D s s' \<and> vmm.more s' = vmm.more s"

lemma vm_step_ok_map:
  assumes "vm_active_pml4 s \<in> R" and "vm_step_ok R D s s'"
  shows "vm_step_ok R D s (snd (map_page v p f s'))"
proof -
  have "vm_active_pml4 s' \<in> R" using assms by (simp add: vm_step_ok_def same_data_def)
  with map_page_inv [of R D s' v p f] assms(2) same_data_trans [of D s s'] show ?thesis
    by (simp add: vm_step_ok_def map_page_more)
qed

lemma vm_step_ok_unmap:
  assumes "vm_active_pml4 s \<in> R" and "vm_active_pml4 s \<noteq> 0" and "vm_step_ok R D s s'"
  shows "vm_step_ok R D s (snd (unmap_page v s'))"
proof -
  have "vm_active_pml4 s' \<in> R" "vm_active_pml4 s' \<noteq> 0" using assms by (simp_all add: vm_step_ok_def same_data_def)
  with unmap_page_inv [of R D s' v] assms(3) same_data_trans [of D s s'] show ?thesis
    by (simp add: vm_step_ok_def unmap_page_more)
qed

lemma shm_inv_step: "shm_inv R D s \<Longrightarrow> vm_step_ok R D s s' \<Longrightarrow> shm_inv R D s'"
  by (rule shm_inv_vm) (simp_all add: vm_step_ok_def same_data_def)

lemma region_runs_ok:
  assumes "shm_inv R D s"
  shows "vm_step_ok R D s (snd (map_run (\<lambda>v p. map_page v p f) unmap_page vps mapped s))"
    and "vm_step_ok R D s (snd (unmap_run unmap_page vs s))"
proof -
  note a = active_facts [OF assms]
  have r: "vm_step_ok R D s s" using a by (simp add: vm_step_ok_def)
  show "vm_step_ok R D s (snd (map_run (\<lambda>v p. map_page v p f) unmap_page vps mapped s))"
    by (rule map_run_preserves [where P = "vm_step_ok R D s"]) (simp_all add: vm_step_ok_map vm_step_ok_unmap a r)
  show "vm_step_ok R D s (snd (unmap_run unmap_page vs s))"
    by (rule unmap_run_preserves [where P = "vm_step_ok R D s"]) (simp_all add: vm_step_ok_unmap a r)
qed

section \<open>Every operation keeps the invariant\<close>

lemma align_up_num_pages: "align_up sz = of_nat (num_pages sz) * PAGE_SIZE"
proof -
  have "align_up sz mod PAGE_SIZE = 0" using is_page_aligned_align_up [of sz] by (simp only: is_page_aligned_def)
  then have "align_up sz div PAGE_SIZE * PAGE_SIZE = align_up sz" by (metis add.right_neutral div_mult_mod_eq)
  then show ?thesis by (simp add: num_pages_def)
qed

lemma create_region_ok:
  assumes inv: "shm_inv R D s" and id: "shm_next_id s \<noteq> u64_max" and cr: "create_region owner sz s = (Inr i, s')"
  shows "\<exists>rg. bt_get (shm_regions s) i = None \<and> bt_get (shm_regions s') i = Some rg \<and> sr_owner rg = owner \<and> sr_size rg = align_up sz
    \<and> sr_ref_count rg = 0 \<and> set (sr_pages rg) \<subseteq> free_addrs s - D \<and> (\<forall>a \<in> set (sr_pages rg). ram_mem s' a = (\<lambda>_. 0))
    \<and> shm_inv R (D \<union> set (sr_pages rg)) s' \<and> same_views R s s' \<and> same_data D s s' \<and> free_addrs s' = free_addrs s - set (sr_pages rg)
    \<and> (\<forall>j. j \<noteq> i \<longrightarrow> bt_get (shm_regions s') j = bt_get (shm_regions s) j)"
proof -
  let ?s = "s\<lparr>shm_next_id := shm_next_id s + 1\<rparr>"
  obtain pages s1 where np: "num_pages sz \<noteq> 0" and al: "alloc_loop alloc_page_zeroed free_page (num_pages sz) [] ?s = (Some pages, s1)"
    using cr by (auto simp: create_region_def shared_region_new_def Let_def split: if_splits prod.splits option.splits)
  define rg where "rg = \<lparr>sr_id = shm_next_id s, sr_owner = owner, sr_size = align_up sz, sr_pages = pages, sr_mappings = [], sr_ref_count = 0\<rparr>"
  have vi: "vm_inv R D ?s" and z: "0 \<in> D" and reg: "registry_ok sr_id (shm_next_id s) (shm_regions s)"
    using inv by (simp_all add: shm_inv_def as_inv_def)
  from alloc_loop_vm_Some [OF vi al] have a: "length pages = num_pages sz" "distinct pages" "set pages \<subseteq> free_addrs s - D"
    "vm_inv R (D \<union> set pages) s1" "same_views R s s1" "same_data D ?s s1" "\<forall>a \<in> set pages. ram_mem s1 a = (\<lambda>_. 0)"
    "free_addrs s1 = free_addrs s - set pages" by (auto simp: same_views_def)
  have "vmm.more s1 = vmm.more ?s" using alloc_loop_more [of "num_pages sz" "[]" ?s] al by simp
  from shm_fields_more [OF this] have f: "as_spaces s1 = as_spaces s" "as_next_id s1 = as_next_id s" "shm_regions s1 = shm_regions s"
    "shm_next_id s1 = shm_next_id s + 1" by simp_all
  have s': "i = shm_next_id s" "s' = s1\<lparr>shm_regions := bt_insert i rg (shm_regions s)\<rparr>"
    using cr al np f by (auto simp: create_region_def shared_region_new_def Let_def rg_def)
  have ai: "as_inv R (D \<union> set pages) s1"
    by (rule as_inv_data [of R D s]) (use inv a(4,6) z f in \<open>simp_all add: shm_inv_def same_data_def\<close>)
  have ok: "region_ok (D \<union> set pages) rg"
    using a(1-3) np z align_up_num_pages [of sz] by (auto simp: region_ok_def rg_def)
  have old: "region_ok (D \<union> set pages) q \<and> set (sr_pages q) \<inter> set pages = {}" if "bt_get (shm_regions s) j = Some q" for j q
  proof -
    have "region_ok D q" using inv that unfolding shm_inv_def by blast
    with a(3) show ?thesis by (auto simp: region_ok_def)
  qed
  have disj: "\<forall>i j q q'. bt_get (shm_regions s) i = Some q \<longrightarrow> bt_get (shm_regions s) j = Some q' \<longrightarrow> i \<noteq> j \<longrightarrow>
      set (sr_pages q) \<inter> set (sr_pages q') = {}" using inv by (simp add: shm_inv_def)
  have pr: "sr_pages rg = pages" by (simp add: rg_def)
  have "registry_ok sr_id (shm_next_id s + 1) (bt_insert (shm_next_id s) rg (shm_regions s))"
    by (rule registry_alloc [OF reg id]) (simp add: rg_def)
  then have "shm_inv R (D \<union> set pages) s'"
    using ai ok old disj unfolding shm_inv_def s' by (auto simp: f pr Int_commute split: if_splits)
  then show ?thesis using a registry_fresh [OF reg]
    by (intro exI [of _ rg]) (auto simp: s' rg_def same_views_def same_data_def managed_addrs_def)
qed

lemma create_region_error:
  assumes inv: "shm_inv R D s" and id: "shm_next_id s \<noteq> u64_max" and cr: "create_region owner sz s = (Inl e, s')"
  shows "shm_inv R D s' \<and> free_addrs s' = free_addrs s \<and> same_views R s s' \<and> shm_regions s' = shm_regions s
    \<and> (e = ShmInvalidSize \<and> num_pages sz = 0 \<or> e = ShmOutOfMemory \<and> num_pages sz \<noteq> 0)"
proof -
  let ?s = "s\<lparr>shm_next_id := shm_next_id s + 1\<rparr>"
  have reg: "registry_ok sr_id (shm_next_id s + 1) (shm_regions s)"
    using inv id registry_bump by (auto simp: shm_inv_def)
  have inv0: "shm_inv R D ?s" using inv reg by (simp add: shm_inv_def)
  show ?thesis
  proof (cases "num_pages sz = 0")
    case True
    with cr inv0 show ?thesis by (auto simp: create_region_def shared_region_new_def Let_def same_views_def)
  next
    case False
    then have al: "alloc_loop alloc_page_zeroed free_page (num_pages sz) [] ?s = (None, s')" and e: "e = ShmOutOfMemory"
      using cr by (auto simp: create_region_def shared_region_new_def Let_def split: prod.splits option.splits)
    have vi: "vm_inv R D ?s" using inv by (simp add: shm_inv_def as_inv_def)
    from alloc_loop_vm_None [OF vi _ _ al] have a: "vm_inv R D s'" "free_addrs s' = free_addrs s" "same_views R s s'"
      "vm_active_pml4 s' = vm_active_pml4 ?s" by (auto simp: same_views_def)
    have "vmm.more s' = vmm.more ?s" using alloc_loop_more [of "num_pages sz" "[]" ?s] al by simp
    with shm_inv_vm [OF inv0 a(1,4)] shm_fields_more [OF this] a e False show ?thesis by simp
  qed
qed

lemma shm_map_inv:
  assumes inv: "shm_inv R D s"
  shows "shm_inv R D (snd (shm_map_region i t v fl s))"
proof (cases "snd (shm_map_region i t v fl s) = s")
  case False
  then obtain rg where rg: "bt_get (shm_regions s) i = Some rg" by (auto simp: shm_map_region_def split: option.splits)
  have new: "\<not> (\<exists>m \<in> set (sr_mappings rg). rm_thread m = t)" "is_page_aligned v"
    using False rg by (auto simp: shm_map_region_def shared_region_map_def split: if_splits)
  obtain x s1 where run: "map_run (\<lambda>v p. map_page v p (rf_to_page_flags fl)) unmap_page
      (zip (region_virt v (length (sr_pages rg))) (sr_pages rg)) [] s = (x, s1)" by fastforce
  have st: "vm_step_ok R D s s1"
    using region_runs_ok(1) [OF inv, of "rf_to_page_flags fl" "zip (region_virt v (length (sr_pages rg))) (sr_pages rg)" "[]"] run by simp
  note i1 = shm_inv_step [OF inv st]
  have f: "shm_regions s1 = shm_regions s" using st shm_fields_more [of s1 s] by (simp add: vm_step_ok_def)
  have "region_ok D rg" using inv rg unfolding shm_inv_def by blast
  then have "region_ok D (rg\<lparr>sr_mappings := sr_mappings rg @ [\<lparr>rm_thread = t, rm_virt = v, rm_flags = fl\<rparr>], sr_ref_count := sr_ref_count rg + 1\<rparr>)"
    using new(1) by (auto simp: region_ok_def)
  from shm_inv_set [OF i1 _ _ _ this] f rg run new i1 show ?thesis
    by (cases x) (auto simp: shm_map_region_def shared_region_map_def)
qed (simp add: inv)

lemma shm_unmap_inv:
  assumes inv: "shm_inv R D s"
  shows "shm_inv R D (snd (shm_unmap_region i t s))"
proof (cases "snd (shm_unmap_region i t s) = s")
  case False
  then obtain rg where rg: "bt_get (shm_regions s) i = Some rg" by (auto simp: shm_unmap_region_def split: option.splits)
  obtain k where k: "position (\<lambda>m. rm_thread m = t) (sr_mappings rg) = Some k"
    using False rg by (auto simp: shm_unmap_region_def shared_region_unmap_def split: option.splits)
  obtain n s1 where run: "unmap_run unmap_page (region_virt (rm_virt (sr_mappings rg ! k)) (length (sr_pages rg))) s = (n, s1)" by fastforce
  have st: "vm_step_ok R D s s1"
    using region_runs_ok(2) [OF inv, of "region_virt (rm_virt (sr_mappings rg ! k)) (length (sr_pages rg))"] run by simp
  have f: "shm_regions s1 = shm_regions s" using st shm_fields_more [of s1 s] by (simp add: vm_step_ok_def)
  have "\<exists>m \<in> set (sr_mappings rg). rm_thread m = t"
    using position_Some_iff [OF k] by (intro bexI [of _ "sr_mappings rg ! k"]) simp_all
  from remove_first_props(2) [OF this] have len: "length (sr_mappings rg) = Suc (length (remove_first (\<lambda>m. rm_thread m = t) (sr_mappings rg)))" .
  have "region_ok D rg" using inv rg unfolding shm_inv_def by blast
  then have "region_ok D (rg\<lparr>sr_mappings := remove_first (\<lambda>m. rm_thread m = t) (sr_mappings rg), sr_ref_count := sr_ref_count rg - 1\<rparr>)"
    using remove_first_props(1) [of rm_thread "sr_mappings rg" "\<lambda>m. rm_thread m = t"] len by (simp add: region_ok_def)
  from shm_inv_set [OF shm_inv_step [OF inv st] _ _ _ this] f rg run k show ?thesis
    by (simp add: shm_unmap_region_def shared_region_unmap_def)
qed (simp add: inv)

lemma destroy_region_ok:
  assumes inv: "shm_inv R D s" and ds: "destroy_region i caller s = (Inr u, s')"
  shows "\<exists>rg. bt_get (shm_regions s) i = Some rg \<and> sr_owner rg = caller \<and> sr_ref_count rg = 0
    \<and> shm_inv R (D - set (sr_pages rg)) s' \<and> shm_regions s' = bt_remove i (shm_regions s)
    \<and> free_addrs s' = free_addrs s \<union> set (sr_pages rg) \<and> vm_view s' = vm_view s \<and> ram_mem s' = ram_mem s"
proof -
  let ?s = "s\<lparr>shm_regions := bt_remove i (shm_regions s)\<rparr>"
  obtain rg where rg: "bt_get (shm_regions s) i = Some rg" "sr_owner rg = caller" "sr_ref_count rg = 0"
    and s': "s' = fold free_page (sr_pages rg) ?s"
    using ds by (auto simp: destroy_region_def can_destroy_def shared_region_destroy_def split: option.splits if_splits)
  have vi: "vm_inv R D ?s" and reg: "registry_ok sr_id (shm_next_id s) (shm_regions s)"
    using inv by (simp_all add: shm_inv_def as_inv_def)
  have ok: "region_ok D rg" using inv rg(1) unfolding shm_inv_def by blast
  then have pg: "set (sr_pages rg) \<subseteq> D" "distinct (sr_pages rg)" "0 \<notin> set (sr_pages rg)" by (auto simp: region_ok_def)
  note fr = free_list_vm [OF vi pg(1,2), folded s']
  have f: "as_spaces s' = as_spaces s" "as_next_id s' = as_next_id s" "shm_regions s' = bt_remove i (shm_regions s)"
    "shm_next_id s' = shm_next_id s" using fr shm_fields_more [of s' ?s] by simp_all
  have z: "0 \<in> D - set (sr_pages rg)" using inv pg(3) by (simp add: shm_inv_def as_inv_def)
  have "as_inv R (D - set (sr_pages rg)) s'"
    by (rule as_inv_data [of R D s]) (use inv fr f z in \<open>simp_all add: shm_inv_def\<close>)
  moreover have "region_ok (D - set (sr_pages rg)) q" if "bt_get (shm_regions s) j = Some q" "j \<noteq> i" for j q
  proof -
    have "region_ok D q" "set (sr_pages q) \<inter> set (sr_pages rg) = {}" using inv rg(1) that unfolding shm_inv_def by blast+
    then show ?thesis by (auto simp: region_ok_def)
  qed
  moreover have "\<forall>i j q q'. bt_get (shm_regions s) i = Some q \<longrightarrow> bt_get (shm_regions s) j = Some q' \<longrightarrow> i \<noteq> j \<longrightarrow>
      set (sr_pages q) \<inter> set (sr_pages q') = {}" using inv by (simp add: shm_inv_def)
  ultimately have "shm_inv R (D - set (sr_pages rg)) s'"
    using registry_remove [OF reg, of i] registry_wf [OF reg] unfolding shm_inv_def f by (simp split: if_splits)
  then show ?thesis using rg fr f by simp
qed

section \<open>Histories of the memory managers\<close>

text \<open>
  The states that the operations of the address space manager and of the shared memory
  manager lead to, in any order, as long as no identifier wraps around.
\<close>

inductive mem_reach :: "shm_sys \<Rightarrow> shm_sys \<Rightarrow> bool" for s0 where
  mem_start: "mem_reach s0 s0"
| mem_create_space: "mem_reach s0 s \<Longrightarrow> as_next_id s \<noteq> u64_max \<Longrightarrow> mem_reach s0 (snd (create_address_space owner s))"
| mem_destroy_space: "mem_reach s0 s \<Longrightarrow> mem_reach s0 (snd (destroy_address_space i caller s))"
| mem_map_region: "mem_reach s0 s \<Longrightarrow> mem_reach s0 (snd (map_region i caller v p sz f s))"
| mem_unmap_region: "mem_reach s0 s \<Longrightarrow> mem_reach s0 (snd (unmap_region i caller v sz s))"
| mem_remap_region: "mem_reach s0 s \<Longrightarrow> mem_reach s0 (snd (remap_region i caller ov nv sz s))"
| mem_create_shared: "mem_reach s0 s \<Longrightarrow> shm_next_id s \<noteq> u64_max \<Longrightarrow> mem_reach s0 (snd (create_region owner sz s))"
| mem_map_shared: "mem_reach s0 s \<Longrightarrow> mem_reach s0 (snd (shm_map_region i t v fl s))"
| mem_unmap_shared: "mem_reach s0 s \<Longrightarrow> mem_reach s0 (snd (shm_unmap_region i t s))"
| mem_destroy_shared: "mem_reach s0 s \<Longrightarrow> mem_reach s0 (snd (destroy_region i caller s))"

lemma shm_fields_as_more: "as_sys.more s' = as_sys.more s \<Longrightarrow> shm_regions s' = shm_regions s \<and> shm_next_id s' = shm_next_id s"
  by (cases s; cases s') simp

lemma shm_inv_as:
  assumes "shm_inv R D s" and "as_inv R' D s'" and "as_sys.more s' = as_sys.more s"
  shows "shm_inv R' D s'"
  using assms shm_fields_as_more [OF assms(3)] by (simp add: shm_inv_def)

lemma shm_inv_spaces: "shm_inv R D s \<Longrightarrow> as_inv R D s"
  by (simp add: shm_inv_def)

lemma create_space_inv:
  assumes "shm_inv R D s" and "as_next_id s \<noteq> u64_max"
  shows "\<exists>R'. shm_inv R' D (snd (create_address_space owner s))"
proof -
  obtain x s' where c: "create_address_space owner s = (x, s')" by fastforce
  have "\<exists>R'. as_inv R' D s'"
  proof (cases x)
    case (Inl e)
    with create_error [OF shm_inv_spaces [OF assms(1)]] c shm_inv_spaces [OF assms(1)] show ?thesis by auto
  next
    case (Inr j)
    with create_inv [OF shm_inv_spaces [OF assms(1)] assms(2), of owner j s'] c show ?thesis by auto
  qed
  with shm_inv_as [OF assms(1)] create_more [of owner s] c show ?thesis by auto
qed

lemma destroy_space_inv:
  assumes "shm_inv R D s"
  shows "\<exists>R'. shm_inv R' D (snd (destroy_address_space i caller s))"
proof -
  obtain x s' where d: "destroy_address_space i caller s = (x, s')" by fastforce
  show ?thesis
  proof (cases x)
    case (Inl e)
    then have "s' = s" using d by (auto simp: destroy_address_space_def split: option.splits if_splits)
    with d assms show ?thesis by auto
  next
    case (Inr u)
    with destroy_inv [OF shm_inv_spaces [OF assms], of i caller u s'] d obtain R' where "as_inv R' D s'" by auto
    with shm_inv_as [OF assms this] destroy_more [of i caller s] d show ?thesis by auto
  qed
qed

lemma create_shared_inv:
  assumes "shm_inv R D s" and "shm_next_id s \<noteq> u64_max"
  shows "\<exists>D'. shm_inv R D' (snd (create_region owner sz s))"
proof -
  obtain x s' where c: "create_region owner sz s = (x, s')" by fastforce
  then show ?thesis
    using create_region_ok [OF assms, of owner sz _ s'] create_region_error [OF assms, of owner sz _ s'] by (cases x) auto
qed

lemma destroy_shared_inv:
  assumes "shm_inv R D s"
  shows "\<exists>D'. shm_inv R D' (snd (destroy_region i caller s))"
proof -
  obtain x s' where d: "destroy_region i caller s = (x, s')" by fastforce
  show ?thesis
  proof (cases x)
    case (Inl e)
    then have "s' = s" using d by (auto simp: destroy_region_def split: option.splits if_splits)
    with d assms show ?thesis by auto
  next
    case (Inr u)
    with destroy_region_ok [OF assms, of i caller u s'] d show ?thesis by auto
  qed
qed

lemmas mem_step_inv = create_space_inv destroy_space_inv create_shared_inv destroy_shared_inv

text \<open>
  In every state that the memory operations reach, in any order, every address space has
  a root table of its own, every table of every address space is well formed and allocated,
  and the pages of shared regions are allocated, in no table and in no second region, with
  a reference count that counts the mappings.
\<close>

lemma memory_invariant_reachable:
  assumes "shm_inv R0 D0 s0" and "mem_reach s0 s"
  shows "\<exists>R D. shm_inv R D s"
  using assms(2)
proof (induction rule: mem_reach.induct)
  case mem_start
  with assms(1) show ?case by blast
next
  case (mem_map_region s i caller v p sz f)
  then show ?case using shm_inv_as map_region_inv map_region_more shm_inv_spaces by meson
next
  case (mem_unmap_region s i caller v sz)
  then show ?case using shm_inv_as unmap_region_inv unmap_region_more shm_inv_spaces by meson
next
  case (mem_remap_region s i caller ov nv sz)
  then show ?case using shm_inv_as remap_region_inv remap_region_more shm_inv_spaces by meson
qed (blast dest: mem_step_inv shm_map_inv shm_unmap_inv)+

definition shm_example :: shm_sys where
  "shm_example = as_sys.extend as_example \<lparr>shm_regions = bt_empty, shm_next_id = 1\<rparr>"

lemma shm_example_fields [simp]:
  "shm_regions shm_example = bt_empty" "shm_next_id shm_example = 1" "as_spaces shm_example = as_spaces as_example"
  "as_next_id shm_example = 2" "vm_active_pml4 shm_example = 0x1000"
  by (simp_all add: shm_example_def as_sys.extend_def as_example_def vmm.extend_def vm_example_def)

lemma shm_example_frame:
  "vm_inv R D shm_example = vm_inv R D vm_example" "vm_view shm_example = vm_view vm_example" "free_addrs shm_example = free_addrs vm_example"
  by (simp_all add: shm_example_def as_sys.extend_def as_example_def vmm.extend_def vm_inv_def vm_ok_def vm_view_def fun_eq_iff
      pmm_inv_def free_addrs_def managed_addrs_def free_set_def is_page_free_def vm_example_def)

lemma shm_example_inv: "shm_inv {0x1000, 0x2000} {0} shm_example"
  using as_example_inv
  by (simp add: shm_inv_def as_inv_def shm_example_frame as_example_frame registry_empty del: as_example_fields(1))

section \<open>Mapping and unmapping a region\<close>

lemma rf_present: "pte_present (rf_to_page_flags fl)"
proof -
  have "bit PG_PRESENT 0" by (simp add: PG_PRESENT_def)
  then show ?thesis by (simp add: rf_to_page_flags_def Let_def with_nx_def pte_present_bit bit_or_iff)
qed

lemma region_virt_distinct:
  assumes "n \<le> 2 ^ 52"
  shows "distinct (region_virt v n)"
proof -
  have "inj_on (\<lambda>i. v + of_nat i * PAGE_SIZE) {0 ..< n}"
  proof (rule inj_onI)
    fix i j assume ij: "i \<in> {0 ..< n}" "j \<in> {0 ..< n}" "v + of_nat i * PAGE_SIZE = v + of_nat j * PAGE_SIZE"
    then have "page_to_addr i = page_to_addr j" by (simp add: page_to_addr_def)
    moreover have "i < 2 ^ 52" "j < 2 ^ 52" using ij(1,2) assms by simp_all
    ultimately show "i = j" using page_to_addr_inj by blast
  qed
  then show ?thesis by (simp add: region_virt_def distinct_map)
qed

lemma region_length:
  assumes "vm_inv R D s" and "region_ok D rg"
  shows "length (sr_pages rg) \<le> 2 ^ 52"
proof -
  have "pmm_inv s" "D \<subseteq> managed_addrs s" using assms(1) by (auto simp: vm_inv_def vm_ok_def)
  then have "length (sr_pages rg) \<le> card (managed_addrs s)"
    using assms(2) by (auto simp: region_ok_def distinct_card [symmetric] managed_addrs_def intro!: card_mono)
  also have "\<dots> \<le> pm_total s" unfolding managed_addrs_def using card_image_le [of "{..< pm_total s}" page_to_addr] by simp
  also have "\<dots> \<le> 2 ^ 52" using \<open>pmm_inv s\<close> by (simp add: pmm_inv_def)
  finally show ?thesis .
qed

text \<open>
  C27. Mapping a shared region is all or nothing: on success every page of the region is
  mapped, in order, from the given address on, where nothing was mapped, with the flags of
  the request, and the mapping is recorded; on an error the active address space and the
  registry are as before. No page of a region is written.
\<close>

theorem shared_map_all_or_nothing:
  assumes "shm_inv R D s" and "bt_get (shm_regions s) i = Some rg"
    and "\<forall>w \<in> set (region_virt v (length (sr_pages rg))). canonical_page w"
    and "shm_map_region i t v fl s = (x, s')"
  shows "shm_inv R D s' \<and> (\<forall>d \<in> D. ram_mem s' d = ram_mem s d) \<and> (case x of
      Inl e \<Rightarrow> canonical_view (vm_active_pml4 s) s' = canonical_view (vm_active_pml4 s) s \<and> shm_regions s' = shm_regions s
    | Inr _ \<Rightarrow> (\<forall>w \<in> set (region_virt v (length (sr_pages rg))). canonical_view (vm_active_pml4 s) s w = None)
        \<and> canonical_view (vm_active_pml4 s) s' = canonical_view (vm_active_pml4 s) s
            ++ map_of (map (\<lambda>(v, p). (v, pte_set p (rf_to_page_flags fl))) (zip (region_virt v (length (sr_pages rg))) (sr_pages rg)))
        \<and> (\<exists>rg'. bt_get (shm_regions s') i = Some rg'
            \<and> sr_mappings rg' = sr_mappings rg @ [\<lparr>rm_thread = t, rm_virt = v, rm_flags = fl\<rparr>]))"
proof -
  let ?r = "vm_active_pml4 s" and ?f = "rf_to_page_flags fl"
  let ?vps = "zip (region_virt v (length (sr_pages rg))) (sr_pages rg)"
  have inv': "shm_inv R D s'" using shm_map_inv [OF assms(1), of i t v fl] assms(4) by simp
  show ?thesis
  proof (cases "s' = s \<and> isl x")
    case True
    with assms(1) show ?thesis by (cases x) auto
  next
    case False
    obtain y s1 where run: "map_run (\<lambda>v p. map_page v p ?f) unmap_page ?vps [] s = (y, s1)" by fastforce
    have res: "(case y of Inl (e, _, _) \<Rightarrow> x = Inl (map_error e) \<and> s' = s1
        | Inr _ \<Rightarrow> x = Inr () \<and> s' = s1\<lparr>shm_regions := bt_insert i (rg\<lparr>sr_mappings := sr_mappings rg @ [\<lparr>rm_thread = t, rm_virt = v, rm_flags = fl\<rparr>],
              sr_ref_count := sr_ref_count rg + 1\<rparr>) (shm_regions s1)\<rparr>)"
      using False assms(2,4) run by (auto simp: shm_map_region_def shared_region_map_def split: if_splits sum.splits)
    have ok: "active_ok R ?r D ?f s" using active_facts [OF assms(1)] by (simp add: active_ok_def rf_present)
    have "region_ok D rg" using assms(1,2) unfolding shm_inv_def by blast
    then have "distinct (region_virt v (length (sr_pages rg)))"
      by (intro region_virt_distinct region_length [OF active_facts(1) [OF assms(1)]])
    then have vs: "\<forall>w \<in> set (map fst ?vps). canonical_page w" "distinct (map fst ?vps)" using assms(3) by simp_all
    note m = active_mapper.map_run_all_or_nothing [OF ok vs run]
    have "vm_step_ok R D s s1" using region_runs_ok(1) [OF assms(1), of ?f ?vps "[]"] run by simp
    then have f: "shm_regions s1 = shm_regions s" "\<forall>d \<in> D. ram_mem s1 d = ram_mem s d"
      using shm_fields_more [of s1 s] by (simp_all add: vm_step_ok_def same_data_def)
    have cv: "canonical_view r (s1\<lparr>shm_regions := z\<rparr>) = canonical_view r s1" for r z by (simp add: canonical_view_def fun_eq_iff)
    show ?thesis
    proof (cases y)
      case (Inl emn)
      with m res f inv' show ?thesis by (cases emn) auto
    next
      case (Inr u)
      with m res f inv' cv show ?thesis by simp
    qed
  qed
qed

lemma map_page_active_succeeds:
  assumes "shm_inv R D s" and "is_page_aligned v" and "is_page_aligned p" and "vm_view s (vm_active_pml4 s) v = None"
    and "3 \<le> card (free_addrs s)"
  shows "\<exists>s'. map_page v p f s = (Inr (), s')"
proof -
  note a = active_facts [OF assms(1)]
  obtain x s' where m: "map_page_internal (vm_active_pml4 s) v p f s = (x, s')" by fastforce
  from map_page_internal_spec [OF a(1,2) m] assms(2-5) have "x = Inr ()" by (cases x) auto
  with m a(3) assms(2,3) show ?thesis by (simp add: map_page_def)
qed

definition region_example :: shm_sys where
  "region_example = snd (create_region 7 0x1000 shm_example)"

lemma region_example_ok:
  "\<exists>D. shm_inv {0x1000, 0x2000} D region_example \<and> vm_view region_example 0x1000 0x400000 = None
    \<and> card (free_addrs region_example) = 12 \<and> vm_active_pml4 region_example = 0x1000
    \<and> bt_get (shm_regions region_example) 1 = Some \<lparr>sr_id = 1, sr_owner = 7, sr_size = 0x1000, sr_pages = [0x3000], sr_mappings = [], sr_ref_count = 0\<rparr>"
proof -
  have get: "bt_get (shm_regions region_example) 1
      = Some \<lparr>sr_id = 1, sr_owner = 7, sr_size = 0x1000, sr_pages = [0x3000], sr_mappings = [], sr_ref_count = 0\<rparr>" by code_simp
  have "fst (create_region 7 0x1000 shm_example) = Inr 1" by code_simp
  then have "create_region 7 0x1000 shm_example = (Inr 1, region_example)" by (simp add: region_example_def prod_eq_iff)
  from create_region_ok [OF shm_example_inv _ this] get
  have "shm_inv {0x1000, 0x2000} {0, 0x3000} region_example" "same_views {0x1000, 0x2000} shm_example region_example"
    "free_addrs region_example = free_addrs vm_example - {0x3000}" "0x3000 \<in> free_addrs vm_example"
    "vm_active_pml4 region_example = 0x1000"
    by (auto simp: shm_example_frame same_data_def insert_commute)
  moreover from this have "vm_view region_example 0x1000 0x400000 = None"
    by (simp add: same_views_def shm_example_frame vm_example_view)
  ultimately show ?thesis using get vm_example_card by (intro exI [of _ "{0, 0x3000}"]) (simp add: card_Diff_subset)
qed

theorem shared_map_all_or_nothing_witness:
  "\<exists>s'. shm_map_region 1 8 0x400000 rf_read_write region_example = (Inr (), s')
    \<and> canonical_view 0x1000 s' 0x400000 = Some (pte_set 0x3000 (rf_to_page_flags rf_read_write))"
proof -
  obtain D where D: "shm_inv {0x1000, 0x2000} D region_example" "vm_view region_example 0x1000 0x400000 = None"
    "card (free_addrs region_example) = 12" "vm_active_pml4 region_example = 0x1000"
    and get: "bt_get (shm_regions region_example) 1
      = Some \<lparr>sr_id = 1, sr_owner = 7, sr_size = 0x1000, sr_pages = [0x3000], sr_mappings = [], sr_ref_count = 0\<rparr>"
    using region_example_ok by blast
  have al: "is_page_aligned 0x400000" "is_page_aligned 0x3000" "canonical_page 0x400000" by code_simp+
  have rv: "region_virt 0x400000 (Suc 0) = [0x400000]" by (simp add: region_virt_def)
  from map_page_active_succeeds [OF D(1) al(1,2)] D obtain s1
    where "map_page 0x400000 0x3000 (rf_to_page_flags rf_read_write) region_example = (Inr (), s1)" by auto
  then obtain s' where m: "shm_map_region 1 8 0x400000 rf_read_write region_example = (Inr (), s')"
    using get al rv by (simp add: shm_map_region_def shared_region_map_def)
  from shared_map_all_or_nothing [OF D(1) get _ m] al(3) rv D(4) m show ?thesis by simp
qed

text \<open>
  Creating and destroying a region gives the memory back: a created region has fresh,
  zeroed pages of the requested size; when its owner destroys it at once, the call succeeds
  and the free pages, the regions and every address space are as before the creation.
\<close>

lemma shared_create_destroy:
  assumes "shm_inv R D s" and "shm_next_id s \<noteq> u64_max" and "create_region owner sz s = (Inr i, s1)"
  shows "\<exists>rg s2. bt_get (shm_regions s1) i = Some rg \<and> sr_size rg = align_up sz \<and> set (sr_pages rg) \<subseteq> free_addrs s
    \<and> (\<forall>a \<in> set (sr_pages rg). ram_mem s1 a = (\<lambda>_. 0))
    \<and> destroy_region i owner s1 = (Inr (), s2) \<and> shm_inv R D s2 \<and> free_addrs s2 = free_addrs s
    \<and> (\<forall>j. bt_get (shm_regions s2) j = bt_get (shm_regions s) j) \<and> (\<forall>r \<in> R. \<forall>w. vm_view s2 r w = vm_view s r w)"
proof -
  from create_region_ok [OF assms] obtain rg where rg: "bt_get (shm_regions s) i = None" "bt_get (shm_regions s1) i = Some rg"
    "sr_owner rg = owner" "sr_size rg = align_up sz" "sr_ref_count rg = 0" "set (sr_pages rg) \<subseteq> free_addrs s - D"
    "\<forall>a \<in> set (sr_pages rg). ram_mem s1 a = (\<lambda>_. 0)" "shm_inv R (D \<union> set (sr_pages rg)) s1" "same_views R s s1"
    "free_addrs s1 = free_addrs s - set (sr_pages rg)" "\<forall>j. j \<noteq> i \<longrightarrow> bt_get (shm_regions s1) j = bt_get (shm_regions s) j"
    by blast
  obtain s2 where d: "destroy_region i owner s1 = (Inr (), s2)"
    using rg(2,3,5) by (simp add: destroy_region_def can_destroy_def)
  from destroy_region_ok [OF rg(8) d] rg(2)
  have s2: "shm_inv R (D \<union> set (sr_pages rg) - set (sr_pages rg)) s2" "shm_regions s2 = bt_remove i (shm_regions s1)"
    "free_addrs s2 = free_addrs s1 \<union> set (sr_pages rg)" "vm_view s2 = vm_view s1" by auto
  have "D \<union> set (sr_pages rg) - set (sr_pages rg) = D" using rg(6) by auto
  moreover have "free_addrs s2 = free_addrs s" using s2(3) rg(6,10) by auto
  moreover have "bt_wf (shm_regions s1)" using rg(8) registry_wf by (auto simp: shm_inv_def)
  ultimately show ?thesis using rg d s2
    by (intro exI [of _ rg] exI [of _ s2]) (auto simp: same_views_def)
qed

section \<open>Divergences\<close>

text \<open>
  The raw flags of a region do not survive a round trip: a read-only region is written as 4
  and read back as execute-only.
\<close>

lemma raw_flags_not_inverse: "rf_from_raw (rf_to_raw rf_read_only) = \<lparr>rf_read = False, rf_write = False, rf_execute = True\<rparr>"
  by code_simp

text \<open>The mapping loop accepts addresses in the kernel half, with the user bit set.\<close>

lemma shared_map_accepts_kernel_half:
  assumes "shm_inv R D s" and "bt_get (shm_regions s) i = Some rg" and "sr_pages rg = [p]" and "sr_mappings rg = []"
    and "is_page_aligned p" and "vm_view s (vm_active_pml4 s) KERNEL_BASE = None" and "3 \<le> card (free_addrs s)"
  shows "fst (shm_map_region i t KERNEL_BASE fl s) = Inr ()"
proof -
  have k: "is_page_aligned KERNEL_BASE" by code_simp
  have rv: "region_virt KERNEL_BASE (Suc 0) = [KERNEL_BASE]" by (simp add: region_virt_def)
  from map_page_active_succeeds [OF assms(1) k assms(5-7)] obtain s' where "map_page KERNEL_BASE p (rf_to_page_flags fl) s = (Inr (), s')" by blast
  then show ?thesis using assms(2-4) k rv by (simp add: shm_map_region_def shared_region_map_def)
qed

end
