(* ===== verification/Data_Pages.thy ===== *)
theory Data_Pages
  imports Shared_Mem
begin

text \<open>
  Pages beside the page tables: runs of pages taken from the physical memory manager become
  data pages of the memory invariant, writing to data pages changes no view of any
  address space, and freeing a run gives its pages back.
\<close>

lemma pt_entry_same:
  assumes "keyed K m" and "at_level K t is" and "\<And>u. u \<in> dom K \<Longrightarrow> m' u = m u"
  shows "pt_entry m' t is = pt_entry m t is"
  using assms(2)
proof (induction "is" arbitrary: t)
  case (Cons i js)
  have t: "m' t = m t" using Cons.prems by (intro assms(3)) (auto simp: at_level_def)
  show ?case
  proof (cases "js = [] \<or> \<not> pte_present (m t i)")
    case False
    with at_level_child [OF assms(1) Cons.prems] have "at_level K (pte_addr (m t i)) js" by blast
    from Cons.IH [OF this] False t show ?thesis by (simp add: pt_entry_simps)
  qed (cases "js = []", simp_all add: t pt_entry_simps)
qed (simp add: pt_entry_def)

lemma vm_data_write:
  assumes inv: "vm_inv R D s" and mem: "\<And>t. t \<notin> D \<Longrightarrow> ram_mem s' t = ram_mem s t"
    and pm: "pmm_inv s'" "free_addrs s' = free_addrs s" "managed_addrs s' = managed_addrs s"
  shows "vm_inv R D s' \<and> same_views R s s'"
proof -
  obtain K where K: "pmm_inv s" "keyed K (ram_mem s)" "dom K \<subseteq> managed_addrs s - free_addrs s" "roots_ok R K"
      "dom K \<inter> D = {}" "D \<subseteq> managed_addrs s - free_addrs s"
    using inv by (auto simp: vm_inv_def vm_ok_def)
  have same: "ram_mem s' t = ram_mem s t" if "t \<in> dom K" for t using that K(5) by (intro mem) blast
  have "keyed K (ram_mem s')"
    unfolding keyed_def
  proof (intro allI impI, elim conjE)
    fix t key i assume t: "K t = Some key" "length (snd key) < 3" "i < 512" "pte_present (ram_mem s' t i)"
    then have "ram_mem s' t = ram_mem s t" by (intro same) (rule domI)
    with t keyedD [OF K(2) t(1-3)] show "K (pte_addr (ram_mem s' t i)) = Some (child_key key i)" by simp
  qed
  then have "vm_inv R D s'" unfolding vm_inv_def vm_ok_def pm(2,3) using K pm(1) by (intro exI [of _ K]) auto
  moreover have "vm_view s' r w = vm_view s r w" if "r \<in> R" for r w
    unfolding vm_view_def using K(4) that
    by (intro pt_entry_same [OF K(2) _ same]) (auto simp: roots_ok_def intro: at_level_root)
  ultimately show ?thesis by (simp add: same_views_def)
qed

lemma region_virt_pages: "region_virt (page_to_addr start) n = map page_to_addr [start ..< start + n]"
  by (rule nth_equalityI) (simp_all add: region_virt_def page_to_addr_def algebra_simps)

lemma alloc_pages_frame:
  "ram_mem (snd (alloc_pages n s)) = ram_mem s" "vm_active_pml4 (snd (alloc_pages n s)) = vm_active_pml4 s"
  "vmm.more (snd (alloc_pages n s)) = vmm.more s" for s :: "'a vmm_scheme"
proof -
  have set: "ram_mem (set_page_allocated p s) = ram_mem s \<and> vm_active_pml4 (set_page_allocated p s) = vm_active_pml4 s
      \<and> vmm.more (set_page_allocated p s) = vmm.more s" for p and s :: "'a vmm_scheme"
    by (simp add: set_page_allocated_def)
  then have "ram_mem (fold (\<lambda>i. set_page_allocated (start + i)) is s) = ram_mem s
      \<and> vm_active_pml4 (fold (\<lambda>i. set_page_allocated (start + i)) is s) = vm_active_pml4 s
      \<and> vmm.more (fold (\<lambda>i. set_page_allocated (start + i)) is s) = vmm.more s" for start "is" and s :: "'a vmm_scheme"
    by (induction "is" arbitrary: s) simp_all
  with set show "ram_mem (snd (alloc_pages n s)) = ram_mem s" "vm_active_pml4 (snd (alloc_pages n s)) = vm_active_pml4 s"
    "vmm.more (snd (alloc_pages n s)) = vmm.more s"
    by (simp_all add: alloc_pages_def alloc_page_def split: option.split)
qed


lemma vm_inv_fewer: "vm_inv R D s \<Longrightarrow> D' \<subseteq> D \<Longrightarrow> vm_inv R D' s"
  unfolding vm_inv_def by (elim exE, rule exI) blast

lemma alloc_run_vm:
  fixes s :: "'a vmm_scheme"
  assumes inv: "vm_inv R D s" and al: "alloc_pages n s = (Some a, s')"
  shows "vm_inv R (D \<union> set (region_virt a n)) s' \<and> set (region_virt a n) \<subseteq> free_addrs s - D \<and> distinct (region_virt a n)
    \<and> is_page_aligned a \<and> free_addrs s' = free_addrs s - set (region_virt a n) \<and> managed_addrs s' = managed_addrs s"
proof -
  obtain start where st: "a = page_to_addr start" "{start ..< start + n} \<subseteq> free_set s"
    "free_set s' = free_set s - {start ..< start + n}" "pm_total s' = pm_total s"
    by (rule alloc_pages_run [OF al]) metis
  obtain K where K: "pmm_inv s" "keyed K (ram_mem s)" "dom K \<subseteq> managed_addrs s - free_addrs s" "roots_ok R K"
      "dom K \<inter> D = {}" "D \<subseteq> managed_addrs s - free_addrs s"
    using inv by (auto simp: vm_inv_def vm_ok_def)
  have inj: "inj_on page_to_addr (free_set s)"
    by (rule inj_onI) (metis free_set_bound K(1) page_to_addr_inj)
  have N: "set (region_virt a n) = page_to_addr ` {start ..< start + n}" by (simp add: st(1) region_virt_pages)
  have free: "set (region_virt a n) \<subseteq> free_addrs s" using st(2) by (auto simp: N free_addrs_def)
  have fa: "free_addrs s' = free_addrs s - set (region_virt a n)"
    using st(2,3) inj by (simp add: free_addrs_def N inj_on_image_set_diff)
  have ma: "managed_addrs s' = managed_addrs s" by (simp add: managed_addrs_def st(4))
  have fm: "free_addrs s \<subseteq> managed_addrs s"
    by (auto simp: free_addrs_def managed_addrs_def free_set_def is_page_free_bit)
  have "distinct (region_virt a n)"
    using inj_on_subset [OF inj st(2)] by (simp add: st(1) region_virt_pages distinct_map)
  moreover have "vm_inv R (D \<union> set (region_virt a n)) s'"
    unfolding vm_inv_def vm_ok_def fa ma alloc_pages_frame(1) [of n s, unfolded al snd_conv]
    using alloc_pages_inv [OF K(1) al] K free fm by (intro exI [of _ K]) auto
  ultimately show ?thesis using free fa ma K(6) by (auto simp: st(1) is_page_aligned_def)
qed

lemma zero_run_mem:
  "ram_mem (fold (\<lambda>i. zero_frame (a + of_nat i * PAGE_SIZE)) is s) t =
     (if t \<in> (\<lambda>i. a + of_nat i * PAGE_SIZE) ` set is then \<lambda>_. 0 else ram_mem s t)"
  by (induction "is" arbitrary: s) (auto simp: zero_frame_def)

lemma zero_run_frame [simp]:
  fixes s :: "'a vmm_scheme"
  shows "pmm_inv (fold (\<lambda>i. zero_frame (a + of_nat i * PAGE_SIZE)) is s) = pmm_inv s"
    "free_addrs (fold (\<lambda>i. zero_frame (a + of_nat i * PAGE_SIZE)) is s) = free_addrs s"
    "managed_addrs (fold (\<lambda>i. zero_frame (a + of_nat i * PAGE_SIZE)) is s) = managed_addrs s"
    "vm_active_pml4 (fold (\<lambda>i. zero_frame (a + of_nat i * PAGE_SIZE)) is s) = vm_active_pml4 s"
    "vmm.more (fold (\<lambda>i. zero_frame (a + of_nat i * PAGE_SIZE)) is s) = vmm.more s"
proof -
  have "pmm_inv (fold (\<lambda>i. zero_frame (a + of_nat i * PAGE_SIZE)) is s) = pmm_inv s
    \<and> free_addrs (fold (\<lambda>i. zero_frame (a + of_nat i * PAGE_SIZE)) is s) = free_addrs s
    \<and> managed_addrs (fold (\<lambda>i. zero_frame (a + of_nat i * PAGE_SIZE)) is s) = managed_addrs s
    \<and> vm_active_pml4 (fold (\<lambda>i. zero_frame (a + of_nat i * PAGE_SIZE)) is s) = vm_active_pml4 s
    \<and> vmm.more (fold (\<lambda>i. zero_frame (a + of_nat i * PAGE_SIZE)) is s) = vmm.more s"
  proof (induction "is" arbitrary: s)
    case (Cons i js)
    have "vm_active_pml4 (zero_frame b s) = vm_active_pml4 s" "vmm.more (zero_frame b s) = vmm.more s" for b
      by (simp_all add: zero_frame_def)
    with Cons [of "zero_frame (a + of_nat i * PAGE_SIZE) s"] show ?case by simp
  qed simp
  then show "pmm_inv (fold (\<lambda>i. zero_frame (a + of_nat i * PAGE_SIZE)) is s) = pmm_inv s"
    "free_addrs (fold (\<lambda>i. zero_frame (a + of_nat i * PAGE_SIZE)) is s) = free_addrs s"
    "managed_addrs (fold (\<lambda>i. zero_frame (a + of_nat i * PAGE_SIZE)) is s) = managed_addrs s"
    "vm_active_pml4 (fold (\<lambda>i. zero_frame (a + of_nat i * PAGE_SIZE)) is s) = vm_active_pml4 s"
    "vmm.more (fold (\<lambda>i. zero_frame (a + of_nat i * PAGE_SIZE)) is s) = vmm.more s" by simp_all
qed

text \<open>A zeroed run of pages: new data pages, every view as before.\<close>

lemma alloc_zeroed_run_vm:
  fixes s :: "'a vmm_scheme"
  assumes inv: "vm_inv R D s" and n: "0 < n" and al: "alloc_pages_zeroed n s = (Some a, s')"
  shows "vm_inv R (D \<union> set (region_virt a n)) s' \<and> set (region_virt a n) \<subseteq> free_addrs s - D \<and> distinct (region_virt a n)
    \<and> is_page_aligned a \<and> same_views R s s' \<and> same_data D s s' \<and> (\<forall>p \<in> set (region_virt a n). ram_mem s' p = (\<lambda>_. 0))
    \<and> free_addrs s' = free_addrs s - set (region_virt a n) \<and> vmm.more s' = vmm.more s"
proof -
  obtain s1 where s1: "alloc_pages n s = (Some a, s1)" and s': "s' = fold (\<lambda>i. zero_frame (a + of_nat i * PAGE_SIZE)) [0 ..< n] s1"
    using al n by (auto simp: alloc_pages_zeroed_def Let_def max_absorb1 split: prod.splits option.splits)
  note a1 = alloc_run_vm [OF inv s1] and fr = alloc_pages_frame [of n s, unfolded s1 snd_conv]
  let ?N = "set (region_virt a n)"
  have N: "?N = (\<lambda>i. a + of_nat i * PAGE_SIZE) ` set [0 ..< n]" by (simp add: region_virt_def)
  have mem: "ram_mem s' t = (if t \<in> ?N then \<lambda>_. 0 else ram_mem s t)" for t by (simp add: s' zero_run_mem N fr(1))
  have "pmm_inv s1" using a1 by (auto simp: vm_inv_def vm_ok_def)
  then have w: "vm_inv R (D \<union> ?N) s' \<and> same_views R s1 s'"
    using a1 by (intro vm_data_write) (simp_all add: s' zero_run_mem N)
  moreover have "same_views R s s1" by (simp add: same_views_def vm_view_def fr(1))
  ultimately have "same_views R s s'" by (metis same_views_trans)
  moreover have "same_data D s s'"
    using a1 fr mem by (auto simp: same_data_def s')
  ultimately show ?thesis using w a1 mem fr(3) by (simp add: s')
qed

lemma alloc_zeroed_None: "alloc_pages_zeroed n s = (None, s') \<Longrightarrow> pmm_inv s \<Longrightarrow> s' = s"
  by (auto simp: alloc_pages_zeroed_def Let_def dest: alloc_pages_None split: prod.splits option.splits)

lemma free_run_vm:
  assumes "vm_inv R D s" and "set (region_virt a n) \<subseteq> D" and "distinct (region_virt a n)"
  shows "vm_inv R (D - set (region_virt a n)) (free_pages a n s) \<and> free_addrs (free_pages a n s) = free_addrs s \<union> set (region_virt a n)
    \<and> ram_mem (free_pages a n s) = ram_mem s \<and> vm_view (free_pages a n s) = vm_view s
    \<and> vm_active_pml4 (free_pages a n s) = vm_active_pml4 s \<and> vmm.more (free_pages a n s) = vmm.more s"
proof -
  have "free_pages a n s = fold free_page (region_virt a n) s"
    by (simp add: free_pages_def region_virt_def fold_map comp_def)
  with free_list_vm [OF assms] show ?thesis by simp
qed

end
