(* ===== verification/Le_Bytes.thy ===== *)
theory Le_Bytes
  imports Atom_Prelude
begin

text \<open>
  Little-endian byte sequences, \<open>to_le_bytes\<close> and \<open>from_le_bytes\<close> of Rust's integers, and
  byte-addressed memory: writing a sequence of bytes and reading it back.
\<close>

definition le_bytes :: "nat \<Rightarrow> 'a::len word \<Rightarrow> u8 list" where
  "le_bytes n w = map (\<lambda>i. ucast (drop_bit (8 * i) w)) [0 ..< n]"

primrec of_le :: "u8 list \<Rightarrow> 'a::len word" where
  "of_le [] = 0"
| "of_le (b # bs) = ucast b OR push_bit 8 (of_le bs)"

lemma length_le_bytes [simp]: "length (le_bytes n w) = n"
  by (simp add: le_bytes_def)

lemma nth_le_bytes: "i < n \<Longrightarrow> le_bytes n w ! i = ucast (drop_bit (8 * i) w)"
  by (simp add: le_bytes_def)

lemma bit_of_le:
  "bit (of_le bs :: 'a::len word) k \<longleftrightarrow> k < LENGTH('a) \<and> k div 8 < length bs \<and> bit (bs ! (k div 8)) (k mod 8)"
proof (induction bs arbitrary: k)
  case (Cons b bs)
  show ?case
  proof (cases "k < 8")
    case True
    then show ?thesis by (auto simp: bit_or_iff bit_push_bit_iff bit_unsigned_iff)
  next
    case False
    then have "k div 8 = Suc ((k - 8) div 8)" "k mod 8 = (k - 8) mod 8" by (simp_all add: le_div_geq le_mod_geq)
    moreover have "\<not> bit b k"
    proof
      assume "bit b k"
      from bit_imp_le_length [OF this] False show False by simp
    qed
    ultimately show ?thesis using False Cons [of "k - 8"]
      by (auto simp: bit_or_iff bit_push_bit_iff bit_unsigned_iff)
  qed
qed simp

lemma of_le_le_bytes:
  assumes "LENGTH('a) \<le> 8 * n"
  shows "of_le (le_bytes n w) = (w :: 'a::len word)"
proof (rule bit_word_eqI)
  fix k assume k: "k < LENGTH('a)"
  with assms have "k div 8 < n" by (simp add: less_mult_imp_div_less mult.commute)
  with k show "bit (of_le (le_bytes n w) :: 'a word) k = bit w k"
    by (simp add: bit_of_le nth_le_bytes bit_unsigned_iff bit_drop_bit_eq)
qed

lemma of_le_append:
  "LENGTH('a) \<le> 8 * length bs \<Longrightarrow> of_le (bs @ cs) = (of_le bs :: 'a::len word)"
proof (rule bit_word_eqI)
  fix k assume "LENGTH('a) \<le> 8 * length bs" "k < LENGTH('a)"
  then have "k div 8 < length bs" by (simp add: less_mult_imp_div_less mult.commute)
  then show "bit (of_le (bs @ cs) :: 'a word) k = bit (of_le bs :: 'a word) k" by (simp add: bit_of_le nth_append)
qed

section \<open>Byte-addressed memory\<close>

type_synonym byte_mem = "u64 \<Rightarrow> u8"

fun write_bytes :: "u64 \<Rightarrow> u8 list \<Rightarrow> byte_mem \<Rightarrow> byte_mem" where
  "write_bytes a [] m = m"
| "write_bytes a (b # bs) m = write_bytes (a + 1) bs (m(a := b))"

definition read_bytes :: "u64 \<Rightarrow> nat \<Rightarrow> byte_mem \<Rightarrow> u8 list" where
  "read_bytes a n m = map (\<lambda>i. m (a + of_nat i)) [0 ..< n]"

lemma length_read_bytes [simp]: "length (read_bytes a n m) = n"
  by (simp add: read_bytes_def)

lemma write_bytes_outside:
  assumes "\<forall>i < length bs. x \<noteq> a + of_nat i"
  shows "write_bytes a bs m x = m x"
  using assms
proof (induction bs arbitrary: a m)
  case (Cons b bs)
  have ne: "x \<noteq> a" using Cons.prems [rule_format, of 0] by simp
  have "\<forall>i < length bs. x \<noteq> (a + 1) + of_nat i"
  proof (intro allI impI)
    fix i assume "i < length bs"
    with Cons.prems [rule_format, of "Suc i"] show "x \<noteq> (a + 1) + of_nat i" by (simp add: ac_simps)
  qed
  then have "write_bytes (a + 1) bs (m(a := b)) x = (m(a := b)) x" by (rule Cons.IH)
  with ne show ?case by (simp only: write_bytes.simps fun_upd_apply if_False)
qed simp

lemma write_bytes_inside:
  assumes "i < length bs" and "length bs \<le> 2 ^ 64"
  shows "write_bytes a bs m (a + of_nat i) = bs ! i"
  using assms
proof (induction bs arbitrary: a m i)
  case (Cons b bs)
  show ?case
  proof (cases i)
    case 0
    have "a \<noteq> (a + 1) + of_nat j" if "j < length bs" for j
    proof
      assume "a = (a + 1) + of_nat j"
      then have "(of_nat (Suc j) :: u64) = 0" by (simp add: ac_simps)
      then have "unat (of_nat (Suc j) :: u64) = 0" by (simp only: unsigned_0)
      then have "Suc j mod 2 ^ 64 = 0" by (simp add: unat_of_nat del: of_nat_Suc)
      with that Cons.prems(2) show False by (simp add: mod_less)
    qed
    with 0 write_bytes_outside [of bs a "a + 1"] show ?thesis by auto
  next
    case (Suc j)
    have "write_bytes (a + 1) bs (m(a := b)) ((a + 1) + of_nat j) = bs ! j" by (rule Cons.IH) (use Suc Cons.prems in simp_all)
    with Suc show ?thesis by (simp add: ac_simps)
  qed
qed simp

lemma read_write_bytes: "length bs \<le> 2 ^ 64 \<Longrightarrow> read_bytes a (length bs) (write_bytes a bs m) = bs"
  by (rule nth_equalityI) (simp_all add: read_bytes_def write_bytes_inside)

end
