(* ===== verification/Executable.thy ===== *)
theory Executable
  imports Data_Pages Le_Bytes
begin

text \<open>
  The executable loader, \<^verbatim>\<open>kernel/src/executable.rs\<close>: the ATXF image format, its parser, the
  embedded image, and loading into an address space with rollback of a partial load.
  A slice that is out of range panics; the parser returns \<open>None\<close> then.
\<close>

section \<open>The image format\<close>

definition ATXF_MAGIC :: u32 where "ATXF_MAGIC = 0x41545846"
definition ATXF_VERSION :: u16 where "ATXF_VERSION = 1"
definition USER_EXEC_LOAD_BASE :: usize where "USER_EXEC_LOAD_BASE = 0x00400000"
definition EMBEDDED_TEXT_OFFSET :: nat where "EMBEDDED_TEXT_OFFSET = 4096"
definition EMBEDDED_TEXT_SIZE :: nat where "EMBEDDED_TEXT_SIZE = 4096"
definition EMBEDDED_DATA_OFFSET :: nat where "EMBEDDED_DATA_OFFSET = EMBEDDED_TEXT_OFFSET + EMBEDDED_TEXT_SIZE"
definition EMBEDDED_BSS_SIZE :: nat where "EMBEDDED_BSS_SIZE = 4096"
definition EMBEDDED_IMAGE_SIZE :: nat where "EMBEDDED_IMAGE_SIZE = EMBEDDED_DATA_OFFSET"
definition EMBEDDED_TEXT :: "u8 list" where
  "EMBEDDED_TEXT = [0x48, 0xC7, 0xC0, 0x00, 0x00, 0x00, 0x00, 0x0F, 0x05, 0xEB, 0xF7]"

datatype exec_error =
    ExMissingImage
  | ExInvalidMagic
  | ExUnsupportedVersion u16
  | ExTruncated
  | ExMisalignedSection
  | ExOverlappingSection
  | ExEntryOutOfBounds
  | ExOutOfMemory
  | ExAddressSpace addrspace_error
  | ExNonCanonicalLayout

record atxf_header =
  hd_magic :: u32
  hd_version :: u16
  hd_header_size :: u16
  hd_entry_offset :: u32
  hd_text_offset :: u32
  hd_text_size :: u32
  hd_data_offset :: u32
  hd_data_size :: u32
  hd_bss_size :: u32

abbreviation HEADER_SIZE :: nat where "HEADER_SIZE \<equiv> 32"

text \<open>The packed layout of the header, in both directions.\<close>

definition header_bytes :: "atxf_header \<Rightarrow> u8 list" where
  "header_bytes h = le_bytes 4 (hd_magic h) @ le_bytes 2 (hd_version h) @ le_bytes 2 (hd_header_size h)
     @ le_bytes 4 (hd_entry_offset h) @ le_bytes 4 (hd_text_offset h) @ le_bytes 4 (hd_text_size h)
     @ le_bytes 4 (hd_data_offset h) @ le_bytes 4 (hd_data_size h) @ le_bytes 4 (hd_bss_size h)"

definition header_of :: "u8 list \<Rightarrow> atxf_header" where
  "header_of bs =
     \<lparr>hd_magic = of_le (List.take 4 bs), hd_version = of_le (List.take 2 (drop 4 bs)), hd_header_size = of_le (List.take 2 (drop 6 bs)),
      hd_entry_offset = of_le (List.take 4 (drop 8 bs)), hd_text_offset = of_le (List.take 4 (drop 12 bs)),
      hd_text_size = of_le (List.take 4 (drop 16 bs)), hd_data_offset = of_le (List.take 4 (drop 20 bs)),
      hd_data_size = of_le (List.take 4 (drop 24 bs)), hd_bss_size = of_le (List.take 4 (drop 28 bs))\<rparr>"

record executable_sections =
  es_entry_offset :: nat
  es_text :: "u8 list"
  es_data :: "u8 list"
  es_bss_size :: nat

record loaded_executable =
  le_entry_point :: usize
  le_text_base :: usize
  le_data_base :: usize
  le_bss_base :: usize

section \<open>Parsing\<close>

definition slice :: "nat \<Rightarrow> nat \<Rightarrow> 'a list \<Rightarrow> 'a list option" where
  "slice a b xs = (if a \<le> b \<and> b \<le> length xs then Some (List.take (b - a) (drop a xs)) else None)"

definition parse_image :: "u8 list \<Rightarrow> (exec_error + executable_sections) option" where
  "parse_image img =
     (if length img < HEADER_SIZE then Some (Inl ExTruncated)
      else
        let raw = header_of (List.take HEADER_SIZE img);
            header_size = unat (hd_header_size raw);
            text_offset = unat (hd_text_offset raw); text_size = unat (hd_text_size raw);
            data_offset = unat (hd_data_offset raw); data_size = unat (hd_data_size raw)
        in if hd_magic raw \<noteq> ATXF_MAGIC then Some (Inl ExInvalidMagic)
           else if hd_version raw \<noteq> ATXF_VERSION then Some (Inl (ExUnsupportedVersion (hd_version raw)))
           else if header_size < HEADER_SIZE then Some (Inl ExTruncated)
           else if text_offset mod 4096 \<noteq> 0 \<or> data_offset mod 4096 \<noteq> 0 then Some (Inl ExMisalignedSection)
           else if text_offset < header_size \<or> data_offset < header_size then Some (Inl ExOverlappingSection)
           else if text_offset + text_size > length img then Some (Inl ExTruncated)
           else if data_offset + data_size > length img then Some (Inl ExTruncated)
           else if (hd_text_offset raw \<le> hd_data_offset raw \<and> hd_text_offset raw + hd_text_size raw > hd_data_offset raw)
                 \<or> (hd_data_offset raw \<le> hd_text_offset raw \<and> hd_data_offset raw + hd_data_size raw > hd_text_offset raw)
             then Some (Inl ExOverlappingSection)
           else if unat (hd_entry_offset raw) \<ge> text_size then Some (Inl ExEntryOutOfBounds)
           else if length img < header_size then Some (Inl ExTruncated)
           else
             (case slice text_offset (text_offset + text_size) img of
                None \<Rightarrow> None
              | Some text \<Rightarrow>
                  (case slice data_offset (data_offset + data_size) img of
                     None \<Rightarrow> None
                   | Some data \<Rightarrow>
                       Some (Inr \<lparr>es_entry_offset = unat (hd_entry_offset raw), es_text = text, es_data = data,
                                  es_bss_size = unat (hd_bss_size raw)\<rparr>))))"

record executable_image =
  ei_ptr :: u64
  ei_size :: usize

definition is_present :: "executable_image \<Rightarrow> bool" where
  "is_present img \<longleftrightarrow> ei_ptr img \<noteq> 0 \<and> ei_size img > 0"

text \<open>\<open>mem\<close> is the memory in which the boot loader left the payload.\<close>

definition parse_boot_image :: "byte_mem \<Rightarrow> executable_image \<Rightarrow> (exec_error + executable_sections) option" where
  "parse_boot_image mem payload =
     (if \<not> is_present payload then Some (Inl ExMissingImage)
      else parse_image (read_bytes (ei_ptr payload) (unat (ei_size payload)) mem))"

section \<open>The embedded image\<close>

definition overwrite :: "nat \<Rightarrow> 'a list \<Rightarrow> 'a list \<Rightarrow> 'a list" where
  "overwrite i ys xs = List.take i xs @ ys @ drop (i + length ys) xs"

definition build_embedded_image :: "u8 list" where
  "build_embedded_image =
     (let header = \<lparr>hd_magic = ATXF_MAGIC, hd_version = ATXF_VERSION, hd_header_size = of_nat HEADER_SIZE, hd_entry_offset = 0,
            hd_text_offset = of_nat EMBEDDED_TEXT_OFFSET, hd_text_size = of_nat EMBEDDED_TEXT_SIZE,
            hd_data_offset = of_nat EMBEDDED_DATA_OFFSET, hd_data_size = 0, hd_bss_size = of_nat EMBEDDED_BSS_SIZE\<rparr>;
          img = replicate EMBEDDED_IMAGE_SIZE 0;
          img = overwrite 0 (header_bytes header) img
      in overwrite EMBEDDED_TEXT_OFFSET EMBEDDED_TEXT img)"

text \<open>The cell is built once, so every call gives the same image; \<open>expect\<close> panics on an error.\<close>

definition embedded_init_image :: "u8 list option" where
  "embedded_init_image =
     (case parse_image build_embedded_image of Some (Inr _) \<Rightarrow> Some build_embedded_image | _ \<Rightarrow> None)"

section \<open>Bytes of physical memory\<close>

definition ram_byte :: "usize \<Rightarrow> 'a ram_scheme \<Rightarrow> u8" where
  "ram_byte a r = ucast (drop_bit (8 * (unat a mod 8)) (ram_mem r (align_down a) (unat (a mod PAGE_SIZE) div 8)))"

definition ram_set_byte :: "usize \<Rightarrow> u8 \<Rightarrow> 'a ram_scheme \<Rightarrow> 'a ram_scheme" where
  "ram_set_byte a b r =
     (let page = align_down a; i = unat (a mod PAGE_SIZE) div 8; sh = 8 * (unat a mod 8); old = ram_mem r page i
      in r\<lparr>ram_mem := (ram_mem r)(page := (ram_mem r page)(i := (old AND NOT (push_bit sh 0xFF)) OR push_bit sh (ucast b)))\<rparr>)"

fun copy_to_ram :: "usize \<Rightarrow> u8 list \<Rightarrow> 'a ram_scheme \<Rightarrow> 'a ram_scheme" where
  "copy_to_ram a [] r = r"
| "copy_to_ram a (b # bs) r = copy_to_ram (a + 1) bs (ram_set_byte a b r)"

section \<open>Loading\<close>

definition map_segment ::
  "addrspace_id \<Rightarrow> u64 \<Rightarrow> usize \<Rightarrow> u8 list \<Rightarrow> page_flags \<Rightarrow> 'a as_sys_scheme
   \<Rightarrow> (exec_error + (usize \<times> usize \<times> usize) option) \<times> 'a as_sys_scheme" where
  "map_segment space owner virt_start data flags s =
     (if data = [] then (Inr None, s)
      else
        let sz = align_up (of_nat (length data)); pages = unat (sz div PAGE_SIZE)
        in case alloc_pages_zeroed pages s of
             (None, s1) \<Rightarrow> (Inl ExOutOfMemory, s1)
           | (Some phys_base, s1) \<Rightarrow>
               (case map_region space owner virt_start phys_base sz flags (copy_to_ram phys_base data s1) of
                  (Inr _, s2) \<Rightarrow> (Inr (Some (virt_start, phys_base, sz)), s2)
                | (Inl err, s2) \<Rightarrow> (Inl (ExAddressSpace err), free_pages phys_base pages s2)))"

definition map_zeroed_segment ::
  "addrspace_id \<Rightarrow> u64 \<Rightarrow> usize \<Rightarrow> usize \<Rightarrow> page_flags \<Rightarrow> 'a as_sys_scheme
   \<Rightarrow> (exec_error + (usize \<times> usize \<times> usize) option) \<times> 'a as_sys_scheme" where
  "map_zeroed_segment space owner virt_start sz flags s =
     (if sz = 0 then (Inr None, s)
      else
        let aligned_size = align_up sz; pages = unat (aligned_size div PAGE_SIZE)
        in case alloc_pages_zeroed pages s of
             (None, s1) \<Rightarrow> (Inl ExOutOfMemory, s1)
           | (Some phys_base, s1) \<Rightarrow>
               (case map_region space owner virt_start phys_base aligned_size flags s1 of
                  (Inr _, s2) \<Rightarrow> (Inr (Some (virt_start, phys_base, aligned_size)), s2)
                | (Inl err, s2) \<Rightarrow> (Inl (ExAddressSpace err), free_pages phys_base pages s2)))"

text \<open>Dropping an armed guard: the tracked mappings are undone, the last one first.\<close>

definition rollback_drop :: "addrspace_id \<Rightarrow> u64 \<Rightarrow> (usize \<times> usize \<times> usize) list \<Rightarrow> 'a as_sys_scheme \<Rightarrow> 'a as_sys_scheme" where
  "rollback_drop space owner mapped s =
     fold (\<lambda>(virt, phys, sz) s.
       free_pages phys (unat (sz div PAGE_SIZE)) (snd (unmap_region space owner virt sz s))) (rev mapped) s"

definition track :: "'m option \<Rightarrow> 'm list \<Rightarrow> 'm list" where
  "track m mapped = (case m of None \<Rightarrow> mapped | Some x \<Rightarrow> mapped @ [x])"

definition do_load ::
  "executable_sections \<Rightarrow> addrspace_id \<Rightarrow> u64 \<Rightarrow> 'a as_sys_scheme \<Rightarrow> (exec_error + loaded_executable) \<times> 'a as_sys_scheme" where
  "do_load sections space owner s =
     (let text_base = USER_EXEC_LOAD_BASE;
          text_size = align_up (of_nat (length (es_text sections)));
          data_base = align_up (text_base + text_size);
          data_size = align_up (of_nat (length (es_data sections)));
          bss_base = align_up (data_base + data_size);
          bss_size = align_up (of_nat (es_bss_size sections));
          highest_virt = saturating_add bss_base bss_size
      in if highest_virt > USER_CANONICAL_MAX then (Inl ExNonCanonicalLayout, s)
         else
           (case map_segment space owner text_base (es_text sections) (PG_PRESENT OR PG_USER) s of
              (Inl e, s1) \<Rightarrow> (Inl e, rollback_drop space owner [] s1)
            | (Inr m1, s1) \<Rightarrow>
                let t1 = track m1 [] in
                (case map_segment space owner data_base (es_data sections) (PG_PRESENT OR PG_USER OR PG_WRITABLE) s1 of
                   (Inl e, s2) \<Rightarrow> (Inl e, rollback_drop space owner t1 s2)
                 | (Inr m2, s2) \<Rightarrow>
                     let t2 = track m2 t1;
                         loaded = \<lparr>le_entry_point = USER_EXEC_LOAD_BASE + of_nat (es_entry_offset sections),
                                   le_text_base = text_base, le_data_base = data_base, le_bss_base = bss_base\<rparr>
                     in if es_bss_size sections > 0 then
                          (case map_zeroed_segment space owner bss_base bss_size (PG_PRESENT OR PG_USER OR PG_WRITABLE) s2 of
                             (Inl e, s3) \<Rightarrow> (Inl e, rollback_drop space owner t2 s3)
                           | (Inr m3, s3) \<Rightarrow> (Inr loaded, s3))
                        else (Inr loaded, s2))))"

definition load_into_address_space ::
  "u8 list \<Rightarrow> addrspace_id \<Rightarrow> u64 \<Rightarrow> 'a as_sys_scheme \<Rightarrow> ((exec_error + loaded_executable) \<times> 'a as_sys_scheme) option" where
  "load_into_address_space img space owner s =
     (case parse_image img of
        None \<Rightarrow> None
      | Some (Inl e) \<Rightarrow> Some (Inl e, s)
      | Some (Inr sections) \<Rightarrow> Some (do_load sections space owner s))"

definition load_boot_payload ::
  "byte_mem \<Rightarrow> executable_image \<Rightarrow> addrspace_id \<Rightarrow> u64 \<Rightarrow> 'a as_sys_scheme
   \<Rightarrow> ((exec_error + loaded_executable) \<times> 'a as_sys_scheme) option" where
  "load_boot_payload mem payload space owner s =
     (case parse_boot_image mem payload of
        None \<Rightarrow> None
      | Some (Inl e) \<Rightarrow> Some (Inl e, s)
      | Some (Inr sections) \<Rightarrow> Some (do_load sections space owner s))"

section \<open>Parsing accepts well-formed images only\<close>

lemma slice_Some_iff: "slice a b xs = Some ys \<longleftrightarrow> a \<le> b \<and> b \<le> length xs \<and> ys = List.take (b - a) (drop a xs)"
  by (auto simp: slice_def)

lemma le_prefix: "List.take n (le_bytes n w @ ys) = le_bytes n w"
  by simp

lemma header_round_trip: "header_of (header_bytes h) = h"
  by (simp add: header_of_def header_bytes_def of_le_le_bytes)

lemma length_header_bytes [simp]: "length (header_bytes h) = HEADER_SIZE"
  by (simp add: header_bytes_def)

lemma no_wrap32:
  assumes "unat (a :: u32) + unat (b :: u32) < 2 ^ 32"
  shows "unat (a + b) = unat a + unat b"
  using assms by (simp add: unat_word_ariths)

text \<open>Text at offset \<open>t\<close> and data at offset \<open>d\<close> of an image, as a loader needs them.\<close>

definition sections_at :: "nat \<Rightarrow> nat \<Rightarrow> u8 list \<Rightarrow> executable_sections \<Rightarrow> bool" where
  "sections_at t d img sec \<longleftrightarrow>
     es_text sec = List.take (length (es_text sec)) (drop t img) \<and> es_data sec = List.take (length (es_data sec)) (drop d img)
     \<and> t mod 4096 = 0 \<and> d mod 4096 = 0 \<and> HEADER_SIZE \<le> t \<and> HEADER_SIZE \<le> d
     \<and> t + length (es_text sec) \<le> length img \<and> d + length (es_data sec) \<le> length img
     \<and> (t + length (es_text sec) \<le> d \<or> d + length (es_data sec) \<le> t) \<and> es_entry_offset sec < length (es_text sec)
     \<and> length (es_text sec) < 2 ^ 32 \<and> length (es_data sec) < 2 ^ 32 \<and> es_bss_size sec < 2 ^ 32"

lemma parse_image_sections:
  assumes "length img < 2 ^ 32"
  shows "parse_image img \<noteq> None \<and> (\<forall>sec. parse_image img = Some (Inr sec) \<longrightarrow> (\<exists>t d. sections_at t d img sec))"
proof -
  define raw where "raw = header_of (List.take HEADER_SIZE img)"
  let ?t = "unat (hd_text_offset raw)" and ?n = "unat (hd_text_size raw)"
  let ?d = "unat (hd_data_offset raw)" and ?k = "unat (hd_data_size raw)"
  show ?thesis
  proof (cases "\<exists>e. parse_image img = Some (Inl e)")
    case False
    have guards: "\<not> length img < HEADER_SIZE" "HEADER_SIZE \<le> unat (hd_header_size raw)" "?t mod 4096 = 0" "?d mod 4096 = 0"
      "unat (hd_header_size raw) \<le> ?t" "unat (hd_header_size raw) \<le> ?d" "?t + ?n \<le> length img" "?d + ?k \<le> length img"
      "\<not> (hd_text_offset raw \<le> hd_data_offset raw \<and> hd_text_offset raw + hd_text_size raw > hd_data_offset raw)"
      "\<not> (hd_data_offset raw \<le> hd_text_offset raw \<and> hd_data_offset raw + hd_data_size raw > hd_text_offset raw)"
      "unat (hd_entry_offset raw) < ?n"
      using False by (auto simp: parse_image_def Let_def raw_def [symmetric] not_less split: if_splits)
    have p: "parse_image img = Some (Inr \<lparr>es_entry_offset = unat (hd_entry_offset raw), es_text = List.take ?n (drop ?t img),
        es_data = List.take ?k (drop ?d img), es_bss_size = unat (hd_bss_size raw)\<rparr>)"
      using False guards(7,8) by (auto simp: parse_image_def Let_def raw_def [symmetric] slice_def split: if_splits)
    have "?t + ?n < 2 ^ 32" "?d + ?k < 2 ^ 32" using guards(7,8) assms by linarith+
    then have "?t + ?n \<le> ?d \<or> ?d + ?k \<le> ?t"
      using guards(9,10) no_wrap32 [of "hd_text_offset raw" "hd_text_size raw"] no_wrap32 [of "hd_data_offset raw" "hd_data_size raw"]
      by (auto simp: word_le_nat_alt word_less_nat_alt)
    moreover have "?n < 2 ^ 32" "?k < 2 ^ 32" "unat (hd_bss_size raw) < 2 ^ 32"
      using unsigned_less [of "hd_text_size raw"] unsigned_less [of "hd_data_size raw"] unsigned_less [of "hd_bss_size raw"] by simp_all
    moreover have "length (List.take ?n (drop ?t img)) = ?n" "length (List.take ?k (drop ?d img)) = ?k" using guards(7,8) by simp_all
    ultimately have "sections_at ?t ?d img \<lparr>es_entry_offset = unat (hd_entry_offset raw), es_text = List.take ?n (drop ?t img),
        es_data = List.take ?k (drop ?d img), es_bss_size = unat (hd_bss_size raw)\<rparr>"
      using guards unfolding sections_at_def by simp
    with p show ?thesis by auto
  qed auto
qed


lemma length_overwrite [simp]: "i + length ys \<le> length xs \<Longrightarrow> length (overwrite i ys xs) = length xs"
  by (simp add: overwrite_def)

lemma take_overwrite: "n \<le> i \<Longrightarrow> i + length ys \<le> length xs \<Longrightarrow> List.take n (overwrite i ys xs) = List.take n xs"
  by (simp add: overwrite_def min_absorb1)

lemma drop_overwrite: "i + length ys \<le> length xs \<Longrightarrow> drop i (overwrite i ys xs) = ys @ drop (i + length ys) xs"
  by (simp add: overwrite_def)

lemmas embedded_defs = EMBEDDED_TEXT_OFFSET_def EMBEDDED_TEXT_SIZE_def EMBEDDED_DATA_OFFSET_def EMBEDDED_BSS_SIZE_def EMBEDDED_IMAGE_SIZE_def

lemma embedded_image_parses:
  "parse_image build_embedded_image = Some (Inr \<lparr>es_entry_offset = 0, es_text = EMBEDDED_TEXT @ replicate (4096 - length EMBEDDED_TEXT) 0,
     es_data = [], es_bss_size = 4096\<rparr>)"
  and length_embedded_image: "length build_embedded_image = 8192"
proof -
  define h where "h = \<lparr>hd_magic = ATXF_MAGIC, hd_version = ATXF_VERSION, hd_header_size = 32, hd_entry_offset = 0,
    hd_text_offset = 4096, hd_text_size = 4096, hd_data_offset = 8192, hd_data_size = 0, hd_bss_size = 4096\<rparr>"
  let ?z = "overwrite 0 (header_bytes h) (replicate 8192 (0 :: u8))"
  have b: "build_embedded_image = overwrite 4096 EMBEDDED_TEXT ?z"
    by (simp add: build_embedded_image_def h_def embedded_defs Let_def)
  have t: "length EMBEDDED_TEXT = 11" by (simp add: EMBEDDED_TEXT_def)
  have len: "length build_embedded_image = 8192" by (simp add: b t)
  have hd: "header_of (List.take 32 build_embedded_image) = h"
    by (simp add: b t take_overwrite) (simp add: overwrite_def header_round_trip)
  have "drop 4096 ?z = replicate 4096 0" by (simp add: overwrite_def drop_Cons')
  then have txt1: "List.take 4096 (drop 4096 build_embedded_image) = EMBEDDED_TEXT @ replicate 4085 0"
    by (simp add: b drop_overwrite t) (simp add: overwrite_def)
  have p: "parse_image build_embedded_image = Some (Inr \<lparr>es_entry_offset = 0, es_text = EMBEDDED_TEXT @ replicate 4085 0,
     es_data = [], es_bss_size = 4096\<rparr>)"
    unfolding parse_image_def using len hd txt1 by (simp add: t h_def Let_def slice_def ATXF_MAGIC_def ATXF_VERSION_def)
  then show "parse_image build_embedded_image = Some (Inr \<lparr>es_entry_offset = 0, es_text = EMBEDDED_TEXT @ replicate (4096 - length EMBEDDED_TEXT) 0,
     es_data = [], es_bss_size = 4096\<rparr>)" by (simp add: t)
  show "length build_embedded_image = 8192" by (rule len)
qed

text \<open>
  The built-in fallback works: the embedded image passes the parser, with the program at
  the start of a zero-filled text page, an empty data section and one page of bss.
\<close>

lemma embedded_image_accepted:
  "embedded_init_image = Some build_embedded_image \<and>
   parse_image build_embedded_image = Some (Inr \<lparr>es_entry_offset = 0, es_text = EMBEDDED_TEXT @ replicate (4096 - length EMBEDDED_TEXT) 0,
     es_data = [], es_bss_size = 4096\<rparr>)"
  by (simp add: embedded_image_parses embedded_init_image_def)


section \<open>Bytes of physical memory\<close>

lemma byte_of_word:
  assumes "i < 8" and "j < 8"
  shows "(ucast (drop_bit (8 * i) ((w AND NOT (push_bit (8 * j) 0xFF)) OR push_bit (8 * j) (ucast (b :: u8)))) :: u8)
    = (if i = j then b else ucast (drop_bit (8 * i) (w :: u64)))"
proof (rule bit_word_eqI)
  fix k assume "k < LENGTH(8)"
  then have k: "k < 8" by simp
  have ff: "(0xFF :: u64) = mask 8" by (simp add: mask_eq_exp_minus_1)
  have "8 * i + k < 64" using assms k by linarith
  moreover have "8 * j \<le> 8 * i + k \<and> 8 * i + k - 8 * j < 8 \<longleftrightarrow> i = j" using assms k by (cases i j rule: linorder_cases) auto
  ultimately show "bit (ucast (drop_bit (8 * i) ((w AND NOT (push_bit (8 * j) 0xFF)) OR push_bit (8 * j) (ucast b))) :: u8) k
      = bit (if i = j then b else ucast (drop_bit (8 * i) w)) k"
    using k by (auto simp: ff bit_simps dest: bit_imp_le_length)
qed

lemma word_in_page: "unat ((a :: usize) mod PAGE_SIZE) = unat a mod 4096"
  by (simp add: unat_mod)

lemma ram_byte_set: "ram_byte x (ram_set_byte a b r) = (if x = a then b else ram_byte x r)"
proof (cases "align_down x = align_down a \<and> unat (x mod PAGE_SIZE) div 8 = unat (a mod PAGE_SIZE) div 8")
  case True
  have "x = a" if "unat x mod 8 = unat a mod 8"
  proof -
    have "unat (x mod PAGE_SIZE) mod 8 = unat (a mod PAGE_SIZE) mod 8" using that by (simp add: word_in_page mod_mod_cancel)
    with True have "unat (x mod PAGE_SIZE) = unat (a mod PAGE_SIZE)" by (metis div_mult_mod_eq)
    then have "x mod PAGE_SIZE = a mod PAGE_SIZE" by (simp add: word_unat_eq_iff)
    with True show ?thesis by (simp add: align_down_mod)
  qed
  with True byte_of_word [of "unat x mod 8" "unat a mod 8"] show ?thesis
    by (auto simp: ram_byte_def ram_set_byte_def Let_def)
qed (auto simp: ram_byte_def ram_set_byte_def Let_def)

lemma ram_byte_copy:
  "length bs \<le> 2 ^ 64 \<Longrightarrow> ram_byte x (copy_to_ram a bs r) = (if unat (x - a) < length bs then bs ! unat (x - a) else ram_byte x r)"
proof (induction bs arbitrary: a r)
  case (Cons b bs)
  show ?case
  proof (cases "x = a")
    case True
    have "unat (x - (a + 1)) = 2 ^ 64 - 1" using True by (simp add: unsigned_minus_1_eq_mask mask_eq_exp_minus_1)
    with Cons True show ?thesis by (simp add: ram_byte_set)
  next
    case False
    then have "unat (x - a) = Suc (unat (x - (a + 1)))"
      using unat_inc [of "x - (a + 1)"] by (simp add: algebra_simps)
    with Cons False show ?thesis by (simp add: ram_byte_set)
  qed
qed simp

lemma ram_byte_mem: "ram_mem r' (align_down x) = ram_mem r (align_down x) \<Longrightarrow> ram_byte x r' = ram_byte x r"
  by (simp add: ram_byte_def)

lemma copy_frame:
  fixes s :: "'a vmm_scheme"
  shows "pmm_inv (copy_to_ram a bs s) = pmm_inv s" "free_addrs (copy_to_ram a bs s) = free_addrs s"
    "managed_addrs (copy_to_ram a bs s) = managed_addrs s" "vm_active_pml4 (copy_to_ram a bs s) = vm_active_pml4 s"
    "vmm.more (copy_to_ram a bs s) = vmm.more s"
proof -
  have one: "pmm_inv (ram_set_byte a b s) = pmm_inv s" "free_addrs (ram_set_byte a b s) = free_addrs s"
    "managed_addrs (ram_set_byte a b s) = managed_addrs s" "vm_active_pml4 (ram_set_byte a b s) = vm_active_pml4 s"
    "vmm.more (ram_set_byte a b s) = vmm.more s" for a b and s :: "'a vmm_scheme"
    by (simp_all add: ram_set_byte_def Let_def free_addrs_def managed_addrs_def free_set_def is_page_free_def pmm_inv_def)
  show "pmm_inv (copy_to_ram a bs s) = pmm_inv s" by (induction bs arbitrary: a s) (simp_all add: one)
  show "free_addrs (copy_to_ram a bs s) = free_addrs s" by (induction bs arbitrary: a s) (simp_all add: one)
  show "managed_addrs (copy_to_ram a bs s) = managed_addrs s" by (induction bs arbitrary: a s) (simp_all add: one)
  show "vm_active_pml4 (copy_to_ram a bs s) = vm_active_pml4 s" by (induction bs arbitrary: a s) (simp_all add: one)
  show "vmm.more (copy_to_ram a bs s) = vmm.more s" by (induction bs arbitrary: a s) (simp_all add: one)
qed

lemma copy_pages:
  "t \<notin> (\<lambda>i. align_down (a + of_nat i)) ` {..< length bs} \<Longrightarrow> ram_mem (copy_to_ram a bs r) t = ram_mem r t"
proof (induction bs arbitrary: a r)
  case (Cons b bs)
  have "align_down (a + 1 + of_nat i) = align_down (a + of_nat (Suc i))" for i by (simp add: algebra_simps)
  then have "t \<notin> (\<lambda>i. align_down (a + 1 + of_nat i)) ` {..< length bs}"
    using Cons.prems by (force simp: image_iff)
  moreover have "t \<noteq> align_down a" using Cons.prems by (force simp: image_iff)
  ultimately show ?case using Cons.IH by (simp add: ram_set_byte_def Let_def)
qed simp

lemma align_down_offset:
  assumes "is_page_aligned a"
  shows "align_down (a + of_nat i) = a + of_nat (i div 4096) * PAGE_SIZE"
proof -
  have "unat ((a + of_nat i) mod PAGE_SIZE) = unat ((of_nat (i mod 4096)) :: usize)"
  proof -
    have "unat a mod 4096 = 0" using assms by (simp add: is_page_aligned_def word_unat_eq_iff unat_mod)
    then have "(unat a + y) mod 4096 = y mod 4096" for y by (metis add.left_neutral mod_add_left_eq)
    then show ?thesis by (simp add: unat_mod unat_word_ariths unat_of_nat mod_mod_cancel)
  qed
  then have "(a + of_nat i) mod PAGE_SIZE = of_nat (i mod 4096)" by (simp only: word_unat_eq_iff)
  moreover have "(of_nat i :: usize) = of_nat (i div 4096) * PAGE_SIZE + of_nat (i mod 4096)"
    by (metis div_mult_mod_eq of_nat_add of_nat_mult of_nat_numeral)
  ultimately show ?thesis by (simp add: align_down_mod)
qed

lemma copy_in_run:
  assumes "is_page_aligned a" and "length bs \<le> n * 4096"
  shows "(\<lambda>i. align_down (a + of_nat i)) ` {..< length bs} \<subseteq> set (region_virt a n)"
proof
  fix t assume "t \<in> (\<lambda>i. align_down (a + of_nat i)) ` {..< length bs}"
  then obtain i where i: "i < length bs" "t = a + of_nat (i div 4096) * PAGE_SIZE" by (auto simp: align_down_offset [OF assms(1)])
  with assms(2) have "i div 4096 < n" by (simp add: less_mult_imp_div_less)
  with i show "t \<in> set (region_virt a n)" by (auto simp: region_virt_def)
qed

section \<open>Loading is all or nothing\<close>

text \<open>
  A fresh run of pages with contents \<open>bs\<close>, mapped at \<open>v\<close>: the common part of both kinds of
  segment. \<open>s1\<close> is the state after the pages have been filled.
\<close>

definition segment_ok ::
  "usize set \<Rightarrow> usize set \<Rightarrow> usize \<Rightarrow> usize \<Rightarrow> usize \<Rightarrow> nat \<Rightarrow> page_flags \<Rightarrow> 'a as_sys_scheme \<Rightarrow> 'a as_sys_scheme \<Rightarrow> bool" where
  "segment_ok R D r v p n f s s' \<longleftrightarrow>
     as_inv R (D \<union> set (region_virt p n)) s' \<and> set (region_virt p n) \<inter> D = {} \<and> distinct (region_virt p n) \<and> is_page_aligned p
     \<and> (\<forall>r' \<in> R - {r}. \<forall>w. vm_view s' r' w = vm_view s r' w) \<and> (\<forall>d \<in> D. ram_mem s' d = ram_mem s d)
     \<and> (\<forall>w \<in> set (region_virt v n). user_view r s w = None)
     \<and> user_view r s' = user_view r s ++ region_entries v p n f"

definition unchanged :: "usize set \<Rightarrow> usize set \<Rightarrow> usize \<Rightarrow> 'a as_sys_scheme \<Rightarrow> 'a as_sys_scheme \<Rightarrow> bool" where
  "unchanged R D r s s' \<longleftrightarrow> as_inv R D s' \<and> (\<forall>r' \<in> R - {r}. \<forall>w. vm_view s' r' w = vm_view s r' w)
     \<and> (\<forall>d \<in> D. ram_mem s' d = ram_mem s d) \<and> user_view r s' = user_view r s"

lemma user_view_same_views: "same_views R s s' \<Longrightarrow> r \<in> R \<Longrightarrow> user_view r s' = user_view r s"
  by (simp add: same_views_def user_view_def fun_eq_iff)

lemma as_inv_views:
  assumes "as_inv R D s" and "vm_inv R D' s'" and "D \<subseteq> D'" and "vm_active_pml4 s' = vm_active_pml4 s" and "vmm.more s' = vmm.more s"
  shows "as_inv R D' s'"
  using assms as_fields_more [OF assms(5)] by (auto simp: as_inv_def)

lemma map_fresh_run:
  assumes inv: "as_inv R D s" and a: "bt_get (as_spaces s) i = Some a" and f: "pte_present f" and n: "0 < n" "num_pages sz = n"
    and al: "alloc_pages_zeroed n s = (Some p, s1)" and len: "length bs \<le> n * 4096"
    and mp: "map_region i owner v p sz f (copy_to_ram p bs s1) = (x, s2)"
  shows "case x of
      Inl e \<Rightarrow> unchanged R D (as_pml4_phys a) s (free_pages p n s2) \<and> as_spaces (free_pages p n s2) = as_spaces s
    | Inr _ \<Rightarrow> segment_ok R D (as_pml4_phys a) v p n f s s2 \<and> as_owner a = owner
        \<and> as_spaces s2 = bt_insert i (inc_mappings (of_nat n) a) (as_spaces s)
        \<and> (\<forall>d \<in> set (region_virt p n). ram_mem s2 d = ram_mem (copy_to_ram p bs s1) d)"
proof -
  let ?r = "as_pml4_phys a" and ?N = "set (region_virt p n)" and ?c = "copy_to_ram p bs s1"
  have vi: "vm_inv R D s" using inv by (simp add: as_inv_def)
  have r: "?r \<in> R" by (rule as_inv_root [OF inv a])
  note z = alloc_zeroed_run_vm [OF vi n(1) al]
  have w: "vm_inv R (D \<union> ?N) ?c \<and> same_views R s1 ?c"
  proof (rule vm_data_write)
    show "vm_inv R (D \<union> ?N) s1" using z by simp
    show "ram_mem ?c t = ram_mem s1 t" if "t \<notin> D \<union> ?N" for t
      using that copy_in_run [OF _ len, of p] z by (intro copy_pages) blast
    show "pmm_inv ?c" using z by (simp add: copy_frame vm_inv_def vm_ok_def)
  qed (simp_all add: copy_frame)
  have views: "same_views R s ?c" using z w same_views_trans by blast
  have more: "vmm.more ?c = vmm.more s" "vm_active_pml4 ?c = vm_active_pml4 s" using z by (simp_all add: copy_frame same_data_def)
  have ic: "as_inv R (D \<union> ?N) ?c" by (rule as_inv_views [OF inv]) (use w more in simp_all)
  have sp: "as_spaces ?c = as_spaces s" using as_fields_more [OF more(1)] by simp
  have dat: "ram_mem ?c d = ram_mem s d" if "d \<in> D" for d
  proof -
    have "d \<notin> ?N" using that z by blast
    then have "ram_mem ?c d = ram_mem s1 d" using copy_in_run [OF _ len, of p] z by (intro copy_pages) blast
    with that z show ?thesis by (simp add: same_data_def)
  qed
  note m = map_region_spec [OF ic _ f mp, unfolded sp, OF a]
  have other: "vm_view s2 r' w = vm_view s r' w" if "r' \<in> R - {?r}" for r' w
    using that m views by (simp add: same_views_def)
  have data2: "ram_mem s2 d = ram_mem s d" if "d \<in> D" for d using that m dat by simp
  have uv: "user_view ?r ?c = user_view ?r s" by (rule user_view_same_views [OF views r])
  show ?thesis
  proof (cases x)
    case (Inl e)
    have v2: "vm_inv R (D \<union> ?N) s2" using m by (simp add: as_inv_def)
    note fr = free_run_vm [OF v2, of p n]
    have fr': "vm_inv R (D \<union> ?N - ?N) (free_pages p n s2)" "ram_mem (free_pages p n s2) = ram_mem s2" "vm_view (free_pages p n s2) = vm_view s2"
      "vm_active_pml4 (free_pages p n s2) = vm_active_pml4 s2" "vmm.more (free_pages p n s2) = vmm.more s2"
      using fr z by simp_all
    have D: "D \<union> ?N - ?N = D" using z by blast
    have sp2: "as_spaces (free_pages p n s2) = as_spaces s" using as_fields_more [OF fr'(5)] m Inl by simp
    have "as_inv R (D \<union> ?N) s2" using m by simp
    then have "as_inv R D (free_pages p n s2)"
      using fr'(1,4) D as_fields_more [OF fr'(5)] inv by (simp add: as_inv_def)
    moreover have "user_view ?r (free_pages p n s2) = user_view ?r s2" by (simp add: user_view_def fr'(3) fun_eq_iff)
    ultimately show ?thesis using m Inl uv other data2 sp2 fr'(2,3) by (simp add: unchanged_def)
  next
    case (Inr u)
    have "?N \<inter> D = {}" "distinct (region_virt p n)" "is_page_aligned p" using z by blast+
    with m Inr uv other data2 sp n(2) show ?thesis by (simp add: segment_ok_def)
  qed
qed

definition registered :: "addrspace_id \<Rightarrow> usize \<Rightarrow> u64 \<Rightarrow> 'a as_sys_scheme \<Rightarrow> bool" where
  "registered i r owner s \<longleftrightarrow> (\<exists>b. bt_get (as_spaces s) i = Some b \<and> as_pml4_phys b = r \<and> as_owner b = owner)"

definition user_range :: "usize \<Rightarrow> usize \<Rightarrow> bool" where
  "user_range v sz \<longleftrightarrow> is_page_aligned v \<and> sz \<noteq> 0 \<and> \<not> v > USER_CANONICAL_MAX \<and> \<not> v \<ge> KERNEL_BASE \<and> check_user_range v sz = None"

lemma map_region_guards: "map_region i owner v p sz f s = (Inr u, s') \<Longrightarrow> user_range v sz"
  by (auto simp: map_region_def user_range_def split: if_splits option.splits)

lemma region_entries_None:
  assumes "w \<notin> set (region_virt v n)"
  shows "region_entries v p n f w = None"
proof -
  have "map fst (map (\<lambda>(v, p). (v, pte_set p f)) (region_pages v p n)) = region_virt v n"
    by (simp add: comp_def case_prod_beta)
  from arg_cong [OF this, of set]
  have "fst ` set (map (\<lambda>(v, p). (v, pte_set p f)) (region_pages v p n)) = set (region_virt v n)" by (simp only: set_map)
  with assms show ?thesis by (simp only: map_of_eq_None_iff not_False_eq_True)
qed

lemma undo_segment:
  assumes seg: "segment_ok R D r v p n f s s'" and t: "unchanged R (D \<union> set (region_virt p n)) r s' t"
    and reg: "registered i r owner t" and v: "user_range v sz" and n: "num_pages sz = n" and D: "0 \<in> D"
  shows "unchanged R D r s (free_pages p n (snd (unmap_region i owner v sz t)))
    \<and> registered i r owner (free_pages p n (snd (unmap_region i owner v sz t)))"
proof -
  let ?N = "set (region_virt p n)"
  obtain b where b: "bt_get (as_spaces t) i = Some b" "as_pml4_phys b = r" "as_owner b = owner" using reg by (auto simp: registered_def)
  have it: "as_inv R (D \<union> ?N) t" using t by (simp add: unchanged_def)
  obtain k u1 where run: "unmap_run (unmap_page_in_pml4 (as_pml4_phys b)) (region_virt v (num_pages sz)) t = (k, u1)" by fastforce
  define u where "u = u1\<lparr>as_spaces := bt_insert i (dec_mappings (of_nat n) b) (as_spaces u1)\<rparr>"
  have u: "snd (unmap_region i owner v sz t) = u"
    using v b run n by (simp add: unmap_region_def user_range_def as_is_owned_by_def u_def)
  note m = unmap_region_run [OF it b(1) _ _ run, unfolded b(2)]
  have m': "as_inv R (D \<union> ?N) u1" "as_spaces u1 = as_spaces t" "\<forall>r' \<in> R - {r}. \<forall>w. vm_view u1 r' w = vm_view t r' w"
    "\<forall>d \<in> D \<union> ?N. ram_mem u1 d = ram_mem t d" "user_view r u1 = (\<lambda>w. if w \<in> set (region_virt v n) then None else user_view r t w)"
    using m v n by (simp_all add: user_range_def)
  have iu: "as_inv R (D \<union> ?N) u" unfolding u_def by (rule as_inv_set [OF m'(1), where a = b]) (simp_all add: m'(2) b)
  then have vu: "vm_inv R (D \<union> ?N) u" by (simp add: as_inv_def)
  have seg': "?N \<inter> D = {}" "distinct (region_virt p n)" using seg by (simp_all add: segment_ok_def)
  have Dd: "D \<union> ?N - ?N = D" using seg' by blast
  note fr = free_run_vm [OF vu _ seg'(2)]
  have fr': "vm_inv R D (free_pages p n u)" "ram_mem (free_pages p n u) = ram_mem u" "vm_view (free_pages p n u) = vm_view u"
      "vm_active_pml4 (free_pages p n u) = vm_active_pml4 u" "vmm.more (free_pages p n u) = vmm.more u"
    using fr Dd by simp_all
  have "as_inv R D (free_pages p n u)"
    using iu fr'(1,4) as_fields_more [OF fr'(5)] D by (simp add: as_inv_def)
  moreover have "user_view r (free_pages p n u) = user_view r s"
  proof -
    have "user_view r (free_pages p n u) = user_view r u" by (simp add: user_view_def fr'(3) fun_eq_iff)
    also have "\<dots> = user_view r u1" by (simp add: u_def)
    also have "\<dots> = (\<lambda>w. if w \<in> set (region_virt v n) then None else (user_view r s ++ region_entries v p n f) w)"
      using m'(5) t seg by (simp add: unchanged_def segment_ok_def cong: if_cong)
    also have "\<dots> = user_view r s"
    proof
      fix w
      have "region_entries v p n f w = None" if "w \<notin> set (region_virt v n)" using that by (rule region_entries_None)
      moreover have "user_view r s w = None" if "w \<in> set (region_virt v n)" using that seg by (simp add: segment_ok_def)
      ultimately show "(if w \<in> set (region_virt v n) then None else (user_view r s ++ region_entries v p n f) w) = user_view r s w"
        by (simp add: map_add_def)
    qed
    finally show ?thesis .
  qed
  moreover have "vm_view (free_pages p n u) r' w = vm_view s r' w" if "r' \<in> R - {r}" for r' w
    using that fr'(3) m'(3) t seg by (simp add: u_def unchanged_def segment_ok_def)
  moreover have "ram_mem (free_pages p n u) d = ram_mem s d" if "d \<in> D" for d
    using that fr'(2) m'(4) t seg by (simp add: u_def unchanged_def segment_ok_def)
  moreover have "registered i r owner (free_pages p n u)"
    using as_fields_more [OF fr'(5)] b by (simp add: registered_def u_def)
  ultimately show ?thesis unfolding u unchanged_def by blast
qed

definition seg_pages :: "nat \<Rightarrow> nat" where
  "seg_pages len = (len + 4095) div 4096"

lemma seg_pages_align:
  assumes "len < 2 ^ 33"
  shows "unat (align_up (of_nat len)) = seg_pages len * 4096" "unat (align_up (of_nat len) div PAGE_SIZE) = seg_pages len"
    "num_pages (align_up (of_nat len)) = seg_pages len" "len \<le> seg_pages len * 4096" "0 < len \<Longrightarrow> 0 < seg_pages len"
proof -
  have l: "unat (of_nat len :: usize) = len" using assms by (simp add: unat_of_nat)
  show u: "unat (align_up (of_nat len)) = seg_pages len * 4096" using unat_align_up [of "of_nat len"] assms by (simp add: l seg_pages_def)
  then show "unat (align_up (of_nat len) div PAGE_SIZE) = seg_pages len" by (simp add: unat_div)
  have "seg_pages len * 4096 < 2 ^ 47" using assms by (simp add: seg_pages_def)
  then show "num_pages (align_up (of_nat len)) = seg_pages len"
    using num_pages_small [of "align_up (of_nat len)"] u by simp
  show "len \<le> seg_pages len * 4096" "0 < len \<Longrightarrow> 0 < seg_pages len" by (simp_all add: seg_pages_def)
qed

lemma segment_ok_empty: "as_inv R D s \<Longrightarrow> segment_ok R D r v 0 0 f s s"
  by (simp add: segment_ok_def region_virt_def region_pages_def is_page_aligned_def)

text \<open>What a successful segment leaves behind: its pages, mapped, with the given bytes.\<close>

definition segment_loaded ::
  "usize set \<Rightarrow> usize set \<Rightarrow> usize \<Rightarrow> usize \<Rightarrow> usize \<Rightarrow> u8 list \<Rightarrow> page_flags \<Rightarrow> 'a as_sys_scheme \<Rightarrow> 'a as_sys_scheme \<Rightarrow> bool" where
  "segment_loaded R D r v p bs f s s' \<longleftrightarrow> segment_ok R D r v p (seg_pages (length bs)) f s s'
     \<and> (\<forall>k < length bs. ram_byte (p + of_nat k) s' = bs ! k)"

lemma map_segment_spec:
  assumes inv: "as_inv R D s" and a: "bt_get (as_spaces s) i = Some a" and f: "pte_present f" and len: "length bs < 2 ^ 33"
    and m: "map_segment i owner v bs f s = (x, s')"
  shows "case x of
      Inl e \<Rightarrow> unchanged R D (as_pml4_phys a) s s' \<and> as_spaces s' = as_spaces s
    | Inr y \<Rightarrow> \<exists>p. y = (if bs = [] then None else Some (v, p, align_up (of_nat (length bs))))
        \<and> segment_loaded R D (as_pml4_phys a) v p bs f s s'
        \<and> (if bs = [] then as_spaces s' = as_spaces s
           else registered i (as_pml4_phys a) owner s' \<and> user_range v (align_up (of_nat (length bs))) \<and> as_owner a = owner)"
proof (cases "bs = []")
  case True
  with m segment_ok_empty [OF inv] show ?thesis by (auto simp: map_segment_def segment_loaded_def seg_pages_def intro!: exI [of _ 0])
next
  case False
  let ?n = "seg_pages (length bs)" and ?sz = "align_up (of_nat (length bs))" and ?r = "as_pml4_phys a"
  note sz = seg_pages_align [OF len]
  have n: "0 < ?n" using False sz(5) by simp
  obtain y s1 where al: "alloc_pages_zeroed ?n s = (y, s1)" by fastforce
  show ?thesis
  proof (cases y)
    case None
    have "pmm_inv s" using inv by (auto simp: as_inv_def vm_inv_def vm_ok_def)
    with al None have "s1 = s" by (metis alloc_zeroed_None)
    with m False al None sz(2) inv show ?thesis by (auto simp: map_segment_def Let_def unchanged_def)
  next
    case (Some p)
    obtain z s2 where mp: "map_region i owner v p ?sz f (copy_to_ram p bs s1) = (z, s2)" by fastforce
    note r = map_fresh_run [OF inv a f n sz(3) al [unfolded Some] sz(4) mp]
    show ?thesis
    proof (cases z)
      case (Inl e)
      with m False al Some mp sz(2) r show ?thesis by (auto simp: map_segment_def Let_def)
    next
      case (Inr u)
      have out: "x = Inr (Some (v, p, ?sz))" "s' = s2" using m False al Some mp sz(2) Inr by (auto simp: map_segment_def Let_def)
      from r Inr have r': "segment_ok R D ?r v p ?n f s s2" "as_owner a = owner"
          "as_spaces s2 = bt_insert i (inc_mappings (of_nat ?n) a) (as_spaces s)"
          "\<forall>d \<in> set (region_virt p ?n). ram_mem s2 d = ram_mem (copy_to_ram p bs s1) d" by simp_all
      have "ram_byte (p + of_nat k) s2 = bs ! k" if k: "k < length bs" for k
      proof -
        have "is_page_aligned p" using r'(1) by (simp add: segment_ok_def)
        from copy_in_run [OF this sz(4)] k have "align_down (p + of_nat k) \<in> set (region_virt p ?n)" by blast
        with r'(4) have "ram_byte (p + of_nat k) s2 = ram_byte (p + of_nat k) (copy_to_ram p bs s1)" by (intro ram_byte_mem) simp
        moreover have "unat (of_nat k :: usize) = k" using k len by (simp add: unat_of_nat)
        ultimately show ?thesis using k len by (simp add: ram_byte_copy)
      qed
      moreover have "registered i ?r owner s2" using r'(2,3) by (simp add: registered_def)
      moreover have "user_range v ?sz" by (rule map_region_guards) (use mp Inr in simp)
      ultimately show ?thesis using out r' False by (auto simp: segment_loaded_def)
    qed
  qed
qed

text \<open>A segment of zeros behaves like a segment whose bytes are all zero.\<close>

lemma ram_byte_zero: "ram_mem r (align_down x) = (\<lambda>_. 0) \<Longrightarrow> ram_byte x r = 0"
  by (simp add: ram_byte_def)

lemma map_zeroed_segment_spec:
  assumes inv: "as_inv R D s" and a: "bt_get (as_spaces s) i = Some a" and f: "pte_present f" and len: "0 < len" "len < 2 ^ 33"
    and m: "map_zeroed_segment i owner v (align_up (of_nat len)) f s = (x, s')"
  shows "case x of
      Inl e \<Rightarrow> unchanged R D (as_pml4_phys a) s s' \<and> as_spaces s' = as_spaces s
    | Inr y \<Rightarrow> \<exists>p. segment_loaded R D (as_pml4_phys a) v p (replicate (seg_pages len * 4096) 0) f s s'"
proof -
  let ?sz = "align_up (of_nat len)" and ?n = "seg_pages len" and ?r = "as_pml4_phys a"
  note sz = seg_pages_align [OF len(2)]
  have n: "0 < ?n" using len sz(5) by simp
  have nz: "?sz \<noteq> 0" using n sz(1) by (auto simp: word_unat_eq_iff)
  have al2: "align_up ?sz = ?sz"
  proof -
    have "?n * 4096 < 2 ^ 34" using len(2) by (simp add: seg_pages_def)
    then have "unat (align_up ?sz) = unat ?sz" using unat_align_up [of ?sz] sz(1) by simp
    then show ?thesis by (simp only: word_unat_eq_iff)
  qed
  obtain y s1 where al: "alloc_pages_zeroed ?n s = (y, s1)" by fastforce
  show ?thesis
  proof (cases y)
    case None
    have "pmm_inv s" using inv by (auto simp: as_inv_def vm_inv_def vm_ok_def)
    with al None have "s1 = s" by (metis alloc_zeroed_None)
    with m nz al2 al None sz(2) inv show ?thesis by (auto simp: map_zeroed_segment_def Let_def unchanged_def)
  next
    case (Some p)
    obtain z s2 where mp: "map_region i owner v p ?sz f (copy_to_ram p [] s1) = (z, s2)" by fastforce
    have vi: "vm_inv R D s" using inv by (simp add: as_inv_def)
    note r = map_fresh_run [OF inv a f n sz(3) al [unfolded Some] _ mp, simplified]
      and zr = alloc_zeroed_run_vm [OF vi n al [unfolded Some]]
    show ?thesis
    proof (cases z)
      case (Inl e)
      with m nz al2 al Some mp sz(2) r show ?thesis by (auto simp: map_zeroed_segment_def Let_def)
    next
      case (Inr u)
      have out: "x = Inr (Some (v, p, ?sz))" "s' = s2"
        using m nz al2 al Some mp sz(2) Inr by (auto simp: map_zeroed_segment_def Let_def)
      from r Inr have r': "segment_ok R D ?r v p ?n f s s2" "\<forall>d \<in> set (region_virt p ?n). ram_mem s2 d = ram_mem s1 d" by simp_all
      have "ram_byte (p + of_nat k) s2 = 0" if k: "k < ?n * 4096" for k
      proof -
        have "is_page_aligned p" using r'(1) by (simp add: segment_ok_def)
        from copy_in_run [OF this, of "replicate (?n * 4096) 0" ?n] k have "align_down (p + of_nat k) \<in> set (region_virt p ?n)" by auto
        with r'(2) zr show ?thesis by (intro ram_byte_zero) simp
      qed
      moreover have "seg_pages (?n * 4096) = ?n" by (simp add: seg_pages_def)
      ultimately have "segment_loaded R D ?r v p (replicate (?n * 4096) 0) f s s2" using r'(1) by (simp add: segment_loaded_def)
      with out show ?thesis by auto
    qed
  qed
qed

lemma segment_unchanged_trans:
  assumes "unchanged R D r s s1" and "unchanged R D r s1 s2"
  shows "unchanged R D r s s2"
  using assms by (simp add: unchanged_def)

lemma registered_inc: "bt_get (as_spaces s) i = Some a \<Longrightarrow> registered i (as_pml4_phys a) (as_owner a) s"
  by (auto simp: registered_def)

lemma seg_pages_cover: "len \<le> seg_pages len * 4096"
  by (simp add: seg_pages_def)

text \<open>Later segments keep the bytes of earlier ones, whose pages are among their data pages.\<close>

lemma bytes_kept:
  assumes seg: "segment_loaded R D r v p bs f s s1" and later: "\<And>d. d \<in> D \<union> set (region_virt p (seg_pages (length bs))) \<Longrightarrow> ram_mem s2 d = ram_mem s1 d"
    and k: "k < length bs"
  shows "ram_byte (p + of_nat k) s2 = bs ! k"
proof -
  have "is_page_aligned p" using seg by (simp add: segment_loaded_def segment_ok_def)
  from copy_in_run [OF this seg_pages_cover] k
  have "align_down (p + of_nat k) \<in> set (region_virt p (seg_pages (length bs)))" by blast
  then have "ram_byte (p + of_nat k) s2 = ram_byte (p + of_nat k) s1" by (intro ram_byte_mem later) blast
  with seg k show ?thesis by (simp add: segment_loaded_def)
qed

text \<open>The state after a complete load of the sections, for the physical bases of the three segments.\<close>

definition loaded_at ::
  "usize set \<Rightarrow> usize set \<Rightarrow> usize \<Rightarrow> executable_sections \<Rightarrow> loaded_executable \<Rightarrow> usize \<Rightarrow> usize \<Rightarrow> usize
   \<Rightarrow> 'a as_sys_scheme \<Rightarrow> 'a as_sys_scheme \<Rightarrow> bool" where
  "loaded_at R D r sec ld pt pd pb s s' \<longleftrightarrow>
     (let nt = seg_pages (length (es_text sec)); nd = seg_pages (length (es_data sec)); nb = seg_pages (es_bss_size sec) in
      as_inv R (D \<union> set (region_virt pt nt) \<union> set (region_virt pd nd) \<union> set (region_virt pb nb)) s'
      \<and> distinct (region_virt pt nt @ region_virt pd nd @ region_virt pb nb)
      \<and> set (region_virt pt nt @ region_virt pd nd @ region_virt pb nb) \<inter> D = {}
      \<and> (\<forall>r' \<in> R - {r}. \<forall>w. vm_view s' r' w = vm_view s r' w) \<and> (\<forall>d \<in> D. ram_mem s' d = ram_mem s d)
      \<and> user_view r s' = user_view r s ++ region_entries (le_text_base ld) pt nt (PG_PRESENT OR PG_USER)
          ++ region_entries (le_data_base ld) pd nd (PG_PRESENT OR PG_USER OR PG_WRITABLE)
          ++ region_entries (le_bss_base ld) pb nb (PG_PRESENT OR PG_USER OR PG_WRITABLE)
      \<and> (\<forall>k < length (es_text sec). ram_byte (pt + of_nat k) s' = es_text sec ! k)
      \<and> (\<forall>k < length (es_data sec). ram_byte (pd + of_nat k) s' = es_data sec ! k)
      \<and> (\<forall>k < es_bss_size sec. ram_byte (pb + of_nat k) s' = 0)
      \<and> le_text_base ld = USER_EXEC_LOAD_BASE \<and> le_entry_point ld = le_text_base ld + of_nat (es_entry_offset sec))"

lemma flags_present [simp]: "pte_present (PG_PRESENT OR PG_USER)" "pte_present (PG_PRESENT OR PG_USER OR PG_WRITABLE)"
  by (simp_all add: pte_present_def PG_PRESENT_def PG_USER_def PG_WRITABLE_def)

lemma loaded_chain:
  assumes t: "segment_loaded R D r vt pt (es_text sec) (PG_PRESENT OR PG_USER) s s1"
    and d: "segment_loaded R (D \<union> set (region_virt pt (seg_pages (length (es_text sec))))) r vd pd (es_data sec)
      (PG_PRESENT OR PG_USER OR PG_WRITABLE) s1 s2"
    and b: "segment_loaded R (D \<union> set (region_virt pt (seg_pages (length (es_text sec)))) \<union> set (region_virt pd (seg_pages (length (es_data sec)))))
      r vb pb (replicate (seg_pages (es_bss_size sec) * 4096) 0) (PG_PRESENT OR PG_USER OR PG_WRITABLE) s2 s3"
    and ld: "ld = \<lparr>le_entry_point = USER_EXEC_LOAD_BASE + of_nat (es_entry_offset sec), le_text_base = vt, le_data_base = vd, le_bss_base = vb\<rparr>"
    and vt: "vt = USER_EXEC_LOAD_BASE"
  shows "loaded_at R D r sec ld pt pd pb s s3"
proof -
  let ?T = "set (region_virt pt (seg_pages (length (es_text sec))))" and ?E = "set (region_virt pd (seg_pages (length (es_data sec))))"
  have sb: "seg_pages (seg_pages n * 4096) = seg_pages n" for n by (simp add: seg_pages_def)
  have st: "segment_ok R D r vt pt (seg_pages (length (es_text sec))) (PG_PRESENT OR PG_USER) s s1"
    and sd: "segment_ok R (D \<union> ?T) r vd pd (seg_pages (length (es_data sec))) (PG_PRESENT OR PG_USER OR PG_WRITABLE) s1 s2"
    and sbs: "segment_ok R (D \<union> ?T \<union> ?E) r vb pb (seg_pages (es_bss_size sec)) (PG_PRESENT OR PG_USER OR PG_WRITABLE) s2 s3"
    using t d b by (simp_all add: segment_loaded_def sb)
  have m2: "ram_mem s2 x = ram_mem s1 x" if "x \<in> D \<union> ?T" for x using that sd by (simp add: segment_ok_def)
  have m3: "ram_mem s3 x = ram_mem s2 x" if "x \<in> D \<union> ?T \<union> ?E" for x using that sbs by (simp add: segment_ok_def)
  have m31: "ram_mem s3 x = ram_mem s1 x" if "x \<in> D \<union> ?T" for x
    using m2 [OF that] m3 [OF UnI1 [OF that]] by (rule trans [rotated])
  have tb: "ram_byte (pt + of_nat k) s3 = es_text sec ! k" if "k < length (es_text sec)" for k
    by (rule bytes_kept [OF t m31 that])
  have db: "ram_byte (pd + of_nat k) s3 = es_data sec ! k" if "k < length (es_data sec)" for k
    by (rule bytes_kept [OF d m3 that])
  have bb: "ram_byte (pb + of_nat k) s3 = 0" if "k < es_bss_size sec" for k
    using b that seg_pages_cover [of "es_bss_size sec"] by (simp add: segment_loaded_def)
  have view: "user_view r s3 = user_view r s ++ region_entries vt pt (seg_pages (length (es_text sec))) (PG_PRESENT OR PG_USER)
      ++ region_entries vd pd (seg_pages (length (es_data sec))) (PG_PRESENT OR PG_USER OR PG_WRITABLE)
      ++ region_entries vb pb (seg_pages (es_bss_size sec)) (PG_PRESENT OR PG_USER OR PG_WRITABLE)"
    using st sd sbs by (simp add: segment_ok_def)
  have others: "vm_view s3 r' w = vm_view s r' w" if "r' \<in> R - {r}" for r' w using that st sd sbs by (simp add: segment_ok_def)
  have keep: "ram_mem s3 x = ram_mem s x" if "x \<in> D" for x using that st m31 [of x] by (simp add: segment_ok_def)
  have dis: "distinct (region_virt pt (seg_pages (length (es_text sec))) @ region_virt pd (seg_pages (length (es_data sec)))
      @ region_virt pb (seg_pages (es_bss_size sec)))"
    "set (region_virt pt (seg_pages (length (es_text sec))) @ region_virt pd (seg_pages (length (es_data sec)))
      @ region_virt pb (seg_pages (es_bss_size sec))) \<inter> D = {}"
    using st sd sbs unfolding segment_ok_def distinct_append set_append by blast+
  have "as_inv R (D \<union> ?T \<union> ?E \<union> set (region_virt pb (seg_pages (es_bss_size sec)))) s3" using sbs by (simp add: segment_ok_def)
  then show ?thesis unfolding loaded_at_def Let_def ld using view others keep dis tb db bb vt by simp
qed

lemma rollback_one:
  "rollback_drop i owner [(v, p, sz)] s = free_pages p (unat (sz div PAGE_SIZE)) (snd (unmap_region i owner v sz s))"
  by (simp add: rollback_drop_def)

lemma rollback_two:
  "rollback_drop i owner [m1, m2] s = rollback_drop i owner [m1] (rollback_drop i owner [m2] s)"
  by (simp add: rollback_drop_def)

lemma undo_loaded:
  assumes seg: "segment_loaded R D r v p bs f s s1" and t: "unchanged R (D \<union> set (region_virt p (seg_pages (length bs)))) r s1 t"
    and reg: "registered i r owner t" and v: "user_range v (align_up (of_nat (length bs)))" and len: "length bs < 2 ^ 33" and D: "0 \<in> D"
  shows "unchanged R D r s (rollback_drop i owner [(v, p, align_up (of_nat (length bs)))] t)
    \<and> registered i r owner (rollback_drop i owner [(v, p, align_up (of_nat (length bs)))] t)"
proof -
  have "segment_ok R D r v p (seg_pages (length bs)) f s s1" using seg by (simp add: segment_loaded_def)
  from undo_segment [OF this t reg v seg_pages_align(3) [OF len] D] seg_pages_align(2) [OF len] show ?thesis by (simp add: rollback_one)
qed

lemma segment_loaded_empty: "as_inv R D s \<Longrightarrow> segment_loaded R D r v 0 [] f s s"
  using segment_ok_empty [of R D s] by (simp add: segment_loaded_def seg_pages_def)

lemma loaded_inv: "segment_loaded R D r v p bs f s s' \<Longrightarrow> as_inv R (D \<union> set (region_virt p (seg_pages (length bs)))) s'"
  by (simp add: segment_loaded_def segment_ok_def)

lemma do_load_spec:
  assumes inv: "as_inv R D s" and a: "bt_get (as_spaces s) i = Some a" and t: "es_text sec \<noteq> []"
    and len: "length (es_text sec) < 2 ^ 32" "length (es_data sec) < 2 ^ 32" "es_bss_size sec < 2 ^ 32"
    and ld: "do_load sec i owner s = (x, s')"
  shows "case x of Inl e \<Rightarrow> unchanged R D (as_pml4_phys a) s s'
    | Inr l \<Rightarrow> \<exists>pt pd pb. loaded_at R D (as_pml4_phys a) sec l pt pd pb s s'"
proof -
  let ?r = "as_pml4_phys a" and ?vt = USER_EXEC_LOAD_BASE
  let ?st = "align_up (of_nat (length (es_text sec))) :: usize" and ?sd = "align_up (of_nat (length (es_data sec))) :: usize"
  let ?vd = "align_up (?vt + ?st)"
  let ?vb = "align_up (?vd + ?sd)" and ?sb = "align_up (of_nat (es_bss_size sec)) :: usize"
  let ?ft = "PG_PRESENT OR PG_USER" and ?fd = "PG_PRESENT OR PG_USER OR PG_WRITABLE"
  let ?l = "\<lparr>le_entry_point = ?vt + of_nat (es_entry_offset sec), le_text_base = ?vt, le_data_base = ?vd, le_bss_base = ?vb\<rparr>"
  have len33: "length (es_text sec) < 2 ^ 33" "length (es_data sec) < 2 ^ 33" "es_bss_size sec < 2 ^ 33" using len by simp_all
  have zero: "0 \<in> D" using inv by (simp add: as_inv_def)
  show ?thesis
  proof (cases "saturating_add ?vb ?sb > USER_CANONICAL_MAX")
    case True
    with ld inv show ?thesis by (auto simp: do_load_def Let_def unchanged_def)
  next
    case fits: False
    obtain x1 s1 where m1: "map_segment i owner ?vt (es_text sec) ?ft s = (x1, s1)" by fastforce
    note sp1 = map_segment_spec [OF inv a flags_present(1) len33(1) m1]
    show ?thesis
    proof (cases x1)
      case (Inl e)
      with ld fits m1 sp1 show ?thesis by (auto simp: do_load_def Let_def rollback_drop_def)
    next
      case (Inr y1)
      with sp1 t obtain pt where y1: "y1 = Some (?vt, pt, ?st)" and l1: "segment_loaded R D ?r ?vt pt (es_text sec) ?ft s s1"
        and reg1: "registered i ?r owner s1" and ur1: "user_range ?vt ?st" by auto
      let ?T = "set (region_virt pt (seg_pages (length (es_text sec))))"
      note inv1 = loaded_inv [OF l1]
      obtain a1 where a1: "bt_get (as_spaces s1) i = Some a1" "as_pml4_phys a1 = ?r" "as_owner a1 = owner"
        using reg1 by (auto simp: registered_def)
      obtain x2 s2 where m2: "map_segment i owner ?vd (es_data sec) ?fd s1 = (x2, s2)" by fastforce
      note sp2 = map_segment_spec [OF inv1 a1(1) flags_present(2) len33(2) m2, unfolded a1(2)]
      show ?thesis
      proof (cases x2)
        case (Inl e)
        have "unchanged R (D \<union> ?T) ?r s1 s2" "registered i ?r owner s2" using sp2 Inl a1 by (auto simp: registered_def)
        from undo_loaded [OF l1 this ur1 len33(1) zero] ld fits m1 \<open>x1 = Inr y1\<close> y1 m2 Inl
        show ?thesis by (auto simp: do_load_def Let_def track_def)
      next
        case (Inr y2)
        with sp2 obtain pd where y2: "y2 = (if es_data sec = [] then None else Some (?vd, pd, ?sd))"
          and l2: "segment_loaded R (D \<union> ?T) ?r ?vd pd (es_data sec) ?fd s1 s2"
          and reg2: "registered i ?r owner s2" and ur2: "es_data sec \<noteq> [] \<Longrightarrow> user_range ?vd ?sd"
          using reg1 by (fastforce simp: registered_def split: if_splits)
        let ?E = "set (region_virt pd (seg_pages (length (es_data sec))))"
        note inv2 = loaded_inv [OF l2]
        show ?thesis
        proof (cases "es_bss_size sec > 0")
          case False
          with segment_loaded_empty [OF inv2]
          have "segment_loaded R (D \<union> ?T \<union> ?E) ?r ?vb 0 (replicate (seg_pages (es_bss_size sec) * 4096) 0) ?fd s2 s2"
            by (simp add: seg_pages_def)
          note ok = loaded_chain [OF l1 l2 this refl refl]
          have "x = Inr ?l" "s' = s2"
            using False ld fits m1 \<open>x1 = Inr y1\<close> y1 m2 Inr by (simp_all add: do_load_def Let_def track_def)
          with ok show ?thesis by (simp only: sum.case) blast
        next
          case bss: True
          obtain a2 where a2: "bt_get (as_spaces s2) i = Some a2" "as_pml4_phys a2 = ?r" "as_owner a2 = owner"
            using reg2 by (auto simp: registered_def)
          obtain x3 s3 where m3: "map_zeroed_segment i owner ?vb ?sb ?fd s2 = (x3, s3)" by fastforce
          note sp3 = map_zeroed_segment_spec [OF inv2 a2(1) flags_present(2) bss len33(3) m3, unfolded a2(2)]
          show ?thesis
          proof (cases x3)
            case (Inr y3)
            with sp3 obtain pb where "segment_loaded R (D \<union> ?T \<union> ?E) ?r ?vb pb (replicate (seg_pages (es_bss_size sec) * 4096) 0) ?fd s2 s3"
              by auto
            note ok = loaded_chain [OF l1 l2 this refl refl]
            have "x = Inr ?l" "s' = s3"
              using bss ld fits m1 \<open>x1 = Inr y1\<close> y1 m2 \<open>x2 = Inr y2\<close> m3 Inr by (simp_all add: do_load_def Let_def track_def)
            with ok show ?thesis by (simp only: sum.case) blast
          next
            case (Inl e)
            have u3: "unchanged R (D \<union> ?T \<union> ?E) ?r s2 s3" "registered i ?r owner s3" using sp3 Inl a2 by (auto simp: registered_def)
            let ?m1 = "(?vt, pt, ?st)"
            let ?u = "if es_data sec = [] then s3 else rollback_drop i owner [(?vd, pd, ?sd)] s3"
            have u: "unchanged R (D \<union> ?T) ?r s1 ?u" "registered i ?r owner ?u"
            proof -
              have "s2 = s1 \<and> ?E = {}" if "es_data sec = []" using m2 that by (simp add: map_segment_def seg_pages_def region_virt_def)
              then have "unchanged R (D \<union> ?T) ?r s1 ?u \<and> registered i ?r owner ?u"
                using u3 undo_loaded [OF l2 u3 ur2 len33(2)] zero by (cases "es_data sec = []") simp_all
              then show "unchanged R (D \<union> ?T) ?r s1 ?u" "registered i ?r owner ?u" by simp_all
            qed
            have "s' = rollback_drop i owner [?m1] ?u" "isl x"
              using bss ld fits m1 \<open>x1 = Inr y1\<close> y1 m2 \<open>x2 = Inr y2\<close> y2 m3 Inl
              by (auto simp: do_load_def Let_def track_def rollback_two)
            with undo_loaded [OF l1 u ur1 len33(1) zero] show ?thesis by (cases x) simp_all
          qed
        qed
      qed
    qed
  qed
qed

text \<open>
  C2. Loading an image is all or nothing: if it fails, at whatever segment, the user half of
  the target address space is what it was, and nothing else changes that a program can see.
  If it succeeds, the user half has in addition exactly the pages of the three segments, the
  text without write permission, on pages of their own; the text and data bytes are those of
  the image, the bss is zero, and the entry point lies in the text.
\<close>

theorem load_all_or_nothing:
  assumes "as_inv R D s" and "bt_get (as_spaces s) i = Some a" and "length img < 2 ^ 32"
    and "load_into_address_space img i owner s = Some (x, s')"
  shows "case x of Inl e \<Rightarrow> unchanged R D (as_pml4_phys a) s s'
    | Inr l \<Rightarrow> \<exists>sec pt pd pb. parse_image img = Some (Inr sec) \<and> es_entry_offset sec < length (es_text sec)
        \<and> loaded_at R D (as_pml4_phys a) sec l pt pd pb s s'"
proof (cases "parse_image img")
  case None
  with parse_image_sections [OF assms(3)] show ?thesis by simp
next
  case (Some r)
  show ?thesis
  proof (cases r)
    case (Inl e)
    with assms(1,4) Some show ?thesis by (auto simp: load_into_address_space_def unchanged_def)
  next
    case (Inr sec)
    with Some parse_image_sections [OF assms(3)] obtain t d where "sections_at t d img sec" by blast
    then have sec: "es_entry_offset sec < length (es_text sec)" "length (es_text sec) < 2 ^ 32" "length (es_data sec) < 2 ^ 32"
      "es_bss_size sec < 2 ^ 32" "es_text sec \<noteq> []" by (auto simp: sections_at_def)
    have "do_load sec i owner s = (x, s')" using assms(4) Some Inr by (simp add: load_into_address_space_def)
    from do_load_spec [OF assms(1,2) sec(5,2,3,4) this] Some Inr sec(1) show ?thesis by (auto split: sum.splits)
  qed
qed

theorem load_all_or_nothing_witness:
  "\<exists>x s'. load_into_address_space build_embedded_image 1 7 as_example = Some (x, s')
    \<and> (case x of Inl e \<Rightarrow> unchanged {0x1000, 0x2000} {0} 0x2000 as_example s'
       | Inr l \<Rightarrow> \<exists>sec pt pd pb. parse_image build_embedded_image = Some (Inr sec)
           \<and> loaded_at {0x1000, 0x2000} {0} 0x2000 sec l pt pd pb as_example s')"
proof -
  obtain x s' where l: "load_into_address_space build_embedded_image 1 7 as_example = Some (x, s')"
    by (cases "do_load \<lparr>es_entry_offset = 0, es_text = EMBEDDED_TEXT @ replicate (4096 - length EMBEDDED_TEXT) 0, es_data = [],
        es_bss_size = 4096\<rparr> 1 7 as_example") (simp add: load_into_address_space_def embedded_image_parses)
  have "bt_get (as_spaces as_example) 1 = Some \<lparr>as_id = 1, as_pml4_phys = 0x2000, as_owner = 7, as_mapping_count = 0\<rparr>"
    by simp
  from load_all_or_nothing [OF as_example_inv this _ l] l length_embedded_image show ?thesis
    by (cases x) auto
qed

end
