(* ===== verification/Array_Ops.thy ===== *)
theory Array_Ops
  imports Atom_Prelude "HOL-Library.Monad_Syntax"
begin

text \<open>
  Rust's fixed-size arrays and the loops that walk them, for the user-space components that
  keep all their state in such arrays. An index out of range panics, which is \<open>None\<close>; a
  \<open>for\<close> loop stops at the first panic. The second part is a contract, a forward simulation
  of a component by an abstract one, whose client lemma carries a simulation of single
  operations to every sequence of operations and adds that no operation panics.
\<close>

named_theorems array_simps \<open>array accesses and loops that stay in range\<close>

definition arr_get :: "'a list \<Rightarrow> nat \<Rightarrow> 'a option" where
  "arr_get xs i = (if i < length xs then Some (xs ! i) else None)"

definition arr_set :: "'a list \<Rightarrow> nat \<Rightarrow> 'a \<Rightarrow> 'a list option" where
  "arr_set xs i v = (if i < length xs then Some (xs[i := v]) else None)"

text \<open>\<open>xs[..n]\<close>, which panics when \<open>n\<close> is past the end.\<close>

definition arr_prefix :: "'a list \<Rightarrow> nat \<Rightarrow> 'a list option" where
  "arr_prefix xs n = (if n \<le> length xs then Some (take n xs) else None)"

fun for_each :: "('i \<Rightarrow> 's \<Rightarrow> 's option) \<Rightarrow> 'i list \<Rightarrow> 's \<Rightarrow> 's option" where
  "for_each f [] s = Some s"
| "for_each f (i # is) s = do { s1 \<leftarrow> f i s; for_each f is s1 }"

text \<open>\<open>xs[i + 1] = xs[i]\<close> and \<open>xs[i - 1] = xs[i]\<close>, the bodies of the shifting loops.\<close>

definition move_right :: "nat \<Rightarrow> 'a list \<Rightarrow> 'a list option" where
  "move_right i xs = do { v \<leftarrow> arr_get xs i; arr_set xs (i + 1) v }"

definition move_left :: "nat \<Rightarrow> 'a list \<Rightarrow> 'a list option" where
  "move_left i xs = do { v \<leftarrow> arr_get xs i; arr_set xs (i - 1) v }"

text \<open>\<open>xs[..ys.len()].copy_from_slice(ys)\<close>.\<close>

definition copy_prefix :: "'a list \<Rightarrow> 'a list \<Rightarrow> 'a list option" where
  "copy_prefix xs ys = (if length ys \<le> length xs then Some (ys @ drop (length ys) xs) else None)"

section \<open>Loops that stay in range\<close>

lemma arr_get_Some [array_simps]: "i < length xs \<Longrightarrow> arr_get xs i = Some (xs ! i)"
  by (simp add: arr_get_def)

lemma arr_set_Some [array_simps]: "i < length xs \<Longrightarrow> arr_set xs i v = Some (xs[i := v])"
  by (simp add: arr_set_def)

lemma arr_prefix_Some [array_simps]: "n \<le> length xs \<Longrightarrow> arr_prefix xs n = Some (take n xs)"
  by (simp add: arr_prefix_def)

lemma copy_prefix_Some [array_simps]:
  "length ys \<le> length xs \<Longrightarrow> copy_prefix xs ys = Some (ys @ drop (length ys) xs)"
  by (simp add: copy_prefix_def)

lemma for_each_append: "for_each f (is @ js) s = do { s1 \<leftarrow> for_each f is s; for_each f js s1 }"
  by (induction "is" arbitrary: s) (auto simp: bind_assoc split: Option.bind_splits)

lemma for_each_snoc: "for_each f (is @ [i]) s = do { s1 \<leftarrow> for_each f is s; f i s1 }"
  by (simp add: for_each_append) (simp split: Option.bind_split)

lemma for_each_fold:
  assumes "\<And>i s. i \<in> set is \<Longrightarrow> P s \<Longrightarrow> f i s = Some (g i s) \<and> P (g i s)" and "P s"
  shows "for_each f is s = Some (fold g is s) \<and> P (fold g is s)"
  using assms by (induction "is" arbitrary: s) auto

text \<open>
  The two shifting loops, run over an index range in the direction that does not overwrite
  what is still to be moved.
\<close>

lemma shift_right:
  assumes "c \<le> n" and "n < length xs"
  shows "\<exists>ys. for_each move_right (rev [c ..< n]) xs = Some ys \<and> length ys = length xs
    \<and> (\<forall>j < length xs. ys ! j = (if c < j \<and> j \<le> n then xs ! (j - 1) else xs ! j))"
  using assms
proof (induction "n - c" arbitrary: n xs)
  case (Suc d)
  then obtain m where m: "n = Suc m" "c \<le> m" by (cases n) auto
  from Suc.hyps(2) m have d: "d = m - c" by simp
  have mv: "move_right m xs = Some (xs[n := xs ! m])"
    using Suc.prems m by (simp add: move_right_def array_simps)
  obtain ys where ys: "for_each move_right (rev [c ..< m]) (xs[n := xs ! m]) = Some ys" "length ys = length xs"
    "\<forall>j < length xs. ys ! j = (if c < j \<and> j \<le> m then xs[n := xs ! m] ! (j - 1) else xs[n := xs ! m] ! j)"
    using Suc.hyps(1) [OF d, of "xs[n := xs ! m]"] Suc.prems m by auto
  have "ys ! j = (if c < j \<and> j \<le> n then xs ! (j - 1) else xs ! j)" if "j < length xs" for j
    using ys(3) that m Suc.prems by (cases "j = n") (auto simp: nth_list_update)
  with ys mv m show ?case by auto
qed auto

lemma shift_left:
  assumes "0 < c" and "n \<le> length xs"
  shows "\<exists>ys. for_each move_left [c ..< n] xs = Some ys \<and> length ys = length xs
    \<and> (\<forall>j < length xs. ys ! j = (if c \<le> Suc j \<and> Suc j < n then xs ! Suc j else xs ! j))"
  using assms
proof (induction n)
  case (Suc m)
  show ?case
  proof (cases "c \<le> m")
    case True
    obtain ys where ys: "for_each move_left [c ..< m] xs = Some ys" "length ys = length xs"
      "\<forall>j < length xs. ys ! j = (if c \<le> Suc j \<and> Suc j < m then xs ! Suc j else xs ! j)"
      using Suc by auto
    have mv: "move_left m ys = Some (ys[m - 1 := ys ! m])"
      using Suc.prems ys(2) by (simp add: move_left_def array_simps)
    have "ys[m - 1 := ys ! m] ! j = (if c \<le> Suc j \<and> Suc j < Suc m then xs ! Suc j else xs ! j)"
      if "j < length xs" for j
    proof (cases "j = m - 1")
      case True
      with \<open>c \<le> m\<close> Suc.prems ys(2,3) show ?thesis by simp
    next
      case False
      moreover from this have "Suc j < Suc m \<longleftrightarrow> Suc j < m" using \<open>c \<le> m\<close> Suc.prems(1) by auto
      ultimately show ?thesis using ys(3) that by simp
    qed
    with ys mv True show ?thesis by (simp add: for_each_append)
  qed (auto intro: exI [of _ xs])
qed simp

section \<open>Simulation of a component by an abstract one\<close>

fun run_ops :: "('op \<Rightarrow> 's \<Rightarrow> ('r \<times> 's) option) \<Rightarrow> 'op list \<Rightarrow> 's \<Rightarrow> ('r list \<times> 's) option" where
  "run_ops step [] s = Some ([], s)"
| "run_ops step (a # as) s =
     do { (r, s1) \<leftarrow> step a s; (rs, s2) \<leftarrow> run_ops step as s1; Some (r # rs, s2) }"

fun run_spec :: "('op \<Rightarrow> 'a \<Rightarrow> 'r \<times> 'a) \<Rightarrow> 'op list \<Rightarrow> 'a \<Rightarrow> 'r list \<times> 'a" where
  "run_spec spec [] a = ([], a)"
| "run_spec spec (x # xs) a = (let (r, a1) = spec x a; (rs, a2) = run_spec spec xs a1 in (r # rs, a2))"

locale simulation =
  fixes rel :: "'s \<Rightarrow> 'a \<Rightarrow> bool"
    and step :: "'op \<Rightarrow> 's \<Rightarrow> ('r \<times> 's) option"
    and spec :: "'op \<Rightarrow> 'a \<Rightarrow> 'r \<times> 'a"
    and valid :: "'op \<Rightarrow> bool"
  assumes simulates: "rel s a \<Longrightarrow> valid x \<Longrightarrow>
      \<exists>s'. step x s = Some (fst (spec x a), s') \<and> rel s' (snd (spec x a))"
begin

lemma runs:
  assumes "rel s a" and "\<forall>x \<in> set xs. valid x"
  shows "\<exists>s'. run_ops step xs s = Some (fst (run_spec spec xs a), s') \<and> rel s' (snd (run_spec spec xs a))"
  using assms
proof (induction xs arbitrary: s a)
  case (Cons x xs)
  obtain s1 where s1: "step x s = Some (fst (spec x a), s1)" "rel s1 (snd (spec x a))"
    using simulates [of s a x] Cons.prems by auto
  from Cons.IH [OF this(2)] Cons.prems(2) obtain s2 where
    "run_ops step xs s1 = Some (fst (run_spec spec xs (snd (spec x a))), s2)"
    "rel s2 (snd (run_spec spec xs (snd (spec x a))))" by auto
  with s1 show ?case by (auto simp: split_beta)
qed simp

end

end
