(* ===== verification/Graphics.thy ===== *)
theory Graphics
  imports Atom_Prelude
begin

text \<open>
  The kernel's framebuffer output, \<^verbatim>\<open>kernel/src/graphics.rs\<close>: the framebuffer parameters, pixel,
  rectangle and text drawing. Pixels are 32-bit stores into a memory indexed by address; the
  coordinate arithmetic wraps at 32 bits as in a release build.
\<close>

section \<open>State\<close>

datatype pixel_format = PfRgb | PfBgr | PfBitmask | PfBltOnly | PfUnknown

record framebuffer_info =
  fi_address :: u64
  fi_size :: usize
  fi_width :: u32
  fi_height :: u32
  fi_pixels_per_scan_line :: u32
  fi_pixel_format :: pixel_format

record color =
  col_r :: u8
  col_g :: u8
  col_b :: u8

record framebuffer =
  fb_address :: usize
  fb_width :: u32
  fb_height :: u32
  fb_stride :: u32
  fb_format :: pixel_format
  fb_bpp :: usize

record graphics =
  gfx_framebuffer :: "framebuffer option"
  gfx_initialized :: bool
  gfx_mem :: "usize \<Rightarrow> u32"

definition framebuffer_new :: "framebuffer_info \<Rightarrow> framebuffer" where
  "framebuffer_new info =
     \<lparr>fb_address = fi_address info, fb_width = fi_width info, fb_height = fi_height info,
      fb_stride = fi_pixels_per_scan_line info, fb_format = fi_pixel_format info, fb_bpp = 4\<rparr>"

definition fb_size :: "framebuffer \<Rightarrow> usize" where
  "fb_size fb = ucast (fb_stride fb) * ucast (fb_height fb) * fb_bpp fb"

definition graphics_init :: "framebuffer_info \<Rightarrow> graphics \<Rightarrow> graphics" where
  "graphics_init info g = g\<lparr>gfx_framebuffer := Some (framebuffer_new info), gfx_initialized := True\<rparr>"

definition with_framebuffer :: "(framebuffer \<Rightarrow> 'r) \<Rightarrow> graphics \<Rightarrow> 'r option" where
  "with_framebuffer f g = (if \<not> gfx_initialized g then None else map_option f (gfx_framebuffer g))"

definition get_dimensions :: "graphics \<Rightarrow> (u32 \<times> u32) option" where
  "get_dimensions g = with_framebuffer (\<lambda>fb. (fb_width fb, fb_height fb)) g"

definition get_framebuffer_address :: "graphics \<Rightarrow> usize option" where
  "get_framebuffer_address g = with_framebuffer fb_address g"

definition get_framebuffer_info :: "graphics \<Rightarrow> (usize \<times> u32 \<times> u32 \<times> u32 \<times> usize) option" where
  "get_framebuffer_info g =
     with_framebuffer (\<lambda>fb. (fb_address fb, fb_width fb, fb_height fb, fb_stride fb, fb_bpp fb)) g"

definition get_stride :: "graphics \<Rightarrow> u32" where
  "get_stride g = (case with_framebuffer fb_stride g of Some x \<Rightarrow> x | None \<Rightarrow> 0)"

definition get_bytes_per_pixel :: "graphics \<Rightarrow> usize" where
  "get_bytes_per_pixel g = (case with_framebuffer fb_bpp g of Some x \<Rightarrow> x | None \<Rightarrow> 4)"

section \<open>Pixels and rectangles\<close>

definition pixel_value :: "pixel_format \<Rightarrow> color \<Rightarrow> u32" where
  "pixel_value f c =
     (case f of
        PfRgb \<Rightarrow> push_bit 16 (ucast (col_r c)) OR push_bit 8 (ucast (col_g c)) OR ucast (col_b c)
      | _ \<Rightarrow> push_bit 16 (ucast (col_b c)) OR push_bit 8 (ucast (col_g c)) OR ucast (col_r c))"

definition pixel_ptr :: "framebuffer \<Rightarrow> u32 \<Rightarrow> u32 \<Rightarrow> usize" where
  "pixel_ptr fb x y = fb_address fb + ucast (y * fb_stride fb + x) * fb_bpp fb"

text \<open>An operation that stores through the framebuffer, or does nothing when there is none.\<close>

definition store_framebuffer :: "(framebuffer \<Rightarrow> (usize \<Rightarrow> u32) \<Rightarrow> (usize \<Rightarrow> u32)) \<Rightarrow> graphics \<Rightarrow> graphics" where
  "store_framebuffer f g = (case with_framebuffer f g of None \<Rightarrow> g | Some store \<Rightarrow> g\<lparr>gfx_mem := store (gfx_mem g)\<rparr>)"

definition put_pixel :: "u32 \<Rightarrow> u32 \<Rightarrow> u32 \<Rightarrow> framebuffer \<Rightarrow> (usize \<Rightarrow> u32) \<Rightarrow> (usize \<Rightarrow> u32)" where
  "put_pixel x y v fb m = (if x < fb_width fb \<and> y < fb_height fb then m(pixel_ptr fb x y := v) else m)"

definition draw_pixel :: "u32 \<Rightarrow> u32 \<Rightarrow> color \<Rightarrow> graphics \<Rightarrow> graphics" where
  "draw_pixel x y c = store_framebuffer (\<lambda>fb. put_pixel x y (pixel_value (fb_format fb) c) fb)"

definition write_pixel :: "u32 \<Rightarrow> u32 \<Rightarrow> u32 \<Rightarrow> graphics \<Rightarrow> graphics" where
  "write_pixel x y v = store_framebuffer (put_pixel x y v)"

definition read_pixel :: "u32 \<Rightarrow> u32 \<Rightarrow> graphics \<Rightarrow> u32" where
  "read_pixel x y g =
     (case with_framebuffer
             (\<lambda>fb. if x < fb_width fb \<and> y < fb_height fb then gfx_mem g (pixel_ptr fb x y) else 0) g of
        Some v \<Rightarrow> v | None \<Rightarrow> 0)"

text \<open>The half-open range of a \<open>for\<close> loop over \<open>u32\<close>.\<close>

definition u32_range :: "u32 \<Rightarrow> u32 \<Rightarrow> u32 list" where
  "u32_range a b = map of_nat [unat a ..< unat b]"

definition fill_rect :: "u32 \<Rightarrow> u32 \<Rightarrow> u32 \<Rightarrow> u32 \<Rightarrow> color \<Rightarrow> graphics \<Rightarrow> graphics" where
  "fill_rect x y width height c =
     store_framebuffer (\<lambda>fb m.
       let v = pixel_value (fb_format fb) c;
           x_end = min (x + width) (fb_width fb);
           y_end = min (y + height) (fb_height fb)
       in fold (\<lambda>py. fold (\<lambda>px m. m(pixel_ptr fb px py := v)) (u32_range x x_end)) (u32_range y y_end) m)"

definition clear_screen :: "color \<Rightarrow> graphics \<Rightarrow> graphics" where
  "clear_screen c =
     store_framebuffer (\<lambda>fb m.
       let v = pixel_value (fb_format fb) c;
           total_pixels = unat (fb_stride fb * fb_height fb)
       in fold (\<lambda>i m. m(fb_address fb + of_nat i * fb_bpp fb := v)) [0 ..< total_pixels] m)"

section \<open>Text\<close>

definition uppercase_glyphs :: "(u8 \<times> u8 list) list" where
  "uppercase_glyphs =
     [(65, [0x18, 0x3C, 0x66, 0x66, 0x7E, 0x66, 0x66, 0x00]),
      (66, [0x7C, 0x66, 0x66, 0x7C, 0x66, 0x66, 0x7C, 0x00]),
      (67, [0x3C, 0x66, 0x60, 0x60, 0x60, 0x66, 0x3C, 0x00]),
      (69, [0x7E, 0x60, 0x60, 0x7C, 0x60, 0x60, 0x7E, 0x00]),
      (70, [0x7E, 0x60, 0x60, 0x7C, 0x60, 0x60, 0x60, 0x00]),
      (73, [0x3C, 0x18, 0x18, 0x18, 0x18, 0x18, 0x3C, 0x00]),
      (75, [0x66, 0x6C, 0x78, 0x70, 0x78, 0x6C, 0x66, 0x00]),
      (78, [0x66, 0x76, 0x7E, 0x7E, 0x6E, 0x66, 0x66, 0x00]),
      (79, [0x3C, 0x66, 0x66, 0x66, 0x66, 0x66, 0x3C, 0x00]),
      (80, [0x7C, 0x66, 0x66, 0x7C, 0x60, 0x60, 0x60, 0x00]),
      (82, [0x7C, 0x66, 0x66, 0x7C, 0x6C, 0x66, 0x66, 0x00]),
      (83, [0x3C, 0x66, 0x60, 0x3C, 0x06, 0x66, 0x3C, 0x00]),
      (84, [0x7E, 0x18, 0x18, 0x18, 0x18, 0x18, 0x18, 0x00])]"

definition lowercase_glyphs :: "(u8 \<times> u8 list) list" where
  "lowercase_glyphs =
     [(97, [0x00, 0x00, 0x3C, 0x06, 0x3E, 0x66, 0x3E, 0x00]),
      (99, [0x00, 0x00, 0x3C, 0x60, 0x60, 0x60, 0x3C, 0x00]),
      (101, [0x00, 0x00, 0x3C, 0x66, 0x7E, 0x60, 0x3C, 0x00]),
      (105, [0x18, 0x00, 0x38, 0x18, 0x18, 0x18, 0x3C, 0x00]),
      (107, [0x60, 0x60, 0x66, 0x6C, 0x78, 0x6C, 0x66, 0x00]),
      (108, [0x38, 0x18, 0x18, 0x18, 0x18, 0x18, 0x3C, 0x00]),
      (110, [0x00, 0x00, 0x7C, 0x66, 0x66, 0x66, 0x66, 0x00]),
      (111, [0x00, 0x00, 0x3C, 0x66, 0x66, 0x66, 0x3C, 0x00]),
      (112, [0x00, 0x00, 0x7C, 0x66, 0x66, 0x7C, 0x60, 0x60]),
      (114, [0x00, 0x00, 0x6E, 0x70, 0x60, 0x60, 0x60, 0x00]),
      (115, [0x00, 0x00, 0x3E, 0x60, 0x3C, 0x06, 0x7C, 0x00]),
      (116, [0x30, 0x30, 0x7C, 0x30, 0x30, 0x30, 0x1C, 0x00])]"

abbreviation blank_glyph :: "u8 list" where
  "blank_glyph \<equiv> replicate 8 0"

definition get_uppercase_glyph :: "u8 \<Rightarrow> u8 list" where
  "get_uppercase_glyph ch = (case map_of uppercase_glyphs ch of Some g \<Rightarrow> g | None \<Rightarrow> blank_glyph)"

definition get_lowercase_glyph :: "u8 \<Rightarrow> u8 list" where
  "get_lowercase_glyph ch = (case map_of lowercase_glyphs ch of Some g \<Rightarrow> g | None \<Rightarrow> blank_glyph)"

definition minimal_glyphs :: "(u8 \<times> u8 list) list" where
  "minimal_glyphs =
     [(32, [0x00, 0x00, 0x00, 0x00, 0x00, 0x00, 0x00, 0x00]),
      (33, [0x18, 0x18, 0x18, 0x18, 0x18, 0x00, 0x18, 0x00]),
      (58, [0x00, 0x18, 0x18, 0x00, 0x18, 0x18, 0x00, 0x00]),
      (48, [0x3C, 0x66, 0x6E, 0x76, 0x66, 0x66, 0x3C, 0x00]),
      (49, [0x18, 0x38, 0x18, 0x18, 0x18, 0x18, 0x7E, 0x00])]"

definition get_minimal_glyph :: "u8 \<Rightarrow> u8 list" where
  "get_minimal_glyph ch =
     (case map_of minimal_glyphs ch of
        Some g \<Rightarrow> g
      | None \<Rightarrow>
          if 65 \<le> ch \<and> ch \<le> 90 then get_uppercase_glyph ch
          else if 97 \<le> ch \<and> ch \<le> 122 then get_lowercase_glyph ch
          else blank_glyph)"

definition full_glyphs :: "(u8 \<times> u8 list) list" where
  "full_glyphs =
     [(32, [0x00, 0x00, 0x00, 0x00, 0x00, 0x00, 0x00, 0x00]),
      (33, [0x18, 0x18, 0x18, 0x18, 0x18, 0x00, 0x18, 0x00]),
      (34, [0x6C, 0x6C, 0x24, 0x00, 0x00, 0x00, 0x00, 0x00]),
      (35, [0x6C, 0x6C, 0xFE, 0x6C, 0xFE, 0x6C, 0x6C, 0x00]),
      (36, [0x18, 0x3E, 0x60, 0x3C, 0x06, 0x7C, 0x18, 0x00]),
      (37, [0x00, 0xC6, 0xCC, 0x18, 0x30, 0x66, 0xC6, 0x00]),
      (38, [0x38, 0x6C, 0x38, 0x76, 0xDC, 0xCC, 0x76, 0x00]),
      (39, [0x18, 0x18, 0x30, 0x00, 0x00, 0x00, 0x00, 0x00]),
      (40, [0x0C, 0x18, 0x30, 0x30, 0x30, 0x18, 0x0C, 0x00]),
      (41, [0x30, 0x18, 0x0C, 0x0C, 0x0C, 0x18, 0x30, 0x00]),
      (42, [0x00, 0x66, 0x3C, 0xFF, 0x3C, 0x66, 0x00, 0x00]),
      (43, [0x00, 0x18, 0x18, 0x7E, 0x18, 0x18, 0x00, 0x00]),
      (44, [0x00, 0x00, 0x00, 0x00, 0x00, 0x18, 0x18, 0x30]),
      (45, [0x00, 0x00, 0x00, 0x7E, 0x00, 0x00, 0x00, 0x00]),
      (46, [0x00, 0x00, 0x00, 0x00, 0x00, 0x18, 0x18, 0x00]),
      (47, [0x06, 0x0C, 0x18, 0x30, 0x60, 0xC0, 0x80, 0x00]),
      (48, [0x3C, 0x66, 0x6E, 0x76, 0x66, 0x66, 0x3C, 0x00]),
      (49, [0x18, 0x38, 0x18, 0x18, 0x18, 0x18, 0x7E, 0x00]),
      (50, [0x3C, 0x66, 0x06, 0x0C, 0x18, 0x30, 0x7E, 0x00]),
      (51, [0x7E, 0x0C, 0x18, 0x0C, 0x06, 0x66, 0x3C, 0x00]),
      (52, [0x0C, 0x1C, 0x3C, 0x6C, 0x7E, 0x0C, 0x0C, 0x00]),
      (53, [0x7E, 0x60, 0x7C, 0x06, 0x06, 0x66, 0x3C, 0x00]),
      (54, [0x1C, 0x30, 0x60, 0x7C, 0x66, 0x66, 0x3C, 0x00]),
      (55, [0x7E, 0x06, 0x0C, 0x18, 0x30, 0x30, 0x30, 0x00]),
      (56, [0x3C, 0x66, 0x66, 0x3C, 0x66, 0x66, 0x3C, 0x00]),
      (57, [0x3C, 0x66, 0x66, 0x3E, 0x06, 0x0C, 0x38, 0x00]),
      (58, [0x00, 0x18, 0x18, 0x00, 0x18, 0x18, 0x00, 0x00]),
      (59, [0x00, 0x18, 0x18, 0x00, 0x18, 0x18, 0x30, 0x00]),
      (60, [0x0C, 0x18, 0x30, 0x60, 0x30, 0x18, 0x0C, 0x00]),
      (61, [0x00, 0x00, 0x7E, 0x00, 0x7E, 0x00, 0x00, 0x00]),
      (62, [0x30, 0x18, 0x0C, 0x06, 0x0C, 0x18, 0x30, 0x00]),
      (63, [0x3C, 0x66, 0x0C, 0x18, 0x18, 0x00, 0x18, 0x00]),
      (64, [0x3C, 0x66, 0x6E, 0x6E, 0x60, 0x62, 0x3C, 0x00]),
      (65, [0x18, 0x3C, 0x66, 0x66, 0x7E, 0x66, 0x66, 0x00]),
      (66, [0x7C, 0x66, 0x66, 0x7C, 0x66, 0x66, 0x7C, 0x00]),
      (67, [0x3C, 0x66, 0x60, 0x60, 0x60, 0x66, 0x3C, 0x00]),
      (68, [0x78, 0x6C, 0x66, 0x66, 0x66, 0x6C, 0x78, 0x00]),
      (69, [0x7E, 0x60, 0x60, 0x7C, 0x60, 0x60, 0x7E, 0x00]),
      (70, [0x7E, 0x60, 0x60, 0x7C, 0x60, 0x60, 0x60, 0x00]),
      (71, [0x3E, 0x60, 0x60, 0x6E, 0x66, 0x66, 0x3E, 0x00]),
      (72, [0x66, 0x66, 0x66, 0x7E, 0x66, 0x66, 0x66, 0x00]),
      (73, [0x3C, 0x18, 0x18, 0x18, 0x18, 0x18, 0x3C, 0x00]),
      (74, [0x06, 0x06, 0x06, 0x06, 0x66, 0x66, 0x3C, 0x00]),
      (75, [0x66, 0x6C, 0x78, 0x70, 0x78, 0x6C, 0x66, 0x00]),
      (76, [0x60, 0x60, 0x60, 0x60, 0x60, 0x60, 0x7E, 0x00]),
      (77, [0xC6, 0xEE, 0xFE, 0xD6, 0xC6, 0xC6, 0xC6, 0x00]),
      (78, [0x66, 0x76, 0x7E, 0x7E, 0x6E, 0x66, 0x66, 0x00]),
      (79, [0x3C, 0x66, 0x66, 0x66, 0x66, 0x66, 0x3C, 0x00]),
      (80, [0x7C, 0x66, 0x66, 0x7C, 0x60, 0x60, 0x60, 0x00]),
      (81, [0x3C, 0x66, 0x66, 0x66, 0x6E, 0x3C, 0x0E, 0x00]),
      (82, [0x7C, 0x66, 0x66, 0x7C, 0x6C, 0x66, 0x66, 0x00]),
      (83, [0x3C, 0x66, 0x60, 0x3C, 0x06, 0x66, 0x3C, 0x00]),
      (84, [0x7E, 0x18, 0x18, 0x18, 0x18, 0x18, 0x18, 0x00]),
      (85, [0x66, 0x66, 0x66, 0x66, 0x66, 0x66, 0x3C, 0x00]),
      (86, [0x66, 0x66, 0x66, 0x66, 0x66, 0x3C, 0x18, 0x00]),
      (87, [0xC6, 0xC6, 0xC6, 0xD6, 0xFE, 0xEE, 0xC6, 0x00]),
      (88, [0x66, 0x66, 0x3C, 0x18, 0x3C, 0x66, 0x66, 0x00]),
      (89, [0x66, 0x66, 0x66, 0x3C, 0x18, 0x18, 0x18, 0x00]),
      (90, [0x7E, 0x06, 0x0C, 0x18, 0x30, 0x60, 0x7E, 0x00]),
      (91, [0x3C, 0x30, 0x30, 0x30, 0x30, 0x30, 0x3C, 0x00]),
      (92, [0xC0, 0x60, 0x30, 0x18, 0x0C, 0x06, 0x02, 0x00]),
      (93, [0x3C, 0x0C, 0x0C, 0x0C, 0x0C, 0x0C, 0x3C, 0x00]),
      (94, [0x10, 0x38, 0x6C, 0xC6, 0x00, 0x00, 0x00, 0x00]),
      (95, [0x00, 0x00, 0x00, 0x00, 0x00, 0x00, 0x00, 0xFF]),
      (96, [0x30, 0x18, 0x0C, 0x00, 0x00, 0x00, 0x00, 0x00]),
      (97, [0x00, 0x00, 0x3C, 0x06, 0x3E, 0x66, 0x3E, 0x00]),
      (98, [0x60, 0x60, 0x7C, 0x66, 0x66, 0x66, 0x7C, 0x00]),
      (99, [0x00, 0x00, 0x3C, 0x60, 0x60, 0x60, 0x3C, 0x00]),
      (100, [0x06, 0x06, 0x3E, 0x66, 0x66, 0x66, 0x3E, 0x00]),
      (101, [0x00, 0x00, 0x3C, 0x66, 0x7E, 0x60, 0x3C, 0x00]),
      (102, [0x1C, 0x30, 0x7C, 0x30, 0x30, 0x30, 0x30, 0x00]),
      (103, [0x00, 0x00, 0x3E, 0x66, 0x66, 0x3E, 0x06, 0x3C]),
      (104, [0x60, 0x60, 0x7C, 0x66, 0x66, 0x66, 0x66, 0x00]),
      (105, [0x18, 0x00, 0x38, 0x18, 0x18, 0x18, 0x3C, 0x00]),
      (106, [0x0C, 0x00, 0x1C, 0x0C, 0x0C, 0x0C, 0x6C, 0x38]),
      (107, [0x60, 0x60, 0x66, 0x6C, 0x78, 0x6C, 0x66, 0x00]),
      (108, [0x38, 0x18, 0x18, 0x18, 0x18, 0x18, 0x3C, 0x00]),
      (109, [0x00, 0x00, 0xEC, 0xFE, 0xD6, 0xC6, 0xC6, 0x00]),
      (110, [0x00, 0x00, 0x7C, 0x66, 0x66, 0x66, 0x66, 0x00]),
      (111, [0x00, 0x00, 0x3C, 0x66, 0x66, 0x66, 0x3C, 0x00]),
      (112, [0x00, 0x00, 0x7C, 0x66, 0x66, 0x7C, 0x60, 0x60]),
      (113, [0x00, 0x00, 0x3E, 0x66, 0x66, 0x3E, 0x06, 0x06]),
      (114, [0x00, 0x00, 0x6E, 0x70, 0x60, 0x60, 0x60, 0x00]),
      (115, [0x00, 0x00, 0x3E, 0x60, 0x3C, 0x06, 0x7C, 0x00]),
      (116, [0x30, 0x30, 0x7C, 0x30, 0x30, 0x30, 0x1C, 0x00]),
      (117, [0x00, 0x00, 0x66, 0x66, 0x66, 0x66, 0x3E, 0x00]),
      (118, [0x00, 0x00, 0x66, 0x66, 0x66, 0x3C, 0x18, 0x00]),
      (119, [0x00, 0x00, 0xC6, 0xC6, 0xD6, 0xFE, 0x6C, 0x00]),
      (120, [0x00, 0x00, 0x66, 0x3C, 0x18, 0x3C, 0x66, 0x00]),
      (121, [0x00, 0x00, 0x66, 0x66, 0x66, 0x3E, 0x06, 0x3C]),
      (122, [0x00, 0x00, 0x7E, 0x0C, 0x18, 0x30, 0x7E, 0x00]),
      (123, [0x0E, 0x18, 0x18, 0x70, 0x18, 0x18, 0x0E, 0x00]),
      (124, [0x18, 0x18, 0x18, 0x18, 0x18, 0x18, 0x18, 0x00]),
      (125, [0x70, 0x18, 0x18, 0x0E, 0x18, 0x18, 0x70, 0x00]),
      (126, [0x76, 0xDC, 0x00, 0x00, 0x00, 0x00, 0x00, 0x00])]"

definition get_full_glyph :: "u8 \<Rightarrow> u8 list" where
  "get_full_glyph ch =
     (case map_of full_glyphs ch of
        Some g \<Rightarrow> g
      | None \<Rightarrow> [0xFF, 0x81, 0x81, 0x81, 0x81, 0x81, 0x81, 0xFF])"

abbreviation FONT_HEIGHT :: nat where "FONT_HEIGHT \<equiv> 8"
abbreviation FONT_WIDTH :: nat where "FONT_WIDTH \<equiv> 8"

definition glyph_bit :: "u8 list \<Rightarrow> nat \<Rightarrow> nat \<Rightarrow> bool" where
  "glyph_bit glyph row col \<longleftrightarrow> glyph ! row AND drop_bit col 0x80 \<noteq> 0"

text \<open>The cells of a glyph in the order of the two loops.\<close>

definition glyph_cells :: "(nat \<times> nat) list" where
  "glyph_cells = concat (map (\<lambda>row. map (Pair row) [0 ..< FONT_WIDTH]) [0 ..< FONT_HEIGHT])"

definition draw_char :: "u32 \<Rightarrow> u32 \<Rightarrow> u8 \<Rightarrow> color \<Rightarrow> color \<Rightarrow> graphics \<Rightarrow> graphics" where
  "draw_char x y ch fg bg =
     store_framebuffer (\<lambda>fb.
       fold (\<lambda>(row, col).
               put_pixel (x + of_nat col) (y + of_nat row)
                 (if glyph_bit (get_full_glyph ch) row col
                  then pixel_value (fb_format fb) fg else pixel_value (fb_format fb) bg) fb)
            glyph_cells)"

fun draw_string :: "u32 \<Rightarrow> u32 \<Rightarrow> u8 list \<Rightarrow> color \<Rightarrow> color \<Rightarrow> graphics \<Rightarrow> graphics" where
  "draw_string x y [] fg bg g = g"
| "draw_string x y (ch # chs) fg bg g = draw_string (x + 8) y chs fg bg (draw_char x y ch fg bg g)"

fun panic_chars :: "framebuffer \<Rightarrow> u32 \<Rightarrow> u32 \<Rightarrow> u32 \<Rightarrow> u8 list \<Rightarrow> (usize \<Rightarrow> u32) \<Rightarrow> (usize \<Rightarrow> u32)" where
  "panic_chars fb v cx y [] m = m"
| "panic_chars fb v cx y (ch # chs) m =
     (if cx + 8 > fb_width fb then m
      else
        panic_chars fb v (cx + 8) y chs
          (fold (\<lambda>(row, col) m.
                   if glyph_bit (get_minimal_glyph ch) row col
                   then put_pixel (cx + of_nat col) (y + of_nat row) v fb m else m)
                glyph_cells m))"

definition panic_write :: "u32 \<Rightarrow> u32 \<Rightarrow> u8 list \<Rightarrow> color \<Rightarrow> graphics \<Rightarrow> graphics" where
  "panic_write x y chs c = store_framebuffer (\<lambda>fb. panic_chars fb (pixel_value (fb_format fb) c) x y chs)"

section \<open>Addresses of pixels\<close>

text \<open>
  A framebuffer as the firmware describes it: lines are at least as long as the screen is
  wide, and the pixels fit the 32-bit index arithmetic and the address space.
\<close>

definition fb_ok :: "framebuffer \<Rightarrow> bool" where
  "fb_ok fb \<longleftrightarrow> fb_width fb \<le> fb_stride fb \<and> unat (fb_stride fb) * unat (fb_height fb) < 2 ^ 32 \<and> fb_bpp fb = 4
     \<and> unat (fb_address fb) + unat (fb_stride fb) * unat (fb_height fb) * 4 < 2 ^ 64"

text \<open>The addresses at which a 32-bit store stays inside the framebuffer.\<close>

definition fb_area :: "framebuffer \<Rightarrow> usize set" where
  "fb_area fb = {a. unat (fb_address fb) \<le> unat a \<and>
     unat a + 4 \<le> unat (fb_address fb) + unat (fb_stride fb) * unat (fb_height fb) * 4}"

lemma pixel_index_bound:
  fixes x y st h w :: nat
  assumes "x < w" and "y < h" and "w \<le> st"
  shows "y * st + x < st * h"
proof -
  have "y * st + x < Suc y * st" using assms(1,3) by simp
  also have "\<dots> \<le> h * st" by (intro mult_le_mono1) (use assms(2) in simp)
  finally show ?thesis by (simp add: mult.commute)
qed

lemma index_ptr:
  assumes ok: "fb_ok fb" and k: "k < unat (fb_stride fb) * unat (fb_height fb)"
  shows "unat (fb_address fb + of_nat k * fb_bpp fb) = unat (fb_address fb) + k * 4"
    and "fb_address fb + of_nat k * fb_bpp fb \<in> fb_area fb"
proof -
  have b: "k * 4 + 4 \<le> unat (fb_stride fb) * unat (fb_height fb) * 4" using k by simp
  then have "unat (of_nat k * fb_bpp fb) = k * 4" using ok by (simp add: fb_ok_def unat_word_ariths unat_of_nat)
  then show u: "unat (fb_address fb + of_nat k * fb_bpp fb) = unat (fb_address fb) + k * 4"
    using ok b by (simp add: fb_ok_def unat_word_ariths)
  show "fb_address fb + of_nat k * fb_bpp fb \<in> fb_area fb" using u b by (simp add: fb_area_def)
qed

lemma pixel_ptr_index:
  assumes ok: "fb_ok fb" and xy: "x < fb_width fb" "y < fb_height fb"
  shows "pixel_ptr fb x y = fb_address fb + of_nat (unat y * unat (fb_stride fb) + unat x) * fb_bpp fb"
    and "unat y * unat (fb_stride fb) + unat x < unat (fb_stride fb) * unat (fb_height fb)"
proof -
  show k: "unat y * unat (fb_stride fb) + unat x < unat (fb_stride fb) * unat (fb_height fb)"
    by (rule pixel_index_bound [of _ "unat (fb_width fb)"]) (use ok xy in \<open>simp_all add: fb_ok_def word_less_nat_alt word_le_nat_alt\<close>)
  moreover have "unat (fb_stride fb) * unat (fb_height fb) < 2 ^ 32" using ok by (simp add: fb_ok_def)
  ultimately have "unat (y * fb_stride fb + x) = unat y * unat (fb_stride fb) + unat x" by (simp add: unat_word_ariths)
  moreover have "(ucast (y * fb_stride fb + x) :: usize) = of_nat (unat (y * fb_stride fb + x))" by (simp only: of_nat_unat)
  ultimately have "(ucast (y * fb_stride fb + x) :: usize) = of_nat (unat y * unat (fb_stride fb) + unat x)" by (simp only:)
  then show "pixel_ptr fb x y = fb_address fb + of_nat (unat y * unat (fb_stride fb) + unat x) * fb_bpp fb"
    by (simp add: pixel_ptr_def)
qed

lemma pixel_ptr_area: "fb_ok fb \<Longrightarrow> x < fb_width fb \<Longrightarrow> y < fb_height fb \<Longrightarrow> pixel_ptr fb x y \<in> fb_area fb"
  using pixel_ptr_index index_ptr(2) by metis

lemma pixel_ptr_inj:
  assumes ok: "fb_ok fb" and xy: "x < fb_width fb" "y < fb_height fb" and xy': "x' < fb_width fb" "y' < fb_height fb"
  shows "pixel_ptr fb x y = pixel_ptr fb x' y' \<longleftrightarrow> x = x' \<and> y = y'"
proof
  let ?st = "unat (fb_stride fb)"
  assume "pixel_ptr fb x y = pixel_ptr fb x' y'"
  then have "unat (pixel_ptr fb x y) = unat (pixel_ptr fb x' y')" by simp
  then have e: "unat y * ?st + unat x = unat y' * ?st + unat x'"
    using index_ptr(1) [OF ok pixel_ptr_index(2) [OF ok xy]] index_ptr(1) [OF ok pixel_ptr_index(2) [OF ok xy']]
    by (simp add: pixel_ptr_index(1) [OF ok xy] pixel_ptr_index(1) [OF ok xy'])
  have b: "unat x < ?st" "unat x' < ?st" using ok xy(1) xy'(1) by (auto simp: fb_ok_def word_less_nat_alt word_le_nat_alt)
  have "unat y = (unat y * ?st + unat x) div ?st" "unat y' = (unat y' * ?st + unat x') div ?st" using b by simp_all
  with e have "unat y = unat y'" by simp
  with e show "x = x' \<and> y = y'" by (simp add: word_unat_eq_iff)
qed simp

section \<open>Stores\<close>

lemma fold_store_keeps:
  assumes "\<And>x m. x \<in> set xs \<Longrightarrow> f x m a = m a"
  shows "fold f xs m a = m a"
  using assms by (induction xs arbitrary: m) simp_all

lemma store_framebuffer_keeps:
  assumes "\<And>fb m. gfx_framebuffer g = Some fb \<Longrightarrow> f fb m a = m a"
  shows "gfx_mem (store_framebuffer f g) a = gfx_mem g a"
  using assms by (auto simp: store_framebuffer_def with_framebuffer_def split: option.splits)

lemma store_framebuffer_frame [simp]:
  "gfx_framebuffer (store_framebuffer f g) = gfx_framebuffer g" "gfx_initialized (store_framebuffer f g) = gfx_initialized g"
  by (auto simp: store_framebuffer_def with_framebuffer_def split: option.splits)

lemma put_pixel_outside: "fb_ok fb \<Longrightarrow> a \<notin> fb_area fb \<Longrightarrow> put_pixel x y v fb m a = m a"
  by (auto simp: put_pixel_def dest: pixel_ptr_area)

lemma set_u32_range: "i \<in> set (u32_range a b) \<longleftrightarrow> a \<le> i \<and> i < b"
proof
  assume "i \<in> set (u32_range a b)"
  then obtain n where n: "i = of_nat n" "unat a \<le> n" "n < unat b" by (auto simp: u32_range_def)
  have "unat b < 2 ^ 32" using unsigned_less [of b] by simp
  with n have "unat i = n" by (simp add: unat_of_nat)
  with n show "a \<le> i \<and> i < b" by (simp add: word_le_nat_alt word_less_nat_alt)
next
  assume "a \<le> i \<and> i < b"
  then have "unat i \<in> {unat a ..< unat b}" by (simp add: word_le_nat_alt word_less_nat_alt)
  then show "i \<in> set (u32_range a b)" unfolding u32_range_def set_map set_upt by (intro image_eqI [of _ _ "unat i"]) simp_all
qed

lemma fill_row:
  assumes "\<And>x. x \<in> set xs \<Longrightarrow> ptr x = a \<longleftrightarrow> P x"
  shows "fold (\<lambda>x m. m(ptr x := v)) xs m a = (if \<exists>x \<in> set xs. P x then v else m a)"
  using assms by (induction xs arbitrary: m) auto

lemma fill_rows:
  assumes "\<And>x y. y \<in> set ys \<Longrightarrow> x \<in> set xs \<Longrightarrow> ptr x y = a \<longleftrightarrow> P x y"
  shows "fold (\<lambda>y. fold (\<lambda>x m. m(ptr x y := v)) xs) ys m a = (if \<exists>y \<in> set ys. \<exists>x \<in> set xs. P x y then v else m a)"
  using assms
proof (induction ys arbitrary: m)
  case (Cons y ys)
  have "fold (\<lambda>x m. m(ptr x y := v)) xs m a = (if \<exists>x \<in> set xs. P x y then v else m a)"
    by (rule fill_row) (use Cons.prems in simp)
  moreover have "fold (\<lambda>y. fold (\<lambda>x m. m(ptr x y := v)) xs) ys m' a
      = (if \<exists>y \<in> set ys. \<exists>x \<in> set xs. P x y then v else m' a)" for m'
    by (rule Cons.IH) (use Cons.prems in simp)
  ultimately show ?case by (simp del: fun_upd_apply)
qed simp

section \<open>Properties\<close>

lemma draw_string_keeps:
  assumes "fb_ok fb" and "gfx_framebuffer g = Some fb" and "a \<notin> fb_area fb"
  shows "gfx_mem (draw_string x y chs fg bg g) a = gfx_mem g a"
  using assms(2)
proof (induction chs arbitrary: x g)
  case (Cons ch chs)
  have "gfx_mem (draw_char x y ch fg bg g) a = gfx_mem g a"
    unfolding draw_char_def
    by (rule store_framebuffer_keeps, rule fold_store_keeps)
      (use Cons.prems assms(1,3) in \<open>auto simp: put_pixel_outside\<close>)
  moreover have "gfx_framebuffer (draw_char x y ch fg bg g) = Some fb" using Cons.prems by (simp add: draw_char_def)
  ultimately show ?case using Cons.IH by simp
qed simp

lemma panic_chars_keeps:
  assumes "fb_ok fb" and "a \<notin> fb_area fb"
  shows "panic_chars fb v cx y chs m a = m a"
proof (induction chs arbitrary: cx m)
  case (Cons ch chs)
  have "fold (\<lambda>(row, col) m. if glyph_bit (get_minimal_glyph ch) row col
      then put_pixel (cx + of_nat col) (y + of_nat row) v fb m else m) glyph_cells m a = m a"
    by (rule fold_store_keeps) (auto simp: put_pixel_outside [OF assms])
  then show ?case using Cons.IH by simp
qed simp

lemma fill_rect_keeps:
  assumes "fb_ok fb" and "a \<notin> fb_area fb"
  shows "fold (\<lambda>py. fold (\<lambda>px m. m(pixel_ptr fb px py := v)) (u32_range x (min x2 (fb_width fb)))) (u32_range y (min y2 (fb_height fb))) m a = m a"
proof (intro fold_store_keeps)
  fix py m px assume p: "py \<in> set (u32_range y (min y2 (fb_height fb)))" "px \<in> set (u32_range x (min x2 (fb_width fb)))"
  then have "pixel_ptr fb px py \<in> fb_area fb" by (intro pixel_ptr_area assms) (simp_all add: set_u32_range)
  with assms(2) show "(m(pixel_ptr fb px py := v)) a = m a" by auto
qed

text \<open>
  C28. Drawing never writes outside the framebuffer: whatever the coordinates, sizes and text,
  also where they wrap around or leave the screen, an address at which a store would reach
  outside the framebuffer keeps its content.
\<close>

theorem drawing_in_bounds:
  assumes "fb_ok fb" and "gfx_framebuffer g = Some fb" and "a \<notin> fb_area fb"
  shows "gfx_mem (draw_pixel x y c g) a = gfx_mem g a \<and> gfx_mem (write_pixel x y v g) a = gfx_mem g a
    \<and> gfx_mem (fill_rect x y w h c g) a = gfx_mem g a \<and> gfx_mem (clear_screen c g) a = gfx_mem g a
    \<and> gfx_mem (draw_string x y chs c c' g) a = gfx_mem g a \<and> gfx_mem (panic_write x y chs c g) a = gfx_mem g a"
proof (intro conjI)
  show "gfx_mem (draw_pixel x y c g) a = gfx_mem g a" unfolding draw_pixel_def
    by (rule store_framebuffer_keeps) (use assms in \<open>simp add: put_pixel_outside\<close>)
  show "gfx_mem (write_pixel x y v g) a = gfx_mem g a" unfolding write_pixel_def
    by (rule store_framebuffer_keeps) (use assms in \<open>simp add: put_pixel_outside\<close>)
  show "gfx_mem (fill_rect x y w h c g) a = gfx_mem g a" unfolding fill_rect_def Let_def
    by (rule store_framebuffer_keeps) (use assms in \<open>simp add: fill_rect_keeps\<close>)
  show "gfx_mem (clear_screen c g) a = gfx_mem g a" unfolding clear_screen_def Let_def
  proof (intro store_framebuffer_keeps fold_store_keeps)
    fix fb' m i assume f: "gfx_framebuffer g = Some fb'" and i: "i \<in> set [0 ..< unat (fb_stride fb' * fb_height fb')]"
    have "unat (fb_stride fb * fb_height fb) = unat (fb_stride fb) * unat (fb_height fb)"
      using assms(1) by (simp add: fb_ok_def unat_word_ariths)
    with f i assms(2) have "i < unat (fb_stride fb) * unat (fb_height fb)" by simp
    from index_ptr(2) [OF assms(1) this] f assms(2,3)
    show "(m(fb_address fb' + of_nat i * fb_bpp fb' := pixel_value (fb_format fb') c)) a = m a" by auto
  qed
  show "gfx_mem (draw_string x y chs c c' g) a = gfx_mem g a" by (rule draw_string_keeps [OF assms])
  show "gfx_mem (panic_write x y chs c g) a = gfx_mem g a" unfolding panic_write_def
    by (rule store_framebuffer_keeps) (use assms in \<open>simp add: panic_chars_keeps\<close>)
qed

definition fb_example :: framebuffer where
  "fb_example = \<lparr>fb_address = 0x80000000, fb_width = 640, fb_height = 480, fb_stride = 640, fb_format = PfBgr, fb_bpp = 4\<rparr>"

definition gfx_example :: graphics where
  "gfx_example = \<lparr>gfx_framebuffer = Some fb_example, gfx_initialized = True, gfx_mem = (\<lambda>_. 7)\<rparr>"

lemma fb_example_ok: "fb_ok fb_example"
  by (simp add: fb_ok_def fb_example_def)

abbreviation red :: color where "red \<equiv> \<lparr>col_r = 255, col_g = 0, col_b = 0\<rparr>"

theorem drawing_in_bounds_witness:
  "gfx_mem (fill_rect 600 470 100 100 red gfx_example) 0x8012C000 = 7
   \<and> gfx_mem (draw_string 0xFFFFFFFC 476 [65, 66] red red gfx_example) 0x8012C000 = 7"
proof -
  have "0x8012C000 \<notin> fb_area fb_example" by (simp add: fb_area_def fb_example_def)
  moreover have "gfx_framebuffer gfx_example = Some fb_example" "gfx_mem gfx_example = (\<lambda>_. 7)" by (simp_all add: gfx_example_def)
  ultimately show ?thesis using drawing_in_bounds [OF fb_example_ok, of gfx_example] by (simp del: draw_string.simps)
qed

definition in_rect :: "u32 \<Rightarrow> u32 \<Rightarrow> u32 \<Rightarrow> u32 \<Rightarrow> u32 \<Rightarrow> u32 \<Rightarrow> bool" where
  "in_rect x y w h i j \<longleftrightarrow> x \<le> i \<and> unat i < unat x + unat w \<and> y \<le> j \<and> unat j < unat y + unat h"

text \<open>
  Filling a rectangle is equivalent to its pixelwise definition: after the nested loops a
  pixel of the screen has the colour when it lies in the rectangle and is as before
  otherwise, for every rectangle whose corner coordinates do not wrap around.
\<close>

lemma fill_rect_pixelwise:
  assumes "fb_ok fb" and "gfx_framebuffer g = Some fb" and "gfx_initialized g"
    and "unat x + unat w < 2 ^ 32" and "unat y + unat h < 2 ^ 32" and "i < fb_width fb" and "j < fb_height fb"
  shows "read_pixel i j (fill_rect x y w h c g)
    = (if in_rect x y w h i j then pixel_value (fb_format fb) c else read_pixel i j g)"
proof -
  let ?v = "pixel_value (fb_format fb) c"
  let ?xs = "u32_range x (min (x + w) (fb_width fb))" and ?ys = "u32_range y (min (y + h) (fb_height fb))"
  have xw: "unat (x + w) = unat x + unat w" "unat (y + h) = unat y + unat h" using assms(4,5) by (simp_all add: unat_word_ariths)
  have "fold (\<lambda>py. fold (\<lambda>px m. m(pixel_ptr fb px py := ?v)) ?xs) ?ys (gfx_mem g) (pixel_ptr fb i j)
      = (if \<exists>py \<in> set ?ys. \<exists>px \<in> set ?xs. px = i \<and> py = j then ?v else gfx_mem g (pixel_ptr fb i j))"
    by (rule fill_rows) (use assms(1,6,7) in \<open>simp add: set_u32_range pixel_ptr_inj\<close>)
  moreover have "(\<exists>py \<in> set ?ys. \<exists>px \<in> set ?xs. px = i \<and> py = j) \<longleftrightarrow> in_rect x y w h i j"
    using assms(6,7) by (auto simp: set_u32_range in_rect_def min_less_iff_conj word_less_nat_alt [of _ "x + w"] word_less_nat_alt [of _ "y + h"] xw)
  ultimately show ?thesis using assms(2,3,6,7)
    by (simp add: read_pixel_def fill_rect_def store_framebuffer_def with_framebuffer_def Let_def)
qed

text \<open>
  The corner is computed with wrap-around: a rectangle that reaches past the largest
  coordinate is not clipped to the screen but not drawn at all, and a glyph that starts
  near it continues at the left edge.
\<close>

lemma fill_rect_wraps: "u32_range 10 (min (10 + 0xFFFFFFFF) 640) = []"
  by code_simp

end
