(* ===== verification/Terminal_Buffer.thy ===== *)
theory Terminal_Buffer
  imports Array_Ops Graphics
begin

text \<open>
  The terminal's text buffers, \<^verbatim>\<open>userspace/drivers/terminal/src/buffer.rs\<close>: the edit line, the
  command history and the display. All three are fixed arrays with index arithmetic. The edit
  line is shown to be a text with a cursor in it, the history a list of the last 32 commands,
  and the display the last rows of an unbounded text, each by a simulation that also shows
  that no operation panics.
\<close>

section \<open>Cells and lines\<close>

definition MAX_LINE_LENGTH :: nat where "MAX_LINE_LENGTH = 256"
definition MAX_SCROLLBACK_LINES :: nat where "MAX_SCROLLBACK_LINES = 500"
definition MAX_VISIBLE_LINES :: nat where "MAX_VISIBLE_LINES = 50"

lemmas buffer_consts = MAX_LINE_LENGTH_def MAX_VISIBLE_LINES_def

definition rgb :: "u8 \<Rightarrow> u8 \<Rightarrow> u8 \<Rightarrow> color" where
  "rgb r g b = \<lparr>col_r = r, col_g = g, col_b = b\<rparr>"

definition WINDOW_BG :: color where "WINDOW_BG = rgb 30 30 30"
definition TEXT_NORMAL :: color where "TEXT_NORMAL = rgb 220 220 220"

record cell =
  ch :: u8
  fg :: color
  bg :: color

definition cell_empty :: cell where
  "cell_empty = \<lparr>ch = 32, fg = TEXT_NORMAL, bg = WINDOW_BG\<rparr>"

definition cell_new :: "u8 \<Rightarrow> color \<Rightarrow> color \<Rightarrow> cell" where
  "cell_new c f b = \<lparr>ch = c, fg = f, bg = b\<rparr>"

record line =
  cells :: "cell list"
  line_len :: nat

definition line_empty :: line where
  "line_empty = \<lparr>cells = replicate MAX_LINE_LENGTH cell_empty, line_len = 0\<rparr>"

definition line_clear :: "line \<Rightarrow> line" where
  "line_clear l = l\<lparr>cells := map (\<lambda>_. cell_empty) (cells l), line_len := 0\<rparr>"

definition line_get :: "line \<Rightarrow> nat \<Rightarrow> cell option option" where
  "line_get l i = (if i < line_len l then map_option Some (arr_get (cells l) i) else Some None)"

definition line_set :: "nat \<Rightarrow> cell \<Rightarrow> line \<Rightarrow> line option" where
  "line_set i c l =
     (if i < MAX_LINE_LENGTH then
        do { cs \<leftarrow> arr_set (cells l) i c;
             Some (l\<lparr>cells := cs, line_len := (if line_len l \<le> i then i + 1 else line_len l)\<rparr>) }
      else Some l)"

definition line_push :: "cell \<Rightarrow> line \<Rightarrow> (bool \<times> line) option" where
  "line_push c l =
     (if line_len l < MAX_LINE_LENGTH then
        do { cs \<leftarrow> arr_set (cells l) (line_len l) c;
             Some (True, l\<lparr>cells := cs, line_len := line_len l + 1\<rparr>) }
      else Some (False, l))"

definition line_push_char :: "u8 \<Rightarrow> color \<Rightarrow> line \<Rightarrow> (bool \<times> line) option" where
  "line_push_char c f = line_push (cell_new c f WINDOW_BG)"

fun line_push_str :: "u8 list \<Rightarrow> color \<Rightarrow> line \<Rightarrow> line option" where
  "line_push_str [] f l = Some l"
| "line_push_str (b # bs) f l =
     do { (more, l1) \<leftarrow> line_push_char b f l; (if more then line_push_str bs f l1 else Some l1) }"

section \<open>The edit line\<close>

record input_buffer =
  buffer :: "u8 list"
  ib_len :: nat
  cursor :: nat

definition input_new :: input_buffer where
  "input_new = \<lparr>buffer = replicate MAX_LINE_LENGTH 0, ib_len = 0, cursor = 0\<rparr>"

definition input_clear :: "input_buffer \<Rightarrow> input_buffer" where
  "input_clear b = b\<lparr>ib_len := 0, cursor := 0\<rparr>"

definition input_insert :: "u8 \<Rightarrow> input_buffer \<Rightarrow> (bool \<times> input_buffer) option" where
  "input_insert c b =
     (if MAX_LINE_LENGTH - 1 \<le> ib_len b then Some (False, b)
      else do {
        bs \<leftarrow> for_each move_right (rev [cursor b ..< ib_len b]) (buffer b);
        bs \<leftarrow> arr_set bs (cursor b) c;
        Some (True, b\<lparr>buffer := bs, ib_len := ib_len b + 1, cursor := cursor b + 1\<rparr>) })"

definition input_backspace :: "input_buffer \<Rightarrow> (bool \<times> input_buffer) option" where
  "input_backspace b =
     (if cursor b = 0 then Some (False, b)
      else do {
        bs \<leftarrow> for_each move_left [cursor b ..< ib_len b] (buffer b);
        Some (True, b\<lparr>buffer := bs, ib_len := ib_len b - 1, cursor := cursor b - 1\<rparr>) })"

definition input_delete :: "input_buffer \<Rightarrow> (bool \<times> input_buffer) option" where
  "input_delete b =
     (if ib_len b \<le> cursor b then Some (False, b)
      else do {
        bs \<leftarrow> for_each move_left [cursor b + 1 ..< ib_len b] (buffer b);
        Some (True, b\<lparr>buffer := bs, ib_len := ib_len b - 1\<rparr>) })"

definition cursor_left :: "input_buffer \<Rightarrow> bool \<times> input_buffer" where
  "cursor_left b = (if 0 < cursor b then (True, b\<lparr>cursor := cursor b - 1\<rparr>) else (False, b))"

definition cursor_right :: "input_buffer \<Rightarrow> bool \<times> input_buffer" where
  "cursor_right b = (if cursor b < ib_len b then (True, b\<lparr>cursor := cursor b + 1\<rparr>) else (False, b))"

definition cursor_home :: "input_buffer \<Rightarrow> input_buffer" where
  "cursor_home b = b\<lparr>cursor := 0\<rparr>"

definition cursor_end :: "input_buffer \<Rightarrow> input_buffer" where
  "cursor_end b = b\<lparr>cursor := ib_len b\<rparr>"

definition as_str :: "input_buffer \<Rightarrow> u8 list option" where
  "as_str b = arr_prefix (buffer b) (ib_len b)"

definition input_set_step :: "u8 \<Rightarrow> input_buffer \<Rightarrow> input_buffer option" where
  "input_set_step c b =
     (if ib_len b < MAX_LINE_LENGTH - 1 then
        do { bs \<leftarrow> arr_set (buffer b) (ib_len b) c; Some (b\<lparr>buffer := bs, ib_len := ib_len b + 1\<rparr>) }
      else Some b)"

definition input_set :: "u8 list \<Rightarrow> input_buffer \<Rightarrow> input_buffer option" where
  "input_set s b =
     do { b1 \<leftarrow> for_each input_set_step s (input_clear b); Some (b1\<lparr>cursor := ib_len b1\<rparr>) }"

text \<open>The calls the terminal makes on the edit line, and what each does to a text with a cursor.\<close>

datatype edit =
    Insert u8 | Backspace | Delete | CursorLeft | CursorRight | CursorHome | CursorEnd | Clear | SetText "u8 list"

fun edit_step :: "edit \<Rightarrow> input_buffer \<Rightarrow> (bool \<times> input_buffer) option" where
  "edit_step (Insert c) b = input_insert c b"
| "edit_step Backspace b = input_backspace b"
| "edit_step Delete b = input_delete b"
| "edit_step CursorLeft b = Some (cursor_left b)"
| "edit_step CursorRight b = Some (cursor_right b)"
| "edit_step CursorHome b = Some (True, cursor_home b)"
| "edit_step CursorEnd b = Some (True, cursor_end b)"
| "edit_step Clear b = Some (True, input_clear b)"
| "edit_step (SetText s) b = do { b1 \<leftarrow> input_set s b; Some (True, b1) }"

type_synonym edit_text = "u8 list \<times> u8 list"

fun edit_spec :: "edit \<Rightarrow> edit_text \<Rightarrow> bool \<times> edit_text" where
  "edit_spec (Insert c) (l, r) =
     (if length l + length r < 255 then (True, (l @ [c], r)) else (False, (l, r)))"
| "edit_spec Backspace (l, r) = (if l = [] then (False, (l, r)) else (True, (butlast l, r)))"
| "edit_spec Delete (l, r) = (case r of [] \<Rightarrow> (False, (l, r)) | _ # r' \<Rightarrow> (True, (l, r')))"
| "edit_spec CursorLeft (l, r) = (if l = [] then (False, (l, r)) else (True, (butlast l, last l # r)))"
| "edit_spec CursorRight (l, r) = (case r of [] \<Rightarrow> (False, (l, r)) | c # r' \<Rightarrow> (True, (l @ [c], r')))"
| "edit_spec CursorHome (l, r) = (True, ([], l @ r))"
| "edit_spec CursorEnd (l, r) = (True, (l @ r, []))"
| "edit_spec Clear (l, r) = (True, ([], []))"
| "edit_spec (SetText s) (l, r) = (True, (take 255 s, []))"

definition input_ok :: "input_buffer \<Rightarrow> bool" where
  "input_ok b \<longleftrightarrow> length (buffer b) = MAX_LINE_LENGTH \<and> ib_len b < MAX_LINE_LENGTH \<and> cursor b \<le> ib_len b"

definition edit_rel :: "input_buffer \<Rightarrow> edit_text \<Rightarrow> bool" where
  "edit_rel b lr \<longleftrightarrow>
     input_ok b \<and> take (ib_len b) (buffer b) = fst lr @ snd lr \<and> cursor b = length (fst lr)"

lemma edit_relE:
  assumes "edit_rel b (l, r)"
  obtains rest where "buffer b = l @ r @ rest" "ib_len b = length l + length r" "cursor b = length l"
    "length l + length r + length rest = 256" "rest \<noteq> []"
proof -
  let ?rest = "drop (ib_len b) (buffer b)"
  from assms have ok: "length (buffer b) = 256" "ib_len b < 256" and t: "take (ib_len b) (buffer b) = l @ r"
    and c: "cursor b = length l" by (simp_all add: edit_rel_def input_ok_def buffer_consts)
  from t have "buffer b = l @ r @ ?rest" by (metis append.assoc append_take_drop_id)
  moreover from arg_cong [OF t, of length] ok have "ib_len b = length l + length r" by simp
  ultimately show ?thesis using ok c that [of ?rest] by simp
qed

lemma edit_relI:
  "buffer b = l @ r @ rest \<Longrightarrow> ib_len b = length l + length r \<Longrightarrow> cursor b = length l \<Longrightarrow>
   length l + length r + length rest = 256 \<Longrightarrow> rest \<noteq> [] \<Longrightarrow> edit_rel b (l, r)"
  by (cases rest) (simp_all add: edit_rel_def input_ok_def buffer_consts)

lemma edit_rel_new: "edit_rel input_new ([], [])"
  by (rule edit_relI [of _ _ _ "replicate 256 0"]) (simp_all add: input_new_def buffer_consts)

lemma shift_right_append:
  "for_each move_right (rev [length l ..< length l + length r]) (l @ r @ x # rest)
     = Some (l @ (case r of [] \<Rightarrow> [x] | c # _ \<Rightarrow> c # r) @ rest)"
proof -
  let ?xs = "l @ r @ x # rest" and ?zs = "l @ (case r of [] \<Rightarrow> [x] | c # _ \<Rightarrow> c # r) @ rest"
  obtain ys where ys: "for_each move_right (rev [length l ..< length l + length r]) ?xs = Some ys"
    "length ys = length ?xs"
    "\<forall>j < length ?xs. ys ! j = (if length l < j \<and> j \<le> length l + length r then ?xs ! (j - 1) else ?xs ! j)"
    using shift_right [of "length l" "length l + length r" ?xs] by auto
  have "ys = ?zs"
    by (rule nth_equalityI)
      (use ys(2,3) in \<open>auto simp: nth_append nth_Cons' not_less split: list.split\<close>)
  with ys(1) show ?thesis by simp
qed

lemma shift_left_append:
  "for_each move_left [Suc (length l) ..< Suc (length l) + length r] (l @ x # r @ rest)
     = Some (l @ r @ (case r of [] \<Rightarrow> x | _ \<Rightarrow> last r) # rest)"
proof -
  let ?xs = "l @ x # r @ rest" and ?zs = "l @ r @ (case r of [] \<Rightarrow> x | _ \<Rightarrow> last r) # rest"
  obtain ys where ys: "for_each move_left [Suc (length l) ..< Suc (length l) + length r] ?xs = Some ys"
    "length ys = length ?xs"
    "\<forall>j < length ?xs. ys ! j = (if Suc (length l) \<le> Suc j \<and> Suc j < Suc (length l) + length r then ?xs ! Suc j else ?xs ! j)"
    using shift_left [of "Suc (length l)" "Suc (length l) + length r" ?xs] by auto
  have "ys = ?zs"
    by (rule nth_equalityI)
      (use ys(2,3) in \<open>auto simp: nth_append nth_Cons' not_less last_conv_nth split: list.split\<close>)
  with ys(1) show ?thesis by simp
qed

lemma sim_insert:
  assumes "edit_rel b (l, r)"
  shows "\<exists>b'. input_insert c b = Some (fst (edit_spec (Insert c) (l, r)), b') \<and> edit_rel b' (snd (edit_spec (Insert c) (l, r)))"
proof -
  obtain rest where b: "buffer b = l @ r @ rest" "ib_len b = length l + length r" "cursor b = length l"
    "length l + length r + length rest = 256" "rest \<noteq> []" using assms by (rule edit_relE)
  then obtain x rest' where rest: "rest = x # rest'" by (cases rest) auto
  show ?thesis
  proof (cases "length l + length r < 255")
    case True
    let ?bs = "l @ (case r of [] \<Rightarrow> [x] | c # _ \<Rightarrow> c # r) @ rest'"
    let ?b = "b\<lparr>buffer := l @ c # r @ rest', ib_len := length l + length r + 1, cursor := length l + 1\<rparr>"
    have "arr_set ?bs (length l) c = Some (l @ c # r @ rest')"
      by (simp add: arr_set_def split: list.split)
    then have "input_insert c b = Some (True, ?b)"
      using True b by (simp add: input_insert_def buffer_consts rest shift_right_append)
    moreover have "edit_rel ?b (l @ [c], r)"
      by (rule edit_relI [of _ _ _ rest']) (use True b rest in auto)
    ultimately show ?thesis using True by simp
  qed (use assms b in \<open>simp add: input_insert_def buffer_consts\<close>)
qed

lemma sim_backspace:
  assumes "edit_rel b (l, r)"
  shows "\<exists>b'. input_backspace b = Some (fst (edit_spec Backspace (l, r)), b') \<and> edit_rel b' (snd (edit_spec Backspace (l, r)))"
proof -
  obtain rest where b: "buffer b = l @ r @ rest" "ib_len b = length l + length r" "cursor b = length l"
    "length l + length r + length rest = 256" "rest \<noteq> []" using assms by (rule edit_relE)
  show ?thesis
  proof (cases l rule: rev_cases)
    case (snoc k x)
    let ?rest = "(case r of [] \<Rightarrow> x | _ \<Rightarrow> last r) # rest"
    let ?b = "b\<lparr>buffer := k @ r @ ?rest, ib_len := length k + length r, cursor := length k\<rparr>"
    have "input_backspace b = Some (True, ?b)"
      using b snoc shift_left_append [of k r x rest] by (simp add: input_backspace_def)
    moreover have "edit_rel ?b (k, r)" by (rule edit_relI [of _ _ _ ?rest]) (use b snoc in auto)
    ultimately show ?thesis using snoc by simp
  qed (use assms b in \<open>simp add: input_backspace_def\<close>)
qed

lemma sim_delete:
  assumes "edit_rel b (l, r)"
  shows "\<exists>b'. input_delete b = Some (fst (edit_spec Delete (l, r)), b') \<and> edit_rel b' (snd (edit_spec Delete (l, r)))"
proof -
  obtain rest where b: "buffer b = l @ r @ rest" "ib_len b = length l + length r" "cursor b = length l"
    "length l + length r + length rest = 256" "rest \<noteq> []" using assms by (rule edit_relE)
  show ?thesis
  proof (cases r)
    case (Cons x q)
    let ?rest = "(case q of [] \<Rightarrow> x | _ \<Rightarrow> last q) # rest"
    let ?b = "b\<lparr>buffer := l @ q @ ?rest, ib_len := length l + length q\<rparr>"
    have "input_delete b = Some (True, ?b)"
      using b Cons shift_left_append [of l q x rest] by (simp add: input_delete_def)
    moreover have "edit_rel ?b (l, q)" by (rule edit_relI [of _ _ _ ?rest]) (use b Cons in auto)
    ultimately show ?thesis using Cons by simp
  qed (use assms b in \<open>simp add: input_delete_def\<close>)
qed

lemma set_steps:
  assumes "buffer b = p @ rest" and "ib_len b = length p" and "length p + length rest = 256" and "length p \<le> 255"
  shows "\<exists>rest'. for_each input_set_step s b = Some (b\<lparr>buffer := take 255 (p @ s) @ rest', ib_len := length (take 255 (p @ s))\<rparr>)
    \<and> length (take 255 (p @ s)) + length rest' = 256"
  using assms
proof (induction s arbitrary: b p rest)
  case Nil
  then have "b = b\<lparr>buffer := p @ rest, ib_len := length p\<rparr>" by (cases b) simp
  with Nil show ?case by (metis append_Nil2 for_each.simps(1) take_all)
next
  case (Cons c s)
  show ?case
  proof (cases "length p < 255")
    case True
    then obtain x rest' where rest: "rest = x # rest'" using Cons.prems(3) by (cases rest) auto
    let ?b = "b\<lparr>buffer := (p @ [c]) @ rest', ib_len := length (p @ [c])\<rparr>"
    have "input_set_step c b = Some ?b"
      using True Cons.prems rest by (simp add: input_set_step_def buffer_consts arr_set_def)
    moreover have "\<exists>r. for_each input_set_step s ?b = Some (?b\<lparr>buffer := take 255 ((p @ [c]) @ s) @ r,
        ib_len := length (take 255 ((p @ [c]) @ s))\<rparr>) \<and> length (take 255 ((p @ [c]) @ s)) + length r = 256"
      by (rule Cons.IH) (use Cons.prems True rest in auto)
    ultimately show ?thesis by simp
  next
    case False
    with Cons.prems have "length p = 255" by simp
    with Cons.IH [OF Cons.prems] Cons.prems show ?thesis by (simp add: input_set_step_def buffer_consts)
  qed
qed

lemma sim_set:
  assumes "edit_rel b (l, r)"
  shows "\<exists>b'. input_set s b = Some b' \<and> edit_rel b' (take 255 s, [])"
proof -
  obtain rest where b: "buffer b = l @ r @ rest" "length l + length r + length rest = 256"
    using assms by (rule edit_relE)
  obtain rest' where f: "for_each input_set_step s (input_clear b)
      = Some ((input_clear b)\<lparr>buffer := take 255 s @ rest', ib_len := length (take 255 s)\<rparr>)"
    "length (take 255 s) + length rest' = 256"
    using set_steps [of "input_clear b" "[]" "buffer b" s] b by (auto simp: input_clear_def)
  then have "rest' \<noteq> []" by auto
  with f show ?thesis by (auto simp: input_set_def intro!: edit_relI [of _ _ _ rest'])
qed

lemma sim_move:
  assumes "edit_rel b (l, r)"
  shows "fst (cursor_left b) = fst (edit_spec CursorLeft (l, r))" "edit_rel (snd (cursor_left b)) (snd (edit_spec CursorLeft (l, r)))"
    "fst (cursor_right b) = fst (edit_spec CursorRight (l, r))" "edit_rel (snd (cursor_right b)) (snd (edit_spec CursorRight (l, r)))"
    "edit_rel (cursor_home b) ([], l @ r)" "edit_rel (cursor_end b) (l @ r, [])" "edit_rel (input_clear b) ([], [])"
proof -
  obtain rest where b: "buffer b = l @ r @ rest" "ib_len b = length l + length r" "cursor b = length l"
    "length l + length r + length rest = 256" "rest \<noteq> []" using assms by (rule edit_relE)
  show "fst (cursor_left b) = fst (edit_spec CursorLeft (l, r))"
    "fst (cursor_right b) = fst (edit_spec CursorRight (l, r))"
    using b by (auto simp: cursor_left_def cursor_right_def split: list.split)
  show "edit_rel (snd (cursor_left b)) (snd (edit_spec CursorLeft (l, r)))"
    by (cases l rule: rev_cases) (use assms b in \<open>auto simp: cursor_left_def intro!: edit_relI [of _ _ _ rest]\<close>)
  show "edit_rel (snd (cursor_right b)) (snd (edit_spec CursorRight (l, r)))"
    by (cases r) (use assms b in \<open>auto simp: cursor_right_def intro!: edit_relI [of _ _ _ rest]\<close>)
  show "edit_rel (cursor_home b) ([], l @ r)" "edit_rel (cursor_end b) (l @ r, [])"
    by (rule edit_relI [of _ _ _ rest], use b in \<open>simp_all add: cursor_home_def cursor_end_def\<close>)+
  show "edit_rel (input_clear b) ([], [])"
    by (rule edit_relI [of _ _ _ "buffer b"]) (use b in \<open>simp_all add: input_clear_def\<close>)
qed

interpretation editor: simulation edit_rel edit_step edit_spec "\<lambda>_. True"
proof
  fix b :: input_buffer and lr :: edit_text and e
  assume rel: "edit_rel b lr"
  obtain l r where lr: "lr = (l, r)" by (cases lr)
  note m = sim_move [OF rel [unfolded lr]]
  show "\<exists>b'. edit_step e b = Some (fst (edit_spec e lr), b') \<and> edit_rel b' (snd (edit_spec e lr))"
  proof (cases e)
    case (SetText s)
    obtain b' where "input_set s b = Some b'" "edit_rel b' (take 255 s, [])" using sim_set [OF rel [unfolded lr]] by blast
    with SetText lr show ?thesis by simp
  qed (use sim_insert [OF rel [unfolded lr]] sim_backspace [OF rel [unfolded lr]]
      sim_delete [OF rel [unfolded lr]] m in \<open>simp_all only: lr edit_step.simps, simp_all add: prod_eq_iff\<close>)
qed

lemma as_str_rel: "edit_rel b (l, r) \<Longrightarrow> as_str b = Some (l @ r)"
  by (simp add: edit_rel_def input_ok_def as_str_def array_simps)

text \<open>
  C33. The edit line is a text with a cursor in it: whatever sequence of key strokes is typed
  into an empty line, no array access panics, every operation reports what it reports on the
  text, and the line read back is the text left and right of the cursor, at most 255 bytes.
\<close>

theorem edit_line_refines:
  "\<exists>b. run_ops edit_step es input_new = Some (fst (run_spec edit_spec es ([], [])), b)
     \<and> as_str b = Some (fst (snd (run_spec edit_spec es ([], []))) @ snd (snd (run_spec edit_spec es ([], []))))
     \<and> cursor b = length (fst (snd (run_spec edit_spec es ([], [])))) \<and> ib_len b \<le> 255"
proof -
  obtain l r where lr: "snd (run_spec edit_spec es ([], [])) = (l, r)" by (cases "snd (run_spec edit_spec es ([], []))")
  obtain b where b: "run_ops edit_step es input_new = Some (fst (run_spec edit_spec es ([], [])), b)" "edit_rel b (l, r)"
    using editor.runs [OF edit_rel_new, of es] lr by auto
  moreover from b(2) have "cursor b = length l" "ib_len b \<le> 255" by (simp_all add: edit_rel_def input_ok_def buffer_consts)
  ultimately show ?thesis using as_str_rel [OF b(2)] lr by simp
qed

section \<open>The command history\<close>

record history =
  entries :: "u8 list list"
  lengths :: "nat list"
  hcount :: nat
  hindex :: nat
  capacity :: nat

definition history_new :: history where
  "history_new =
     \<lparr>entries = replicate 32 (replicate MAX_LINE_LENGTH 0), lengths = replicate 32 0, hcount = 0, hindex = 0,
      capacity = 32\<rparr>"

definition reset_navigation :: "history \<Rightarrow> history" where
  "reset_navigation h = h\<lparr>hindex := hcount h\<rparr>"

text \<open>The entry last pushed is the command itself.\<close>

definition repeats_last :: "u8 list \<Rightarrow> history \<Rightarrow> bool option" where
  "repeats_last cmd h =
     (if 0 < hcount h then do {
        let last_idx = (hcount h - 1) mod capacity h;
        last_len \<leftarrow> arr_get (lengths h) last_idx;
        if last_len = length cmd then do {
          e \<leftarrow> arr_get (entries h) last_idx;
          last \<leftarrow> arr_prefix e last_len;
          Some (last = cmd) }
        else Some False }
      else Some False)"

definition history_push :: "u8 list \<Rightarrow> history \<Rightarrow> history option" where
  "history_push cmd h =
     (if cmd = [] then Some h
      else do {
        dup \<leftarrow> repeats_last cmd h;
        if dup then Some (reset_navigation h)
        else do {
          let idx = hcount h mod capacity h;
          let len = min (length cmd) (MAX_LINE_LENGTH - 1);
          e \<leftarrow> arr_get (entries h) idx;
          e' \<leftarrow> copy_prefix e (take len cmd);
          es \<leftarrow> arr_set (entries h) idx e';
          ls \<leftarrow> arr_set (lengths h) idx len;
          Some (reset_navigation (h\<lparr>entries := es, lengths := ls, hcount := hcount h + 1\<rparr>)) } })"

definition get_current :: "history \<Rightarrow> u8 list option option" where
  "get_current h =
     (if hcount h \<le> hindex h then Some None
      else
        let start = (if hcount h \<le> capacity h then 0 else hcount h - capacity h)
        in if hindex h < start then Some None
           else do {
             let idx = hindex h mod capacity h;
             len \<leftarrow> arr_get (lengths h) idx;
             e \<leftarrow> arr_get (entries h) idx;
             s \<leftarrow> arr_prefix e len;
             Some (Some s) })"

definition history_previous :: "history \<Rightarrow> (u8 list option \<times> history) option" where
  "history_previous h =
     (if hcount h = 0 \<or> hindex h = 0 then Some (None, h)
      else do {
        let h1 = h\<lparr>hindex := hindex h - 1\<rparr>;
        r \<leftarrow> get_current h1;
        Some (r, h1) })"

definition history_next :: "history \<Rightarrow> (u8 list option \<times> history) option" where
  "history_next h =
     (if hcount h \<le> hindex h then Some (None, h)
      else do {
        let h1 = h\<lparr>hindex := hindex h + 1\<rparr>;
        r \<leftarrow> (if hcount h1 \<le> hindex h1 then Some None else get_current h1);
        Some (r, h1) })"

text \<open>
  The abstract history is the list of all commands ever accepted, with a position in it; of
  these the last 32 can be recalled.
\<close>

datatype history_op = Push "u8 list" | Previous | Next | ResetNavigation

fun history_step :: "history_op \<Rightarrow> history \<Rightarrow> (u8 list option \<times> history) option" where
  "history_step (Push c) h = do { h1 \<leftarrow> history_push c h; Some (None, h1) }"
| "history_step Previous h = history_previous h"
| "history_step Next h = history_next h"
| "history_step ResetNavigation h = Some (None, reset_navigation h)"

definition recall :: "u8 list list \<Rightarrow> nat \<Rightarrow> u8 list option" where
  "recall log i = (if i < length log \<and> length log \<le> i + 32 then Some (log ! i) else None)"

fun history_spec :: "history_op \<Rightarrow> u8 list list \<times> nat \<Rightarrow> u8 list option \<times> (u8 list list \<times> nat)" where
  "history_spec (Push c) (log, i) =
     (None, if c = [] then (log, i)
            else if log \<noteq> [] \<and> last log = c then (log, length log)
            else (log @ [take 255 c], length log + 1))"
| "history_spec Previous (log, i) = (if i = 0 then (None, (log, 0)) else (recall log (i - 1), (log, i - 1)))"
| "history_spec Next (log, i) =
     (if length log \<le> i then (None, (log, i)) else (recall log (i + 1), (log, i + 1)))"
| "history_spec ResetNavigation (log, i) = (None, (log, length log))"

definition slot_holds :: "history \<Rightarrow> nat \<Rightarrow> u8 list \<Rightarrow> bool" where
  "slot_holds h k c \<longleftrightarrow> lengths h ! (k mod 32) = length c \<and> length c \<le> 255 \<and> take (length c) (entries h ! (k mod 32)) = c"

definition history_rel :: "history \<Rightarrow> u8 list list \<times> nat \<Rightarrow> bool" where
  "history_rel h a \<longleftrightarrow>
     capacity h = 32 \<and> length (entries h) = 32 \<and> length (lengths h) = 32 \<and>
     (\<forall>e \<in> set (entries h). length e = 256) \<and>
     hcount h = length (fst a) \<and> hindex h = snd a \<and> snd a \<le> length (fst a) \<and>
     (\<forall>k. k < length (fst a) \<and> length (fst a) \<le> k + 32 \<longrightarrow> slot_holds h k (fst a ! k))"

lemma history_rel_new: "history_rel history_new ([], 0)"
  by (simp add: history_rel_def history_new_def buffer_consts)

lemma entry_length: "history_rel h a \<Longrightarrow> length (entries h ! (k mod 32)) = 256"
  by (simp add: history_rel_def)

lemma get_current_rel:
  assumes "history_rel h (log, i)"
  shows "get_current h = Some (recall log i)"
proof (cases "i < length log \<and> length log \<le> i + 32")
  case True
  with assms have "slot_holds h i (log ! i)" by (simp add: history_rel_def)
  with True assms entry_length [OF assms, of i] show ?thesis
    by (auto simp: get_current_def recall_def history_rel_def slot_holds_def array_simps Let_def)
next
  case False
  with assms show ?thesis by (auto simp: get_current_def recall_def history_rel_def Let_def)
qed

lemma history_rel_index: "history_rel h (log, i) \<Longrightarrow> j \<le> length log \<Longrightarrow> history_rel (h\<lparr>hindex := j\<rparr>) (log, j)"
  by (simp add: history_rel_def slot_holds_def)

lemma repeats_last_rel:
  assumes "history_rel h (log, i)"
  shows "repeats_last c h = Some (log \<noteq> [] \<and> last log = c)"
proof (cases "log = []")
  case False
  let ?k = "length log - 1"
  from False assms have "slot_holds h ?k (log ! ?k)" by (simp add: history_rel_def)
  moreover have "log ! ?k = last log" using False by (simp add: last_conv_nth)
  ultimately show ?thesis using False assms entry_length [OF assms, of ?k]
    by (auto simp: repeats_last_def history_rel_def slot_holds_def array_simps Let_def)
qed (use assms in \<open>simp add: repeats_last_def history_rel_def\<close>)

lemma mod_32_other: "k < n \<Longrightarrow> n < k + 32 \<Longrightarrow> k mod 32 \<noteq> n mod (32 :: nat)"
  using mod_eq_dvd_iff_nat [of k n 32] by (auto dest!: dvd_imp_le)

lemma push_rel:
  assumes "history_rel h (log, i)" and "c \<noteq> []" and "log \<noteq> [] \<Longrightarrow> last log \<noteq> c"
  shows "\<exists>h'. history_push c h = Some h' \<and> history_rel h' (log @ [take 255 c], length log + 1)"
proof -
  let ?n = "length log" and ?c = "take 255 c"
  let ?e = "?c @ drop (length ?c) (entries h ! (?n mod 32))"
  let ?h = "h\<lparr>entries := (entries h)[?n mod 32 := ?e], lengths := (lengths h)[?n mod 32 := length ?c],
    hcount := ?n + 1, hindex := ?n + 1\<rparr>"
  have h: "capacity h = 32" "length (entries h) = 32" "length (lengths h) = 32" "hcount h = ?n"
    using assms(1) by (simp_all add: history_rel_def)
  have nd: "repeats_last c h = Some False" using assms(3) by (auto simp: repeats_last_rel [OF assms(1)])
  have tk: "take (min (length c) 255) c = ?c" by (simp add: min_def)
  have p: "history_push c h = Some ?h"
    using assms(2) entry_length [OF assms(1), of ?n] h
    by (simp add: history_push_def nd tk array_simps Let_def reset_navigation_def buffer_consts)
  have slot: "slot_holds ?h k ((log @ [?c]) ! k)" if k: "k < Suc ?n" "Suc ?n \<le> k + 32" for k
  proof (cases "k = ?n")
    case True
    with h tk show ?thesis by (simp add: slot_holds_def)
  next
    case False
    with k have "k < ?n" "?n < k + 32" by simp_all
    moreover from this assms(1) have "slot_holds h k (log ! k)" by (simp add: history_rel_def)
    ultimately show ?thesis using mod_32_other [of k ?n] by (simp add: slot_holds_def nth_append)
  qed
  have es: "\<forall>e \<in> set (entries ?h). length e = 256"
    using assms(1) entry_length [OF assms(1), of ?n] by (auto simp: history_rel_def dest!: set_update_subset_insert [THEN subsetD])
  have all: "\<forall>k. k < length (log @ [?c]) \<and> length (log @ [?c]) \<le> k + 32 \<longrightarrow> slot_holds ?h k ((log @ [?c]) ! k)"
    by (intro allI impI slot) simp_all
  have "history_rel ?h (log @ [?c], ?n + 1)"
    unfolding history_rel_def fst_conv snd_conv
    by (intro conjI all es) (use h in simp_all)
  with p show ?thesis by blast
qed

interpretation commands: simulation history_rel history_step history_spec "\<lambda>_. True"
proof
  fix h a x assume rel: "history_rel h a"
  obtain log i where a: "a = (log, i)" by (cases a)
  note rel = rel [unfolded a]
  have i: "hcount h = length log" "hindex h = i" "i \<le> length log" using rel by (simp_all add: history_rel_def)
  note cur = get_current_rel [OF history_rel_index [OF rel]]
  show "\<exists>h'. history_step x h = Some (fst (history_spec x a), h') \<and> history_rel h' (snd (history_spec x a))"
  proof (cases x)
    case (Push c)
    consider "c = []" | "c \<noteq> []" "log \<noteq> []" "last log = c" | "c \<noteq> []" "log \<noteq> [] \<Longrightarrow> last log \<noteq> c" by blast
    then show ?thesis
    proof cases
      case 3
      from push_rel [OF rel 3] Push 3 a show ?thesis by auto
    qed (use rel a i Push history_rel_index [OF rel, of "length log"] in
        \<open>auto simp: history_push_def repeats_last_rel [OF rel] reset_navigation_def\<close>)
  next
    case Previous
    with rel a i cur [of "i - 1"] history_rel_index [OF rel, of "i - 1"] show ?thesis
      by (auto simp: history_previous_def Let_def)
  next
    case Next
    with rel a i cur [of "i + 1"] history_rel_index [OF rel, of "i + 1"] show ?thesis
      by (auto simp: history_next_def Let_def recall_def)
  next
    case ResetNavigation
    with a i history_rel_index [OF rel, of "length log"] show ?thesis by (simp add: reset_navigation_def)
  qed
qed

text \<open>
  C34. The command history: over any sequence of pushes and arrow keys, no array access panics
  and every arrow key returns what it returns on the plain list of all accepted commands of
  which the last 32 can be recalled. The ring of 32 slots is never read where it has been
  overwritten.
\<close>

theorem history_refines:
  "\<exists>h. run_ops history_step xs history_new = Some (fst (run_spec history_spec xs ([], 0)), h)
     \<and> history_rel h (snd (run_spec history_spec xs ([], 0)))"
  using commands.runs [OF history_rel_new, of xs] by simp

text \<open>
  With more than 32 commands the navigation position runs past the oldest one kept: the
  position keeps going down although nothing is recalled.
\<close>

lemma history_overshoots:
  assumes "32 < length log"
  shows "history_spec Previous (log, length log - 32) = (None, (log, length log - 33))"
  using assms by (simp add: recall_def) linarith

section \<open>The display\<close>

record display =
  lines :: "line list"
  line_count :: nat
  cursor_row :: nat
  cursor_col :: nat
  max_rows :: nat
  max_cols :: nat
  scroll_offset :: nat

definition display_new :: display where
  "display_new =
     \<lparr>lines = replicate MAX_VISIBLE_LINES line_empty, line_count = 0, cursor_row = 0, cursor_col = 0, max_rows = 25,
      max_cols = 80, scroll_offset = 0\<rparr>"

definition set_dimensions :: "nat \<Rightarrow> nat \<Rightarrow> display \<Rightarrow> display" where
  "set_dimensions rows cols d = d\<lparr>max_rows := min rows MAX_VISIBLE_LINES, max_cols := min cols MAX_LINE_LENGTH\<rparr>"

definition cursor_position :: "display \<Rightarrow> nat \<times> nat" where
  "cursor_position d = (cursor_row d, cursor_col d)"

definition display_clear :: "display \<Rightarrow> display" where
  "display_clear d =
     d\<lparr>lines := map line_clear (lines d), line_count := 0, cursor_row := 0, cursor_col := 0, scroll_offset := 0\<rparr>"

text \<open>\<open>while self.line_count <= self.cursor_row { self.line_count += 1 }\<close>\<close>

function grow_count :: "nat \<Rightarrow> nat \<Rightarrow> nat" where
  "grow_count row n = (if n \<le> row then grow_count row (n + 1) else n)"
  by pat_completeness auto
termination by (relation "measure (\<lambda>(row, n). Suc row - n)") auto

definition copy_cell :: "line \<Rightarrow> nat \<Rightarrow> cell list \<Rightarrow> cell list option" where
  "copy_cell src j cs = do { c \<leftarrow> arr_get (cells src) j; arr_set cs j c }"

definition copy_line :: "nat \<Rightarrow> nat \<Rightarrow> nat \<Rightarrow> line list \<Rightarrow> line list option" where
  "copy_line rows n i ls =
     (let src_idx = i + n
      in if src_idx < rows then do {
           src \<leftarrow> arr_get ls src_idx;
           dst \<leftarrow> arr_get ls i;
           cs \<leftarrow> for_each (copy_cell src) [0 ..< MAX_LINE_LENGTH] (cells dst);
           arr_set ls i (dst\<lparr>cells := cs, line_len := line_len src\<rparr>) }
         else Some ls)"

definition clear_line_at :: "nat \<Rightarrow> line list \<Rightarrow> line list option" where
  "clear_line_at i ls = do { l \<leftarrow> arr_get ls i; arr_set ls i (line_clear l) }"

definition scroll_up :: "nat \<Rightarrow> display \<Rightarrow> display option" where
  "scroll_up n d =
     (if max_rows d \<le> n then Some (display_clear d)
      else do {
        ls \<leftarrow> for_each (copy_line (max_rows d) n) [0 ..< max_rows d - n] (lines d);
        ls \<leftarrow> for_each clear_line_at [max_rows d - n ..< max_rows d] ls;
        Some (d\<lparr>lines := ls\<rparr>) })"

text \<open>
  With no rows at all, \<open>max_rows - 1\<close> wraps to the largest \<open>usize\<close> and the loop that grows
  \<open>line_count\<close> never ends.
\<close>

definition display_newline :: "display \<Rightarrow> display option" where
  "display_newline d =
     do {
       let d1 = d\<lparr>cursor_col := 0, cursor_row := cursor_row d + 1\<rparr>;
       d2 \<leftarrow> (if max_rows d1 \<le> cursor_row d1 then do {
                d2 \<leftarrow> scroll_up 1 d1;
                if max_rows d2 = 0 then None else Some (d2\<lparr>cursor_row := max_rows d2 - 1\<rparr>) }
              else Some d1);
       let d3 = d2\<lparr>line_count := grow_count (cursor_row d2) (line_count d2)\<rparr>;
       ls \<leftarrow> clear_line_at (cursor_row d3) (lines d3);
       Some (d3\<lparr>lines := ls\<rparr>) }"

definition write_char :: "u8 \<Rightarrow> color \<Rightarrow> display \<Rightarrow> display option" where
  "write_char c f d =
     (if c = 10 then display_newline d
      else if c = 13 then Some (d\<lparr>cursor_col := 0\<rparr>)
      else if c = 8 then Some (if 0 < cursor_col d then d\<lparr>cursor_col := cursor_col d - 1\<rparr> else d)
      else do {
        let d1 = d\<lparr>line_count := grow_count (cursor_row d) (line_count d)\<rparr>;
        l \<leftarrow> arr_get (lines d1) (cursor_row d1);
        l' \<leftarrow> line_set (cursor_col d1) (cell_new c f WINDOW_BG) l;
        ls \<leftarrow> arr_set (lines d1) (cursor_row d1) l';
        let d2 = d1\<lparr>lines := ls, cursor_col := cursor_col d1 + 1\<rparr>;
        if max_cols d2 \<le> cursor_col d2 then display_newline d2 else Some d2 })"

definition write_str :: "u8 list \<Rightarrow> color \<Rightarrow> display \<Rightarrow> display option" where
  "write_str s f = for_each (\<lambda>c. write_char c f) s"

definition display_writeln :: "u8 list \<Rightarrow> color \<Rightarrow> display \<Rightarrow> display option" where
  "display_writeln s f d = do { d1 \<leftarrow> write_str s f d; display_newline d1 }"

definition get_line :: "display \<Rightarrow> nat \<Rightarrow> line option option" where
  "get_line d row =
     (if row < max_rows d \<and> row < line_count d then map_option Some (arr_get (lines d) row) else Some None)"

definition set_cursor :: "nat \<Rightarrow> nat \<Rightarrow> display \<Rightarrow> display" where
  "set_cursor row col d = d\<lparr>cursor_row := min row (max_rows d - 1), cursor_col := min col (max_cols d - 1)\<rparr>"

lemma grow_count_eq [simp]: "grow_count row n = max n (Suc row)"
  by (induction row n rule: grow_count.induct) (simp add: max_def)

declare grow_count.simps [simp del]

subsection \<open>Lines\<close>

definition line_ok :: "line \<Rightarrow> bool" where
  "line_ok l \<longleftrightarrow> length (cells l) = 256 \<and> line_len l \<le> 256"

definition line_text :: "line \<Rightarrow> cell list" where
  "line_text l = take (line_len l) (cells l)"

lemma line_ok_empty [simp]: "line_ok line_empty" "line_text line_empty = []"
  by (simp_all add: line_ok_def line_empty_def line_text_def buffer_consts)

lemma line_clear_ok [simp]: "line_ok l \<Longrightarrow> line_ok (line_clear l)" "line_text (line_clear l) = []"
  by (simp_all add: line_ok_def line_clear_def line_text_def)

definition put_cell :: "nat \<Rightarrow> cell \<Rightarrow> cell list \<Rightarrow> cell list" where
  "put_cell i c row = take i row @ c # drop (Suc i) row"

lemma line_set_text:
  assumes "line_ok l" and "i \<le> length (line_text l)" and "i < 256"
  shows "\<exists>l'. line_set i c l = Some l' \<and> line_ok l' \<and> line_text l' = put_cell i c (line_text l)"
proof (cases "line_len l \<le> i")
  case True
  then have "i = line_len l" using assms by (simp add: line_text_def line_ok_def)
  with assms True show ?thesis
    by (simp add: line_set_def buffer_consts arr_set_def line_ok_def line_text_def put_cell_def take_Suc_conv_app_nth)
next
  case False
  with assms show ?thesis
    by (simp add: line_set_def buffer_consts arr_set_def line_ok_def line_text_def put_cell_def
        upd_conv_take_nth_drop min_def drop_take take_Cons')
qed

lemma copy_cells:
  assumes "length (cells src) = n" and "length cs = n"
  shows "for_each (copy_cell src) [0 ..< n] cs = Some (cells src)"
proof -
  have "\<exists>ds. for_each (copy_cell src) [0 ..< k] cs = Some ds \<and> ds = take k (cells src) @ drop k cs" if "k \<le> n" for k
    using that
  proof (induction k)
    case (Suc k)
    with assms show ?case
      by (auto simp: for_each_append copy_cell_def arr_get_def arr_set_def list_update_append
          take_Suc_conv_app_nth Cons_nth_drop_Suc [symmetric])
  qed simp
  from this [of n] assms show ?thesis by auto
qed

lemma copy_line_move:
  assumes "Suc i < rows" and "rows \<le> length ls" and "\<forall>l \<in> set ls. line_ok l"
  shows "copy_line rows 1 i ls = move_left (Suc i) ls"
proof -
  from assms have "line_ok (ls ! i)" "line_ok (ls ! Suc i)" by simp_all
  moreover have "ls[i := (ls ! i)\<lparr>cells := cells (ls ! Suc i), line_len := line_len (ls ! Suc i)\<rparr>] = ls[i := ls ! Suc i]"
    by (rule arg_cong [of _ _ "list_update ls i"]) simp
  ultimately show ?thesis using assms
    by (simp add: copy_line_def move_left_def array_simps copy_cells line_ok_def buffer_consts)
qed

lemma copy_lines_shift:
  assumes "rows \<le> length ls" and "\<forall>l \<in> set ls. line_ok l" and "k < rows"
  shows "for_each (copy_line rows 1) [0 ..< k] ls = for_each move_left [1 ..< Suc k] ls
    \<and> (\<forall>ls'. for_each move_left [1 ..< Suc k] ls = Some ls' \<longrightarrow> length ls' = length ls \<and> (\<forall>l \<in> set ls'. line_ok l))"
  using assms(3)
proof (induction k)
  case 0
  with assms show ?case by simp
next
  case (Suc k)
  then obtain ls1 where ls1: "for_each move_left [1 ..< Suc k] ls = Some ls1" "length ls1 = length ls"
    using shift_left [of 1 "Suc k" ls] assms(1) by auto
  with Suc have ok: "\<forall>l \<in> set ls1. line_ok l" by auto
  with Suc.prems assms(1) ls1 have "copy_line rows 1 k ls1 = move_left (Suc k) ls1" by (intro copy_line_move) auto
  moreover have "length ls2 = length ls \<and> (\<forall>l \<in> set ls2. line_ok l)" if "move_left (Suc k) ls1 = Some ls2" for ls2
    using that ls1 ok Suc.prems assms(1)
    by (auto simp: move_left_def array_simps dest!: set_update_subset_insert [THEN subsetD])
  ultimately show ?case using Suc ls1 by (simp add: for_each_snoc upt_Suc_append del: upt.simps)
qed

subsection \<open>The screen shows the last rows of the text\<close>

text \<open>
  The abstract screen is the text written so far, a list of rows that only grows, and the
  column of the cursor in its last row.
\<close>

datatype screen_op = WriteChar u8 color | Newline | ClearScreen

fun screen_step :: "screen_op \<Rightarrow> display \<Rightarrow> (unit \<times> display) option" where
  "screen_step (WriteChar c f) d = do { d1 \<leftarrow> write_char c f d; Some ((), d1) }"
| "screen_step Newline d = do { d1 \<leftarrow> display_newline d; Some ((), d1) }"
| "screen_step ClearScreen d = Some ((), display_clear d)"

type_synonym screen_text = "cell list list \<times> nat"

fun screen_spec :: "nat \<Rightarrow> screen_op \<Rightarrow> screen_text \<Rightarrow> unit \<times> screen_text" where
  "screen_spec w (WriteChar c f) (rows, col) =
     ((), if c = 10 then (rows @ [[]], 0)
          else if c = 13 then (rows, 0)
          else if c = 8 then (rows, col - 1)
          else let rows1 = butlast rows @ [put_cell col (cell_new c f WINDOW_BG) (last rows)]
               in if w \<le> col + 1 then (rows1 @ [[]], 0) else (rows1, col + 1))"
| "screen_spec w Newline (rows, col) = ((), (rows @ [[]], 0))"
| "screen_spec w ClearScreen (rows, col) = ((), ([[]], 0))"

definition shown :: "nat \<Rightarrow> cell list list \<Rightarrow> nat \<Rightarrow> cell list" where
  "shown h rows i =
     (if i < min (length rows) h then rows ! (length rows - min (length rows) h + i) else [])"

definition lines_show :: "nat \<Rightarrow> nat \<Rightarrow> display \<Rightarrow> cell list list \<Rightarrow> bool" where
  "lines_show h w d rows \<longleftrightarrow>
     max_rows d = h \<and> max_cols d = w \<and> length (lines d) = 50 \<and> (\<forall>l \<in> set (lines d). line_ok l) \<and>
     line_count d \<le> min (length rows) h \<and> (\<forall>i < 50. line_text (lines d ! i) = shown h rows i)"

definition screen_core :: "nat \<Rightarrow> nat \<Rightarrow> display \<Rightarrow> cell list list \<Rightarrow> bool" where
  "screen_core h w d rows \<longleftrightarrow>
     rows \<noteq> [] \<and> 0 < h \<and> h \<le> 50 \<and> 0 < w \<and> w \<le> 256 \<and> lines_show h w d rows \<and>
     cursor_row d = min (length rows) h - 1 \<and>
     (line_count d = cursor_row d + 1 \<or> line_count d = 0 \<and> rows = [[]])"

definition screen_rel :: "nat \<Rightarrow> nat \<Rightarrow> display \<Rightarrow> screen_text \<Rightarrow> bool" where
  "screen_rel h w d a \<longleftrightarrow>
     screen_core h w d (fst a) \<and> cursor_col d = snd a \<and> snd a < w \<and> snd a \<le> length (last (fst a))"

lemma lines_show_cursor [simp]:
  "lines_show h w (d\<lparr>cursor_row := r\<rparr>) rows = lines_show h w d rows"
  "lines_show h w (d\<lparr>cursor_col := c\<rparr>) rows = lines_show h w d rows"
  by (simp_all add: lines_show_def)

lemma scroll_lines:
  assumes "length ls = 50" and "\<forall>l \<in> set ls. line_ok l" and "1 < h" and "h \<le> 50"
  shows "\<exists>ls1. for_each (copy_line h 1) [0 ..< h - 1] ls = Some ls1 \<and> length ls1 = 50 \<and> (\<forall>l \<in> set ls1. line_ok l)
    \<and> (\<forall>j < 50. ls1 ! j = (if Suc j < h then ls ! Suc j else ls ! j))"
proof -
  obtain ls1 where "for_each move_left [1 ..< h] ls = Some ls1" "length ls1 = length ls"
    "\<forall>j < length ls. ls1 ! j = (if 1 \<le> Suc j \<and> Suc j < h then ls ! Suc j else ls ! j)"
    using shift_left [of 1 h ls] assms by auto
  with copy_lines_shift [of h ls "h - 1"] assms show ?thesis by auto
qed

lemma clear_line_at_Some:
  assumes "length ls = 50" and "\<forall>l \<in> set ls. line_ok l" and "i < 50"
  shows "\<exists>ls'. clear_line_at i ls = Some ls' \<and> length ls' = 50 \<and> (\<forall>l \<in> set ls'. line_ok l)
    \<and> (\<forall>j < 50. line_text (ls' ! j) = (if j = i then [] else line_text (ls ! j)))"
proof -
  from assms have "line_ok (ls ! i)" by simp
  then have "line_ok (line_clear (ls ! i))" by simp
  with assms show ?thesis
    by (auto simp: clear_line_at_def array_simps nth_list_update dest!: set_update_subset_insert [THEN subsetD])
qed

lemma display_clear_show: "lines_show h w d rows \<Longrightarrow> lines_show h w (display_clear d) [[]]"
  by (auto simp: lines_show_def display_clear_def shown_def)

lemma scroll_up_show:
  assumes "lines_show h w d rows" and "0 < h" and "h \<le> 50" and "h \<le> length rows" and "cursor_col d = 0"
  shows "\<exists>d'. scroll_up 1 d = Some d' \<and> lines_show h w d' (rows @ [[]]) \<and> cursor_col d' = 0"
proof (cases "h = 1")
  case True
  have "shown 1 (rows @ [[]]) = shown 1 [[]]" by (rule ext) (simp add: shown_def nth_append)
  with display_clear_show [OF assms(1)] True show ?thesis using assms(1)
    by (auto simp: scroll_up_def lines_show_def display_clear_def)
next
  case False
  with assms have h: "1 < h" "h \<le> 50" "max_rows d = h" and l: "length (lines d) = 50" "\<forall>l \<in> set (lines d). line_ok l"
    and lc: "line_count d \<le> h" "max_cols d = w" and t: "\<forall>i < 50. line_text (lines d ! i) = shown h rows i"
    by (auto simp: lines_show_def)
  obtain ls1 where ls1: "for_each (copy_line h 1) [0 ..< h - 1] (lines d) = Some ls1" "length ls1 = 50" "\<forall>l \<in> set ls1. line_ok l"
    "\<forall>j < 50. ls1 ! j = (if Suc j < h then lines d ! Suc j else lines d ! j)"
    using scroll_lines [OF l h(1,2)] by blast
  have i: "h - 1 < 50" using h by simp
  obtain ls2 where ls2: "clear_line_at (h - 1) ls1 = Some ls2" "length ls2 = 50" "\<forall>l \<in> set ls2. line_ok l"
    "\<forall>j < 50. line_text (ls2 ! j) = (if j = h - 1 then [] else line_text (ls1 ! j))"
    using clear_line_at_Some [OF ls1(2,3) i] by blast
  have r: "[h - 1 ..< h] = [h - 1]" using h upt_conv_Cons [of "h - 1" h] by simp
  have s: "scroll_up 1 d = Some (d\<lparr>lines := ls2\<rparr>)"
    using h ls1(1) ls2(1) by (simp add: scroll_up_def r [simplified])
  have "line_text (ls2 ! j) = shown h (rows @ [[]]) j" if "j < 50" for j
  proof -
    consider "Suc j < h" | "Suc j = h" | "h \<le> j" by linarith
    then show ?thesis
    proof cases
      case 1
      then have "j \<noteq> h - 1" by simp
      with 1 that ls2(4) ls1(4) t h have "line_text (ls2 ! j) = shown h rows (Suc j)" by simp
      moreover have "Suc (length rows + j - h) < length rows" using 1 assms(4) by linarith
      ultimately show ?thesis using 1 assms(4) by (simp add: shown_def nth_append Suc_diff_le)
    next
      case 2
      with that ls2(4) assms(4) show ?thesis by (auto simp: shown_def nth_append)
    next
      case 3
      then have "j \<noteq> h - 1" "\<not> Suc j < h" using h by simp_all
      with 3 that ls2(4) ls1(4) t h assms(4) show ?thesis by (simp add: shown_def)
    qed
  qed
  with ls2 lc h assms(4,5) have "lines_show h w (d\<lparr>lines := ls2\<rparr>) (rows @ [[]])" by (simp add: lines_show_def)
  with s assms(5) show ?thesis by simp
qed

lemma newline_core:
  assumes "screen_core h w d rows"
  shows "\<exists>d'. display_newline d = Some d' \<and> screen_rel h w d' (rows @ [[]], 0)"
proof -
  let ?d1 = "d\<lparr>cursor_col := 0, cursor_row := cursor_row d + 1\<rparr>"
  let ?k = "min (Suc (length rows)) h - 1"
  let ?scroll = "if max_rows ?d1 \<le> cursor_row ?d1 then do {
                d2 \<leftarrow> scroll_up 1 ?d1;
                if max_rows d2 = 0 then None else Some (d2\<lparr>cursor_row := max_rows d2 - 1\<rparr>) }
              else Some ?d1"
  have d: "rows \<noteq> []" "0 < h" "h \<le> 50" "0 < w" "w \<le> 256" "lines_show h w d rows" "cursor_row d = min (length rows) h - 1"
    using assms by (simp_all add: screen_core_def)
  then have mr: "max_rows d = h" by (simp add: lines_show_def)
  have "\<exists>d2. ?scroll = Some d2 \<and> lines_show h w d2 (rows @ [[]]) \<and> cursor_row d2 = ?k \<and> cursor_col d2 = 0"
  proof (cases "h \<le> length rows")
    case True
    obtain d2 where d2: "scroll_up 1 ?d1 = Some d2" "lines_show h w d2 (rows @ [[]])" "cursor_col d2 = 0"
      using scroll_up_show [of h w ?d1 rows] d True by auto
    then have "max_rows d2 = h" by (simp add: lines_show_def)
    with d2 True d mr show ?thesis by (simp add: min_def)
  next
    case False
    then have "lines_show h w d (rows @ [[]])" using d(6) by (auto simp: lines_show_def shown_def nth_append less_Suc_eq)
    with False d mr show ?thesis by (cases "length rows") (auto simp: min_def)
  qed
  then obtain d2 where d2: "?scroll = Some d2" and s2: "lines_show h w d2 (rows @ [[]])" "cursor_row d2 = ?k" "cursor_col d2 = 0"
    by blast
  have k: "?k < 50" "?k < h" using d by simp_all
  obtain ls where ls: "clear_line_at ?k (lines d2) = Some ls" "length ls = 50" "\<forall>l \<in> set ls. line_ok l"
    "\<forall>j < 50. line_text (ls ! j) = (if j = ?k then [] else line_text (lines d2 ! j))"
    using clear_line_at_Some [of "lines d2" ?k] s2(1) k by (auto simp: lines_show_def)
  let ?d' = "d2\<lparr>line_count := ?k + 1, lines := ls\<rparr>"
  have "line_count d2 \<le> ?k + 1" using s2(1) d by (auto simp: lines_show_def)
  then have c: "grow_count (cursor_row d2) (line_count d2) = ?k + 1" using s2(2) by simp
  have "display_newline d = do { ls \<leftarrow> clear_line_at ?k (lines d2); Some (d2\<lparr>line_count := ?k + 1, lines := ls\<rparr>) }"
    by (simp only: display_newline_def Let_def d2 Option.bind.bind_lunit c) (simp add: s2(2))
  then have "display_newline d = Some ?d'" using ls(1) by simp
  moreover have "shown h (rows @ [[]]) ?k = []" using d by (simp add: shown_def nth_append min_def)
  then have "lines_show h w ?d' (rows @ [[]])" using s2(1) ls d by (auto simp: lines_show_def)
  with d s2 have "screen_rel h w ?d' (rows @ [[]], 0)" by (auto simp: screen_rel_def screen_core_def)
  ultimately show ?thesis by blast
qed

lemma cursor_line:
  assumes "screen_core h w d rows"
  shows "cursor_row d < 50" "line_ok (lines d ! cursor_row d)" "line_text (lines d ! cursor_row d) = last rows"
proof -
  from assms have d: "rows \<noteq> []" "0 < h" "h \<le> 50" "lines_show h w d rows" "cursor_row d = min (length rows) h - 1"
    by (simp_all add: screen_core_def)
  then show "cursor_row d < 50" by simp
  with d show "line_ok (lines d ! cursor_row d)" by (simp add: lines_show_def)
  have "length rows - min (length rows) h + (min (length rows) h - 1) = length rows - 1" using d by (simp add: min_def)
  moreover have "min (length rows) h - 1 < min (length rows) h" using d by (simp add: min_def)
  ultimately have "shown h rows (cursor_row d) = last rows" using d(5) by (simp only: shown_def if_True last_conv_nth [OF d(1)])
  with d(4) \<open>cursor_row d < 50\<close> show "line_text (lines d ! cursor_row d) = last rows" by (simp add: lines_show_def)
qed

lemma shown_put:
  assumes "rows \<noteq> []" and "0 < h"
  shows "shown h (butlast rows @ [r]) i = (if i = min (length rows) h - 1 then r else shown h rows i)"
proof -
  obtain b x where rows: "rows = b @ [x]" using assms(1) by (cases rows rule: rev_cases) auto
  let ?m = "min (Suc (length b)) h"
  consider "i < ?m - 1" | "i = ?m - 1" | "?m \<le> i" by linarith
  then show ?thesis
  proof cases
    case 1
    then have "Suc (length b) - ?m + i < length b" "i < ?m" by linarith+
    with 1 rows show ?thesis by (simp add: shown_def nth_append)
  next
    case 2
    then have "Suc (length b) - ?m + i = length b" "i < ?m" using assms(2) by linarith+
    with 2 rows show ?thesis by (simp add: shown_def)
  next
    case 3
    then have "\<not> i < ?m" "i \<noteq> ?m - 1" using assms(2) by linarith+
    with rows show ?thesis by (auto simp: shown_def)
  qed
qed

lemma put_core:
  assumes "screen_core h w d rows" and "col < w" and "col \<le> length (last rows)" and "cursor_col d = col"
  shows "\<exists>l' ls. line_set col c (lines d ! cursor_row d) = Some l' \<and> ls = (lines d)[cursor_row d := l'] \<and>
    screen_core h w (d\<lparr>line_count := cursor_row d + 1, lines := ls, cursor_col := col + 1\<rparr>) (butlast rows @ [put_cell col c (last rows)])"
proof -
  note cl = cursor_line [OF assms(1)]
  have d: "rows \<noteq> []" "0 < h" "h \<le> 50" "w \<le> 256" "lines_show h w d rows" "cursor_row d = min (length rows) h - 1"
    using assms(1) by (simp_all add: screen_core_def)
  obtain l' where l': "line_set col c (lines d ! cursor_row d) = Some l'" "line_ok l'" "line_text l' = put_cell col c (last rows)"
    using line_set_text [OF cl(2), of col c] cl(3) assms(2,3) d(4) by auto
  let ?d = "d\<lparr>line_count := cursor_row d + 1, lines := (lines d)[cursor_row d := l'], cursor_col := col + 1\<rparr>"
  let ?rows = "butlast rows @ [put_cell col c (last rows)]"
  have len: "length ?rows = length rows" using d(1) by simp
  have "line_text (lines ?d ! i) = shown h ?rows i" if "i < 50" for i
    using that d cl(1) l'(3) by (cases "i = cursor_row d") (simp_all add: lines_show_def shown_put)
  moreover have "\<forall>l \<in> set (lines ?d). line_ok l"
    using d(5) l'(2) by (auto simp: lines_show_def dest!: set_update_subset_insert [THEN subsetD])
  ultimately have "lines_show h w ?d ?rows"
    using d len by (auto simp: lines_show_def min_def)
  then have "screen_core h w ?d ?rows" using assms(1) len by (simp add: screen_core_def)
  with l' show ?thesis by blast
qed

lemma write_char_rel:
  assumes "screen_rel h w d (rows, col)"
  shows "\<exists>d'. write_char c f d = Some d' \<and> screen_rel h w d' (snd (screen_spec w (WriteChar c f) (rows, col)))"
proof -
  from assms have core: "screen_core h w d rows" and col: "cursor_col d = col" "col < w" "col \<le> length (last rows)"
    by (simp_all add: screen_rel_def)
  have len: "length (lines d) = 50" "max_cols d = w" using core by (simp_all add: screen_core_def lines_show_def)
  have mv: "screen_rel h w (d\<lparr>cursor_col := k\<rparr>) (rows, k)" if "k \<le> col" for k
    using that core col by (auto simp: screen_rel_def screen_core_def)
  show ?thesis
  proof (cases "c = 10 \<or> c = 13 \<or> c = 8")
    case True
    then consider "c = 10" | "c = 13" | "c = 8" by blast
    then show ?thesis
    proof cases
      case 1
      with newline_core [OF core] show ?thesis by (simp add: write_char_def)
    next
      case 2
      with mv [of 0] show ?thesis by (simp add: write_char_def)
    next
      case 3
      with mv [of "col - 1"] assms col(1) show ?thesis by (cases "col = 0") (simp_all add: write_char_def)
    qed
  next
    case False
    let ?row = "put_cell col (cell_new c f WINDOW_BG) (last rows)"
    obtain l' ls where l': "line_set col (cell_new c f WINDOW_BG) (lines d ! cursor_row d) = Some l'"
        "ls = (lines d)[cursor_row d := l']"
      and core': "screen_core h w (d\<lparr>line_count := cursor_row d + 1, lines := ls, cursor_col := col + 1\<rparr>) (butlast rows @ [?row])"
      using put_core [OF core col(2,3,1)] by blast
    let ?d2 = "d\<lparr>line_count := cursor_row d + 1, lines := ls, cursor_col := col + 1\<rparr>"
    have "line_count d \<le> cursor_row d + 1" using core by (auto simp: screen_core_def)
    then have w: "write_char c f d = (if w \<le> col + 1 then display_newline ?d2 else Some ?d2)"
      using False l' len col cursor_line(1) [OF core] by (simp add: write_char_def Let_def array_simps max_def)
    show ?thesis
    proof (cases "w \<le> col + 1")
      case True
      with newline_core [OF core'] False w show ?thesis by (simp add: Let_def)
    next
      case nw: False
      have "length ?row \<ge> col + 1" using col by (simp add: put_cell_def)
      with core' nw have "screen_rel h w ?d2 (butlast rows @ [?row], col + 1)" by (simp add: screen_rel_def)
      with nw w False show ?thesis by (simp add: Let_def)
    qed
  qed
qed

interpretation screen: simulation "screen_rel h w" screen_step "screen_spec w" "\<lambda>_. True" for h w
proof
  fix d a x assume rel: "screen_rel h w d a"
  obtain rows col where a: "a = (rows, col)" by (cases a)
  with rel have core: "screen_core h w d rows" by (simp add: screen_rel_def)
  show "\<exists>d'. screen_step x d = Some (fst (screen_spec w x a), d') \<and> screen_rel h w d' (snd (screen_spec w x a))"
  proof (cases x)
    case (WriteChar c f)
    obtain d' where "write_char c f d = Some d'" "screen_rel h w d' (snd (screen_spec w (WriteChar c f) (rows, col)))"
      using write_char_rel [OF rel [unfolded a]] by blast
    with WriteChar a show ?thesis by (simp del: screen_spec.simps)
  next
    case Newline
    with newline_core [OF core] a show ?thesis by auto
  next
    case ClearScreen
    have "lines_show h w (display_clear d) [[]]" using core display_clear_show by (auto simp: screen_core_def)
    with core have "screen_rel h w (display_clear d) ([[]], 0)"
      by (simp add: screen_rel_def screen_core_def) (simp add: display_clear_def)
    with ClearScreen a show ?thesis by simp
  qed
qed

lemma screen_rel_new:
  assumes "0 < h" and "h \<le> 50" and "0 < w" and "w \<le> 256"
  shows "screen_rel h w (set_dimensions h w display_new) ([[]], 0)"
  using assms by (auto simp: screen_rel_def screen_core_def lines_show_def set_dimensions_def display_new_def
      buffer_consts shown_def)

text \<open>What the renderer reads: the rows \<open>get_line\<close> returns, an absent line being blank.\<close>

definition visible :: "display \<Rightarrow> cell list list" where
  "visible d = map (\<lambda>i. case get_line d i of Some (Some l) \<Rightarrow> line_text l | _ \<Rightarrow> []) [0 ..< max_rows d]"

definition last_rows :: "nat \<Rightarrow> cell list list \<Rightarrow> cell list list" where
  "last_rows h rows = take h (drop (length rows - h) rows @ replicate h [])"

lemma visible_rel:
  assumes "screen_rel h w d (rows, col)"
  shows "visible d = last_rows h rows"
proof (rule nth_equalityI)
  have d: "max_rows d = h" "h \<le> 50" "length (lines d) = 50" "\<forall>i < 50. line_text (lines d ! i) = shown h rows i"
    "line_count d = min (length rows) h \<or> line_count d = 0 \<and> rows = [[]]" "rows \<noteq> []" "0 < h"
    using assms by (auto simp: screen_rel_def screen_core_def lines_show_def)
  then show "length (visible d) = length (last_rows h rows)" by (simp add: visible_def last_rows_def)
  fix i assume "i < length (visible d)"
  then have i: "i < h" using d by (simp add: visible_def)
  have "visible d ! i = shown h rows i"
    using i d by (auto simp: visible_def get_line_def arr_get_def shown_def)
  also have "\<dots> = last_rows h rows ! i"
    using i by (auto simp: shown_def last_rows_def nth_append min_def)
  finally show "visible d ! i = last_rows h rows ! i" .
qed

lemma display_shows_run:
  assumes "0 < h" and "h \<le> 50" and "0 < w" and "w \<le> 256"
  shows "\<exists>rs d. run_ops screen_step ops (set_dimensions h w display_new) = Some (rs, d)
    \<and> visible d = last_rows h (fst (snd (run_spec (screen_spec w) ops ([[]], 0))))
    \<and> cursor_row d < h \<and> cursor_col d = snd (snd (run_spec (screen_spec w) ops ([[]], 0))) \<and> cursor_col d < w"
proof -
  obtain rows col where rc: "snd (run_spec (screen_spec w) ops ([[]], 0)) = (rows, col)"
    by (cases "snd (run_spec (screen_spec w) ops ([[]], 0))")
  obtain d where d: "run_ops screen_step ops (set_dimensions h w display_new) = Some (fst (run_spec (screen_spec w) ops ([[]], 0)), d)"
    "screen_rel h w d (rows, col)"
    using screen.runs [OF screen_rel_new [OF assms], of ops] rc by auto
  from d(2) assms(1) have "cursor_row d < h" "cursor_col d = col" "cursor_col d < w"
    by (auto simp: screen_rel_def screen_core_def)
  with d(1) visible_rel [OF d(2)] rc show ?thesis by simp
qed

text \<open>
  C35. The display: whatever is written to a terminal of \<open>h\<close> rows and \<open>w\<close> columns, the write
  never panics and always ends, and what can be seen is the last \<open>h\<close> rows of the text, wrapped
  at column \<open>w\<close>, as if the text had been kept in full; the cursor stays on the screen.
\<close>

theorem display_shows_last_rows:
  assumes "0 < h" and "h \<le> 50" and "0 < w" and "w \<le> 256"
  shows "\<exists>rs d. run_ops screen_step ops (set_dimensions h w display_new) = Some (rs, d)
    \<and> visible d = last_rows h (fst (snd (run_spec (screen_spec w) ops ([[]], 0))))
    \<and> cursor_row d < h \<and> cursor_col d = snd (snd (run_spec (screen_spec w) ops ([[]], 0))) \<and> cursor_col d < w"
  by (rule display_shows_run [OF assms])

theorem display_shows_last_rows_witness:
  "\<exists>rs d. run_ops screen_step [WriteChar 65 TEXT_NORMAL, WriteChar 66 TEXT_NORMAL, WriteChar 67 TEXT_NORMAL, Newline]
       (set_dimensions 2 2 display_new) = Some (rs, d)
    \<and> visible d = [[cell_new 67 TEXT_NORMAL WINDOW_BG], []]"
  using display_shows_last_rows [of 2 2 "[WriteChar 65 TEXT_NORMAL, WriteChar 66 TEXT_NORMAL, WriteChar 67 TEXT_NORMAL, Newline]"]
  by (auto simp: put_cell_def last_rows_def)

text \<open>A terminal of no rows hangs on its first newline.\<close>

lemma newline_no_rows: "display_newline (set_dimensions 0 w display_new) = None"
  by (simp add: display_newline_def set_dimensions_def display_new_def scroll_up_def display_clear_def buffer_consts)

lemma write_str_ops:
  "write_str s f d = map_option snd (run_ops screen_step (map (\<lambda>c. WriteChar c f) s) d)"
  by (induction s arbitrary: d) (auto simp: write_str_def split: Option.bind_splits)

end
