(* ===== verification/Terminal_Parser.thy ===== *)
theory Terminal_Parser
  imports Array_Ops Rust_Str
begin

text \<open>
  The terminal's command line, \<^verbatim>\<open>userspace/drivers/terminal/src/parser.rs\<close>: splitting a line into
  a command and its arguments, numbers, paths and glob patterns. The edit line holds ASCII
  only, so a byte offset is a character offset. The matcher with its one-level backtracking is
  shown to end and to decide the usual meaning of a pattern.
\<close>

definition MAX_ARGS :: nat where "MAX_ARGS = 16"

record parsed_command =
  command :: string
  args :: "string list"

definition is_ascii_whitespace :: "char \<Rightarrow> bool" where
  "is_ascii_whitespace c \<longleftrightarrow> of_char c \<in> {9, 10, 12, 13, 32 :: nat}"

definition to_ascii_lowercase :: "char \<Rightarrow> char" where
  "to_ascii_lowercase c = (if of_char c \<in> {65 .. 90 :: nat} then char_of (of_char c + 32 :: nat) else c)"

definition to_ascii_uppercase :: "char \<Rightarrow> char" where
  "to_ascii_uppercase c = (if of_char c \<in> {97 .. 122 :: nat} then char_of (of_char c - 32 :: nat) else c)"

definition eq_ignore_ascii_case :: "string \<Rightarrow> string \<Rightarrow> bool" where
  "eq_ignore_ascii_case a b \<longleftrightarrow> map to_ascii_lowercase a = map to_ascii_lowercase b"

section \<open>Queries on a parsed command\<close>

definition arg :: "parsed_command \<Rightarrow> nat \<Rightarrow> string option" where
  "arg cmd i = (if i < length (args cmd) then Some (args cmd ! i) else None)"

definition is_cmd :: "parsed_command \<Rightarrow> string \<Rightarrow> bool" where
  "is_cmd cmd name \<longleftrightarrow> eq_ignore_ascii_case (command cmd) name"

definition has_flag :: "parsed_command \<Rightarrow> string \<Rightarrow> string \<Rightarrow> bool" where
  "has_flag cmd short long \<longleftrightarrow> list_ex (\<lambda>a. a = short \<or> a = long) (args cmd)"

fun option_value :: "string \<Rightarrow> string \<Rightarrow> string list \<Rightarrow> string option" where
  "option_value short long (a # v # as) =
     (if a = short \<or> a = long then Some v else option_value short long (v # as))"
| "option_value short long _ = None"

definition get_option :: "parsed_command \<Rightarrow> string \<Rightarrow> string \<Rightarrow> string option" where
  "get_option cmd short long = option_value short long (args cmd)"

definition positional_args :: "parsed_command \<Rightarrow> string list" where
  "positional_args cmd = filter (\<lambda>a. \<not> starts_with a ''-'') (args cmd)"

section \<open>Splitting the line\<close>

record tokenizer =
  tk_command :: string
  tk_args :: "string list"
  in_quotes :: bool
  quote_char :: char
  token_start :: nat
  in_token :: bool

definition tokenizer_init :: tokenizer where
  "tokenizer_init =
     \<lparr>tk_command = [], tk_args = [], in_quotes = False, quote_char = CHR '' '', token_start = 0, in_token = False\<rparr>"

text \<open>\<open>&trimmed[token_start..i]\<close> is the command while there is none, and an argument after.\<close>

definition str_slice :: "string \<Rightarrow> nat \<Rightarrow> nat \<Rightarrow> string" where
  "str_slice s a b = take (b - a) (drop a s)"

definition add_token :: "string \<Rightarrow> tokenizer \<Rightarrow> tokenizer" where
  "add_token token k =
     (if tk_command k = [] then k\<lparr>tk_command := token\<rparr>
      else if length (tk_args k) < MAX_ARGS then k\<lparr>tk_args := tk_args k @ [token]\<rparr>
      else k)"

definition parse_step :: "string \<Rightarrow> nat \<Rightarrow> tokenizer \<Rightarrow> tokenizer" where
  "parse_step s i k =
     (let len = length s;
          c = (if i < len then s ! i else CHR '' '');
          is_end = (i = len)
      in if in_quotes k then
           (if c = quote_char k then
              let k1 = k\<lparr>in_quotes := False\<rparr>
              in if is_end \<or> (i + 1 < len \<and> is_ascii_whitespace (s ! (i + 1)))
                 then (add_token (str_slice s (token_start k) i) k1)\<lparr>in_token := False\<rparr>
                 else k1
            else k)
         else if c = CHR 0x22 \<or> c = CHR 0x27 then
           (if \<not> in_token k then k\<lparr>quote_char := c, in_quotes := True, token_start := i + 1, in_token := True\<rparr> else k)
         else if is_ascii_whitespace c \<or> is_end then
           (if in_token k then (add_token (str_slice s (token_start k) i) k)\<lparr>in_token := False\<rparr> else k)
         else
           (if \<not> in_token k then k\<lparr>token_start := i, in_token := True\<rparr> else k))"

definition parse_command :: "string \<Rightarrow> parsed_command option" where
  "parse_command input =
     (let s = trim input
      in if s = [] then None
         else
           let k = fold (parse_step s) [0 ..< length s + 1] tokenizer_init
           in if tk_command k = [] then None else Some \<lparr>command = tk_command k, args = tk_args k\<rparr>)"

definition split_path :: "string \<Rightarrow> string list" where
  "split_path path = filter (\<lambda>s. s \<noteq> []) (split_char (CHR ''/'') path)"

section \<open>Numbers\<close>

definition to_digit :: "nat \<Rightarrow> char \<Rightarrow> nat option" where
  "to_digit radix c =
     (let n = of_char c;
          d = (if n \<in> {48 .. 57} then Some (n - 48)
               else if n \<in> {97 .. 122} then Some (n - 87)
               else if n \<in> {65 .. 90} then Some (n - 55)
               else None)
      in case d of Some v \<Rightarrow> (if v < radix then Some v else None) | None \<Rightarrow> None)"

text \<open>The checked multiply and add of \<open>from_str_radix\<close>: an overflow is an error.\<close>

fun digits_value :: "nat \<Rightarrow> string \<Rightarrow> nat \<Rightarrow> nat option" where
  "digits_value radix [] acc = Some acc"
| "digits_value radix (c # cs) acc =
     (case to_digit radix c of
        None \<Rightarrow> None
      | Some d \<Rightarrow> (if acc * radix + d < 2 ^ 64 then digits_value radix cs (acc * radix + d) else None))"

definition from_str_radix :: "string \<Rightarrow> nat \<Rightarrow> u64 option" where
  "from_str_radix s radix =
     (let body = (case s of c # cs \<Rightarrow> (if c = CHR ''+'' then cs else s) | [] \<Rightarrow> [])
      in if body = [] then None else map_option of_nat (digits_value radix body 0))"

definition parse_number :: "string \<Rightarrow> u64 option" where
  "parse_number s =
     (if starts_with s ''0x'' \<or> starts_with s ''0X'' then from_str_radix (drop 2 s) 16
      else if starts_with s ''0b'' \<or> starts_with s ''0B'' then from_str_radix (drop 2 s) 2
      else if starts_with s ''0o'' \<or> starts_with s ''0O'' then from_str_radix (drop 2 s) 8
      else from_str_radix s 10)"

section \<open>Patterns\<close>

text \<open>
  \<open>star\<close> is \<open>(star_pi, star_ti)\<close>, absent while both are \<open>usize::MAX\<close>. The loop returns the
  pattern index it ends at, or \<open>None\<close> inside for \<open>return false\<close>; outside, \<open>None\<close> would be a loop
  that does not end.
\<close>

partial_function (option) glob_loop ::
    "string \<Rightarrow> string \<Rightarrow> nat \<Rightarrow> nat \<Rightarrow> (nat \<times> nat) option \<Rightarrow> nat option option" where
  [code]: "glob_loop p t pi ti star =
     (if ti < length t then
        (if pi < length p \<and> (p ! pi = CHR ''?'' \<or> p ! pi = t ! ti) then glob_loop p t (pi + 1) (ti + 1) star
         else if pi < length p \<and> p ! pi = CHR ''*'' then glob_loop p t (pi + 1) ti (Some (pi, ti))
         else (case star of
                 Some (star_pi, star_ti) \<Rightarrow> glob_loop p t (star_pi + 1) (star_ti + 1) (Some (star_pi, star_ti + 1))
               | None \<Rightarrow> Some None))
      else Some (Some pi))"

function skip_stars :: "string \<Rightarrow> nat \<Rightarrow> nat" where
  "skip_stars p pi = (if pi < length p \<and> p ! pi = CHR ''*'' then skip_stars p (pi + 1) else pi)"
  by pat_completeness auto
termination by (relation "measure (\<lambda>(p, pi). length p - pi)") auto

declare skip_stars.simps [simp del]

definition glob_match :: "string \<Rightarrow> string \<Rightarrow> bool option" where
  "glob_match pattern txt =
     map_option (\<lambda>r. case r of None \<Rightarrow> False | Some pi \<Rightarrow> skip_stars pattern pi = length pattern)
       (glob_loop pattern txt 0 0 None)"

text \<open>What a pattern means: \<open>?\<close> is any character, \<open>*\<close> is any text.\<close>

fun globs :: "string \<Rightarrow> string \<Rightarrow> bool" where
  "globs [] t \<longleftrightarrow> t = []"
| "globs (c # p) t \<longleftrightarrow>
     (if c = CHR ''*'' then globs p t \<or> (case t of [] \<Rightarrow> False | _ # t' \<Rightarrow> globs (c # p) t')
      else (case t of [] \<Rightarrow> False | d # t' \<Rightarrow> (c = CHR ''?'' \<or> c = d) \<and> globs p t'))"

subsection \<open>The matcher ends and is right\<close>

definition glob_at :: "string \<Rightarrow> string \<Rightarrow> nat \<Rightarrow> nat \<Rightarrow> bool" where
  "glob_at p t i j = globs (drop i p) (drop j t)"

lemma globs_star: "globs (CHR ''*'' # p) t \<longleftrightarrow> (\<exists>k \<le> length t. globs p (drop k t))"
proof (induction t)
  case (Cons d t)
  have "globs (CHR ''*'' # p) (d # t) \<longleftrightarrow> globs p (d # t) \<or> globs (CHR ''*'' # p) t" by simp
  also have "\<dots> \<longleftrightarrow> globs p (drop 0 (d # t)) \<or> (\<exists>k \<le> length t. globs p (drop (Suc k) (d # t)))" using Cons by simp
  also have "\<dots> \<longleftrightarrow> (\<exists>k \<le> length (d # t). globs p (drop k (d # t)))"
    by (metis (no_types, lifting) Suc_le_mono length_Cons not0_implies_Suc zero_le)
  finally show ?case .
qed simp

lemma glob_at_star:
  assumes "i < length p" and "p ! i = CHR ''*''" and "j \<le> length t"
  shows "glob_at p t i j \<longleftrightarrow> (\<exists>k. j \<le> k \<and> k \<le> length t \<and> glob_at p t (Suc i) k)"
proof -
  have "glob_at p t i j \<longleftrightarrow> globs (CHR ''*'' # drop (Suc i) p) (drop j t)"
    using assms by (simp add: glob_at_def Cons_nth_drop_Suc [symmetric] del: globs.simps)
  also have "\<dots> \<longleftrightarrow> (\<exists>k \<le> length t - j. glob_at p t (Suc i) (k + j))" by (simp add: globs_star glob_at_def del: globs.simps)
  also have "\<dots> \<longleftrightarrow> (\<exists>k. j \<le> k \<and> k \<le> length t \<and> glob_at p t (Suc i) k)"
    using assms(3) by (metis add.commute le_add2 le_add_diff_inverse2 le_diff_conv2 add_le_imp_le_diff)
  finally show ?thesis .
qed

lemma glob_at_char:
  assumes "i < length p" and "p ! i \<noteq> CHR ''*''" and "j < length t"
  shows "glob_at p t i j \<longleftrightarrow> (p ! i = CHR ''?'' \<or> p ! i = t ! j) \<and> glob_at p t (Suc i) (Suc j)"
  using assms by (simp add: glob_at_def Cons_nth_drop_Suc [symmetric])

lemma glob_at_char_end:
  assumes "i < length p" and "p ! i \<noteq> CHR ''*''"
  shows "\<not> glob_at p t i (length t)"
  using assms by (simp add: glob_at_def Cons_nth_drop_Suc [symmetric])

lemma glob_at_end: "glob_at p t (length p) j \<longleftrightarrow> length t \<le> j"
  by (simp add: glob_at_def)

lemma skip_stars_iff: "pi \<le> length p \<Longrightarrow> skip_stars p pi = length p \<longleftrightarrow> glob_at p t pi (length t)"
proof (induction p pi rule: skip_stars.induct)
  case (1 p pi)
  show ?case
  proof (cases "pi < length p \<and> p ! pi = CHR ''*''")
    case True
    with 1 show ?thesis by (subst skip_stars.simps) (auto simp: glob_at_star)
  next
    case False
    then have "skip_stars p pi = pi" by (subst skip_stars.simps) auto
    with False 1 show ?thesis by (cases "pi = length p") (auto simp: glob_at_end glob_at_char_end)
  qed
qed

text \<open>A stretch of the pattern without a star matches a stretch of text of the same length.\<close>

lemma glob_at_segment:
  assumes "\<forall>x. i \<le> x \<and> x < i + l \<longrightarrow> p ! x \<noteq> CHR ''*''" and "i + l \<le> length p" and "j \<le> length t" and "glob_at p t i j"
  shows "j + l \<le> length t \<and> glob_at p t (i + l) (j + l)"
  using assms
proof (induction l arbitrary: i j)
  case (Suc l)
  then have c: "i < length p" "p ! i \<noteq> CHR ''*''" by auto
  with Suc.prems(3,4) glob_at_char_end [of i p t] have "j < length t" by (cases "j = length t") auto
  with c glob_at_char [of i p j t] Suc.prems(4) have "glob_at p t (Suc i) (Suc j)" by simp
  with Suc.IH [of "Suc i" "Suc j"] Suc.prems \<open>j < length t\<close> show ?case by auto
qed simp

definition glob_inv :: "string \<Rightarrow> string \<Rightarrow> nat \<Rightarrow> nat \<Rightarrow> (nat \<times> nat) option \<Rightarrow> bool" where
  "glob_inv p t pi ti star \<longleftrightarrow>
     pi \<le> length p \<and> ti \<le> length t \<and>
     (case star of
        None \<Rightarrow> True
      | Some (sp, st) \<Rightarrow> sp < pi \<and> p ! sp = CHR ''*'' \<and> st \<le> ti \<and> ti - st = pi - Suc sp \<and>
                        (\<forall>x. Suc sp \<le> x \<and> x < pi \<longrightarrow> p ! x \<noteq> CHR ''*''))"

definition later_match :: "string \<Rightarrow> string \<Rightarrow> (nat \<times> nat) option \<Rightarrow> bool" where
  "later_match p t star =
     (case star of None \<Rightarrow> False | Some (sp, st) \<Rightarrow> \<exists>k. st < k \<and> k \<le> length t \<and> glob_at p t (Suc sp) k)"

lemma later_match_moves:
  assumes "glob_inv p t pi ti star" and "later_match p t star"
  shows "\<exists>j. ti < j \<and> j \<le> length t \<and> glob_at p t pi j"
proof -
  obtain sp st k where star: "star = Some (sp, st)" and k: "st < k" "k \<le> length t" "glob_at p t (Suc sp) k"
    using assms(2) by (auto simp: later_match_def split: option.splits)
  let ?l = "pi - Suc sp"
  from assms(1) star have inv: "pi \<le> length p" "sp < pi" "st \<le> ti" "ti - st = ?l"
    "\<forall>x. Suc sp \<le> x \<and> x < pi \<longrightarrow> p ! x \<noteq> CHR ''*''" by (simp_all add: glob_inv_def)
  have "k + ?l \<le> length t \<and> glob_at p t (Suc sp + ?l) (k + ?l)"
    by (rule glob_at_segment) (use inv k in auto)
  with inv k show ?thesis by (intro exI [of _ "k + ?l"]) auto
qed

definition glob_order :: "string \<Rightarrow> string \<Rightarrow> ((nat \<times> nat \<times> (nat \<times> nat) option) \<times> (nat \<times> nat \<times> (nat \<times> nat) option)) set" where
  "glob_order p t =
     measures [\<lambda>(pi, ti, star). length p - (case star of None \<Rightarrow> 0 | Some (sp, st) \<Rightarrow> Suc sp),
               \<lambda>(pi, ti, star). length t - (case star of None \<Rightarrow> 0 | Some (sp, st) \<Rightarrow> st),
               \<lambda>(pi, ti, star). length p - pi]"

definition glob_result :: "string \<Rightarrow> nat option \<Rightarrow> bool" where
  "glob_result p r = (case r of None \<Rightarrow> False | Some pi \<Rightarrow> skip_stars p pi = length p)"

lemma wf_glob_order: "wf (glob_order p t)"
  by (simp add: glob_order_def)

text \<open>One step of the loop keeps the invariant, comes closer to the end and does not change the answer.\<close>

lemma glob_step_match:
  assumes "CHR ''*'' \<notin> set t" and "glob_inv p t pi ti star" and "ti < length t" and "pi < length p"
    and "p ! pi = CHR ''?'' \<or> p ! pi = t ! ti"
  shows "glob_inv p t (pi + 1) (ti + 1) star" "glob_at p t pi ti \<longleftrightarrow> glob_at p t (pi + 1) (ti + 1)"
    "((pi + 1, ti + 1, star), (pi, ti, star)) \<in> glob_order p t"
proof -
  have "t ! ti \<noteq> CHR ''*''" using assms(1,3) by (metis nth_mem)
  with assms(5) have n: "p ! pi \<noteq> CHR ''*''" by auto
  show "glob_inv p t (pi + 1) (ti + 1) star"
    using assms n by (auto simp: glob_inv_def less_Suc_eq Suc_diff_le split: option.splits)
  show "glob_at p t pi ti \<longleftrightarrow> glob_at p t (pi + 1) (ti + 1)" using glob_at_char [OF assms(4) n assms(3)] assms(5) by simp
  show "((pi + 1, ti + 1, star), (pi, ti, star)) \<in> glob_order p t" using assms(4) by (auto simp: glob_order_def)
qed

lemma glob_step_star:
  assumes "glob_inv p t pi ti star" and "ti < length t" and "pi < length p" and "p ! pi = CHR ''*''"
  shows "glob_inv p t (pi + 1) ti (Some (pi, ti))"
    "glob_at p t pi ti \<or> later_match p t star \<longleftrightarrow> glob_at p t (pi + 1) ti \<or> later_match p t (Some (pi, ti))"
    "((pi + 1, ti, Some (pi, ti)), (pi, ti, star)) \<in> glob_order p t"
proof -
  note st = glob_at_star [OF assms(3,4)]
  show "glob_inv p t (pi + 1) ti (Some (pi, ti))" using assms by (auto simp: glob_inv_def)
  have "glob_at p t pi ti" if l: "later_match p t star"
  proof -
    obtain j where j: "ti < j" "j \<le> length t" "glob_at p t pi j" using later_match_moves [OF assms(1) l] by blast
    then obtain k where "j \<le> k" "k \<le> length t" "glob_at p t (Suc pi) k" using st [of j t] by blast
    with j(1) st [of ti t] assms(2) show ?thesis by auto
  qed
  moreover have "glob_at p t pi ti \<longleftrightarrow> glob_at p t (pi + 1) ti \<or> later_match p t (Some (pi, ti))"
    using st [of ti t] assms(2) by (auto simp: later_match_def le_less)
  ultimately show "glob_at p t pi ti \<or> later_match p t star \<longleftrightarrow> glob_at p t (pi + 1) ti \<or> later_match p t (Some (pi, ti))"
    by blast
  show "((pi + 1, ti, Some (pi, ti)), (pi, ti, star)) \<in> glob_order p t"
    using assms by (auto simp: glob_order_def glob_inv_def split: option.splits)
qed

lemma glob_step_back:
  assumes "glob_inv p t pi ti (Some (sp, st))" and "ti < length t"
    and "\<not> (pi < length p \<and> (p ! pi = CHR ''?'' \<or> p ! pi = t ! ti))" and "\<not> (pi < length p \<and> p ! pi = CHR ''*'')"
  shows "glob_inv p t (sp + 1) (st + 1) (Some (sp, st + 1))"
    "glob_at p t pi ti \<or> later_match p t (Some (sp, st))
      \<longleftrightarrow> glob_at p t (sp + 1) (st + 1) \<or> later_match p t (Some (sp, st + 1))"
    "((sp + 1, st + 1, Some (sp, st + 1)), (pi, ti, Some (sp, st))) \<in> glob_order p t"
proof -
  have inv: "sp < pi" "pi \<le> length p" "st \<le> ti" "p ! sp = CHR ''*''" using assms(1) by (simp_all add: glob_inv_def)
  show "glob_inv p t (sp + 1) (st + 1) (Some (sp, st + 1))" using inv assms(2) by (auto simp: glob_inv_def)
  have "\<not> glob_at p t pi ti"
  proof (cases "pi < length p")
    case True
    with assms(3,4) glob_at_char [of pi p ti t] assms(2) show ?thesis by auto
  next
    case False
    with inv have "pi = length p" by simp
    with assms(2) show ?thesis by (simp add: glob_at_end)
  qed
  moreover have "later_match p t (Some (sp, st)) \<longleftrightarrow> glob_at p t (sp + 1) (st + 1) \<or> later_match p t (Some (sp, st + 1))"
  proof -
    have "st < k \<and> k \<le> length t \<longleftrightarrow> k = st + 1 \<or> st + 1 < k \<and> k \<le> length t" for k using inv assms(2) by auto
    then have "(\<exists>k. (st < k \<and> k \<le> length t) \<and> glob_at p t (Suc sp) k)
        \<longleftrightarrow> (\<exists>k. (k = st + 1 \<or> st + 1 < k \<and> k \<le> length t) \<and> glob_at p t (Suc sp) k)" by simp
    then show ?thesis by (auto simp: later_match_def)
  qed
  ultimately show "glob_at p t pi ti \<or> later_match p t (Some (sp, st))
      \<longleftrightarrow> glob_at p t (sp + 1) (st + 1) \<or> later_match p t (Some (sp, st + 1))"
    by blast
  show "((sp + 1, st + 1, Some (sp, st + 1)), (pi, ti, Some (sp, st))) \<in> glob_order p t"
    using inv assms(2) by (auto simp: glob_order_def)
qed

lemma glob_loop_decides:
  assumes "CHR ''*'' \<notin> set t" and "glob_inv p t pi ti star"
  shows "\<exists>r. glob_loop p t pi ti star = Some r \<and> (glob_result p r \<longleftrightarrow> glob_at p t pi ti \<or> later_match p t star)"
  using assms(2)
proof (induction "(pi, ti, star)" arbitrary: pi ti star rule: wf_induct_rule [OF wf_glob_order [of p t]])
  case (1 pi ti star)
  note unfold = glob_loop.simps [of p t pi ti star]
  consider "\<not> ti < length t" | "ti < length t" "pi < length p \<and> (p ! pi = CHR ''?'' \<or> p ! pi = t ! ti)"
    | "ti < length t" "\<not> (pi < length p \<and> (p ! pi = CHR ''?'' \<or> p ! pi = t ! ti))" "pi < length p \<and> p ! pi = CHR ''*''"
    | "ti < length t" "\<not> (pi < length p \<and> (p ! pi = CHR ''?'' \<or> p ! pi = t ! ti))" "\<not> (pi < length p \<and> p ! pi = CHR ''*'')"
    by blast
  then show ?case
  proof cases
    case 1
    with \<open>glob_inv p t pi ti star\<close> have "ti = length t" "pi \<le> length p" by (simp_all add: glob_inv_def)
    moreover from this later_match_moves [OF \<open>glob_inv p t pi ti star\<close>] have "\<not> later_match p t star" by auto
    moreover have "glob_loop p t pi ti star = Some (Some pi)" using 1 by (simp add: unfold)
    ultimately show ?thesis using skip_stars_iff [of pi p t] by (simp add: glob_result_def)
  next
    case 2
    note st = glob_step_match [OF assms(1) 1(2) 2(1) conjunct1 [OF 2(2)] conjunct2 [OF 2(2)]]
    from 1(1) [OF st(3,1)] 2 st(2) show ?thesis by (simp add: unfold)
  next
    case 3
    note st = glob_step_star [OF 1(2) 3(1) conjunct1 [OF 3(3)] conjunct2 [OF 3(3)]]
    have e: "glob_loop p t pi ti star = glob_loop p t (pi + 1) ti (Some (pi, ti))" using 3 by (simp add: unfold)
    from 1(1) [OF st(3,1)] show ?thesis unfolding e st(2) .
  next
    case 4
    show ?thesis
    proof (cases star)
      case None
      from 4 glob_at_char [of pi p ti t] glob_at_end [of p t ti] 1(2) have "\<not> glob_at p t pi ti"
        by (cases "pi < length p") (auto simp: glob_inv_def)
      moreover have "glob_loop p t pi ti star = Some None" using 4 None by (subst unfold) auto
      ultimately show ?thesis using None by (simp add: glob_result_def later_match_def)
    next
      case (Some s)
      obtain sp st where s: "s = (sp, st)" by (cases s)
      note b = glob_step_back [OF 1(2) [unfolded Some s] 4]
      have e: "glob_loop p t pi ti (Some (sp, st)) = glob_loop p t (sp + 1) (st + 1) (Some (sp, st + 1))"
        using 4 Some s by (subst glob_loop.simps) auto
      from 1(1) [unfolded Some s, OF b(3,1)] show ?thesis unfolding Some s e b(2) .
    qed
  qed
qed

text \<open>
  C36. The glob matcher always returns, and it accepts exactly the texts the pattern denotes, a
  \<open>?\<close> standing for any character and a \<open>*\<close> for any text, for every pattern and every text
  without a literal star.
\<close>

theorem glob_match_correct:
  "CHR ''*'' \<notin> set t \<Longrightarrow> glob_match p t = Some (globs p t)"
  using glob_loop_decides [of t p 0 0 None]
  by (auto simp: glob_match_def glob_result_def glob_inv_def later_match_def glob_at_def)

theorem glob_match_correct_witness:
  "CHR ''*'' \<notin> set ''file.txt'' \<and> glob_match ''*.t?t'' ''file.txt'' = Some True"
  using glob_match_correct [of "''file.txt''" "''*.t?t''"] by simp

text \<open>
  A star in the text is compared before the star of the pattern is recognised, so the pattern's
  star is taken literally and the match is missed.
\<close>

lemma glob_match_star_in_text: "glob_match ''*a'' ''*ba'' = Some False" "globs ''*a'' ''*ba''"
  by (simp_all add: glob_match_def glob_loop.simps skip_stars.simps)

subsection \<open>The line is split into its words\<close>

definition plain_word :: "string \<Rightarrow> bool" where
  "plain_word w \<longleftrightarrow> w \<noteq> [] \<and> (\<forall>c \<in> set w. \<not> is_ws c \<and> c \<noteq> CHR 0x22 \<and> c \<noteq> CHR 0x27)"

definition blank :: "string \<Rightarrow> bool" where
  "blank b \<longleftrightarrow> b \<noteq> [] \<and> (\<forall>c \<in> set b. is_ascii_whitespace c)"

text \<open>A word followed by more words, each after a blank.\<close>

definition spaced :: "(string \<times> string) list \<Rightarrow> string" where
  "spaced rest = concat (map (\<lambda>(b, w). b @ w) rest)"

lemma ascii_ws: "is_ascii_whitespace c \<Longrightarrow> is_ws c"
  by (auto simp: is_ascii_whitespace_def is_ws_def)

lemma ascii_ws_not_quote: "is_ascii_whitespace c \<Longrightarrow> c \<noteq> CHR 0x22 \<and> c \<noteq> CHR 0x27"
  by (auto simp: is_ascii_whitespace_def)

lemma space_ws: "is_ascii_whitespace (CHR '' '')"
  by (simp add: is_ascii_whitespace_def)

lemma trim_blanks:
  assumes "\<forall>c \<in> set a. is_ws c" and "\<forall>c \<in> set b. is_ws c" and "s \<noteq> []" and "trimmed s"
  shows "trim (a @ s @ b) = s"
proof -
  have h: "dropWhile is_ws (a @ s @ b) = s @ b" using assms by (simp add: dropWhile_append2 dropWhile_hd trimmed_def)
  have "dropWhile is_ws (rev b @ rev s) = dropWhile is_ws (rev s)" by (rule dropWhile_append2) (use assms(2) in simp)
  also have "\<dots> = rev s" by (rule dropWhile_hd) (use assms(3,4) in \<open>simp add: trimmed_def hd_rev\<close>)
  finally have "dropWhile is_ws (rev b @ rev s) = rev s" .
  with h show ?thesis by (simp add: trim_def)
qed

lemma trimmed_words:
  assumes "plain_word w" and "\<forall>(b, v) \<in> set rest. blank b \<and> plain_word v"
  shows "w @ spaced rest \<noteq> []" "trimmed (w @ spaced rest)"
proof -
  show ne: "w @ spaced rest \<noteq> []" using assms(1) by (simp add: plain_word_def)
  have "hd (w @ spaced rest) \<in> set w" using assms(1) by (simp add: plain_word_def)
  moreover have "\<exists>v. plain_word v \<and> last (w @ spaced rest) \<in> set v"
  proof (cases rest rule: rev_cases)
    case Nil
    with assms(1) show ?thesis by (intro exI [of _ w]) (simp add: spaced_def plain_word_def)
  next
    case (snoc r bv)
    obtain b v where "bv = (b, v)" by (cases bv)
    moreover from this snoc assms(2) have "plain_word v" by simp
    ultimately show ?thesis using snoc by (intro exI [of _ v]) (simp add: spaced_def plain_word_def)
  qed
  ultimately show "trimmed (w @ spaced rest)" using assms(1) by (auto simp: trimmed_def plain_word_def)
qed

lemma step_word_start:
  assumes "i < length s" and "\<not> is_ws (s ! i)" and "s ! i \<noteq> CHR 0x22" and "s ! i \<noteq> CHR 0x27" and "\<not> in_quotes k"
  shows "parse_step s i k = (if in_token k then k else k\<lparr>token_start := i, in_token := True\<rparr>)"
  using assms ascii_ws [of "s ! i"] by (auto simp: parse_step_def Let_def)

lemma scan_word:
  assumes "s = pre @ w @ post" and "plain_word w" and "\<not> in_quotes k" and "\<not> in_token k"
  shows "fold (parse_step s) [length pre ..< length pre + length w] k = k\<lparr>token_start := length pre, in_token := True\<rparr>"
proof -
  let ?k = "k\<lparr>token_start := length pre, in_token := True\<rparr>"
  have st: "parse_step s (length pre + j) k' = (if in_token k' then k' else k'\<lparr>token_start := length pre + j, in_token := True\<rparr>)"
    if "j < length w" "\<not> in_quotes k'" for j k'
  proof (rule step_word_start)
    have "w ! j \<in> set w" using that by simp
    with assms(1,2) that show "length pre + j < length s" "\<not> is_ws (s ! (length pre + j))"
      "s ! (length pre + j) \<noteq> CHR 0x22" "s ! (length pre + j) \<noteq> CHR 0x27" "\<not> in_quotes k'"
      by (auto simp: plain_word_def nth_append)
  qed
  have "fold (parse_step s) [length pre ..< length pre + Suc n] k = ?k" if "n < length w" for n
    using that
  proof (induction n)
    case 0
    with st [of 0 k] assms show ?case by simp
  next
    case (Suc n)
    with st [of "Suc n" ?k] assms(3) show ?case by simp
  qed
  moreover obtain n where "length w = Suc n" using assms(2) by (cases w) (auto simp: plain_word_def)
  ultimately show ?thesis by simp
qed

lemma step_blank:
  assumes "c = (if i < length s then s ! i else CHR '' '')" and "is_ascii_whitespace c" and "\<not> in_quotes k"
  shows "parse_step s i k =
    (if in_token k then (add_token (str_slice s (token_start k) i) k)\<lparr>in_token := False\<rparr> else k)"
  unfolding parse_step_def Let_def assms(1) [symmetric] using assms(2,3) ascii_ws_not_quote [OF assms(2)] by simp

lemma scan_word_end:
  assumes "s = pre @ w @ post" and "post = [] \<or> is_ascii_whitespace (hd post)" and "\<not> in_quotes k" and "in_token k"
    and "token_start k = length pre"
  shows "parse_step s (length pre + length w) k = (add_token w k)\<lparr>in_token := False\<rparr>"
proof -
  let ?i = "length pre + length w"
  have "is_ascii_whitespace (if ?i < length s then s ! ?i else CHR '' '')"
    using assms(1,2) space_ws by (cases post) (auto simp: nth_append)
  moreover have "str_slice s (length pre) ?i = w" using assms(1) by (simp add: str_slice_def)
  ultimately show ?thesis using assms(3-5) step_blank [OF refl, of ?i s k] by simp
qed

lemma scan_blank:
  assumes "s = pre @ b @ post" and "\<forall>c \<in> set b. is_ascii_whitespace c" and "\<not> in_quotes k" and "\<not> in_token k"
  shows "fold (parse_step s) [length pre ..< length pre + length b] k = k"
proof -
  have "parse_step s i k = k" if "i \<in> set [length pre ..< length pre + length b]" for i
  proof -
    from that have i: "length pre \<le> i" "i - length pre < length b" "i < length s" using assms(1) by auto
    then have "s ! i = b ! (i - length pre)" using assms(1) by (simp add: nth_append)
    with i(2) assms(2) have "is_ascii_whitespace (s ! i)" by simp
    with step_blank [OF refl, of i s k] assms(3,4) i(3) show ?thesis by simp
  qed
  then have "fold (parse_step s) is k = k" if "set is \<subseteq> set [length pre ..< length pre + length b]" for "is"
    using that by (induction "is") auto
  then show ?thesis by blast
qed

definition words_of :: "tokenizer \<Rightarrow> string \<times> string list" where
  "words_of k = (tk_command k, tk_args k)"

lemma add_token_words: "words_of k = words_of k' \<Longrightarrow> words_of (add_token w k) = words_of (add_token w k')"
  by (simp add: add_token_def words_of_def)

lemma fold_add_token_words: "words_of k = words_of k' \<Longrightarrow> words_of (fold add_token ws k) = words_of (fold add_token ws k')"
proof (induction ws arbitrary: k k')
  case (Cons w ws)
  from Cons.IH [OF add_token_words [OF Cons.prems]] show ?case by simp
qed simp

lemma add_token_flags [simp]: "in_quotes (add_token w k) = in_quotes k"
  by (simp add: add_token_def)

lemma upt_split: "a \<le> b \<Longrightarrow> b \<le> c \<Longrightarrow> [a ..< c] = [a ..< b] @ [b ..< c]"
  using upt_add_eq_append [of a b "c - b"] by simp

lemma scan_words:
  assumes "s = pre @ w @ spaced rest" and "plain_word w" and "\<forall>(b, v) \<in> set rest. blank b \<and> plain_word v"
    and "\<not> in_quotes k" and "\<not> in_token k"
  shows "words_of (fold (parse_step s) [length pre ..< length s + 1] k) = words_of (fold add_token (w # map snd rest) k)"
  using assms
proof (induction rest arbitrary: pre w k)
  case Nil
  then have s: "length s = length pre + length w" by (simp add: spaced_def)
  have "fold (parse_step s) [length pre ..< length s + 1] k
      = parse_step s (length pre + length w) (fold (parse_step s) [length pre ..< length pre + length w] k)"
    by (simp add: s)
  also have "\<dots> = (add_token w (k\<lparr>token_start := length pre, in_token := True\<rparr>))\<lparr>in_token := False\<rparr>"
    by (subst scan_word [OF Nil(1,2,4,5)], rule scan_word_end [of _ _ _ "[]"]) (use Nil in \<open>simp_all add: spaced_def\<close>)
  finally show ?case by (simp add: words_of_def add_token_def)
next
  case (Cons bv rest)
  obtain b v where bv: "bv = (b, v)" by (cases bv)
  with Cons.prems have b: "blank b" "plain_word v" and s: "s = pre @ w @ b @ v @ spaced rest" by (auto simp: spaced_def)
  then obtain c b' where cb: "b = c # b'" "is_ascii_whitespace c" "\<forall>c \<in> set b'. is_ascii_whitespace c"
    by (cases b) (auto simp: blank_def)
  let ?m = "length pre + length w" and ?pre = "pre @ w @ b"
  let ?k1 = "(add_token w (k\<lparr>token_start := length pre, in_token := True\<rparr>))\<lparr>in_token := False\<rparr>"
  have split: "[length pre ..< length s + 1] = [length pre ..< ?m] @ [?m] @ [Suc ?m ..< Suc ?m + length b'] @ [length ?pre ..< length s + 1]"
  proof -
    have "[length pre ..< length s + 1] = [length pre ..< ?m] @ [?m ..< length s + 1]"
      by (rule upt_split) (use s in simp_all)
    moreover have "[?m ..< length s + 1] = ?m # [Suc ?m ..< length s + 1]"
      by (rule upt_conv_Cons) (use s in simp)
    moreover have "[Suc ?m ..< length s + 1] = [Suc ?m ..< Suc ?m + length b'] @ [Suc ?m + length b' ..< length s + 1]"
      by (rule upt_split) (use s cb(1) in simp_all)
    moreover have "length ?pre = Suc ?m + length b'" using cb(1) by simp
    ultimately show ?thesis by (simp only: append.simps)
  qed
  have 1: "fold (parse_step s) [length pre ..< ?m] k = k\<lparr>token_start := length pre, in_token := True\<rparr>"
    by (rule scan_word) (use s Cons.prems in auto)
  have 2: "parse_step s ?m (k\<lparr>token_start := length pre, in_token := True\<rparr>) = ?k1"
    by (rule scan_word_end [of _ _ _ "b @ v @ spaced rest"]) (use s cb Cons.prems in auto)
  have 3: "fold (parse_step s) [Suc ?m ..< Suc ?m + length b'] ?k1 = ?k1"
    using scan_blank [of s "pre @ w @ [c]" b' "v @ spaced rest" ?k1] s cb Cons.prems(4) by simp
  have 4: "words_of (fold (parse_step s) [length ?pre ..< length s + 1] ?k1) = words_of (fold add_token (v # map snd rest) ?k1)"
    by (rule Cons.IH) (use s b Cons.prems in auto)
  have "words_of ?k1 = words_of (add_token w k)" by (simp add: words_of_def add_token_def)
  then have 5: "words_of (fold add_token (v # map snd rest) ?k1) = words_of (fold add_token (v # map snd rest) (add_token w k))"
    by (rule fold_add_token_words)
  have "fold (parse_step s) [length pre ..< length s + 1] k = fold (parse_step s) [length ?pre ..< length s + 1] ?k1"
    by (simp only: split fold_append comp_apply fold.simps id_apply 1 2 3)
  with 4 5 bv show ?case by (simp del: upt.simps)
qed

lemma fold_add_args:
  "tk_command k \<noteq> [] \<Longrightarrow> length (tk_args k) \<le> 16 \<Longrightarrow>
   words_of (fold add_token ws k) = (tk_command k, take 16 (tk_args k @ ws))"
proof (induction ws arbitrary: k)
  case (Cons w ws)
  then show ?case by (cases "length (tk_args k) < 16") (auto simp: add_token_def MAX_ARGS_def words_of_def take_Cons')
qed (simp add: words_of_def)

lemma parse_command_words:
  assumes "plain_word w" and "\<forall>(b, v) \<in> set rest. blank b \<and> plain_word v"
    and "\<forall>c \<in> set lead. is_ws c" and "\<forall>c \<in> set trail. is_ws c"
  shows "parse_command (lead @ (w @ spaced rest) @ trail) = Some \<lparr>command = w, args = take 16 (map snd rest)\<rparr>"
proof -
  let ?s = "w @ spaced rest"
  note t = trimmed_words [OF assms(1,2)]
  have trim: "trim (lead @ ?s @ trail) = ?s" by (rule trim_blanks [OF assms(3,4) t])
  let ?k = "fold (parse_step ?s) [0 ..< length ?s + 1] tokenizer_init"
  have w: "w \<noteq> []" using assms(1) by (simp add: plain_word_def)
  have "words_of ?k = words_of (fold add_token (w # map snd rest) tokenizer_init)"
    using scan_words [of ?s "[]" w rest tokenizer_init] assms(1,2) by (simp add: tokenizer_init_def)
  also have "\<dots> = (w, take 16 (map snd rest))"
    using fold_add_args [of "add_token w tokenizer_init" "map snd rest"] w by (simp add: add_token_def tokenizer_init_def)
  finally have "tk_command ?k = w" "tk_args ?k = take 16 (map snd rest)" by (simp_all add: words_of_def)
  with w t(1) trim show ?thesis by (simp only: parse_command_def Let_def if_False)
qed



text \<open>
  A quoted argument at the end of the line keeps its closing quote: the check for the end of
  the token looks for a following white space, and at the last character there is none.
\<close>

lemma quoted_last_argument:
  "parse_command (''echo '' @ [CHR 0x22] @ ''a b'' @ [CHR 0x22])
     = Some \<lparr>command = ''echo'', args = [''a b'' @ [CHR 0x22]]\<rparr>"
  by code_simp

end
