(* ===== verification/Line_Format.thy ===== *)
theory Line_Format
  imports Terminal_Buffer Terminal_Parser
begin

text \<open>
  Text put together in fixed byte arrays, the way the terminal's commands build every line they
  print: a byte, a text, a padded field, a decimal number. The number formatters are those of
  \<^verbatim>\<open>userspace/drivers/terminal/src/commands\<close> (three equal copies) and of \<^verbatim>\<open>ipc_client.rs\<close>, which
  works differently; both are shown to write the decimal numeral that \<open>parse_number\<close> reads back.
\<close>

definition str_bytes :: "string \<Rightarrow> u8 list" where
  "str_bytes s = map of_char s"

definition byte_chars :: "u8 list \<Rightarrow> string" where
  "byte_chars bs = map (\<lambda>b. char_of (unat b)) bs"

lemma length_str_bytes [simp]: "length (str_bytes s) = length s"
  by (simp add: str_bytes_def)

section \<open>Building a line\<close>

type_synonym linebuf = "u8 list \<times> nat"

text \<open>\<open>line[pos] = byte; pos += 1\<close>\<close>

definition put :: "u8 \<Rightarrow> linebuf \<Rightarrow> linebuf option" where
  "put v b = do { a \<leftarrow> arr_set (fst b) (snd b) v; Some (a, snd b + 1) }"

definition put_str :: "u8 list \<Rightarrow> linebuf \<Rightarrow> linebuf option" where
  "put_str = for_each put"

text \<open>\<open>for byte in s.bytes() { if pos < lim { line[pos] = byte; pos += 1; } }\<close>\<close>

definition put_upto :: "nat \<Rightarrow> u8 list \<Rightarrow> linebuf \<Rightarrow> linebuf option" where
  "put_upto lim = for_each (\<lambda>v b. if snd b < lim then put v b else Some b)"

text \<open>\<open>while pos < lim { line[pos] = b' '; pos += 1; }\<close>\<close>

fun put_blanks :: "nat \<Rightarrow> linebuf \<Rightarrow> linebuf option" where
  "put_blanks 0 b = Some b"
| "put_blanks (Suc n) b = do { b1 \<leftarrow> put 32 b; put_blanks n b1 }"

definition pad_to :: "nat \<Rightarrow> linebuf \<Rightarrow> linebuf option" where
  "pad_to lim b = put_blanks (lim - snd b) b"

text \<open>\<open>from_utf8_unchecked(&line[..pos])\<close>\<close>

definition line_str :: "linebuf \<Rightarrow> u8 list option" where
  "line_str b = arr_prefix (fst b) (snd b)"

text \<open>A buffer that holds the text \<open>s\<close> followed by the unused bytes \<open>t\<close>.\<close>

definition lbuf :: "u8 list \<Rightarrow> u8 list \<Rightarrow> linebuf" where
  "lbuf s t = (s @ t, length s)"

lemma lbuf_fields [simp]: "snd (lbuf s t) = length s" "fst (lbuf s t) = s @ t"
  by (simp_all add: lbuf_def)

named_theorems lbuf_simps \<open>building a line in a buffer that is large enough\<close>

lemma put_lbuf [lbuf_simps]: "0 < length t \<Longrightarrow> put v (lbuf s t) = Some (lbuf (s @ [v]) (tl t))"
  by (cases t) (simp_all add: put_def lbuf_def arr_set_def)

lemma put_str_lbuf [lbuf_simps]: "length u \<le> length t \<Longrightarrow> put_str u (lbuf s t) = Some (lbuf (s @ u) (drop (length u) t))"
  unfolding put_str_def
proof (induction u arbitrary: s t)
  case (Cons v u)
  then have "t \<noteq> []" by auto
  with Cons show ?case by (simp add: put_lbuf drop_Suc)
qed simp

lemma put_upto_lbuf [lbuf_simps]:
  "lim \<le> length s + length t \<Longrightarrow>
   put_upto lim u (lbuf s t) = Some (lbuf (s @ take (lim - length s) u) (drop (min (lim - length s) (length u)) t))"
  unfolding put_upto_def
proof (induction u arbitrary: s t)
  case (Cons v u)
  show ?case
  proof (cases "length s < lim")
    case True
    then obtain k where k: "lim - length s = Suc k" "lim - Suc (length s) = k" by (cases "lim - length s") auto
    from True Cons.prems have "t \<noteq> []" by auto
    with True Cons k show ?thesis by (simp add: put_lbuf drop_Suc)
  next
    case False
    with Cons.IH [OF Cons.prems] show ?thesis by simp
  qed
qed simp

lemma put_blanks_lbuf: "n \<le> length t \<Longrightarrow> put_blanks n (lbuf s t) = Some (lbuf (s @ replicate n 32) (drop n t))"
proof (induction n arbitrary: s t)
  case (Suc n)
  then have "t \<noteq> []" by auto
  with Suc show ?case by (simp add: put_lbuf drop_Suc)
qed simp

lemma pad_to_lbuf [lbuf_simps]:
  "lim \<le> length s + length t \<Longrightarrow> pad_to lim (lbuf s t) = Some (lbuf (s @ replicate (lim - length s) 32) (drop (lim - length s) t))"
  by (simp add: pad_to_def put_blanks_lbuf)

lemma line_str_lbuf [lbuf_simps]: "line_str (lbuf s t) = Some s"
  by (simp add: line_str_def lbuf_def arr_prefix_def)

lemma lbuf_new [lbuf_simps]: "(replicate n 0, 0) = lbuf [] (replicate n 0)"
  by (simp add: lbuf_def)

section \<open>Decimal numbers\<close>

text \<open>The digits are produced from the lowest on, in an array of twenty, and then reversed.\<close>

function digits_loop :: "u64 \<Rightarrow> u8 list \<Rightarrow> nat \<Rightarrow> (u8 list \<times> nat) option" where
  "digits_loop n digits count =
     (if n = 0 then Some (digits, count)
      else do {
        digits1 \<leftarrow> arr_set digits count (48 + ucast (n mod 10));
        digits_loop (n div 10) digits1 (count + 1) })"
  by pat_completeness auto
termination
proof (relation "measure (\<lambda>(n, _). unat n)")
  fix n :: u64 and digits :: "u8 list" and count :: nat and a
  assume "n \<noteq> 0"
  then have "0 < unat n" by (simp add: unat_gt_0)
  then show "((n div 10, a, count + 1), n, digits, count) \<in> measure (\<lambda>(n, _). unat n)" by (simp add: unat_div_distrib)
qed simp

definition format_number :: "u64 \<Rightarrow> u8 list \<Rightarrow> (nat \<times> u8 list) option" where
  "format_number n buf =
     (if buf = [] then Some (0, buf)
      else if n = 0 then do { buf1 \<leftarrow> arr_set buf 0 48; Some (1, buf1) }
      else do {
        (digits, count) \<leftarrow> digits_loop n (replicate 20 0) 0;
        if length buf < count then Some (0, buf)
        else do {
          buf1 \<leftarrow> for_each (\<lambda>i b. do { v \<leftarrow> arr_get digits (count - 1 - i); arr_set b i v }) [0 ..< count] buf;
          Some (count, buf1) } })"

text \<open>The formatter of \<^verbatim>\<open>ipc_client.rs\<close> counts the digits first and writes them in place.\<close>

function count_digits :: "u64 \<Rightarrow> nat \<Rightarrow> nat" where
  "count_digits temp digits = (if temp = 0 then digits else count_digits (temp div 10) (digits + 1))"
  by pat_completeness auto
termination
proof (relation "measure (\<lambda>(n, _). unat n)")
  fix n :: u64 and digits :: nat
  assume "n \<noteq> 0"
  then have "0 < unat n" by (simp add: unat_gt_0)
  then show "((n div 10, digits + 1), n, digits) \<in> measure (\<lambda>(n, _). unat n)" by (simp add: unat_div_distrib)
qed simp

function write_digits :: "u64 \<Rightarrow> nat \<Rightarrow> u8 list \<Rightarrow> u8 list option" where
  "write_digits n pos buf =
     (if n = 0 then Some buf
      else if pos = 0 then None
      else do { buf1 \<leftarrow> arr_set buf (pos - 1) (48 + ucast (n mod 10)); write_digits (n div 10) (pos - 1) buf1 })"
  by pat_completeness auto
termination by (relation "measure (\<lambda>(_, pos, _). pos)") auto

declare digits_loop.simps [simp del] count_digits.simps [simp del] write_digits.simps [simp del]

definition ipc_format_number :: "u64 \<Rightarrow> u8 list \<Rightarrow> (nat \<times> u8 list) option" where
  "ipc_format_number n buf =
     (if buf = [] then Some (0, buf)
      else if n = 0 then do { buf1 \<leftarrow> arr_set buf 0 48; Some (1, buf1) }
      else
        let digits = count_digits n 0
        in if length buf < digits then Some (0, buf)
           else do { buf1 \<leftarrow> write_digits n digits buf; Some (digits, buf1) })"

text \<open>\<open>pos += format_number(n, &mut line[pos..])\<close>\<close>

definition put_number_with :: "(u64 \<Rightarrow> u8 list \<Rightarrow> (nat \<times> u8 list) option) \<Rightarrow> u64 \<Rightarrow> linebuf \<Rightarrow> linebuf option" where
  "put_number_with f n b =
     (if length (fst b) < snd b then None
      else do { (count, rest) \<leftarrow> f n (drop (snd b) (fst b)); Some (take (snd b) (fst b) @ rest, snd b + count) })"

abbreviation put_number :: "u64 \<Rightarrow> linebuf \<Rightarrow> linebuf option" where
  "put_number \<equiv> put_number_with format_number"

subsection \<open>Both formatters write the decimal numeral\<close>

fun dec :: "nat \<Rightarrow> u8 list" where
  "dec n = (if n < 10 then [48 + of_nat n] else dec (n div 10) @ [48 + of_nat (n mod 10)])"

declare dec.simps [simp del]

lemma dec_nonempty [simp]: "dec n \<noteq> []"
  by (subst dec.simps) simp

lemma length_dec: "n < 10 ^ Suc k \<Longrightarrow> length (dec n) \<le> Suc k"
proof (induction k arbitrary: n)
  case 0
  then show ?case by (simp add: dec.simps)
next
  case (Suc k)
  then have "n div 10 < 10 ^ Suc k" by (simp add: less_mult_imp_div_less mult.commute)
  from Suc.IH [OF this] show ?case by (subst dec.simps) simp
qed

lemma length_dec_u64: "length (dec (unat (n :: u64))) \<le> 20"
proof -
  have "unat n < 2 ^ 64" using unsigned_less [of n, where ?'a = nat] by simp
  also have "(2 :: nat) ^ 64 < 10 ^ Suc 19" by simp
  finally show ?thesis using length_dec [of "unat n" 19] by simp
qed

lemma dec_step: "unat (n :: u64) \<noteq> 0 \<Longrightarrow>
    dec (unat n) = (if unat (n div 10) = 0 then [] else dec (unat (n div 10))) @ [48 + ucast (n mod 10)]"
proof -
  have "(ucast (n mod 10) :: u8) = of_nat (unat (n mod 10))" by simp
  then have "(ucast (n mod 10) :: u8) = of_nat (unat n mod 10)" by (simp only: unat_mod_distrib) simp
  then show ?thesis by (subst dec.simps) (auto simp: unat_div_distrib)
qed

lemma digits_loop_dec:
  assumes "n = 0 \<or> length (dec (unat n)) + count \<le> length digits" and "count \<le> length digits"
  shows "digits_loop n digits count =
    Some (take count digits @ (if n = 0 then [] else rev (dec (unat n)))
            @ drop (count + (if n = 0 then 0 else length (dec (unat n)))) digits,
          count + (if n = 0 then 0 else length (dec (unat n))))"
  using assms
proof (induction n digits count rule: digits_loop.induct)
  case (1 n digits count)
  show ?case
  proof (cases "n = 0")
    case True
    then show ?thesis by (simp add: digits_loop.simps)
  next
    case False
    then have d: "dec (unat n) = (if n div 10 = 0 then [] else dec (unat (n div 10))) @ [48 + ucast (n mod 10)]"
      using dec_step [of n] by (simp add: unat_eq_zero)
    let ?ds = "digits[count := 48 + ucast (n mod 10)]"
    from 1(2) False d have c: "count < length digits" by auto
    have s: "arr_set digits count (48 + ucast (n mod 10)) = Some ?ds" using c by (simp add: arr_set_def)
    have "digits_loop (n div 10) ?ds (count + 1) =
        Some (take (count + 1) ?ds @ (if n div 10 = 0 then [] else rev (dec (unat (n div 10))))
            @ drop (count + 1 + (if n div 10 = 0 then 0 else length (dec (unat (n div 10))))) ?ds,
          count + 1 + (if n div 10 = 0 then 0 else length (dec (unat (n div 10)))))"
      by (rule 1(1) [OF False s]) (use 1(2) False d c in \<open>auto split: if_splits\<close>)
    with False s d c show ?thesis
      by (subst digits_loop.simps) (auto simp: take_Suc_conv_app_nth)
  qed
qed

lemma reverse_copy:
  assumes "k \<le> length ds" and "k \<le> length buf"
  shows "for_each (\<lambda>i b. do { v \<leftarrow> arr_get (rev ds @ zs) (length ds - 1 - i); arr_set b i v }) [0 ..< k] buf
    = Some (take k ds @ drop k buf)"
  using assms
proof (induction k)
  case (Suc k)
  then have "length ds - Suc k < length ds" by simp
  with Suc show ?case
    by (simp add: for_each_append arr_get_def arr_set_def nth_append rev_nth list_update_append take_Suc_conv_app_nth
        Cons_nth_drop_Suc [symmetric])
qed simp

lemma format_number_dec:
  "format_number n buf =
     Some (if length (dec (unat n)) \<le> length buf then (length (dec (unat n)), dec (unat n) @ drop (length (dec (unat n))) buf)
           else (0, buf))"
proof (cases "buf = [] \<or> n = 0")
  case True
  then show ?thesis by (cases buf) (auto simp: format_number_def arr_set_def dec.simps [of 0] not_le)
next
  case False
  let ?d = "dec (unat n)"
  have "digits_loop n (replicate 20 0) 0 = Some (rev ?d @ drop (length ?d) (replicate 20 0), length ?d)"
    using digits_loop_dec [of n 0 "replicate 20 0"] length_dec_u64 [of n] False by simp
  then show ?thesis
    using False reverse_copy [of "length ?d" ?d buf "drop (length ?d) (replicate 20 0)"]
    by (auto simp: format_number_def not_less)
qed

lemma count_digits_dec: "count_digits n k = k + (if n = 0 then 0 else length (dec (unat n)))"
proof (induction n k rule: count_digits.induct)
  case (1 n k)
  show ?case
  proof (cases "n = 0")
    case False
    with 1 dec_step [of n] show ?thesis by (subst count_digits.simps) (simp add: unat_eq_zero)
  qed (simp add: count_digits.simps)
qed

lemma write_digits_dec:
  "length (dec (unat n)) \<le> length buf \<Longrightarrow>
   write_digits n (if n = 0 then 0 else length (dec (unat n))) buf
     = Some ((if n = 0 then [] else dec (unat n)) @ drop (if n = 0 then 0 else length (dec (unat n))) buf)"
proof (induction n "if n = 0 then 0 else length (dec (unat n))" buf rule: write_digits.induct)
  case (1 n buf)
  show ?case
  proof (cases "n = 0")
    case False
    then have d: "dec (unat n) = (if n div 10 = 0 then [] else dec (unat (n div 10))) @ [48 + ucast (n mod 10)]"
      using dec_step [of n] by (simp add: unat_eq_zero)
    let ?k = "if n div 10 = 0 then 0 else length (dec (unat (n div 10)))"
    let ?buf = "buf[?k := 48 + ucast (n mod 10)]"
    have k: "length (dec (unat n)) = Suc ?k" "?k < length buf" using d 1(2) by auto
    have s: "arr_set buf ?k (48 + ucast (n mod 10)) = Some ?buf" using k by (simp add: arr_set_def)
    have l: "length (dec (unat (n div 10))) \<le> length ?buf"
      using k(2) by (cases "n div 10 = 0") (auto simp: dec.simps [of 0] Suc_le_eq)
    have "write_digits (n div 10) ?k ?buf = Some ((if n div 10 = 0 then [] else dec (unat (n div 10))) @ drop ?k ?buf)"
      by (rule 1(1)) (use False k s l in auto)
    with False k s d show ?thesis
      by (subst write_digits.simps) (simp add: Cons_nth_drop_Suc [symmetric])
  qed (simp add: write_digits.simps)
qed

lemma ipc_format_number_eq: "ipc_format_number n buf = format_number n buf"
proof (cases "buf = [] \<or> n = 0")
  case True
  then show ?thesis by (auto simp: ipc_format_number_def format_number_def)
next
  case False
  with write_digits_dec [of n buf] show ?thesis
    by (auto simp: ipc_format_number_def format_number_dec count_digits_dec Let_def not_less)
qed

lemma put_number_lbuf [lbuf_simps]:
  "put_number n (lbuf s t) =
     Some (if length (dec (unat n)) \<le> length t then lbuf (s @ dec (unat n)) (drop (length (dec (unat n))) t) else lbuf s t)"
  by (simp add: put_number_with_def format_number_dec) (simp add: lbuf_def)

lemma put_ipc_number: "put_number_with ipc_format_number = put_number"
  by (intro ext) (simp add: put_number_with_def ipc_format_number_eq)

subsection \<open>What is written is read back\<close>

lemma digits_value_append:
  "digits_value r (xs @ ys) a = do { v \<leftarrow> digits_value r xs a; digits_value r ys v }"
  by (induction xs arbitrary: a) (auto split: option.split)

lemma unat_digit: "d < 10 \<Longrightarrow> unat (48 + of_nat d :: u8) = 48 + d"
proof -
  assume "d < 10"
  moreover have "(48 + of_nat d :: u8) = of_nat (48 + d)" by simp
  ultimately show ?thesis by (simp only: unsigned_of_nat) (simp add: take_bit_eq_mod)
qed

lemma digit_char: "d < 10 \<Longrightarrow> to_digit 10 (char_of (unat (48 + of_nat d :: u8))) = Some d"
  by (simp add: unat_digit to_digit_def)

lemma digits_value_dec: "n < 2 ^ 64 \<Longrightarrow> digits_value 10 (byte_chars (dec n)) 0 = Some n"
proof (induction n rule: dec.induct)
  case (1 n)
  show ?case
  proof (cases "n < 10")
    case True
    with 1(2) show ?thesis by (subst dec.simps) (simp add: byte_chars_def digit_char)
  next
    case False
    with 1 have "digits_value 10 (byte_chars (dec (n div 10))) 0 = Some (n div 10)" by simp
    moreover have "n div 10 * 10 + n mod 10 = n" by simp
    ultimately show ?thesis using False 1(2)
      by (subst dec.simps) (simp add: byte_chars_def digits_value_append digit_char del: div_mult_mod_eq mod_mult_div_eq)
  qed
qed

lemma dec_digits: "c \<in> set (byte_chars (dec n)) \<Longrightarrow> of_char c \<in> {48 .. 57 :: nat}"
proof (induction n rule: dec.induct)
  case (1 n)
  then show ?case
    by (subst (asm) (2) dec.simps) (auto simp: byte_chars_def unat_digit split: if_splits)
qed

lemma parse_dec: "n < 2 ^ 64 \<Longrightarrow> parse_number (byte_chars (dec n)) = Some (of_nat n)"
proof -
  assume n: "n < 2 ^ 64"
  let ?s = "byte_chars (dec n)"
  have nd: "c \<notin> set ?s" if "of_char c \<notin> {48 .. 57 :: nat}" for c using dec_digits [of c n] that by blast
  have pre: "\<not> starts_with ?s [CHR ''0'', c]" if "of_char c \<notin> {48 .. 57 :: nat}" for c
  proof
    assume "starts_with ?s [CHR ''0'', c]"
    then have "c \<in> set (take 2 ?s)" by (simp add: starts_with_def numeral_2_eq_2)
    with nd [OF that] show False by (meson in_set_takeD)
  qed
  have "?s \<noteq> []" by (simp add: byte_chars_def)
  then obtain c cs where s: "?s = c # cs" by (cases ?s) auto
  with nd [of "CHR ''+''"] have "c \<noteq> CHR ''+''" by auto
  with digits_value_dec [OF n] s have "from_str_radix ?s 10 = Some (of_nat n)" by (simp add: from_str_radix_def)
  then show ?thesis by (simp add: parse_number_def pre)
qed

text \<open>
  C38. Numbers survive printing: both number formatters of the terminal write, into any buffer
  of at least twenty bytes, the same numeral, never run past their digit array for any 64-bit
  number, leave the rest of the buffer alone, and \<open>parse_number\<close> reads the numeral back to the
  number.
\<close>

theorem format_number_round_trip:
  assumes "20 \<le> length buf"
  shows "\<exists>count buf'. format_number n buf = Some (count, buf') \<and> ipc_format_number n buf = Some (count, buf')
    \<and> parse_number (byte_chars (take count buf')) = Some n \<and> drop count buf' = drop count buf \<and> length buf' = length buf"
proof -
  let ?d = "dec (unat n)"
  have l: "length ?d \<le> length buf" using length_dec_u64 [of n] assms by simp
  have "unat n < 2 ^ 64" using unsigned_less [of n, where ?'a = nat] by simp
  from parse_dec [OF this] l show ?thesis
    by (intro exI [of _ "length ?d"] exI [of _ "?d @ drop (length ?d) buf"])
      (simp add: ipc_format_number_eq format_number_dec)
qed

theorem format_number_round_trip_witness:
  "\<exists>count buf'. format_number 18446744073709551615 (replicate 20 0) = Some (count, buf')
     \<and> parse_number (byte_chars (take count buf')) = Some 18446744073709551615"
  using format_number_round_trip [of "replicate 20 0" 18446744073709551615] by auto

section \<open>Sizes and times\<close>

definition format_size_kb :: "u64 \<Rightarrow> linebuf \<Rightarrow> linebuf option" where
  "format_size_kb kb b =
     (let (n, unit) = (if kb < 1024 then (kb, '' KB'')
                       else if kb < 1024 * 1024 then (kb div 1024, '' MB'')
                       else (kb div (1024 * 1024), '' GB''))
      in do { b1 \<leftarrow> put_number n b; put_upto (length (fst b1)) (str_bytes unit) b1 })"

text \<open>\<open>if pos + k <= buffer.len() { ... }\<close>: the unit is written as a whole or not at all.\<close>

definition format_size :: "u64 \<Rightarrow> linebuf \<Rightarrow> linebuf option" where
  "format_size bytes b =
     (let (n, unit) = (if bytes < 1024 then (bytes, '' B'')
                       else if bytes < 1024 * 1024 then (bytes div 1024, '' KB'')
                       else if bytes < 1024 * 1024 * 1024 then (bytes div (1024 * 1024), '' MB'')
                       else (bytes div (1024 * 1024 * 1024), '' GB''))
      in do { b1 \<leftarrow> put_number_with ipc_format_number n b;
              if snd b1 + length unit \<le> length (fst b1) then put_str (str_bytes unit) b1 else Some b1 })"

definition put_within :: "u8 \<Rightarrow> linebuf \<Rightarrow> linebuf option" where
  "put_within v b = (if snd b < length (fst b) then put v b else Some b)"

definition format_uptime :: "u64 \<Rightarrow> linebuf \<Rightarrow> linebuf option" where
  "format_uptime ticks b =
     (let total_seconds = ticks div 100;
          hours = total_seconds div 3600;
          minutes = (total_seconds mod 3600) div 60;
          seconds = total_seconds mod 60
      in do {
        b \<leftarrow> put_number_with ipc_format_number hours b;
        b \<leftarrow> put_within 58 b;
        b \<leftarrow> (if minutes < 10 then put_within 48 b else Some b);
        b \<leftarrow> put_number_with ipc_format_number minutes b;
        b \<leftarrow> put_within 58 b;
        b \<leftarrow> (if seconds < 10 then put_within 48 b else Some b);
        put_number_with ipc_format_number seconds b })"

lemma put_within_lbuf [lbuf_simps]: "put_within v (lbuf s t) = Some (if t = [] then lbuf s t else lbuf (s @ [v]) (tl t))"
  by (simp add: put_within_def put_lbuf)

end
