(* ===== verification/Terminal_Commands.thy ===== *)
theory Terminal_Commands
  imports Line_Format
begin

text \<open>
  The built-in commands of the terminal, \<^verbatim>\<open>userspace/drivers/terminal/src/commands\<close>, and the client
  they query, \<^verbatim>\<open>ipc_client.rs\<close>, which answers from constants. A command produces its result and
  the output it prints, in order; the current directory is a fixed array beside them. Every
  line is built in a fixed array, so the first property is that no command panics.
\<close>

section \<open>Colours and output\<close>

definition TEXT_DIM :: color where "TEXT_DIM = rgb 128 128 128"
definition TEXT_ERROR :: color where "TEXT_ERROR = rgb 255 100 100"
definition TEXT_SUCCESS :: color where "TEXT_SUCCESS = rgb 100 255 100"
definition TEXT_INFO :: color where "TEXT_INFO = rgb 100 180 255"
definition TEXT_WARNING :: color where "TEXT_WARNING = rgb 255 200 100"
definition PROMPT_USER :: color where "PROMPT_USER = rgb 136 192 208"
definition PROMPT_PATH :: color where "PROMPT_PATH = rgb 163 190 140"
definition PROMPT_SYMBOL :: color where "PROMPT_SYMBOL = rgb 180 142 173"

datatype printed = Print "u8 list" color | Println "u8 list" color

fun emit :: "printed \<Rightarrow> display \<Rightarrow> display option" where
  "emit (Print s c) d = write_str s c d"
| "emit (Println s c) d = display_writeln s c d"

abbreviation lit :: "string \<Rightarrow> u8 list" where "lit \<equiv> str_bytes"

definition println :: "u8 list \<Rightarrow> printed" where "println s = Println s TEXT_NORMAL"
definition println_colored :: "u8 list \<Rightarrow> color \<Rightarrow> printed" where "println_colored s c = Println s c"
definition print_text :: "u8 list \<Rightarrow> printed" where "print_text s = Print s TEXT_NORMAL"
definition ctx_error :: "u8 list \<Rightarrow> printed" where "ctx_error s = Println s TEXT_ERROR"
definition ctx_success :: "u8 list \<Rightarrow> printed" where "ctx_success s = Println s TEXT_SUCCESS"
definition ctx_info :: "u8 list \<Rightarrow> printed" where "ctx_info s = Println s TEXT_INFO"
definition ctx_warning :: "u8 list \<Rightarrow> printed" where "ctx_warning s = Println s TEXT_WARNING"

datatype command_result = CmdOk | CmdNotFound | CmdError | CmdClear | CmdExit

text \<open>The body of a callback, run for every item the client reports.\<close>

fun map_opt :: "('a \<Rightarrow> 'b option) \<Rightarrow> 'a list \<Rightarrow> 'b list option" where
  "map_opt f [] = Some []"
| "map_opt f (x # xs) = do { y \<leftarrow> f x; ys \<leftarrow> map_opt f xs; Some (y # ys) }"

lemma map_opt_Some: "(\<And>x. x \<in> set xs \<Longrightarrow> f x = Some (g x)) \<Longrightarrow> map_opt f xs = Some (map g xs)"
  by (induction xs) auto

section \<open>The client\<close>

definition query_processes :: "(u64 \<times> string \<times> string) list" where
  "query_processes =
     [(0, ''kernel'', ''running''), (1, ''init'', ''running''), (2, ''display'', ''running''), (3, ''keyboard'', ''running''),
      (4, ''mouse'', ''running''), (5, ''ui_shell'', ''running''), (6, ''terminal'', ''running'')]"

definition query_memory :: "u64 \<times> u64 \<times> u64" where
  "query_memory = (let total_kb = 128 * 1024; used_kb = 32 * 1024; free_kb = total_kb - used_kb in (total_kb, used_kb, free_kb))"

definition query_services :: "(string \<times> u64 \<times> string) list" where
  "query_services =
     [(''display_server'', 5, ''active''), (''keyboard_driver'', 6, ''active''), (''mouse_driver'', 7, ''active''),
      (''ui_shell'', 8, ''active'')]"

definition kill_process :: "u64 \<Rightarrow> bool" where
  "kill_process pid \<longleftrightarrow> 10 \<le> pid"

definition spawn_process :: "string \<Rightarrow> string list \<Rightarrow> u64 option" where
  "spawn_process path as = None"

definition list_directory :: "u8 list \<Rightarrow> (string \<times> bool \<times> u64) list" where
  "list_directory path =
     [(''bin'', True, 0), (''etc'', True, 0), (''dev'', True, 0), (''sys'', True, 0), (''proc'', True, 0), (''home'', True, 0)]"

definition read_file :: "u8 list \<Rightarrow> u8 list \<Rightarrow> nat option \<times> u8 list" where
  "read_file path buf = (None, buf)"

definition read_log :: "string list" where
  "read_log =
     [''[0.000] Atom OS kernel initializing'', ''[0.001] Memory manager initialized'', ''[0.002] Scheduler started'',
      ''[0.003] IPC subsystem ready'', ''[0.010] Loading userspace drivers'', ''[0.020] Display server started'',
      ''[0.030] Input drivers initialized'', ''[0.050] UI shell launched'']"

section \<open>System commands\<close>

definition OS_NAME :: string where "OS_NAME = ''Atom OS''"
definition OS_VERSION :: string where "OS_VERSION = ''0.1.0''"
definition OS_CODENAME :: string where "OS_CODENAME = ''Helium''"
definition KERNEL_VERSION :: string where "KERNEL_VERSION = ''0.1.0-microkernel''"

definition get_command_help :: "string \<Rightarrow> (string \<times> string) option" where
  "get_command_help cmd =
     (let c = map to_ascii_lowercase cmd in
      if c \<in> {''help'', ''?''} then Some (''help [command]'', ''Display help information'')
      else if c \<in> {''version'', ''ver''} then Some (''version'', ''Display system version information'')
      else if c = ''uptime'' then Some (''uptime'', ''Show system uptime'')
      else if c \<in> {''date'', ''time''} then Some (''date'', ''Display current date and time'')
      else if c \<in> {''clear'', ''cls''} then Some (''clear'', ''Clear the terminal screen'')
      else if c = ''echo'' then Some (''echo [text...]'', ''Display text'')
      else if c = ''sysinfo'' then Some (''sysinfo'', ''Display system information summary'')
      else if c \<in> {''ps'', ''procs''} then Some (''ps'', ''List running processes'')
      else if c = ''kill'' then Some (''kill <pid>'', ''Terminate a process'')
      else if c \<in> {''exec'', ''run''} then Some (''exec <program>'', ''Execute a program'')
      else if c \<in> {''mem'', ''memory''} then Some (''mem'', ''Display memory usage'')
      else if c \<in> {''services'', ''svc''} then Some (''services'', ''List registered services'')
      else if c \<in> {''ls'', ''dir''} then Some (''ls [path]'', ''List directory contents'')
      else if c = ''cd'' then Some (''cd <path>'', ''Change current directory'')
      else if c = ''pwd'' then Some (''pwd'', ''Print working directory'')
      else if c \<in> {''cat'', ''type''} then Some (''cat <file>'', ''Display file contents'')
      else if c = ''tree'' then Some (''tree [path]'', ''Display directory tree'')
      else if c \<in> {''exit'', ''quit''} then Some (''exit'', ''Exit the terminal'')
      else if c \<in> {''log'', ''dmesg''} then Some (''log'', ''Display system log'')
      else if c = ''ports'' then Some (''ports'', ''List IPC ports'')
      else if c = ''caps'' then Some (''caps'', ''List capabilities'')
      else None)"

definition get_all_commands :: "(string \<times> string) list" where
  "get_all_commands =
     [(''help'', ''Display help information''), (''version'', ''Show system version''), (''uptime'', ''Show system uptime''),
      (''date'', ''Show current date/time''), (''sysinfo'', ''System information summary''),
      (''clear'', ''Clear terminal screen''), (''echo'', ''Display text''), (''log'', ''Display system log''),
      (''ps'', ''List processes''), (''kill'', ''Terminate a process''), (''exec'', ''Execute a program''),
      (''mem'', ''Memory usage''), (''services'', ''List services''),
      (''ls'', ''List directory''), (''cd'', ''Change directory''), (''pwd'', ''Print working directory''),
      (''cat'', ''Display file contents''), (''tree'', ''Directory tree''),
      (''exit'', ''Exit terminal'')]"

definition command_category :: "string \<Rightarrow> string" where
  "command_category name =
     (if name \<in> {''help'', ''version'', ''uptime'', ''date'', ''sysinfo'', ''clear'', ''echo'', ''log''} then ''System''
      else if name \<in> {''ps'', ''kill'', ''exec'', ''mem'', ''services''} then ''Process''
      else if name \<in> {''ls'', ''cd'', ''pwd'', ''cat'', ''tree''} then ''Filesystem''
      else ''Other'')"

definition help_line :: "string \<Rightarrow> string \<Rightarrow> u8 list option" where
  "help_line name desc =
     do { b \<leftarrow> put_upto 12 (lit name) (replicate 64 0, 0);
          b \<leftarrow> pad_to 12 b;
          b \<leftarrow> put_upto 60 (lit desc) b;
          line_str b }"

fun help_lines :: "string \<Rightarrow> (string \<times> string) list \<Rightarrow> printed list option" where
  "help_lines category [] = Some []"
| "help_lines category ((name, desc) # rest) =
     (let new_category = command_category name in
      do { l \<leftarrow> help_line name desc;
           ls \<leftarrow> help_lines new_category rest;
           Some ((if new_category \<noteq> category then [println [], println_colored (lit new_category) PROMPT_USER] else [])
                 @ println l # ls) })"

definition cmd_help :: "parsed_command \<Rightarrow> (command_result \<times> printed list) option" where
  "cmd_help cmd =
     (case arg cmd 0 of
        Some topic \<Rightarrow>
          (case get_command_help topic of
             Some (usage, desc) \<Rightarrow>
               Some (CmdOk, [println [], println_colored (lit usage) TEXT_INFO, println (lit desc), println []])
           | None \<Rightarrow> Some (CmdOk, [ctx_error (lit ''No help available for that command.'')]))
      | None \<Rightarrow> do {
          ls \<leftarrow> help_lines [] get_all_commands;
          Some (CmdOk,
            [println [], println_colored (lit ''Atom Terminal - Available Commands'') TEXT_INFO,
             println (lit ''-----------------------------------''), println []] @ ls @
            [println [], println (lit ''Type 'help <command>' for more information.''), println []]) })"

definition cmd_version :: "parsed_command \<Rightarrow> (command_result \<times> printed list) option" where
  "cmd_version cmd =
     do { b \<leftarrow> put_str (lit ''Version '') (replicate 64 0, 0);
          b \<leftarrow> put_str (lit OS_VERSION) b;
          b \<leftarrow> put_str (lit '' ('') b;
          b \<leftarrow> put_str (lit OS_CODENAME) b;
          b \<leftarrow> put 41 b;
          version \<leftarrow> line_str b;
          b \<leftarrow> put_str (lit ''Kernel: '') (replicate 64 0, 0);
          b \<leftarrow> put_str (lit KERNEL_VERSION) b;
          kernel \<leftarrow> line_str b;
          Some (CmdOk, [println [], println_colored (lit OS_NAME) TEXT_INFO, println version, println kernel,
                        println (lit ''Architecture: x86_64''), println []]) }"

text \<open>\<open>for i in 0..len { line[pos] = buffer[i]; pos += 1; }\<close>\<close>

definition put_bytes :: "u8 list \<Rightarrow> nat \<Rightarrow> linebuf \<Rightarrow> linebuf option" where
  "put_bytes buf n = for_each (\<lambda>i b. do { v \<leftarrow> arr_get buf i; put v b }) [0 ..< n]"

definition cmd_uptime :: "u64 \<Rightarrow> parsed_command \<Rightarrow> (command_result \<times> printed list) option" where
  "cmd_uptime ticks cmd =
     do { (buf, len) \<leftarrow> format_uptime ticks (replicate 64 0, 0);
          b \<leftarrow> put_str (lit ''System uptime: '') (replicate 80 0, 0);
          b \<leftarrow> put_bytes buf len b;
          uptime \<leftarrow> line_str b;
          Some (CmdOk, [println [], println_colored uptime TEXT_INFO, println []]) }"

definition cmd_date :: "u64 \<Rightarrow> parsed_command \<Rightarrow> (command_result \<times> printed list) option" where
  "cmd_date ticks cmd =
     (let total_seconds = ticks div 100;
          hours = (total_seconds div 3600) mod 24;
          minutes = (total_seconds mod 3600) div 60;
          seconds = total_seconds mod 60
      in do {
        b \<leftarrow> (if hours < 10 then put 48 (replicate 32 0, 0) else Some (replicate 32 0, 0));
        b \<leftarrow> put_number hours b;
        b \<leftarrow> put 58 b;
        b \<leftarrow> (if minutes < 10 then put 48 b else Some b);
        b \<leftarrow> put_number minutes b;
        b \<leftarrow> put 58 b;
        b \<leftarrow> (if seconds < 10 then put 48 b else Some b);
        b \<leftarrow> put_number seconds b;
        b \<leftarrow> put_upto 32 (lit '' UTC (simulated)'') b;
        s \<leftarrow> line_str b;
        Some (CmdOk, [println [], println_colored s TEXT_INFO, println []]) })"

definition echo_step :: "parsed_command \<Rightarrow> nat \<Rightarrow> linebuf \<Rightarrow> linebuf option" where
  "echo_step cmd i b =
     do { b \<leftarrow> (if 0 < i \<and> snd b < 256 then put 32 b else Some b);
          a \<leftarrow> arr_get (args cmd) i;
          put_upto 256 (lit a) b }"

definition cmd_echo :: "parsed_command \<Rightarrow> (command_result \<times> printed list) option" where
  "cmd_echo cmd =
     do { b \<leftarrow> for_each (echo_step cmd) [0 ..< length (args cmd)] (replicate 256 0, 0);
          s \<leftarrow> line_str b;
          Some (CmdOk, [println s]) }"

definition cmd_sysinfo :: "u64 \<Rightarrow> parsed_command \<Rightarrow> (command_result \<times> printed list) option" where
  "cmd_sysinfo ticks cmd =
     do { u \<leftarrow> format_uptime ticks (replicate 64 0, 0);
          uptime \<leftarrow> line_str u;
          let (total, used, free) = query_memory;
          b \<leftarrow> put_number (used div 1024) (replicate 64 0, 0);
          b \<leftarrow> put_str (lit '' MB / '') b;
          b \<leftarrow> put_number (total div 1024) b;
          b \<leftarrow> put_str (lit '' MB'') b;
          mem \<leftarrow> line_str b;
          Some (CmdOk,
            [println [], println_colored (lit ''System Information'') TEXT_INFO, println (lit ''==================''), println [],
             print_text (lit ''OS:           ''), println_colored (lit OS_NAME) PROMPT_USER,
             print_text (lit ''Version:      ''), println (lit OS_VERSION),
             print_text (lit ''Kernel:       ''), println (lit KERNEL_VERSION),
             print_text (lit ''Architecture: ''), println (lit ''x86_64''),
             println [],
             print_text (lit ''Uptime:       ''), println uptime,
             print_text (lit ''Memory:       ''), println mem,
             println []]) }"

definition cmd_log :: "parsed_command \<Rightarrow> (command_result \<times> printed list) option" where
  "cmd_log cmd =
     Some (CmdOk,
       [println [], println_colored (lit ''System Log'') TEXT_INFO, println (lit ''----------''), println []]
       @ map (\<lambda>l. println (lit l)) read_log @ [println []])"

definition cmd_ports :: "parsed_command \<Rightarrow> (command_result \<times> printed list) option" where
  "cmd_ports cmd =
     Some (CmdOk,
       [println [], println_colored (lit ''IPC Ports'') TEXT_INFO, println (lit ''---------''), println [],
        println (lit ''Port  Service''), println (lit ''----  -------''), println (lit ''1     service_manager''),
        println (lit ''2     process_manager''), println (lit ''3     memory_manager''), println (lit ''4     filesystem''),
        println (lit ''5     display_server''), println (lit ''6     input_server''), println []])"

definition cmd_caps :: "parsed_command \<Rightarrow> (command_result \<times> printed list) option" where
  "cmd_caps cmd =
     Some (CmdOk,
       [println [], println_colored (lit ''Process Capabilities'') TEXT_INFO, println (lit ''--------------------''), println [],
        println (lit ''CAP_GRAPHICS     - Framebuffer access''), println (lit ''CAP_INPUT        - Keyboard/mouse input''),
        println (lit ''CAP_IPC          - IPC messaging''), println (lit ''CAP_MEMORY       - Memory allocation''), println []])"

section \<open>Process commands\<close>

definition ps_line :: "u64 \<times> string \<times> string \<Rightarrow> u8 list option" where
  "ps_line = (\<lambda>(pid, name, state).
     do { (pid_len, pid_str) \<leftarrow> format_number pid (replicate 8 0);
          b \<leftarrow> put_blanks (5 - min pid_len 5) (replicate 64 0, 0);
          b \<leftarrow> put_bytes pid_str (min pid_len 5) b;
          b \<leftarrow> put 32 b;
          b \<leftarrow> put_upto 22 (lit name) b;
          b \<leftarrow> pad_to 22 b;
          b \<leftarrow> put_upto 60 (lit state) b;
          line_str b })"

definition cmd_ps :: "parsed_command \<Rightarrow> (command_result \<times> printed list) option" where
  "cmd_ps cmd =
     do { ls \<leftarrow> map_opt ps_line query_processes;
          Some (CmdOk,
            [println [], println_colored (lit ''Running Processes'') TEXT_INFO, println (lit ''-----------------''), println [],
             println (lit ''PID   NAME             STATE''), println (lit ''---   ----             -----'')]
            @ map println ls @ [println []]) }"

definition cmd_kill :: "parsed_command \<Rightarrow> (command_result \<times> printed list) option" where
  "cmd_kill cmd =
     (case arg cmd 0 of
        None \<Rightarrow> Some (CmdError, [ctx_error (lit ''Usage: kill <pid>'')])
      | Some pid_arg \<Rightarrow>
          (case parse_number pid_arg of
             None \<Rightarrow> Some (CmdError, [ctx_error (lit ''Invalid PID'')])
           | Some pid \<Rightarrow>
               if pid < 10 then Some (CmdError, [ctx_warning (lit ''Cannot terminate system process'')])
               else if kill_process pid then do {
                 b \<leftarrow> put_str (lit ''Signal sent to process '') (replicate 64 0, 0);
                 b \<leftarrow> put_number pid b;
                 msg \<leftarrow> line_str b;
                 Some (CmdOk, [ctx_success msg]) }
               else Some (CmdError, [ctx_error (lit ''Failed to send signal to process'')])))"

definition exec_args :: "parsed_command \<Rightarrow> string list option" where
  "exec_args cmd =
     do { arr \<leftarrow> for_each (\<lambda>i arr. do { a \<leftarrow> arr_get (args cmd) i; arr_set arr (i - 1) a })
                 [1 ..< min (length (args cmd)) 16] (replicate 16 []);
          arr_prefix arr (length (args cmd) - 1) }"

definition cmd_exec :: "parsed_command \<Rightarrow> (command_result \<times> printed list) option" where
  "cmd_exec cmd =
     (case arg cmd 0 of
        None \<Rightarrow> Some (CmdError, [ctx_error (lit ''Usage: exec <program> [args...]'')])
      | Some program \<Rightarrow> do {
          as \<leftarrow> exec_args cmd;
          out \<leftarrow> (case spawn_process program as of
             Some pid \<Rightarrow> do {
               b \<leftarrow> put_str (lit ''Started process with PID '') (replicate 64 0, 0);
               b \<leftarrow> put_number pid b;
               msg \<leftarrow> line_str b;
               Some [ctx_success msg] }
           | None \<Rightarrow>
               Some [ctx_warning (lit ''Process spawning not yet implemented''),
                     ctx_info (lit ''In a full implementation, this would:''),
                     ctx_info (lit ''  1. Send request to process manager''),
                     ctx_info (lit ''  2. Load executable from filesystem''),
                     ctx_info (lit ''  3. Create new address space''),
                     ctx_info (lit ''  4. Start execution'')]);
          Some (CmdOk, ctx_info (lit ''Attempting to execute program...'') # out) })"

definition percent_of :: "u64 \<Rightarrow> u64 \<Rightarrow> u64" where
  "percent_of part whole = (if 0 < whole then ucast (ucast (part * 100 div whole) :: u8) else 0)"

definition put_percent :: "u64 \<Rightarrow> linebuf \<Rightarrow> linebuf option" where
  "put_percent p b =
     do { b \<leftarrow> put_str (lit '' ('') b; b \<leftarrow> put_number p b; put_str (lit ''%)'') b }"

definition memory_bar :: "u64 \<Rightarrow> u64 \<Rightarrow> u8 list option" where
  "memory_bar used_kb total_kb =
     (let used_bars = (if 0 < total_kb then unat (used_kb * 40 div total_kb) else 0) in
      do { b \<leftarrow> put 91 (replicate 64 0, 0);
           b \<leftarrow> for_each (\<lambda>i. put (if i < used_bars then 35 else 45)) [0 ..< 40] b;
           b \<leftarrow> put 93 b;
           line_str b })"

text \<open>One buffer serves the three lines: each starts again at position zero over the old bytes.\<close>

definition memory_line :: "string \<Rightarrow> u64 \<Rightarrow> u64 option \<Rightarrow> u8 list \<Rightarrow> (u8 list \<times> u8 list) option" where
  "memory_line title kb percent line =
     do { b \<leftarrow> put_str (lit title) (line, 0);
          b \<leftarrow> format_size_kb kb b;
          b \<leftarrow> (case percent of None \<Rightarrow> Some b | Some p \<Rightarrow> put_percent p b);
          s \<leftarrow> line_str b;
          Some (s, fst b) }"

definition cmd_memory :: "parsed_command \<Rightarrow> (command_result \<times> printed list) option" where
  "cmd_memory cmd =
     do { let (total_kb, used_kb, free_kb) = query_memory;
          (total, line) \<leftarrow> memory_line ''Total:     '' total_kb None (replicate 64 0);
          (used, line) \<leftarrow> memory_line ''Used:      '' used_kb (Some (percent_of used_kb total_kb)) line;
          (free, line) \<leftarrow> memory_line ''Free:      '' free_kb (Some (percent_of free_kb total_kb)) line;
          bar \<leftarrow> memory_bar used_kb total_kb;
          Some (CmdOk,
            [println [], println_colored (lit ''Memory Usage'') TEXT_INFO, println (lit ''------------''), println [],
             println total, println used, println free, println [], println_colored bar TEXT_INFO, println []]) }"

definition service_line :: "string \<times> u64 \<times> string \<Rightarrow> printed option" where
  "service_line = (\<lambda>(name, port, status).
     do { b \<leftarrow> put_upto 20 (lit name) (replicate 64 0, 0);
          b \<leftarrow> pad_to 20 b;
          (port_len, port_str) \<leftarrow> format_number port (replicate 8 0);
          b \<leftarrow> put_bytes port_str port_len b;
          b \<leftarrow> pad_to 28 b;
          b \<leftarrow> put_upto 60 (lit status) b;
          l \<leftarrow> line_str b;
          Some (if status = ''active'' then println_colored l TEXT_SUCCESS else println l) })"

definition cmd_services :: "parsed_command \<Rightarrow> (command_result \<times> printed list) option" where
  "cmd_services cmd =
     do { ls \<leftarrow> map_opt service_line query_services;
          Some (CmdOk,
            [println [], println_colored (lit ''Registered Services'') TEXT_INFO, println (lit ''-------------------''), println [],
             println (lit ''NAME                PORT    STATUS''), println (lit ''----                ----    ------'')]
            @ ls @ [println []]) }"

section \<open>Filesystem commands\<close>

record cwd =
  dir_bytes :: "u8 list"
  dir_len :: nat

definition cwd_new :: cwd where
  "cwd_new = \<lparr>dir_bytes = replicate 256 47, dir_len = 1\<rparr>"

definition get_current_dir :: "cwd \<Rightarrow> u8 list option" where
  "get_current_dir w = arr_prefix (dir_bytes w) (dir_len w)"

text \<open>\<open>copy_from_slice\<close> panics unless both slices have the same length.\<close>

definition set_current_dir :: "u8 list \<Rightarrow> cwd \<Rightarrow> cwd option" where
  "set_current_dir path w =
     (let len = min (length path) 255 in
      if length (dir_bytes w) < len \<or> length path \<noteq> len then None
      else Some (w\<lparr>dir_bytes := path @ drop len (dir_bytes w), dir_len := len\<rparr>))"

definition ls_line :: "bool \<Rightarrow> string \<times> bool \<times> u64 \<Rightarrow> printed option" where
  "ls_line long_format = (\<lambda>(name, is_dir, size).
     if long_format then do {
       b \<leftarrow> put_str (lit (if is_dir then ''dir   '' else ''file  '')) (replicate 80 0, 0);
       b \<leftarrow> (if is_dir then put_str (lit ''-         '') b
             else do {
               (size_len, size_buf) \<leftarrow> format_number size (replicate 10 0);
               b \<leftarrow> put_bytes size_buf size_len b;
               pad_to 16 b });
       b \<leftarrow> put_upto 76 (lit name) b;
       l \<leftarrow> line_str b;
       Some (if is_dir then println_colored l PROMPT_PATH else println l) }
     else if is_dir then do {
       b \<leftarrow> put_str (lit name) (replicate 64 0, 0);
       b \<leftarrow> put 47 b;
       l \<leftarrow> line_str b;
       Some (println_colored l PROMPT_PATH) }
     else Some (println (lit name)))"

definition cmd_ls :: "cwd \<Rightarrow> parsed_command \<Rightarrow> (command_result \<times> printed list) option" where
  "cmd_ls w cmd =
     do { dir \<leftarrow> get_current_dir w;
          let path = (case arg cmd 0 of Some p \<Rightarrow> lit p | None \<Rightarrow> dir);
          let show_all = has_flag cmd ''-a'' ''--all'';
          let long_format = has_flag cmd ''-l'' ''--long'';
          b \<leftarrow> put_str (lit ''Contents of '') (replicate 64 0, 0);
          b \<leftarrow> put_upto 60 path b;
          header \<leftarrow> line_str b;
          ls \<leftarrow> map_opt (ls_line long_format)
                 (filter (\<lambda>(name, _). \<not> (\<not> show_all \<and> starts_with name ''.'')) (list_directory path));
          Some (CmdOk,
            [println [], println_colored header TEXT_INFO, println []]
            @ (if long_format then [println (lit ''TYPE  SIZE      NAME''), println (lit ''----  ----      ----'')] else [])
            @ ls @ [println []]) }"

text \<open>The path a relative or absolute name stands for; \<open>cd\<close> and \<open>cat\<close> build it in the same way.\<close>

definition build_path :: "u8 list \<Rightarrow> u8 list \<Rightarrow> linebuf option" where
  "build_path current target =
     (if take 1 target = [47] then put_upto 255 target (replicate 256 0, 0)
      else do {
        b \<leftarrow> put_upto 254 current (replicate 256 0, 0);
        b \<leftarrow> (if 0 < snd b then do { c \<leftarrow> arr_get (fst b) (snd b - 1); if c \<noteq> 47 then put 47 b else Some b } else Some b);
        put_upto 255 target b })"

definition last_slash :: "u8 list \<Rightarrow> nat" where
  "last_slash bytes = fold (\<lambda>i r. if bytes ! i = 47 then i else r) [0 ..< length bytes - 1] 0"

definition cd_up :: "cwd \<Rightarrow> cwd option" where
  "cd_up w =
     do { current \<leftarrow> get_current_dir w;
          if current = [47] then Some w
          else if current = [] then None
          else let slash = last_slash current in
               if slash = 0 then set_current_dir [47] w
               else do { new_path \<leftarrow> arr_prefix current slash; set_current_dir new_path w } }"

definition cmd_cd :: "cwd \<Rightarrow> parsed_command \<Rightarrow> cwd option" where
  "cmd_cd w cmd =
     (case arg cmd 0 of
        None \<Rightarrow> set_current_dir [47] w
      | Some target \<Rightarrow>
          if target = ''~'' \<or> target = ''/'' then set_current_dir [47] w
          else if target = ''..'' then cd_up w
          else if target = ''.'' then Some w
          else do {
            current \<leftarrow> get_current_dir w;
            (new_path, pos) \<leftarrow> build_path current (lit target);
            strip \<leftarrow> (if 1 < pos then do { c \<leftarrow> arr_get new_path (pos - 1); Some (c = 47) } else Some False);
            path \<leftarrow> arr_prefix new_path (if strip then pos - 1 else pos);
            set_current_dir path w })"

definition cmd_pwd :: "cwd \<Rightarrow> parsed_command \<Rightarrow> (command_result \<times> printed list) option" where
  "cmd_pwd w cmd = do { dir \<leftarrow> get_current_dir w; Some (CmdOk, [println_colored dir PROMPT_PATH]) }"

definition cmd_cat :: "cwd \<Rightarrow> parsed_command \<Rightarrow> (command_result \<times> printed list) option" where
  "cmd_cat w cmd =
     (case arg cmd 0 of
        None \<Rightarrow> Some (CmdError, [ctx_error (lit ''Usage: cat <filename>'')])
      | Some filename \<Rightarrow> do {
          current \<leftarrow> get_current_dir w;
          b \<leftarrow> build_path current (lit filename);
          path \<leftarrow> line_str b;
          (case read_file path (replicate 1024 0) of
             (Some len, buf) \<Rightarrow> do {
               content \<leftarrow> arr_prefix buf len;
               Some (CmdOk, [println []] @ map (\<lambda>l. println (lit l)) (split_char newline (byte_chars content)) @ [println []]) }
           | (None, _) \<Rightarrow>
               Some (CmdOk,
                 [ctx_warning (lit ''File reading not yet implemented''), ctx_info (lit ''In a full implementation, this would:''),
                  ctx_info (lit ''  1. Send request to filesystem service''),
                  ctx_info (lit ''  2. Receive file data via shared memory''), ctx_info (lit ''  3. Display contents to terminal'')])) })"

definition tree_line :: "string \<times> bool \<times> u64 \<Rightarrow> printed option" where
  "tree_line = (\<lambda>(name, is_dir, _).
     do { b \<leftarrow> put_str (lit ''|-- '') (replicate 64 0, 0);
          b \<leftarrow> put_upto 60 (lit name) b;
          b \<leftarrow> (if is_dir then put 47 b else Some b);
          l \<leftarrow> line_str b;
          Some (if is_dir then println_colored l PROMPT_PATH else println l) })"

text \<open>The depth option is read and then not used.\<close>

definition cmd_tree :: "cwd \<Rightarrow> parsed_command \<Rightarrow> (command_result \<times> printed list) option" where
  "cmd_tree w cmd =
     do { dir \<leftarrow> get_current_dir w;
          let path = (case arg cmd 0 of Some p \<Rightarrow> lit p | None \<Rightarrow> dir);
          ls \<leftarrow> map_opt tree_line (list_directory path);
          Some (CmdOk, [println [], println_colored path PROMPT_PATH] @ ls @ [println []]) }"

section \<open>Dispatch\<close>

text \<open>\<open>ticks\<close> is what the clock answers while the command runs.\<close>

definition execute :: "u64 \<Rightarrow> parsed_command \<Rightarrow> cwd \<Rightarrow> (command_result \<times> printed list \<times> cwd) option" where
  "execute ticks cmd w =
     (let c = map to_ascii_lowercase (command cmd);
          keep = map_option (\<lambda>(r, out). (r, out, w))
      in if c \<in> {''help'', ''?''} then keep (cmd_help cmd)
         else if c \<in> {''version'', ''ver''} then keep (cmd_version cmd)
         else if c = ''uptime'' then keep (cmd_uptime ticks cmd)
         else if c \<in> {''date'', ''time''} then keep (cmd_date ticks cmd)
         else if c \<in> {''clear'', ''cls''} then Some (CmdClear, [], w)
         else if c = ''echo'' then keep (cmd_echo cmd)
         else if c = ''sysinfo'' then keep (cmd_sysinfo ticks cmd)
         else if c \<in> {''ps'', ''procs''} then keep (cmd_ps cmd)
         else if c = ''kill'' then keep (cmd_kill cmd)
         else if c \<in> {''exec'', ''run''} then keep (cmd_exec cmd)
         else if c \<in> {''mem'', ''memory''} then keep (cmd_memory cmd)
         else if c \<in> {''services'', ''svc''} then keep (cmd_services cmd)
         else if c \<in> {''ls'', ''dir''} then keep (cmd_ls w cmd)
         else if c = ''cd'' then map_option (\<lambda>w'. (CmdOk, [], w')) (cmd_cd w cmd)
         else if c = ''pwd'' then keep (cmd_pwd w cmd)
         else if c \<in> {''cat'', ''type''} then keep (cmd_cat w cmd)
         else if c = ''tree'' then keep (cmd_tree w cmd)
         else if c \<in> {''exit'', ''quit'', ''logout''} then Some (CmdExit, [], w)
         else if c \<in> {''log'', ''dmesg''} then keep (cmd_log cmd)
         else if c = ''ports'' then keep (cmd_ports cmd)
         else if c = ''caps'' then keep (cmd_caps cmd)
         else Some (CmdNotFound, [ctx_error (lit ''Unknown command. Type 'help' for available commands.'')], w))"

section \<open>No command panics\<close>

lemma put_bytes_lbuf [lbuf_simps]:
  "n \<le> length buf \<Longrightarrow> n \<le> length t \<Longrightarrow> put_bytes buf n (lbuf s t) = Some (lbuf (s @ take n buf) (drop n t))"
  unfolding put_bytes_def
proof (induction n)
  case (Suc n)
  then have "drop n t \<noteq> []" by simp
  with Suc show ?case
    by (simp add: for_each_append arr_get_def put_lbuf take_Suc_conv_app_nth tl_drop drop_Suc)
qed simp

lemma uptime_small:
  fixes t :: u64
  shows "unat (t mod 60) < 60" "unat (t mod 3600 div 60) < 60" "unat (t mod 24) < 24"
  by (simp_all add: unat_mod_distrib unat_div_distrib less_mult_imp_div_less)

lemma dec_two: "n < 100 \<Longrightarrow> length (dec n) \<le> 2"
  using length_dec [of n 1] by simp

lemma help_lines_total: "\<exists>ls. help_lines category cs = Some ls"
proof (induction cs arbitrary: category)
  case (Cons c cs)
  obtain name desc where c: "c = (name, desc)" by (cases c)
  obtain l where "help_line name desc = Some l" by (simp add: help_line_def lbuf_simps)
  moreover obtain ls where "help_lines (command_category name) cs = Some ls" using Cons by blast
  ultimately show ?case by (simp add: c Let_def)
qed simp

lemma number_room:
  "length (dec (unat n)) \<le> length t \<Longrightarrow>
   put_number n (lbuf s t) = Some (lbuf (s @ dec (unat n)) (drop (length (dec (unat n))) t))"
  by (simp add: put_number_lbuf)

lemma within_room: "0 < length t \<Longrightarrow> put_within v (lbuf s t) = Some (lbuf (s @ [v]) (tl t))"
  by (simp add: put_within_lbuf)

lemmas room = number_room within_room put_lbuf put_str_lbuf put_upto_lbuf line_str_lbuf lbuf_new

lemma format_uptime_total:
  "\<exists>b. format_uptime ticks (replicate 64 0, 0) = Some b \<and> length (fst b) = 64 \<and> snd b \<le> 28"
proof -
  let ?s = "ticks div 100"
  let ?h = "dec (unat (?s div 3600))" and ?m = "dec (unat (?s mod 3600 div 60))" and ?c = "dec (unat (?s mod 60))"
  have l: "length ?h \<le> 20" "length ?m \<le> 2" "length ?c \<le> 2"
    using uptime_small [of ?s] by (auto intro: length_dec_u64 dec_two)
  then show ?thesis
    by (cases "?s mod 3600 div 60 < 10"; cases "?s mod 60 < 10") (simp_all add: format_uptime_def Let_def put_ipc_number room)
qed

lemma date_total: "\<exists>r out. cmd_date ticks cmd = Some (r, out)"
proof -
  let ?s = "ticks div 100"
  let ?h = "dec (unat (?s div 3600 mod 24))" and ?m = "dec (unat (?s mod 3600 div 60))" and ?c = "dec (unat (?s mod 60))"
  have l: "length ?h \<le> 2" "length ?m \<le> 2" "length ?c \<le> 2"
    using uptime_small [of ?s] uptime_small [of "?s div 3600"] by (auto intro: dec_two)
  then show ?thesis
    by (cases "?s div 3600 mod 24 < 10"; cases "?s mod 3600 div 60 < 10"; cases "?s mod 60 < 10")
      (simp_all add: cmd_date_def Let_def room)
qed

lemma system_commands_total:
  "\<exists>r out. cmd_help cmd = Some (r, out)" "\<exists>r out. cmd_version cmd = Some (r, out)"
  "\<exists>r out. cmd_uptime ticks cmd = Some (r, out)"
  "\<exists>r out. cmd_sysinfo ticks cmd = Some (r, out)"
proof -
  obtain ls where "help_lines [] get_all_commands = Some ls" using help_lines_total by blast
  then show "\<exists>r out. cmd_help cmd = Some (r, out)" by (auto simp: cmd_help_def split: option.split)
  show "\<exists>r out. cmd_version cmd = Some (r, out)"
    by (simp add: cmd_version_def lbuf_simps OS_VERSION_def OS_CODENAME_def KERNEL_VERSION_def)
  obtain a n where u: "format_uptime ticks (replicate 64 0, 0) = Some (a, n)" "length a = 64" "n \<le> 28"
    using format_uptime_total [of ticks] by auto
  then show "\<exists>r out. cmd_uptime ticks cmd = Some (r, out)" by (simp add: cmd_uptime_def lbuf_simps)
  show "\<exists>r out. cmd_sysinfo ticks cmd = Some (r, out)" using u
    by (simp add: cmd_sysinfo_def lbuf_simps query_memory_def dec.simps line_str_def arr_prefix_def)
qed

lemma size_kb_room:
  assumes "23 \<le> length t"
  shows "\<exists>u. format_size_kb kb (lbuf s t) = Some (lbuf (s @ u) (drop (length u) t)) \<and> length u \<le> 23"
proof -
  have "\<exists>u. do { b1 \<leftarrow> put_number n (lbuf s t); put_upto (length (fst b1)) (lit unit) b1 }
      = Some (lbuf (s @ u) (drop (length u) t)) \<and> length u \<le> 23" if "length unit = 3" for n unit
    using length_dec_u64 [of n] assms that
    by (intro exI [of _ "dec (unat n) @ lit unit"]) (simp add: room add.commute)
  then show ?thesis by (simp add: format_size_kb_def)
qed

lemma percent_room:
  assumes "24 \<le> length t"
  shows "\<exists>u. put_percent p (lbuf s t) = Some (lbuf (s @ u) (drop (length u) t)) \<and> length u \<le> 24"
  using length_dec_u64 [of p] assms
  by (intro exI [of _ "lit '' ('' @ dec (unat p) @ lit ''%)''"]) (simp add: put_percent_def room add.commute)

lemma memory_bar_total: "\<exists>l. memory_bar used whole = Some l"
proof -
  define used_bars where "used_bars = (if 0 < whole then unat (used * 40 div whole) else 0)"
  have "for_each (\<lambda>i. put (if i < used_bars then 35 else 45)) [0 ..< n] (lbuf s t)
      = Some (lbuf (s @ map (\<lambda>i. if i < used_bars then 35 else 45) [0 ..< n]) (drop n t))" if "n \<le> length t" for n s t
    using that
  proof (induction n)
    case (Suc n)
    then show ?case by (simp add: for_each_append put_lbuf tl_drop drop_Suc)
  qed simp
  from this [of 40] show ?thesis
    by (simp add: memory_bar_def used_bars_def [symmetric] room del: upt.simps)
qed

lemma memory_line_total:
  assumes "length line = 64" and "length title = 11"
  shows "\<exists>l line'. memory_line title kb p line = Some (l, line') \<and> length line' = 64"
proof -
  have l: "put_str (lit title) (line, 0) = Some (lbuf (lit title) (drop 11 line))"
    using put_str_lbuf [of "lit title" line "[]"] assms by (simp add: lbuf_def)
  obtain u where u: "format_size_kb kb (lbuf (lit title) (drop 11 line)) = Some (lbuf (lit title @ u) (drop (length u) (drop 11 line)))"
    "length u \<le> 23" using size_kb_room [of "drop 11 line" kb "lit title"] assms by auto
  show ?thesis
  proof (cases p)
    case None
    with l u assms show ?thesis by (simp add: memory_line_def line_str_lbuf)
  next
    case (Some v)
    have r: "24 \<le> length (drop (length u) (drop 11 line))" using u(2) assms by simp
    obtain w where "put_percent v (lbuf (lit title @ u) (drop (length u) (drop 11 line)))
        = Some (lbuf ((lit title @ u) @ w) (drop (length w) (drop (length u) (drop 11 line))))" "length w \<le> 24"
      using percent_room [OF r, of v "lit title @ u"] by blast
    with Some l u assms show ?thesis by (simp add: memory_line_def line_str_lbuf)
  qed
qed

lemma memory_total: "\<exists>r out. cmd_memory cmd = Some (r, out)"
proof -
  obtain total_kb used_kb free_kb where q: "query_memory = (total_kb, used_kb, free_kb)" by (cases query_memory)
  obtain l1 a1 where 1: "memory_line ''Total:     '' total_kb None (replicate 64 0) = Some (l1, a1)" "length a1 = 64"
    using memory_line_total [of "replicate 64 0" "''Total:     ''" total_kb None] by auto
  obtain l2 a2 where 2: "memory_line ''Used:      '' used_kb (Some (percent_of used_kb total_kb)) a1 = Some (l2, a2)" "length a2 = 64"
    using memory_line_total [OF 1(2), of "''Used:      ''" used_kb "Some (percent_of used_kb total_kb)"] by auto
  obtain l3 a3 where 3: "memory_line ''Free:      '' free_kb (Some (percent_of free_kb total_kb)) a2 = Some (l3, a3)"
    using memory_line_total [OF 2(2), of "''Free:      ''" free_kb "Some (percent_of free_kb total_kb)"] by auto
  obtain bar where "memory_bar used_kb total_kb = Some bar" using memory_bar_total by blast
  with 1 2 3 show ?thesis by (simp only: cmd_memory_def q Let_def prod.case Option.bind.bind_lunit) simp
qed

lemma exec_total:
  assumes "length (args cmd) \<le> 16"
  shows "\<exists>r out. cmd_exec cmd = Some (r, out)"
proof -
  let ?f = "\<lambda>i arr. do { a \<leftarrow> arr_get (args cmd) i; arr_set arr (i - 1) a }"
  have "for_each ?f [1 ..< min (length (args cmd)) 16] (replicate 16 [])
      = Some (fold (\<lambda>i arr. arr[i - 1 := args cmd ! i]) [1 ..< min (length (args cmd)) 16] (replicate 16 []))
    \<and> length (fold (\<lambda>i arr. arr[i - 1 := args cmd ! i]) [1 ..< min (length (args cmd)) 16] (replicate 16 [])) = 16"
    by (rule for_each_fold [where P = "\<lambda>arr. length arr = 16"]) (auto simp: arr_get_def arr_set_def)
  with assms have "\<exists>as. exec_args cmd = Some as" by (auto simp: exec_args_def arr_prefix_def)
  then show ?thesis by (auto simp: cmd_exec_def spawn_process_def split: option.split)
qed

lemma process_commands_total:
  "\<exists>r out. cmd_ps cmd = Some (r, out)" "\<exists>r out. cmd_kill cmd = Some (r, out)" "\<exists>r out. cmd_services cmd = Some (r, out)"
proof -
  show "\<exists>r out. cmd_ps cmd = Some (r, out)"
    by (simp add: cmd_ps_def query_processes_def ps_line_def format_number_dec dec.simps lbuf_simps put_blanks_lbuf)
  show "\<exists>r out. cmd_services cmd = Some (r, out)"
    by (simp add: cmd_services_def query_services_def service_line_def format_number_dec dec.simps lbuf_simps put_blanks_lbuf)
  show "\<exists>r out. cmd_kill cmd = Some (r, out)"
    by (auto simp: cmd_kill_def lbuf_simps split: option.split)
qed

subsection \<open>Paths\<close>

definition cwd_path :: "cwd \<Rightarrow> u8 list" where
  "cwd_path w = take (dir_len w) (dir_bytes w)"

definition cwd_ok :: "cwd \<Rightarrow> bool" where
  "cwd_ok w \<longleftrightarrow> length (dir_bytes w) = 256 \<and> dir_len w \<le> 255 \<and> take 1 (cwd_path w) = [47]"

lemma cwd_ok_new: "cwd_ok cwd_new"
  by (simp add: cwd_ok_def cwd_new_def cwd_path_def)

lemma get_current_dir_ok: "cwd_ok w \<Longrightarrow> get_current_dir w = Some (cwd_path w)"
  by (simp add: cwd_ok_def get_current_dir_def cwd_path_def arr_prefix_def)

lemma set_current_dir_ok:
  assumes "cwd_ok w" and "length path \<le> 255" and "take 1 path = [47]"
  shows "\<exists>w'. set_current_dir path w = Some w' \<and> cwd_ok w' \<and> cwd_path w' = path"
  using assms by (cases path) (simp_all add: set_current_dir_def cwd_ok_def cwd_path_def Let_def)

text \<open>Where a name leads from a directory: the name itself when it is absolute.\<close>

definition join_path :: "u8 list \<Rightarrow> u8 list \<Rightarrow> u8 list" where
  "join_path current target =
     (if take 1 target = [47] then take 255 target
      else let base = take 254 current; base1 = (if last base \<noteq> 47 then base @ [47] else base)
           in base1 @ take (255 - length base1) target)"

lemma arr_get_last: "xs \<noteq> [] \<Longrightarrow> arr_get (xs @ t) (length xs - 1) = Some (last xs)"
  by (cases xs rule: rev_cases) (simp_all add: arr_get_def)

lemma build_path_join:
  assumes "current \<noteq> []"
  shows "\<exists>t. build_path current target = Some (lbuf (join_path current target) t) \<and> length (join_path current target) + length t = 256"
proof (cases "take 1 target = [47]")
  case True
  then show ?thesis
    by (intro exI [of _ "replicate (256 - min 255 (length target)) 0"]) (simp add: build_path_def join_path_def lbuf_simps)
next
  case False
  let ?base = "take 254 current"
  have ne: "?base \<noteq> []" using assms by simp
  have b: "put_upto 254 current (replicate 256 0, 0) = Some (lbuf ?base (replicate (256 - length ?base) 0))"
    by (simp add: lbuf_simps min.commute)
  have l: "arr_get (fst (lbuf ?base t)) (length ?base - 1) = Some (last ?base)" for t
    using arr_get_last [OF ne] by simp
  have p: "0 < length ?base" using ne by simp
  show ?thesis
  proof (cases "last ?base = 47")
    case True
    then show ?thesis using False p
      by (simp only: build_path_def if_False b Option.bind.bind_lunit lbuf_fields(1) if_True l)
        (simp add: put_upto_lbuf join_path_def Let_def, intro exI conjI, rule refl, simp)
  next
    case neq: False
    then show ?thesis using False p
      by (simp only: build_path_def if_False b Option.bind.bind_lunit lbuf_fields(1) if_True l)
        (simp add: put_lbuf put_upto_lbuf join_path_def Let_def, intro exI conjI, rule refl, simp)
  qed
qed

lemma join_path_ok:
  assumes "take 1 current = [47]"
  shows "take 1 (join_path current target) = [47]" "length (join_path current target) \<le> 255"
proof -
  have c: "current \<noteq> []" "take 1 (take 254 current) = [47]" using assms by (auto simp: min_def)
  then show "take 1 (join_path current target) = [47]"
    by (cases current) (auto simp: join_path_def Let_def take_Cons' split: if_splits)
  show "length (join_path current target) \<le> 255" by (auto simp: join_path_def Let_def)
qed

lemma fold_last_index:
  "fold (\<lambda>i r. if P i then i else r) is r \<in> insert r {i \<in> set is. P i}"
proof (induction "is" arbitrary: r)
  case (Cons a as)
  from Cons.IH [of a] Cons.IH [of r] show ?case by (cases "P a") auto
qed simp

lemma last_slash_less: "1 < length p \<Longrightarrow> last_slash p < length p"
  using fold_last_index [of "\<lambda>i. p ! i = 47" "[0 ..< length p - 1]" 0] by (auto simp: last_slash_def)

lemma fold_none: "\<forall>i \<in> set is. \<not> P i \<Longrightarrow> fold (\<lambda>i r. if P i then i else r) is r = r"
  by (induction "is") auto

lemma last_slash_name:
  assumes "47 \<notin> set name" and "name \<noteq> []"
  shows "last_slash (p @ 47 # name) = length p"
proof -
  let ?q = "p @ 47 # name" and ?f = "\<lambda>i r. if (p @ 47 # name) ! i = 47 then i else r"
  have s: "[0 ..< length p + length name] = [0 ..< length p] @ [length p] @ [Suc (length p) ..< length p + length name]"
    using assms(2) upt_split [of 0 "length p" "length p + length name"] by (simp add: upt_conv_Cons)
  have "fold ?f [Suc (length p) ..< length p + length name] r = r" for r
  proof (rule fold_none, rule ballI)
    fix i assume "i \<in> set [Suc (length p) ..< length p + length name]"
    then have i: "Suc (length p) \<le> i" "i - Suc (length p) < length name" by auto
    then have "?q ! i = name ! (i - Suc (length p))" by (simp add: nth_append nth_Cons')
    with i(2) assms(1) show "?q ! i \<noteq> 47" by (metis nth_mem)
  qed
  then show ?thesis by (simp add: last_slash_def s)
qed

lemma cd_up_ok:
  assumes "cwd_ok w"
  shows "\<exists>w'. cd_up w = Some w' \<and> cwd_ok w'"
proof -
  let ?p = "cwd_path w"
  have p: "take 1 ?p = [47]" "length ?p \<le> 255" using assms by (simp_all add: cwd_ok_def) (simp add: cwd_path_def)
  then have ne: "?p \<noteq> []" by auto
  show ?thesis
  proof (cases "?p = [47] \<or> last_slash ?p = 0")
    case True
    with set_current_dir_ok [OF assms, of "[47]"] assms ne show ?thesis
      by (auto simp: cd_up_def get_current_dir_ok Let_def)
  next
    case False
    with p(1) ne have "1 < length ?p" by (cases ?p) auto
    from last_slash_less [OF this] have l: "last_slash ?p < length ?p" .
    moreover have "take 1 (take (last_slash ?p) ?p) = [47]" using False p(1) by (simp add: min_def)
    ultimately show ?thesis using False p ne set_current_dir_ok [OF assms, of "take (last_slash ?p) ?p"]
      by (auto simp: cd_up_def get_current_dir_ok [OF assms] Let_def arr_prefix_def)
  qed
qed

text \<open>The path left after the trailing slash is removed.\<close>

definition strip_slash :: "u8 list \<Rightarrow> u8 list" where
  "strip_slash p = (if 1 < length p \<and> last p = 47 then butlast p else p)"

lemma cmd_cd_path:
  assumes "cwd_ok w" and "arg cmd 0 = Some target" and "target \<notin> {''~'', ''/'', ''..'', ''.''}"
  shows "\<exists>w'. cmd_cd w cmd = Some w' \<and> cwd_ok w' \<and> cwd_path w' = strip_slash (join_path (cwd_path w) (lit target))"
proof -
  let ?p = "cwd_path w" and ?j = "join_path (cwd_path w) (lit target)"
  have p: "take 1 ?p = [47]" "?p \<noteq> []" using assms(1) by (auto simp: cwd_ok_def)
  obtain t where t: "build_path ?p (lit target) = Some (?j @ t, length ?j)" "length ?j + length t = 256"
    using build_path_join [OF p(2), of "lit target"] by (auto simp: lbuf_def)
  note j = join_path_ok [OF p(1), of "lit target"]
  from j(1) have ne: "?j \<noteq> []" by auto
  have "take 1 (strip_slash ?j) = [47]" using j(1) by (cases ?j) (auto simp: strip_slash_def neq_Nil_conv)
  moreover have "length (strip_slash ?j) \<le> 255" using j(2) by (auto simp: strip_slash_def)
  moreover have "cmd_cd w cmd = set_current_dir (strip_slash ?j) w"
    using assms t j(2) arr_get_last [OF ne, of t] diff_le_self [of "length ?j" 1, THEN order_trans [of _ _ 256]]
    by (simp add: cmd_cd_def get_current_dir_ok strip_slash_def arr_prefix_def butlast_conv_take)
  ultimately show ?thesis using set_current_dir_ok [OF assms(1), of "strip_slash ?j"] by simp
qed

lemma cmd_cd_total: "cwd_ok w \<Longrightarrow> \<exists>w'. cmd_cd w cmd = Some w' \<and> cwd_ok w'"
proof -
  assume w: "cwd_ok w"
  have root: "\<exists>w'. set_current_dir [47] w = Some w' \<and> cwd_ok w'" using set_current_dir_ok [OF w, of "[47]"] by auto
  show ?thesis
  proof (cases "arg cmd 0")
    case (Some target)
    then show ?thesis
      using root cd_up_ok [OF w] cmd_cd_path [OF w Some] w
      by (cases "target \<in> {''~'', ''/'', ''..'', ''.''}") (auto simp: cmd_cd_def)
  qed (use root in \<open>simp add: cmd_cd_def\<close>)
qed

lemma ls_lines_total: "\<exists>ls. map_opt (ls_line long) (filter P (list_directory path)) = Some ls"
proof -
  have "\<exists>l. ls_line long e = Some l" if "e \<in> set (list_directory path)" for e
    using that by (cases long) (auto simp: list_directory_def ls_line_def room)
  then have "map_opt (ls_line long) (filter P (list_directory path))
      = Some (map (\<lambda>e. the (ls_line long e)) (filter P (list_directory path)))"
    by (intro map_opt_Some) fastforce
  then show ?thesis by blast
qed

lemma filesystem_commands_total:
  assumes "cwd_ok w"
  shows "\<exists>r out. cmd_ls w cmd = Some (r, out)" "\<exists>r out. cmd_pwd w cmd = Some (r, out)"
    "\<exists>r out. cmd_cat w cmd = Some (r, out)" "\<exists>r out. cmd_tree w cmd = Some (r, out)"
proof -
  note dir = get_current_dir_ok [OF assms]
  have ne: "cwd_path w \<noteq> []" using assms by (auto simp: cwd_ok_def)
  show "\<exists>r out. cmd_ls w cmd = Some (r, out)"
  proof -
    let ?path = "case arg cmd 0 of Some p \<Rightarrow> lit p | None \<Rightarrow> cwd_path w"
    obtain ls where "map_opt (ls_line (has_flag cmd ''-l'' ''--long''))
        (filter (\<lambda>(name, _). \<not> (\<not> has_flag cmd ''-a'' ''--all'' \<and> starts_with name ''.'')) (list_directory ?path)) = Some ls"
      using ls_lines_total by blast
    then show ?thesis by (simp add: cmd_ls_def dir Let_def room)
  qed
  show "\<exists>r out. cmd_pwd w cmd = Some (r, out)" by (simp add: cmd_pwd_def dir)
  show "\<exists>r out. cmd_tree w cmd = Some (r, out)"
    by (simp add: cmd_tree_def dir Let_def list_directory_def tree_line_def room)
  show "\<exists>r out. cmd_cat w cmd = Some (r, out)"
  proof (cases "arg cmd 0")
    case (Some f)
    from build_path_join [OF ne, of "lit f"] show ?thesis
      using Some by (auto simp: cmd_cat_def dir read_file_def line_str_lbuf)
  qed (simp add: cmd_cat_def)
qed

lemma echo_steps:
  assumes "k \<le> length (args cmd)"
  shows "\<exists>s t. for_each (echo_step cmd) [0 ..< k] (replicate 256 0, 0) = Some (lbuf s t) \<and> length s + length t = 256"
  using assms
proof (induction k)
  case (Suc k)
  then obtain s t where st: "for_each (echo_step cmd) [0 ..< k] (replicate 256 0, 0) = Some (lbuf s t)" "length s + length t = 256"
    by auto
  have "\<exists>s1 t1. (if 0 < k \<and> snd (lbuf s t) < 256 then put 32 (lbuf s t) else Some (lbuf s t)) = Some (lbuf s1 t1)
      \<and> length s1 + length t1 = 256"
  proof (cases "0 < k \<and> length s < 256")
    case True
    with st(2) have "0 < length t" by linarith
    moreover from this st(2) have "length (s @ [32]) + length (tl t) = 256" by (cases t) simp_all
    ultimately show ?thesis using True by (simp only: put_lbuf lbuf_fields if_True simp_thms) blast
  qed (use st(2) in auto)
  then obtain s1 t1 where "(if 0 < k \<and> snd (lbuf s t) < 256 then put 32 (lbuf s t) else Some (lbuf s t)) = Some (lbuf s1 t1)"
    "length s1 + length t1 = 256" by blast
  with st Suc.prems have "\<exists>s2 t2. echo_step cmd k (lbuf s t) = Some (lbuf s2 t2) \<and> length s2 + length t2 = 256"
    by (simp only: echo_step_def Option.bind.bind_lunit)
      (simp add: arr_get_def put_upto_lbuf, intro exI conjI, rule refl, simp)
  with st show ?case by (auto simp: for_each_append) blast
qed (intro exI, simp add: lbuf_simps, rule conjI, rule refl, simp)

lemma echo_total: "\<exists>r out. cmd_echo cmd = Some (r, out)"
  using echo_steps [of "length (args cmd)" cmd] by (auto simp: cmd_echo_def line_str_lbuf)

definition returns :: "(command_result \<times> printed list \<times> cwd) option \<Rightarrow> bool" where
  "returns m \<longleftrightarrow> (\<exists>r out w'. m = Some (r, out, w') \<and> cwd_ok w')"

lemma returns_if: "returns a \<Longrightarrow> returns b \<Longrightarrow> returns (if c then a else b)"
  by simp

lemma returns_keep: "cwd_ok w \<Longrightarrow> \<exists>r out. m = Some (r, out) \<Longrightarrow> returns (map_option (\<lambda>(r, out). (r, out, w)) m)"
  by (auto simp: returns_def)

lemma returns_Some: "cwd_ok w \<Longrightarrow> returns (Some (r, out, w))"
  by (simp add: returns_def)

lemma execute_total:
  assumes "length (args cmd) \<le> 16" and "cwd_ok w"
  shows "returns (execute ticks cmd w)"
proof -
  have cd: "returns (map_option (\<lambda>w'. (CmdOk, [], w')) (cmd_cd w cmd))"
    using cmd_cd_total [OF assms(2), of cmd] by (auto simp: returns_def)
  have s: "\<exists>r out. cmd_log cmd = Some (r, out)" "\<exists>r out. cmd_ports cmd = Some (r, out)" "\<exists>r out. cmd_caps cmd = Some (r, out)"
    by (simp_all add: cmd_log_def cmd_ports_def cmd_caps_def)
  show ?thesis unfolding execute_def Let_def
    by (intro returns_if cd returns_keep [OF assms(2)] returns_Some [OF assms(2)] system_commands_total date_total
        process_commands_total memory_total exec_total [OF assms(1)] filesystem_commands_total [OF assms(2)] echo_total s)
qed

text \<open>
  No built-in command panics: whatever the command word and its arguments, up to the
  sixteen the parser passes, whatever the clock says and in whatever directory, every command
  builds its lines inside its buffers and returns, and the current directory stays an
  absolute path that fits its array.
\<close>

lemma commands_never_panic:
  assumes "length (args cmd) \<le> 16" and "cwd_ok w"
  shows "\<exists>r out w'. execute ticks cmd w = Some (r, out, w') \<and> cwd_ok w'"
  using execute_total [OF assms] by (simp only: returns_def)

text \<open>
  Going down and up again: from a directory without a trailing slash, \<open>cd name\<close> for a
  plain name that fits leads to the directory of that name below it, and \<open>cd ..\<close> then leads
  back to where it started.
\<close>

lemma cd_down_and_up:
  assumes "cwd_ok w" and "cwd_path w = [47] \<or> last (cwd_path w) \<noteq> 47"
    and "name \<noteq> []" and "name \<notin> {''~'', ''..'', ''.''}" and "47 \<notin> set (lit name)"
    and "length (cwd_path w) + 1 + length name \<le> 255"
  shows "\<exists>w1 w2. cmd_cd w \<lparr>command = ''cd'', args = [name]\<rparr> = Some w1
    \<and> cwd_path w1 = (if cwd_path w = [47] then [] else cwd_path w) @ [47] @ lit name
    \<and> cmd_cd w1 \<lparr>command = ''cd'', args = [''..'']\<rparr> = Some w2 \<and> cwd_path w2 = cwd_path w"
proof -
  let ?p = "cwd_path w" and ?b = "(if cwd_path w = [47] then [] else cwd_path w)"
  let ?cmd = "\<lparr>command = ''cd'', args = [name]\<rparr>"
  have p: "take 1 ?p = [47]" "?p \<noteq> []" using assms(1) by (auto simp: cwd_ok_def)
  have ln: "lit name \<noteq> []" using assms(3) by (simp add: str_bytes_def)
  have na: "take 1 (lit name) \<noteq> [47]" using assms(5) ln by (cases "lit name") auto
  have "name \<noteq> ''/''" using assms(5) by (auto simp: str_bytes_def)
  have tk: "take 254 ?p = ?p" using assms(6) by simp
  have j: "join_path ?p (lit name) = ?b @ [47] @ lit name"
    using assms(2,6) na p by (auto simp: join_path_def Let_def tk)
  have "last (?b @ [47] @ lit name) \<noteq> 47" using ln assms(5) last_in_set [OF ln] by (metis append_is_Nil_conv last_appendR)
  then have st: "strip_slash (?b @ [47] @ lit name) = ?b @ [47] @ lit name" by (simp add: strip_slash_def)
  obtain w1 where w1: "cmd_cd w ?cmd = Some w1" "cwd_ok w1" "cwd_path w1 = ?b @ [47] @ lit name"
    using cmd_cd_path [OF assms(1), of ?cmd name] assms(4) \<open>name \<noteq> ''/''\<close> j st by (auto simp: arg_def)
  have sl: "last_slash (?b @ [47] @ lit name) = length ?b" using last_slash_name [OF assms(5) ln, of ?b] by simp
  have "\<exists>w2. cd_up w1 = Some w2 \<and> cwd_path w2 = ?p"
  proof (cases "?p = [47]")
    case True
    with set_current_dir_ok [OF w1(2), of "[47]"] ln show ?thesis
      using sl by (auto simp: cd_up_def get_current_dir_ok [OF w1(2)] w1(3) Let_def)
  next
    case False
    moreover from p ln have "?p @ 47 # lit name \<noteq> [47]" by (cases ?p) auto
    ultimately show ?thesis using set_current_dir_ok [OF w1(2), of ?p] p sl assms(6)
      by (auto simp: cd_up_def get_current_dir_ok [OF w1(2)] w1(3) Let_def arr_prefix_def)
  qed
  then obtain w2 where "cd_up w1 = Some w2" "cwd_path w2 = ?p" by blast
  with w1 show ?thesis by (auto simp: cmd_cd_def [of w1] arg_def)
qed

text \<open>A name of slashes only leaves a trailing slash in the directory.\<close>

lemma cd_slashes: "map_option cwd_path (cmd_cd cwd_new \<lparr>command = ''cd'', args = [''///'']\<rparr>) = Some (lit ''//'')"
proof -
  let ?cmd = "\<lparr>command = ''cd'', args = [''///'']\<rparr>"
  from cmd_cd_path [OF cwd_ok_new, of ?cmd "''///''"] obtain w' where
    "cmd_cd cwd_new ?cmd = Some w'" "cwd_path w' = strip_slash (join_path (cwd_path cwd_new) (lit ''///''))" by (auto simp: arg_def)
  then show ?thesis by (simp add: join_path_def strip_slash_def str_bytes_def)
qed

end
