(* ===== verification/Capability.thy ===== *)
theory Capability
  imports BTree_Map
begin

text \<open>
  The data of the capability system, \<^verbatim>\<open>kernel/src/cap.rs\<close>: permission bit sets, resource
  types, capabilities with their derivation links, and the per-thread capability table.
  The global manager that spans threads is in \<^verbatim>\<open>Cap_Manager\<close>.
\<close>

section \<open>Identifiers\<close>

text \<open>
  \<open>CapHandle\<close> and \<open>ThreadId\<close> are newtypes over \<open>u64\<close> whose derived order is the order of
  the numbers. \<open>CapHandle::new\<close> takes the next value of a static atomic counter, which
  the model passes in and out.
\<close>

type_synonym cap_handle = u64
type_synonym thread_id = u64

definition cap_handle_new :: "u64 \<Rightarrow> cap_handle \<times> u64" where
  "cap_handle_new next_handle = (next_handle, next_handle + 1)"

section \<open>Permissions\<close>

datatype cap_permissions = CapPermissions (perm_bits: u32)

definition PERM_NONE :: cap_permissions where "PERM_NONE = CapPermissions 0"
definition PERM_READ :: cap_permissions where "PERM_READ = CapPermissions (push_bit 0 1)"
definition PERM_WRITE :: cap_permissions where "PERM_WRITE = CapPermissions (push_bit 1 1)"
definition PERM_EXECUTE :: cap_permissions where "PERM_EXECUTE = CapPermissions (push_bit 2 1)"
definition PERM_GRANT :: cap_permissions where "PERM_GRANT = CapPermissions (push_bit 3 1)"
definition PERM_REVOKE :: cap_permissions where "PERM_REVOKE = CapPermissions (push_bit 4 1)"
definition PERM_ALL :: cap_permissions where "PERM_ALL = CapPermissions 0xFFFFFFFF"

lemmas perm_consts = PERM_NONE_def PERM_READ_def PERM_WRITE_def PERM_EXECUTE_def
  PERM_GRANT_def PERM_REVOKE_def PERM_ALL_def

definition perm_contains :: "cap_permissions \<Rightarrow> cap_permissions \<Rightarrow> bool" where
  "perm_contains self other \<longleftrightarrow> (perm_bits self AND perm_bits other) = perm_bits other"

definition perm_union :: "cap_permissions \<Rightarrow> cap_permissions \<Rightarrow> cap_permissions" where
  "perm_union self other = CapPermissions (perm_bits self OR perm_bits other)"

definition perm_intersection :: "cap_permissions \<Rightarrow> cap_permissions \<Rightarrow> cap_permissions" where
  "perm_intersection self other = CapPermissions (perm_bits self AND perm_bits other)"

definition perm_is_subset_of :: "cap_permissions \<Rightarrow> cap_permissions \<Rightarrow> bool" where
  "perm_is_subset_of self other \<longleftrightarrow> (perm_bits self AND NOT (perm_bits other)) = 0"

text \<open>The abstract view: the set of bit positions that are set.\<close>

definition perm_set :: "cap_permissions \<Rightarrow> nat set" where
  "perm_set p = {n. bit (perm_bits p) n}"

lemma perm_set_union [simp]: "perm_set (perm_union p q) = perm_set p \<union> perm_set q"
  by (auto simp: perm_set_def perm_union_def bit_or_iff)

lemma perm_set_intersection [simp]: "perm_set (perm_intersection p q) = perm_set p \<inter> perm_set q"
  by (auto simp: perm_set_def perm_intersection_def bit_and_iff)

lemma perm_subset_iff: "perm_is_subset_of p q \<longleftrightarrow> perm_set p \<subseteq> perm_set q"
proof
  assume "perm_is_subset_of p q"
  then have "\<And>n. \<not> bit (perm_bits p AND NOT (perm_bits q)) n"
    by (simp add: perm_is_subset_of_def)
  moreover have "n < 32" if "bit (perm_bits p) n" for n
    using bit_imp_le_length [OF that] by simp
  ultimately show "perm_set p \<subseteq> perm_set q"
    by (auto simp: perm_set_def bit_and_iff bit_not_iff)
next
  assume "perm_set p \<subseteq> perm_set q"
  then show "perm_is_subset_of p q"
    by (auto simp: perm_is_subset_of_def perm_set_def bit_and_iff bit_not_iff intro!: bit_word_eqI)
qed

lemma perm_contains_iff: "perm_contains p q \<longleftrightarrow> perm_set q \<subseteq> perm_set p"
proof
  assume "perm_contains p q"
  then have "\<And>n. bit (perm_bits p AND perm_bits q) n = bit (perm_bits q) n"
    by (simp add: perm_contains_def)
  then show "perm_set q \<subseteq> perm_set p"
    by (auto simp: perm_set_def bit_and_iff)
next
  assume "perm_set q \<subseteq> perm_set p"
  then show "perm_contains p q"
    by (auto simp: perm_contains_def perm_set_def bit_and_iff intro!: bit_word_eqI)
qed

lemma perm_subset_refl [simp]: "perm_is_subset_of p p"
  by (simp add: perm_subset_iff)

lemma perm_subset_trans:
  "perm_is_subset_of p q \<Longrightarrow> perm_is_subset_of q r \<Longrightarrow> perm_is_subset_of p r"
  by (auto simp: perm_subset_iff)

section \<open>Resources and errors\<close>

datatype resource_type =
    ResThread thread_id
  | ResMemoryRegion (mr_virt: u64) (mr_phys: u64) (mr_size: usize)
  | ResIpcPort (ipc_port_id: u64)
  | ResIrq (irq_num: u8)
  | ResDevice (dev_bdf: u16)
  | ResDmaBuffer (dma_phys: u64) (dma_size: usize)
  | ResSharedMemoryRegion (shm_region_id: u64)

datatype cap_error =
    CapNotFound
  | CapPermissionDenied
  | CapInvalidHandle
  | CapAlreadyExists
  | CapWrongResourceType
  | CapNotOwner

section \<open>Capabilities\<close>

record capability =
  c_handle :: cap_handle
  c_resource :: resource_type
  c_permissions :: cap_permissions
  c_owner :: thread_id
  c_parent :: "cap_handle option"
  c_children :: "cap_handle list"

definition capability_new_root ::
  "u64 \<Rightarrow> resource_type \<Rightarrow> thread_id \<Rightarrow> cap_permissions \<Rightarrow> capability \<times> u64" where
  "capability_new_root next_handle resource owner perms =
     (let (h, next_handle') = cap_handle_new next_handle in
      (\<lparr>c_handle = h, c_resource = resource, c_permissions = perms, c_owner = owner,
        c_parent = None, c_children = []\<rparr>, next_handle'))"

text \<open>
  \<open>derive\<close> mutates the parent (it pushes the child's handle) and returns the child: the
  result is the updated parent, the child and the counter.
\<close>

definition capability_derive ::
  "u64 \<Rightarrow> capability \<Rightarrow> thread_id \<Rightarrow> cap_permissions \<Rightarrow> cap_error + capability \<times> capability \<times> u64" where
  "capability_derive next_handle self new_owner reduced =
     (if \<not> perm_is_subset_of reduced (c_permissions self) then Inl CapPermissionDenied
      else
        let (child_handle, next_handle') = cap_handle_new next_handle in
        Inr (self\<lparr>c_children := c_children self @ [child_handle]\<rparr>,
             \<lparr>c_handle = child_handle, c_resource = c_resource self, c_permissions = reduced,
              c_owner = new_owner, c_parent = Some (c_handle self), c_children = []\<rparr>,
             next_handle'))"

definition has_permission :: "capability \<Rightarrow> cap_permissions \<Rightarrow> bool" where
  "has_permission cap perm \<longleftrightarrow> perm_contains (c_permissions cap) perm"

definition is_owned_by :: "capability \<Rightarrow> thread_id \<Rightarrow> bool" where
  "is_owned_by cap tid \<longleftrightarrow> c_owner cap = tid"

section \<open>The capability table of a thread\<close>

record cap_table =
  ct_caps :: "(cap_handle, capability) btree"
  ct_owner :: thread_id

definition cap_table_new :: "thread_id \<Rightarrow> cap_table" where
  "cap_table_new owner = \<lparr>ct_caps = bt_empty, ct_owner = owner\<rparr>"

definition cap_table_insert :: "capability \<Rightarrow> cap_table \<Rightarrow> (cap_error + cap_handle) \<times> cap_table" where
  "cap_table_insert cap tab =
     (if bt_contains (ct_caps tab) (c_handle cap) then (Inl CapAlreadyExists, tab)
      else (Inr (c_handle cap), tab\<lparr>ct_caps := bt_insert (c_handle cap) cap (ct_caps tab)\<rparr>))"

definition cap_table_get :: "cap_table \<Rightarrow> cap_handle \<Rightarrow> capability option" where
  "cap_table_get tab h = bt_get (ct_caps tab) h"

definition cap_table_remove :: "cap_handle \<Rightarrow> cap_table \<Rightarrow> capability option \<times> cap_table" where
  "cap_table_remove h tab = (bt_get (ct_caps tab) h, tab\<lparr>ct_caps := bt_remove h (ct_caps tab)\<rparr>)"

definition cap_table_contains :: "cap_table \<Rightarrow> cap_handle \<Rightarrow> bool" where
  "cap_table_contains tab h \<longleftrightarrow> bt_contains (ct_caps tab) h"

definition cap_table_validate ::
  "cap_table \<Rightarrow> cap_handle \<Rightarrow> cap_permissions \<Rightarrow> cap_error + capability" where
  "cap_table_validate tab h required =
     (case cap_table_get tab h of
        None \<Rightarrow> Inl CapNotFound
      | Some cap \<Rightarrow> if \<not> has_permission cap required then Inl CapPermissionDenied else Inr cap)"

definition cap_table_list :: "cap_table \<Rightarrow> cap_handle list" where
  "cap_table_list tab = bt_keys (ct_caps tab)"

definition cap_table_count :: "cap_table \<Rightarrow> nat" where
  "cap_table_count tab = bt_len (ct_caps tab)"

lemma cap_table_get_insert:
  "cap_table_insert cap tab = (Inr h, tab') \<Longrightarrow>
   h = c_handle cap \<and> cap_table_get tab h = None \<and>
   cap_table_get tab' = (cap_table_get tab)(h \<mapsto> cap)"
  by (auto simp: cap_table_insert_def cap_table_get_def bt_contains_def split: if_splits)

lemma cap_table_insert_Inl:
  "cap_table_insert cap tab = (Inl e, tab') \<Longrightarrow> tab' = tab"
  by (auto simp: cap_table_insert_def split: if_splits)

lemma cap_table_get_remove [simp]:
  "cap_table_get (snd (cap_table_remove h tab)) = (cap_table_get tab)(h := None)"
  by (auto simp: cap_table_remove_def cap_table_get_def)

lemma cap_table_get_new [simp]: "cap_table_get (cap_table_new t) h = None"
  by (simp add: cap_table_get_def cap_table_new_def)

lemma cap_table_contains_get: "cap_table_contains tab h \<longleftrightarrow> cap_table_get tab h \<noteq> None"
  by (simp add: cap_table_contains_def cap_table_get_def bt_contains_def)

end
