(* ===== verification/Threads.thy ===== *)
theory Threads
  imports Capability Pmm
begin

text \<open>
  Threads, \<^verbatim>\<open>kernel/src/thread.rs\<close> and \<^verbatim>\<open>kernel/src/interrupts/switch.asm\<close>: the thread control
  block, the CPU context, the global thread list (a \<open>Vec\<close> searched by id, first match
  wins), the capability operations of the list, and the context switch. Logging has no
  counterpart; \<open>log_panic!\<close> only logs (\<^verbatim>\<open>log.rs\<close>), so a check whose failure branch only
  logs has no effect on the state.
\<close>

section \<open>Thread states, priorities and contexts\<close>

datatype thread_state = Running | Ready | Blocked | Exited

datatype thread_priority = PrioIdle | PrioLow | PrioNormal | PrioHigh

text \<open>The discriminants, and the derived order, which is the order of the discriminants.\<close>

fun prio_index :: "thread_priority \<Rightarrow> nat" where
  "prio_index PrioIdle = 0"
| "prio_index PrioLow = 1"
| "prio_index PrioNormal = 2"
| "prio_index PrioHigh = 3"

lemma prio_index_inj [simp]: "prio_index p = prio_index q \<longleftrightarrow> p = q"
  by (cases p; cases q) simp_all

lemma prio_index_less4 [simp]: "prio_index p < 4"
  by (cases p) simp_all

instantiation thread_priority :: linorder
begin

definition less_eq_thread_priority :: "thread_priority \<Rightarrow> thread_priority \<Rightarrow> bool" where
  "less_eq_thread_priority p q \<longleftrightarrow> prio_index p \<le> prio_index q"

definition less_thread_priority :: "thread_priority \<Rightarrow> thread_priority \<Rightarrow> bool" where
  "less_thread_priority p q \<longleftrightarrow> prio_index p < prio_index q"

instance
  by standard (auto simp: less_eq_thread_priority_def less_thread_priority_def)

end

record cpu_context =
  reg_rax :: u64
  reg_rbx :: u64
  reg_rcx :: u64
  reg_rdx :: u64
  reg_rsi :: u64
  reg_rdi :: u64
  reg_rbp :: u64
  reg_rsp :: u64
  reg_r8 :: u64
  reg_r9 :: u64
  reg_r10 :: u64
  reg_r11 :: u64
  reg_r12 :: u64
  reg_r13 :: u64
  reg_r14 :: u64
  reg_r15 :: u64
  reg_rip :: u64
  reg_rflags :: u64
  reg_cs :: u16
  reg_ss :: u16
  reg_ds :: u16
  reg_es :: u16
  reg_fs :: u16
  reg_gs :: u16
  reg_cr3 :: u64

abbreviation KERNEL_CODE_SELECTOR :: u16 where "KERNEL_CODE_SELECTOR \<equiv> 0x08"
abbreviation KERNEL_DATA_SELECTOR :: u16 where "KERNEL_DATA_SELECTOR \<equiv> 0x10"
abbreviation USER_CODE_SELECTOR :: u16 where "USER_CODE_SELECTOR \<equiv> 0x1B"
abbreviation USER_DATA_SELECTOR :: u16 where "USER_DATA_SELECTOR \<equiv> 0x23"

definition context_zero :: cpu_context where
  "context_zero = \<lparr>reg_rax = 0, reg_rbx = 0, reg_rcx = 0, reg_rdx = 0, reg_rsi = 0, reg_rdi = 0, reg_rbp = 0, reg_rsp = 0,
     reg_r8 = 0, reg_r9 = 0, reg_r10 = 0, reg_r11 = 0, reg_r12 = 0, reg_r13 = 0, reg_r14 = 0, reg_r15 = 0, reg_rip = 0, reg_rflags = 0,
     reg_cs = 0, reg_ss = 0, reg_ds = 0, reg_es = 0, reg_fs = 0, reg_gs = 0, reg_cr3 = 0\<rparr>"

definition context_new :: "u64 \<Rightarrow> u64 \<Rightarrow> u64 \<Rightarrow> cpu_context" where
  "context_new entry_point stack_pointer page_table =
     \<lparr>reg_rax = 0, reg_rbx = 0, reg_rcx = 0, reg_rdx = 0, reg_rsi = 0, reg_rdi = 0, reg_rbp = 0, reg_rsp = stack_pointer,
      reg_r8 = 0, reg_r9 = 0, reg_r10 = 0, reg_r11 = 0, reg_r12 = 0, reg_r13 = 0, reg_r14 = 0, reg_r15 = 0,
      reg_rip = entry_point, reg_rflags = 0x200,
      reg_cs = 0x08, reg_ss = 0x10, reg_ds = 0x10, reg_es = 0x10, reg_fs = 0x10, reg_gs = 0x10, reg_cr3 = page_table\<rparr>"

definition context_new_kernel :: "u64 \<Rightarrow> u64 \<Rightarrow> u64 \<Rightarrow> cpu_context" where
  "context_new_kernel cr3_now entry_point kernel_stack = context_new entry_point kernel_stack cr3_now"

definition context_new_user :: "u64 \<Rightarrow> u64 \<Rightarrow> u64 \<Rightarrow> cpu_context" where
  "context_new_user entry_point user_stack page_table =
     \<lparr>reg_rax = 0, reg_rbx = 0, reg_rcx = 0, reg_rdx = 0, reg_rsi = 0, reg_rdi = 0, reg_rbp = 0, reg_rsp = user_stack - 16,
      reg_r8 = 0, reg_r9 = 0, reg_r10 = 0, reg_r11 = 0, reg_r12 = 0, reg_r13 = 0, reg_r14 = 0, reg_r15 = 0,
      reg_rip = entry_point, reg_rflags = 0x202,
      reg_cs = USER_CODE_SELECTOR, reg_ss = USER_DATA_SELECTOR, reg_ds = USER_DATA_SELECTOR,
      reg_es = USER_DATA_SELECTOR, reg_fs = USER_DATA_SELECTOR, reg_gs = USER_DATA_SELECTOR, reg_cr3 = page_table\<rparr>"

section \<open>Threads\<close>

record thread =
  t_id :: thread_id
  t_state :: thread_state
  t_context :: cpu_context
  t_kernel_stack :: u64
  t_kernel_stack_size :: usize
  t_address_space :: u64
  t_priority :: thread_priority
  t_name :: string
  t_caps :: cap_table

definition thread_id_new :: "u64 \<Rightarrow> thread_id \<times> u64" where
  "thread_id_new next_id = (next_id, next_id + 1)"

text \<open>
  Kernel stacks are 8-byte aligned, so the canary at the lowest address of the stack is
  one quadword of physical memory (the kernel runs identity mapped).
\<close>

definition ram_read_u64 :: "u64 \<Rightarrow> 'a ram_scheme \<Rightarrow> u64" where
  "ram_read_u64 addr r = ram_mem r (align_down addr) (unat (addr mod PAGE_SIZE) div 8)"

definition ram_write_u64 :: "u64 \<Rightarrow> u64 \<Rightarrow> 'a ram_scheme \<Rightarrow> 'a ram_scheme" where
  "ram_write_u64 addr v r =
     r\<lparr>ram_mem := (ram_mem r)(align_down addr :=
         (ram_mem r (align_down addr))(unat (addr mod PAGE_SIZE) div 8 := v))\<rparr>"

definition STACK_CANARY :: u64 where
  "STACK_CANARY = 0xDEADBEEFCAFEBABE"

definition thread_new ::
  "u64 \<Rightarrow> u64 \<Rightarrow> u64 \<Rightarrow> usize \<Rightarrow> u64 \<Rightarrow> thread_priority \<Rightarrow> string \<Rightarrow> 'a ram_scheme
   \<Rightarrow> thread \<times> u64 \<times> 'a ram_scheme" where
  "thread_new next_id entry_point kernel_stack kernel_stack_size address_space priority name r =
     (let (i, next_id') = thread_id_new next_id;
          bottom = kernel_stack - kernel_stack_size
      in (\<lparr>t_id = i, t_state = Ready,
           t_context = context_new entry_point kernel_stack address_space,
           t_kernel_stack = kernel_stack, t_kernel_stack_size = kernel_stack_size,
           t_address_space = address_space, t_priority = priority, t_name = name,
           t_caps = cap_table_new i\<rparr>,
          next_id', ram_write_u64 bottom STACK_CANARY r))"

definition thread_new_idle ::
  "u64 \<Rightarrow> u64 \<Rightarrow> u64 \<Rightarrow> usize \<Rightarrow> 'a ram_scheme \<Rightarrow> thread \<times> u64 \<times> 'a ram_scheme" where
  "thread_new_idle next_id entry_point kernel_stack kernel_stack_size r =
     thread_new next_id entry_point kernel_stack kernel_stack_size 0 PrioIdle ''idle'' r"

definition validate_stack :: "thread \<Rightarrow> 'a ram_scheme \<Rightarrow> bool" where
  "validate_stack t r \<longleftrightarrow> ram_read_u64 (t_kernel_stack t - t_kernel_stack_size t) r = STACK_CANARY"

definition is_runnable :: "thread \<Rightarrow> bool" where
  "is_runnable t \<longleftrightarrow> (case t_state t of Ready \<Rightarrow> True | Running \<Rightarrow> True | _ \<Rightarrow> False)"

section \<open>The thread list\<close>

type_synonym thread_list = "thread list"

definition find_tcb :: "thread_id \<Rightarrow> thread_list \<Rightarrow> thread option" where
  "find_tcb i ts = find (\<lambda>t. t_id t = i) ts"

definition update_tcb :: "thread_id \<Rightarrow> (thread \<Rightarrow> thread) \<Rightarrow> thread_list \<Rightarrow> thread_list" where
  "update_tcb i f ts = update_first (\<lambda>t. t_id t = i) f ts"

definition list_add_thread :: "thread \<Rightarrow> thread_list \<Rightarrow> thread_list" where
  "list_add_thread t ts = ts @ [t]"

definition list_remove_thread :: "thread_id \<Rightarrow> thread_list \<Rightarrow> thread option \<times> thread_list" where
  "list_remove_thread i ts =
     (case position (\<lambda>t. t_id t = i) ts of
        Some pos \<Rightarrow> (Some (ts ! pos), take pos ts @ drop (Suc pos) ts)
      | None \<Rightarrow> (None, ts))"

definition find_thread :: "thread_id \<Rightarrow> thread_list \<Rightarrow> thread_id option" where
  "find_thread i ts = map_option t_id (find_tcb i ts)"

definition thread_count :: "thread_list \<Rightarrow> nat" where
  "thread_count ts = length ts"

definition get_runnable_threads :: "thread_list \<Rightarrow> thread_id list" where
  "get_runnable_threads ts = map t_id (filter is_runnable ts)"

definition set_thread_state :: "thread_id \<Rightarrow> thread_state \<Rightarrow> thread_list \<Rightarrow> bool \<times> thread_list" where
  "set_thread_state i st ts =
     (case find_tcb i ts of
        Some t \<Rightarrow> (True, update_tcb i (\<lambda>t. t\<lparr>t_state := st\<rparr>) ts)
      | None \<Rightarrow> (False, ts))"

record thread_stats =
  ts_total :: nat
  ts_running :: nat
  ts_ready :: nat
  ts_blocked :: nat
  ts_exited :: nat

definition count_state :: "thread \<Rightarrow> thread_stats \<Rightarrow> thread_stats" where
  "count_state t s = (case t_state t of
       Running \<Rightarrow> s\<lparr>ts_running := ts_running s + 1\<rparr>
     | Ready \<Rightarrow> s\<lparr>ts_ready := ts_ready s + 1\<rparr>
     | Blocked \<Rightarrow> s\<lparr>ts_blocked := ts_blocked s + 1\<rparr>
     | Exited \<Rightarrow> s\<lparr>ts_exited := ts_exited s + 1\<rparr>)"

definition get_thread_stats :: "thread_list \<Rightarrow> thread_stats" where
  "get_thread_stats ts =
     fold count_state ts \<lparr>ts_total = length ts, ts_running = 0, ts_ready = 0, ts_blocked = 0, ts_exited = 0\<rparr>"

definition kernel_stack_top :: "thread_id \<Rightarrow> thread_list \<Rightarrow> u64 option" where
  "kernel_stack_top i ts = map_option t_kernel_stack (find_tcb i ts)"

definition snapshot_context :: "thread_id \<Rightarrow> thread_list \<Rightarrow> cpu_context option" where
  "snapshot_context i ts = map_option t_context (find_tcb i ts)"

definition snapshot_thread :: "thread_id \<Rightarrow> thread_list \<Rightarrow> thread option" where
  "snapshot_thread i ts = map_option (\<lambda>t. t\<lparr>t_caps := cap_table_new (t_id t)\<rparr>) (find_tcb i ts)"

section \<open>Capabilities of a thread\<close>

definition validate_thread_capability ::
  "thread_id \<Rightarrow> cap_handle \<Rightarrow> cap_permissions \<Rightarrow> thread_list \<Rightarrow> cap_error + unit" where
  "validate_thread_capability i h required ts =
     (case find_tcb i ts of
        None \<Rightarrow> Inl CapNotFound
      | Some t \<Rightarrow> (case cap_table_validate (t_caps t) h required of Inl e \<Rightarrow> Inl e | Inr _ \<Rightarrow> Inr ()))"

definition add_thread_capability ::
  "thread_id \<Rightarrow> capability \<Rightarrow> thread_list \<Rightarrow> (cap_error + cap_handle) \<times> thread_list" where
  "add_thread_capability i cap ts =
     (case find_tcb i ts of
        None \<Rightarrow> (Inl CapNotFound, ts)
      | Some t \<Rightarrow>
          let (r, tab) = cap_table_insert cap (t_caps t)
          in (r, update_tcb i (\<lambda>t. t\<lparr>t_caps := tab\<rparr>) ts))"

definition remove_thread_capability ::
  "thread_id \<Rightarrow> cap_handle \<Rightarrow> thread_list \<Rightarrow> capability option \<times> thread_list" where
  "remove_thread_capability i h ts =
     (case find_tcb i ts of
        None \<Rightarrow> (None, ts)
      | Some t \<Rightarrow>
          let (r, tab) = cap_table_remove h (t_caps t)
          in (r, update_tcb i (\<lambda>t. t\<lparr>t_caps := tab\<rparr>) ts))"

definition thread_has_capability :: "thread_id \<Rightarrow> cap_handle \<Rightarrow> thread_list \<Rightarrow> bool" where
  "thread_has_capability i h ts =
     (case find_tcb i ts of None \<Rightarrow> False | Some t \<Rightarrow> cap_table_contains (t_caps t) h)"

definition validate_thread_capability_by_type ::
  "thread_id \<Rightarrow> cap_permissions \<Rightarrow> (resource_type \<Rightarrow> bool) \<Rightarrow> thread_list \<Rightarrow> bool" where
  "validate_thread_capability_by_type i required resource_filter ts =
     (case find_tcb i ts of
        None \<Rightarrow> False
      | Some t \<Rightarrow>
          list_ex (\<lambda>h. case cap_table_get (t_caps t) h of
              None \<Rightarrow> False
            | Some cap \<Rightarrow> resource_filter (c_resource cap) \<and> has_permission cap required)
            (cap_table_list (t_caps t)))"

section \<open>The context switch\<close>

text \<open>
  \<open>with_contexts\<close> hands two disjoint borrows of the thread vector to a closure. The
  closure returns the new values of both contexts: the assembly below writes through the
  second pointer as well.
\<close>

definition with_contexts ::
  "thread_id \<Rightarrow> thread_id \<Rightarrow> (cpu_context \<Rightarrow> cpu_context \<Rightarrow> cpu_context \<times> cpu_context \<times> 'r)
   \<Rightarrow> thread_list \<Rightarrow> 'r option \<times> thread_list" where
  "with_contexts from_id to_id f ts =
     (case position (\<lambda>t. t_id t = from_id) ts of
        None \<Rightarrow> (None, ts)
      | Some from_idx \<Rightarrow>
        (case position (\<lambda>t. t_id t = to_id) ts of
           None \<Rightarrow> (None, ts)
         | Some to_idx \<Rightarrow>
           if from_idx < to_idx then
             let left = take to_idx ts; right = drop to_idx ts;
                 (a, b, res) = f (t_context (left ! from_idx)) (t_context (right ! 0))
             in (Some res, left[from_idx := (left ! from_idx)\<lparr>t_context := a\<rparr>]
                           @ right[0 := (right ! 0)\<lparr>t_context := b\<rparr>])
           else if from_idx > to_idx then
             let left = take from_idx ts; right = drop from_idx ts;
                 (a, b, res) = f (t_context (right ! 0)) (t_context (left ! to_idx))
             in (Some res, left[to_idx := (left ! to_idx)\<lparr>t_context := b\<rparr>]
                           @ right[0 := (right ! 0)\<lparr>t_context := a\<rparr>])
           else
             let ctx_copy = t_context (ts ! from_idx);
                 (a, _, res) = f (t_context (ts ! from_idx)) ctx_copy
             in (Some res, ts[from_idx := (ts ! from_idx)\<lparr>t_context := a\<rparr>])))"

definition is_canonical :: "u64 \<Rightarrow> bool" where
  "is_canonical addr \<longleftrightarrow>
     (let sign_extension = drop_bit 48 addr in sign_extension = 0 \<or> sign_extension = 0xFFFF)"

definition validate_context_for_iret :: "cpu_context \<Rightarrow> string + unit" where
  "validate_context_for_iret target =
     (if \<not> is_canonical (reg_rip target) \<or> \<not> is_canonical (reg_rsp target)
      then Inl ''non-canonical RIP or RSP''
      else if reg_cs target AND 0x3 = 0x3 then
        (if reg_cs target \<noteq> USER_CODE_SELECTOR then Inl ''user CS selector invalid''
         else if reg_ss target \<noteq> USER_DATA_SELECTOR then Inl ''user SS selector invalid''
         else Inr ())
      else
        (if reg_cs target \<noteq> KERNEL_CODE_SELECTOR then Inl ''kernel CS selector invalid''
         else if reg_ss target \<noteq> KERNEL_DATA_SELECTOR then Inl ''kernel SS selector invalid''
         else Inr ()))"

text \<open>
  \<open>switch_context\<close> of \<^verbatim>\<open>switch.asm\<close>. \<open>cpu\<close> is the register file at its first instruction
  (\<open>rcx\<close> and \<open>rdx\<close> hold the two pointers, \<open>rsp\<close> points at the return address \<open>ret\<close>);
  \<open>old\<close> is the previous content of the save area, of which \<open>ds\<close>, \<open>es\<close>, \<open>fs\<close> and \<open>gs\<close>
  are not overwritten. After \<open>push rbp; mov rbp, rsp\<close> the frame pointer is \<open>rsp - 8\<close>,
  and \<open>r12\<close> and \<open>r15\<close> are loaded with the two pointers before they are saved.
\<close>

definition asm_save_context :: "u64 \<Rightarrow> cpu_context \<Rightarrow> cpu_context \<Rightarrow> cpu_context" where
  "asm_save_context ret cpu old =
     cpu\<lparr>reg_rbp := reg_rsp cpu - 8, reg_rsp := reg_rsp cpu, reg_r12 := reg_rcx cpu,
         reg_r15 := reg_rdx cpu, reg_rip := ret,
         reg_ds := reg_ds old, reg_es := reg_es old, reg_fs := reg_fs old, reg_gs := reg_gs old\<rparr>"

text \<open>
  \<open>switch_to_context_internal\<close>: the target's \<open>cr3\<close> unless it is zero, the general
  registers, and an \<open>iretq\<close>; a target with a user code selector first has the flags in its
  context sanitised and its data segments loaded.
\<close>

definition asm_user_flags :: "u64 \<Rightarrow> u64" where
  "asm_user_flags fl = (fl AND 0x3C7FD7) OR 0x202"

definition asm_load_context :: "cpu_context \<Rightarrow> cpu_context \<Rightarrow> cpu_context \<times> cpu_context" where
  "asm_load_context new cpu =
     (let c3 = (if reg_cr3 new = 0 then reg_cr3 cpu else reg_cr3 new) in
      if reg_cs new AND 0x3 \<noteq> 0 then
        let new' = new\<lparr>reg_rflags := asm_user_flags (reg_rflags new)\<rparr>
        in (new', new'\<lparr>reg_cr3 := c3, reg_fs := reg_fs cpu, reg_gs := reg_gs cpu\<rparr>)
      else
        (new, new\<lparr>reg_cr3 := c3, reg_ds := reg_ds cpu, reg_es := reg_es cpu, reg_fs := reg_fs cpu, reg_gs := reg_gs cpu\<rparr>))"

text \<open>
  \<open>switch_thread_context\<close>: the guard only logs, so the switch is made whatever the guard
  says. The results are the saved context, the target's context and the new register file.
\<close>

definition switch_thread_context ::
  "u64 \<Rightarrow> cpu_context \<Rightarrow> cpu_context \<Rightarrow> cpu_context \<Rightarrow> cpu_context \<times> cpu_context \<times> cpu_context" where
  "switch_thread_context ret cpu current next_ctx =
     (let saved = asm_save_context ret cpu current;
          (next', cpu') = asm_load_context next_ctx cpu
      in (saved, next', cpu'))"

section \<open>Lemmas on the thread list\<close>

definition threads_ok :: "u64 \<Rightarrow> thread_list \<Rightarrow> bool" where
  "threads_ok next_id ts \<longleftrightarrow> distinct (map t_id ts) \<and> (\<forall>t \<in> set ts. t_id t < next_id)"

lemma find_tcb_id: "find_tcb i ts = Some t \<Longrightarrow> t_id t = i"
  by (auto simp: find_tcb_def dest: find_Some_mem)

lemma find_tcb_mem: "find_tcb i ts = Some t \<Longrightarrow> t \<in> set ts"
  by (auto simp: find_tcb_def dest: find_Some_mem)

lemma find_tcb_None: "find_tcb i ts = None \<longleftrightarrow> i \<notin> t_id ` set ts"
  by (auto simp: find_tcb_def find_None_iff)

lemma find_tcb_distinct: "distinct (map t_id ts) \<Longrightarrow> t \<in> set ts \<Longrightarrow> find_tcb (t_id t) ts = Some t"
  by (induction ts) (auto simp: find_tcb_def image_iff)

lemma find_tcb_append: "find_tcb i (ts @ [t]) =
   (case find_tcb i ts of Some u \<Rightarrow> Some u | None \<Rightarrow> if t_id t = i then Some t else None)"
  by (induction ts) (auto simp: find_tcb_def)

lemma find_tcb_update:
  assumes "\<And>t. t_id (f t) = t_id t"
  shows "find_tcb j (update_tcb i f ts) = (if j = i then map_option f (find_tcb i ts) else find_tcb j ts)"
proof (cases "j = i")
  case True
  show ?thesis
  proof (cases "find_tcb i ts")
    case None
    with True show ?thesis by (simp add: find_tcb_def update_tcb_def update_first_None)
  next
    case (Some t)
    with True assms show ?thesis
      by (simp add: find_tcb_def update_tcb_def find_update_first_same find_Some_mem)
        (metis (mono_tags, lifting) assms find_Some_mem find_update_first_same)
  qed
next
  case False
  with assms show ?thesis by (auto simp: find_tcb_def update_tcb_def intro!: find_update_first_other)
qed

lemma ids_update_tcb [simp]:
  "(\<And>t. t_id (f t) = t_id t) \<Longrightarrow> map t_id (update_tcb i f ts) = map t_id ts"
  by (simp add: update_tcb_def map_update_first)

lemma threads_ok_update:
  assumes "threads_ok n ts" and "\<And>t. t_id (f t) = t_id t"
  shows "threads_ok n (update_tcb i f ts)"
proof -
  have "map t_id (update_tcb i f ts) = map t_id ts" using assms(2) by simp
  then have "t_id ` set (update_tcb i f ts) = t_id ` set ts" by (metis list.set_map)
  then have "\<forall>t \<in> set (update_tcb i f ts). \<exists>u \<in> set ts. t_id t = t_id u" by (metis image_iff)
  with assms \<open>map t_id (update_tcb i f ts) = map t_id ts\<close> show ?thesis by (auto simp: threads_ok_def)
qed

lemma threads_ok_add:
  assumes "threads_ok n ts" and "n \<noteq> u64_max" and "t_id t = n"
  shows "threads_ok (n + 1) (list_add_thread t ts)"
  using assms by (auto simp: threads_ok_def list_add_thread_def word_less_inc_iff intro: less_imp_le)

lemma find_tcb_set_state [simp]:
  "find_tcb j (snd (set_thread_state i st ts)) =
     (if j = i then map_option (\<lambda>t. t\<lparr>t_state := st\<rparr>) (find_tcb i ts) else find_tcb j ts)"
  by (auto simp: set_thread_state_def find_tcb_update split: option.splits)

lemma ids_set_state [simp]: "map t_id (snd (set_thread_state i st ts)) = map t_id ts"
  by (auto simp: set_thread_state_def split: option.splits)

lemma length_set_state [simp]: "length (snd (set_thread_state i st ts)) = length ts"
  using ids_set_state map_eq_imp_length_eq by blast

lemma position_ids: "position (\<lambda>t. t_id t = i) ts = position (\<lambda>x. x = i) (map t_id ts)"
  by (induction ts) auto

lemma find_tcb_position: "find_tcb i ts = map_option (\<lambda>k. ts ! k) (position (\<lambda>x. x = i) (map t_id ts))"
  by (simp add: find_tcb_def find_position position_ids)

text \<open>The two borrows together are an update of the vector at two indices.\<close>

lemma with_contexts_update:
  assumes pf: "position (\<lambda>t. t_id t = from_id) ts = Some i" and pt: "position (\<lambda>t. t_id t = to_id) ts = Some j"
    and ne: "from_id \<noteq> to_id" and f: "f (t_context (ts ! i)) (t_context (ts ! j)) = (a, b, res)"
  shows "with_contexts from_id to_id f ts =
    (Some res, ts[i := (ts ! i)\<lparr>t_context := a\<rparr>, j := (ts ! j)\<lparr>t_context := b\<rparr>])"
proof -
  have i: "i < length ts" "t_id (ts ! i) = from_id" and j: "j < length ts" "t_id (ts ! j) = to_id"
    using position_Some_iff [OF pf] position_Some_iff [OF pt] by auto
  from i j ne have "i \<noteq> j" by auto
  then consider "i < j" | "j < i" by linarith
  then show ?thesis
  proof cases
    case 1
    have "(take j ts)[i := x] @ (drop j ts)[0 := y] = ts[i := x, j := y]" for x y
      using 1 j by (intro nth_equalityI) (auto simp: nth_append nth_list_update)
    with 1 i j pf pt f show ?thesis by (simp add: with_contexts_def)
  next
    case 2
    have "(take i ts)[j := y] @ (drop i ts)[0 := x] = ts[i := x, j := y]" for x y
      using 2 i by (intro nth_equalityI) (auto simp: nth_append nth_list_update)
    with 2 i j pf pt f show ?thesis by (simp add: with_contexts_def)
  qed
qed

lemma with_contexts_find:
  assumes a: "find_tcb from_id ts = Some t" and b: "find_tcb to_id ts = Some u" and ne: "from_id \<noteq> to_id"
    and f: "f (t_context t) (t_context u) = (x, y, res)"
  obtains ts' where "with_contexts from_id to_id f ts = (Some res, ts')"
    "\<And>k. find_tcb k ts' =
       (if k = from_id then Some (t\<lparr>t_context := x\<rparr>)
        else if k = to_id then Some (u\<lparr>t_context := y\<rparr>) else find_tcb k ts)"
    "map t_id ts' = map t_id ts"
proof -
  from a obtain i where i: "position (\<lambda>x. x = from_id) (map t_id ts) = Some i" "t = ts ! i"
    by (auto simp: find_tcb_position)
  from b obtain j where j: "position (\<lambda>x. x = to_id) (map t_id ts) = Some j" "u = ts ! j"
    by (auto simp: find_tcb_position)
  have bi: "i < length ts" "t_id (ts ! i) = from_id" and bj: "j < length ts" "t_id (ts ! j) = to_id"
    using position_Some_iff [OF i(1)] position_Some_iff [OF j(1)] by auto
  define ts' where "ts' = ts[i := (ts ! i)\<lparr>t_context := x\<rparr>, j := (ts ! j)\<lparr>t_context := y\<rparr>]"
  have w: "with_contexts from_id to_id f ts = (Some res, ts')"
    unfolding ts'_def by (rule with_contexts_update) (use i j f ne in \<open>simp_all add: position_ids\<close>)
  have ids: "map t_id ts' = map t_id ts"
    by (intro nth_equalityI) (use bi bj in \<open>auto simp: ts'_def nth_list_update\<close>)
  have ij: "i \<noteq> j" using bi bj ne by auto
  have "find_tcb k ts' =
       (if k = from_id then Some (t\<lparr>t_context := x\<rparr>)
        else if k = to_id then Some (u\<lparr>t_context := y\<rparr>) else find_tcb k ts)" for k
  proof -
    have n: "ts' ! i = t\<lparr>t_context := x\<rparr>" "ts' ! j = u\<lparr>t_context := y\<rparr>"
      using bi bj ij i j by (simp_all add: ts'_def)
    have other: "ts' ! p = ts ! p" if "p \<noteq> i" "p \<noteq> j" for p
      using that by (simp add: ts'_def)
    show ?thesis
    proof (cases "k = from_id \<or> k = to_id")
      case True
      then show ?thesis using i j ne n by (auto simp: find_tcb_position ids)
    next
      case False
      have "ts' ! p = ts ! p" if "position (\<lambda>x. x = k) (map t_id ts) = Some p" for p
        using position_Some_iff [OF that] False bi bj by (intro other) auto
      with False show ?thesis
        by (cases "position (\<lambda>x. x = k) (map t_id ts)") (auto simp: find_tcb_position ids)
    qed
  qed
  with w ids that show thesis by blast
qed

lemma with_contexts_missing:
  assumes "find_tcb from_id ts = None \<or> find_tcb to_id ts = None"
  shows "with_contexts from_id to_id f ts = (None, ts)"
  using assms by (auto simp: find_tcb_position with_contexts_def position_ids split: option.splits)

text \<open>Whatever the closure does, only contexts change.\<close>

definition strip_context :: "thread \<Rightarrow> thread" where
  "strip_context t = t\<lparr>t_context := context_zero\<rparr>"

lemma find_tcb_strip: "find_tcb i (map strip_context ts) = map_option strip_context (find_tcb i ts)"
  by (induction ts) (auto simp: find_tcb_def strip_context_def)

lemma strip_context_update: "strip_context (t\<lparr>t_context := c\<rparr>) = strip_context t"
  by (simp add: strip_context_def)

lemma map_update_same: "f x = f (ts ! k) \<Longrightarrow> map f (ts[k := x]) = map f ts"
  by (cases "k < length ts") (simp_all add: map_update list_update_same_conv list_update_beyond)

lemma with_contexts_strip:
  assumes "with_contexts from_id to_id f ts = (r, ts')"
  shows "map strip_context ts' = map strip_context ts"
proof (cases "find_tcb from_id ts = None \<or> find_tcb to_id ts = None")
  case True
  with assms with_contexts_missing show ?thesis by (metis prod.inject)
next
  case False
  then obtain i j where i: "position (\<lambda>t. t_id t = from_id) ts = Some i" and j: "position (\<lambda>t. t_id t = to_id) ts = Some j"
    by (auto simp: find_tcb_position position_ids)
  obtain a b res where f: "f (t_context (ts ! i)) (t_context (ts ! j)) = (a, b, res)" by (metis surj_pair)
  show ?thesis
  proof (cases "from_id = to_id")
    case True
    with assms i j f have "ts' = ts[i := (ts ! i)\<lparr>t_context := a\<rparr>]"
      by (simp add: with_contexts_def)
    then show ?thesis by (simp add: map_update_same strip_context_update)
  next
    case False
    have "strip_context (ts ! j) = strip_context (ts[i := (ts ! i)\<lparr>t_context := a\<rparr>] ! j)"
      by (cases "i < length ts") (simp_all add: nth_list_update strip_context_update list_update_beyond)
    with assms with_contexts_update [where f = f, OF i j False f] show ?thesis
      by (auto simp: map_update_same strip_context_update)
  qed
qed

section \<open>Lemmas on thread capabilities\<close>

definition thread_cap :: "thread_list \<Rightarrow> thread_id \<Rightarrow> cap_handle \<Rightarrow> capability option" where
  "thread_cap ts i h = (case find_tcb i ts of None \<Rightarrow> None | Some t \<Rightarrow> cap_table_get (t_caps t) h)"

lemma thread_has_capability_iff: "thread_has_capability i h ts \<longleftrightarrow> thread_cap ts i h \<noteq> None"
  by (simp add: thread_has_capability_def thread_cap_def cap_table_contains_get split: option.splits)

lemma add_thread_capability_ids [simp]: "map t_id (snd (add_thread_capability i cap ts)) = map t_id ts"
  by (auto simp: add_thread_capability_def Let_def split: option.splits prod.splits)

lemma remove_thread_capability_ids [simp]: "map t_id (snd (remove_thread_capability i h ts)) = map t_id ts"
  by (auto simp: remove_thread_capability_def Let_def split: option.splits prod.splits)

lemma add_thread_capability_Inr:
  assumes "add_thread_capability i cap ts = (Inr h, ts')"
  shows "h = c_handle cap" "thread_cap ts i h = None"
    "thread_cap ts' = (thread_cap ts)(i := (thread_cap ts i)(h \<mapsto> cap))"
proof -
  from assms obtain t tab where t: "find_tcb i ts = Some t"
    and tab: "cap_table_insert cap (t_caps t) = (Inr h, tab)"
    and ts': "ts' = update_tcb i (\<lambda>t. t\<lparr>t_caps := tab\<rparr>) ts"
    by (auto simp: add_thread_capability_def Let_def split: option.splits prod.splits)
  note g = cap_table_get_insert [OF tab]
  show "h = c_handle cap" "thread_cap ts i h = None"
    using g t by (auto simp: thread_cap_def)
  show "thread_cap ts' = (thread_cap ts)(i := (thread_cap ts i)(h \<mapsto> cap))"
    using g t by (auto simp: fun_eq_iff thread_cap_def ts' find_tcb_update)
qed

lemma thread_cap_same_tables:
  assumes "find_tcb i ts = Some t"
  shows "thread_cap (update_tcb i (\<lambda>u. u\<lparr>t_caps := t_caps t\<rparr>) ts) = thread_cap ts"
  using assms by (auto simp: fun_eq_iff thread_cap_def find_tcb_update)

lemma add_thread_capability_Inl:
  assumes "add_thread_capability i cap ts = (Inl e, ts')"
  shows "thread_cap ts' = thread_cap ts"
    and "find_tcb i ts = None \<and> e = CapNotFound
      \<or> thread_cap ts i (c_handle cap) \<noteq> None \<and> e = CapAlreadyExists"
  using assms
  by (auto simp: add_thread_capability_def Let_def cap_table_insert_def thread_cap_same_tables
      thread_cap_def cap_table_get_def bt_contains_def split: option.splits prod.splits if_splits)

lemma remove_thread_capability_spec:
  assumes "remove_thread_capability i h ts = (r, ts')"
  shows "r = thread_cap ts i h" "thread_cap ts' = (thread_cap ts)(i := (thread_cap ts i)(h := None))"
proof -
  from assms show "r = thread_cap ts i h"
    by (auto simp: remove_thread_capability_def thread_cap_def Let_def cap_table_remove_def cap_table_get_def
        split: option.splits)
  from assms show "thread_cap ts' = (thread_cap ts)(i := (thread_cap ts i)(h := None))"
    by (auto simp: fun_eq_iff remove_thread_capability_def thread_cap_def Let_def find_tcb_update
        cap_table_remove_def cap_table_get_def split: option.splits)
qed

end
