(* ===== verification/Cap_Manager.thy ===== *)
theory Cap_Manager
  imports Threads
begin

text \<open>
  The global capability manager, \<^verbatim>\<open>kernel/src/cap.rs\<close>: the registry of every live capability
  with its derivation links, the audit log, and the operations that span threads:
  creation, derivation, transfer and recursive revocation. Each operation takes and
  returns the state; the manager and the thread list are one record because the code
  updates both.
\<close>

section \<open>State\<close>

record thread_sys =
  sys_threads :: thread_list
  sys_next_tid :: u64
  sys_ticks :: u64

datatype audit_event_type = AuditCreate | AuditDerive | AuditTransfer | AuditRevoke

record audit_log_entry =
  a_timestamp :: u64
  a_event :: audit_event_type
  a_thread :: thread_id
  a_cap :: cap_handle
  a_parent :: "cap_handle option"
  a_target :: "thread_id option"

record cap_sys = thread_sys +
  cm_global :: "(cap_handle, capability) btree"
  cm_audit :: "audit_log_entry list"
  cm_next_handle :: u64

abbreviation MAX_AUDIT_LOG_ENTRIES :: nat where
  "MAX_AUDIT_LOG_ENTRIES \<equiv> 1000"

section \<open>The audit log\<close>

definition audit_entry :: "audit_event_type \<Rightarrow> thread_id \<Rightarrow> cap_handle \<Rightarrow> 'a cap_sys_scheme \<Rightarrow> audit_log_entry" where
  "audit_entry ev tid h s =
     \<lparr>a_timestamp = sys_ticks s, a_event = ev, a_thread = tid, a_cap = h, a_parent = None, a_target = None\<rparr>"

definition audit_entry_derive :: "thread_id \<Rightarrow> cap_handle \<Rightarrow> cap_handle \<Rightarrow> 'a cap_sys_scheme \<Rightarrow> audit_log_entry" where
  "audit_entry_derive tid child parent s = (audit_entry AuditDerive tid child s)\<lparr>a_parent := Some parent\<rparr>"

definition audit_entry_transfer :: "thread_id \<Rightarrow> cap_handle \<Rightarrow> thread_id \<Rightarrow> 'a cap_sys_scheme \<Rightarrow> audit_log_entry" where
  "audit_entry_transfer tid h target s = (audit_entry AuditTransfer tid h s)\<lparr>a_target := Some target\<rparr>"

definition log_audit :: "audit_log_entry \<Rightarrow> 'a cap_sys_scheme \<Rightarrow> 'a cap_sys_scheme" where
  "log_audit entry s =
     (let log = (if length (cm_audit s) \<ge> MAX_AUDIT_LOG_ENTRIES then tl (cm_audit s) else cm_audit s)
      in s\<lparr>cm_audit := log @ [entry]\<rparr>)"

definition get_audit_log :: "nat \<Rightarrow> 'a cap_sys_scheme \<Rightarrow> audit_log_entry list" where
  "get_audit_log max_entries s = take (min max_entries (length (cm_audit s))) (rev (cm_audit s))"

section \<open>Creation\<close>

definition cap_register :: "capability \<Rightarrow> 'a cap_sys_scheme \<Rightarrow> (cap_error + cap_handle) \<times> 'a cap_sys_scheme" where
  "cap_register cap s =
     (let h = c_handle cap; owner = c_owner cap in
      if bt_contains (cm_global s) h then (Inl CapAlreadyExists, s)
      else
        let s1 = s\<lparr>cm_global := bt_insert h cap (cm_global s)\<rparr>
        in (Inr h, log_audit (audit_entry AuditCreate owner h s1) s1))"

definition create_root_capability ::
  "resource_type \<Rightarrow> thread_id \<Rightarrow> cap_permissions \<Rightarrow> 'a cap_sys_scheme
   \<Rightarrow> (cap_error + capability) \<times> 'a cap_sys_scheme" where
  "create_root_capability resource owner perms s =
     (let (cap, nxt) = capability_new_root (cm_next_handle s) resource owner perms;
          s1 = s\<lparr>cm_next_handle := nxt\<rparr>
      in case cap_register cap s1 of
           (Inl e, s2) \<Rightarrow> (Inl e, s2)
         | (Inr _, s2) \<Rightarrow> (Inr cap, s2))"

section \<open>Thread tables, lifted to the state\<close>

definition sys_add_cap :: "thread_id \<Rightarrow> capability \<Rightarrow> 'a cap_sys_scheme \<Rightarrow> (cap_error + cap_handle) \<times> 'a cap_sys_scheme" where
  "sys_add_cap i cap s =
     (let (r, ts) = add_thread_capability i cap (sys_threads s) in (r, s\<lparr>sys_threads := ts\<rparr>))"

definition sys_remove_cap :: "thread_id \<Rightarrow> cap_handle \<Rightarrow> 'a cap_sys_scheme \<Rightarrow> capability option \<times> 'a cap_sys_scheme" where
  "sys_remove_cap i h s =
     (let (r, ts) = remove_thread_capability i h (sys_threads s) in (r, s\<lparr>sys_threads := ts\<rparr>))"

section \<open>Revocation\<close>

definition revoke_one :: "capability \<Rightarrow> cap_handle \<Rightarrow> thread_id \<Rightarrow> 'a cap_sys_scheme \<Rightarrow> 'a cap_sys_scheme" where
  "revoke_one cap h revoker s =
     (let s1 = s\<lparr>cm_global := bt_remove h (cm_global s)\<rparr>;
          s2 = snd (sys_remove_cap (c_owner cap) h s1)
      in log_audit (audit_entry AuditRevoke revoker h s2) s2)"

lemma revoke_one_global [simp]: "cm_global (revoke_one cap h r s) = bt_remove h (cm_global s)"
  by (simp add: revoke_one_def Let_def log_audit_def sys_remove_cap_def split: prod.splits)

text \<open>
  The recursion removes a capability before it visits the children, so the registry
  shrinks with every nested call that finds something: this is the termination argument.
\<close>

function (sequential) revoke ::
    "cap_handle \<Rightarrow> thread_id \<Rightarrow> 'a cap_sys_scheme \<Rightarrow> (cap_error + cap_handle list) \<times> 'a cap_sys_scheme"
  and revoke_children ::
    "cap_handle list \<Rightarrow> thread_id \<Rightarrow> 'a cap_sys_scheme \<Rightarrow> cap_handle list \<times> 'a cap_sys_scheme" where
  "revoke h revoker s =
     (case bt_get (cm_global s) h of
        None \<Rightarrow> (Inl CapNotFound, s)
      | Some cap \<Rightarrow>
          let (revoked, s') = revoke_children (c_children cap) revoker (revoke_one cap h revoker s)
          in (Inr (h # revoked), s'))"
| "revoke_children [] revoker s = ([], s)"
| "revoke_children (c # cs) revoker s =
     (let (r, s1) = revoke c revoker s;
          (rest, s2) = revoke_children cs revoker s1
      in (case r of Inr child_revoked \<Rightarrow> child_revoked @ rest | Inl _ \<Rightarrow> rest, s2))"
  by pat_completeness auto

lemma revoke_len:
  "revoke_revoke_children_dom (Inl (h, r, s)) \<Longrightarrow> bt_len (cm_global (snd (revoke h r s))) \<le> bt_len (cm_global s)"
  "revoke_revoke_children_dom (Inr (cs, r, s)) \<Longrightarrow> bt_len (cm_global (snd (revoke_children cs r s))) \<le> bt_len (cm_global s)"
proof (induction h r s and cs r s rule: revoke_revoke_children.pinduct)
  case (1 h r s)
  show ?case
  proof (cases "bt_get (cm_global s) h")
    case (Some cap)
    from 1(2) [OF Some] bt_len_remove [of h "cm_global s"] Some show ?thesis
      by (auto simp: revoke.psimps [OF 1(1)] split: prod.splits)
  qed (simp add: revoke.psimps [OF 1(1)])
next
  case (3 c cs r s)
  obtain x s1 where s1: "revoke c r s = (x, s1)" by fastforce
  from 3(2) 3(3) [OF s1 [symmetric] refl] s1 show ?case
    by (auto simp: revoke_children.psimps(2) [OF 3(1)] split: prod.splits)
qed (simp add: revoke_children.psimps(1))

termination revoke
proof (relation "measures [\<lambda>x. case x of Inl (h, r, s) \<Rightarrow> bt_len (cm_global s) | Inr (cs, r, s) \<Rightarrow> bt_len (cm_global s),
    \<lambda>x. case x of Inl (h, r, s) \<Rightarrow> 0 | Inr (cs, r, s) \<Rightarrow> Suc (length cs)]", goal_cases)
  case (2 h r s cap)
  then show ?case using bt_len_remove_less by fastforce
next
  case (4 c cs r s y x s1)
  then show ?case using revoke_len(1) [of c r s] by (cases "revoke c r s") auto
qed auto

section \<open>Queries\<close>

definition query_parent :: "cap_handle \<Rightarrow> 'a cap_sys_scheme \<Rightarrow> cap_error + cap_handle option" where
  "query_parent h s =
     (case bt_get (cm_global s) h of None \<Rightarrow> Inl CapNotFound | Some cap \<Rightarrow> Inr (c_parent cap))"

definition query_children :: "cap_handle \<Rightarrow> 'a cap_sys_scheme \<Rightarrow> cap_error + cap_handle list" where
  "query_children h s =
     (case bt_get (cm_global s) h of None \<Rightarrow> Inl CapNotFound | Some cap \<Rightarrow> Inr (c_children cap))"

definition lookup_capability :: "cap_handle \<Rightarrow> 'a cap_sys_scheme \<Rightarrow> capability option" where
  "lookup_capability h s = bt_get (cm_global s) h"

fun resource_index :: "resource_type \<Rightarrow> nat" where
  "resource_index (ResThread _) = 0"
| "resource_index (ResMemoryRegion _ _ _) = 1"
| "resource_index (ResIpcPort _) = 2"
| "resource_index (ResIrq _) = 3"
| "resource_index (ResDevice _) = 4"
| "resource_index (ResDmaBuffer _ _) = 5"
| "resource_index (ResSharedMemoryRegion _) = 6"

record capability_stats =
  cst_total :: nat
  cst_thread :: nat
  cst_memory :: nat
  cst_ipc :: nat
  cst_irq :: nat
  cst_device :: nat
  cst_dma :: nat

definition get_capability_stats :: "'a cap_sys_scheme \<Rightarrow> capability_stats" where
  "get_capability_stats s =
     (let by_type = fold (\<lambda>cap t. t[resource_index (c_resource cap) := t ! resource_index (c_resource cap) + 1])
                      (bt_values (cm_global s)) (replicate 7 0)
      in \<lparr>cst_total = bt_len (cm_global s), cst_thread = by_type ! 0, cst_memory = by_type ! 1,
          cst_ipc = by_type ! 2, cst_irq = by_type ! 3, cst_device = by_type ! 4, cst_dma = by_type ! 5\<rparr>)"

section \<open>Transfer and derivation\<close>

definition transfer_capability ::
  "cap_handle \<Rightarrow> thread_id \<Rightarrow> thread_id \<Rightarrow> 'a cap_sys_scheme \<Rightarrow> (cap_error + unit) \<times> 'a cap_sys_scheme" where
  "transfer_capability h source target s =
     (case sys_remove_cap source h s of
        (None, s1) \<Rightarrow> (Inl CapNotFound, s1)
      | (Some cap, s1) \<Rightarrow>
          if \<not> is_owned_by cap source then (Inl CapNotOwner, snd (sys_add_cap source cap s1))
          else if \<not> has_permission cap PERM_GRANT then (Inl CapPermissionDenied, snd (sys_add_cap source cap s1))
          else
            (case sys_add_cap target (cap\<lparr>c_owner := target\<rparr>) s1 of
               (Inl _, s2) \<Rightarrow> (Inl CapAlreadyExists, s2)
             | (Inr _, s2) \<Rightarrow>
                 let s3 = (case bt_get (cm_global s2) h of
                             None \<Rightarrow> s2
                           | Some g \<Rightarrow> s2\<lparr>cm_global := bt_insert h (g\<lparr>c_owner := target\<rparr>) (cm_global s2)\<rparr>)
                 in (Inr (), log_audit (audit_entry_transfer source h target s3) s3)))"

definition derive_capability ::
  "cap_handle \<Rightarrow> thread_id \<Rightarrow> thread_id \<Rightarrow> cap_permissions \<Rightarrow> 'a cap_sys_scheme
   \<Rightarrow> (cap_error + cap_handle) \<times> 'a cap_sys_scheme" where
  "derive_capability parent_handle owner_thread new_owner reduced_perms s =
     (if \<not> thread_has_capability owner_thread parent_handle (sys_threads s) then (Inl CapNotFound, s)
      else case bt_get (cm_global s) parent_handle of
             None \<Rightarrow> (Inl CapNotFound, s)
           | Some parent \<Rightarrow>
               if \<not> is_owned_by parent owner_thread then (Inl CapNotOwner, s)
               else if \<not> has_permission parent PERM_GRANT then (Inl CapPermissionDenied, s)
               else
                 (case capability_derive (cm_next_handle s) parent new_owner reduced_perms of
                    Inl e \<Rightarrow> (Inl e, s)
                  | Inr (parent', child, nxt) \<Rightarrow>
                      let s1 = s\<lparr>cm_next_handle := nxt,
                                 cm_global := bt_insert (c_handle child) child
                                   (bt_insert parent_handle parent' (cm_global s))\<rparr>
                      in (case sys_add_cap new_owner child s1 of
                            (Inl e, s2) \<Rightarrow> (Inl e, s2)
                          | (Inr _, s2) \<Rightarrow>
                              (Inr (c_handle child),
                               log_audit (audit_entry_derive owner_thread (c_handle child) parent_handle s2) s2))))"

section \<open>The interface to the thread tables\<close>

text \<open>
  What the manager relies on from the threads: a two-level map from thread and handle to
  capability. \<open>add\<close> refuses a handle that is present and otherwise adds exactly one entry,
  \<open>remove\<close> takes exactly one entry out. \<open>move\<close> is the client pattern of a transfer.
\<close>

locale cap_tables =
  fixes held :: "'s \<Rightarrow> thread_id \<Rightarrow> cap_handle \<Rightarrow> capability option"
    and add :: "thread_id \<Rightarrow> capability \<Rightarrow> 's \<Rightarrow> (cap_error + cap_handle) \<times> 's"
    and remove :: "thread_id \<Rightarrow> cap_handle \<Rightarrow> 's \<Rightarrow> capability option \<times> 's"
  assumes add_ok: "add i cap s = (Inr h, s') \<Longrightarrow>
      h = c_handle cap \<and> held s i h = None \<and> held s' = (held s)(i := (held s i)(h \<mapsto> cap))"
    and add_err: "add i cap s = (Inl e, s') \<Longrightarrow> held s' = held s"
    and remove_held: "remove i h s = (r, s') \<Longrightarrow>
      r = held s i h \<and> held s' = (held s)(i := (held s i)(h := None))"
begin

lemma add_subset:
  assumes "add i cap s = (r, s')" and "held s' j h = Some c"
  shows "held s j h = Some c \<or> (j = i \<and> h = c_handle cap \<and> c = cap \<and> (\<exists>k. r = Inr k))"
proof (cases r)
  case (Inl e)
  with assms add_err show ?thesis by metis
next
  case (Inr k)
  with assms add_ok [of i cap s k s'] show ?thesis by (auto split: if_splits)
qed

lemma remove_subset: "remove i h s = (r, s') \<Longrightarrow> held s' j k = Some c \<Longrightarrow> held s j k = Some c \<and> (j, k) \<noteq> (i, h)"
  by (frule remove_held) (auto split: if_splits)

lemma move:
  assumes "remove i h s = (Some c, s1)" and "add j c' s1 = (Inr k, s2)" and "c_handle c' = h"
  shows "held s2 = (held s)(i := (held s i)(h := None), j := (if j = i then held s i else held s j)(h \<mapsto> c'))"
  using remove_held [OF assms(1)] add_ok [OF assms(2)] assms(3) by (auto simp: fun_eq_iff)

lemma remove_add_back:
  assumes "remove i h s = (Some c, s1)" and "add i c s1 = (Inr k, s2)" and "c_handle c = h"
  shows "held s2 = held s"
  using remove_held [OF assms(1)] add_ok [OF assms(2)] assms(3) by (auto simp: fun_eq_iff)

end

definition held_cap :: "'a cap_sys_scheme \<Rightarrow> thread_id \<Rightarrow> cap_handle \<Rightarrow> capability option" where
  "held_cap s i h = thread_cap (sys_threads s) i h"

interpretation tables: cap_tables held_cap sys_add_cap sys_remove_cap
proof unfold_locales
  fix s s' :: "'a cap_sys_scheme" and i h cap e r
  show "sys_add_cap i cap s = (Inr h, s') \<Longrightarrow>
      h = c_handle cap \<and> held_cap s i h = None \<and> held_cap s' = (held_cap s)(i := (held_cap s i)(h \<mapsto> cap))"
    using add_thread_capability_Inr [of i cap "sys_threads s" h]
    by (auto simp: sys_add_cap_def held_cap_def [abs_def] Let_def split: prod.splits)
  show "sys_add_cap i cap s = (Inl e, s') \<Longrightarrow> held_cap s' = held_cap s"
    using add_thread_capability_Inl [of i cap "sys_threads s" e]
    by (auto simp: sys_add_cap_def held_cap_def [abs_def] Let_def split: prod.splits)
  show "sys_remove_cap i h s = (r, s') \<Longrightarrow>
      r = held_cap s i h \<and> held_cap s' = (held_cap s)(i := (held_cap s i)(h := None))"
    using remove_thread_capability_spec [of i h "sys_threads s" r]
    by (auto simp: sys_remove_cap_def held_cap_def [abs_def] Let_def split: prod.splits)
qed

lemma sys_add_cap_frame:
  "sys_add_cap i cap s = (r, s') \<Longrightarrow> cm_global s' = cm_global s \<and> cm_next_handle s' = cm_next_handle s
    \<and> cm_audit s' = cm_audit s \<and> sys_ticks s' = sys_ticks s"
  by (auto simp: sys_add_cap_def Let_def split: prod.splits)

lemma sys_remove_cap_frame:
  "sys_remove_cap i h s = (r, s') \<Longrightarrow> cm_global s' = cm_global s \<and> cm_next_handle s' = cm_next_handle s
    \<and> cm_audit s' = cm_audit s \<and> sys_ticks s' = sys_ticks s"
  by (auto simp: sys_remove_cap_def Let_def split: prod.splits)

lemma log_audit_frame [simp]:
  "cm_global (log_audit e s) = cm_global s" "cm_next_handle (log_audit e s) = cm_next_handle s"
  "held_cap (log_audit e s) = held_cap s" "sys_threads (log_audit e s) = sys_threads s"
  "sys_ticks (log_audit e s) = sys_ticks s"
  by (simp_all add: log_audit_def Let_def held_cap_def [abs_def])

lemma held_cap_frame [simp]:
  "held_cap (s\<lparr>cm_global := g\<rparr>) = held_cap s" "held_cap (s\<lparr>cm_next_handle := n\<rparr>) = held_cap s"
  "held_cap (s\<lparr>cm_audit := a\<rparr>) = held_cap s"
  by (simp_all add: held_cap_def [abs_def])

section \<open>What revocation removes\<close>

text \<open>
  The derivation graph of a registry: an edge from a live capability to each live entry of
  its list of children. \<open>descendants\<close> are the live capabilities reachable from a handle,
  itself included. Nothing is assumed of the shape of the graph.
\<close>

definition cap_edges :: "(cap_handle \<Rightarrow> capability option) \<Rightarrow> (cap_handle \<times> cap_handle) set" where
  "cap_edges m = {(a, b). \<exists>c. m a = Some c \<and> b \<in> set (c_children c) \<and> m b \<noteq> None}"

definition descendants :: "(cap_handle \<Rightarrow> capability option) \<Rightarrow> cap_handle \<Rightarrow> cap_handle set" where
  "descendants m h = (if m h = None then {} else {b. (h, b) \<in> (cap_edges m)\<^sup>*})"

lemma descendants_None [simp]: "m h = None \<Longrightarrow> descendants m h = {}"
  by (simp add: descendants_def)

lemma descendants_self [simp]: "h \<in> descendants m h \<longleftrightarrow> m h \<noteq> None"
  by (simp add: descendants_def)

lemma descendants_dom: "b \<in> descendants m h \<Longrightarrow> m b \<noteq> None"
  by (auto simp: descendants_def cap_edges_def elim: rtranclE split: if_splits)

lemma descendants_step: "a \<in> descendants m h \<Longrightarrow> (a, b) \<in> cap_edges m \<Longrightarrow> b \<in> descendants m h"
  by (auto simp: descendants_def split: if_splits)

lemma descendants_induct [consumes 1, case_names self step]:
  assumes "b \<in> descendants m h" and "m h \<noteq> None \<Longrightarrow> P h"
    and "\<And>a b. a \<in> descendants m h \<Longrightarrow> P a \<Longrightarrow> (a, b) \<in> cap_edges m \<Longrightarrow> P b"
  shows "P b"
proof -
  from assms(1) have "(h, b) \<in> (cap_edges m)\<^sup>*" and h: "m h \<noteq> None"
    by (auto simp: descendants_def split: if_splits)
  from this(1) have "P b \<and> b \<in> descendants m h"
    by (induction rule: rtrancl_induct) (use assms h in \<open>auto intro: descendants_step\<close>)
  then show ?thesis by simp
qed

lemma descendants_restrict:
  assumes "\<And>a b. a \<in> S \<Longrightarrow> (a, b) \<in> cap_edges m \<Longrightarrow> b \<in> S"
  shows "descendants (m |` (- S)) h = descendants m h - S"
proof (cases "h \<in> S \<or> m h = None")
  case True
  have "b \<in> S" if "b \<in> descendants m h" "h \<in> S" for b
    using that by (induction rule: descendants_induct) (auto intro: assms)
  with True show ?thesis by (cases "m h") (auto simp: restrict_map_def)
next
  case False
  have sub: "b \<in> descendants m h - S" if "b \<in> descendants (m |` (- S)) h" for b
    using that
  proof (induction rule: descendants_induct)
    case (step a b)
    then show ?case
      by (auto simp: cap_edges_def restrict_map_def intro!: descendants_step [of a m h b] split: if_splits)
  qed (use False in auto)
  have "b \<in> S \<or> b \<in> descendants (m |` (- S)) h" if "b \<in> descendants m h" for b
    using that
  proof (induction rule: descendants_induct)
    case self
    with False show ?case by (auto simp: restrict_map_def)
  next
    case (step a b)
    show ?case
    proof (cases "b \<in> S")
      case no: False
      with step assms have "a \<in> descendants (m |` (- S)) h" by blast
      moreover from this have "(a, b) \<in> cap_edges (m |` (- S))"
        using step.hyps(2) no descendants_dom [of a "m |` (- S)" h]
        by (auto simp: cap_edges_def restrict_map_def split: if_splits)
      ultimately show ?thesis by (blast intro: descendants_step)
    qed simp
  qed
  with sub show ?thesis by blast
qed

lemma descendants_unfold:
  assumes "m h = Some cap"
  shows "descendants m h = insert h (\<Union>c \<in> set (c_children cap). descendants (m(h := None)) c)"
proof -
  have "b \<in> insert h (\<Union>c \<in> set (c_children cap). descendants (m(h := None)) c)" if "b \<in> descendants m h" for b
    using that
  proof (induction rule: descendants_induct)
    case (step a b)
    show ?case
    proof (cases "b = h")
      case False
      then have mb: "(m(h := None)) b \<noteq> None" using step.hyps(2) by (auto simp: cap_edges_def)
      show ?thesis
      proof (cases "a = h")
        case True
        with assms step.hyps(2) have "b \<in> set (c_children cap)" by (auto simp: cap_edges_def)
        moreover have "b \<in> descendants (m(h := None)) b" using mb by simp
        ultimately show ?thesis by blast
      next
        case ah: False
        with step.IH obtain c where c: "c \<in> set (c_children cap)" "a \<in> descendants (m(h := None)) c" by blast
        have "(a, b) \<in> cap_edges (m(h := None))" using step.hyps(2) ah False by (auto simp: cap_edges_def)
        with c show ?thesis by (blast intro: descendants_step)
      qed
    qed simp
  qed simp
  moreover have "b \<in> descendants m h" if "c \<in> set (c_children cap)" "b \<in> descendants (m(h := None)) c" for b c
    using that(2)
  proof (induction rule: descendants_induct)
    case self
    then have "(h, c) \<in> cap_edges m" using that(1) assms by (auto simp: cap_edges_def split: if_splits)
    then show ?case by (rule descendants_step [rotated]) (simp add: assms)
  next
    case (step a b)
    have "(a, b) \<in> cap_edges m" using step.hyps(2) by (auto simp: cap_edges_def split: if_splits)
    with step.IH show ?case by (rule descendants_step)
  qed
  ultimately show ?thesis using assms by auto
qed

text \<open>The audit log keeps the most recent entries.\<close>

definition last_entries :: "'b list \<Rightarrow> 'b list" where
  "last_entries xs = drop (length xs - MAX_AUDIT_LOG_ENTRIES) xs"

lemma length_last_entries [simp]: "length (last_entries xs) \<le> MAX_AUDIT_LOG_ENTRIES"
  by (simp add: last_entries_def)

lemma last_entries_short: "length xs \<le> MAX_AUDIT_LOG_ENTRIES \<Longrightarrow> last_entries xs = xs"
  by (simp add: last_entries_def)

lemma last_entries_append: "last_entries (last_entries xs @ ys) = last_entries (xs @ ys)"
  by (cases "length xs \<le> MAX_AUDIT_LOG_ENTRIES") (simp_all add: last_entries_def add.commute)

lemma log_audit_last:
  assumes "length (cm_audit s) \<le> MAX_AUDIT_LOG_ENTRIES"
  shows "cm_audit (log_audit e s) = last_entries (cm_audit s @ [e])"
proof (cases "length (cm_audit s) = MAX_AUDIT_LOG_ENTRIES")
  case True
  then have "drop 1 (cm_audit s @ [e]) = tl (cm_audit s) @ [e]" by (cases "cm_audit s") auto
  with True show ?thesis by (simp add: log_audit_def last_entries_def)
next
  case False
  with assms show ?thesis by (simp add: log_audit_def last_entries_def)
qed

text \<open>
  \<open>revokes l r s s'\<close>: going from \<open>s\<close> to \<open>s'\<close> removed exactly the live capabilities in the
  list \<open>l\<close>, from the registry and from the table of the thread that owned each of them,
  and logged them in that order.
\<close>

definition revokes :: "cap_handle list \<Rightarrow> thread_id \<Rightarrow> 'a cap_sys_scheme \<Rightarrow> 'a cap_sys_scheme \<Rightarrow> bool" where
  "revokes l r s s' \<longleftrightarrow>
     distinct l \<and> (\<forall>k \<in> set l. bt_get (cm_global s) k \<noteq> None) \<and>
     bt_get (cm_global s') = bt_get (cm_global s) |` (- set l) \<and>
     held_cap s' = (\<lambda>i k. if k \<in> set l \<and> map_option c_owner (bt_get (cm_global s) k) = Some i
                          then None else held_cap s i k) \<and>
     cm_next_handle s' = cm_next_handle s \<and> sys_ticks s' = sys_ticks s \<and>
     (bt_wf (cm_global s) \<longrightarrow> bt_wf (cm_global s')) \<and>
     (length (cm_audit s) \<le> MAX_AUDIT_LOG_ENTRIES \<longrightarrow>
        cm_audit s' = last_entries (cm_audit s @ map (\<lambda>k. audit_entry AuditRevoke r k s) l))"

lemma revokes_Nil: "revokes [] r s s"
  by (simp add: revokes_def last_entries_short restrict_map_def)

lemma audit_entry_ticks: "sys_ticks s = sys_ticks t \<Longrightarrow> audit_entry ev r k s = audit_entry ev r k t"
  by (simp add: audit_entry_def)

lemma revokes_append:
  assumes "revokes l1 r s s1" and "revokes l2 r s1 s2"
  shows "revokes (l1 @ l2) r s s2"
proof -
  have disj: "k \<notin> set l1 \<and> bt_get (cm_global s) k \<noteq> None" if "k \<in> set l2" for k
    using that assms by (fastforce simp: revokes_def restrict_map_def split: if_splits)
  moreover have "cm_audit s2 = last_entries (cm_audit s @ map (\<lambda>k. audit_entry AuditRevoke r k s) (l1 @ l2))"
    if "length (cm_audit s) \<le> MAX_AUDIT_LOG_ENTRIES"
  proof -
    from assms that have a1: "cm_audit s1 = last_entries (cm_audit s @ map (\<lambda>k. audit_entry AuditRevoke r k s) l1)"
      and t: "sys_ticks s1 = sys_ticks s" by (simp_all add: revokes_def)
    from a1 have "length (cm_audit s1) \<le> MAX_AUDIT_LOG_ENTRIES" by (simp only: length_last_entries)
    with assms(2) have "cm_audit s2 = last_entries (cm_audit s1 @ map (\<lambda>k. audit_entry AuditRevoke r k s1) l2)"
      by (simp add: revokes_def)
    with a1 t show ?thesis by (simp add: last_entries_append audit_entry_ticks [of s1 s])
  qed
  ultimately show ?thesis using assms
    by (auto simp: revokes_def restrict_map_def fun_eq_iff)
qed

lemma revokes_one:
  assumes "bt_get (cm_global s) h = Some cap"
  shows "revokes [h] r s (revoke_one cap h r s)"
proof -
  define s1 where "s1 = s\<lparr>cm_global := bt_remove h (cm_global s)\<rparr>"
  obtain x s2 where rm: "sys_remove_cap (c_owner cap) h s1 = (x, s2)" by fastforce
  have one: "revoke_one cap h r s = log_audit (audit_entry AuditRevoke r h s2) s2"
    using rm by (simp add: revoke_one_def s1_def Let_def)
  note f = sys_remove_cap_frame [OF rm] tables.remove_held [OF rm]
  then have "cm_audit s2 = cm_audit s" "sys_ticks s2 = sys_ticks s" by (simp_all add: s1_def)
  then show ?thesis using assms f
    by (auto simp: revokes_def one s1_def restrict_map_def fun_eq_iff log_audit_last audit_entry_ticks [of s2 s])
qed

lemma revoke_spec:
  "revoke h r s = (x, s') \<Longrightarrow>
     (case x of
        Inl e \<Rightarrow> e = CapNotFound \<and> bt_get (cm_global s) h = None \<and> s' = s
      | Inr l \<Rightarrow> bt_get (cm_global s) h \<noteq> None \<and> set l = descendants (bt_get (cm_global s)) h \<and> revokes l r s s')"
  "revoke_children hs r s = (l, s') \<Longrightarrow>
     set l = (\<Union>c \<in> set hs. descendants (bt_get (cm_global s)) c) \<and> revokes l r s s'"
proof (induction h r s and hs r s arbitrary: x s' and l s' rule: revoke_revoke_children.induct)
  case (1 h r s)
  show ?case
  proof (cases "bt_get (cm_global s) h")
    case (Some cap)
    obtain l where l: "revoke_children (c_children cap) r (revoke_one cap h r s) = (l, s')" "x = Inr (h # l)"
      using "1.prems" Some by (auto split: prod.splits)
    have m: "bt_get (cm_global (revoke_one cap h r s)) = (bt_get (cm_global s))(h := None)"
      by (auto simp: fun_eq_iff)
    note IH = "1.IH" [OF Some l(1), unfolded m]
    have "revokes ([h] @ l) r s s'" by (rule revokes_append [OF revokes_one [OF Some]]) (use IH in simp)
    moreover have "set (h # l) = descendants (bt_get (cm_global s)) h"
      using IH descendants_unfold [where m = "bt_get (cm_global s)", OF Some] by (simp add: fun_upd_def)
    ultimately show ?thesis by (simp add: l(2) Some)
  qed (use "1.prems" in auto)
next
  case (2 r s)
  then show ?case by (auto simp: revokes_Nil)
next
  case (3 c cs r s)
  obtain y s1 where y: "revoke c r s = (y, s1)" by fastforce
  obtain rest where rest: "revoke_children cs r s1 = (rest, s')"
    and l: "l = (case y of Inr child_revoked \<Rightarrow> child_revoked @ rest | Inl _ \<Rightarrow> rest)"
    using "3.prems" y by (auto simp: Let_def split: prod.splits)
  note IH1 = "3.IH"(1) [OF y]
  note IH2 = "3.IH"(2) [OF y [symmetric] refl rest]
  show ?case
  proof (cases y)
    case (Inl e)
    with IH1 IH2 l show ?thesis by auto
  next
    case (Inr cr)
    let ?m = "bt_get (cm_global s)"
    from IH1 Inr have c: "set cr = descendants ?m c" "revokes cr r s s1" by auto
    then have "bt_get (cm_global s1) = ?m |` (- descendants ?m c)" by (simp add: revokes_def)
    then have "descendants (bt_get (cm_global s1)) k = descendants ?m k - descendants ?m c" for k
      using descendants_restrict [of "descendants ?m c" ?m k] descendants_step by metis
    with IH2 c Inr l revokes_append [OF c(2)] show ?thesis by auto
  qed
qed

declare revoke.simps [simp del]

section \<open>The invariant of the manager\<close>

type_synonym cap_map = "cap_handle \<Rightarrow> capability option"

definition authority :: "capability \<Rightarrow> cap_handle \<times> resource_type \<times> cap_permissions \<times> cap_handle option" where
  "authority c = (c_handle c, c_resource c, c_permissions c, c_parent c)"

text \<open>Every table entry is backed by the registry, which names its holder as the owner.\<close>

definition held_ok :: "cap_map \<Rightarrow> (thread_id \<Rightarrow> cap_map) \<Rightarrow> bool" where
  "held_ok G H \<longleftrightarrow> (\<forall>i h c. H i h = Some c \<longrightarrow>
     c_owner c = i \<and> (\<exists>g. G h = Some g \<and> c_owner g = i \<and> authority c = authority g))"

text \<open>
  The derivation links are consistent in both directions, point from older to newer
  handles, and a child has the parent's resource and no permission the parent lacks.
\<close>

definition derived_from :: "capability \<Rightarrow> capability \<Rightarrow> bool" where
  "derived_from g gp \<longleftrightarrow> c_parent g = Some (c_handle gp) \<and> c_resource g = c_resource gp
     \<and> perm_is_subset_of (c_permissions g) (c_permissions gp)"

definition cap_tree :: "u64 \<Rightarrow> cap_map \<Rightarrow> bool" where
  "cap_tree nxt G \<longleftrightarrow>
     (\<forall>p gp h. G p = Some gp \<longrightarrow> h \<in> set (c_children gp) \<longrightarrow> p < h \<and> h < nxt) \<and>
     (\<forall>p gp h g. G p = Some gp \<longrightarrow> h \<in> set (c_children gp) \<longrightarrow> G h = Some g \<longrightarrow> derived_from g gp) \<and>
     (\<forall>h g p. G h = Some g \<longrightarrow> c_parent g = Some p \<longrightarrow> (\<exists>gp. G p = Some gp \<and> h \<in> set (c_children gp)))"

definition cap_inv :: "'a cap_sys_scheme \<Rightarrow> bool" where
  "cap_inv s \<longleftrightarrow>
     registry_ok c_handle (cm_next_handle s) (cm_global s) \<and>
     cap_tree (cm_next_handle s) (bt_get (cm_global s)) \<and>
     held_ok (bt_get (cm_global s)) (held_cap s) \<and>
     length (cm_audit s) \<le> MAX_AUDIT_LOG_ENTRIES"

lemma cap_inv_audit [simp]: "cap_inv s \<Longrightarrow> cap_inv (log_audit e s)"
  by (simp add: cap_inv_def log_audit_last)

lemma cap_tree_root:
  assumes "cap_tree n G" and "G n = None" and "n \<noteq> u64_max" and "c_parent cap = None" and "c_children cap = []"
  shows "cap_tree (n + 1) (G(n \<mapsto> cap))"
proof -
  have "p < h \<and> h < n" if "G p = Some gp" "h \<in> set (c_children gp)" for p gp h
    using assms(1) that by (simp add: cap_tree_def)
  then have old: "p < h \<and> h < n + 1 \<and> h \<noteq> n" if "G p = Some gp" "h \<in> set (c_children gp)" for p gp h
    using that assms(3) by (fastforce simp: word_less_inc_iff)
  show ?thesis
    using assms old by (auto simp: cap_tree_def) (metis option.distinct(1))+
qed

lemma cap_tree_derive:
  assumes tree: "cap_tree n G" and n: "G n = None" "n \<noteq> u64_max" "\<And>k g. G k = Some g \<Longrightarrow> c_handle g = k \<and> k < n"
    and p: "G p = Some parent" and d: "capability_derive n parent t perms = Inr (parent', child, n')"
  shows "cap_tree n' (G(p \<mapsto> parent', n \<mapsto> child))"
proof -
  from d have parent': "parent' = parent\<lparr>c_children := c_children parent @ [n]\<rparr>"
    and child: "child = \<lparr>c_handle = n, c_resource = c_resource parent, c_permissions = perms,
        c_owner = t, c_parent = Some (c_handle parent), c_children = []\<rparr>"
    and n': "n' = n + 1" and sub: "perm_is_subset_of perms (c_permissions parent)"
    by (auto simp: capability_derive_def cap_handle_new_def split: if_splits)
  have pn: "c_handle parent = p" "p < n" using n(3) [OF p] by auto
  have kids: "q < h \<and> h < n" if "G q = Some g" "h \<in> set (c_children g)" for q g h
    using tree that by (simp add: cap_tree_def)
  have kids': "q < h \<and> h < n'" if "(G(p \<mapsto> parent', n \<mapsto> child)) q = Some g" "h \<in> set (c_children g)" for q g h
    using that kids [of q] kids [OF p] pn n(2)
    by (auto simp: parent' child n' word_less_inc_iff less_imp_le split: if_splits)
  have der: "derived_from g' gp" if "(G(p \<mapsto> parent', n \<mapsto> child)) q = Some gp" "h \<in> set (c_children gp)"
    "(G(p \<mapsto> parent', n \<mapsto> child)) h = Some g'" for q gp h g'
  proof -
    from tree have old: "derived_from g' gp" if "G q = Some gp" "h \<in> set (c_children gp)" "G h = Some g'" for q gp h g'
      using that by (simp add: cap_tree_def)
    have upd: "derived_from (g\<lparr>c_children := xs\<rparr>) gp = derived_from g gp"
      "derived_from g (gp\<lparr>c_children := xs\<rparr>) = derived_from g gp" for g gp xs
      by (simp_all add: derived_from_def)
    have new: "derived_from child parent" using sub by (simp add: derived_from_def child)
    show ?thesis using that old [of q] old [OF p] new kids [of q gp h] kids [OF p, of h] p pn
      by (auto simp: parent' upd split: if_splits) (auto simp: child upd split: if_splits)
  qed
  have up: "\<exists>gp. (G(p \<mapsto> parent', n \<mapsto> child)) q = Some gp \<and> h \<in> set (c_children gp)"
    if "(G(p \<mapsto> parent', n \<mapsto> child)) h = Some g" "c_parent g = Some q" for h g q
  proof -
    from tree have old: "\<exists>gp. G q = Some gp \<and> h \<in> set (c_children gp)" if "G h = Some g" "c_parent g = Some q" for h g q
      using that by (simp add: cap_tree_def)
    show ?thesis using that old [of h g q] old [OF p, of q] n(1) p pn
      by (auto simp: parent' child split: if_splits)
  qed
  from kids' der up show ?thesis unfolding cap_tree_def by blast
qed

lemma cap_tree_owner:
  assumes "cap_tree n G" and "G h = Some g"
  shows "cap_tree n (G(h \<mapsto> g\<lparr>c_owner := t\<rparr>))"
proof -
  have upd: "derived_from (g\<lparr>c_owner := t\<rparr>) gp = derived_from g gp"
    "derived_from gp (g\<lparr>c_owner := t\<rparr>) = derived_from gp g" for gp
    by (simp_all add: derived_from_def)
  show ?thesis using assms unfolding cap_tree_def
    by (auto simp: upd) (metis option.inject)+
qed

lemma cap_tree_restrict:
  assumes "cap_tree n G" and "\<And>a b. a \<in> S \<Longrightarrow> (a, b) \<in> cap_edges G \<Longrightarrow> b \<in> S"
  shows "cap_tree n (G |` (- S))"
proof -
  have "p \<notin> S" if "G h = Some g" "c_parent g = Some p" "h \<notin> S" for h g p
  proof -
    from assms(1) that have "(p, h) \<in> cap_edges G" by (auto simp: cap_tree_def cap_edges_def)
    with that(3) assms(2) show ?thesis by blast
  qed
  with assms(1) show ?thesis
    by (auto simp: cap_tree_def restrict_map_def split: if_splits)
qed

section \<open>Every operation keeps the invariant\<close>

lemma cap_inv_create:
  assumes inv: "cap_inv s" and n: "cm_next_handle s \<noteq> u64_max"
  shows "cap_inv (snd (create_root_capability res owner perms s))"
proof -
  let ?n = "cm_next_handle s"
  define cap where "cap = \<lparr>c_handle = ?n, c_resource = res, c_permissions = perms, c_owner = owner,
    c_parent = None, c_children = []\<rparr>"
  from inv have reg: "registry_ok c_handle ?n (cm_global s)" by (simp add: cap_inv_def)
  note fresh = registry_fresh [OF reg]
  define s1 where "s1 = s\<lparr>cm_next_handle := ?n + 1, cm_global := bt_insert ?n cap (cm_global s)\<rparr>"
  have eq: "snd (create_root_capability res owner perms s) = log_audit (audit_entry AuditCreate owner ?n s1) s1"
    using fresh by (simp add: create_root_capability_def capability_new_root_def cap_handle_new_def
        cap_register_def bt_contains_def Let_def s1_def cap_def)
  have g: "bt_get (bt_insert ?n cap (cm_global s)) = (bt_get (cm_global s))(?n \<mapsto> cap)"
    by (auto simp: fun_eq_iff)
  have "cap_tree (?n + 1) ((bt_get (cm_global s))(?n \<mapsto> cap))"
    using inv n fresh by (intro cap_tree_root) (auto simp: cap_inv_def cap_def)
  moreover have "held_ok ((bt_get (cm_global s))(?n \<mapsto> cap)) (held_cap s)"
    using inv fresh by (fastforce simp: cap_inv_def held_ok_def)
  moreover have "registry_ok c_handle (?n + 1) (bt_insert ?n cap (cm_global s))"
    using reg n by (simp add: registry_alloc cap_def)
  ultimately have "cap_inv s1" using inv by (simp add: cap_inv_def s1_def g)
  then show ?thesis by (simp add: eq)
qed

lemma held_ok_add:
  assumes "held_ok G (held_cap s)" and "sys_add_cap i cap s = (r, s')"
    and "c_owner cap = i" and "G (c_handle cap) = Some g" and "c_owner g = i" and "authority cap = authority g"
  shows "held_ok G (held_cap s')"
  unfolding held_ok_def
proof (intro allI impI)
  fix j k c assume "held_cap s' j k = Some c"
  from tables.add_subset [OF assms(2) this]
  consider "held_cap s j k = Some c" | "j = i" "k = c_handle cap" "c = cap" by blast
  then show "c_owner c = j \<and> (\<exists>g. G k = Some g \<and> c_owner g = j \<and> authority c = authority g)"
    by cases (use assms in \<open>simp_all add: held_ok_def\<close>)
qed

lemma cap_inv_grant:
  assumes "cap_inv s" and "sys_add_cap i cap s = (r, s')"
    and "c_owner cap = i" and "bt_get (cm_global s) (c_handle cap) = Some g" and "c_owner g = i" and "authority cap = authority g"
  shows "cap_inv s'"
proof -
  have "held_ok (bt_get (cm_global s)) (held_cap s')"
    by (rule held_ok_add [where g = g and cap = cap and s = s and i = i and r = r]) (use assms in \<open>auto simp: cap_inv_def\<close>)
  with assms(1) sys_add_cap_frame [OF assms(2)] show ?thesis by (simp add: cap_inv_def)
qed

lemma cap_inv_remove:
  assumes "cap_inv s" and "sys_remove_cap i h s = (r, s')"
  shows "cap_inv s'"
proof -
  have "held_ok (bt_get (cm_global s)) (held_cap s')"
    using assms(1) tables.remove_subset [OF assms(2)] unfolding held_ok_def cap_inv_def by metis
  with assms(1) sys_remove_cap_frame [OF assms(2)] show ?thesis by (simp add: cap_inv_def)
qed

lemma cap_inv_held:
  assumes "cap_inv s" and "held_cap s i h = Some c"
  obtains g where "bt_get (cm_global s) h = Some g" "c_owner g = i" "authority c = authority g"
    "c_owner c = i" "c_handle c = h" "c_handle g = h" "c_permissions c = c_permissions g"
proof -
  from assms obtain g where g: "bt_get (cm_global s) h = Some g" "c_owner g = i" "authority c = authority g" "c_owner c = i"
    unfolding cap_inv_def held_ok_def by metis
  moreover from g assms(1) have "c_handle g = h" by (auto simp: cap_inv_def registry_ok_def)
  ultimately show thesis using that by (auto simp: authority_def)
qed

lemma cap_inv_move:
  assumes inv: "cap_inv s1" and g: "bt_get (cm_global s1) h = Some g" and none: "\<And>i. held_cap s1 i h = None"
    and add: "sys_add_cap t c s1 = (Inr k, s2)" and c: "authority c = authority g" "c_owner c = t"
  shows "cap_inv (s2\<lparr>cm_global := bt_insert h (g\<lparr>c_owner := t\<rparr>) (cm_global s2)\<rparr>)"
proof -
  note f = sys_add_cap_frame [OF add]
  have eq: "bt_get (bt_insert h (g\<lparr>c_owner := t\<rparr>) (cm_global s1)) = (bt_get (cm_global s1))(h \<mapsto> g\<lparr>c_owner := t\<rparr>)"
    by (auto simp: fun_eq_iff)
  have gh: "c_handle g = h \<and> h < cm_next_handle s1"
    using inv g by (auto simp: cap_inv_def registry_ok_def)
  then have ch: "c_handle c = h" using c by (simp add: authority_def)
  have "held_ok ((bt_get (cm_global s1))(h \<mapsto> g\<lparr>c_owner := t\<rparr>)) (held_cap s2)"
    unfolding held_ok_def
  proof (intro allI impI)
    fix i h' c' assume "held_cap s2 i h' = Some c'"
    from tables.add_subset [OF add this] ch
    consider "held_cap s1 i h' = Some c'" | "i = t" "h' = h" "c' = c" by auto
    then show "c_owner c' = i \<and> (\<exists>g'. ((bt_get (cm_global s1))(h \<mapsto> g\<lparr>c_owner := t\<rparr>)) h' = Some g'
        \<and> c_owner g' = i \<and> authority c' = authority g')"
    proof cases
      case 1
      with none have "h' \<noteq> h" by auto
      with 1 inv show ?thesis by (auto simp: cap_inv_def held_ok_def)
    next
      case 2
      with c show ?thesis by (auto simp: authority_def)
    qed
  qed
  with inv g f gh show ?thesis
    by (simp add: cap_inv_def eq registry_insert cap_tree_owner)
qed

lemma cap_inv_transfer:
  assumes inv: "cap_inv s"
  shows "cap_inv (snd (transfer_capability h source target s))"
proof -
  obtain x s1 where rm: "sys_remove_cap source h s = (x, s1)" by fastforce
  note inv1 = cap_inv_remove [OF inv rm] and f1 = sys_remove_cap_frame [OF rm] and h1 = tables.remove_held [OF rm]
  show ?thesis
  proof (cases x)
    case None
    with rm inv1 show ?thesis by (simp add: transfer_capability_def)
  next
    case (Some c)
    with h1 have held: "held_cap s source h = Some c" by simp
    from cap_inv_held [OF inv held] obtain g where g: "bt_get (cm_global s) h = Some g" "c_owner g = source"
      "authority c = authority g" "c_owner c = source" "c_handle c = h" by metis
    obtain y s2 where bk: "sys_add_cap source c s1 = (y, s2)" by fastforce
    have "cap_inv s2" by (rule cap_inv_grant [OF inv1 bk]) (use g f1 in auto)
    obtain z s3 where add: "sys_add_cap target (c\<lparr>c_owner := target\<rparr>) s1 = (z, s3)" by fastforce
    note f3 = sys_add_cap_frame [OF add]
    show ?thesis
    proof (cases z)
      case (Inl e)
      have "held_cap s3 = held_cap s1" using add Inl tables.add_err by blast
      with inv1 f3 have "cap_inv s3" by (simp add: cap_inv_def)
      with \<open>cap_inv s2\<close> rm Some bk add Inl show ?thesis by (simp add: transfer_capability_def)
    next
      case (Inr k)
      have none: "held_cap s1 i h = None" for i
      proof (cases "held_cap s i h")
        case (Some c')
        from cap_inv_held [OF inv this] g(1,2) have "i = source" by (metis option.inject)
        with h1 show ?thesis by simp
      qed (use h1 in simp)
      have "cap_inv (s3\<lparr>cm_global := bt_insert h (g\<lparr>c_owner := target\<rparr>) (cm_global s3)\<rparr>)"
        by (rule cap_inv_move [OF inv1 _ none add [unfolded Inr]]) (use g f1 in \<open>auto simp: authority_def\<close>)
      with \<open>cap_inv s2\<close> rm Some bk add Inr g f1 f3 show ?thesis by (simp add: transfer_capability_def Let_def)
    qed
  qed
qed

lemma cap_inv_derive:
  assumes inv: "cap_inv s" and n: "cm_next_handle s \<noteq> u64_max"
  shows "cap_inv (snd (derive_capability ph owner new_owner perms s))"
proof -
  let ?n = "cm_next_handle s" and ?G = "bt_get (cm_global s)"
  consider (fail) "snd (derive_capability ph owner new_owner perms s) = s"
    | (ok) parent parent' child nxt where "?G ph = Some parent"
      "capability_derive ?n parent new_owner perms = Inr (parent', child, nxt)"
  proof (cases "\<exists>parent parent' child nxt. ?G ph = Some parent
      \<and> capability_derive ?n parent new_owner perms = Inr (parent', child, nxt)")
    case False
    then have "snd (derive_capability ph owner new_owner perms s) = s"
      by (auto simp: derive_capability_def split: option.split sum.split)
    with fail show ?thesis .
  qed (use ok in blast)
  then show ?thesis
  proof cases
    case ok
    define s1 where "s1 = s\<lparr>cm_next_handle := nxt,
      cm_global := bt_insert (c_handle child) child (bt_insert ph parent' (cm_global s))\<rparr>"
    from ok(2) have child: "c_handle child = ?n" "c_owner child = new_owner" and nxt: "nxt = ?n + 1"
      and parent': "parent' = parent\<lparr>c_children := c_children parent @ [?n]\<rparr>"
      by (auto simp: capability_derive_def cap_handle_new_def split: if_splits)
    from inv have reg: "registry_ok c_handle ?n (cm_global s)" by (simp add: cap_inv_def)
    note ph = registry_get [OF reg ok(1)] and fresh = registry_fresh [OF reg]
    have g1: "bt_get (cm_global s1) = ?G(ph \<mapsto> parent', ?n \<mapsto> child)"
      by (auto simp: s1_def fun_eq_iff child)
    have "registry_ok c_handle (?n + 1) (cm_global s1)"
      using reg n ph by (simp add: s1_def child registry_alloc registry_insert parent')
    moreover have "cap_tree nxt (bt_get (cm_global s1))"
      unfolding g1 by (rule cap_tree_derive [OF _ fresh n _ ok])
        (use inv reg in \<open>auto simp: cap_inv_def registry_ok_def\<close>)
    moreover have "held_ok (bt_get (cm_global s1)) (held_cap s1)"
      using inv fresh ok(1) unfolding g1
      by (fastforce simp: cap_inv_def held_ok_def s1_def parent' authority_def)
    ultimately have inv1: "cap_inv s1" using inv by (simp add: cap_inv_def s1_def nxt)
    obtain r s2 where add: "sys_add_cap new_owner child s1 = (r, s2)" by fastforce
    have inv2: "cap_inv s2" by (rule cap_inv_grant [OF inv1 add]) (auto simp: g1 child)
    have "snd (derive_capability ph owner new_owner perms s) \<in> {s, s2,
        log_audit (audit_entry_derive owner (c_handle child) ph s2) s2}"
      using ok add [unfolded s1_def]
      by (auto simp: derive_capability_def Let_def split: sum.splits)
    with inv inv2 show ?thesis by auto
  qed (use inv in simp)
qed

lemma cap_inv_revoke:
  assumes inv: "cap_inv s"
  shows "cap_inv (snd (revoke h r s))"
proof (cases "revoke h r s")
  case (Pair x s')
  show ?thesis
  proof (cases x)
    case (Inl e)
    with Pair revoke_spec(1) [OF Pair] inv show ?thesis by simp
  next
    case (Inr l)
    let ?G = "bt_get (cm_global s)"
    from revoke_spec(1) [OF Pair] Inr have l: "set l = descendants ?G h" and rv: "revokes l r s s'" by auto
    from rv have G': "bt_get (cm_global s') = ?G |` (- set l)" and nxt: "cm_next_handle s' = cm_next_handle s"
      and held': "\<And>i k. held_cap s' i k =
        (if k \<in> set l \<and> map_option c_owner (?G k) = Some i then None else held_cap s i k)"
      by (auto simp: revokes_def)
    have "registry_ok c_handle (cm_next_handle s) (cm_global s')"
      using inv rv by (auto simp: cap_inv_def registry_ok_def revokes_def restrict_map_def split: if_splits)
    moreover have "cap_tree (cm_next_handle s) (?G |` (- set l))"
      using inv l by (intro cap_tree_restrict) (auto simp: cap_inv_def intro: descendants_step)
    moreover have "held_ok (?G |` (- set l)) (held_cap s')"
      unfolding held_ok_def
    proof (intro allI impI)
      fix i k c assume "held_cap s' i k = Some c"
      then have "held_cap s i k = Some c" and k: "\<not> (k \<in> set l \<and> map_option c_owner (?G k) = Some i)"
        by (auto simp: held' split: if_splits)
      from cap_inv_held [OF inv this(1)] obtain g where "?G k = Some g" "c_owner g = i" "authority c = authority g" "c_owner c = i"
        by metis
      with k show "c_owner c = i \<and> (\<exists>g. (?G |` (- set l)) k = Some g \<and> c_owner g = i \<and> authority c = authority g)"
        by (auto simp: restrict_map_def)
    qed
    moreover have "length (cm_audit s') \<le> MAX_AUDIT_LOG_ENTRIES"
      using rv inv by (simp add: revokes_def cap_inv_def)
    ultimately show ?thesis by (simp add: Pair cap_inv_def G' nxt)
  qed
qed

section \<open>Reachable states\<close>

text \<open>
  The steps the kernel takes on this state. \<open>Grant\<close> is the caller's \<open>add_thread_capability\<close>
  of a capability that is in the registry to the thread the registry names as its owner;
  \<open>Spawn\<close> is a new thread with an empty table, \<open>Tick\<close> the timer. Creation and derivation
  are enabled while the 64-bit handle counter has not reached its last value.
\<close>

inductive cap_step :: "cap_sys \<Rightarrow> cap_sys \<Rightarrow> bool" where
  Create: "cm_next_handle s \<noteq> u64_max \<Longrightarrow> cap_step s (snd (create_root_capability res owner perms s))"
| Grant: "bt_get (cm_global s) h = Some cap \<Longrightarrow> cap_step s (snd (sys_add_cap (c_owner cap) cap s))"
| Derive: "cm_next_handle s \<noteq> u64_max \<Longrightarrow> cap_step s (snd (derive_capability ph owner new_owner perms s))"
| Transfer: "cap_step s (snd (transfer_capability h source target s))"
| Revoke: "cap_step s (snd (revoke h r s))"
| Spawn: "t_caps t = cap_table_new (t_id t) \<Longrightarrow>
    cap_step s (s\<lparr>sys_threads := list_add_thread t (sys_threads s), sys_next_tid := n\<rparr>)"
| Tick: "cap_step s (s\<lparr>sys_ticks := n\<rparr>)"

definition cap_boot :: cap_sys where
  "cap_boot = \<lparr>sys_threads = [], sys_next_tid = 1, sys_ticks = 0, cm_global = bt_empty, cm_audit = [],
     cm_next_handle = 1\<rparr>"

lemma held_cap_spawn:
  "t_caps t = cap_table_new (t_id t) \<Longrightarrow>
   held_cap (s\<lparr>sys_threads := list_add_thread t (sys_threads s), sys_next_tid := n\<rparr>) = held_cap s"
  by (auto simp: fun_eq_iff held_cap_def thread_cap_def list_add_thread_def find_tcb_append split: option.splits)

lemma cap_inv_step: "cap_step s s' \<Longrightarrow> cap_inv s \<Longrightarrow> cap_inv s'"
proof (induction rule: cap_step.induct)
  case (Grant s h cap)
  obtain r s' where add: "sys_add_cap (c_owner cap) cap s = (r, s')" by fastforce
  have "c_handle cap = h" using Grant by (auto simp: cap_inv_def registry_ok_def)
  with cap_inv_grant [OF Grant.prems add] Grant.hyps add show ?case by simp
next
  case (Spawn t s n)
  then show ?case using held_cap_spawn [of t n s] by (simp add: cap_inv_def)
next
  case (Tick s n)
  then show ?case by (simp add: cap_inv_def held_cap_def [abs_def])
qed (simp_all add: cap_inv_create cap_inv_derive cap_inv_transfer cap_inv_revoke)

lemma cap_inv_boot: "cap_inv cap_boot"
  by (simp add: cap_inv_def cap_boot_def registry_empty cap_tree_def held_ok_def held_cap_def thread_cap_def find_tcb_def)

lemma cap_inv_reach: "cap_step\<^sup>*\<^sup>* cap_boot s \<Longrightarrow> cap_inv s"
  by (induction rule: rtranclp_induct) (auto intro: cap_inv_boot cap_inv_step)

section \<open>Properties\<close>

definition thread_example :: "thread_id \<Rightarrow> thread" where
  "thread_example i = \<lparr>t_id = i, t_state = Ready, t_context = context_zero, t_kernel_stack = 0x9000,
     t_kernel_stack_size = 0x1000, t_address_space = 0, t_priority = PrioNormal, t_name = ''w'',
     t_caps = cap_table_new i\<rparr>"

definition cap_example_threads :: cap_sys where
  "cap_example_threads = cap_boot\<lparr>sys_threads := [thread_example 1, thread_example 2], sys_next_tid := 3\<rparr>"

definition cap_example_root :: cap_sys where
  "cap_example_root =
     (case create_root_capability (ResIpcPort 5) 1 PERM_ALL cap_example_threads of
        (Inr cap, s) \<Rightarrow> snd (sys_add_cap 1 cap s) | (Inl _, s) \<Rightarrow> s)"

definition cap_example :: cap_sys where
  "cap_example = snd (derive_capability 1 1 2 PERM_READ cap_example_root)"

lemma cap_step_spawn:
  assumes "t_caps t = cap_table_new (t_id t)"
  shows "cap_step s (s\<lparr>sys_threads := sys_threads s @ [t], sys_next_tid := n\<rparr>)"
  using cap_step.Spawn [OF assms, of s n] by (simp add: list_add_thread_def)

lemma cap_example_threads_reach: "cap_step\<^sup>*\<^sup>* cap_boot cap_example_threads"
proof -
  have c: "t_caps (thread_example i) = cap_table_new (t_id (thread_example i))" for i
    by (simp add: thread_example_def)
  have "cap_step cap_boot (cap_boot\<lparr>sys_threads := [thread_example 1], sys_next_tid := 2\<rparr>)"
    using cap_step_spawn [OF c [of 1], where s = cap_boot and n = 2] by (simp add: cap_boot_def)
  moreover have "cap_step (cap_boot\<lparr>sys_threads := [thread_example 1], sys_next_tid := 2\<rparr>) cap_example_threads"
    using cap_step_spawn [OF c [of 2], where s = "cap_boot\<lparr>sys_threads := [thread_example 1], sys_next_tid := 2\<rparr>" and n = 3]
    by (simp add: cap_example_threads_def)
  ultimately show ?thesis by (meson rtranclp.simps)
qed

lemma cap_example_root_eval:
  "create_root_capability (ResIpcPort 5) 1 PERM_ALL cap_example_threads =
     (Inr \<lparr>c_handle = 1, c_resource = ResIpcPort 5, c_permissions = PERM_ALL, c_owner = 1, c_parent = None, c_children = []\<rparr>,
      snd (create_root_capability (ResIpcPort 5) 1 PERM_ALL cap_example_threads))"
  "bt_get (cm_global (snd (create_root_capability (ResIpcPort 5) 1 PERM_ALL cap_example_threads))) 1 =
     Some \<lparr>c_handle = 1, c_resource = ResIpcPort 5, c_permissions = PERM_ALL, c_owner = 1, c_parent = None, c_children = []\<rparr>"
  by (simp_all add: create_root_capability_def capability_new_root_def cap_handle_new_def cap_register_def
      bt_contains_def Let_def cap_example_threads_def cap_boot_def)

lemma cap_example_reach: "cap_step\<^sup>*\<^sup>* cap_boot cap_example"
proof -
  let ?s = "snd (create_root_capability (ResIpcPort 5) 1 PERM_ALL cap_example_threads)"
  have "cap_step cap_example_threads ?s"
    by (rule cap_step.Create) (simp add: cap_example_threads_def cap_boot_def)
  moreover have "cap_step ?s cap_example_root"
    using cap_step.Grant [OF cap_example_root_eval(2)]
    by (subst cap_example_root_def, subst cap_example_root_eval(1)) simp
  moreover have "cm_next_handle cap_example_root = 2"
    by (simp add: cap_example_root_def create_root_capability_def capability_new_root_def cap_handle_new_def
        cap_register_def bt_contains_def Let_def cap_example_threads_def cap_boot_def sys_add_cap_def split: prod.splits)
  then have "cap_step cap_example_root cap_example"
    unfolding cap_example_def by (intro cap_step.Derive) simp
  ultimately show ?thesis using cap_example_threads_reach by (meson rtranclp.simps)
qed

lemmas cap_example_inv = cap_inv_reach [OF cap_example_reach]

text \<open>
  Single ownership and consistent derivation links hold in every state the kernel can
  reach: each table entry of a thread is backed by a live capability of the registry that
  names this thread as its only owner, with the same handle, resource, permissions and
  parent; parent and child links agree, and handles are unique and below the counter.
\<close>

lemma cap_invariant_reachable:
  assumes "cap_step\<^sup>*\<^sup>* cap_boot s"
  shows "cap_inv s"
  by (rule cap_inv_reach [OF assms])

text \<open>
  C13. Revocation is exact and complete: \<open>revoke\<close> terminates, fails with \<open>NotFound\<close> and no
  effect on an unknown handle, and otherwise removes from the registry exactly the
  capabilities reachable from the handle through child links, each once, removes each from
  the table of its owner, changes no other table entry, and logs them in order.
\<close>

theorem revoke_exact:
  "case revoke h r s of
     (Inl e, s') \<Rightarrow> e = CapNotFound \<and> bt_get (cm_global s) h = None \<and> s' = s
   | (Inr l, s') \<Rightarrow> bt_get (cm_global s) h \<noteq> None
       \<and> set l = descendants (bt_get (cm_global s)) h \<and> revokes l r s s'"
  using revoke_spec(1) [of h r s] by (simp split: prod.splits sum.splits)

text \<open>
  After a successful revocation no thread holds the revoked capability or anything
  derived from it, directly or through further derivations.
\<close>

lemma revoked_held_by_nobody:
  assumes "cap_inv s" and "revoke h r s = (Inr l, s')" and "k \<in> descendants (bt_get (cm_global s)) h"
  shows "held_cap s' i k = None \<and> bt_get (cm_global s') k = None"
proof (cases "held_cap s i k")
  case None
  with revoke_spec(1) [OF assms(2)] assms(3) show ?thesis by (auto simp: revokes_def restrict_map_def)
next
  case (Some c)
  from cap_inv_held [OF assms(1) Some] obtain g where "bt_get (cm_global s) k = Some g" "c_owner g = i" by metis
  with revoke_spec(1) [OF assms(2)] assms(3) show ?thesis by (auto simp: revokes_def restrict_map_def)
qed

text \<open>
  Authority only shrinks along derivations: everything derived from a capability, over
  any number of steps, is for the same resource and has no permission the original lacks.
\<close>

lemma derivation_attenuates:
  assumes "cap_inv s" and "k \<in> descendants (bt_get (cm_global s)) h"
    and "bt_get (cm_global s) h = Some g" and "bt_get (cm_global s) k = Some d"
  shows "perm_set (c_permissions d) \<subseteq> perm_set (c_permissions g) \<and> c_resource d = c_resource g \<and> h \<le> k"
  using assms(2,4)
proof (induction arbitrary: d rule: descendants_induct)
  case self
  with assms(3) show ?case by simp
next
  case (step a b)
  then obtain ga where a: "bt_get (cm_global s) a = Some ga" "b \<in> set (c_children ga)"
    by (auto simp: cap_edges_def)
  with assms(1) step.prems have "derived_from d ga" "a < b" by (auto simp: cap_inv_def cap_tree_def)
  with step.IH [OF a(1)] show ?case by (auto simp: derived_from_def perm_subset_iff)
qed

text \<open>
  A successful transfer moves the capability: the source held it with the \<open>GRANT\<close>
  permission, afterwards the target holds it with the same authority, the registry names
  the target as owner, and no other thread holds it.
\<close>

lemma transfer_moves:
  assumes inv: "cap_inv s" and tr: "transfer_capability h source target s = (Inr (), s')"
  shows "\<exists>c g. held_cap s source h = Some c \<and> has_permission c PERM_GRANT
    \<and> held_cap s' target h = Some (c\<lparr>c_owner := target\<rparr>) \<and> bt_get (cm_global s) h = Some g
    \<and> bt_get (cm_global s') h = Some (g\<lparr>c_owner := target\<rparr>)
    \<and> (\<forall>i. i \<noteq> target \<longrightarrow> held_cap s' i h = None)"
proof -
  have inv': "cap_inv s'" using cap_inv_transfer [OF inv, of h source target] tr by simp
  obtain x s1 where rm: "sys_remove_cap source h s = (x, s1)" by fastforce
  from tr rm obtain c where x: "x = Some c" by (cases x) (auto simp: transfer_capability_def)
  from tables.remove_held [OF rm] x have held: "held_cap s source h = Some c" by simp
  from cap_inv_held [OF inv held] obtain g where g: "bt_get (cm_global s) h = Some g" "c_handle c = h" by metis
  obtain z s2 where add: "sys_add_cap target (c\<lparr>c_owner := target\<rparr>) s1 = (z, s2)" by fastforce
  note f = sys_remove_cap_frame [OF rm] sys_add_cap_frame [OF add]
  from tr rm x add f g have perm: "has_permission c PERM_GRANT"
    and z: "\<exists>k. z = Inr k"
    and s': "s' = (let s3 = s2\<lparr>cm_global := bt_insert h (g\<lparr>c_owner := target\<rparr>) (cm_global s2)\<rparr>
                   in log_audit (audit_entry_transfer source h target s3) s3)"
    by (auto simp: transfer_capability_def Let_def split: if_splits sum.splits)
  from z obtain k where zk: "z = Inr k" by blast
  from tables.add_ok [OF add [unfolded zk]] g have t: "held_cap s' target h = Some (c\<lparr>c_owner := target\<rparr>)"
    by (simp add: s' Let_def)
  have gl: "bt_get (cm_global s') h = Some (g\<lparr>c_owner := target\<rparr>)" by (simp add: s' Let_def)
  have "held_cap s' i h = None" if "i \<noteq> target" for i
  proof (rule ccontr)
    assume "held_cap s' i h \<noteq> None"
    then obtain c' where "held_cap s' i h = Some c'" by blast
    from cap_inv_held [OF inv' this] gl that show False
      by (metis option.inject select_convs(4) capability.select_convs(4) capability.surjective capability.update_convs(4))
  qed
  with held perm t g gl show ?thesis by blast
qed

text \<open>
  C14. Derivation checks and grants exactly what it should: on success the caller owned the
  parent with \<open>GRANT\<close>, the requested permissions are a subset of the parent's, the child is
  a new handle that the new owner holds with the requested permissions on the parent's
  resource, it is recorded as a child of the parent, and no other capability changes.
\<close>

theorem derive_grants_subset:
  assumes inv: "cap_inv s" and d: "derive_capability ph owner new_owner perms s = (Inr h, s')"
  shows "\<exists>parent child. bt_get (cm_global s) ph = Some parent \<and> c_owner parent = owner
    \<and> has_permission parent PERM_GRANT \<and> perm_set perms \<subseteq> perm_set (c_permissions parent)
    \<and> bt_get (cm_global s) h = None
    \<and> child = \<lparr>c_handle = h, c_resource = c_resource parent, c_permissions = perms, c_owner = new_owner,
        c_parent = Some ph, c_children = []\<rparr>
    \<and> held_cap s' new_owner h = Some child
    \<and> bt_get (cm_global s') = (bt_get (cm_global s))
        (ph \<mapsto> parent\<lparr>c_children := c_children parent @ [h]\<rparr>, h \<mapsto> child)"
proof -
  let ?n = "cm_next_handle s"
  from inv have reg: "registry_ok c_handle ?n (cm_global s)" by (simp add: cap_inv_def)
  from d obtain parent parent' child nxt where p: "bt_get (cm_global s) ph = Some parent" "is_owned_by parent owner"
      "has_permission parent PERM_GRANT"
    and dr: "capability_derive ?n parent new_owner perms = Inr (parent', child, nxt)"
    by (fastforce simp: derive_capability_def split: if_splits option.splits sum.splits)
  define s1 where "s1 = s\<lparr>cm_next_handle := nxt,
      cm_global := bt_insert (c_handle child) child (bt_insert ph parent' (cm_global s))\<rparr>"
  obtain r s2 where add: "sys_add_cap new_owner child s1 = (r, s2)" by fastforce
  note f = sys_add_cap_frame [OF add]
  from d p dr add [unfolded s1_def] have h: "h = c_handle child" and r: "\<exists>k. r = Inr k"
    and s': "s' = log_audit (audit_entry_derive owner (c_handle child) ph s2) s2"
    by (auto simp: derive_capability_def Let_def split: if_splits sum.splits)
  from dr have child: "child = \<lparr>c_handle = ?n, c_resource = c_resource parent, c_permissions = perms,
        c_owner = new_owner, c_parent = Some (c_handle parent), c_children = []\<rparr>"
    and parent': "parent' = parent\<lparr>c_children := c_children parent @ [?n]\<rparr>"
    and sub: "perm_is_subset_of perms (c_permissions parent)"
    by (auto simp: capability_derive_def cap_handle_new_def split: if_splits)
  from r obtain k where k: "r = Inr k" by blast
  have held: "held_cap s2 new_owner (c_handle child) = Some child"
    using tables.add_ok [OF add [unfolded k]] by simp
  have "c_handle parent = ph" using registry_get [OF reg p(1)] by simp
  moreover have "bt_get (cm_global s') = (bt_get (cm_global s))(ph \<mapsto> parent', h \<mapsto> child)"
    using f by (auto simp: s' s1_def h fun_eq_iff)
  moreover have "bt_get (cm_global s) h = None"
    using registry_fresh [OF reg] by (simp add: h child)
  ultimately show ?thesis using p held sub
    by (simp add: s' h is_owned_by_def perm_subset_iff) (simp add: child parent')
qed

theorem derive_grants_subset_witness:
  "fst (derive_capability 1 1 2 PERM_READ cap_example) = Inr 3
   \<and> bt_get (cm_global cap_example) 3 = None
   \<and> held_cap (snd (derive_capability 1 1 2 PERM_READ cap_example)) 2 3 \<noteq> None"
proof -
  have t: "fst (derive_capability 1 1 2 PERM_READ cap_example) = Inr 3" by code_simp
  then have "derive_capability 1 1 2 PERM_READ cap_example = (Inr 3, snd (derive_capability 1 1 2 PERM_READ cap_example))"
    by (metis prod.collapse)
  from derive_grants_subset [OF cap_example_inv this] t show ?thesis by force
qed

end
