(* ===== verification/Scheduler.thy ===== *)
theory Scheduler
  imports Cap_Manager
begin

text \<open>
  The scheduler, \<^verbatim>\<open>kernel/src/sched.rs\<close>: four ready queues indexed by priority, base and
  effective priorities, the current and the idle thread, the timer tick, and the context
  switch. The state extends the one of the capability manager because a switch changes
  thread states; it also has the register file, the ring-0 stack pointer of the task state
  segment and the set of threads that have entered user mode.
\<close>

section \<open>State\<close>

abbreviation PRIORITY_LEVELS :: nat where
  "PRIORITY_LEVELS \<equiv> 4"

type_synonym ready_queues = "thread_id list list"

record sched_sys = cap_sys +
  sc_ready :: ready_queues
  sc_base :: "(thread_id, thread_priority) btree"
  sc_effective :: "(thread_id, thread_priority) btree"
  sc_current :: "thread_id option"
  sc_idle :: "thread_id option"
  sc_initialized :: bool
  sc_cpu :: cpu_context
  sc_rsp0 :: u64
  sc_user_entries :: "(thread_id, unit) btree"

section \<open>Ready queues\<close>

definition rq_new :: ready_queues where
  "rq_new = replicate PRIORITY_LEVELS []"

definition rq_push :: "thread_id \<Rightarrow> thread_priority \<Rightarrow> ready_queues \<Rightarrow> ready_queues" where
  "rq_push i prio q =
     (let idx = prio_index prio in if idx < PRIORITY_LEVELS then q[idx := q ! idx @ [i]] else q)"

fun rq_scan :: "nat list \<Rightarrow> ready_queues \<Rightarrow> thread_id option \<times> ready_queues" where
  "rq_scan [] q = (None, q)"
| "rq_scan (idx # rest) q =
     (case q ! idx of
        [] \<Rightarrow> rq_scan rest q
      | i # is \<Rightarrow> (Some i, q[idx := is @ [i]]))"

definition rq_pop_next :: "ready_queues \<Rightarrow> thread_id option \<times> ready_queues" where
  "rq_pop_next q = rq_scan (rev [0 ..< PRIORITY_LEVELS]) q"

definition rq_is_empty :: "ready_queues \<Rightarrow> bool" where
  "rq_is_empty q \<longleftrightarrow> list_all (\<lambda>l. l = []) q"

section \<open>Priorities\<close>

definition get_priority :: "thread_id \<Rightarrow> 'a sched_sys_scheme \<Rightarrow> thread_priority" where
  "get_priority i s = (case bt_get (sc_effective s) i of Some p \<Rightarrow> p | None \<Rightarrow> PrioNormal)"

definition get_base_priority :: "thread_id \<Rightarrow> 'a sched_sys_scheme \<Rightarrow> thread_priority" where
  "get_base_priority i s = (case bt_get (sc_base s) i of Some p \<Rightarrow> p | None \<Rightarrow> PrioNormal)"

definition boost_priority :: "thread_id \<Rightarrow> thread_priority \<Rightarrow> 'a sched_sys_scheme \<Rightarrow> bool \<times> 'a sched_sys_scheme" where
  "boost_priority i new_priority s =
     (if new_priority > get_priority i s
      then (True, s\<lparr>sc_effective := bt_insert i new_priority (sc_effective s)\<rparr>)
      else (False, s))"

definition restore_original_priority :: "thread_id \<Rightarrow> 'a sched_sys_scheme \<Rightarrow> 'a sched_sys_scheme" where
  "restore_original_priority i s =
     s\<lparr>sc_effective := bt_insert i (get_base_priority i s) (sc_effective s)\<rparr>"

section \<open>Scheduling\<close>

definition sys_set_state :: "thread_id \<Rightarrow> thread_state \<Rightarrow> 'a sched_sys_scheme \<Rightarrow> 'a sched_sys_scheme" where
  "sys_set_state i st s = s\<lparr>sys_threads := snd (set_thread_state i st (sys_threads s))\<rparr>"

definition sched_init :: "thread \<Rightarrow> 'a sched_sys_scheme \<Rightarrow> thread_id \<times> 'a sched_sys_scheme" where
  "sched_init idle_thread s =
     (let idle_id = t_id idle_thread;
          s1 = s\<lparr>sys_threads := list_add_thread idle_thread (sys_threads s),
                 sc_idle := Some idle_id, sc_current := Some idle_id,
                 sc_base := bt_insert idle_id PrioIdle (sc_base s),
                 sc_effective := bt_insert idle_id PrioIdle (sc_effective s)\<rparr>
      in (idle_id, (sys_set_state idle_id Running s1)\<lparr>sc_initialized := True\<rparr>))"

definition sched_add_thread :: "thread \<Rightarrow> 'a sched_sys_scheme \<Rightarrow> thread_id \<times> 'a sched_sys_scheme" where
  "sched_add_thread t s =
     (let i = t_id t; priority = t_priority t;
          s1 = s\<lparr>sys_threads := list_add_thread t (sys_threads s),
                 sc_base := bt_insert i priority (sc_base s),
                 sc_effective := bt_insert i priority (sc_effective s)\<rparr>
      in (i, if t_state t = Ready then s1\<lparr>sc_ready := rq_push i priority (sc_ready s1)\<rparr> else s1))"

definition apply_switch_with_previous ::
  "thread_id option \<Rightarrow> thread_id option \<Rightarrow> 'a sched_sys_scheme \<Rightarrow> thread_id option \<times> 'a sched_sys_scheme" where
  "apply_switch_with_previous previous nxt s =
     (let chosen = (case nxt of Some n \<Rightarrow> Some n
                    | None \<Rightarrow> (case previous of Some p \<Rightarrow> Some p | None \<Rightarrow> sc_idle s));
          s1 = (case previous of
                  None \<Rightarrow> s
                | Some prev \<Rightarrow> if Some prev \<noteq> chosen then sys_set_state prev Ready s else s)
      in case chosen of
           None \<Rightarrow> (None, s1)
         | Some i \<Rightarrow> (Some i, (sys_set_state i Running s1)\<lparr>sc_current := Some i\<rparr>))"

definition apply_switch :: "thread_id option \<Rightarrow> 'a sched_sys_scheme \<Rightarrow> thread_id option \<times> 'a sched_sys_scheme" where
  "apply_switch nxt s = apply_switch_with_previous (sc_current s) nxt s"

definition schedule :: "'a sched_sys_scheme \<Rightarrow> thread_id option \<times> 'a sched_sys_scheme" where
  "schedule s =
     (if \<not> sc_initialized s then (None, s)
      else let (nxt, q) = rq_pop_next (sc_ready s) in apply_switch nxt (s\<lparr>sc_ready := q\<rparr>))"

definition on_timer_tick ::
  "'a sched_sys_scheme \<Rightarrow> (thread_id option \<times> thread_id option) \<times> 'a sched_sys_scheme" where
  "on_timer_tick s =
     (if \<not> sc_initialized s then ((None, None), s)
      else
        let previous = sc_current s;
            s1 = (case sc_current s of
                    Some cur \<Rightarrow>
                      if \<not> rq_is_empty (sc_ready s)
                      then s\<lparr>sc_ready := rq_push cur (get_priority cur s) (sc_ready s), sc_current := None\<rparr>
                      else s
                  | None \<Rightarrow> s);
            (nxt, s2) = (if sc_current s1 = None
                         then let (n, q) = rq_pop_next (sc_ready s1) in (n, s1\<lparr>sc_ready := q\<rparr>)
                         else (None, s1));
            (chosen, s3) = apply_switch_with_previous previous nxt s2
        in ((previous, chosen), s3))"

definition mark_thread_ready :: "thread_id \<Rightarrow> 'a sched_sys_scheme \<Rightarrow> 'a sched_sys_scheme" where
  "mark_thread_ready i s =
     (let priority = get_priority i s; s1 = sys_set_state i Ready s
      in s1\<lparr>sc_ready := rq_push i priority (sc_ready s1)\<rparr>)"

section \<open>Switching\<close>

definition set_rsp0 :: "u64 \<Rightarrow> 'a sched_sys_scheme \<Rightarrow> 'a sched_sys_scheme" where
  "set_rsp0 v s = s\<lparr>sc_rsp0 := v AND NOT 0xF\<rparr>"

definition perform_context_switch :: "u64 \<Rightarrow> thread_id \<Rightarrow> thread_id \<Rightarrow> 'a sched_sys_scheme \<Rightarrow> 'a sched_sys_scheme" where
  "perform_context_switch ret from_id to_id s =
     (let target_kernel_stack = kernel_stack_top to_id (sys_threads s);
          run = (\<lambda>from_ctx to_ctx.
            let (saved, to', cpu') = switch_thread_context ret (sc_cpu s) from_ctx to_ctx
            in (saved, to', (cpu', reg_cs to_ctx AND 0x3 = 3)))
      in case with_contexts from_id to_id run (sys_threads s) of
           (None, _) \<Rightarrow> s
         | (Some (cpu', user), ts) \<Rightarrow>
             let s1 = (case target_kernel_stack of Some stack \<Rightarrow> set_rsp0 stack s | None \<Rightarrow> s);
                 s2 = (if user then s1\<lparr>sc_user_entries := bt_insert to_id () (sc_user_entries s1)\<rparr> else s1)
             in s2\<lparr>sys_threads := ts, sc_cpu := cpu'\<rparr>)"

definition drive_cooperative_tick :: "u64 \<Rightarrow> 'a sched_sys_scheme \<Rightarrow> 'a sched_sys_scheme" where
  "drive_cooperative_tick ret s =
     (case on_timer_tick s of
        ((Some prev_id, Some next_id), s1) \<Rightarrow>
          if prev_id \<noteq> next_id then perform_context_switch ret prev_id next_id s1 else s1
      | (_, s1) \<Rightarrow> s1)"

definition yield_current :: "u64 \<Rightarrow> 'a sched_sys_scheme \<Rightarrow> 'a sched_sys_scheme" where
  "yield_current ret s =
     (case sc_current s of
        None \<Rightarrow> s
      | Some current \<Rightarrow>
          (case schedule s of
             (Some nxt, s1) \<Rightarrow> if nxt \<noteq> current then perform_context_switch ret current nxt s1 else s1
           | (None, s1) \<Rightarrow> s1))"

section \<open>The interface of the ready queues\<close>

text \<open>
  What the scheduler relies on: \<open>push\<close> appends at the given level, \<open>pop\<close> fails only on
  empty queues and otherwise returns the front of the highest level that is not empty and
  moves it to the back of that level.
\<close>

fun pop_many :: "('q \<Rightarrow> thread_id option \<times> 'q) \<Rightarrow> nat \<Rightarrow> 'q \<Rightarrow> thread_id option list \<times> 'q" where
  "pop_many pop 0 q = ([], q)"
| "pop_many pop (Suc n) q =
     (let (x, q1) = pop q; (xs, q2) = pop_many pop n q1 in (x # xs, q2))"

locale ready_queue =
  fixes level :: "'q \<Rightarrow> thread_priority \<Rightarrow> thread_id list"
    and push :: "thread_id \<Rightarrow> thread_priority \<Rightarrow> 'q \<Rightarrow> 'q"
    and pop :: "'q \<Rightarrow> thread_id option \<times> 'q"
    and ok :: "'q \<Rightarrow> bool"
  assumes push_ok: "ok q \<Longrightarrow> ok (push i p q)"
    and level_push: "ok q \<Longrightarrow> level (push i p q) = (level q)(p := level q p @ [i])"
    and pop_None: "ok q \<Longrightarrow> pop q = (None, q') \<Longrightarrow> q' = q \<and> (\<forall>p. level q p = [])"
    and pop_Some: "ok q \<Longrightarrow> pop q = (Some i, q') \<Longrightarrow>
      ok q' \<and> (\<exists>p is. level q p = i # is \<and> (\<forall>p'. p < p' \<longrightarrow> level q p' = []) \<and> level q' = (level q)(p := is @ [i]))"
begin

lemma pop_top:
  assumes "ok q" and "level q p \<noteq> []" and "\<And>p'. p < p' \<Longrightarrow> level q p' = []"
  obtains q' where "pop q = (Some (hd (level q p)), q')" "level q' = (level q)(p := rotate1 (level q p))" "ok q'"
proof -
  obtain x q' where pq: "pop q = (x, q')" by fastforce
  with assms pop_None [of q q'] obtain i where x: "x = Some i" by (cases x) auto
  from pop_Some [OF assms(1) pq [unfolded x]] obtain p1 "is" where p1: "level q p1 = i # is"
    "\<forall>p'. p1 < p' \<longrightarrow> level q p' = []" "level q' = (level q)(p1 := is @ [i])" "ok q'" by blast
  with assms have "p1 = p" by (metis linorder_neqE list.distinct(1))
  with p1 pq x that show thesis by auto
qed

text \<open>
  Round robin: popping any number of times cycles through the highest level in order and
  leaves the lower levels alone.
\<close>

lemma pop_many_round_robin:
  assumes "ok q" and "level q p = xs" and "xs \<noteq> []" and "\<And>p'. p < p' \<Longrightarrow> level q p' = []"
  shows "fst (pop_many pop n q) = map (\<lambda>k. Some (xs ! (k mod length xs))) [0 ..< n]
    \<and> level (snd (pop_many pop n q)) = (level q)(p := rotate n xs)"
  using assms
proof (induction n arbitrary: q xs)
  case (Suc n)
  from Suc.prems obtain q1 where q1: "pop q = (Some (hd xs), q1)" "level q1 = (level q)(p := rotate1 xs)" "ok q1"
    using pop_top by metis
  have IH: "fst (pop_many pop n q1) = map (\<lambda>k. Some (rotate1 xs ! (k mod length (rotate1 xs)))) [0 ..< n]
      \<and> level (snd (pop_many pop n q1)) = (level q1)(p := rotate n (rotate1 xs))"
    by (rule Suc.IH) (use q1 Suc.prems in auto)
  have "rotate1 xs ! (k mod length xs) = xs ! (Suc k mod length xs)" for k
    using Suc.prems(3) by (simp add: nth_rotate1 mod_Suc_eq)
  then have "Some (hd xs) # fst (pop_many pop n q1) = map (\<lambda>k. Some (xs ! (k mod length xs))) [0 ..< Suc n]"
    using IH Suc.prems(3) by (simp add: map_upt_Suc hd_conv_nth del: upt_Suc)
  moreover have "rotate n (rotate1 xs) = rotate (Suc n) xs"
    by (simp only: rotate_def funpow_Suc_right comp_def)
  ultimately show ?case using q1 IH by (auto simp: Let_def split: prod.splits)
qed auto

lemma pop_after_push:
  assumes "ok q" and "pop (push i p q) = (x, q')"
  shows "\<exists>n p'. x = Some n \<and> p \<le> p' \<and> n = hd (level (push i p q) p') \<and> (\<forall>p2. level q p2 \<noteq> [] \<longrightarrow> p2 \<le> p')"
proof -
  have ok: "ok (push i p q)" and lv: "level (push i p q) = (level q)(p := level q p @ [i])"
    using assms(1) push_ok level_push by auto
  have "level (push i p q) p \<noteq> []" by (simp add: lv)
  then have "x \<noteq> None" using pop_None [OF ok, of q'] assms(2) by auto
  then obtain n where x: "x = Some n" by blast
  from pop_Some [OF ok assms(2) [unfolded x]] obtain p1 "is" where p1: "level (push i p q) p1 = n # is"
    "\<forall>p'. p1 < p' \<longrightarrow> level (push i p q) p' = []" by blast
  have ne: "level (push i p q) p \<noteq> []" "\<And>p2. level q p2 \<noteq> [] \<Longrightarrow> level (push i p q) p2 \<noteq> []"
    by (auto simp: lv)
  with p1(2) have "p \<le> p1" "\<forall>p2. level q p2 \<noteq> [] \<longrightarrow> p2 \<le> p1" by (metis not_less)+
  with x p1 show ?thesis by (metis list.sel(1))
qed

end

definition rq_ok :: "ready_queues \<Rightarrow> bool" where
  "rq_ok q \<longleftrightarrow> length q = PRIORITY_LEVELS"

definition rq_level :: "ready_queues \<Rightarrow> thread_priority \<Rightarrow> thread_id list" where
  "rq_level q p = q ! prio_index p"

lemma rq_pop_next_unfold:
  "rq_pop_next q = rq_scan [3, 2, 1, 0] q"
  by (simp add: rq_pop_next_def upt_rec numeral_eq_Suc)

lemma prio_less_simps [simp]:
  "PrioIdle < PrioLow" "PrioIdle < PrioNormal" "PrioIdle < PrioHigh" "PrioLow < PrioNormal"
  "PrioLow < PrioHigh" "PrioNormal < PrioHigh" "\<not> p < PrioIdle" "\<not> PrioHigh < p"
  "\<not> PrioNormal < PrioLow" "\<not> PrioNormal < PrioNormal" "\<not> PrioLow < PrioLow"
  by (cases p; simp add: less_thread_priority_def)+

lemma rq_level_update:
  "rq_ok q \<Longrightarrow> rq_level (q[prio_index p := xs]) = (rq_level q)(p := xs)"
  by (auto simp: fun_eq_iff rq_level_def rq_ok_def nth_list_update)

lemma all_prio: "(\<forall>p. P p) \<longleftrightarrow> P PrioIdle \<and> P PrioLow \<and> P PrioNormal \<and> P PrioHigh"
proof
  assume R: "P PrioIdle \<and> P PrioLow \<and> P PrioNormal \<and> P PrioHigh"
  show "\<forall>p. P p"
  proof
    fix p show "P p" using R by (cases p) auto
  qed
qed auto

lemma rq_scan_Some:
  assumes "rq_pop_next q = (Some i, q')"
  obtains p "is" where "q ! prio_index p = i # is" "q' = q[prio_index p := is @ [i]]"
    "\<forall>p'. p < p' \<longrightarrow> q ! prio_index p' = []"
proof -
  from assms consider
      "is" where "q ! 3 = i # is" "q' = q[3 := is @ [i]]"
    | "is" where "q ! 3 = []" "q ! 2 = i # is" "q' = q[2 := is @ [i]]"
    | "is" where "q ! 3 = []" "q ! 2 = []" "q ! 1 = i # is" "q' = q[1 := is @ [i]]"
    | "is" where "q ! 3 = []" "q ! 2 = []" "q ! 1 = []" "q ! 0 = i # is" "q' = q[0 := is @ [i]]"
    by (auto simp: rq_pop_next_unfold split: list.splits)
  then show thesis
  proof cases
    case 1
    then show ?thesis by (intro that [of PrioHigh]) (auto simp: all_prio)
  next
    case 2
    then show ?thesis by (intro that [of PrioNormal]) (auto simp: all_prio)
  next
    case 3
    then show ?thesis by (intro that [of PrioLow]) (auto simp: all_prio)
  next
    case 4
    then show ?thesis by (intro that [of PrioIdle]) (auto simp: all_prio)
  qed
qed

lemma rq_pop_next_Some:
  assumes "rq_ok q" and "rq_pop_next q = (Some i, q')"
  shows "rq_ok q' \<and> (\<exists>p is. rq_level q p = i # is \<and> (\<forall>p'. p < p' \<longrightarrow> rq_level q p' = [])
    \<and> rq_level q' = (rq_level q)(p := is @ [i]))"
proof -
  obtain p "is" where p: "q ! prio_index p = i # is" "q' = q[prio_index p := is @ [i]]"
    "\<forall>p'. p < p' \<longrightarrow> q ! prio_index p' = []" using assms(2) by (rule rq_scan_Some)
  then have "rq_level q p = i # is" "\<forall>p'. p < p' \<longrightarrow> rq_level q p' = []" by (simp_all add: rq_level_def)
  moreover have "rq_level q' = (rq_level q)(p := is @ [i])" using assms(1) p(2) by (simp add: rq_level_update)
  moreover have "rq_ok q'" using assms(1) p(2) by (simp add: rq_ok_def)
  ultimately show ?thesis by blast
qed

interpretation rq: ready_queue rq_level rq_push rq_pop_next rq_ok
proof unfold_locales
  fix q q' :: ready_queues and i p
  show "rq_ok q \<Longrightarrow> rq_ok (rq_push i p q)" by (simp add: rq_ok_def rq_push_def Let_def)
  show "rq_ok q \<Longrightarrow> rq_level (rq_push i p q) = (rq_level q)(p := rq_level q p @ [i])"
    by (simp add: rq_push_def Let_def rq_level_update) (simp add: rq_level_def)
  show "rq_ok q \<Longrightarrow> rq_pop_next q = (None, q') \<Longrightarrow> q' = q \<and> (\<forall>p. rq_level q p = [])"
  proof -
    assume "rq_pop_next q = (None, q')"
    then have "q' = q \<and> q ! 3 = [] \<and> q ! 2 = [] \<and> q ! 1 = [] \<and> q ! 0 = []"
      by (simp add: rq_pop_next_unfold split: list.splits)
    then show ?thesis by (simp add: all_prio rq_level_def)
  qed
  show "rq_ok q \<Longrightarrow> rq_pop_next q = (Some i, q') \<Longrightarrow>
      rq_ok q' \<and> (\<exists>p is. rq_level q p = i # is \<and> (\<forall>p'. p < p' \<longrightarrow> rq_level q p' = []) \<and> rq_level q' = (rq_level q)(p := is @ [i]))"
    by (rule rq_pop_next_Some)
qed

section \<open>The invariant of the scheduler\<close>

text \<open>
  Only the current thread is in state \<open>Running\<close>; once initialised there is an idle and a
  current thread; effective priorities are never below the base priority.
\<close>

definition one_running :: "thread_list \<Rightarrow> thread_id option \<Rightarrow> bool" where
  "one_running ts cur \<longleftrightarrow> (\<forall>i t. find_tcb i ts = Some t \<longrightarrow> t_state t = Running \<longrightarrow> cur = Some i)"

definition sched_inv :: "'a sched_sys_scheme \<Rightarrow> bool" where
  "sched_inv s \<longleftrightarrow> rq_ok (sc_ready s) \<and> one_running (sys_threads s) (sc_current s)
     \<and> (sc_initialized s \<longrightarrow> sc_idle s \<noteq> None \<and> sc_current s \<noteq> None)
     \<and> (\<forall>i. get_base_priority i s \<le> get_priority i s)"

lemma one_running_set:
  assumes "one_running ts cur" and "st \<noteq> Running"
  shows "one_running (snd (set_thread_state i st ts)) cur"
  using assms by (auto simp: one_running_def split: if_splits)

lemma one_running_switch:
  assumes "one_running ts prev" and "\<And>j. prev \<noteq> Some j \<Longrightarrow> find_tcb j ts' = find_tcb j ts"
    and "\<And>p t. prev = Some p \<Longrightarrow> p \<noteq> i \<Longrightarrow> find_tcb p ts' = Some t \<Longrightarrow> t_state t \<noteq> Running"
  shows "one_running (snd (set_thread_state i Running ts')) (Some i)"
  using assms unfolding one_running_def
  by (auto split: if_splits) (metis option.inject)

lemma sys_set_state_frame [simp]:
  "sc_ready (sys_set_state i st s) = sc_ready s" "sc_current (sys_set_state i st s) = sc_current s"
  "sc_idle (sys_set_state i st s) = sc_idle s" "sc_initialized (sys_set_state i st s) = sc_initialized s"
  "get_priority j (sys_set_state i st s) = get_priority j s"
  "get_base_priority j (sys_set_state i st s) = get_base_priority j s"
  "sys_threads (sys_set_state i st s) = snd (set_thread_state i st (sys_threads s))"
  by (simp_all add: sys_set_state_def get_priority_def get_base_priority_def)

lemma prio_frame [simp]:
  "get_priority i (s\<lparr>sc_ready := q\<rparr>) = get_priority i s" "get_base_priority i (s\<lparr>sc_ready := q\<rparr>) = get_base_priority i s"
  "get_priority i (s\<lparr>sc_current := c\<rparr>) = get_priority i s" "get_base_priority i (s\<lparr>sc_current := c\<rparr>) = get_base_priority i s"
  by (simp_all add: get_priority_def get_base_priority_def)

lemma prio_effective [simp]:
  "get_priority j (s\<lparr>sc_effective := bt_insert i p (sc_effective s)\<rparr>) = (if j = i then p else get_priority j s)"
  "get_base_priority j (s\<lparr>sc_effective := e\<rparr>) = get_base_priority j s"
  by (simp_all add: get_priority_def get_base_priority_def)

text \<open>Choosing a thread: the old thread becomes ready, the chosen one runs.\<close>

lemma apply_switch_spec:
  assumes run: "one_running (sys_threads s) previous" and ok: "rq_ok (sc_ready s)"
    and idle: "sc_idle s \<noteq> None" and prio: "\<forall>i. get_base_priority i s \<le> get_priority i s"
    and sw: "apply_switch_with_previous previous nxt s = (chosen, s')"
  shows "sched_inv s' \<and> (\<exists>i. chosen = Some i \<and> sc_current s' = Some i
      \<and> (nxt = Some i \<or> nxt = None \<and> previous = Some i \<or> nxt = None \<and> previous = None \<and> sc_idle s = Some i)
      \<and> (\<forall>t. find_tcb i (sys_threads s') = Some t \<longrightarrow> t_state t = Running))
    \<and> sc_ready s' = sc_ready s"
proof -
  obtain i where i: "(case nxt of Some n \<Rightarrow> Some n | None \<Rightarrow> (case previous of Some p \<Rightarrow> Some p | None \<Rightarrow> sc_idle s)) = Some i"
    and cases: "nxt = Some i \<or> nxt = None \<and> previous = Some i \<or> nxt = None \<and> previous = None \<and> sc_idle s = Some i"
    using idle by (cases nxt; cases previous) auto
  define s1 where "s1 = (case previous of None \<Rightarrow> s
                | Some prev \<Rightarrow> if Some prev \<noteq> Some i then sys_set_state prev Ready s else s)"
  have out: "chosen = Some i" "s' = (sys_set_state i Running s1)\<lparr>sc_current := Some i\<rparr>"
    using sw by (auto simp: apply_switch_with_previous_def i s1_def Let_def)
  have fr: "sc_ready s1 = sc_ready s" "sc_idle s1 = sc_idle s" "get_priority j s1 = get_priority j s"
    "get_base_priority j s1 = get_base_priority j s" for j
    by (auto simp: s1_def split: option.splits)
  have "one_running (snd (set_thread_state i Running (sys_threads s1))) (Some i)"
    by (rule one_running_switch [OF run]) (auto simp: s1_def split: option.splits if_splits)
  with out fr ok idle prio cases show ?thesis
    by (auto simp: sched_inv_def)
qed

lemma sched_inv_schedule:
  assumes inv: "sched_inv s"
  shows "sched_inv (snd (schedule s))"
proof (cases "sc_initialized s")
  case True
  obtain n q where pq: "rq_pop_next (sc_ready s) = (n, q)" by fastforce
  have "rq_ok q" using pq inv rq.pop_Some [of "sc_ready s" _ q] rq.pop_None [of "sc_ready s" q]
    by (cases n) (auto simp: sched_inv_def)
  then have "sched_inv (snd (apply_switch n (s\<lparr>sc_ready := q\<rparr>)))"
    using apply_switch_spec [of "s\<lparr>sc_ready := q\<rparr>" "sc_current s" n] inv True
    by (cases "apply_switch_with_previous (sc_current s) n (s\<lparr>sc_ready := q\<rparr>)")
      (auto simp: sched_inv_def apply_switch_def)
  with True pq show ?thesis by (simp add: schedule_def)
qed (use inv in \<open>simp add: schedule_def\<close>)

text \<open>
  The timer tick. With work queued, the current thread goes to the back of its level and
  the front of the highest level runs; with nothing queued the current thread continues.
\<close>

lemma rq_is_empty_iff: "rq_ok q \<Longrightarrow> rq_is_empty q \<longleftrightarrow> (\<forall>p. rq_level q p = [])"
  by (cases q; cases "tl q"; cases "tl (tl q)"; cases "tl (tl (tl q))")
    (auto simp: rq_is_empty_def all_prio rq_level_def rq_ok_def numeral_eq_Suc)

lemma on_timer_tick_spec:
  assumes inv: "sched_inv s" and init: "sc_initialized s" and tick: "on_timer_tick s = ((previous, chosen), s')"
  shows "sched_inv s' \<and> previous = sc_current s
    \<and> (\<exists>cur n. previous = Some cur \<and> chosen = Some n \<and> sc_current s' = Some n
       \<and> (\<forall>t. find_tcb n (sys_threads s') = Some t \<longrightarrow> t_state t = Running)
       \<and> (if rq_is_empty (sc_ready s) then n = cur \<and> sc_ready s' = sc_ready s
          else rq_pop_next (rq_push cur (get_priority cur s) (sc_ready s)) = (Some n, sc_ready s')))"
proof -
  from inv init obtain cur where cur: "sc_current s = Some cur" by (auto simp: sched_inv_def)
  show ?thesis
  proof (cases "rq_is_empty (sc_ready s)")
    case True
    with tick init cur have sw: "apply_switch_with_previous (Some cur) None s = (chosen, s')" "previous = Some cur"
      by (auto simp: on_timer_tick_def Let_def split: prod.splits)
    have "one_running (sys_threads s) (Some cur)" using inv cur by (simp add: sched_inv_def)
    from apply_switch_spec [OF this _ _ _ sw(1)] inv init True cur sw(2) show ?thesis
      by (auto simp: sched_inv_def)
  next
    case False
    let ?q = "rq_push cur (get_priority cur s) (sc_ready s)"
    obtain x q' where pq: "rq_pop_next ?q = (x, q')" by fastforce
    have okq: "rq_ok (sc_ready s)" using inv by (simp add: sched_inv_def)
    from rq.pop_after_push [OF okq pq] obtain n where n: "x = Some n" by blast
    have okq': "rq_ok q'" using rq.pop_Some [OF rq.push_ok [OF okq] pq [unfolded n]] by blast
    let ?s = "s\<lparr>sc_current := None, sc_ready := q'\<rparr>"
    have sw: "apply_switch_with_previous (Some cur) (Some n) ?s = (chosen, s')" "previous = Some cur"
      using tick init cur False pq n by (auto simp: on_timer_tick_def Let_def split: prod.splits)
    have "one_running (sys_threads ?s) (Some cur)" using inv cur by (simp add: sched_inv_def)
    from apply_switch_spec [OF this _ _ _ sw(1)] inv init False cur sw(2) okq' pq n show ?thesis
      by (auto simp: sched_inv_def)
  qed
qed

lemma sched_inv_tick: "sched_inv s \<Longrightarrow> sched_inv (snd (on_timer_tick s))"
proof (cases "sc_initialized s")
  case True
  assume inv: "sched_inv s"
  obtain prv chosen s' where t: "on_timer_tick s = ((prv, chosen), s')" by (metis surj_pair)
  with on_timer_tick_spec [OF inv True t] show ?thesis by simp
qed (simp add: on_timer_tick_def)

section \<open>The other operations keep the invariant\<close>

lemma sched_inv_add_thread:
  assumes "sched_inv s" and "t_state t \<noteq> Running"
  shows "sched_inv (snd (sched_add_thread t s))"
  using assms rq.push_ok
  by (auto simp: sched_inv_def sched_add_thread_def Let_def one_running_def list_add_thread_def find_tcb_append
      get_priority_def get_base_priority_def split: option.splits if_splits)

lemma sched_inv_init:
  assumes "sched_inv s" and "sc_current s = None" and "find_tcb (t_id t) (sys_threads s) = None"
  shows "sched_inv (snd (sched_init t s))"
  using assms
  by (auto simp: sched_inv_def sched_init_def Let_def one_running_def list_add_thread_def find_tcb_append
      get_priority_def get_base_priority_def sys_set_state_def split: option.splits if_splits)

lemma sched_inv_mark_ready: "sched_inv s \<Longrightarrow> sched_inv (mark_thread_ready i s)"
  using rq.push_ok by (auto simp: sched_inv_def mark_thread_ready_def Let_def one_running_set)

lemma sched_inv_set_state: "sched_inv s \<Longrightarrow> st \<noteq> Running \<Longrightarrow> sched_inv (sys_set_state i st s)"
  by (auto simp: sched_inv_def one_running_set)

lemma sched_inv_boost: "sched_inv s \<Longrightarrow> sched_inv (snd (boost_priority i p s))"
  by (auto simp: sched_inv_def boost_priority_def intro: order.trans less_imp_le)

lemma sched_inv_restore: "sched_inv s \<Longrightarrow> sched_inv (restore_original_priority i s)"
  by (auto simp: sched_inv_def restore_original_priority_def)

lemma one_running_strip:
  assumes "one_running ts cur" and "map strip_context ts' = map strip_context ts"
  shows "one_running ts' cur"
  unfolding one_running_def
proof (intro allI impI)
  fix i t assume t: "find_tcb i ts' = Some t" "t_state t = Running"
  have "map_option strip_context (find_tcb i ts) = map_option strip_context (find_tcb i ts')"
    using assms(2) by (metis find_tcb_strip)
  with t obtain u where u: "find_tcb i ts = Some u" "strip_context u = strip_context t" by auto
  then have "t_state u = Running" using t(2) by (simp add: strip_context_def) (metis thread.update_convs(3) thread.select_convs(2) thread.surjective)
  with u(1) assms(1) show "cur = Some i" by (simp add: one_running_def)
qed

lemma perform_switch_frame:
  "map strip_context (sys_threads (perform_context_switch ret a b s)) = map strip_context (sys_threads s)
   \<and> sc_ready (perform_context_switch ret a b s) = sc_ready s
   \<and> sc_current (perform_context_switch ret a b s) = sc_current s
   \<and> sc_idle (perform_context_switch ret a b s) = sc_idle s
   \<and> sc_initialized (perform_context_switch ret a b s) = sc_initialized s
   \<and> sc_base (perform_context_switch ret a b s) = sc_base s
   \<and> sc_effective (perform_context_switch ret a b s) = sc_effective s"
  unfolding perform_context_switch_def Let_def
  by (auto dest: with_contexts_strip simp: set_rsp0_def split: prod.split option.split)

lemma sched_inv_perform: "sched_inv s \<Longrightarrow> sched_inv (perform_context_switch ret a b s)"
  using perform_switch_frame [of ret a b s] one_running_strip
  unfolding sched_inv_def get_priority_def get_base_priority_def by metis

section \<open>Reachable states\<close>

text \<open>
  The steps the kernel takes on the scheduler. \<open>SetState\<close> covers the blocking and exiting
  system calls and \<open>mark_thread_ready\<close>'s state change; only the scheduler itself makes a
  thread \<open>Running\<close>. A new thread is created \<open>Ready\<close>.
\<close>

inductive sched_step :: "sched_sys \<Rightarrow> sched_sys \<Rightarrow> bool" where
  Init: "sc_current s = None \<Longrightarrow> find_tcb (t_id t) (sys_threads s) = None \<Longrightarrow> sched_step s (snd (sched_init t s))"
| AddThread: "t_state t = Ready \<Longrightarrow> sched_step s (snd (sched_add_thread t s))"
| Schedule: "sched_step s (snd (schedule s))"
| TimerTick: "sched_step s (snd (on_timer_tick s))"
| MarkReady: "sched_step s (mark_thread_ready i s)"
| SetState: "st \<noteq> Running \<Longrightarrow> sched_step s (sys_set_state i st s)"
| Boost: "sched_step s (snd (boost_priority i p s))"
| Restore: "sched_step s (restore_original_priority i s)"
| SwitchTo: "sched_step s (perform_context_switch ret a b s)"

definition sched_boot :: sched_sys where
  "sched_boot = \<lparr>sys_threads = [], sys_next_tid = 1, sys_ticks = 0, cm_global = bt_empty, cm_audit = [],
     cm_next_handle = 1, sc_ready = rq_new, sc_base = bt_empty, sc_effective = bt_empty, sc_current = None,
     sc_idle = None, sc_initialized = False, sc_cpu = context_zero, sc_rsp0 = 0, sc_user_entries = bt_empty\<rparr>"

lemma sched_inv_boot: "sched_inv sched_boot"
  by (simp add: sched_inv_def sched_boot_def rq_ok_def rq_new_def one_running_def find_tcb_def
      get_priority_def get_base_priority_def)

lemma sched_inv_step: "sched_step s s' \<Longrightarrow> sched_inv s \<Longrightarrow> sched_inv s'"
  by (induction rule: sched_step.induct)
    (simp_all add: sched_inv_init sched_inv_add_thread sched_inv_schedule sched_inv_tick sched_inv_mark_ready
      sched_inv_set_state sched_inv_boost sched_inv_restore sched_inv_perform)

lemma sched_inv_reach: "sched_step\<^sup>*\<^sup>* sched_boot s \<Longrightarrow> sched_inv s"
  by (induction rule: rtranclp_induct) (auto intro: sched_inv_boot sched_inv_step)

section \<open>Properties\<close>

definition idle_example :: thread where
  "idle_example = (thread_example 1)\<lparr>t_priority := PrioIdle, t_name := ''idle''\<rparr>"

definition sched_example :: sched_sys where
  "sched_example = snd (sched_add_thread ((thread_example 3)\<lparr>t_priority := PrioHigh\<rparr>)
     (snd (sched_add_thread (thread_example 2) (snd (sched_init idle_example sched_boot)))))"

lemma sched_example_reach: "sched_step\<^sup>*\<^sup>* sched_boot sched_example"
proof -
  have a: "sched_step sched_boot (snd (sched_init idle_example sched_boot))"
    by (rule sched_step.Init) (simp_all add: sched_boot_def find_tcb_def)
  have b: "sched_step s (snd (sched_add_thread (thread_example 2) s))" for s
    by (rule sched_step.AddThread) (simp add: thread_example_def)
  have c: "sched_step s (snd (sched_add_thread ((thread_example 3)\<lparr>t_priority := PrioHigh\<rparr>) s))" for s
    by (rule sched_step.AddThread) (simp add: thread_example_def)
  show ?thesis unfolding sched_example_def
    by (rule rtranclp.rtrancl_into_rtrancl [OF rtranclp.rtrancl_into_rtrancl [OF r_into_rtranclp [of sched_step, OF a] b] c])
qed

lemmas sched_example_inv = sched_inv_reach [OF sched_example_reach]

lemma sched_example_init: "sc_initialized sched_example"
  by code_simp

text \<open>
  In every reachable state at most one thread is \<open>Running\<close>, and it is the current
  thread; once the idle thread is installed there is always a current thread, and no thread's
  effective priority is below its base priority.
\<close>

lemma scheduler_invariant_reachable:
  assumes "sched_step\<^sup>*\<^sup>* sched_boot s"
  shows "sched_inv s"
  by (rule sched_inv_reach [OF assms])

text \<open>
  C15. Strict priority: a timer tick with work queued runs a thread from a level at least as
  high as every level that had a thread queued and at least as high as the preempted
  thread's effective priority, and that thread is then current and \<open>Running\<close>; with nothing
  queued the current thread keeps running.
\<close>

theorem timer_tick_strict_priority:
  assumes "sched_inv s" and "sc_initialized s"
  shows "case on_timer_tick s of ((previous, chosen), s') \<Rightarrow>
    \<exists>cur n. previous = Some cur \<and> chosen = Some n \<and> sc_current s = Some cur \<and> sc_current s' = Some n
      \<and> (\<forall>t. find_tcb n (sys_threads s') = Some t \<longrightarrow> t_state t = Running)
      \<and> (if rq_is_empty (sc_ready s) then n = cur
         else \<exists>p. get_priority cur s \<le> p \<and> (\<forall>p2. rq_level (sc_ready s) p2 \<noteq> [] \<longrightarrow> p2 \<le> p)
            \<and> n = hd (rq_level (rq_push cur (get_priority cur s) (sc_ready s)) p))"
proof -
  obtain prv chosen s' where t: "on_timer_tick s = ((prv, chosen), s')" by (metis surj_pair)
  note spec = on_timer_tick_spec [OF assms t]
  from assms(1) have ok: "rq_ok (sc_ready s)" by (simp add: sched_inv_def)
  from spec obtain cur n where c: "prv = Some cur" "chosen = Some n" "sc_current s = Some cur" "sc_current s' = Some n"
    "\<forall>t. find_tcb n (sys_threads s') = Some t \<longrightarrow> t_state t = Running" and
    q: "if rq_is_empty (sc_ready s) then n = cur \<and> sc_ready s' = sc_ready s
        else rq_pop_next (rq_push cur (get_priority cur s) (sc_ready s)) = (Some n, sc_ready s')"
    by auto
  show ?thesis
  proof (cases "rq_is_empty (sc_ready s)")
    case False
    with q have "rq_pop_next (rq_push cur (get_priority cur s) (sc_ready s)) = (Some n, sc_ready s')" by simp
    from rq.pop_after_push [OF ok this] c False t show ?thesis by auto
  qed (use c q t in auto)
qed

theorem timer_tick_strict_priority_witness:
  "fst (on_timer_tick sched_example) = (Some 1, Some 3) \<and> sc_current (snd (on_timer_tick sched_example)) = Some 3"
proof -
  have "fst (on_timer_tick sched_example) = (Some 1, Some 3)" by code_simp
  with timer_tick_strict_priority [OF sched_example_inv sched_example_init] show ?thesis
    by (cases "on_timer_tick sched_example") auto
qed

text \<open>
  Round robin: while a level stays the highest one, successive selections cycle
  through its threads in queue order for ever, so each of \<open>k\<close> threads is selected once in
  every \<open>k\<close> selections, and the lower levels are not touched.
\<close>

lemma round_robin_fair:
  assumes "rq_ok q" and "rq_level q p = xs" and "xs \<noteq> []" and "\<And>p'. p < p' \<Longrightarrow> rq_level q p' = []"
  shows "fst (pop_many rq_pop_next n q) = map (\<lambda>k. Some (xs ! (k mod length xs))) [0 ..< n]
    \<and> rq_level (snd (pop_many rq_pop_next n q)) = (rq_level q)(p := rotate n xs)"
  by (rule rq.pop_many_round_robin [OF assms])

lemma perform_switch_spec:
  assumes "find_tcb a (sys_threads s) = Some t" and "find_tcb b (sys_threads s) = Some u" and "a \<noteq> b"
  shows "sc_cpu (perform_context_switch ret a b s) = snd (asm_load_context (t_context u) (sc_cpu s))"
    and "sc_rsp0 (perform_context_switch ret a b s) = t_kernel_stack u AND NOT 0xF"
    and "find_tcb k (sys_threads (perform_context_switch ret a b s)) =
      (if k = a then Some (t\<lparr>t_context := asm_save_context ret (sc_cpu s) (t_context t)\<rparr>)
       else if k = b then Some (u\<lparr>t_context := fst (asm_load_context (t_context u) (sc_cpu s))\<rparr>)
       else find_tcb k (sys_threads s))"
proof -
  define run where "run = (\<lambda>from_ctx to_ctx.
            let (saved, to', cpu') = switch_thread_context ret (sc_cpu s) from_ctx to_ctx
            in (saved, to', (cpu', reg_cs to_ctx AND 0x3 = 3)))"
  have r: "run (t_context t) (t_context u) = (asm_save_context ret (sc_cpu s) (t_context t),
      fst (asm_load_context (t_context u) (sc_cpu s)),
      (snd (asm_load_context (t_context u) (sc_cpu s)), reg_cs (t_context u) AND 0x3 = 3))"
    by (simp add: run_def switch_thread_context_def Let_def split: prod.split)
  obtain ts' where w: "with_contexts a b run (sys_threads s) =
      (Some (snd (asm_load_context (t_context u) (sc_cpu s)), reg_cs (t_context u) AND 0x3 = 3), ts')"
    and f: "\<And>k. find_tcb k ts' =
       (if k = a then Some (t\<lparr>t_context := asm_save_context ret (sc_cpu s) (t_context t)\<rparr>)
        else if k = b then Some (u\<lparr>t_context := fst (asm_load_context (t_context u) (sc_cpu s))\<rparr>)
        else find_tcb k (sys_threads s))"
    by (rule with_contexts_find [where f = run, OF assms r]) blast
  have st: "kernel_stack_top b (sys_threads s) = Some (t_kernel_stack u)"
    using assms(2) by (simp add: kernel_stack_top_def)
  note d = perform_context_switch_def [of ret a b s, folded run_def]
  show "sc_cpu (perform_context_switch ret a b s) = snd (asm_load_context (t_context u) (sc_cpu s))"
    by (simp add: d w st Let_def)
  show "sc_rsp0 (perform_context_switch ret a b s) = t_kernel_stack u AND NOT 0xF"
    by (simp add: d w st Let_def set_rsp0_def)
  show "find_tcb k (sys_threads (perform_context_switch ret a b s)) =
      (if k = a then Some (t\<lparr>t_context := asm_save_context ret (sc_cpu s) (t_context t)\<rparr>)
       else if k = b then Some (u\<lparr>t_context := fst (asm_load_context (t_context u) (sc_cpu s))\<rparr>)
       else find_tcb k (sys_threads s))"
    by (simp add: d w Let_def f)
qed



section \<open>What the code does not do\<close>

text \<open>
  The contract of a call asks that the switch returns with the stack pointer past the
  return address and with the caller's \<open>rbp\<close>, \<open>r12\<close> and \<open>r15\<close> (callee-saved registers of
  the ABI \<^verbatim>\<open>switch.asm\<close> names). The saved context resumes with the stack pointer still at
  the return address and the three registers replaced.
\<close>

theorem switch_resume_clobbers:
  assumes "reg_cs cpu AND 0x3 = 0"
  shows "reg_rsp (snd (asm_load_context (asm_save_context ret cpu old) cpu2)) = reg_rsp cpu
    \<and> reg_rbp (snd (asm_load_context (asm_save_context ret cpu old) cpu2)) = reg_rsp cpu - 8
    \<and> reg_r12 (snd (asm_load_context (asm_save_context ret cpu old) cpu2)) = reg_rcx cpu
    \<and> reg_r15 (snd (asm_load_context (asm_save_context ret cpu old) cpu2)) = reg_rdx cpu"
  using assms by (simp add: asm_load_context_def asm_save_context_def)

text \<open>
  Every tick with work queued lengthens the ready queues by one: \<open>pop_next\<close> puts the
  selected thread back and the preempted thread is pushed as well.
\<close>

definition rq_size :: "ready_queues \<Rightarrow> nat" where
  "rq_size q = sum_list (map length q)"

lemma rq_size_push: "rq_ok q \<Longrightarrow> rq_size (rq_push i p q) = Suc (rq_size q)"
  by (simp add: rq_size_def rq_push_def Let_def rq_ok_def map_update sum_list_update)

lemma rq_size_pop: "rq_ok q \<Longrightarrow> rq_pop_next q = (Some i, q') \<Longrightarrow> rq_size q' = rq_size q"
  by (erule rq_scan_Some)
    (auto simp: rq_size_def map_update sum_list_update rq_ok_def dest: arg_cong [of _ _ length])

theorem tick_grows_queues:
  assumes "sched_inv s" and "sc_initialized s" and "\<not> rq_is_empty (sc_ready s)"
  shows "rq_size (sc_ready (snd (on_timer_tick s))) = Suc (rq_size (sc_ready s))"
proof -
  obtain prv chosen s' where t: "on_timer_tick s = ((prv, chosen), s')" by (metis surj_pair)
  from assms(1) have ok: "rq_ok (sc_ready s)" by (simp add: sched_inv_def)
  from on_timer_tick_spec [OF assms(1,2) t] assms(3) obtain cur n
    where "rq_pop_next (rq_push cur (get_priority cur s) (sc_ready s)) = (Some n, sc_ready s')" by auto
  with rq_size_pop [OF rq.push_ok [OF ok]] rq_size_push [OF ok] t show ?thesis by simp
qed

text \<open>
  A thread that has exited is made \<open>Ready\<close> by the switch away from it, and it is queued again.
\<close>

theorem exited_thread_requeued:
  "let s = sys_set_state 1 Exited sched_example; s' = snd (on_timer_tick s) in
   map_option t_state (find_tcb 1 (sys_threads s)) = Some Exited
   \<and> map_option t_state (find_tcb 1 (sys_threads s')) = Some Ready
   \<and> 1 \<in> set (rq_level (sc_ready s') PrioIdle)"
  by code_simp

end
