(* ===== verification/Bounded_Fifo.thy ===== *)
theory Bounded_Fifo
  imports Atom_Prelude
begin

text \<open>
  The contract of a bounded first-in first-out queue, which the message queue of an IPC
  port and the input ring buffers both provide: an accepted item goes to the back, the
  oldest item comes out first, and an item is refused exactly when the queue is full.
  \<open>view\<close> is what of an item the consumer is promised (the IPC layer may stamp a message
  with the time). The client lemmas are delivery in order and the absence of loss and
  duplication over any sequence of operations.
\<close>

fun put_all :: "('m \<Rightarrow> 's \<Rightarrow> bool \<times> 's) \<Rightarrow> 'm list \<Rightarrow> 's \<Rightarrow> bool list \<times> 's" where
  "put_all put [] s = ([], s)"
| "put_all put (m # ms) s =
     (let (b, s1) = put m s; (bs, s2) = put_all put ms s1 in (b # bs, s2))"

fun take_many :: "('s \<Rightarrow> 'v option \<times> 's) \<Rightarrow> nat \<Rightarrow> 's \<Rightarrow> 'v list \<times> 's" where
  "take_many get 0 s = ([], s)"
| "take_many get (Suc n) s =
     (case get s of
        (None, s1) \<Rightarrow> ([], s1)
      | (Some x, s1) \<Rightarrow> (let (xs, s2) = take_many get n s1 in (x # xs, s2)))"

text \<open>An interleaving of producer and consumer.\<close>

datatype 'm queue_op = Put 'm | Take

fun run_queue :: "('m \<Rightarrow> 's \<Rightarrow> bool \<times> 's) \<Rightarrow> ('s \<Rightarrow> 'v option \<times> 's) \<Rightarrow> ('m \<Rightarrow> 'v) \<Rightarrow> 'm queue_op list \<Rightarrow> 's
    \<Rightarrow> 'v list \<times> 'v list \<times> 's" where
  "run_queue put get view [] s = ([], [], s)"
| "run_queue put get view (Put m # ops) s =
     (let (b, s1) = put m s; (ins, outs, s2) = run_queue put get view ops s1
      in (if b then view m # ins else ins, outs, s2))"
| "run_queue put get view (Take # ops) s =
     (let (x, s1) = get s; (ins, outs, s2) = run_queue put get view ops s1
      in (ins, (case x of None \<Rightarrow> outs | Some v \<Rightarrow> v # outs), s2))"

locale bounded_fifo =
  fixes items :: "'s \<Rightarrow> 'v list"
    and put :: "'m \<Rightarrow> 's \<Rightarrow> bool \<times> 's"
    and get :: "'s \<Rightarrow> 'v option \<times> 's"
    and view :: "'m \<Rightarrow> 'v"
    and capacity :: nat
    and valid :: "'m \<Rightarrow> bool"
    and ok :: "'s \<Rightarrow> bool"
  assumes put_step: "ok s \<Longrightarrow> valid m \<Longrightarrow> put m s = (b, s') \<Longrightarrow>
      ok s' \<and> (b \<longleftrightarrow> length (items s) < capacity) \<and> items s' = (if b then items s @ [view m] else items s)"
    and take_step: "ok s \<Longrightarrow> get s = (x, s') \<Longrightarrow>
      ok s' \<and> (case items s of [] \<Rightarrow> x = None \<and> items s' = [] | v # vs \<Rightarrow> x = Some v \<and> items s' = vs)"
    and bounded: "ok s \<Longrightarrow> length (items s) \<le> capacity"
begin

lemma put_all_fits:
  assumes "ok s" and "\<forall>m \<in> set ms. valid m" and "length (items s) + length ms \<le> capacity"
  shows "fst (put_all put ms s) = replicate (length ms) True
    \<and> items (snd (put_all put ms s)) = items s @ map view ms \<and> ok (snd (put_all put ms s))"
  using assms
proof (induction ms arbitrary: s)
  case (Cons m ms)
  obtain b s1 where p: "put m s = (b, s1)" by fastforce
  with put_step [OF Cons.prems(1) _ p] Cons.prems have s1: "b" "ok s1" "items s1 = items s @ [view m]" by auto
  with Cons.IH [of s1] Cons.prems p show ?case by (auto split: prod.splits)
qed simp

lemma put_all_items:
  assumes "ok s" and "\<forall>m \<in> set ms. valid m"
  shows "items (snd (put_all put ms s)) = List.take capacity (items s @ map view ms) \<and> ok (snd (put_all put ms s))"
  using assms
proof (induction ms arbitrary: s)
  case Nil
  with bounded show ?case by simp
next
  case (Cons m ms)
  obtain b s1 where p: "put m s = (b, s1)" by fastforce
  with put_step [OF Cons.prems(1) _ p] Cons.prems
  have s1: "ok s1" "b \<longleftrightarrow> length (items s) < capacity" "items s1 = (if b then items s @ [view m] else items s)" by auto
  with Cons.IH [of s1] Cons.prems p bounded [of s] show ?case by (auto simp: take_Cons' split: prod.splits)
qed

lemma take_many_items:
  assumes "ok s"
  shows "fst (take_many get n s) = List.take n (items s) \<and> items (snd (take_many get n s)) = drop n (items s)
    \<and> ok (snd (take_many get n s))"
  using assms
proof (induction n arbitrary: s)
  case (Suc n)
  obtain x s1 where t: "get s = (x, s1)" by fastforce
  note st = take_step [OF Suc.prems t]
  show ?case
  proof (cases "items s")
    case Nil
    with st t show ?thesis by simp
  next
    case (Cons v vs)
    with st have "x = Some v" "items s1 = vs" "ok s1" by auto
    with Suc.IH [of s1] t Cons show ?thesis by (auto split: prod.splits)
  qed
qed simp

lemma delivery:
  assumes "ok s" and "\<forall>m \<in> set ms. valid m" and "length (items s) + length ms \<le> capacity"
  shows "fst (take_many get (length (items s) + length ms) (snd (put_all put ms s))) = items s @ map view ms"
  using put_all_fits [OF assms] take_many_items [of "snd (put_all put ms s)" "length (items s) + length ms"]
  by simp

text \<open>
  Over any interleaving, what was in the queue followed by what was accepted is what came
  out followed by what is still there: nothing is lost, duplicated or reordered.
\<close>

lemma conservation:
  assumes "ok s" and "\<forall>m. Put m \<in> set ops \<longrightarrow> valid m" and "run_queue put get view ops s = (ins, outs, s')"
  shows "items s @ ins = outs @ items s' \<and> ok s'"
  using assms
proof (induction ops arbitrary: s ins outs s')
  case (Cons a ops)
  show ?case
  proof (cases a)
    case (Put m)
    obtain b s1 where p: "put m s = (b, s1)" by fastforce
    obtain ins1 outs1 s2 where r: "run_queue put get view ops s1 = (ins1, outs1, s2)" by (metis surj_pair)
    have st: "ok s1" "items s1 = (if b then items s @ [view m] else items s)"
      using put_step [OF Cons.prems(1) _ p] Cons.prems(2) Put by auto
    from Cons.IH [OF st(1) _ r] Cons.prems(2,3) st(2) p r Put show ?thesis by (auto split: if_splits)
  next
    case Take
    obtain x s1 where t: "get s = (x, s1)" by fastforce
    obtain ins1 outs1 s2 where r: "run_queue put get view ops s1 = (ins1, outs1, s2)" by (metis surj_pair)
    note st = take_step [OF Cons.prems(1) t]
    from Cons.IH [OF conjunct1 [OF st] _ r] Cons.prems(2,3) st t r Take show ?thesis
      by (cases "items s") auto
  qed
qed simp

end

end
