(* ===== verification/Ipc.thy ===== *)
theory Ipc
  imports Scheduler Bounded_Fifo
begin

text \<open>
  Inter-process communication, \<^verbatim>\<open>kernel/src/ipc.rs\<close>: ports with bounded message queues, the
  table of blocked receivers, deadlock detection over the wait-for graph, timeouts, port
  metrics and the trace ring. The state extends the scheduler's, because waking a receiver
  makes it ready. The size of a shared memory region, which the shared memory manager
  answers (\<open>get_region_info\<close>), is the argument \<open>region_size\<close>.
\<close>

section \<open>Messages and errors\<close>

type_synonym port_id = u64
type_synonym region_id = u64

abbreviation MAX_MESSAGE_SIZE :: nat where "MAX_MESSAGE_SIZE \<equiv> 256"
abbreviation ZERO_COPY_THRESHOLD :: nat where "ZERO_COPY_THRESHOLD \<equiv> 128"
abbreviation MAX_BATCH_SIZE :: nat where "MAX_BATCH_SIZE \<equiv> 32"
abbreviation MAX_QUEUE_DEPTH :: nat where "MAX_QUEUE_DEPTH \<equiv> 64"

datatype ipc_capability = IpcGrant cap_handle cap_permissions | IpcMove cap_handle

record message =
  m_sender :: thread_id
  m_type :: u32
  m_payload :: "u8 list"
  m_capability :: "ipc_capability option"
  m_shared_region :: "region_id option"
  m_timestamp :: u64

datatype ipc_error =
    IpcInvalidPort
  | IpcPermissionDenied
  | IpcMessageTooLarge
  | IpcPortBusy
  | IpcWouldBlock
  | IpcBatchTooLarge
  | IpcTimeout
  | IpcQueueFull
  | IpcDeadlockDetected
  | IpcInvalidSharedRegion
  | IpcRequiresSharedMemory
  | IpcSharedMemoryPayloadConflict

definition current_time_ms :: "'a thread_sys_scheme \<Rightarrow> u64" where
  "current_time_ms s = sys_ticks s * 10"

definition message_new :: "u64 \<Rightarrow> thread_id \<Rightarrow> u32 \<Rightarrow> u8 list \<Rightarrow> message" where
  "message_new now sender ty payload =
     \<lparr>m_sender = sender, m_type = ty, m_payload = payload, m_capability = None, m_shared_region = None,
      m_timestamp = now\<rparr>"

definition message_new_shared :: "u64 \<Rightarrow> thread_id \<Rightarrow> u32 \<Rightarrow> region_id \<Rightarrow> message" where
  "message_new_shared now sender ty region =
     \<lparr>m_sender = sender, m_type = ty, m_payload = [], m_capability = None, m_shared_region = Some region,
      m_timestamp = now\<rparr>"

definition message_new_grant :: "u64 \<Rightarrow> thread_id \<Rightarrow> u32 \<Rightarrow> u8 list \<Rightarrow> cap_handle \<Rightarrow> cap_permissions \<Rightarrow> message" where
  "message_new_grant now sender ty payload h perms =
     \<lparr>m_sender = sender, m_type = ty, m_payload = payload, m_capability = Some (IpcGrant h perms),
      m_shared_region = None, m_timestamp = now\<rparr>"

definition message_new_move :: "u64 \<Rightarrow> thread_id \<Rightarrow> u32 \<Rightarrow> u8 list \<Rightarrow> cap_handle \<Rightarrow> message" where
  "message_new_move now sender ty payload h =
     \<lparr>m_sender = sender, m_type = ty, m_payload = payload, m_capability = Some (IpcMove h),
      m_shared_region = None, m_timestamp = now\<rparr>"

section \<open>The trace ring\<close>

datatype ipc_event_kind = EvSend | EvReceive

record ipc_trace_event =
  ev_timestamp :: u64
  ev_kind :: ipc_event_kind
  ev_port :: port_id
  ev_sender :: thread_id
  ev_receiver :: "thread_id option"
  ev_size :: usize

definition IPC_TRACE_RING_SIZE :: nat where
  "IPC_TRACE_RING_SIZE = 1000"

record ipc_trace_buffer =
  tb_events :: "ipc_trace_event option list"
  tb_head :: nat
  tb_full :: bool

definition trace_new :: ipc_trace_buffer where
  "trace_new = \<lparr>tb_events = replicate IPC_TRACE_RING_SIZE None, tb_head = 0, tb_full = False\<rparr>"

definition trace_push :: "ipc_trace_event \<Rightarrow> ipc_trace_buffer \<Rightarrow> ipc_trace_buffer" where
  "trace_push ev b =
     (let head' = (tb_head b + 1) mod IPC_TRACE_RING_SIZE in
      \<lparr>tb_events = (tb_events b)[tb_head b := Some ev], tb_head = head',
       tb_full = (if head' = 0 then True else tb_full b)\<rparr>)"

definition trace_snapshot :: "nat \<Rightarrow> ipc_trace_buffer \<Rightarrow> ipc_trace_event list" where
  "trace_snapshot max_events b =
     (let total_events = (if tb_full b then IPC_TRACE_RING_SIZE else tb_head b);
          to_collect = min total_events max_events
      in List.map_filter
           (\<lambda>i. tb_events b ! (if tb_full b then (tb_head b + i) mod IPC_TRACE_RING_SIZE else i))
           [0 ..< to_collect])"

section \<open>Port metrics\<close>

record ipc_port_metrics =
  pm_messages_sent :: u64
  pm_messages_received :: u64
  pm_bytes_sent :: u64
  pm_bytes_received :: u64
  pm_min_latency :: "u64 option"
  pm_max_latency :: "u64 option"
  pm_total_latency :: "128 word"
  pm_first_message :: "u64 option"
  pm_last_message :: "u64 option"

definition metrics_default :: ipc_port_metrics where
  "metrics_default = \<lparr>pm_messages_sent = 0, pm_messages_received = 0, pm_bytes_sent = 0, pm_bytes_received = 0,
     pm_min_latency = None, pm_max_latency = None, pm_total_latency = 0, pm_first_message = None, pm_last_message = None\<rparr>"

definition record_send :: "usize \<Rightarrow> u64 \<Rightarrow> ipc_port_metrics \<Rightarrow> ipc_port_metrics" where
  "record_send sz ts m =
     m\<lparr>pm_messages_sent := pm_messages_sent m + 1, pm_bytes_sent := pm_bytes_sent m + sz,
       pm_first_message := (case pm_first_message m of None \<Rightarrow> Some ts | Some t \<Rightarrow> Some t),
       pm_last_message := Some ts\<rparr>"

definition record_receive :: "usize \<Rightarrow> u64 \<Rightarrow> u64 \<Rightarrow> ipc_port_metrics \<Rightarrow> ipc_port_metrics" where
  "record_receive sz send_ts recv_ts m =
     (let latency = saturating_sub recv_ts send_ts in
      m\<lparr>pm_messages_received := pm_messages_received m + 1, pm_bytes_received := pm_bytes_received m + sz,
        pm_min_latency := Some (case pm_min_latency m of Some c \<Rightarrow> min c latency | None \<Rightarrow> latency),
        pm_max_latency := Some (case pm_max_latency m of Some c \<Rightarrow> max c latency | None \<Rightarrow> latency),
        pm_total_latency := saturating_add (pm_total_latency m) (ucast latency),
        pm_first_message := (case pm_first_message m of None \<Rightarrow> Some send_ts | Some t \<Rightarrow> Some t),
        pm_last_message := Some recv_ts\<rparr>)"

record ipc_port_stats =
  ps_messages_sent :: u64
  ps_messages_received :: u64
  ps_bytes_sent :: u64
  ps_bytes_received :: u64
  ps_min_latency :: u64
  ps_max_latency :: u64
  ps_avg_latency :: u64
  ps_messages_per_second :: u64

definition metrics_to_stats :: "ipc_port_metrics \<Rightarrow> ipc_port_stats" where
  "metrics_to_stats m =
     \<lparr>ps_messages_sent = pm_messages_sent m, ps_messages_received = pm_messages_received m,
      ps_bytes_sent = pm_bytes_sent m, ps_bytes_received = pm_bytes_received m,
      ps_min_latency = (case pm_min_latency m of Some x \<Rightarrow> x | None \<Rightarrow> 0),
      ps_max_latency = (case pm_max_latency m of Some x \<Rightarrow> x | None \<Rightarrow> 0),
      ps_avg_latency = (if pm_messages_received m > 0
                        then ucast (pm_total_latency m div ucast (pm_messages_received m)) else 0),
      ps_messages_per_second =
        (case (pm_first_message m, pm_last_message m) of
           (Some first, Some last_ts) \<Rightarrow>
             saturating_mul (pm_messages_received m) 1000 div max (saturating_sub last_ts first) 1
         | _ \<Rightarrow> 0)\<rparr>"

section \<open>State\<close>

record port_state =
  p_id :: port_id
  p_owner :: thread_id
  p_messages :: "message list"
  p_receiver_blocked :: "thread_id option"
  p_max_waiter_priority :: "thread_priority option"
  p_metrics :: ipc_port_metrics

record waiter_info =
  w_port :: port_id
  w_deadline :: "u64 option"

record ipc_sys = sched_sys +
  ipc_ports :: "(port_id, port_state) btree"
  ipc_waiting :: "(thread_id, waiter_info) btree"
  ipc_trace :: ipc_trace_buffer
  ipc_next_port :: u64

definition port_new :: "port_id \<Rightarrow> thread_id \<Rightarrow> port_state" where
  "port_new i owner = \<lparr>p_id = i, p_owner = owner, p_messages = [], p_receiver_blocked = None,
     p_max_waiter_priority = None, p_metrics = metrics_default\<rparr>"

definition ipc_set_port :: "port_id \<Rightarrow> port_state \<Rightarrow> 'a ipc_sys_scheme \<Rightarrow> 'a ipc_sys_scheme" where
  "ipc_set_port i p s = s\<lparr>ipc_ports := bt_insert i p (ipc_ports s)\<rparr>"

definition record_trace_event :: "ipc_trace_event \<Rightarrow> 'a ipc_sys_scheme \<Rightarrow> 'a ipc_sys_scheme" where
  "record_trace_event ev s = s\<lparr>ipc_trace := trace_push ev (ipc_trace s)\<rparr>"

section \<open>Ports\<close>

definition create_port :: "thread_id \<Rightarrow> 'a ipc_sys_scheme \<Rightarrow> port_id \<times> 'a ipc_sys_scheme" where
  "create_port owner s =
     (let i = ipc_next_port s
      in (i, ipc_set_port i (port_new i owner) (s\<lparr>ipc_next_port := ipc_next_port s + 1\<rparr>)))"

definition get_port_owner :: "port_id \<Rightarrow> 'a ipc_sys_scheme \<Rightarrow> thread_id option" where
  "get_port_owner i s = map_option p_owner (bt_get (ipc_ports s) i)"

definition close_port :: "port_id \<Rightarrow> thread_id \<Rightarrow> 'a ipc_sys_scheme \<Rightarrow> (ipc_error + unit) \<times> 'a ipc_sys_scheme" where
  "close_port i caller s =
     (case bt_get (ipc_ports s) i of
        Some p \<Rightarrow>
          if p_owner p \<noteq> caller then (Inl IpcPermissionDenied, s)
          else (Inr (), s\<lparr>ipc_ports := bt_remove i (ipc_ports s)\<rparr>)
      | None \<Rightarrow> (Inl IpcInvalidPort, s))"

definition validate_payload_and_size :: "(region_id \<Rightarrow> usize option) \<Rightarrow> message \<Rightarrow> ipc_error + usize" where
  "validate_payload_and_size region_size m =
     (case m_shared_region m of
        Some region \<Rightarrow>
          if m_payload m \<noteq> [] then Inl IpcSharedMemoryPayloadConflict
          else (case region_size region of None \<Rightarrow> Inl IpcInvalidSharedRegion | Some sz \<Rightarrow> Inr sz)
      | None \<Rightarrow>
          if length (m_payload m) > MAX_MESSAGE_SIZE then Inl IpcMessageTooLarge
          else if length (m_payload m) > ZERO_COPY_THRESHOLD then Inl IpcRequiresSharedMemory
          else Inr (of_nat (length (m_payload m))))"

definition stamp :: "u64 \<Rightarrow> message \<Rightarrow> message" where
  "stamp now m = (if m_timestamp m = 0 then m\<lparr>m_timestamp := now\<rparr> else m)"

definition send_event :: "port_id \<Rightarrow> message \<Rightarrow> usize \<Rightarrow> ipc_trace_event" where
  "send_event i m sz = \<lparr>ev_timestamp = m_timestamp m, ev_kind = EvSend, ev_port = i, ev_sender = m_sender m,
     ev_receiver = None, ev_size = sz\<rparr>"

definition receive_event :: "u64 \<Rightarrow> port_id \<Rightarrow> thread_id \<Rightarrow> message \<Rightarrow> usize \<Rightarrow> ipc_trace_event" where
  "receive_event now i caller m sz = \<lparr>ev_timestamp = now, ev_kind = EvReceive, ev_port = i, ev_sender = m_sender m,
     ev_receiver = Some caller, ev_size = sz\<rparr>"

section \<open>Sending\<close>

definition ipc_send ::
  "(region_id \<Rightarrow> usize option) \<Rightarrow> port_id \<Rightarrow> message \<Rightarrow> 'a ipc_sys_scheme \<Rightarrow> (ipc_error + unit) \<times> 'a ipc_sys_scheme" where
  "ipc_send region_size i msg s =
     (case bt_get (ipc_ports s) i of
        None \<Rightarrow> (Inl IpcInvalidPort, s)
      | Some p \<Rightarrow>
          (case validate_payload_and_size region_size msg of
             Inl e \<Rightarrow> (Inl e, s)
           | Inr sz \<Rightarrow>
               if length (p_messages p) \<ge> MAX_QUEUE_DEPTH then (Inl IpcQueueFull, s)
               else
                 let m = stamp (current_time_ms s) msg;
                     p' = p\<lparr>p_messages := p_messages p @ [m],
                            p_metrics := record_send sz (m_timestamp m) (p_metrics p)\<rparr>
                 in (Inr (), record_trace_event (send_event i m sz) (ipc_set_port i p' s))))"

text \<open>The preparation loop of a batch stops at the first message that does not validate.\<close>

fun prepare_batch :: "(region_id \<Rightarrow> usize option) \<Rightarrow> u64 \<Rightarrow> message list \<Rightarrow> ipc_error + (message \<times> usize) list" where
  "prepare_batch region_size now [] = Inr []"
| "prepare_batch region_size now (m # ms) =
     (case validate_payload_and_size region_size m of
        Inl e \<Rightarrow> Inl e
      | Inr sz \<Rightarrow>
          (case prepare_batch region_size now ms of
             Inl e \<Rightarrow> Inl e
           | Inr rest \<Rightarrow> Inr ((stamp now m, sz) # rest)))"

fun enqueue_batch :: "port_id \<Rightarrow> (message \<times> usize) list \<Rightarrow> port_state \<times> 'a ipc_sys_scheme \<Rightarrow> port_state \<times> 'a ipc_sys_scheme" where
  "enqueue_batch i [] ps = ps"
| "enqueue_batch i ((m, sz) # rest) (p, s) =
     enqueue_batch i rest
       (p\<lparr>p_metrics := record_send sz (m_timestamp m) (p_metrics p), p_messages := p_messages p @ [m]\<rparr>,
        record_trace_event (send_event i m sz) s)"

definition wake_receiver :: "thread_id \<Rightarrow> 'a ipc_sys_scheme \<Rightarrow> 'a ipc_sys_scheme" where
  "wake_receiver t s =
     restore_original_priority t (mark_thread_ready t (s\<lparr>ipc_waiting := bt_remove t (ipc_waiting s)\<rparr>))"

definition ipc_send_batch ::
  "(region_id \<Rightarrow> usize option) \<Rightarrow> port_id \<Rightarrow> message list \<Rightarrow> 'a ipc_sys_scheme \<Rightarrow> (ipc_error + nat) \<times> 'a ipc_sys_scheme" where
  "ipc_send_batch region_size i msgs s =
     (if msgs = [] then (Inr 0, s)
      else if length msgs > MAX_BATCH_SIZE then (Inl IpcBatchTooLarge, s)
      else
        (case bt_get (ipc_ports s) i of
           None \<Rightarrow> (Inl IpcInvalidPort, s)
         | Some p \<Rightarrow>
             (case prepare_batch region_size (current_time_ms s) msgs of
                Inl e \<Rightarrow> (Inl e, s)
              | Inr prepared \<Rightarrow>
                  if length (p_messages p) + length prepared > MAX_QUEUE_DEPTH then (Inl IpcQueueFull, s)
                  else
                    let (p1, s1) = enqueue_batch i prepared (p, s)
                    in (Inr (length prepared),
                        case p_receiver_blocked p1 of
                          Some receiver \<Rightarrow>
                            wake_receiver receiver
                              (ipc_set_port i (p1\<lparr>p_receiver_blocked := None, p_max_waiter_priority := None\<rparr>) s1)
                        | None \<Rightarrow> ipc_set_port i p1 s1))))"

section \<open>Receiving\<close>

text \<open>
  A message is taken off the queue before its size is resolved again: when the shared
  region it names is gone by then, the message is dropped and the error returned.
\<close>

definition ipc_try_recv ::
  "(region_id \<Rightarrow> usize option) \<Rightarrow> port_id \<Rightarrow> thread_id \<Rightarrow> 'a ipc_sys_scheme
   \<Rightarrow> (ipc_error + message option) \<times> 'a ipc_sys_scheme" where
  "ipc_try_recv region_size i caller s =
     (case bt_get (ipc_ports s) i of
        None \<Rightarrow> (Inl IpcInvalidPort, s)
      | Some p \<Rightarrow>
          (case p_messages p of
             [] \<Rightarrow> (Inr None, s)
           | m # rest \<Rightarrow>
               let now = current_time_ms s; p1 = p\<lparr>p_messages := rest\<rparr> in
               (case validate_payload_and_size region_size m of
                  Inl e \<Rightarrow> (Inl e, ipc_set_port i p1 s)
                | Inr sz \<Rightarrow>
                    (Inr (Some m),
                     record_trace_event (receive_event now i caller m sz)
                       (ipc_set_port i (p1\<lparr>p_metrics := record_receive sz (m_timestamp m) now (p_metrics p1)\<rparr>) s)))))"

fun recv_loop ::
  "(region_id \<Rightarrow> usize option) \<Rightarrow> port_id \<Rightarrow> thread_id \<Rightarrow> nat \<Rightarrow> port_state \<Rightarrow> 'a ipc_sys_scheme
   \<Rightarrow> (ipc_error + message list) \<times> port_state \<times> 'a ipc_sys_scheme" where
  "recv_loop region_size i caller 0 p s = (Inr [], p, s)"
| "recv_loop region_size i caller (Suc n) p s =
     (case p_messages p of
        [] \<Rightarrow> (Inr [], p, s)
      | m # rest \<Rightarrow>
          let now = current_time_ms s; p1 = p\<lparr>p_messages := rest\<rparr> in
          (case validate_payload_and_size region_size m of
             Inl e \<Rightarrow> (Inl e, p1, s)
           | Inr sz \<Rightarrow>
               let (r, p2, s2) = recv_loop region_size i caller n
                     (p1\<lparr>p_metrics := record_receive sz (m_timestamp m) now (p_metrics p1)\<rparr>)
                     (record_trace_event (receive_event now i caller m sz) s)
               in (case r of Inl e \<Rightarrow> Inl e | Inr ms \<Rightarrow> Inr (m # ms), p2, s2)))"

definition ipc_recv_batch ::
  "(region_id \<Rightarrow> usize option) \<Rightarrow> port_id \<Rightarrow> thread_id \<Rightarrow> nat \<Rightarrow> 'a ipc_sys_scheme
   \<Rightarrow> (ipc_error + message list) \<times> 'a ipc_sys_scheme" where
  "ipc_recv_batch region_size i caller max_count s =
     (let n = min max_count MAX_BATCH_SIZE in
      case bt_get (ipc_ports s) i of
        None \<Rightarrow> (Inl IpcInvalidPort, s)
      | Some p \<Rightarrow> let (r, p', s') = recv_loop region_size i caller n p s in (r, ipc_set_port i p' s'))"

section \<open>Blocking, deadlock detection and timeouts\<close>

text \<open>
  The walk along the wait-for graph: port, its owner, the port the owner waits on, and so
  on. The source counts steps and gives up when they exceed the number of ports plus
  waiters; the first argument is the number of iterations left.
\<close>

fun deadlock_walk ::
  "nat \<Rightarrow> (port_id, port_state) btree \<Rightarrow> (thread_id, waiter_info) btree \<Rightarrow> thread_id \<Rightarrow> port_id option \<Rightarrow> bool" where
  "deadlock_walk 0 ports waiting start cur = False"
| "deadlock_walk (Suc n) ports waiting start cur =
     (case cur of
        None \<Rightarrow> False
      | Some i \<Rightarrow>
          (case bt_get ports i of
             None \<Rightarrow> False
           | Some p \<Rightarrow>
               if p_owner p = start then True
               else deadlock_walk n ports waiting start (map_option w_port (bt_get waiting (p_owner p)))))"

definition detect_deadlock :: "thread_id \<Rightarrow> port_id \<Rightarrow> 'a ipc_sys_scheme \<Rightarrow> bool" where
  "detect_deadlock start target s =
     deadlock_walk (Suc (bt_len (ipc_ports s) + bt_len (ipc_waiting s))) (ipc_ports s) (ipc_waiting s) start (Some target)"

definition ipc_block_recv ::
  "port_id \<Rightarrow> thread_id \<Rightarrow> thread_priority \<Rightarrow> u64 option \<Rightarrow> 'a ipc_sys_scheme \<Rightarrow> (ipc_error + unit) \<times> 'a ipc_sys_scheme" where
  "ipc_block_recv i caller caller_priority deadline s =
     (if \<not> bt_contains (ipc_ports s) i then (Inl IpcInvalidPort, s)
      else if detect_deadlock caller i s then (Inl IpcDeadlockDetected, s)
      else
        (case bt_get (ipc_ports s) i of
           None \<Rightarrow> (Inl IpcInvalidPort, s)
         | Some p \<Rightarrow>
             if p_receiver_blocked p \<noteq> None then (Inl IpcPortBusy, s)
             else
               let p' = p\<lparr>p_receiver_blocked := Some caller,
                          p_max_waiter_priority :=
                            Some (case p_max_waiter_priority p of Some q \<Rightarrow> max q caller_priority | None \<Rightarrow> caller_priority)\<rparr>
               in (Inr (), (ipc_set_port i p' s)
                     \<lparr>ipc_waiting := bt_insert caller \<lparr>w_port = i, w_deadline = deadline\<rparr> (ipc_waiting s)\<rparr>)))"

definition get_max_waiter_priority :: "port_id \<Rightarrow> 'a ipc_sys_scheme \<Rightarrow> thread_priority option" where
  "get_max_waiter_priority i s = (case bt_get (ipc_ports s) i of None \<Rightarrow> None | Some p \<Rightarrow> p_max_waiter_priority p)"

definition expired_waiters :: "u64 \<Rightarrow> (thread_id, waiter_info) btree \<Rightarrow> (thread_id \<times> port_id) list" where
  "expired_waiters now waiting =
     List.map_filter
       (\<lambda>(t, info). case w_deadline info of
            None \<Rightarrow> None
          | Some d \<Rightarrow> if now \<ge> d then Some (t, w_port info) else None)
       (bt_iter waiting)"

definition clear_waiter :: "thread_id \<times> port_id \<Rightarrow> (port_id, port_state) btree \<Rightarrow> (port_id, port_state) btree" where
  "clear_waiter = (\<lambda>(t, i) ports.
     case bt_get ports i of
       None \<Rightarrow> ports
     | Some p \<Rightarrow>
         if p_receiver_blocked p = Some t
         then bt_insert i (p\<lparr>p_receiver_blocked := None, p_max_waiter_priority := None\<rparr>) ports
         else ports)"

definition handle_timeouts :: "u64 \<Rightarrow> 'a ipc_sys_scheme \<Rightarrow> 'a ipc_sys_scheme" where
  "handle_timeouts now s =
     (let expired = expired_waiters now (ipc_waiting s) in
      if expired = [] then s
      else
        let s1 = s\<lparr>ipc_ports := fold clear_waiter expired (ipc_ports s)\<rparr>;
            s2 = s1\<lparr>ipc_waiting := fold (\<lambda>(t, _). bt_remove t) expired (ipc_waiting s1)\<rparr>
        in fold (\<lambda>(t, _) s. restore_original_priority t (mark_thread_ready t s)) expired s2)"

section \<open>Statistics\<close>

definition read_trace :: "nat \<Rightarrow> 'a ipc_sys_scheme \<Rightarrow> ipc_trace_event list" where
  "read_trace max_events s = trace_snapshot max_events (ipc_trace s)"

definition get_port_stats :: "port_id \<Rightarrow> 'a ipc_sys_scheme \<Rightarrow> ipc_error + ipc_port_stats" where
  "get_port_stats i s =
     (case bt_get (ipc_ports s) i of None \<Rightarrow> Inl IpcInvalidPort | Some p \<Rightarrow> Inr (metrics_to_stats (p_metrics p)))"

record ipc_stats =
  is_total_ports :: nat
  is_total_messages :: nat
  is_blocked_threads :: nat

definition ipc_get_stats :: "'a ipc_sys_scheme \<Rightarrow> ipc_stats" where
  "ipc_get_stats s =
     \<lparr>is_total_ports = bt_len (ipc_ports s),
      is_total_messages = sum_list (map (\<lambda>p. length (p_messages p)) (bt_values (ipc_ports s))),
      is_blocked_threads = bt_len (ipc_waiting s)\<rparr>"

section \<open>The trace ring keeps the most recent events\<close>

definition trace_ok :: "ipc_trace_buffer \<Rightarrow> bool" where
  "trace_ok b \<longleftrightarrow> length (tb_events b) = IPC_TRACE_RING_SIZE \<and> tb_head b < IPC_TRACE_RING_SIZE
     \<and> (\<forall>i < (if tb_full b then IPC_TRACE_RING_SIZE else tb_head b). tb_events b ! i \<noteq> None)"

definition trace_abs :: "ipc_trace_buffer \<Rightarrow> ipc_trace_event list" where
  "trace_abs b = map the (if tb_full b then drop (tb_head b) (tb_events b) @ List.take (tb_head b) (tb_events b)
                          else List.take (tb_head b) (tb_events b))"

definition most_recent :: "nat \<Rightarrow> 'b list \<Rightarrow> 'b list" where
  "most_recent n xs = drop (length xs - n) xs"

lemma ring_size_pos [simp]: "0 < IPC_TRACE_RING_SIZE"
  by (simp add: IPC_TRACE_RING_SIZE_def)

lemma length_trace_abs:
  "trace_ok b \<Longrightarrow> length (trace_abs b) = (if tb_full b then IPC_TRACE_RING_SIZE else tb_head b)"
  by (auto simp: trace_abs_def trace_ok_def)

lemma trace_ok_new: "trace_ok trace_new" "trace_abs trace_new = []"
  by (simp_all add: trace_ok_def trace_new_def trace_abs_def)

lemma trace_push_ok:
  assumes "trace_ok b"
  shows "trace_ok (trace_push ev b)"
proof (cases "Suc (tb_head b) = IPC_TRACE_RING_SIZE")
  case True
  with assms show ?thesis by (auto simp: trace_ok_def trace_push_def Let_def nth_list_update less_Suc_eq split: if_splits)
next
  case False
  with assms have "Suc (tb_head b) < IPC_TRACE_RING_SIZE" by (simp add: trace_ok_def)
  with assms show ?thesis by (auto simp: trace_ok_def trace_push_def Let_def nth_list_update less_Suc_eq split: if_splits)
qed

lemma trace_push_abs:
  assumes ok: "trace_ok b"
  shows "trace_abs (trace_push ev b) = most_recent IPC_TRACE_RING_SIZE (trace_abs b @ [ev])"
proof -
  let ?N = IPC_TRACE_RING_SIZE and ?h = "tb_head b" and ?e = "tb_events b"
  from ok have h: "?h < ?N" "length ?e = ?N" by (auto simp: trace_ok_def)
  have tk: "List.take (Suc ?h) (?e[?h := Some ev]) = List.take ?h ?e @ [Some ev]"
    using h by (simp add: take_Suc_conv_app_nth)
  have dr: "drop (Suc ?h) (?e[?h := Some ev]) = drop (Suc ?h) ?e" by simp
  have hd: "drop ?h ?e = ?e ! ?h # drop (Suc ?h) ?e" using h by (simp add: Cons_nth_drop_Suc)
  show ?thesis
  proof (cases "tb_full b")
    case True
    then have rhs: "most_recent ?N (trace_abs b @ [ev]) = map the (drop (Suc ?h) ?e @ List.take ?h ?e @ [Some ev])"
      using h by (simp add: most_recent_def trace_abs_def hd)
    show ?thesis
    proof (cases "Suc ?h = ?N")
      case wrap: True
      then have "drop (Suc ?h) ?e = []" "List.take ?N (?e[?h := Some ev]) = List.take ?h ?e @ [Some ev]"
        using h tk by simp_all
      then have "?e[?h := Some ev] = List.take ?h ?e @ [Some ev]" using h by simp
      with wrap True rhs h show ?thesis by (simp add: trace_abs_def trace_push_def)
    next
      case False
      with h have "Suc ?h < ?N" by simp
      with True rhs tk dr show ?thesis by (simp add: trace_abs_def trace_push_def)
    qed
  next
    case False
    then have rhs: "most_recent ?N (trace_abs b @ [ev]) = map the (List.take ?h ?e @ [Some ev])"
      using h by (simp add: most_recent_def trace_abs_def)
    show ?thesis
    proof (cases "Suc ?h = ?N")
      case wrap: True
      then have "?e[?h := Some ev] = List.take ?h ?e @ [Some ev]" using h tk by simp
      with wrap False rhs show ?thesis by (simp add: trace_abs_def trace_push_def)
    next
      case nowrap: False
      with h have "Suc ?h < ?N" by simp
      with False rhs tk show ?thesis by (simp add: trace_abs_def trace_push_def)
    qed
  qed
qed

lemma trace_snapshot_abs:
  assumes ok: "trace_ok b"
  shows "trace_snapshot n b = List.take n (trace_abs b)"
proof -
  let ?N = IPC_TRACE_RING_SIZE and ?h = "tb_head b" and ?e = "tb_events b"
  define t where "t = (if tb_full b then ?N else ?h)"
  define idx where "idx = (\<lambda>i. if tb_full b then (?h + i) mod ?N else i)"
  from ok have h: "?h < ?N" "length ?e = ?N" by (auto simp: trace_ok_def)
  have some: "?e ! idx i = Some (trace_abs b ! i)" if "i < t" for i
  proof (cases "tb_full b")
    case True
    with that have i: "i < ?N" by (simp add: t_def)
    have "trace_abs b ! i = the (?e ! ((?h + i) mod ?N))"
    proof (cases "?h + i < ?N")
      case True
      with \<open>tb_full b\<close> h show ?thesis by (simp add: trace_abs_def nth_append)
    next
      case False
      then have "(?h + i) mod ?N = ?h + i - ?N" using h i by (simp add: mod_if)
      with False \<open>tb_full b\<close> h i show ?thesis by (simp add: trace_abs_def nth_append add.commute)
    qed
    moreover have "?e ! ((?h + i) mod ?N) \<noteq> None" using ok True by (simp add: trace_ok_def)
    ultimately show ?thesis using True by (simp add: idx_def)
  next
    case False
    with that ok show ?thesis by (auto simp: t_def idx_def trace_abs_def trace_ok_def)
  qed
  have mf: "List.map_filter (\<lambda>i. ?e ! idx i) [0 ..< k] = map (\<lambda>i. trace_abs b ! i) [0 ..< k]" if "k \<le> t" for k
    using that by (induction k) (auto simp: List.map_filter_def some)
  have "trace_snapshot n b = List.map_filter (\<lambda>i. ?e ! idx i) [0 ..< min t n]"
    by (simp add: trace_snapshot_def t_def idx_def Let_def)
  also have "\<dots> = map (\<lambda>i. trace_abs b ! i) [0 ..< min t n]" by (rule mf) simp
  also have "\<dots> = List.take n (trace_abs b)"
    using length_trace_abs [OF ok] by (intro nth_equalityI) (auto simp: t_def split: if_splits)
  finally show ?thesis .
qed

section \<open>The wait-for graph\<close>

type_synonym port_map = "port_id \<Rightarrow> port_state option"
type_synonym wait_map = "thread_id \<Rightarrow> waiter_info option"

text \<open>A waiting thread points to the owner of the port it waits on.\<close>

definition wait_graph :: "port_map \<Rightarrow> wait_map \<Rightarrow> (thread_id \<times> thread_id) set" where
  "wait_graph P W = {(t, u). \<exists>info p. W t = Some info \<and> P (w_port info) = Some p \<and> u = p_owner p}"

lemma wait_graph_owner:
  "P i = Some p \<Longrightarrow> p_owner p' = p_owner p \<Longrightarrow> wait_graph (P(i \<mapsto> p')) W = wait_graph P W"
  by (auto simp: wait_graph_def split: if_splits)

lemma wait_graph_mono: "P' \<subseteq>\<^sub>m P \<Longrightarrow> W' \<subseteq>\<^sub>m W \<Longrightarrow> wait_graph P' W' \<subseteq> wait_graph P W"
  by (fastforce simp: wait_graph_def map_le_def dom_def)

lemma card_wait_graph:
  assumes "finite (dom W)"
  shows "finite (wait_graph P W) \<and> card (wait_graph P W) \<le> card (dom W)"
proof -
  have "wait_graph P W \<subseteq> (\<lambda>t. (t, p_owner (the (P (w_port (the (W t))))))) ` dom W"
    by (auto simp: wait_graph_def image_iff dom_def)
  with assms show ?thesis by (meson card_image_le card_mono finite_imageI finite_subset le_trans)
qed

lemma deadlock_walk_sound:
  "deadlock_walk n ports waiting start (Some i) \<Longrightarrow>
   \<exists>p. bt_get ports i = Some p \<and> (p_owner p, start) \<in> (wait_graph (bt_get ports) (bt_get waiting))\<^sup>*"
proof (induction n arbitrary: i)
  case (Suc n)
  then obtain p where p: "bt_get ports i = Some p" by (auto split: option.splits)
  show ?case
  proof (cases "p_owner p = start")
    case False
    with Suc.prems p obtain info where w: "bt_get waiting (p_owner p) = Some info"
      and walk: "deadlock_walk n ports waiting start (Some (w_port info))"
      by (cases "bt_get waiting (p_owner p)"; cases n) auto
    from Suc.IH [OF walk] obtain q where q: "bt_get ports (w_port info) = Some q"
      "(p_owner q, start) \<in> (wait_graph (bt_get ports) (bt_get waiting))\<^sup>*" by blast
    from w q(1) have "(p_owner p, p_owner q) \<in> wait_graph (bt_get ports) (bt_get waiting)"
      by (auto simp: wait_graph_def)
    with p q(2) show ?thesis by (meson converse_rtrancl_into_rtrancl)
  qed (use p in auto)
qed simp

lemma deadlock_walk_complete:
  "bt_get ports i = Some p \<Longrightarrow> (p_owner p, start) \<in> (wait_graph (bt_get ports) (bt_get waiting)) ^^ k \<Longrightarrow> k < n \<Longrightarrow>
   deadlock_walk n ports waiting start (Some i)"
proof (induction k arbitrary: i p n)
  case 0
  then show ?case by (cases n) auto
next
  case (Suc k)
  then obtain m where n: "n = Suc m" by (cases n) auto
  from Suc.prems(2) obtain u where u: "(p_owner p, u) \<in> wait_graph (bt_get ports) (bt_get waiting)"
    "(u, start) \<in> (wait_graph (bt_get ports) (bt_get waiting)) ^^ k" by (meson relpow_Suc_E2)
  then obtain info q where q: "bt_get waiting (p_owner p) = Some info" "bt_get ports (w_port info) = Some q" "u = p_owner q"
    by (auto simp: wait_graph_def)
  have "deadlock_walk m ports waiting start (Some (w_port info))"
    by (rule Suc.IH [OF q(2)]) (use u q n Suc.prems in auto)
  with q Suc.prems n show ?case by simp
qed

lemma detect_deadlock_iff:
  assumes "bt_wf (ipc_waiting s)" and "bt_get (ipc_ports s) i = Some p"
  shows "detect_deadlock t i s \<longleftrightarrow> (p_owner p, t) \<in> (wait_graph (bt_get (ipc_ports s)) (bt_get (ipc_waiting s)))\<^sup>*"
proof
  assume "detect_deadlock t i s"
  with deadlock_walk_sound [of _ "ipc_ports s" "ipc_waiting s" t i] assms(2)
  show "(p_owner p, t) \<in> (wait_graph (bt_get (ipc_ports s)) (bt_get (ipc_waiting s)))\<^sup>*"
    by (auto simp: detect_deadlock_def simp del: deadlock_walk.simps)
next
  let ?G = "wait_graph (bt_get (ipc_ports s)) (bt_get (ipc_waiting s))"
  assume "(p_owner p, t) \<in> ?G\<^sup>*"
  moreover have fin: "finite (dom (bt_get (ipc_waiting s)))" by (rule bt.finite_dom [OF assms(1)])
  note card = card_wait_graph [OF fin, of "bt_get (ipc_ports s)"]
  ultimately obtain k where k: "(p_owner p, t) \<in> ?G ^^ k" "k \<le> card ?G"
    using rtrancl_finite_eq_relpow [of ?G] by blast
  have "card ?G \<le> bt_len (ipc_waiting s)"
    using card bt.length_iter [OF assms(1)] by (simp add: bt_len_def bt_iter_def)
  with deadlock_walk_complete [OF assms(2) k(1)] k(2) show "detect_deadlock t i s"
    by (simp add: detect_deadlock_def del: deadlock_walk.simps)
qed

section \<open>The invariant\<close>

definition message_ok :: "message \<Rightarrow> bool" where
  "message_ok m \<longleftrightarrow> length (m_payload m) \<le> ZERO_COPY_THRESHOLD \<and> (m_shared_region m \<noteq> None \<longrightarrow> m_payload m = [])"

definition port_ok :: "port_state \<Rightarrow> bool" where
  "port_ok p \<longleftrightarrow> length (p_messages p) \<le> MAX_QUEUE_DEPTH \<and> (\<forall>m \<in> set (p_messages p). message_ok m)"

definition waiters_ok :: "u64 \<Rightarrow> port_map \<Rightarrow> wait_map \<Rightarrow> bool" where
  "waiters_ok nxt P W \<longleftrightarrow> (\<forall>t info. W t = Some info \<longrightarrow> w_port info < nxt
     \<and> (\<forall>p. P (w_port info) = Some p \<longrightarrow> p_receiver_blocked p = Some t))"

definition ipc_inv :: "'a ipc_sys_scheme \<Rightarrow> bool" where
  "ipc_inv s \<longleftrightarrow>
     registry_ok p_id (ipc_next_port s) (ipc_ports s) \<and> bt_wf (ipc_waiting s) \<and>
     (\<forall>i p. bt_get (ipc_ports s) i = Some p \<longrightarrow> port_ok p) \<and>
     waiters_ok (ipc_next_port s) (bt_get (ipc_ports s)) (bt_get (ipc_waiting s)) \<and>
     acyclic (wait_graph (bt_get (ipc_ports s)) (bt_get (ipc_waiting s))) \<and>
     trace_ok (ipc_trace s)"

lemma validate_message_ok: "validate_payload_and_size rs m = Inr sz \<Longrightarrow> message_ok m"
  by (auto simp: validate_payload_and_size_def message_ok_def split: option.splits if_splits)

lemma message_ok_stamp [simp]: "message_ok (stamp now m) = message_ok m"
  by (simp add: message_ok_def stamp_def)

lemma ipc_inv_trace: "ipc_inv s \<Longrightarrow> ipc_inv (record_trace_event ev s)"
  by (simp add: ipc_inv_def record_trace_event_def trace_push_ok)

lemma ipc_inv_set_port:
  assumes inv: "ipc_inv s" and p: "bt_get (ipc_ports s) i = Some p"
    and p': "p_id p' = p_id p" "p_owner p' = p_owner p" "p_receiver_blocked p' = p_receiver_blocked p" "port_ok p'"
  shows "ipc_inv (ipc_set_port i p' s)"
proof -
  from inv p have "p_id p = i" "i < ipc_next_port s" by (auto simp: ipc_inv_def registry_ok_def)
  with p'(1) have "registry_ok p_id (ipc_next_port s) (bt_insert i p' (ipc_ports s))"
    using inv by (simp add: ipc_inv_def registry_insert)
  moreover have "waiters_ok (ipc_next_port s) ((bt_get (ipc_ports s))(i \<mapsto> p')) (bt_get (ipc_waiting s))"
    using inv p p'(3) by (auto simp: ipc_inv_def waiters_ok_def)
  ultimately show ?thesis
    using inv p'(4) wait_graph_owner [of "bt_get (ipc_ports s)" i p p', OF p p'(2)]
    by (simp add: ipc_inv_def ipc_set_port_def bt_get_insert_fun)
qed

section \<open>Every operation keeps the invariant\<close>

lemma ipc_frame [simp]:
  "ipc_ports (mark_thread_ready t s) = ipc_ports s" "ipc_waiting (mark_thread_ready t s) = ipc_waiting s"
  "ipc_trace (mark_thread_ready t s) = ipc_trace s" "ipc_next_port (mark_thread_ready t s) = ipc_next_port s"
  "ipc_ports (restore_original_priority t s) = ipc_ports s" "ipc_waiting (restore_original_priority t s) = ipc_waiting s"
  "ipc_trace (restore_original_priority t s) = ipc_trace s" "ipc_next_port (restore_original_priority t s) = ipc_next_port s"
  "ipc_ports (record_trace_event ev s) = ipc_ports s" "ipc_waiting (record_trace_event ev s) = ipc_waiting s"
  "ipc_next_port (record_trace_event ev s) = ipc_next_port s"
  "ipc_waiting (ipc_set_port i p s) = ipc_waiting s" "ipc_trace (ipc_set_port i p s) = ipc_trace s"
  "ipc_next_port (ipc_set_port i p s) = ipc_next_port s" "ipc_ports (ipc_set_port i p s) = bt_insert i p (ipc_ports s)"
  "sys_ticks (record_trace_event ev s) = sys_ticks s" "sys_ticks (ipc_set_port i p s) = sys_ticks s"
  by (simp_all add: mark_thread_ready_def restore_original_priority_def record_trace_event_def ipc_set_port_def
      sys_set_state_def Let_def)

lemma current_time_frame [simp]:
  "current_time_ms (record_trace_event ev s) = current_time_ms s" "current_time_ms (ipc_set_port i p s) = current_time_ms s"
  by (simp_all add: current_time_ms_def)

lemma ipc_inv_port: "ipc_inv s \<Longrightarrow> bt_get (ipc_ports s) i = Some p \<Longrightarrow> port_ok p"
  by (simp add: ipc_inv_def)

lemma ipc_inv_send:
  assumes "ipc_inv s"
  shows "ipc_inv (snd (ipc_send rs i m s))"
proof (cases "bt_get (ipc_ports s) i")
  case (Some p)
  show ?thesis
  proof (cases "validate_payload_and_size rs m")
    case (Inr sz)
    with ipc_inv_port [OF assms Some] validate_message_ok [OF Inr] Some assms show ?thesis
      by (auto simp: ipc_send_def Let_def port_ok_def intro!: ipc_inv_trace ipc_inv_set_port)
  qed (use assms Some in \<open>simp add: ipc_send_def\<close>)
qed (use assms in \<open>simp add: ipc_send_def\<close>)

lemma ipc_inv_try_recv:
  assumes "ipc_inv s"
  shows "ipc_inv (snd (ipc_try_recv rs i c s))"
proof (cases "bt_get (ipc_ports s) i")
  case (Some p)
  with ipc_inv_port [OF assms Some] assms show ?thesis
    by (auto simp: ipc_try_recv_def Let_def port_ok_def intro!: ipc_inv_trace ipc_inv_set_port
        split: sum.split list.split)
qed (use assms in \<open>simp add: ipc_try_recv_def\<close>)

lemma enqueue_batch_spec:
  assumes "enqueue_batch i prep (p, s) = (p', s')"
  shows "p_messages p' = p_messages p @ map fst prep" "p_id p' = p_id p" "p_owner p' = p_owner p"
    "p_receiver_blocked p' = p_receiver_blocked p" "ipc_ports s' = ipc_ports s" "ipc_waiting s' = ipc_waiting s"
    "ipc_next_port s' = ipc_next_port s" "trace_ok (ipc_trace s) \<longrightarrow> trace_ok (ipc_trace s')"
  using assms
proof (induction prep arbitrary: p s)
  case (Cons a prep)
  { case 1 with Cons.IH(1) show ?case by (cases a) auto }
  { case 2 with Cons.IH(2) show ?case by (cases a) auto }
  { case 3 with Cons.IH(3) show ?case by (cases a) auto }
  { case 4 with Cons.IH(4) show ?case by (cases a) auto }
  { case 5 with Cons.IH(5) show ?case by (cases a) auto }
  { case 6 with Cons.IH(6) show ?case by (cases a) auto }
  { case 7 with Cons.IH(7) show ?case by (cases a) auto }
  { case 8 with Cons.IH(8) show ?case by (cases a) (fastforce simp: record_trace_event_def trace_push_ok) }
qed auto

lemma prepare_batch_spec:
  "prepare_batch rs now ms = Inr prep \<Longrightarrow>
   map fst prep = map (stamp now) ms \<and> length prep = length ms \<and> (\<forall>m \<in> set ms. message_ok m)"
  by (induction ms arbitrary: prep) (auto split: sum.splits dest: validate_message_ok)

lemma ipc_inv_unblock:
  assumes inv: "ipc_inv s" and p: "bt_get (ipc_ports s) i = Some p" "p_receiver_blocked p = Some t"
    and p': "p_id p' = p_id p" "p_owner p' = p_owner p" "port_ok p'"
  shows "ipc_inv ((ipc_set_port i p' s)\<lparr>ipc_waiting := bt_remove t (ipc_waiting s)\<rparr>)"
proof -
  let ?P = "bt_get (ipc_ports s)" and ?W = "bt_get (ipc_waiting s)"
  from inv p have "p_id p = i" "i < ipc_next_port s" by (auto simp: ipc_inv_def registry_ok_def)
  with p'(1) have "registry_ok p_id (ipc_next_port s) (bt_insert i p' (ipc_ports s))"
    using inv by (simp add: ipc_inv_def registry_insert)
  moreover have "waiters_ok (ipc_next_port s) (?P(i \<mapsto> p')) (?W(t := None))"
    using inv p by (auto simp: ipc_inv_def waiters_ok_def)
  moreover have "wait_graph (?P(i \<mapsto> p')) (?W(t := None)) \<subseteq> wait_graph ?P ?W"
    using p p'(2) by (auto simp: wait_graph_def split: if_splits)
  then have "acyclic (wait_graph (?P(i \<mapsto> p')) (?W(t := None)))"
    using inv acyclic_subset by (auto simp: ipc_inv_def)
  ultimately show ?thesis using inv p'(3)
    by (simp add: ipc_inv_def bt_get_insert_fun bt_get_remove_fun)
qed

lemma ipc_inv_cong:
  "ipc_inv s \<Longrightarrow> ipc_ports s' = ipc_ports s \<Longrightarrow> ipc_waiting s' = ipc_waiting s \<Longrightarrow> trace_ok (ipc_trace s') \<Longrightarrow>
   ipc_next_port s' = ipc_next_port s \<Longrightarrow> ipc_inv s'"
  by (simp add: ipc_inv_def)

lemma ipc_inv_send_batch:
  assumes inv: "ipc_inv s"
  shows "ipc_inv (snd (ipc_send_batch rs i ms s))"
proof (cases "\<exists>n. fst (ipc_send_batch rs i ms s) = Inr n \<and> ms \<noteq> []")
  case False
  then show ?thesis using inv
    by (auto simp: ipc_send_batch_def split: option.splits sum.splits prod.splits)
next
  case True
  then obtain p prep where p: "bt_get (ipc_ports s) i = Some p" and prep: "prepare_batch rs (current_time_ms s) ms = Inr prep"
    and len: "ms \<noteq> []" "length ms \<le> MAX_BATCH_SIZE" "length (p_messages p) + length prep \<le> MAX_QUEUE_DEPTH"
    by (auto simp: ipc_send_batch_def split: option.splits sum.splits if_splits)
  obtain p1 s1 where en: "enqueue_batch i prep (p, s) = (p1, s1)" by fastforce
  note e = enqueue_batch_spec [OF en]
  have inv1: "ipc_inv s1" by (rule ipc_inv_cong [OF inv]) (use e inv in \<open>auto simp: ipc_inv_def\<close>)
  have p_s1: "bt_get (ipc_ports s1) i = Some p" using p e by simp
  have ok1: "port_ok p1" using ipc_inv_port [OF inv p] prepare_batch_spec [OF prep] len e(1) by (auto simp: port_ok_def)
  show ?thesis
  proof (cases "p_receiver_blocked p1")
    case None
    with p prep len en ipc_inv_set_port [OF inv1 p_s1 _ _ _ ok1] e show ?thesis
      by (simp add: ipc_send_batch_def)
  next
    case (Some t)
    let ?p = "p1\<lparr>p_receiver_blocked := None, p_max_waiter_priority := None\<rparr>"
    have "ipc_inv ((ipc_set_port i ?p s1)\<lparr>ipc_waiting := bt_remove t (ipc_waiting s1)\<rparr>)"
      by (rule ipc_inv_unblock [OF inv1 p_s1]) (use Some e ok1 in \<open>auto simp: port_ok_def\<close>)
    then have "ipc_inv (wake_receiver t (ipc_set_port i ?p s1))"
      by (simp add: wake_receiver_def ipc_inv_def)
    with p prep len en Some show ?thesis by (simp add: ipc_send_batch_def)
  qed
qed

lemma recv_loop_spec:
  assumes "recv_loop rs i c n p s = (r, p', s')"
  shows "p_id p' = p_id p \<and> p_owner p' = p_owner p \<and> p_receiver_blocked p' = p_receiver_blocked p
    \<and> (port_ok p \<longrightarrow> port_ok p') \<and> ipc_ports s' = ipc_ports s \<and> ipc_waiting s' = ipc_waiting s
    \<and> ipc_next_port s' = ipc_next_port s \<and> (trace_ok (ipc_trace s) \<longrightarrow> trace_ok (ipc_trace s'))"
  using assms
proof (induction n arbitrary: p s r)
  case (Suc n)
  show ?case
  proof (cases "p_messages p")
    case (Cons m rest)
    show ?thesis
    proof (cases "validate_payload_and_size rs m")
      case (Inl e)
      with Suc.prems Cons show ?thesis by (auto simp: port_ok_def)
    next
      case (Inr sz)
      let ?now = "current_time_ms s"
      let ?p = "p\<lparr>p_messages := rest, p_metrics := record_receive sz (m_timestamp m) ?now (p_metrics p)\<rparr>"
      let ?s = "record_trace_event (receive_event ?now i c m sz) s"
      obtain r1 where l: "recv_loop rs i c n ?p ?s = (r1, p', s')"
        using Suc.prems Cons Inr by (auto simp: Let_def split: prod.splits)
      from Suc.IH [OF l] Cons show ?thesis by (auto simp: port_ok_def record_trace_event_def trace_push_ok)
    qed
  qed (use Suc.prems in auto)
qed auto

lemma ipc_inv_recv_batch:
  assumes inv: "ipc_inv s"
  shows "ipc_inv (snd (ipc_recv_batch rs i c n s))"
proof (cases "bt_get (ipc_ports s) i")
  case None
  with inv show ?thesis by (simp add: ipc_recv_batch_def Let_def)
next
  case (Some p)
  obtain r p' s' where l: "recv_loop rs i c (min n MAX_BATCH_SIZE) p s = (r, p', s')" by (metis surj_pair)
  note sp = recv_loop_spec [OF l]
  have inv': "ipc_inv s'" by (rule ipc_inv_cong [OF inv]) (use sp inv in \<open>auto simp: ipc_inv_def\<close>)
  have "ipc_inv (ipc_set_port i p' s')"
    by (rule ipc_inv_set_port [OF inv', of i p]) (use sp Some ipc_inv_port [OF inv Some] in auto)
  with Some l show ?thesis by (simp add: ipc_recv_batch_def Let_def)
qed

lemma ipc_inv_create_port:
  assumes inv: "ipc_inv s" and n: "ipc_next_port s \<noteq> u64_max"
  shows "ipc_inv (snd (create_port owner s))"
proof -
  let ?n = "ipc_next_port s" and ?P = "bt_get (ipc_ports s)" and ?W = "bt_get (ipc_waiting s)"
  let ?P' = "?P(?n \<mapsto> port_new ?n owner)"
  have "registry_ok p_id (?n + 1) (bt_insert ?n (port_new ?n owner) (ipc_ports s))"
    using inv n by (simp add: ipc_inv_def registry_alloc port_new_def)
  moreover have old: "w_port info < ?n" if "?W t = Some info" for t info
    using inv that by (simp add: ipc_inv_def waiters_ok_def)
  then have same: "?P' (w_port info) = ?P (w_port info)" if "?W t = Some info" for t info
    using that by (metis fun_upd_other less_irrefl)
  have "wait_graph ?P' ?W = wait_graph ?P ?W" unfolding wait_graph_def using same by fastforce
  moreover have "waiters_ok (?n + 1) ?P' ?W"
    unfolding waiters_ok_def
  proof (intro allI impI)
    fix t info assume w: "?W t = Some info"
    with inv have "\<forall>p. ?P (w_port info) = Some p \<longrightarrow> p_receiver_blocked p = Some t"
      by (simp add: ipc_inv_def waiters_ok_def)
    moreover have "w_port info < ?n + 1" using old [OF w] word_less_inc_iff [OF n] by simp
    ultimately show "w_port info < ?n + 1 \<and> (\<forall>p. ?P' (w_port info) = Some p \<longrightarrow> p_receiver_blocked p = Some t)"
      by (simp only: same [OF w])
  qed
  ultimately show ?thesis using inv
    by (simp add: ipc_inv_def create_port_def Let_def bt_get_insert_fun port_ok_def port_new_def)
qed

lemma ipc_inv_close_port:
  assumes inv: "ipc_inv s"
  shows "ipc_inv (snd (close_port i caller s))"
proof -
  let ?P = "bt_get (ipc_ports s)" and ?W = "bt_get (ipc_waiting s)"
  have "wait_graph (?P(i := None)) ?W \<subseteq> wait_graph ?P ?W"
    by (rule wait_graph_mono) (auto simp: map_le_def)
  then have "acyclic (wait_graph (?P(i := None)) ?W)" using inv acyclic_subset by (auto simp: ipc_inv_def)
  moreover have "waiters_ok (ipc_next_port s) (?P(i := None)) ?W"
    using inv by (auto simp: ipc_inv_def waiters_ok_def)
  ultimately show ?thesis using inv
    by (auto simp: ipc_inv_def close_port_def bt_get_remove_fun registry_remove split: option.splits)
qed

lemma ipc_inv_block_recv:
  assumes inv: "ipc_inv s"
  shows "ipc_inv (snd (ipc_block_recv i t prio d s))"
proof (cases "\<exists>p. bt_get (ipc_ports s) i = Some p \<and> \<not> detect_deadlock t i s \<and> p_receiver_blocked p = None")
  case False
  then have "snd (ipc_block_recv i t prio d s) = s"
    by (auto simp: ipc_block_recv_def bt_contains_def split: option.split)
  with inv show ?thesis by simp
next
  case True
  then obtain p where p: "bt_get (ipc_ports s) i = Some p" "\<not> detect_deadlock t i s" "p_receiver_blocked p = None" by blast
  let ?P = "bt_get (ipc_ports s)" and ?W = "bt_get (ipc_waiting s)"
  define p' where "p' = p\<lparr>p_receiver_blocked := Some t, p_max_waiter_priority :=
      Some (case p_max_waiter_priority p of Some q \<Rightarrow> max q prio | None \<Rightarrow> prio)\<rparr>"
  define info where "info = \<lparr>w_port = i, w_deadline = d\<rparr>"
  have out: "snd (ipc_block_recv i t prio d s) = (ipc_set_port i p' s)\<lparr>ipc_waiting := bt_insert t info (ipc_waiting s)\<rparr>"
    using p by (simp add: ipc_block_recv_def bt_contains_def p'_def info_def)
  from inv p have pid: "p_id p = i" "i < ipc_next_port s" and okp: "port_ok p" and wf: "bt_wf (ipc_waiting s)"
    by (auto simp: ipc_inv_def registry_ok_def)
  have "wait_graph (?P(i \<mapsto> p')) (?W(t \<mapsto> info)) \<subseteq> insert (t, p_owner p) (wait_graph ?P ?W)"
    using p(1) by (auto simp: wait_graph_def p'_def info_def split: if_splits)
  moreover have "acyclic (insert (t, p_owner p) (wait_graph ?P ?W))"
    using inv p detect_deadlock_iff [OF wf p(1), of t] by (simp add: ipc_inv_def acyclic_insert)
  ultimately have "acyclic (wait_graph (?P(i \<mapsto> p')) (?W(t \<mapsto> info)))" using acyclic_subset by blast
  moreover have "waiters_ok (ipc_next_port s) (?P(i \<mapsto> p')) (?W(t \<mapsto> info))"
    using inv p pid by (auto simp: ipc_inv_def waiters_ok_def p'_def info_def)
  moreover have "registry_ok p_id (ipc_next_port s) (bt_insert i p' (ipc_ports s))"
    using inv pid by (simp add: ipc_inv_def registry_insert p'_def)
  ultimately show ?thesis using inv okp unfolding out
    by (simp add: ipc_inv_def bt_get_insert_fun) (simp add: port_ok_def p'_def)
qed

lemma expired_waiters_mem:
  "bt_wf W \<Longrightarrow> (t, i) \<in> set (expired_waiters now W) \<longleftrightarrow>
    (\<exists>info d. bt_get W t = Some info \<and> w_port info = i \<and> w_deadline info = Some d \<and> d \<le> now)"
  using bt.iter_get [of W t]
  by (force simp: expired_waiters_def List.map_filter_def image_iff split: option.splits if_splits)

definition unblocked :: "port_state \<Rightarrow> port_state" where
  "unblocked p = p\<lparr>p_receiver_blocked := None, p_max_waiter_priority := None\<rparr>"

lemma clear_waiters_get:
  "bt_get (fold clear_waiter E ports) i =
     map_option (\<lambda>p. if \<exists>t. (t, i) \<in> set E \<and> p_receiver_blocked p = Some t then unblocked p else p) (bt_get ports i)"
proof (induction E arbitrary: ports)
  case (Cons e E)
  obtain t j where e: "e = (t, j)" by fastforce
  have one: "bt_get (clear_waiter (t, j) ports) i =
      map_option (\<lambda>p. if i = j \<and> p_receiver_blocked p = Some t then unblocked p else p) (bt_get ports i)"
    by (cases "bt_get ports j"; cases "i = j") (auto simp: clear_waiter_def unblocked_def option.map_id0 [unfolded id_def])
  show ?case
    by (simp add: Cons.IH e one option.map_comp comp_def, rule map_option_cong)
      (auto simp: unblocked_def)
qed (simp add: option.map_id0 [unfolded id_def])

lemma clear_waiter_wf: "bt_wf ports \<Longrightarrow> bt_wf (clear_waiter e ports)"
  by (cases e) (auto simp: clear_waiter_def split: option.split)

lemma clear_waiters_wf: "bt_wf ports \<Longrightarrow> bt_wf (fold clear_waiter E ports)"
  by (induction E arbitrary: ports) (simp_all add: clear_waiter_wf)

lemma remove_waiters_get:
  "bt_get (fold (\<lambda>(t, _). bt_remove t) E W) t = (if t \<in> fst ` set E then None else bt_get W t)"
  for W :: "(u64, 'v) btree"
  by (induction E arbitrary: W) auto

lemma remove_waiters_wf: "bt_wf W \<Longrightarrow> bt_wf (fold (\<lambda>(t, _). bt_remove t) E W)"
  for W :: "(u64, 'v) btree"
  by (induction E arbitrary: W) auto

lemma wake_fold_frame:
  "ipc_ports (fold (\<lambda>(t, _) s. restore_original_priority t (mark_thread_ready t s)) E s) = ipc_ports s
   \<and> ipc_waiting (fold (\<lambda>(t, _) s. restore_original_priority t (mark_thread_ready t s)) E s) = ipc_waiting s
   \<and> ipc_trace (fold (\<lambda>(t, _) s. restore_original_priority t (mark_thread_ready t s)) E s) = ipc_trace s
   \<and> ipc_next_port (fold (\<lambda>(t, _) s. restore_original_priority t (mark_thread_ready t s)) E s) = ipc_next_port s"
  by (induction E arbitrary: s) auto

lemma handle_timeouts_maps:
  fixes s :: "'a ipc_sys_scheme" and now :: u64
  defines "E \<equiv> expired_waiters now (ipc_waiting s)"
  shows "ipc_ports (handle_timeouts now s) = fold clear_waiter E (ipc_ports s)"
    and "ipc_waiting (handle_timeouts now s) = fold (\<lambda>(t, _). bt_remove t) E (ipc_waiting s)"
    and "ipc_trace (handle_timeouts now s) = ipc_trace s"
    and "ipc_next_port (handle_timeouts now s) = ipc_next_port s"
  by (simp_all add: handle_timeouts_def Let_def E_def wake_fold_frame)

lemma ipc_inv_timeouts:
  assumes inv: "ipc_inv s"
  shows "ipc_inv (handle_timeouts now s)"
proof -
  let ?E = "expired_waiters now (ipc_waiting s)" and ?P = "bt_get (ipc_ports s)" and ?W = "bt_get (ipc_waiting s)"
  let ?P' = "bt_get (ipc_ports (handle_timeouts now s))" and ?W' = "bt_get (ipc_waiting (handle_timeouts now s))"
  have P': "?P' i = map_option (\<lambda>p. if \<exists>t. (t, i) \<in> set ?E \<and> p_receiver_blocked p = Some t then unblocked p else p) (?P i)" for i
    by (simp add: handle_timeouts_maps clear_waiters_get)
  have W': "?W' t = (if t \<in> fst ` set ?E then None else ?W t)" for t
    by (simp add: handle_timeouts_maps remove_waiters_get)
  have "registry_ok p_id (ipc_next_port s) (ipc_ports (handle_timeouts now s))"
    using inv P' by (auto simp: ipc_inv_def registry_ok_def handle_timeouts_maps clear_waiters_wf clear_waiters_get
        unblocked_def split: if_splits)
  moreover have "waiters_ok (ipc_next_port s) ?P' ?W'"
  proof -
    have "w_port info < ipc_next_port s \<and> (\<forall>p. ?P' (w_port info) = Some p \<longrightarrow> p_receiver_blocked p = Some t)"
      if "?W' t = Some info" for t info
    proof -
      from that have t: "t \<notin> fst ` set ?E" "?W t = Some info" by (auto simp: W' split: if_splits)
      from t(2) inv have old: "w_port info < ipc_next_port s" "\<And>p. ?P (w_port info) = Some p \<Longrightarrow> p_receiver_blocked p = Some t"
        by (auto simp: ipc_inv_def waiters_ok_def)
      with t(1) show ?thesis by (force simp: P' image_iff split: if_splits)
    qed
    then show ?thesis unfolding waiters_ok_def by blast
  qed
  moreover have "wait_graph ?P' ?W' \<subseteq> wait_graph ?P ?W"
    by (auto simp: wait_graph_def P' W' unblocked_def split: if_splits)
  then have "acyclic (wait_graph ?P' ?W')" using inv acyclic_subset by (auto simp: ipc_inv_def)
  moreover have "\<forall>i p. ?P' i = Some p \<longrightarrow> port_ok p"
    using inv by (auto simp: P' ipc_inv_def port_ok_def unblocked_def split: if_splits)
  ultimately show ?thesis using inv
    by (simp add: ipc_inv_def handle_timeouts_maps(2-4) remove_waiters_wf)
qed

section \<open>Reachable states\<close>

text \<open>
  The steps of the manager; the answer of the shared memory manager may be different at
  every step. Port creation is enabled while the 64-bit counter has not reached its last
  value. \<open>Other\<close> is any step of another component, which does not touch the manager.
\<close>

inductive ipc_step :: "ipc_sys \<Rightarrow> ipc_sys \<Rightarrow> bool" where
  CreatePort: "ipc_next_port s \<noteq> u64_max \<Longrightarrow> ipc_step s (snd (create_port owner s))"
| ClosePort: "ipc_step s (snd (close_port i caller s))"
| Send: "ipc_step s (snd (ipc_send rs i m s))"
| SendBatch: "ipc_step s (snd (ipc_send_batch rs i ms s))"
| TryRecv: "ipc_step s (snd (ipc_try_recv rs i caller s))"
| RecvBatch: "ipc_step s (snd (ipc_recv_batch rs i caller n s))"
| BlockRecv: "ipc_step s (snd (ipc_block_recv i caller prio deadline s))"
| Timeouts: "ipc_step s (handle_timeouts now s)"
| Other: "ipc_ports s' = ipc_ports s \<Longrightarrow> ipc_waiting s' = ipc_waiting s \<Longrightarrow> ipc_trace s' = ipc_trace s \<Longrightarrow>
    ipc_next_port s' = ipc_next_port s \<Longrightarrow> ipc_step s s'"

definition ipc_boot :: ipc_sys where
  "ipc_boot = sched_sys.extend sched_boot
     \<lparr>ipc_ports = bt_empty, ipc_waiting = bt_empty, ipc_trace = trace_new, ipc_next_port = 1\<rparr>"

lemma ipc_boot_fields:
  "ipc_ports ipc_boot = bt_empty" "ipc_waiting ipc_boot = bt_empty" "ipc_trace ipc_boot = trace_new"
  "ipc_next_port ipc_boot = 1"
  by (simp_all add: ipc_boot_def sched_sys.defs)

lemma ipc_inv_boot: "ipc_inv ipc_boot"
  by (simp add: ipc_inv_def ipc_boot_fields registry_empty waiters_ok_def wait_graph_def acyclic_def trace_ok_new)

lemma ipc_inv_step: "ipc_step s s' \<Longrightarrow> ipc_inv s \<Longrightarrow> ipc_inv s'"
proof (induction rule: ipc_step.induct)
  case (Other s' s)
  from Other.prems show ?case by (rule ipc_inv_cong) (use Other in \<open>auto simp: ipc_inv_def\<close>)
qed (simp_all add: ipc_inv_create_port ipc_inv_close_port ipc_inv_send ipc_inv_send_batch ipc_inv_try_recv
    ipc_inv_recv_batch ipc_inv_block_recv ipc_inv_timeouts)

lemma ipc_inv_reach: "ipc_step\<^sup>*\<^sup>* ipc_boot s \<Longrightarrow> ipc_inv s"
  by (induction rule: rtranclp_induct) (auto intro: ipc_inv_boot ipc_inv_step)

section \<open>A port is a bounded FIFO\<close>

type_synonym message_content = "thread_id \<times> u32 \<times> u8 list \<times> ipc_capability option \<times> region_id option"

definition message_view :: "message \<Rightarrow> message_content" where
  "message_view m = (m_sender m, m_type m, m_payload m, m_capability m, m_shared_region m)"

definition port_items :: "port_id \<Rightarrow> 'a ipc_sys_scheme \<Rightarrow> message_content list" where
  "port_items i s = (case bt_get (ipc_ports s) i of None \<Rightarrow> [] | Some p \<Rightarrow> map message_view (p_messages p))"

definition port_put :: "(region_id \<Rightarrow> usize option) \<Rightarrow> port_id \<Rightarrow> message \<Rightarrow> 'a ipc_sys_scheme \<Rightarrow> bool \<times> 'a ipc_sys_scheme" where
  "port_put rs i m s = (case ipc_send rs i m s of (Inr _, s') \<Rightarrow> (True, s') | (Inl _, s') \<Rightarrow> (False, s'))"

definition port_take :: "(region_id \<Rightarrow> usize option) \<Rightarrow> port_id \<Rightarrow> thread_id \<Rightarrow> 'a ipc_sys_scheme
    \<Rightarrow> message_content option \<times> 'a ipc_sys_scheme" where
  "port_take rs i c s =
     (case ipc_try_recv rs i c s of (Inr x, s') \<Rightarrow> (map_option message_view x, s') | (Inl _, s') \<Rightarrow> (None, s'))"

definition sendable :: "(region_id \<Rightarrow> usize option) \<Rightarrow> message \<Rightarrow> bool" where
  "sendable rs m \<longleftrightarrow> (case validate_payload_and_size rs m of Inl _ \<Rightarrow> False | Inr _ \<Rightarrow> True)"

definition port_open :: "(region_id \<Rightarrow> usize option) \<Rightarrow> port_id \<Rightarrow> 'a ipc_sys_scheme \<Rightarrow> bool" where
  "port_open rs i s \<longleftrightarrow>
     (case bt_get (ipc_ports s) i of
        None \<Rightarrow> False
      | Some p \<Rightarrow> length (p_messages p) \<le> MAX_QUEUE_DEPTH \<and> list_all (sendable rs) (p_messages p))"

lemma message_view_stamp [simp]: "message_view (stamp now m) = message_view m"
  by (simp add: message_view_def stamp_def)

lemma validate_stamp [simp]: "validate_payload_and_size rs (stamp now m) = validate_payload_and_size rs m"
  by (cases "m_shared_region m"; cases "m_timestamp m = 0") (simp_all add: validate_payload_and_size_def stamp_def)

lemma sendable_stamp [simp]: "sendable rs (stamp now m) = sendable rs m"
  by (simp add: sendable_def)

lemma port_put_step:
  assumes "port_open rs i s" and "sendable rs m" and "port_put rs i m s = (b, s')"
  shows "port_open rs i s' \<and> (b \<longleftrightarrow> length (port_items i s) < MAX_QUEUE_DEPTH)
    \<and> port_items i s' = (if b then port_items i s @ [message_view m] else port_items i s)"
proof -
  from assms(1) obtain p where p: "bt_get (ipc_ports s) i = Some p" "length (p_messages p) \<le> MAX_QUEUE_DEPTH"
    "list_all (sendable rs) (p_messages p)" by (auto simp: port_open_def split: option.splits)
  from assms(2) obtain sz where sz: "validate_payload_and_size rs m = Inr sz"
    by (auto simp: sendable_def split: sum.splits)
  show ?thesis
  proof (cases "length (p_messages p) < MAX_QUEUE_DEPTH")
    case True
    with assms(2,3) p sz show ?thesis
      by (auto simp: port_put_def ipc_send_def Let_def port_open_def port_items_def)
  next
    case False
    with assms(3) p sz show ?thesis by (auto simp: port_put_def ipc_send_def port_open_def port_items_def)
  qed
qed

lemma port_take_step:
  assumes "port_open rs i s" and "port_take rs i c s = (x, s')"
  shows "port_open rs i s' \<and> (case port_items i s of [] \<Rightarrow> x = None \<and> port_items i s' = []
    | v # vs \<Rightarrow> x = Some v \<and> port_items i s' = vs)"
proof -
  from assms(1) obtain p where p: "bt_get (ipc_ports s) i = Some p" "length (p_messages p) \<le> MAX_QUEUE_DEPTH"
    "list_all (sendable rs) (p_messages p)" by (auto simp: port_open_def split: option.splits)
  show ?thesis
  proof (cases "p_messages p")
    case Nil
    with assms p show ?thesis by (auto simp: port_take_def ipc_try_recv_def port_open_def port_items_def)
  next
    case (Cons m rest)
    with p(3) obtain sz where "validate_payload_and_size rs m = Inr sz"
      by (auto simp: sendable_def split: sum.splits)
    with assms(2) p Cons show ?thesis
      by (auto simp: port_take_def ipc_try_recv_def Let_def port_open_def port_items_def)
  qed
qed

interpretation port_fifo: bounded_fifo "port_items i" "port_put rs i" "port_take rs i c" message_view MAX_QUEUE_DEPTH
  "sendable rs" "port_open rs i" for rs i c
  by unfold_locales
    (blast dest: port_put_step port_take_step, blast dest: port_take_step,
      auto simp: port_open_def port_items_def split: option.splits)

section \<open>Properties\<close>

definition ipc_example_ports :: ipc_sys where
  "ipc_example_ports = snd (create_port 2 (snd (create_port 1 ipc_boot)))"

definition ipc_example :: ipc_sys where
  "ipc_example = snd (ipc_block_recv 2 1 PrioNormal (Some 50) ipc_example_ports)"

lemma ipc_example_ports_reach: "ipc_step\<^sup>*\<^sup>* ipc_boot ipc_example_ports"
proof -
  have a: "ipc_step ipc_boot (snd (create_port 1 ipc_boot))"
    by (rule ipc_step.CreatePort) (simp add: ipc_boot_fields)
  have b: "ipc_step (snd (create_port 1 ipc_boot)) ipc_example_ports"
    unfolding ipc_example_ports_def by (rule ipc_step.CreatePort) (simp add: create_port_def Let_def ipc_boot_fields)
  show ?thesis by (rule rtranclp.rtrancl_into_rtrancl [OF r_into_rtranclp [of ipc_step, OF a] b])
qed

lemma ipc_example_reach: "ipc_step\<^sup>*\<^sup>* ipc_boot ipc_example"
  unfolding ipc_example_def
  by (rule rtranclp.rtrancl_into_rtrancl [OF ipc_example_ports_reach ipc_step.BlockRecv])

lemmas ipc_example_inv = ipc_inv_reach [OF ipc_example_reach]

lemma ipc_example_ports_eval:
  "ipc_ports ipc_example_ports = [(1, port_new 1 1), (2, port_new 2 2)]" "ipc_waiting ipc_example_ports = []"
  by (simp_all add: ipc_example_ports_def create_port_def Let_def ipc_boot_fields bt_empty_def)

lemma ipc_example_eval:
  "ipc_ports ipc_example = [(1, port_new 1 1), (2, (port_new 2 2)\<lparr>p_receiver_blocked := Some 1, p_max_waiter_priority := Some PrioNormal\<rparr>)]"
  "ipc_waiting ipc_example = [(1, \<lparr>w_port = 2, w_deadline = Some 50\<rparr>)]"
  by (simp_all add: ipc_example_def ipc_block_recv_def bt_contains_def bt_get_def ipc_example_ports_eval detect_deadlock_def
      port_new_def bt_len_def Let_def numeral_eq_Suc)

text \<open>
  In every reachable state of the IPC manager each port queue holds at most 64
  messages, every queued message has at most 128 inline bytes and none when it names a
  shared region, a waiting thread is the one registered receiver of the port it waits on,
  and the wait-for graph of blocked receivers has no cycle.
\<close>

lemma ipc_invariant_reachable:
  assumes "ipc_step\<^sup>*\<^sup>* ipc_boot s"
  shows "ipc_inv s"
  by (rule ipc_inv_reach [OF assms])

text \<open>
  C17. Deadlock detection is exact: for an existing port the bounded walk answers yes
  precisely when the caller is reachable in the wait-for graph from the owner of the port,
  that is, when blocking would close a cycle; the step bound never cuts a walk short.
\<close>

theorem deadlock_detection_exact:
  assumes "ipc_inv s" and "bt_get (ipc_ports s) i = Some p"
  shows "detect_deadlock t i s \<longleftrightarrow> (p_owner p, t) \<in> (wait_graph (bt_get (ipc_ports s)) (bt_get (ipc_waiting s)))\<^sup>*"
  using detect_deadlock_iff [OF _ assms(2)] assms(1) by (simp add: ipc_inv_def)

theorem deadlock_detection_exact_witness:
  "detect_deadlock 2 1 ipc_example
   \<and> (1, 2) \<in> (wait_graph (bt_get (ipc_ports ipc_example)) (bt_get (ipc_waiting ipc_example)))\<^sup>*"
proof -
  have p: "bt_get (ipc_ports ipc_example) 1 = Some (port_new 1 1)" by (simp add: ipc_example_eval bt_get_def)
  have "detect_deadlock 2 1 ipc_example"
    by (simp add: detect_deadlock_def ipc_example_eval bt_get_def port_new_def bt_len_def numeral_eq_Suc)
  with deadlock_detection_exact [OF ipc_example_inv p, of 2] show ?thesis by (simp add: port_new_def)
qed

text \<open>
  C18. Message queues neither lose, duplicate nor reorder: over any interleaving of sends of
  valid messages and receives on a port, the messages that were queued followed by those
  accepted are the messages received followed by those still queued.
\<close>

theorem port_fifo_conservation:
  assumes "port_open rs i s" and "\<forall>m. Put m \<in> set ops \<longrightarrow> sendable rs m"
    and "run_queue (port_put rs i) (port_take rs i c) message_view ops s = (ins, outs, s')"
  shows "port_items i s @ ins = outs @ port_items i s'"
  using port_fifo.conservation [OF assms] by simp

theorem port_fifo_conservation_witness:
  "\<exists>ins outs s'. run_queue (port_put (\<lambda>_. None) 1) (port_take (\<lambda>_. None) 1 1) message_view
      [Put (message_new 7 2 5 [1]), Put (message_new 8 2 6 [2]), Take] ipc_example = (ins, outs, s')
    \<and> port_items 1 ipc_example @ ins = outs @ port_items 1 s'"
proof -
  let ?ops = "[Put (message_new 7 2 5 [1]), Put (message_new 8 2 6 [2]), Take]"
  obtain ins outs s' where r: "run_queue (port_put (\<lambda>_. None) 1) (port_take (\<lambda>_. None) 1 1) message_view ?ops ipc_example
      = (ins, outs, s')" by (metis surj_pair)
  have o: "port_open (\<lambda>_. None) 1 ipc_example" by (simp add: port_open_def ipc_example_eval bt_get_def port_new_def)
  have v: "\<forall>m. Put m \<in> set ?ops \<longrightarrow> sendable (\<lambda>_. None) m"
    by (auto simp: sendable_def validate_payload_and_size_def message_new_def)
  from port_fifo_conservation [OF o v r] r show ?thesis by blast
qed


text \<open>
  The trace ring refines a log of the most recent events: after any sequence of events
  a snapshot is the oldest part, of the requested length, of the last
  \<open>IPC_TRACE_RING_SIZE\<close> events in order.
\<close>

lemma trace_ring_refines_log:
  "trace_snapshot n (fold trace_push evs trace_new) = List.take n (most_recent IPC_TRACE_RING_SIZE evs)"
proof -
  have rec: "most_recent k (most_recent k xs @ ys) = most_recent k (xs @ ys)" for k and xs ys :: "'b list"
    by (cases "length xs \<le> k") (simp_all add: most_recent_def add.commute)
  have "trace_ok (fold trace_push evs b)
      \<and> trace_abs (fold trace_push evs b) = most_recent IPC_TRACE_RING_SIZE (trace_abs b @ evs)" if "trace_ok b" for b
    using that
  proof (induction evs arbitrary: b)
    case Nil
    then show ?case using length_trace_abs [OF Nil] by (simp add: most_recent_def trace_ok_def)
  next
    case (Cons ev evs)
    from Cons.IH [OF trace_push_ok [OF Cons.prems]] show ?case
      by (simp add: trace_push_abs [OF Cons.prems] rec)
  qed
  from this [OF trace_ok_new(1)] show ?thesis by (simp add: trace_ok_new trace_snapshot_abs)
qed

text \<open>
  Timeouts wake exactly the waiters whose deadline has passed: each of them leaves the
  table of waiters and the receiver slot of its port, every other waiter keeps both, and
  nothing else of a port changes.
\<close>

lemma timeouts_exact:
  assumes "ipc_inv s"
  shows "(\<forall>t. bt_get (ipc_waiting (handle_timeouts now s)) t =
      (case bt_get (ipc_waiting s) t of
         None \<Rightarrow> None
       | Some info \<Rightarrow> (case w_deadline info of
           Some d \<Rightarrow> if d \<le> now then None else Some info | None \<Rightarrow> Some info)))
    \<and> (\<forall>i. bt_get (ipc_ports (handle_timeouts now s)) i =
      map_option (\<lambda>p. if \<exists>t info d. p_receiver_blocked p = Some t \<and> bt_get (ipc_waiting s) t = Some info
            \<and> w_port info = i \<and> w_deadline info = Some d \<and> d \<le> now
          then p\<lparr>p_receiver_blocked := None, p_max_waiter_priority := None\<rparr> else p) (bt_get (ipc_ports s) i))"
proof -
  from assms have wf: "bt_wf (ipc_waiting s)" by (simp add: ipc_inv_def)
  have "bt_get (ipc_waiting (handle_timeouts now s)) t =
      (case bt_get (ipc_waiting s) t of
         None \<Rightarrow> None
       | Some info \<Rightarrow> (case w_deadline info of
           Some d \<Rightarrow> if d \<le> now then None else Some info | None \<Rightarrow> Some info))" for t
  proof -
    have "t \<in> fst ` set (expired_waiters now (ipc_waiting s)) \<longleftrightarrow>
        (\<exists>info d. bt_get (ipc_waiting s) t = Some info \<and> w_deadline info = Some d \<and> d \<le> now)"
      using expired_waiters_mem [OF wf, of t _ now] by (force simp: image_iff)
    then show ?thesis
      by (auto simp: handle_timeouts_maps remove_waiters_get split: option.splits)
  qed
  moreover have "bt_get (ipc_ports (handle_timeouts now s)) i =
      map_option (\<lambda>p. if \<exists>t info d. p_receiver_blocked p = Some t \<and> bt_get (ipc_waiting s) t = Some info
            \<and> w_port info = i \<and> w_deadline info = Some d \<and> d \<le> now
          then p\<lparr>p_receiver_blocked := None, p_max_waiter_priority := None\<rparr> else p) (bt_get (ipc_ports s) i)" for i
    unfolding handle_timeouts_maps clear_waiters_get unblocked_def expired_waiters_mem [OF wf]
    by (rule map_option_cong [OF refl], rule if_cong) auto
  ultimately show ?thesis by blast
qed

end
