(* ===== verification/Input_Buffers.thy ===== *)
theory Input_Buffers
  imports Bounded_Fifo
begin

text \<open>
  The input subsystem, \<^verbatim>\<open>kernel/src/input.rs\<close>: the ring buffers the keyboard and mouse
  interrupts fill, the polling calls, the assembly of PS/2 mouse packets and the decoding
  of key events. The PS/2 controller is hardware: reading its status and data registers
  are parameters of the interrupt handlers.
\<close>

section \<open>Ring buffers\<close>

text \<open>\<open>RingBuffer<N>\<close>; \<open>N\<close> is the length of the array.\<close>

record ring_buffer =
  rb_buffer :: "u8 list"
  rb_head :: nat
  rb_tail :: nat

definition KEYBOARD_BUFFER_SIZE :: nat where "KEYBOARD_BUFFER_SIZE = 128"
definition MOUSE_BUFFER_SIZE :: nat where "MOUSE_BUFFER_SIZE = 256"

abbreviation rb_size :: "ring_buffer \<Rightarrow> nat" where
  "rb_size rb \<equiv> length (rb_buffer rb)"

definition rb_new :: "nat \<Rightarrow> ring_buffer" where
  "rb_new n = \<lparr>rb_buffer = replicate n 0, rb_head = 0, rb_tail = 0\<rparr>"

definition rb_push :: "u8 \<Rightarrow> ring_buffer \<Rightarrow> bool \<times> ring_buffer" where
  "rb_push byte rb =
     (let next_head = (rb_head rb + 1) mod rb_size rb in
      if next_head = rb_tail rb then (False, rb)
      else (True, rb\<lparr>rb_buffer := (rb_buffer rb)[rb_head rb := byte], rb_head := next_head\<rparr>))"

definition rb_pop :: "ring_buffer \<Rightarrow> u8 option \<times> ring_buffer" where
  "rb_pop rb =
     (if rb_head rb = rb_tail rb then (None, rb)
      else (Some (rb_buffer rb ! rb_tail rb), rb\<lparr>rb_tail := (rb_tail rb + 1) mod rb_size rb\<rparr>))"

definition rb_len :: "ring_buffer \<Rightarrow> nat" where
  "rb_len rb = (if rb_head rb \<ge> rb_tail rb then rb_head rb - rb_tail rb else rb_size rb - rb_tail rb + rb_head rb)"

definition rb_is_empty :: "ring_buffer \<Rightarrow> bool" where
  "rb_is_empty rb \<longleftrightarrow> rb_head rb = rb_tail rb"

section \<open>Interrupt handlers\<close>

definition STATUS_OUTPUT_FULL :: u8 where "STATUS_OUTPUT_FULL = 0x01"
definition STATUS_AUX_DATA :: u8 where "STATUS_AUX_DATA = 0x20"

text \<open>
  The loops run while the controller has data. \<open>status\<close> and \<open>data\<close> read its registers,
  which may change its state; the fuel bounds the number of iterations.
\<close>

fun keyboard_irq_loop ::
  "('d \<Rightarrow> u8 \<times> 'd) \<Rightarrow> ('d \<Rightarrow> u8 \<times> 'd) \<Rightarrow> nat \<Rightarrow> 'd \<times> ring_buffer \<Rightarrow> ('d \<times> ring_buffer) option" where
  "keyboard_irq_loop status data 0 _ = None"
| "keyboard_irq_loop status data (Suc n) (d, buf) =
     (let (st, d1) = status d in
      if st AND STATUS_OUTPUT_FULL \<noteq> 0 then
        let (st2, d2) = status d1 in
        if st2 AND STATUS_AUX_DATA \<noteq> 0 then Some (d2, buf)
        else
          let (scancode, d3) = data d2
          in keyboard_irq_loop status data n (d3, snd (rb_push scancode buf))
      else Some (d1, buf))"

fun mouse_irq_loop ::
  "('d \<Rightarrow> u8 \<times> 'd) \<Rightarrow> ('d \<Rightarrow> u8 \<times> 'd) \<Rightarrow> nat \<Rightarrow> 'd \<times> ring_buffer \<Rightarrow> ('d \<times> ring_buffer) option" where
  "mouse_irq_loop status data 0 _ = None"
| "mouse_irq_loop status data (Suc n) (d, buf) =
     (let (st, d1) = status d in
      if st AND (STATUS_OUTPUT_FULL OR STATUS_AUX_DATA) = (STATUS_OUTPUT_FULL OR STATUS_AUX_DATA) then
        let (byte, d2) = data d1
        in mouse_irq_loop status data n (d2, snd (rb_push byte buf))
      else Some (d1, buf))"

section \<open>Mouse packets\<close>

record mouse_event =
  me_delta_x :: "16 word"
  me_delta_y :: "16 word"
  me_left :: bool
  me_right :: bool
  me_middle :: bool

record mouse_packet_state =
  mp_bytes :: "u8 list"
  mp_index :: nat

definition mp_new :: mouse_packet_state where
  "mp_new = \<lparr>mp_bytes = replicate 3 0, mp_index = 0\<rparr>"

definition mp_reset :: "mouse_packet_state \<Rightarrow> mouse_packet_state" where
  "mp_reset st = st\<lparr>mp_index := 0\<rparr>"

definition mp_event :: "u8 list \<Rightarrow> mouse_event" where
  "mp_event packet =
     (let flags = packet ! 0; dx_raw = ucast (packet ! 1) :: 16 word; dy_raw = ucast (packet ! 2) :: 16 word;
          delta_x = (if flags AND 0x10 \<noteq> 0 then dx_raw - 256 else dx_raw);
          delta_y = (if flags AND 0x20 \<noteq> 0 then dy_raw - 256 else dy_raw)
      in \<lparr>me_delta_x = delta_x, me_delta_y = - delta_y, me_left = (flags AND 0x01 \<noteq> 0),
          me_right = (flags AND 0x02 \<noteq> 0), me_middle = (flags AND 0x04 \<noteq> 0)\<rparr>)"

definition mp_add_byte :: "u8 \<Rightarrow> mouse_packet_state \<Rightarrow> mouse_event option \<times> mouse_packet_state" where
  "mp_add_byte byte st =
     (if mp_index st = 0 \<and> byte AND 0x08 = 0 then (None, st)
      else
        let st1 = st\<lparr>mp_bytes := (mp_bytes st)[mp_index st := byte], mp_index := mp_index st + 1\<rparr> in
        if mp_index st1 \<ge> 3 then (Some (mp_event (mp_bytes st1)), st1\<lparr>mp_index := 0\<rparr>)
        else (None, st1))"

section \<open>Polling\<close>

record input_state =
  in_keyboard :: ring_buffer
  in_mouse :: ring_buffer
  in_packet :: mouse_packet_state

definition input_boot :: input_state where
  "input_boot = \<lparr>in_keyboard = rb_new KEYBOARD_BUFFER_SIZE, in_mouse = rb_new MOUSE_BUFFER_SIZE, in_packet = mp_new\<rparr>"

definition on_keyboard_irq ::
  "('d \<Rightarrow> u8 \<times> 'd) \<Rightarrow> ('d \<Rightarrow> u8 \<times> 'd) \<Rightarrow> nat \<Rightarrow> 'd \<times> input_state \<Rightarrow> ('d \<times> input_state) option" where
  "on_keyboard_irq status data n = (\<lambda>(d, s).
     map_option (\<lambda>(d', b). (d', s\<lparr>in_keyboard := b\<rparr>)) (keyboard_irq_loop status data n (d, in_keyboard s)))"

definition on_mouse_irq ::
  "('d \<Rightarrow> u8 \<times> 'd) \<Rightarrow> ('d \<Rightarrow> u8 \<times> 'd) \<Rightarrow> nat \<Rightarrow> 'd \<times> input_state \<Rightarrow> ('d \<times> input_state) option" where
  "on_mouse_irq status data n = (\<lambda>(d, s).
     map_option (\<lambda>(d', b). (d', s\<lparr>in_mouse := b\<rparr>)) (mouse_irq_loop status data n (d, in_mouse s)))"

definition poll_keyboard_byte :: "input_state \<Rightarrow> u8 option \<times> input_state" where
  "poll_keyboard_byte s = (let (b, rb) = rb_pop (in_keyboard s) in (b, s\<lparr>in_keyboard := rb\<rparr>))"

definition poll_mouse_byte :: "input_state \<Rightarrow> u8 option \<times> input_state" where
  "poll_mouse_byte s = (let (b, rb) = rb_pop (in_mouse s) in (b, s\<lparr>in_mouse := rb\<rparr>))"

record key_event =
  ke_scancode :: u8
  ke_pressed :: bool

definition poll_key_event :: "input_state \<Rightarrow> key_event option \<times> input_state" where
  "poll_key_event s =
     (case poll_keyboard_byte s of
        (None, s1) \<Rightarrow> (None, s1)
      | (Some byte, s1) \<Rightarrow>
          if byte = 0xF0 then
            (case poll_keyboard_byte s1 of
               (Some scancode, s2) \<Rightarrow> (Some \<lparr>ke_scancode = scancode, ke_pressed = False\<rparr>, s2)
             | (None, s2) \<Rightarrow> (None, s2))
          else (Some \<lparr>ke_scancode = byte AND 0x7F, ke_pressed = (byte AND 0x80 = 0)\<rparr>, s1))"

text \<open>The bytes drained into the local array, at most \<open>n\<close> of them, and the loop over them.\<close>

fun drain_bytes :: "nat \<Rightarrow> ring_buffer \<Rightarrow> u8 list \<times> ring_buffer" where
  "drain_bytes 0 rb = ([], rb)"
| "drain_bytes (Suc n) rb =
     (case rb_pop rb of
        (None, rb1) \<Rightarrow> ([], rb1)
      | (Some byte, rb1) \<Rightarrow> (let (bytes, rb2) = drain_bytes n rb1 in (byte # bytes, rb2)))"

fun feed_packet :: "u8 list \<Rightarrow> mouse_packet_state \<Rightarrow> mouse_event option \<times> mouse_packet_state" where
  "feed_packet [] st = (None, st)"
| "feed_packet (b # bs) st =
     (case mp_add_byte b st of
        (Some ev, st1) \<Rightarrow> (Some ev, st1)
      | (None, st1) \<Rightarrow> feed_packet bs st1)"

definition poll_mouse_event :: "input_state \<Rightarrow> mouse_event option \<times> input_state" where
  "poll_mouse_event s =
     (let (bytes, rb) = drain_bytes 16 (in_mouse s); s1 = s\<lparr>in_mouse := rb\<rparr> in
      if length bytes = 0 then (None, s1)
      else let (ev, st) = feed_packet bytes (in_packet s1) in (ev, s1\<lparr>in_packet := st\<rparr>))"

section \<open>A ring buffer is a bounded FIFO\<close>

definition rb_ok :: "nat \<Rightarrow> ring_buffer \<Rightarrow> bool" where
  "rb_ok n rb \<longleftrightarrow> rb_size rb = n \<and> rb_head rb < n \<and> rb_tail rb < n"

definition rb_items :: "ring_buffer \<Rightarrow> u8 list" where
  "rb_items rb = map (\<lambda>k. rb_buffer rb ! ((rb_tail rb + k) mod rb_size rb)) [0..<rb_len rb]"

lemma length_rb_items [simp]: "length (rb_items rb) = rb_len rb"
  by (simp add: rb_items_def)

lemma rb_len_less: "rb_ok n rb \<Longrightarrow> rb_len rb < n"
  by (auto simp: rb_ok_def rb_len_def)

lemma rb_head_eq: "rb_ok n rb \<Longrightarrow> (rb_tail rb + rb_len rb) mod n = rb_head rb"
  by (auto simp: rb_ok_def rb_len_def mod_if)

lemma rb_full_iff: "rb_ok n rb \<Longrightarrow> (rb_head rb + 1) mod n = rb_tail rb \<longleftrightarrow> rb_len rb = n - 1"
  by (auto simp: rb_ok_def rb_len_def mod_Suc mod_if split: if_splits)

lemma rb_push_step:
  assumes ok: "rb_ok n rb" and push: "rb_push byte rb = (b, rb')"
  shows "rb_ok n rb' \<and> (b \<longleftrightarrow> length (rb_items rb) < n - 1) \<and> rb_items rb' = (if b then rb_items rb @ [byte] else rb_items rb)"
proof (cases "rb_len rb = n - 1")
  case True
  with ok push rb_full_iff [OF ok] show ?thesis by (auto simp: rb_push_def rb_ok_def split: if_splits)
next
  case False
  let ?h = "(rb_head rb + 1) mod n"
  have b: "b" "rb' = rb\<lparr>rb_buffer := (rb_buffer rb)[rb_head rb := byte], rb_head := ?h\<rparr>"
    using push ok rb_full_iff [OF ok] False by (auto simp: rb_push_def rb_ok_def split: if_splits)
  have n: "0 < n" "rb_size rb = n" "rb_head rb < n" "rb_tail rb < n" using ok by (auto simp: rb_ok_def)
  have ok': "rb_ok n rb'" using n by (auto simp: rb_ok_def b)
  have len: "rb_len rb' = Suc (rb_len rb)"
    using n False rb_len_less [OF ok] by (auto simp: rb_len_def b mod_Suc split: if_splits)
  have other: "rb_head rb \<noteq> (rb_tail rb + k) mod n" if "k < rb_len rb" for k
    using that rb_len_less [OF ok] n by (auto simp: rb_len_def mod_if split: if_splits)
  have "rb_items rb' = rb_items rb @ [byte]"
    by (simp add: rb_items_def len) (auto simp: b n nth_list_update_neq [OF other] rb_head_eq [OF ok] intro!: map_cong)
  with ok' b(1) False rb_len_less [OF ok] show ?thesis by auto
qed

lemma rb_pop_step:
  assumes ok: "rb_ok n rb" and pop: "rb_pop rb = (x, rb')"
  shows "rb_ok n rb' \<and> (case rb_items rb of [] \<Rightarrow> x = None \<and> rb_items rb' = []
    | v # vs \<Rightarrow> x = Some v \<and> rb_items rb' = vs)"
proof (cases "rb_head rb = rb_tail rb")
  case True
  with pop ok show ?thesis by (auto simp: rb_pop_def rb_items_def rb_len_def)
next
  case False
  have n: "0 < n" "rb_size rb = n" "rb_head rb < n" "rb_tail rb < n" using ok by (auto simp: rb_ok_def)
  have p: "x = Some (rb_buffer rb ! rb_tail rb)" "rb' = rb\<lparr>rb_tail := (rb_tail rb + 1) mod n\<rparr>"
    using pop False n by (auto simp: rb_pop_def)
  have len: "rb_len rb = Suc (rb_len rb')"
    using n False by (auto simp: rb_len_def p mod_Suc split: if_splits)
  have shift: "(Suc (rb_tail rb) mod n + k) mod n = (rb_tail rb + Suc k) mod n" for k
    by (simp add: mod_add_left_eq)
  have "rb_items rb = rb_buffer rb ! rb_tail rb # rb_items rb'"
    unfolding rb_items_def len by (simp add: upt_conv_Cons map_Suc_upt [symmetric] n p shift del: upt_Suc)
  moreover have "rb_ok n rb'" using n by (auto simp: rb_ok_def p)
  ultimately show ?thesis by (simp add: p(1))
qed

interpretation ring: bounded_fifo rb_items rb_push rb_pop id "n - 1" "\<lambda>_. True" "rb_ok n" for n
proof (unfold_locales, goal_cases)
  case (1 s m b s')
  from rb_push_step [OF 1(1,3)] show ?case by simp
next
  case (2 s x s')
  from rb_pop_step [OF 2] show ?case .
next
  case (3 s)
  from rb_len_less [OF 3] show ?case by simp
qed

lemma rb_ok_new: "0 < n \<Longrightarrow> rb_ok n (rb_new n)" "rb_items (rb_new n) = []"
  by (simp_all add: rb_ok_def rb_new_def rb_items_def rb_len_def)


lemma drain_bytes_take: "drain_bytes n rb = take_many rb_pop n rb"
  by (induction n arbitrary: rb) (auto split: option.splits prod.splits)

section \<open>The controller\<close>

text \<open>
  What the handlers rely on of the PS/2 controller: reading the status changes nothing,
  bit 0 says that a byte is pending and bit 5 that it comes from the mouse, and reading
  the data register takes the oldest pending byte.
\<close>

definition ps2_controller ::
  "('d \<Rightarrow> u8 \<times> 'd) \<Rightarrow> ('d \<Rightarrow> u8 \<times> 'd) \<Rightarrow> ('d \<Rightarrow> (bool \<times> u8) list) \<Rightarrow> bool" where
  "ps2_controller status data pending \<longleftrightarrow>
     (\<forall>d. snd (status d) = d
        \<and> (bit (fst (status d)) 0 \<longleftrightarrow> pending d \<noteq> [])
        \<and> (pending d \<noteq> [] \<longrightarrow> bit (fst (status d)) 5 = fst (hd (pending d))
             \<and> fst (data d) = snd (hd (pending d)) \<and> pending (snd (data d)) = tl (pending d)))"

lemma status_flags:
  "st AND STATUS_OUTPUT_FULL \<noteq> 0 \<longleftrightarrow> bit st 0"
  "st AND STATUS_AUX_DATA \<noteq> 0 \<longleftrightarrow> bit st 5"
  "st AND (STATUS_OUTPUT_FULL OR STATUS_AUX_DATA) = (STATUS_OUTPUT_FULL OR STATUS_AUX_DATA) \<longleftrightarrow> bit st 0 \<and> bit st 5"
proof -
  have one: "STATUS_OUTPUT_FULL = push_bit 0 1" and aux: "STATUS_AUX_DATA = push_bit 5 1"
    by (simp_all add: STATUS_OUTPUT_FULL_def STATUS_AUX_DATA_def push_bit_eq_mult)
  show "st AND STATUS_OUTPUT_FULL \<noteq> 0 \<longleftrightarrow> bit st 0"
    using and_exp_eq_0_iff_not_bit [of st 0] by (simp add: STATUS_OUTPUT_FULL_def)
  show "st AND STATUS_AUX_DATA \<noteq> 0 \<longleftrightarrow> bit st 5"
    by (simp only: aux push_bit_of_1 and_exp_eq_0_iff_not_bit) simp
  have m: "bit (STATUS_OUTPUT_FULL OR STATUS_AUX_DATA) i \<longleftrightarrow> i = 0 \<or> i = 5" for i
    by (simp only: one aux push_bit_of_1 bit_or_iff bit_exp_iff) auto
  show "st AND (STATUS_OUTPUT_FULL OR STATUS_AUX_DATA) = (STATUS_OUTPUT_FULL OR STATUS_AUX_DATA)
      \<longleftrightarrow> bit st 0 \<and> bit st 5"
    by (simp only: bit_eq_iff [of "st AND _"] bit_and_iff m)
      (auto, (drule spec [of _ 0], simp), (drule spec [of _ 5], simp))
qed

definition from_keyboard :: "(bool \<times> u8) list \<Rightarrow> u8 list" where
  "from_keyboard p = map snd (takeWhile (\<lambda>e. \<not> fst e) p)"

definition from_mouse :: "(bool \<times> u8) list \<Rightarrow> u8 list" where
  "from_mouse p = map snd (takeWhile fst p)"

lemma keyboard_irq_loop_spec:
  assumes "ps2_controller status data pending" and "length (from_keyboard (pending d)) < n"
  shows "\<exists>d'. keyboard_irq_loop status data n (d, rb) = Some (d', snd (put_all rb_push (from_keyboard (pending d)) rb))
    \<and> pending d' = dropWhile (\<lambda>e. \<not> fst e) (pending d)"
  using assms(2)
proof (induction n arbitrary: d rb)
  case (Suc n)
  obtain st where st: "status d = (st, d)" using assms(1) by (metis ps2_controller_def prod.collapse)
  obtain b d1 where dt: "data d = (b, d1)" by fastforce
  note dev = assms(1) [unfolded ps2_controller_def, rule_format, of d, unfolded st dt, simplified]
  show ?case
  proof (cases "pending d")
    case Nil
    with dev show ?thesis by (simp add: st status_flags from_keyboard_def)
  next
    case (Cons e p)
    show ?thesis
    proof (cases "fst e")
      case True
      with Cons dev show ?thesis by (simp add: st status_flags from_keyboard_def)
    next
      case False
      with Cons dev Suc.prems have "b = snd e" "pending d1 = p" "length (from_keyboard (pending d1)) < n"
        by (auto simp: from_keyboard_def)
      with Suc.IH [of d1 "snd (rb_push b rb)"] False Cons dev show ?thesis
        by (auto simp: st dt status_flags from_keyboard_def split: prod.splits)
    qed
  qed
qed simp

lemma mouse_irq_loop_spec:
  assumes "ps2_controller status data pending" and "length (from_mouse (pending d)) < n"
  shows "\<exists>d'. mouse_irq_loop status data n (d, rb) = Some (d', snd (put_all rb_push (from_mouse (pending d)) rb))
    \<and> pending d' = dropWhile fst (pending d)"
  using assms(2)
proof (induction n arbitrary: d rb)
  case (Suc n)
  obtain st where st: "status d = (st, d)" using assms(1) by (metis ps2_controller_def prod.collapse)
  obtain b d1 where dt: "data d = (b, d1)" by fastforce
  note dev = assms(1) [unfolded ps2_controller_def, rule_format, of d, unfolded st dt, simplified]
  show ?case
  proof (cases "pending d = [] \<or> \<not> fst (hd (pending d))")
    case True
    with dev show ?thesis by (cases "pending d") (auto simp: st status_flags from_mouse_def)
  next
    case False
    then obtain e p where p: "pending d = e # p" "fst e" by (cases "pending d") auto
    with dev Suc.prems have "b = snd e" "pending d1 = p" "length (from_mouse (pending d1)) < n"
      by (auto simp: from_mouse_def)
    with Suc.IH [of d1 "snd (rb_push b rb)"] p dev show ?thesis
      by (auto simp: st dt status_flags from_mouse_def split: prod.splits)
  qed
qed simp

section \<open>Mouse packets\<close>

definition mp_ok :: "mouse_packet_state \<Rightarrow> bool" where
  "mp_ok st \<longleftrightarrow> length (mp_bytes st) = 3 \<and> mp_index st < 3"

lemma mp_ok_add: "mp_ok st \<Longrightarrow> mp_ok (snd (mp_add_byte b st))"
  by (auto simp: mp_ok_def mp_add_byte_def Let_def)

lemma mp_ok_feed: "mp_ok st \<Longrightarrow> mp_ok (snd (feed_packet bs st))"
proof (induction bs arbitrary: st)
  case (Cons b bs)
  from mp_ok_add [OF Cons.prems, of b] Cons.IH [of "snd (mp_add_byte b st)"] show ?case
    by (auto split: prod.splits option.splits)
qed simp

lemma list_three: "length xs = 3 \<Longrightarrow> \<exists>a b c. xs = [a, b, c]"
  by (auto simp: numeral_3_eq_3 length_Suc_conv)

lemma feed_aligned:
  assumes "mp_ok st" and "mp_index st = 0" and "bit f 3"
  shows "feed_packet (f # x # y # rest) st = (Some (mp_event [f, x, y]), \<lparr>mp_bytes = [f, x, y], mp_index = 0\<rparr>)"
proof -
  have "f AND 8 = f AND 2 ^ 3" by simp
  with assms(3) have f: "f AND 8 \<noteq> 0" by (simp only: and_exp_eq_0_iff_not_bit) simp
  obtain a b c where abc: "mp_bytes st = [a, b, c]" using assms(1) list_three by (metis mp_ok_def)
  from f show ?thesis
    by (simp add: mp_add_byte_def Let_def assms(2) abc numeral_3_eq_3 numeral_2_eq_2)
qed

lemma feed_skips:
  assumes "mp_index st = 0" and "\<forall>b \<in> set junk. \<not> bit b 3"
  shows "feed_packet (junk @ bs) st = feed_packet bs st"
  using assms(2)
proof (induction junk)
  case (Cons j junk)
  have "j AND 8 = j AND 2 ^ 3" by simp
  with Cons.prems have "j AND 8 = 0" by (simp only: and_exp_eq_0_iff_not_bit) simp
  with Cons assms(1) show ?case by (simp add: mp_add_byte_def)
qed simp

lemma sint_raw: "sint (ucast b :: 16 word) = int (unat (b :: u8))"
proof -
  have "0 \<le> uint b" "uint b < 256" using uint_lt2p [of b] by simp_all
  then have "- 32768 \<le> uint b" "uint b < 32768" by linarith+
  then have "signed_take_bit 15 (uint b) = uint b" by (intro signed_take_bit_int_eq_self) simp_all
  then show ?thesis by (simp add: signed_ucast_eq)
qed

lemma sint_small: "-32768 \<le> k \<Longrightarrow> k < 32768 \<Longrightarrow> sint (word_of_int k :: 16 word) = k"
  by (simp add: signed_of_int signed_take_bit_int_eq_self)

lemma and_flag: "n < 8 \<Longrightarrow> (f :: u8) AND 2 ^ n \<noteq> 0 \<longleftrightarrow> bit f n"
  by (simp add: and_exp_eq_0_iff_not_bit)


lemma mp_event_deltas:
  "sint (me_delta_x (mp_event [f, x, y])) = int (unat x) - (if bit f 4 then 256 else 0)"
  "sint (me_delta_y (mp_event [f, x, y])) = (if bit f 5 then 256 else 0) - int (unat y)"
proof -
  have b: "int (unat x) < 256" "int (unat y) < 256" using unsigned_less [of x] unsigned_less [of y] by simp_all
  have raw: "ucast z - 256 = (word_of_int (int (unat z) - 256) :: 16 word)"
    "- (ucast z - 256) = (word_of_int (256 - int (unat z)) :: 16 word)"
    "- ucast z = (word_of_int (- int (unat z)) :: 16 word)" for z :: u8 by simp_all
  have fl: "f AND 0x10 \<noteq> 0 \<longleftrightarrow> bit f 4" "f AND 0x20 \<noteq> 0 \<longleftrightarrow> bit f 5"
    using and_flag [of 4 f] and_flag [of 5 f] by simp_all
  have dx: "me_delta_x (mp_event [f, x, y]) = (if bit f 4 then ucast x - 256 else ucast x)"
    by (simp only: mp_event_def Let_def fl nth_Cons_0 nth_Cons_Suc One_nat_def mouse_event.simps)
  have dy: "me_delta_y (mp_event [f, x, y]) = - (if bit f 5 then ucast y - 256 else ucast y)"
    by (simp only: mp_event_def Let_def fl nth_Cons_0 nth_Cons_Suc One_nat_def numeral_2_eq_2 mouse_event.simps)
  show "sint (me_delta_x (mp_event [f, x, y])) = int (unat x) - (if bit f 4 then 256 else 0)"
  proof (cases "bit f 4")
    case True
    have "sint (word_of_int (int (unat x) - 256) :: 16 word) = int (unat x) - 256" using b by (intro sint_small) linarith+
    with True show ?thesis by (simp only: dx raw if_True)
  qed (simp add: dx sint_raw)
  show "sint (me_delta_y (mp_event [f, x, y])) = (if bit f 5 then 256 else 0) - int (unat y)"
  proof (cases "bit f 5")
    case True
    have "sint (word_of_int (256 - int (unat y)) :: 16 word) = 256 - int (unat y)" using b by (intro sint_small) linarith+
    with True show ?thesis by (simp only: dy raw(2) if_True)
  next
    case False
    have "sint (word_of_int (- int (unat y)) :: 16 word) = - int (unat y)" using b by (intro sint_small) linarith+
    with False show ?thesis by (simp only: dy raw if_False diff_0)
  qed
qed


section \<open>Properties\<close>

text \<open>
  A ring buffer of size \<open>n\<close> is a first-in first-out queue of \<open>n - 1\<close> bytes: over any
  interleaving of pushes and pops the bytes that were there followed by those accepted are
  the bytes popped followed by those that remain, and the indices stay in range.
\<close>

lemma ring_buffer_conservation:
  assumes "rb_ok n rb" and "run_queue rb_push rb_pop id ops rb = (ins, outs, rb')"
  shows "rb_items rb @ ins = outs @ rb_items rb' \<and> rb_ok n rb' \<and> rb_len rb' \<le> n - 1"
  using ring.conservation [OF assms(1) _ assms(2)] ring.bounded by fastforce

lemma poll_keyboard_many:
  "take_many poll_keyboard_byte k s =
     (fst (take_many rb_pop k (in_keyboard s)), s\<lparr>in_keyboard := snd (take_many rb_pop k (in_keyboard s))\<rparr>)"
  by (induction k arbitrary: s) (auto simp: poll_keyboard_byte_def split: option.splits prod.splits)

text \<open>
  From interrupt to consumer: when the controller behaves as documented, the keyboard
  interrupt handler ends, takes from the controller exactly the keyboard bytes before the
  first mouse byte, and polling then yields what was buffered followed by these bytes, in
  order, as far as the 127 bytes the buffer holds.
\<close>

lemma keyboard_irq_delivers:
  assumes "ps2_controller status data pending" and "rb_ok KEYBOARD_BUFFER_SIZE (in_keyboard s)"
    and "length (from_keyboard (pending d)) < n"
  shows "\<exists>d' s'. on_keyboard_irq status data n (d, s) = Some (d', s')
    \<and> pending d' = dropWhile (\<lambda>e. \<not> fst e) (pending d) \<and> in_mouse s' = in_mouse s
    \<and> fst (take_many poll_keyboard_byte KEYBOARD_BUFFER_SIZE s')
        = List.take (KEYBOARD_BUFFER_SIZE - 1) (rb_items (in_keyboard s) @ from_keyboard (pending d))"
proof -
  let ?rb = "snd (put_all rb_push (from_keyboard (pending d)) (in_keyboard s))"
  obtain d' where d': "keyboard_irq_loop status data n (d, in_keyboard s) = Some (d', ?rb)"
    "pending d' = dropWhile (\<lambda>e. \<not> fst e) (pending d)"
    using keyboard_irq_loop_spec [OF assms(1,3)] by blast
  have items: "rb_items ?rb = List.take (KEYBOARD_BUFFER_SIZE - 1) (rb_items (in_keyboard s) @ from_keyboard (pending d))"
    "rb_ok KEYBOARD_BUFFER_SIZE ?rb"
    using ring.put_all_items [OF assms(2), of "from_keyboard (pending d)"] by simp_all
  have "length (rb_items ?rb) < KEYBOARD_BUFFER_SIZE" using rb_len_less [OF items(2)] by (simp only: length_rb_items)
  with ring.take_many_items [OF items(2), of KEYBOARD_BUFFER_SIZE] items(1)
  have "fst (take_many rb_pop KEYBOARD_BUFFER_SIZE ?rb)
      = List.take (KEYBOARD_BUFFER_SIZE - 1) (rb_items (in_keyboard s) @ from_keyboard (pending d))" by simp
  with d' show ?thesis by (simp add: on_keyboard_irq_def poll_keyboard_many)
qed

definition list_status :: "(bool \<times> u8) list \<Rightarrow> u8 \<times> (bool \<times> u8) list" where
  "list_status p = (case p of [] \<Rightarrow> 0 | e # _ \<Rightarrow> if fst e then 33 else 1, p)"

definition list_data :: "(bool \<times> u8) list \<Rightarrow> u8 \<times> (bool \<times> u8) list" where
  "list_data p = (case p of [] \<Rightarrow> (0, []) | e # p' \<Rightarrow> (snd e, p'))"

lemma list_controller: "ps2_controller list_status list_data id"
proof -
  have "bit (33 :: u8) 0" "bit (33 :: u8) 5" "bit (1 :: u8) 0" "\<not> bit (1 :: u8) 5" by (simp_all add: bit_numeral_rec)
  then show ?thesis
    by (auto simp: ps2_controller_def list_status_def list_data_def neq_Nil_conv split: list.split)
qed

text \<open>
  Mouse packets are decoded as the PS/2 protocol defines them: bytes that cannot start
  a packet are skipped, and the next three bytes give the event whose displacements are the
  nine-bit two's complement numbers of the packet, the vertical one negated, inside
  their range, with the three buttons; the assembler is then ready for the next packet.
  Whatever followed among the sixteen bytes taken from the buffer is gone.
\<close>

lemma mouse_packet_decoded:
  assumes "rb_ok MOUSE_BUFFER_SIZE (in_mouse s)" and "mp_ok (in_packet s)" and "mp_index (in_packet s) = 0"
    and "rb_items (in_mouse s) = junk @ f # x # y # rest" and "\<forall>b \<in> set junk. \<not> bit b 3" and "bit f 3"
    and "length junk + 3 \<le> 16"
  shows "\<exists>ev s'. poll_mouse_event s = (Some ev, s')
    \<and> sint (me_delta_x ev) = int (unat x) - (if bit f 4 then 256 else 0)
    \<and> sint (me_delta_y ev) = (if bit f 5 then 256 else 0) - int (unat y)
    \<and> sint (me_delta_x ev) \<in> {-256..255} \<and> sint (me_delta_y ev) \<in> {-255..256}
    \<and> (me_left ev \<longleftrightarrow> bit f 0) \<and> (me_right ev \<longleftrightarrow> bit f 1) \<and> (me_middle ev \<longleftrightarrow> bit f 2)
    \<and> mp_ok (in_packet s') \<and> mp_index (in_packet s') = 0
    \<and> rb_items (in_mouse s') = drop (13 - length junk) rest"
proof -
  let ?ev = "mp_event [f, x, y]"
  obtain bs rb where dr: "drain_bytes 16 (in_mouse s) = (bs, rb)" by fastforce
  have bs: "bs = junk @ f # x # y # List.take (13 - length junk) rest" "rb_items rb = drop (13 - length junk) rest"
    using ring.take_many_items [OF assms(1), of 16] dr assms(4,7)
    by (auto simp: drain_bytes_take take_Cons' drop_Cons' numeral_eq_Suc split: if_splits)
  have ev: "feed_packet bs (in_packet s) = (Some ?ev, \<lparr>mp_bytes = [f, x, y], mp_index = 0\<rparr>)"
    by (simp add: bs feed_skips [OF assms(3,5)] feed_aligned [OF assms(2,3,6)] del: feed_packet.simps)
  have "int (unat x) < 256" "int (unat y) < 256" using unsigned_less [of x] unsigned_less [of y] by simp_all
  then have "sint (me_delta_x ?ev) \<in> {-256..255}" "sint (me_delta_y ?ev) \<in> {-255..256}"
    unfolding mp_event_deltas atLeastAtMost_iff
    by (cases "bit f 4", simp_all only: if_True if_False, linarith+)
      (cases "bit f 5", simp_all only: if_True if_False, linarith+)
  moreover have "me_left ?ev \<longleftrightarrow> bit f 0" "me_right ?ev \<longleftrightarrow> bit f 1" "me_middle ?ev \<longleftrightarrow> bit f 2"
    using and_flag [of 0 f] and_flag [of 1 f] and_flag [of 2 f] by (simp_all add: mp_event_def Let_def)
  moreover have "poll_mouse_event s = (Some ?ev, s\<lparr>in_mouse := rb, in_packet := \<lparr>mp_bytes = [f, x, y], mp_index = 0\<rparr>\<rparr>)"
    using ev [unfolded bs(1)] bs(1) by (simp add: poll_mouse_event_def dr)
  ultimately show ?thesis using bs(2) mp_event_deltas [of f x y] by (simp add: mp_ok_def)
qed

definition mouse_example :: input_state where
  "mouse_example = input_boot\<lparr>in_mouse := snd (put_all rb_push [2, 0x18, 250, 3, 0x29, 4, 1] (rb_new MOUSE_BUFFER_SIZE))\<rparr>"

lemma mouse_example_ok:
  "rb_ok MOUSE_BUFFER_SIZE (in_mouse mouse_example)" "rb_items (in_mouse mouse_example) = [2, 0x18, 250, 3, 0x29, 4, 1]"
  using ring.put_all_items [OF rb_ok_new(1), of MOUSE_BUFFER_SIZE "[2, 0x18, 250, 3, 0x29, 4, 1]"]
  by (simp_all add: mouse_example_def rb_ok_new MOUSE_BUFFER_SIZE_def)

text \<open>
  Two packets that are both in the buffer: one poll returns the first and discards the
  bytes of the second, so the second poll finds nothing.
\<close>

lemma mouse_poll_drops_packet:
  "\<exists>ev s'. poll_mouse_event mouse_example = (Some ev, s') \<and> fst (poll_mouse_event s') = None"
proof -
  obtain bs rb where dr: "drain_bytes 16 (in_mouse mouse_example) = (bs, rb)" by fastforce
  have bs: "bs = [2, 0x18, 250, 3, 0x29, 4, 1]" "rb_items rb = []" "rb_ok MOUSE_BUFFER_SIZE rb"
    using ring.take_many_items [OF mouse_example_ok(1), of 16] dr by (auto simp: drain_bytes_take mouse_example_ok)
  obtain rb' where rb': "drain_bytes 16 rb = ([], rb')"
    using ring.take_many_items [OF bs(3), of 16] bs(2) by (cases "drain_bytes 16 rb") (simp add: drain_bytes_take)
  have "feed_packet bs mp_new = (Some (mp_event [0x18, 250, 3]), \<lparr>mp_bytes = [0x18, 250, 3], mp_index = 0\<rparr>)"
    unfolding bs by code_simp
  moreover have "in_packet mouse_example = mp_new" by (simp add: mouse_example_def input_boot_def)
  ultimately show ?thesis using dr rb' by (simp add: poll_mouse_event_def bs(1))
qed

text \<open>
  A release prefix polled before its scancode has arrived is lost, and the scancode is then
  reported as a key press.
\<close>

lemma release_prefix_lost:
  "fst (poll_key_event (s\<lparr>in_keyboard := snd (rb_push 0xF0 (rb_new 4))\<rparr>)) = None
   \<and> fst (poll_key_event (s\<lparr>in_keyboard := snd (rb_push 0x1C (rb_new 4))\<rparr>)) = Some \<lparr>ke_scancode = 0x1C, ke_pressed = True\<rparr>"
  by (simp add: poll_key_event_def poll_keyboard_byte_def rb_pop_def rb_push_def rb_new_def)

end
