(* ===== verification/Kernel.thy ===== *)
theory Kernel
  imports Ipc Shared_Mem Input_Buffers Graphics Le_Bytes
begin

text \<open>
  The kernel state as one record: threads, capabilities, scheduler and ports, the memory
  managers, the page fault policy of \<^verbatim>\<open>kernel/src/mm/policy.rs\<close>, the interrupt handler
  registry, input, framebuffer, and the memory that user pointers reach. The shared memory
  manager supplies the region sizes that the ports ask for.
\<close>

section \<open>State\<close>

text \<open>
  \<open>k_user\<close> is the memory seen through user pointers in the address space of the calling
  thread. \<open>k_inb\<close> gives what the input ports of the machine answer and \<open>k_outb\<close> records
  what is written to output ports, latest first; \<open>k_apic_writes\<close> and \<open>k_ioapic_writes\<close> record
  the register writes of the interrupt controllers in the same way.
\<close>

record kernel = ipc_sys +
  k_mem :: shm_sys
  k_fault_port :: "port_id option"
  k_irq_handlers :: "(u8, thread_id \<times> u64) btree"
  k_irq_counts :: "(u8, u64) btree"
  k_input :: input_state
  k_graphics :: graphics
  k_user :: byte_mem
  k_inb :: "u16 \<Rightarrow> u8"
  k_outb :: "(u16 \<times> u8) list"
  k_apic_enabled :: bool
  k_pic_active :: bool
  k_apic_base :: u64
  k_apic_writes :: "(u32 \<times> u32) list"
  k_ioapic_writes :: "(u32 \<times> u32) list"
  k_user_interrupted :: bool

text \<open>An operation of the memory managers, run on its part of the state.\<close>

definition on_mem :: "(shm_sys \<Rightarrow> 'r \<times> shm_sys) \<Rightarrow> kernel \<Rightarrow> 'r \<times> kernel" where
  "on_mem f k = (let (r, m) = f (k_mem k) in (r, k\<lparr>k_mem := m\<rparr>))"

definition region_size :: "kernel \<Rightarrow> region_id \<Rightarrow> usize option" where
  "region_size k i = (case get_region_info i (k_mem k) of Inl _ \<Rightarrow> None | Inr info \<Rightarrow> Some (ri_size info))"

abbreviation current_thread :: "kernel \<Rightarrow> thread_id option" where
  "current_thread \<equiv> sc_current"

definition send_message :: "port_id \<Rightarrow> message \<Rightarrow> kernel \<Rightarrow> (ipc_error + unit) \<times> kernel" where
  "send_message i m k = ipc_send (region_size k) i m k"

definition try_receive_message :: "port_id \<Rightarrow> thread_id \<Rightarrow> kernel \<Rightarrow> (ipc_error + message option) \<times> kernel" where
  "try_receive_message i caller k = ipc_try_recv (region_size k) i caller k"

section \<open>The page fault policy\<close>

datatype memory_policy_error = MpInvalidPort | MpPermissionDenied | MpNotRegistered | MpSendFailed

definition MSG_TYPE_PAGE_FAULT :: u32 where
  "MSG_TYPE_PAGE_FAULT = 0xF001"

definition register_page_fault_handler :: "port_id \<Rightarrow> thread_id \<Rightarrow> kernel \<Rightarrow> (memory_policy_error + unit) \<times> kernel" where
  "register_page_fault_handler i caller k =
     (case get_port_owner i k of
        None \<Rightarrow> (Inl MpInvalidPort, k)
      | Some owner \<Rightarrow>
          if owner \<noteq> caller then (Inl MpPermissionDenied, k)
          else (Inr (), k\<lparr>k_fault_port := Some i\<rparr>))"

definition fault_payload :: "thread_id \<Rightarrow> u64 \<Rightarrow> u64 \<Rightarrow> u64 \<Rightarrow> u8 list" where
  "fault_payload tid fault_addr error_code instruction_pointer =
     le_bytes 8 fault_addr @ le_bytes 8 error_code @ le_bytes 8 instruction_pointer @ le_bytes 8 tid"

definition notify_page_fault ::
  "thread_id \<Rightarrow> u64 \<Rightarrow> u64 \<Rightarrow> u64 \<Rightarrow> kernel \<Rightarrow> (memory_policy_error + unit) \<times> kernel" where
  "notify_page_fault tid fault_addr error_code instruction_pointer k =
     (case k_fault_port k of
        None \<Rightarrow> (Inl MpNotRegistered, k)
      | Some port \<Rightarrow>
          (case send_message port
                  (message_new (current_time_ms k) tid MSG_TYPE_PAGE_FAULT
                     (fault_payload tid fault_addr error_code instruction_pointer)) k of
             (Inl _, k1) \<Rightarrow> (Inl MpSendFailed, k1)
           | (Inr _, k1) \<Rightarrow> (Inr (), k1)))"

section \<open>Interrupt notification\<close>

definition notify_irq_handler :: "u8 \<Rightarrow> kernel \<Rightarrow> kernel" where
  "notify_irq_handler irq k =
     (case bt_get (k_irq_handlers k) irq of
        None \<Rightarrow> k
      | Some (_, port) \<Rightarrow> snd (send_message port (message_new (current_time_ms k) 0 (ucast irq) [irq]) k))"

definition has_userspace_irq_handler :: "u8 \<Rightarrow> kernel \<Rightarrow> bool" where
  "has_userspace_irq_handler irq k = bt_contains (k_irq_handlers k) irq"

definition increment_irq_count :: "u8 \<Rightarrow> kernel \<Rightarrow> kernel" where
  "increment_irq_count irq k =
     k\<lparr>k_irq_counts := bt_insert irq ((case bt_get (k_irq_counts k) irq of Some n \<Rightarrow> n | None \<Rightarrow> 0) + 1) (k_irq_counts k)\<rparr>"

end
