(* ===== verification/Syscalls.thy ===== *)
theory Syscalls
  imports Kernel
begin

text \<open>
  The system calls of \<^verbatim>\<open>kernel/src/syscall/mod.rs\<close>: numbers and error codes, one definition per
  handler, and the dispatcher. A handler that gives up the processor runs the scheduler and
  is \<open>Suspended\<close> with what it does when its thread runs again; \<open>resume_syscall\<close> is that
  second half. \<open>ret\<close> is the address at which the saved context continues.
\<close>

section \<open>Numbers and error codes\<close>

definition SYS_THREAD_YIELD :: u64 where "SYS_THREAD_YIELD = 0"
definition SYS_THREAD_EXIT :: u64 where "SYS_THREAD_EXIT = 1"
definition SYS_THREAD_SLEEP :: u64 where "SYS_THREAD_SLEEP = 2"
definition SYS_THREAD_CREATE :: u64 where "SYS_THREAD_CREATE = 3"
definition SYS_IPC_CREATE_PORT :: u64 where "SYS_IPC_CREATE_PORT = 4"
definition SYS_IPC_CLOSE_PORT :: u64 where "SYS_IPC_CLOSE_PORT = 5"
definition SYS_IPC_SEND :: u64 where "SYS_IPC_SEND = 6"
definition SYS_IPC_RECV :: u64 where "SYS_IPC_RECV = 7"
definition SYS_CAP_CREATE :: u64 where "SYS_CAP_CREATE = 8"
definition SYS_CAP_CHECK :: u64 where "SYS_CAP_CHECK = 9"
definition SYS_CAP_REVOKE :: u64 where "SYS_CAP_REVOKE = 10"
definition SYS_CAP_DERIVE :: u64 where "SYS_CAP_DERIVE = 11"
definition SYS_CAP_LIST :: u64 where "SYS_CAP_LIST = 12"
definition SYS_CAP_TRANSFER :: u64 where "SYS_CAP_TRANSFER = 13"
definition SYS_IPC_SEND_WITH_CAP :: u64 where "SYS_IPC_SEND_WITH_CAP = 14"
definition SYS_CAP_QUERY_PARENT :: u64 where "SYS_CAP_QUERY_PARENT = 15"
definition SYS_CAP_QUERY_CHILDREN :: u64 where "SYS_CAP_QUERY_CHILDREN = 16"
definition SYS_SHARED_REGION_CREATE :: u64 where "SYS_SHARED_REGION_CREATE = 17"
definition SYS_SHARED_REGION_MAP :: u64 where "SYS_SHARED_REGION_MAP = 18"
definition SYS_SHARED_REGION_UNMAP :: u64 where "SYS_SHARED_REGION_UNMAP = 19"
definition SYS_SHARED_REGION_DESTROY :: u64 where "SYS_SHARED_REGION_DESTROY = 20"
definition SYS_IPC_SEND_BATCH :: u64 where "SYS_IPC_SEND_BATCH = 21"
definition SYS_IPC_RECV_BATCH :: u64 where "SYS_IPC_RECV_BATCH = 22"
definition SYS_IPC_SEND_ASYNC :: u64 where "SYS_IPC_SEND_ASYNC = 23"
definition SYS_IPC_TRY_RECV :: u64 where "SYS_IPC_TRY_RECV = 24"
definition SYS_IPC_TRACE_READ :: u64 where "SYS_IPC_TRACE_READ = 25"
definition SYS_IPC_PORT_STATS :: u64 where "SYS_IPC_PORT_STATS = 26"
definition SYS_ADDRSPACE_CREATE :: u64 where "SYS_ADDRSPACE_CREATE = 27"
definition SYS_ADDRSPACE_DESTROY :: u64 where "SYS_ADDRSPACE_DESTROY = 28"
definition SYS_MAP_REGION :: u64 where "SYS_MAP_REGION = 29"
definition SYS_UNMAP_REGION :: u64 where "SYS_UNMAP_REGION = 30"
definition SYS_REMAP_REGION :: u64 where "SYS_REMAP_REGION = 31"
definition SYS_REGISTER_FAULT_HANDLER :: u64 where "SYS_REGISTER_FAULT_HANDLER = 32"
definition SYS_MOUSE_POLL :: u64 where "SYS_MOUSE_POLL = 33"
definition SYS_IO_PORT_READ :: u64 where "SYS_IO_PORT_READ = 34"
definition SYS_IO_PORT_WRITE :: u64 where "SYS_IO_PORT_WRITE = 35"
definition SYS_KEYBOARD_POLL :: u64 where "SYS_KEYBOARD_POLL = 36"
definition SYS_GET_FRAMEBUFFER :: u64 where "SYS_GET_FRAMEBUFFER = 37"
definition SYS_GET_TICKS :: u64 where "SYS_GET_TICKS = 38"
definition SYS_DEBUG_LOG :: u64 where "SYS_DEBUG_LOG = 39"
definition SYS_REGISTER_IRQ_HANDLER :: u64 where "SYS_REGISTER_IRQ_HANDLER = 40"
definition SYS_MAP_FRAMEBUFFER :: u64 where "SYS_MAP_FRAMEBUFFER = 41"
definition SYS_UNREGISTER_IRQ_HANDLER :: u64 where "SYS_UNREGISTER_IRQ_HANDLER = 42"
definition SYS_IPC_WAIT_ANY :: u64 where "SYS_IPC_WAIT_ANY = 43"
definition SYS_GET_IRQ_COUNT :: u64 where "SYS_GET_IRQ_COUNT = 44"

definition ESUCCESS :: u64 where "ESUCCESS = 0"
definition EINVAL :: u64 where "EINVAL = u64_max - 1"
definition ENOSYS :: u64 where "ENOSYS = u64_max - 2"
definition ENOMEM :: u64 where "ENOMEM = u64_max - 3"
definition EPERM :: u64 where "EPERM = u64_max - 4"
definition EBUSY :: u64 where "EBUSY = u64_max - 5"
definition EMSGSIZE :: u64 where "EMSGSIZE = u64_max - 6"
definition ETIMEDOUT :: u64 where "ETIMEDOUT = u64_max - 7"
definition EWOULDBLOCK :: u64 where "EWOULDBLOCK = u64_max - 8"
definition EDEADLK :: u64 where "EDEADLK = u64_max - 9"

lemmas syscall_numbers = SYS_THREAD_YIELD_def SYS_THREAD_EXIT_def SYS_THREAD_SLEEP_def SYS_THREAD_CREATE_def
  SYS_IPC_CREATE_PORT_def SYS_IPC_CLOSE_PORT_def SYS_IPC_SEND_def SYS_IPC_RECV_def SYS_CAP_CREATE_def
  SYS_CAP_CHECK_def SYS_CAP_REVOKE_def SYS_CAP_DERIVE_def SYS_CAP_LIST_def SYS_CAP_TRANSFER_def
  SYS_IPC_SEND_WITH_CAP_def SYS_CAP_QUERY_PARENT_def SYS_CAP_QUERY_CHILDREN_def SYS_SHARED_REGION_CREATE_def
  SYS_SHARED_REGION_MAP_def SYS_SHARED_REGION_UNMAP_def SYS_SHARED_REGION_DESTROY_def SYS_IPC_SEND_BATCH_def
  SYS_IPC_RECV_BATCH_def SYS_IPC_SEND_ASYNC_def SYS_IPC_TRY_RECV_def SYS_IPC_TRACE_READ_def SYS_IPC_PORT_STATS_def
  SYS_ADDRSPACE_CREATE_def SYS_ADDRSPACE_DESTROY_def SYS_MAP_REGION_def SYS_UNMAP_REGION_def SYS_REMAP_REGION_def
  SYS_REGISTER_FAULT_HANDLER_def SYS_MOUSE_POLL_def SYS_IO_PORT_READ_def SYS_IO_PORT_WRITE_def SYS_KEYBOARD_POLL_def
  SYS_GET_FRAMEBUFFER_def SYS_GET_TICKS_def SYS_DEBUG_LOG_def SYS_REGISTER_IRQ_HANDLER_def SYS_MAP_FRAMEBUFFER_def
  SYS_UNREGISTER_IRQ_HANDLER_def SYS_IPC_WAIT_ANY_def SYS_GET_IRQ_COUNT_def

lemmas error_codes = ESUCCESS_def EINVAL_def ENOSYS_def ENOMEM_def EPERM_def EBUSY_def EMSGSIZE_def
  ETIMEDOUT_def EWOULDBLOCK_def EDEADLK_def

section \<open>Outcomes\<close>

datatype sys_cont =
    AfterYield
  | AfterExit
  | AfterSleep
  | AfterRecv thread_id port_id u64 u64
  | AfterWait thread_id "port_id list" "u64 option" u64

datatype sys_out = Ret u64 | Suspended sys_cont

definition ret :: "u64 \<times> kernel \<Rightarrow> sys_out \<times> kernel" where
  "ret = map_prod Ret id"

text \<open>The common prologue: the handler runs for the current thread and fails without one.\<close>

definition with_caller :: "(thread_id \<Rightarrow> kernel \<Rightarrow> u64 \<times> kernel) \<Rightarrow> kernel \<Rightarrow> u64 \<times> kernel" where
  "with_caller f k = (case current_thread k of None \<Rightarrow> (EINVAL, k) | Some caller \<Rightarrow> f caller k)"

text \<open>Stores through a user pointer: bytes, and arrays of quadwords.\<close>

definition user_store :: "u64 \<Rightarrow> u8 list \<Rightarrow> kernel \<Rightarrow> kernel" where
  "user_store ptr bs k = k\<lparr>k_user := write_bytes ptr bs (k_user k)\<rparr>"

definition quads :: "u64 list \<Rightarrow> u8 list" where
  "quads ws = concat (map (le_bytes 8) ws)"

section \<open>Devices\<close>

definition sys_mouse_poll :: "kernel \<Rightarrow> u64 \<times> kernel" where
  "sys_mouse_poll k =
     (let (b, inp) = poll_mouse_byte (k_input k); k1 = k\<lparr>k_input := inp\<rparr>
      in (case b of Some byte \<Rightarrow> ucast byte | None \<Rightarrow> EWOULDBLOCK, k1))"

definition sys_io_port_read :: "u16 \<Rightarrow> u8 \<Rightarrow> kernel \<Rightarrow> u64 \<times> kernel" where
  "sys_io_port_read port sz k =
     (if port \<notin> set [0x60, 0x64] then (EPERM, k) else (ucast (k_inb k port), k))"

definition sys_io_port_write :: "u16 \<Rightarrow> u8 \<Rightarrow> kernel \<Rightarrow> u64 \<times> kernel" where
  "sys_io_port_write port v k =
     (if port \<notin> set [0x60, 0x64] then (EPERM, k) else (ESUCCESS, k\<lparr>k_outb := (port, v) # k_outb k\<rparr>))"

definition sys_keyboard_poll :: "kernel \<Rightarrow> u64 \<times> kernel" where
  "sys_keyboard_poll k =
     (let (b, inp) = poll_keyboard_byte (k_input k); k1 = k\<lparr>k_input := inp\<rparr>
      in (case b of Some scancode \<Rightarrow> ucast scancode | None \<Rightarrow> EWOULDBLOCK, k1))"

definition sys_get_framebuffer :: "u64 \<Rightarrow> kernel \<Rightarrow> u64 \<times> kernel" where
  "sys_get_framebuffer info_ptr k =
     (if info_ptr = 0 then (EINVAL, k)
      else case get_dimensions (k_graphics k) of
          None \<Rightarrow> (EINVAL, k)
        | Some (width, height) \<Rightarrow>
            (case get_framebuffer_address (k_graphics k) of
               None \<Rightarrow> (EINVAL, k)
             | Some addr \<Rightarrow>
                 (ESUCCESS, user_store info_ptr
                    (quads [addr, ucast width, ucast height, ucast (get_stride (k_graphics k)),
                            get_bytes_per_pixel (k_graphics k)]) k)))"

definition sys_get_ticks :: "kernel \<Rightarrow> u64 \<times> kernel" where
  "sys_get_ticks k = (sys_ticks k, k)"

definition sys_debug_log :: "u64 \<Rightarrow> usize \<Rightarrow> kernel \<Rightarrow> u64 \<times> kernel" where
  "sys_debug_log msg_ptr n k = (if msg_ptr = 0 \<or> n > 256 then (EINVAL, k) else (ESUCCESS, k))"

section \<open>Threads\<close>

definition sys_thread_yield :: "u64 \<Rightarrow> kernel \<Rightarrow> sys_out \<times> kernel" where
  "sys_thread_yield rip k = (Suspended AfterYield, drive_cooperative_tick rip k)"

definition sys_thread_exit :: "u64 \<Rightarrow> u64 \<Rightarrow> kernel \<Rightarrow> sys_out \<times> kernel" where
  "sys_thread_exit rip exit_code k =
     (case current_thread k of
        None \<Rightarrow> (Ret ESUCCESS, k)
      | Some tid \<Rightarrow> (Suspended AfterExit, drive_cooperative_tick rip (sys_set_state tid Exited k)))"

definition sys_thread_sleep :: "u64 \<Rightarrow> u64 \<Rightarrow> kernel \<Rightarrow> sys_out \<times> kernel" where
  "sys_thread_sleep rip ticks k =
     (if ticks = 0 then sys_thread_yield rip k
      else case current_thread k of
          None \<Rightarrow> (Ret ESUCCESS, k)
        | Some tid \<Rightarrow> (Suspended AfterSleep, drive_cooperative_tick rip (sys_set_state tid Blocked k)))"

definition KERNEL_STACK_SIZE :: usize where "KERNEL_STACK_SIZE = 16 * 1024"

fun is_thread_resource :: "resource_type \<Rightarrow> bool" where
  "is_thread_resource (ResThread _) = True"
| "is_thread_resource _ = False"

definition sys_thread_create :: "u64 \<Rightarrow> u64 \<Rightarrow> u64 \<Rightarrow> kernel \<Rightarrow> u64 \<times> kernel" where
  "sys_thread_create entry_point stack_ptr flags k =
     (if entry_point = 0 \<or> stack_ptr = 0 then (EINVAL, k)
      else with_caller (\<lambda>caller k.
        if \<not> validate_thread_capability_by_type caller PERM_WRITE is_thread_resource (sys_threads k) then (EPERM, k)
        else
          (case on_mem (alloc_pages (unat (KERNEL_STACK_SIZE div 4096))) k of
             (None, k1) \<Rightarrow> (ENOMEM, k1)
           | (Some addr, k1) \<Rightarrow>
               let kernel_stack = addr + KERNEL_STACK_SIZE;
                   (t, next_tid, m) = thread_new (sys_next_tid k1) entry_point kernel_stack KERNEL_STACK_SIZE 0
                                        PrioNormal ''user_thread'' (k_mem k1);
                   k2 = k1\<lparr>sys_next_tid := next_tid, k_mem := m\<rparr>
               in sched_add_thread t k2)) k)"

section \<open>Ports and messages\<close>

definition sys_ipc_create_port :: "kernel \<Rightarrow> u64 \<times> kernel" where
  "sys_ipc_create_port = with_caller (\<lambda>owner k.
     let (port_id, k1) = create_port owner k
     in (port_id,
         case create_root_capability (ResIpcPort port_id) owner (perm_union PERM_READ PERM_WRITE) k1 of
           (Inr cap, k2) \<Rightarrow> snd (sys_add_cap owner cap k2)
         | (Inl _, k2) \<Rightarrow> k2))"

definition sys_ipc_close_port :: "u64 \<Rightarrow> kernel \<Rightarrow> u64 \<times> kernel" where
  "sys_ipc_close_port port_id = with_caller (\<lambda>caller k.
     let (r, k1) = close_port port_id caller k
     in (case r of
           Inr _ \<Rightarrow> ESUCCESS
         | Inl IpcInvalidPort \<Rightarrow> EINVAL
         | Inl IpcPermissionDenied \<Rightarrow> EPERM
         | Inl _ \<Rightarrow> EINVAL, k1))"

definition sys_ipc_send :: "u64 \<Rightarrow> u64 \<Rightarrow> u64 \<Rightarrow> u64 \<Rightarrow> kernel \<Rightarrow> u64 \<times> kernel" where
  "sys_ipc_send port_id msg_type payload_len timeout_ms k =
     (if payload_len > of_nat MAX_MESSAGE_SIZE then (EMSGSIZE, k)
      else with_caller (\<lambda>sender k.
        let (r, k1) = send_message port_id (message_new (current_time_ms k) sender (ucast msg_type) []) k
        in (case r of
              Inr _ \<Rightarrow> ESUCCESS
            | Inl IpcInvalidPort \<Rightarrow> EINVAL
            | Inl IpcMessageTooLarge \<Rightarrow> EMSGSIZE
            | Inl IpcQueueFull \<Rightarrow> (if timeout_ms = 0 then EWOULDBLOCK else ETIMEDOUT)
            | Inl IpcWouldBlock \<Rightarrow> (if timeout_ms = 0 then EWOULDBLOCK else ETIMEDOUT)
            | Inl _ \<Rightarrow> EINVAL, k1)) k)"

definition recv_deadline :: "u64 \<Rightarrow> kernel \<Rightarrow> u64 option" where
  "recv_deadline timeout_ms k =
     (if timeout_ms = u64_max then None else Some (sys_ticks k + (timeout_ms + 9) div 10))"

definition copy_message :: "u64 \<Rightarrow> u64 \<Rightarrow> message \<Rightarrow> kernel \<Rightarrow> u64 \<times> kernel" where
  "copy_message buffer_ptr buffer_size msg k =
     (let bytes_to_copy = min (length (m_payload msg)) (unat buffer_size)
      in (of_nat bytes_to_copy,
          if buffer_ptr \<noteq> 0 \<and> bytes_to_copy > 0
          then user_store buffer_ptr (take bytes_to_copy (m_payload msg)) k else k))"

definition sys_ipc_recv :: "u64 \<Rightarrow> u64 \<Rightarrow> u64 \<Rightarrow> u64 \<Rightarrow> u64 \<Rightarrow> kernel \<Rightarrow> sys_out \<times> kernel" where
  "sys_ipc_recv rip port_id buffer_ptr buffer_size timeout_ms k =
     (case current_thread k of
        None \<Rightarrow> (Ret EINVAL, k)
      | Some caller \<Rightarrow>
          let priority = get_priority caller k; deadline = recv_deadline timeout_ms k in
          (case try_receive_message port_id caller k of
             (Inr (Some msg), k1) \<Rightarrow> ret (copy_message buffer_ptr buffer_size msg k1)
           | (Inr None, k1) \<Rightarrow>
               if timeout_ms = 0 then (Ret EWOULDBLOCK, k1)
               else
                 (case ipc_block_recv port_id caller priority deadline k1 of
                    (Inr _, k2) \<Rightarrow>
                      (Suspended (AfterRecv caller port_id buffer_ptr buffer_size),
                       drive_cooperative_tick rip (sys_set_state caller Blocked k2))
                  | (Inl IpcPortBusy, k2) \<Rightarrow> (Ret EBUSY, k2)
                  | (Inl IpcDeadlockDetected, k2) \<Rightarrow> (Ret EDEADLK, k2)
                  | (Inl _, k2) \<Rightarrow> (Ret EINVAL, k2))
           | (Inl _, k1) \<Rightarrow> (Ret EINVAL, k1)))"

definition recv_after_block :: "thread_id \<Rightarrow> u64 \<Rightarrow> u64 \<Rightarrow> u64 \<Rightarrow> kernel \<Rightarrow> u64 \<times> kernel" where
  "recv_after_block caller port_id buffer_ptr buffer_size k =
     (case try_receive_message port_id caller k of
        (Inr (Some msg), k1) \<Rightarrow> copy_message buffer_ptr buffer_size msg k1
      | (Inr None, k1) \<Rightarrow> (ETIMEDOUT, k1)
      | (Inl _, k1) \<Rightarrow> (EINVAL, k1))"

definition sys_ipc_send_async :: "u64 \<Rightarrow> u64 \<Rightarrow> u64 \<Rightarrow> u64 \<Rightarrow> kernel \<Rightarrow> u64 \<times> kernel" where
  "sys_ipc_send_async port_id msg_type payload_ptr payload_len k =
     (if payload_len > of_nat MAX_MESSAGE_SIZE then (EMSGSIZE, k)
      else with_caller (\<lambda>sender k.
        let payload = (if payload_len > 0 \<and> payload_ptr \<noteq> 0 then read_bytes payload_ptr (unat payload_len) (k_user k) else []);
            (r, k1) = send_message port_id (message_new (current_time_ms k) sender (ucast msg_type) payload) k
        in (case r of
              Inr _ \<Rightarrow> ESUCCESS
            | Inl IpcInvalidPort \<Rightarrow> EINVAL
            | Inl IpcMessageTooLarge \<Rightarrow> EMSGSIZE
            | Inl IpcQueueFull \<Rightarrow> EWOULDBLOCK
            | Inl IpcWouldBlock \<Rightarrow> EWOULDBLOCK
            | Inl _ \<Rightarrow> EINVAL, k1)) k)"

definition sys_ipc_try_recv :: "u64 \<Rightarrow> u64 \<Rightarrow> u64 \<Rightarrow> kernel \<Rightarrow> u64 \<times> kernel" where
  "sys_ipc_try_recv port_id buffer_ptr buffer_size = with_caller (\<lambda>caller k.
     case try_receive_message port_id caller k of
       (Inr (Some msg), k1) \<Rightarrow> copy_message buffer_ptr buffer_size msg k1
     | (Inr None, k1) \<Rightarrow> (EWOULDBLOCK, k1)
     | (Inl _, k1) \<Rightarrow> (EINVAL, k1))"

fun event_kind_as_u64 :: "ipc_event_kind \<Rightarrow> u64" where
  "event_kind_as_u64 EvSend = 0"
| "event_kind_as_u64 EvReceive = 1"

definition raw_trace_event :: "ipc_trace_event \<Rightarrow> u64 list" where
  "raw_trace_event ev = [ev_timestamp ev, event_kind_as_u64 (ev_kind ev), ev_port ev, ev_sender ev,
     (case ev_receiver ev of Some i \<Rightarrow> i | None \<Rightarrow> 0), ev_size ev]"

definition sys_ipc_trace_read :: "u64 \<Rightarrow> u64 \<Rightarrow> kernel \<Rightarrow> u64 \<times> kernel" where
  "sys_ipc_trace_read buffer_ptr max_events k =
     (if max_events = 0 then (0, k)
      else
        let events = read_trace (unat max_events) k; available = length events;
            to_copy = min available (unat max_events)
        in (of_nat available,
            if buffer_ptr \<noteq> 0
            then user_store buffer_ptr (quads (concat (map raw_trace_event (take to_copy events)))) k else k))"

definition raw_port_stats :: "ipc_port_stats \<Rightarrow> u64 list" where
  "raw_port_stats st = [ps_messages_sent st, ps_messages_received st, ps_bytes_sent st, ps_bytes_received st,
     ps_min_latency st, ps_max_latency st, ps_avg_latency st, ps_messages_per_second st]"

definition sys_ipc_port_stats :: "u64 \<Rightarrow> u64 \<Rightarrow> kernel \<Rightarrow> u64 \<times> kernel" where
  "sys_ipc_port_stats port_id stats_ptr k =
     (case get_port_stats port_id k of
        Inr st \<Rightarrow> (ESUCCESS, if stats_ptr \<noteq> 0 then user_store stats_ptr (quads (raw_port_stats st)) k else k)
      | Inl _ \<Rightarrow> (EINVAL, k))"

definition sys_ipc_send_batch :: "u64 \<Rightarrow> u64 \<Rightarrow> u64 \<Rightarrow> kernel \<Rightarrow> u64 \<times> kernel" where
  "sys_ipc_send_batch port_id messages_ptr count k =
     (if count = 0 then (ESUCCESS, k)
      else if count > of_nat MAX_BATCH_SIZE then (EINVAL, k)
      else with_caller (\<lambda>sender k.
        let messages = map (\<lambda>i. message_new (current_time_ms k) sender (of_nat i) [of_nat i]) [0 ..< unat count];
            (r, k1) = ipc_send_batch (region_size k) port_id messages k
        in (case r of
              Inr sent_count \<Rightarrow> of_nat sent_count
            | Inl IpcInvalidPort \<Rightarrow> EINVAL
            | Inl IpcBatchTooLarge \<Rightarrow> EINVAL
            | Inl IpcQueueFull \<Rightarrow> EWOULDBLOCK
            | Inl _ \<Rightarrow> EINVAL, k1)) k)"

definition sys_ipc_recv_batch :: "u64 \<Rightarrow> u64 \<Rightarrow> u64 \<Rightarrow> kernel \<Rightarrow> u64 \<times> kernel" where
  "sys_ipc_recv_batch port_id buffer_ptr max_count k =
     (if max_count = 0 then (0, k)
      else if max_count > of_nat MAX_BATCH_SIZE then (EINVAL, k)
      else with_caller (\<lambda>caller k.
        let (r, k1) = ipc_recv_batch (region_size k) port_id caller (unat max_count) k
        in (case r of Inr messages \<Rightarrow> of_nat (length messages) | Inl _ \<Rightarrow> EINVAL, k1)) k)"

definition is_port_resource :: "u64 \<Rightarrow> resource_type \<Rightarrow> bool" where
  "is_port_resource port_id res = (case res of ResIpcPort i \<Rightarrow> i = port_id | _ \<Rightarrow> False)"

definition sys_ipc_send_with_cap :: "u64 \<Rightarrow> u64 \<Rightarrow> u64 \<Rightarrow> u64 \<Rightarrow> u64 \<Rightarrow> kernel \<Rightarrow> u64 \<times> kernel" where
  "sys_ipc_send_with_cap port_id msg_type payload_len cap_handle mode_or_perms k =
     (if payload_len > of_nat MAX_MESSAGE_SIZE then (EMSGSIZE, k)
      else with_caller (\<lambda>sender k.
        if \<not> validate_thread_capability_by_type sender PERM_WRITE (is_port_resource port_id) (sys_threads k) then (EPERM, k)
        else if \<not> thread_has_capability sender cap_handle (sys_threads k) then (EPERM, k)
        else if \<not> validate_thread_capability_by_type sender PERM_GRANT (\<lambda>_. True) (sys_threads k) then (EPERM, k)
        else
          let is_move = (drop_bit 32 mode_or_perms \<noteq> 0);
              msg = (if is_move then message_new_move (current_time_ms k) sender (ucast msg_type) [] cap_handle
                     else message_new_grant (current_time_ms k) sender (ucast msg_type) [] cap_handle
                            (CapPermissions (ucast mode_or_perms)));
              (r, k1) = send_message port_id msg k
          in (case r of
                Inr _ \<Rightarrow> ESUCCESS
              | Inl IpcInvalidPort \<Rightarrow> EINVAL
              | Inl IpcMessageTooLarge \<Rightarrow> EMSGSIZE
              | Inl _ \<Rightarrow> EINVAL, k1)) k)"

section \<open>Capabilities\<close>

definition sys_cap_create :: "u64 \<Rightarrow> u64 \<Rightarrow> u64 \<Rightarrow> kernel \<Rightarrow> u64 \<times> kernel" where
  "sys_cap_create rtype resource_id permissions = with_caller (\<lambda>caller k.
     let resource = (if rtype = 0 then Inr (ResThread resource_id)
                     else if rtype = 2 then Inr (ResIpcPort resource_id)
                     else if rtype = 3 then (if resource_id > 255 then Inl EINVAL else Inr (ResIrq (ucast resource_id)))
                     else Inl ENOSYS)
     in case resource of
          Inl e \<Rightarrow> (e, k)
        | Inr res \<Rightarrow>
            (case create_root_capability res caller (CapPermissions (ucast permissions)) k of
               (Inr cap, k1) \<Rightarrow>
                 let (r, k2) = sys_add_cap caller cap k1
                 in (case r of Inr _ \<Rightarrow> c_handle cap | Inl _ \<Rightarrow> EINVAL, k2)
             | (Inl _, k1) \<Rightarrow> (EINVAL, k1)))"

definition sys_cap_check :: "u64 \<Rightarrow> u64 \<Rightarrow> kernel \<Rightarrow> u64 \<times> kernel" where
  "sys_cap_check h required_perms k =
     (case current_thread k of
        None \<Rightarrow> (0, k)
      | Some _ \<Rightarrow> (if cst_total (get_capability_stats k) > 0 then 1 else 0, k))"

definition sys_cap_revoke :: "u64 \<Rightarrow> kernel \<Rightarrow> u64 \<times> kernel" where
  "sys_cap_revoke h = with_caller (\<lambda>caller k.
     let (r, k1) = revoke h caller k
     in (case r of Inr revoked \<Rightarrow> of_nat (length revoked) | Inl _ \<Rightarrow> EINVAL, k1))"

definition sys_cap_derive :: "u64 \<Rightarrow> u64 \<Rightarrow> u64 \<Rightarrow> kernel \<Rightarrow> u64 \<times> kernel" where
  "sys_cap_derive parent_handle new_owner reduced_perms = with_caller (\<lambda>caller k.
     let (r, k1) = derive_capability parent_handle caller new_owner (CapPermissions (ucast reduced_perms)) k
     in (case r of
           Inr child_handle \<Rightarrow> child_handle
         | Inl CapNotFound \<Rightarrow> EINVAL
         | Inl CapNotOwner \<Rightarrow> EPERM
         | Inl CapPermissionDenied \<Rightarrow> EPERM
         | Inl _ \<Rightarrow> EINVAL, k1))"

definition sys_cap_transfer :: "u64 \<Rightarrow> u64 \<Rightarrow> kernel \<Rightarrow> u64 \<times> kernel" where
  "sys_cap_transfer h target = with_caller (\<lambda>caller k.
     if find_thread target (sys_threads k) = None then (EINVAL, k)
     else
       let (r, k1) = transfer_capability h caller target k
       in (case r of
             Inr _ \<Rightarrow> ESUCCESS
           | Inl CapNotFound \<Rightarrow> EINVAL
           | Inl CapNotOwner \<Rightarrow> EPERM
           | Inl CapPermissionDenied \<Rightarrow> EPERM
           | Inl _ \<Rightarrow> EINVAL, k1))"

definition sys_cap_list :: "u64 \<Rightarrow> u64 \<Rightarrow> kernel \<Rightarrow> u64 \<times> kernel" where
  "sys_cap_list buffer_ptr buffer_size k = (of_nat (cst_total (get_capability_stats k)), k)"

definition sys_cap_query_parent :: "u64 \<Rightarrow> kernel \<Rightarrow> u64 \<times> kernel" where
  "sys_cap_query_parent h = with_caller (\<lambda>caller k.
     if \<not> thread_has_capability caller h (sys_threads k) then (EPERM, k)
     else (case query_parent h k of
             Inr (Some parent_handle) \<Rightarrow> parent_handle
           | Inr None \<Rightarrow> 0
           | Inl _ \<Rightarrow> EINVAL, k))"

definition sys_cap_query_children :: "u64 \<Rightarrow> u64 \<Rightarrow> u64 \<Rightarrow> kernel \<Rightarrow> u64 \<times> kernel" where
  "sys_cap_query_children h buffer_ptr buffer_size = with_caller (\<lambda>caller k.
     if \<not> thread_has_capability caller h (sys_threads k) then (EPERM, k)
     else case query_children h k of
         Inr children \<Rightarrow>
           let count = length children; to_copy = min count (unat buffer_size)
           in (of_nat count,
               if buffer_ptr \<noteq> 0 \<and> buffer_size > 0 then user_store buffer_ptr (quads (take to_copy children)) k else k)
       | Inl _ \<Rightarrow> (EINVAL, k))"

section \<open>Memory\<close>

definition sys_shared_region_create :: "u64 \<Rightarrow> kernel \<Rightarrow> u64 \<times> kernel" where
  "sys_shared_region_create sz = with_caller (\<lambda>caller k.
     let (r, k1) = on_mem (create_region caller sz) k
     in (case r of
           Inr region_id \<Rightarrow> region_id
         | Inl ShmInvalidSize \<Rightarrow> EINVAL
         | Inl ShmOutOfMemory \<Rightarrow> ENOMEM
         | Inl _ \<Rightarrow> EINVAL, k1))"

definition sys_shared_region_map :: "u64 \<Rightarrow> u64 \<Rightarrow> u64 \<Rightarrow> kernel \<Rightarrow> u64 \<times> kernel" where
  "sys_shared_region_map region_id virt_addr flags_raw = with_caller (\<lambda>caller k.
     let (r, k1) = on_mem (shm_map_region region_id caller virt_addr (rf_from_raw flags_raw)) k
     in (case r of
           Inr _ \<Rightarrow> ESUCCESS
         | Inl ShmInvalidRegion \<Rightarrow> EINVAL
         | Inl ShmUnaligned \<Rightarrow> EINVAL
         | Inl ShmAlreadyMapped \<Rightarrow> EBUSY
         | Inl ShmOutOfMemory \<Rightarrow> ENOMEM
         | Inl _ \<Rightarrow> EINVAL, k1))"

definition sys_shared_region_unmap :: "u64 \<Rightarrow> kernel \<Rightarrow> u64 \<times> kernel" where
  "sys_shared_region_unmap region_id = with_caller (\<lambda>caller k.
     let (r, k1) = on_mem (shm_unmap_region region_id caller) k
     in (case r of Inr _ \<Rightarrow> ESUCCESS | Inl _ \<Rightarrow> EINVAL, k1))"

definition sys_shared_region_destroy :: "u64 \<Rightarrow> kernel \<Rightarrow> u64 \<times> kernel" where
  "sys_shared_region_destroy region_id = with_caller (\<lambda>caller k.
     let (r, k1) = on_mem (destroy_region region_id caller) k
     in (case r of
           Inr _ \<Rightarrow> ESUCCESS
         | Inl ShmInvalidRegion \<Rightarrow> EINVAL
         | Inl ShmPermissionDenied \<Rightarrow> EPERM
         | Inl ShmRegionInUse \<Rightarrow> EBUSY
         | Inl _ \<Rightarrow> EINVAL, k1))"

definition sys_addrspace_create :: "kernel \<Rightarrow> u64 \<times> kernel" where
  "sys_addrspace_create = with_caller (\<lambda>caller k.
     let (r, k1) = on_mem (create_address_space caller) k
     in (case r of Inr space_id \<Rightarrow> space_id | Inl AsOutOfMemory \<Rightarrow> ENOMEM | Inl _ \<Rightarrow> EINVAL, k1))"

definition sys_addrspace_destroy :: "u64 \<Rightarrow> kernel \<Rightarrow> u64 \<times> kernel" where
  "sys_addrspace_destroy space_id = with_caller (\<lambda>caller k.
     let (r, k1) = on_mem (destroy_address_space space_id caller) k
     in (case r of
           Inr _ \<Rightarrow> ESUCCESS
         | Inl AsNotFound \<Rightarrow> EINVAL
         | Inl AsPermissionDenied \<Rightarrow> EPERM
         | Inl AsInUse \<Rightarrow> EBUSY
         | Inl _ \<Rightarrow> EINVAL, k1))"

text \<open>
  The three region calls look for a memory capability, log whether there is one, and go on
  in both cases.
\<close>

definition sys_map_region :: "u64 \<Rightarrow> u64 \<Rightarrow> u64 \<Rightarrow> u64 \<Rightarrow> u64 \<Rightarrow> kernel \<Rightarrow> u64 \<times> kernel" where
  "sys_map_region space_id virt_addr phys_addr sz flags_raw = with_caller (\<lambda>caller k.
     let flags = flags_raw OR (PG_PRESENT OR PG_USER);
         (r, k1) = on_mem (map_region space_id caller virt_addr phys_addr sz flags) k
     in (case r of
           Inr _ \<Rightarrow> ESUCCESS
         | Inl AsOutOfMemory \<Rightarrow> ENOMEM
         | Inl AsPermissionDenied \<Rightarrow> EPERM
         | Inl AsNotFound \<Rightarrow> EINVAL
         | Inl _ \<Rightarrow> EINVAL, k1))"

definition sys_unmap_region :: "u64 \<Rightarrow> u64 \<Rightarrow> u64 \<Rightarrow> kernel \<Rightarrow> u64 \<times> kernel" where
  "sys_unmap_region space_id virt_addr sz = with_caller (\<lambda>caller k.
     let (r, k1) = on_mem (unmap_region space_id caller virt_addr sz) k
     in (case r of
           Inr _ \<Rightarrow> ESUCCESS
         | Inl AsNotFound \<Rightarrow> EINVAL
         | Inl AsPermissionDenied \<Rightarrow> EPERM
         | Inl _ \<Rightarrow> EINVAL, k1))"

definition sys_remap_region :: "u64 \<Rightarrow> u64 \<Rightarrow> u64 \<Rightarrow> u64 \<Rightarrow> kernel \<Rightarrow> u64 \<times> kernel" where
  "sys_remap_region space_id old_virt new_virt sz = with_caller (\<lambda>caller k.
     let (r, k1) = on_mem (remap_region space_id caller old_virt new_virt sz) k
     in (case r of
           Inr _ \<Rightarrow> ESUCCESS
         | Inl AsNotFound \<Rightarrow> EINVAL
         | Inl AsPermissionDenied \<Rightarrow> EPERM
         | Inl AsKernelSpaceViolation \<Rightarrow> EPERM
         | Inl _ \<Rightarrow> EINVAL, k1))"

definition sys_register_fault_handler :: "u64 \<Rightarrow> kernel \<Rightarrow> u64 \<times> kernel" where
  "sys_register_fault_handler port_id = with_caller (\<lambda>caller k.
     let (r, k1) = register_page_fault_handler port_id caller k
     in (case r of
           Inr _ \<Rightarrow> ESUCCESS
         | Inl MpInvalidPort \<Rightarrow> EINVAL
         | Inl MpPermissionDenied \<Rightarrow> EPERM
         | Inl _ \<Rightarrow> EINVAL, k1))"

section \<open>Interrupt handlers and the framebuffer\<close>

definition ALLOWED_IRQS :: "u8 list" where "ALLOWED_IRQS = [1, 12]"

definition sys_register_irq_handler :: "u8 \<Rightarrow> u64 \<Rightarrow> kernel \<Rightarrow> u64 \<times> kernel" where
  "sys_register_irq_handler irq notification_port k =
     (if irq \<notin> set ALLOWED_IRQS then (EPERM, k)
      else with_caller (\<lambda>caller k.
        if bt_contains (k_irq_handlers k) irq then (EBUSY, k)
        else (ESUCCESS, k\<lparr>k_irq_handlers := bt_insert irq (caller, notification_port) (k_irq_handlers k)\<rparr>)) k)"

definition sys_unregister_irq_handler :: "u8 \<Rightarrow> kernel \<Rightarrow> u64 \<times> kernel" where
  "sys_unregister_irq_handler irq = with_caller (\<lambda>caller k.
     case bt_get (k_irq_handlers k) irq of
       Some (owner, _) \<Rightarrow>
         if owner \<noteq> caller then (EPERM, k)
         else (ESUCCESS, k\<lparr>k_irq_handlers := bt_remove irq (k_irq_handlers k)\<rparr>)
     | None \<Rightarrow> (EINVAL, k))"

definition sys_map_framebuffer_to_user :: "u64 \<Rightarrow> kernel \<Rightarrow> u64 \<times> kernel" where
  "sys_map_framebuffer_to_user user_buffer = with_caller (\<lambda>caller k.
     case with_framebuffer (\<lambda>fb. (fb_address fb, fb_width fb, fb_height fb, fb_stride fb, fb_bpp fb)) (k_graphics k) of
       None \<Rightarrow> (EINVAL, k)
     | Some (address, width, height, stride, bpp) \<Rightarrow>
         let size_bytes = ucast stride * ucast height * bpp
         in (ESUCCESS,
             if user_buffer \<noteq> 0
             then user_store user_buffer (quads [address, ucast width, ucast height, ucast stride, bpp, size_bytes]) k
             else k))"

definition sys_get_irq_count :: "u8 \<Rightarrow> kernel \<Rightarrow> u64 \<times> kernel" where
  "sys_get_irq_count irq = with_caller (\<lambda>caller k.
     case bt_get (k_irq_handlers k) irq of
       Some (owner, _) \<Rightarrow>
         if owner = caller then (case bt_get (k_irq_counts k) irq of Some n \<Rightarrow> n | None \<Rightarrow> 0, k) else (EPERM, k)
     | None \<Rightarrow> (EINVAL, k))"

section \<open>Waiting on several ports\<close>

fun wait_scan :: "thread_id \<Rightarrow> nat \<Rightarrow> port_id list \<Rightarrow> kernel \<Rightarrow> nat option \<times> kernel" where
  "wait_scan caller idx [] k = (None, k)"
| "wait_scan caller idx (port_id # rest) k =
     (case try_receive_message port_id caller k of
        (Inr (Some _), k1) \<Rightarrow> (Some idx, k1)
      | (_, k1) \<Rightarrow> wait_scan caller (Suc idx) rest k1)"

definition wait_round :: "u64 \<Rightarrow> thread_id \<Rightarrow> port_id list \<Rightarrow> u64 option \<Rightarrow> u64 \<Rightarrow> kernel \<Rightarrow> sys_out \<times> kernel" where
  "wait_round rip caller ports deadline timeout_ms k =
     (case wait_scan caller 0 ports k of
        (Some idx, k1) \<Rightarrow> (Ret (of_nat idx), k1)
      | (None, k1) \<Rightarrow>
          if (case deadline of Some deadline_tick \<Rightarrow> sys_ticks k1 \<ge> deadline_tick | None \<Rightarrow> False)
          then (Ret (if timeout_ms = 0 then EWOULDBLOCK else ETIMEDOUT), k1)
          else (Suspended (AfterWait caller ports deadline timeout_ms),
                drive_cooperative_tick rip (sys_set_state caller Blocked k1)))"

definition wait_deadline :: "u64 \<Rightarrow> kernel \<Rightarrow> u64 option" where
  "wait_deadline timeout_ms k =
     (if timeout_ms = u64_max then None
      else if timeout_ms = 0 then Some (sys_ticks k)
      else Some (sys_ticks k + (timeout_ms + 9) div 10))"

definition sys_ipc_wait_any :: "u64 \<Rightarrow> u64 \<Rightarrow> u64 \<Rightarrow> u64 \<Rightarrow> kernel \<Rightarrow> sys_out \<times> kernel" where
  "sys_ipc_wait_any rip ports_ptr count timeout_ms k =
     (if count = 0 \<or> count > 64 then (Ret EINVAL, k)
      else case current_thread k of
          None \<Rightarrow> (Ret EINVAL, k)
        | Some caller \<Rightarrow>
            let ports = map (\<lambda>i. of_le (read_bytes (ports_ptr + 8 * of_nat i) 8 (k_user k))) [0 ..< unat count]
            in wait_round rip caller ports (wait_deadline timeout_ms k) timeout_ms k)"

section \<open>The dispatcher\<close>

definition rust_syscall_dispatcher ::
  "u64 \<Rightarrow> u64 \<Rightarrow> u64 \<Rightarrow> u64 \<Rightarrow> u64 \<Rightarrow> u64 \<Rightarrow> u64 \<Rightarrow> u64 \<Rightarrow> kernel \<Rightarrow> sys_out \<times> kernel" where
  "rust_syscall_dispatcher rip num arg0 arg1 arg2 arg3 arg4 arg5 k =
     (if num = SYS_THREAD_YIELD then sys_thread_yield rip k
      else if num = SYS_THREAD_EXIT then sys_thread_exit rip arg0 k
      else if num = SYS_THREAD_SLEEP then sys_thread_sleep rip arg0 k
      else if num = SYS_THREAD_CREATE then ret (sys_thread_create arg0 arg1 arg2 k)
      else if num = SYS_IPC_CREATE_PORT then ret (sys_ipc_create_port k)
      else if num = SYS_IPC_CLOSE_PORT then ret (sys_ipc_close_port arg0 k)
      else if num = SYS_IPC_SEND then ret (sys_ipc_send arg0 arg1 arg2 arg3 k)
      else if num = SYS_IPC_RECV then sys_ipc_recv rip arg0 arg1 arg2 arg3 k
      else if num = SYS_CAP_CREATE then ret (sys_cap_create arg0 arg1 arg2 k)
      else if num = SYS_CAP_CHECK then ret (sys_cap_check arg0 arg1 k)
      else if num = SYS_CAP_REVOKE then ret (sys_cap_revoke arg0 k)
      else if num = SYS_CAP_DERIVE then ret (sys_cap_derive arg0 arg1 arg2 k)
      else if num = SYS_CAP_LIST then ret (sys_cap_list arg0 arg1 k)
      else if num = SYS_CAP_TRANSFER then ret (sys_cap_transfer arg0 arg1 k)
      else if num = SYS_IPC_SEND_WITH_CAP then ret (sys_ipc_send_with_cap arg0 arg1 arg2 arg3 arg4 k)
      else if num = SYS_CAP_QUERY_PARENT then ret (sys_cap_query_parent arg0 k)
      else if num = SYS_CAP_QUERY_CHILDREN then ret (sys_cap_query_children arg0 arg1 arg2 k)
      else if num = SYS_SHARED_REGION_CREATE then ret (sys_shared_region_create arg0 k)
      else if num = SYS_SHARED_REGION_MAP then ret (sys_shared_region_map arg0 arg1 arg2 k)
      else if num = SYS_SHARED_REGION_UNMAP then ret (sys_shared_region_unmap arg0 k)
      else if num = SYS_SHARED_REGION_DESTROY then ret (sys_shared_region_destroy arg0 k)
      else if num = SYS_IPC_SEND_BATCH then ret (sys_ipc_send_batch arg0 arg1 arg2 k)
      else if num = SYS_IPC_RECV_BATCH then ret (sys_ipc_recv_batch arg0 arg1 arg2 k)
      else if num = SYS_IPC_SEND_ASYNC then ret (sys_ipc_send_async arg0 arg1 arg2 arg3 k)
      else if num = SYS_IPC_TRY_RECV then ret (sys_ipc_try_recv arg0 arg1 arg2 k)
      else if num = SYS_IPC_TRACE_READ then ret (sys_ipc_trace_read arg0 arg1 k)
      else if num = SYS_IPC_PORT_STATS then ret (sys_ipc_port_stats arg0 arg1 k)
      else if num = SYS_ADDRSPACE_CREATE then ret (sys_addrspace_create k)
      else if num = SYS_ADDRSPACE_DESTROY then ret (sys_addrspace_destroy arg0 k)
      else if num = SYS_MAP_REGION then ret (sys_map_region arg0 arg1 arg2 arg3 arg4 k)
      else if num = SYS_UNMAP_REGION then ret (sys_unmap_region arg0 arg1 arg2 k)
      else if num = SYS_REMAP_REGION then ret (sys_remap_region arg0 arg1 arg2 arg3 k)
      else if num = SYS_REGISTER_FAULT_HANDLER then ret (sys_register_fault_handler arg0 k)
      else if num = SYS_MOUSE_POLL then ret (sys_mouse_poll k)
      else if num = SYS_IO_PORT_READ then ret (sys_io_port_read (ucast arg0) (ucast arg1) k)
      else if num = SYS_IO_PORT_WRITE then ret (sys_io_port_write (ucast arg0) (ucast arg1) k)
      else if num = SYS_KEYBOARD_POLL then ret (sys_keyboard_poll k)
      else if num = SYS_GET_FRAMEBUFFER then ret (sys_get_framebuffer arg0 k)
      else if num = SYS_GET_TICKS then ret (sys_get_ticks k)
      else if num = SYS_DEBUG_LOG then ret (sys_debug_log arg0 arg1 k)
      else if num = SYS_REGISTER_IRQ_HANDLER then ret (sys_register_irq_handler (ucast arg0) arg1 k)
      else if num = SYS_MAP_FRAMEBUFFER then ret (sys_map_framebuffer_to_user arg0 k)
      else if num = SYS_UNREGISTER_IRQ_HANDLER then ret (sys_unregister_irq_handler (ucast arg0) k)
      else if num = SYS_IPC_WAIT_ANY then sys_ipc_wait_any rip arg0 arg1 arg2 k
      else if num = SYS_GET_IRQ_COUNT then ret (sys_get_irq_count (ucast arg0) k)
      else (Ret ENOSYS, k))"

text \<open>What a suspended call does once its thread has been switched to again.\<close>

fun resume_syscall :: "u64 \<Rightarrow> sys_cont \<Rightarrow> kernel \<Rightarrow> sys_out \<times> kernel" where
  "resume_syscall rip AfterYield k = (Ret ESUCCESS, k)"
| "resume_syscall rip AfterExit k = (Ret ESUCCESS, k)"
| "resume_syscall rip AfterSleep k = (Ret ESUCCESS, k)"
| "resume_syscall rip (AfterRecv caller port_id buffer_ptr buffer_size) k =
     ret (recv_after_block caller port_id buffer_ptr buffer_size k)"
| "resume_syscall rip (AfterWait caller ports deadline timeout_ms) k =
     wait_round rip caller ports deadline timeout_ms (sys_set_state caller Ready k)"

end
