(* ===== verification/Interrupts.thy ===== *)
theory Interrupts
  imports Syscalls
begin

text \<open>
  The interrupt and exception handlers of \<^verbatim>\<open>kernel/src/interrupts/handlers.rs\<close> and the
  acknowledgement and timer programming of \<^verbatim>\<open>apic.rs\<close>, on the kernel state.
\<close>

section \<open>Frames\<close>

record interrupt_stack_frame =
  isf_instruction_pointer :: u64
  isf_code_segment :: u64
  isf_cpu_flags :: u64
  isf_stack_pointer :: u64
  isf_stack_segment :: u64

text \<open>The registers the stubs push are only logged; the handler reads these fields.\<close>

record interrupt_frame =
  if_exception_number :: u64
  if_error_code :: u64
  if_rip :: u64
  if_cs :: u64
  if_rflags :: u64
  if_rsp :: u64
  if_ss :: u64

abbreviation EXCEPTION_COUNT :: nat where "EXCEPTION_COUNT \<equiv> 32"

section \<open>The interrupt controllers\<close>

abbreviation PIC1_CMD :: u16 where "PIC1_CMD \<equiv> 0x20"
abbreviation PIC1_DATA :: u16 where "PIC1_DATA \<equiv> 0x21"
abbreviation PIC2_CMD :: u16 where "PIC2_CMD \<equiv> 0xA0"
abbreviation PIC2_DATA :: u16 where "PIC2_DATA \<equiv> 0xA1"

definition outb :: "u16 \<Rightarrow> u8 \<Rightarrow> kernel \<Rightarrow> kernel" where
  "outb port v k = k\<lparr>k_outb := (port, v) # k_outb k\<rparr>"

definition io_wait :: "kernel \<Rightarrow> kernel" where
  "io_wait = outb 0x80 0"

abbreviation APIC_TPR :: u32 where "APIC_TPR \<equiv> 0x80"
abbreviation APIC_EOI :: u32 where "APIC_EOI \<equiv> 0xB0"
abbreviation APIC_SPURIOUS :: u32 where "APIC_SPURIOUS \<equiv> 0xF0"
abbreviation APIC_LVT_TIMER :: u32 where "APIC_LVT_TIMER \<equiv> 0x320"
abbreviation APIC_TIMER_INIT :: u32 where "APIC_TIMER_INIT \<equiv> 0x380"
abbreviation APIC_TIMER_DIV :: u32 where "APIC_TIMER_DIV \<equiv> 0x3E0"
abbreviation APIC_SW_ENABLE :: u32 where "APIC_SW_ENABLE \<equiv> 0x100"
abbreviation TIMER_MODE_PERIODIC :: u32 where "TIMER_MODE_PERIODIC \<equiv> 0x20000"

definition TIMER_INTERRUPT_VECTOR :: u8 where "TIMER_INTERRUPT_VECTOR = 32"
definition KEYBOARD_INTERRUPT_VECTOR :: u8 where "KEYBOARD_INTERRUPT_VECTOR = 33"
definition MOUSE_INTERRUPT_VECTOR :: u8 where "MOUSE_INTERRUPT_VECTOR = 44"
definition USER_TRAP_INTERRUPT_VECTOR :: u8 where "USER_TRAP_INTERRUPT_VECTOR = 0x68"

definition apic_write :: "u32 \<Rightarrow> u32 \<Rightarrow> kernel \<Rightarrow> kernel" where
  "apic_write offset v k = k\<lparr>k_apic_writes := (offset, v) # k_apic_writes k\<rparr>"

definition ioapic_write :: "u32 \<Rightarrow> u32 \<Rightarrow> kernel \<Rightarrow> kernel" where
  "ioapic_write index v k = k\<lparr>k_ioapic_writes := (index, v) # k_ioapic_writes k\<rparr>"

text \<open>\<open>spurious\<close> is the content of the spurious vector register.\<close>

definition enable_apic :: "u32 \<Rightarrow> kernel \<Rightarrow> kernel" where
  "enable_apic spurious k = apic_write APIC_TPR 0 (apic_write APIC_SPURIOUS (spurious OR APIC_SW_ENABLE OR 0xFF) k)"

definition send_pic_eoi :: "kernel \<Rightarrow> kernel" where
  "send_pic_eoi = outb PIC1_CMD 0x20"

definition send_eoi :: "kernel \<Rightarrow> kernel" where
  "send_eoi k =
     (if k_apic_enabled k then apic_write APIC_EOI 0 k
      else if k_pic_active k then send_pic_eoi k else k)"

definition pic_remap :: "u8 \<Rightarrow> u8 \<Rightarrow> kernel \<Rightarrow> kernel" where
  "pic_remap offset1 offset2 k =
     fold (\<lambda>(port, v) k. io_wait (outb port v k))
       [(PIC1_CMD, 0x10 OR 0x01), (PIC2_CMD, 0x10 OR 0x01), (PIC1_DATA, offset1), (PIC2_DATA, offset2),
        (PIC1_DATA, 4), (PIC2_DATA, 2), (PIC1_DATA, 0x01), (PIC2_DATA, 0x01)] k"

definition disable_legacy_pic :: "kernel \<Rightarrow> kernel" where
  "disable_legacy_pic k =
     (outb PIC2_DATA 0xFF (outb PIC1_DATA 0xFF (pic_remap 0x20 0x28 k)))\<lparr>k_pic_active := False\<rparr>"

definition init_pic :: "bool \<Rightarrow> kernel \<Rightarrow> kernel" where
  "init_pic enable_timer_irq k =
     (let mask1 = (if enable_timer_irq then 0xFF AND NOT 0x01 else 0xFF)
      in (outb PIC2_DATA 0xFF (outb PIC1_DATA mask1 (pic_remap 32 40 k)))\<lparr>k_pic_active := True\<rparr>)"

text \<open>
  Controller initialisation, for the answers of \<^verbatim>\<open>cpuid\<close> (\<open>supported\<close>) and of the APIC base
  register (\<open>base_msr\<close>).
\<close>

definition apic_init :: "bool \<Rightarrow> u64 \<Rightarrow> u32 \<Rightarrow> kernel \<Rightarrow> kernel" where
  "apic_init supported base_msr spurious k =
     (if \<not> supported then init_pic True k
      else
        let k1 = (enable_apic spurious (k\<lparr>k_apic_base := base_msr AND 0xFFFFFF000\<rparr>))\<lparr>k_apic_enabled := True\<rparr>;
            k2 = io_wait (io_wait (outb 0x22 0x70 k1));
            k3 = io_wait (outb 0x23 (k_inb k 0x23 OR 0x01) k2);
            k4 = fold (\<lambda>(i, v). ioapic_write i v)
                   [(0x12, ucast KEYBOARD_INTERRUPT_VECTOR), (0x13, 0), (0x28, ucast MOUSE_INTERRUPT_VECTOR), (0x29, 0),
                    (0x14, 0x00010000), (0x15, 0)] k3
        in disable_legacy_pic k4)"

definition init_apic_timer :: "kernel \<Rightarrow> kernel" where
  "init_apic_timer k =
     apic_write APIC_TIMER_INIT 10000000
       (apic_write APIC_LVT_TIMER (ucast TIMER_INTERRUPT_VECTOR OR TIMER_MODE_PERIODIC) (apic_write APIC_TIMER_DIV 0x3 k))"

definition pit_divisor :: "u32 \<Rightarrow> u32" where
  "pit_divisor frequency_hz = 1193182 div max frequency_hz 1"

definition init_pit_timer :: "u32 \<Rightarrow> kernel \<Rightarrow> kernel" where
  "init_pit_timer frequency_hz k =
     (let divisor = pit_divisor frequency_hz
      in outb 0x40 (ucast (drop_bit 8 divisor)) (outb 0x40 (ucast (divisor AND 0xFF)) (outb 0x43 0x36 k)))"

definition init_timer :: "u32 \<Rightarrow> kernel \<Rightarrow> kernel" where
  "init_timer frequency_hz k = (if k_apic_enabled k then init_apic_timer k else init_pit_timer frequency_hz k)"

section \<open>Handlers\<close>

definition rust_unexpected_interrupt_handler :: "u64 \<Rightarrow> interrupt_stack_frame \<Rightarrow> kernel \<Rightarrow> kernel" where
  "rust_unexpected_interrupt_handler vector frame k =
     (if vector > 255 then send_eoi k else if vector = 0xFF then send_eoi k else send_eoi k)"

text \<open>
  The exception handler never returns: the result is the state in which the processor
  halts. \<open>cr2\<close> is the control register with the faulting address.
\<close>

definition rust_exception_handler :: "u64 \<Rightarrow> interrupt_frame \<Rightarrow> kernel \<Rightarrow> kernel" where
  "rust_exception_handler cr2 frame k =
     (if unat (if_exception_number frame) \<ge> EXCEPTION_COUNT then k
      else if if_exception_number frame = 14 \<and> if_error_code frame AND 0x4 \<noteq> 0 then
        (case current_thread k of
           Some tid \<Rightarrow> snd (notify_page_fault tid cr2 (if_error_code frame) (if_rip frame) k)
         | None \<Rightarrow> k)
      else k)"

definition coming_from_user :: "interrupt_stack_frame \<Rightarrow> bool" where
  "coming_from_user frame \<longleftrightarrow> isf_code_segment frame AND 0x3 = 0x3"

definition timer_interrupt_handler :: "interrupt_stack_frame \<Rightarrow> kernel \<Rightarrow> kernel" where
  "timer_interrupt_handler frame k =
     (let k1 = (if coming_from_user frame \<and> \<not> k_user_interrupted k then k\<lparr>k_user_interrupted := True\<rparr> else k);
          k2 = k1\<lparr>sys_ticks := sys_ticks k1 + 1\<rparr>;
          k3 = handle_timeouts (sys_ticks k2) k2
      in send_eoi k3)"

text \<open>The controller \<open>d\<close> is read as in the loops of the input handlers, with their fuel.\<close>

definition keyboard_interrupt_handler ::
  "('d \<Rightarrow> u8 \<times> 'd) \<Rightarrow> ('d \<Rightarrow> u8 \<times> 'd) \<Rightarrow> nat \<Rightarrow> 'd \<times> kernel \<Rightarrow> ('d \<times> kernel) option" where
  "keyboard_interrupt_handler status data n = (\<lambda>(d, k).
     map_option (\<lambda>(d', inp).
       let k1 = k\<lparr>k_input := inp\<rparr>;
           k2 = (if has_userspace_irq_handler 1 k1 then notify_irq_handler 1 k1 else k1)
       in (d', send_eoi k2)) (on_keyboard_irq status data n (d, k_input k)))"

definition mouse_interrupt_handler ::
  "('d \<Rightarrow> u8 \<times> 'd) \<Rightarrow> ('d \<Rightarrow> u8 \<times> 'd) \<Rightarrow> nat \<Rightarrow> 'd \<times> kernel \<Rightarrow> ('d \<times> kernel) option" where
  "mouse_interrupt_handler status data n = (\<lambda>(d, k).
     map_option (\<lambda>(d', inp).
       let k1 = k\<lparr>k_input := inp\<rparr>;
           k2 = (if has_userspace_irq_handler 12 k1 then notify_irq_handler 12 k1 else k1)
       in (d', send_eoi k2)) (on_mouse_irq status data n (d, k_input k)))"

definition user_trap_interrupt_handler :: "interrupt_stack_frame \<Rightarrow> kernel \<Rightarrow> kernel" where
  "user_trap_interrupt_handler frame k = send_eoi k"

end
