(* ===== verification/Kernel_Inv.thy ===== *)
theory Kernel_Inv
  imports Interrupts Data_Pages
begin

text \<open>
  One invariant for the whole kernel: the invariants of the capability manager, the
  scheduler, the ports and the memory managers hold together in every state that system
  calls, their resumptions and interrupts reach. Each component's operations touch its own
  part of the state; the frame lemmas below say so, and the component invariants depend on
  nothing else.
\<close>

section \<open>What each invariant depends on\<close>

definition cap_core :: "'a cap_sys_scheme \<Rightarrow> (cap_handle, capability) btree \<times> audit_log_entry list \<times> u64
    \<times> (thread_id \<Rightarrow> cap_handle \<Rightarrow> capability option)" where
  "cap_core s = (cm_global s, cm_audit s, cm_next_handle s, held_cap s)"

definition thread_view :: "thread_list \<Rightarrow> (thread_id \<times> thread_state) list" where
  "thread_view ts = map (\<lambda>t. (t_id t, t_state t)) ts"

definition sched_core :: "'a sched_sys_scheme \<Rightarrow> ready_queues \<times> (thread_id, thread_priority) btree
    \<times> (thread_id, thread_priority) btree \<times> thread_id option \<times> thread_id option \<times> bool
    \<times> (thread_id \<times> thread_state) list" where
  "sched_core s = (sc_ready s, sc_base s, sc_effective s, sc_current s, sc_idle s, sc_initialized s,
     thread_view (sys_threads s))"

definition ipc_core :: "'a ipc_sys_scheme \<Rightarrow> (port_id, port_state) btree \<times> (thread_id, waiter_info) btree
    \<times> ipc_trace_buffer \<times> u64" where
  "ipc_core s = (ipc_ports s, ipc_waiting s, ipc_trace s, ipc_next_port s)"

definition tid_core :: "'a thread_sys_scheme \<Rightarrow> u64 \<times> thread_id list" where
  "tid_core s = (sys_next_tid s, map t_id (sys_threads s))"

lemma cap_inv_core: "cap_core s' = cap_core s \<Longrightarrow> cap_inv s \<Longrightarrow> cap_inv s'"
  by (simp add: cap_core_def cap_inv_def)

lemma find_tcb_view:
  "map_option t_state (find_tcb i ts) = map_of (thread_view ts) i"
  by (induction ts) (auto simp: find_tcb_def thread_view_def)

lemma one_running_view: "one_running ts cur \<longleftrightarrow> (\<forall>i. map_of (thread_view ts) i = Some Running \<longrightarrow> cur = Some i)"
  unfolding one_running_def find_tcb_view [symmetric] by auto

lemma sched_inv_core: "sched_core s' = sched_core s \<Longrightarrow> sched_inv s \<Longrightarrow> sched_inv s'"
  by (simp add: sched_core_def sched_inv_def one_running_view get_priority_def get_base_priority_def)

lemma ipc_inv_core: "ipc_core s' = ipc_core s \<Longrightarrow> ipc_inv s \<Longrightarrow> ipc_inv s'"
  by (simp add: ipc_core_def ipc_inv_def)

lemma threads_ok_ids: "threads_ok n ts \<longleftrightarrow> distinct (map t_id ts) \<and> (\<forall>i \<in> set (map t_id ts). i < n)"
  by (auto simp: threads_ok_def)

section \<open>Frames of the layers\<close>

text \<open>Capability operations keep thread identities and states and everything above the manager.\<close>

definition cap_frame :: "'a cap_sys_scheme \<Rightarrow> 'a cap_sys_scheme \<Rightarrow> bool" where
  "cap_frame s s' \<longleftrightarrow> cap_sys.more s' = cap_sys.more s \<and> thread_view (sys_threads s') = thread_view (sys_threads s)
     \<and> sys_next_tid s' = sys_next_tid s \<and> sys_ticks s' = sys_ticks s"

lemma cap_frame_refl [simp]: "cap_frame s s"
  by (simp add: cap_frame_def)

lemma cap_frame_trans: "cap_frame s s1 \<Longrightarrow> cap_frame s1 s2 \<Longrightarrow> cap_frame s s2"
  by (simp add: cap_frame_def)

lemma cap_frame_fields [simp]:
  "cap_frame s (s1\<lparr>cm_global := g\<rparr>) = cap_frame s s1" "cap_frame s (s1\<lparr>cm_next_handle := n\<rparr>) = cap_frame s s1"
  "cap_frame s (s1\<lparr>cm_audit := a\<rparr>) = cap_frame s s1"
  by (simp_all add: cap_frame_def)

lemma thread_view_update: "(\<And>t. t_id (f t) = t_id t \<and> t_state (f t) = t_state t) \<Longrightarrow> thread_view (update_tcb i f ts) = thread_view ts"
  by (simp add: thread_view_def update_tcb_def map_update_first)

lemma cap_frame_log [simp]: "cap_frame s (log_audit e s1) = cap_frame s s1"
  by (simp add: log_audit_def Let_def)

lemma cap_frame_add: "cap_frame s s1 \<Longrightarrow> cap_frame s (snd (sys_add_cap i cap s1))"
  by (auto simp: cap_frame_def sys_add_cap_def add_thread_capability_def thread_view_update split: prod.split option.split)

lemma cap_frame_remove: "cap_frame s s1 \<Longrightarrow> cap_frame s (snd (sys_remove_cap i h s1))"
  by (auto simp: cap_frame_def sys_remove_cap_def remove_thread_capability_def thread_view_update split: prod.split option.split)

lemma cap_frame_create: "cap_frame s (snd (create_root_capability res owner perms s))"
  by (auto simp: create_root_capability_def capability_new_root_def cap_register_def Let_def split: prod.split)

lemma cap_frame_transfer: "cap_frame s (snd (transfer_capability h source target s))"
proof -
  obtain x s1 where r: "sys_remove_cap source h s = (x, s1)" by fastforce
  have f1: "cap_frame s s1" using cap_frame_remove [of s s source h] r by simp
  have f2: "cap_frame s (snd (sys_add_cap j c s1))" for j c by (rule cap_frame_add [OF f1])
  have f3: "sys_add_cap j c s1 = (y, s2) \<Longrightarrow> cap_frame s s2" for j c y s2 using f2 [of j c] by simp
  show ?thesis using r f1 f2
    by (auto simp: transfer_capability_def Let_def dest: f3 split: option.split prod.split sum.split)
qed

lemma cap_frame_derive: "cap_frame s (snd (derive_capability ph owner new_owner perms s))"
proof -
  have f: "sys_add_cap j c (s\<lparr>cm_next_handle := n, cm_global := g\<rparr>) = (y, s2) \<Longrightarrow> cap_frame s s2" for j c n g y s2
    using cap_frame_add [of s "s\<lparr>cm_next_handle := n, cm_global := g\<rparr>" j c] by simp
  show ?thesis
    by (auto simp: derive_capability_def Let_def dest: f split: option.split prod.split sum.split)
qed

lemma cap_frame_revoke:
  "cap_frame s (snd (revoke h r s))" "cap_frame s (snd (revoke_children cs r s))"
proof (induction h r s and cs r s rule: revoke_revoke_children.induct)
  case (1 h r s)
  have f: "cap_frame s (revoke_one cap h r s)" for cap
    using cap_frame_remove [of s "s\<lparr>cm_global := bt_remove h (cm_global s)\<rparr>"] by (simp add: revoke_one_def Let_def)
  from 1 show ?case by (auto simp: revoke.simps intro: cap_frame_trans [OF f] split: option.split prod.splits)
next
  case (3 c cs r s)
  obtain x s1 where r: "revoke c r s = (x, s1)" by fastforce
  with 3(1) 3(2) [OF r [symmetric] refl] cap_frame_trans show ?case
    by (auto simp: split: prod.splits)
qed simp

text \<open>Scheduler operations keep capabilities, thread identities and everything above the scheduler.\<close>

definition sched_frame :: "'a sched_sys_scheme \<Rightarrow> 'a sched_sys_scheme \<Rightarrow> bool" where
  "sched_frame s s' \<longleftrightarrow> sched_sys.more s' = sched_sys.more s \<and> cap_core s' = cap_core s \<and> tid_core s' = tid_core s
     \<and> sys_ticks s' = sys_ticks s"

lemma sched_frame_refl [simp]: "sched_frame s s"
  by (simp add: sched_frame_def)

lemma sched_frame_trans: "sched_frame s s1 \<Longrightarrow> sched_frame s1 s2 \<Longrightarrow> sched_frame s s2"
  by (simp add: sched_frame_def)

lemma sched_frame_fields [simp]:
  "sched_frame s (s1\<lparr>sc_ready := q\<rparr>) = sched_frame s s1" "sched_frame s (s1\<lparr>sc_current := c\<rparr>) = sched_frame s s1"
  "sched_frame s (s1\<lparr>sc_effective := e\<rparr>) = sched_frame s s1" "sched_frame s (s1\<lparr>sc_cpu := u\<rparr>) = sched_frame s s1"
  "sched_frame s (s1\<lparr>sc_rsp0 := r\<rparr>) = sched_frame s s1" "sched_frame s (s1\<lparr>sc_user_entries := x\<rparr>) = sched_frame s s1"
  by (simp_all add: sched_frame_def cap_core_def tid_core_def held_cap_def [abs_def])

lemma sched_frame_threads:
  assumes "sched_frame s s1" and "map t_id ts = map t_id (sys_threads s1)" and "thread_cap ts = thread_cap (sys_threads s1)"
  shows "sched_frame s (s1\<lparr>sys_threads := ts\<rparr>)"
  using assms by (simp add: sched_frame_def cap_core_def tid_core_def held_cap_def [abs_def] fun_eq_iff)

lemma thread_cap_set_state: "thread_cap (snd (set_thread_state i st ts)) = thread_cap ts"
  by (auto simp: fun_eq_iff thread_cap_def split: option.split)

lemma sched_frame_set_state: "sched_frame s s1 \<Longrightarrow> sched_frame s (sys_set_state i st s1)"
  unfolding sys_set_state_def
  by (rule sched_frame_threads) (simp_all add: thread_cap_set_state ids_set_state)

lemma thread_cap_strip: "map strip_context ts' = map strip_context ts \<Longrightarrow> thread_cap ts' = thread_cap ts"
proof -
  assume a: "map strip_context ts' = map strip_context ts"
  have "map_option t_caps (find_tcb i ts') = map_option t_caps (find_tcb i ts)" for i
  proof -
    have "map_option t_caps (map_option strip_context (find_tcb i us)) = map_option t_caps (find_tcb i us)" for us
      by (cases "find_tcb i us") (simp_all add: strip_context_def)
    then show ?thesis using a by (metis find_tcb_strip)
  qed
  then have caps: "Option.bind (map_option t_caps (find_tcb i ts')) f = Option.bind (map_option t_caps (find_tcb i ts)) f"
    for i and f :: "cap_table \<Rightarrow> capability option" by (rule arg_cong)
  have "thread_cap us i h = Option.bind (map_option t_caps (find_tcb i us)) (\<lambda>tab. cap_table_get tab h)" for us i h
    by (cases "find_tcb i us") (simp_all add: thread_cap_def)
  with caps show ?thesis by (simp add: fun_eq_iff)
qed

lemma ids_strip: "map strip_context ts' = map strip_context ts \<Longrightarrow> map t_id ts' = map t_id ts"
proof -
  have "t_id \<circ> strip_context = t_id" by (auto simp: strip_context_def)
  then show "map strip_context ts' = map strip_context ts \<Longrightarrow> map t_id ts' = map t_id ts" by (metis map_map)
qed

lemma perform_switch_rest:
  "sched_sys.more (perform_context_switch rip a b s) = sched_sys.more s
   \<and> cm_global (perform_context_switch rip a b s) = cm_global s \<and> cm_audit (perform_context_switch rip a b s) = cm_audit s
   \<and> cm_next_handle (perform_context_switch rip a b s) = cm_next_handle s
   \<and> sys_next_tid (perform_context_switch rip a b s) = sys_next_tid s
   \<and> sys_ticks (perform_context_switch rip a b s) = sys_ticks s"
  by (simp add: perform_context_switch_def Let_def set_rsp0_def split: prod.split option.split)

lemma sched_frame_perform: "sched_frame s s1 \<Longrightarrow> sched_frame s (perform_context_switch rip a b s1)"
proof -
  assume f: "sched_frame s s1"
  let ?s = "perform_context_switch rip a b s1"
  have strip: "map strip_context (sys_threads ?s) = map strip_context (sys_threads s1)"
    using perform_switch_frame [of rip a b s1] by blast
  have "held_cap ?s = held_cap s1" by (simp add: held_cap_def [abs_def] thread_cap_strip [OF strip])
  with perform_switch_rest [of rip a b s1] ids_strip [OF strip] have "sched_frame s1 ?s"
    by (simp add: sched_frame_def cap_core_def tid_core_def)
  with f show ?thesis by (rule sched_frame_trans)
qed

lemma sched_frame_mark_ready: "sched_frame s s1 \<Longrightarrow> sched_frame s (mark_thread_ready i s1)"
  by (simp add: mark_thread_ready_def Let_def sched_frame_set_state)

lemma sched_frame_restore: "sched_frame s s1 \<Longrightarrow> sched_frame s (restore_original_priority i s1)"
  by (simp add: restore_original_priority_def)

lemma sched_frame_switch: "sched_frame s s1 \<Longrightarrow> sched_frame s (snd (apply_switch_with_previous prv nxt s1))"
  by (auto simp: apply_switch_with_previous_def Let_def sched_frame_set_state split: option.split)

lemma sched_frame_tick: "sched_frame s (snd (on_timer_tick s))"
proof -
  have f: "apply_switch_with_previous prv nxt s1 = (x, s2) \<Longrightarrow> sched_frame s s1 \<Longrightarrow> sched_frame s s2" for prv nxt s1 x s2
    by (metis sched_frame_switch snd_conv)
  show ?thesis unfolding on_timer_tick_def Let_def
    by (auto dest!: f split: prod.split option.split)
qed

lemma sched_frame_drive: "sched_frame s s1 \<Longrightarrow> sched_frame s (drive_cooperative_tick rip s1)"
proof -
  assume f: "sched_frame s s1"
  have t: "sched_frame s (snd (on_timer_tick s1))" by (rule sched_frame_trans [OF f sched_frame_tick])
  then have t': "on_timer_tick s1 = (x, s2) \<Longrightarrow> sched_frame s s2" for x s2 by (metis snd_conv)
  show ?thesis by (auto simp: drive_cooperative_tick_def dest: t' intro: sched_frame_perform split: prod.split option.split)
qed

text \<open>Port operations keep everything below and above the ports.\<close>

definition ipc_frame :: "'a ipc_sys_scheme \<Rightarrow> 'a ipc_sys_scheme \<Rightarrow> bool" where
  "ipc_frame s s' \<longleftrightarrow> sched_sys.truncate s' = sched_sys.truncate s \<and> ipc_sys.more s' = ipc_sys.more s"

lemma ipc_frame_refl [simp]: "ipc_frame s s"
  by (simp add: ipc_frame_def)

lemma ipc_frame_trans: "ipc_frame s s1 \<Longrightarrow> ipc_frame s1 s2 \<Longrightarrow> ipc_frame s s2"
  by (simp add: ipc_frame_def)

lemma ipc_frame_fields [simp]:
  "ipc_frame s (s1\<lparr>ipc_ports := p\<rparr>) = ipc_frame s s1" "ipc_frame s (s1\<lparr>ipc_waiting := w\<rparr>) = ipc_frame s s1"
  "ipc_frame s (s1\<lparr>ipc_next_port := n\<rparr>) = ipc_frame s s1" "ipc_frame s (s1\<lparr>ipc_trace := t\<rparr>) = ipc_frame s s1"
  by (simp_all add: ipc_frame_def sched_sys.truncate_def)

lemma ipc_frame_port [simp]: "ipc_frame s (ipc_set_port i p s1) = ipc_frame s s1"
  by (simp add: ipc_set_port_def)

lemma ipc_frame_trace [simp]: "ipc_frame s (record_trace_event ev s1) = ipc_frame s s1"
  by (simp add: record_trace_event_def)

lemma ipc_frame_ops:
  "ipc_frame s (snd (create_port owner s))" "ipc_frame s (snd (close_port i caller s))"
  "ipc_frame s (snd (ipc_send rs i m s))" "ipc_frame s (snd (ipc_try_recv rs i caller s))"
  "ipc_frame s (snd (ipc_block_recv i caller prio d s))"
  by (simp_all add: create_port_def close_port_def ipc_send_def ipc_try_recv_def ipc_block_recv_def Let_def
      split: option.split sum.split list.split)

lemma ipc_frame_recv_loop: "ipc_frame s0 s \<Longrightarrow> ipc_frame s0 (snd (snd (recv_loop rs i caller n p s)))"
proof (induction rs i caller n p s rule: recv_loop.induct)
  case (2 rs i caller n p s)
  show ?case
  proof (cases "p_messages p")
    case (Cons m rest)
    show ?thesis
    proof (cases "validate_payload_and_size rs m")
      case (Inr sz)
      from 2(1) [OF Cons refl refl Inr] 2(2) Cons Inr show ?thesis by (simp add: Let_def case_prod_beta)
    qed (use 2(2) Cons in simp)
  qed (use 2(2) in simp)
qed simp

lemma ipc_frame_recv_batch: "ipc_frame s (snd (ipc_recv_batch rs i caller n s))"
  using ipc_frame_recv_loop [of s s rs i caller "min n MAX_BATCH_SIZE"]
  by (auto simp: ipc_recv_batch_def Let_def split: option.split prod.split) (metis snd_conv)

lemma ipc_frame_enqueue: "ipc_frame s0 s \<Longrightarrow> ipc_frame s0 (snd (enqueue_batch i prep (p, s)))"
  by (induction prep arbitrary: p s) auto

section \<open>The kernel invariant\<close>

definition mem_inv :: "shm_sys \<Rightarrow> bool" where
  "mem_inv m \<longleftrightarrow> (\<exists>R D. shm_inv R D m)"

definition dev_inv :: "(u8, thread_id \<times> u64) btree \<Rightarrow> input_state \<Rightarrow> bool" where
  "dev_inv handlers inp \<longleftrightarrow> bt_wf handlers \<and> set (bt_keys handlers) \<subseteq> set ALLOWED_IRQS
     \<and> rb_ok KEYBOARD_BUFFER_SIZE (in_keyboard inp) \<and> rb_ok MOUSE_BUFFER_SIZE (in_mouse inp)"

definition kernel_inv :: "kernel \<Rightarrow> bool" where
  "kernel_inv k \<longleftrightarrow> cap_inv k \<and> sched_inv k \<and> ipc_inv k \<and> threads_ok (sys_next_tid k) (sys_threads k)
     \<and> mem_inv (k_mem k) \<and> dev_inv (k_irq_handlers k) (k_input k)"

lemma kernel_more:
  "ipc_sys.more k' = ipc_sys.more k \<Longrightarrow> k_mem k' = k_mem k \<and> k_irq_handlers k' = k_irq_handlers k \<and> k_input k' = k_input k"
  for k k' :: kernel
  by (cases k; cases k') simp

lemma cap_frame_more:
  assumes "cap_frame k k'"
  shows "sched_core k' = sched_core k" "ipc_core k' = ipc_core k" "tid_core k' = tid_core k" "ipc_sys.more k' = ipc_sys.more k"
proof -
  have m: "cap_sys.more k' = cap_sys.more k" and v: "thread_view (sys_threads k') = thread_view (sys_threads k)"
    and n: "sys_next_tid k' = sys_next_tid k" using assms by (simp_all add: cap_frame_def)
  have "map fst (thread_view ts) = map t_id ts" for ts by (simp add: thread_view_def)
  with v n show "tid_core k' = tid_core k" by (metis tid_core_def)
  from m v show "sched_core k' = sched_core k" "ipc_core k' = ipc_core k" "ipc_sys.more k' = ipc_sys.more k"
    by (cases k; cases k'; simp add: sched_core_def ipc_core_def)+
qed

lemma sched_frame_more:
  assumes "sched_frame k k'"
  shows "cap_core k' = cap_core k" "ipc_core k' = ipc_core k" "tid_core k' = tid_core k" "ipc_sys.more k' = ipc_sys.more k"
proof -
  have m: "sched_sys.more k' = sched_sys.more k" using assms by (simp add: sched_frame_def)
  then show "ipc_core k' = ipc_core k" "ipc_sys.more k' = ipc_sys.more k"
    by (cases k; cases k'; simp add: ipc_core_def)+
qed (use assms in \<open>simp_all add: sched_frame_def\<close>)

lemma ipc_frame_more:
  assumes "ipc_frame k k'"
  shows "cap_core k' = cap_core k" "sched_core k' = sched_core k" "tid_core k' = tid_core k" "ipc_sys.more k' = ipc_sys.more k"
proof -
  have t: "sched_sys.truncate k' = sched_sys.truncate k" using assms by (simp add: ipc_frame_def)
  then show "cap_core k' = cap_core k" "sched_core k' = sched_core k" "tid_core k' = tid_core k"
    by (simp_all add: sched_sys.truncate_def cap_core_def sched_core_def tid_core_def held_cap_def [abs_def])
qed (use assms in \<open>simp add: ipc_frame_def\<close>)

lemma threads_ok_core: "tid_core s' = tid_core s \<Longrightarrow> threads_ok (sys_next_tid s) (sys_threads s) \<Longrightarrow> threads_ok (sys_next_tid s') (sys_threads s')"
  by (simp add: tid_core_def threads_ok_ids del: set_map)

lemma kernel_inv_cap: "kernel_inv k \<Longrightarrow> cap_frame k k' \<Longrightarrow> cap_inv k' \<Longrightarrow> kernel_inv k'"
  using cap_frame_more [of k k'] kernel_more [of k' k]
  by (simp add: kernel_inv_def sched_inv_core ipc_inv_core threads_ok_core)

lemma kernel_inv_sched: "kernel_inv k \<Longrightarrow> sched_frame k k' \<Longrightarrow> sched_inv k' \<Longrightarrow> kernel_inv k'"
  using sched_frame_more [of k k'] kernel_more [of k' k]
  by (simp add: kernel_inv_def cap_inv_core ipc_inv_core threads_ok_core)

lemma kernel_inv_ipc: "kernel_inv k \<Longrightarrow> ipc_frame k k' \<Longrightarrow> ipc_inv k' \<Longrightarrow> kernel_inv k'"
  using ipc_frame_more [of k k'] kernel_more [of k' k]
  by (simp add: kernel_inv_def sched_inv_core cap_inv_core threads_ok_core)

lemma kernel_inv_parts:
  assumes "kernel_inv k"
  shows "cap_inv k" "sched_inv k" "ipc_inv k" "threads_ok (sys_next_tid k) (sys_threads k)" "mem_inv (k_mem k)"
    "dev_inv (k_irq_handlers k) (k_input k)"
  using assms by (simp_all add: kernel_inv_def)

lemma kernel_inv_fields [simp]:
  "kernel_inv (k\<lparr>k_user := x1\<rparr>) = kernel_inv k" "kernel_inv (k\<lparr>k_outb := x2\<rparr>) = kernel_inv k"
  "kernel_inv (k\<lparr>k_fault_port := x3\<rparr>) = kernel_inv k" "kernel_inv (k\<lparr>k_irq_counts := x4\<rparr>) = kernel_inv k"
  "kernel_inv (k\<lparr>k_graphics := x5\<rparr>) = kernel_inv k" "kernel_inv (k\<lparr>k_inb := x6\<rparr>) = kernel_inv k"
  "kernel_inv (k\<lparr>k_apic_writes := x7\<rparr>) = kernel_inv k" "kernel_inv (k\<lparr>k_user_interrupted := x8\<rparr>) = kernel_inv k"
  "kernel_inv (k\<lparr>sys_ticks := x9\<rparr>) = kernel_inv k" "kernel_inv (k\<lparr>sc_cpu := x10\<rparr>) = kernel_inv k"
  by (simp_all add: kernel_inv_def cap_inv_def sched_inv_def ipc_inv_def held_cap_def [abs_def] get_priority_def get_base_priority_def)

lemma kernel_inv_mem: "kernel_inv k \<Longrightarrow> mem_inv m \<Longrightarrow> kernel_inv (k\<lparr>k_mem := m\<rparr>)"
  by (simp add: kernel_inv_def cap_inv_def sched_inv_def ipc_inv_def held_cap_def [abs_def] get_priority_def get_base_priority_def)

lemma kernel_inv_dev:
  "kernel_inv k \<Longrightarrow> dev_inv h (k_input k) \<Longrightarrow> kernel_inv (k\<lparr>k_irq_handlers := h\<rparr>)"
  "kernel_inv k \<Longrightarrow> dev_inv (k_irq_handlers k) inp \<Longrightarrow> kernel_inv (k\<lparr>k_input := inp\<rparr>)"
  by (simp_all add: kernel_inv_def cap_inv_def sched_inv_def ipc_inv_def held_cap_def [abs_def] get_priority_def get_base_priority_def)

section \<open>Operations that span components\<close>

lemma kernel_inv_set_state: "kernel_inv k \<Longrightarrow> st \<noteq> Running \<Longrightarrow> kernel_inv (sys_set_state i st k)"
  by (rule kernel_inv_sched [of k]) (simp_all add: sched_frame_set_state sched_inv_set_state kernel_inv_parts)

lemma sched_inv_drive: "sched_inv s \<Longrightarrow> sched_inv (drive_cooperative_tick rip s)"
proof -
  assume inv: "sched_inv s"
  then have t: "on_timer_tick s = (x, s1) \<Longrightarrow> sched_inv s1" for x s1 using sched_inv_tick [OF inv] by simp
  show ?thesis by (auto simp: drive_cooperative_tick_def dest: t intro: sched_inv_perform split: prod.split option.split)
qed

lemma kernel_inv_drive: "kernel_inv k \<Longrightarrow> kernel_inv (drive_cooperative_tick rip k)"
  by (rule kernel_inv_sched [of k]) (simp_all add: sched_frame_drive sched_inv_drive kernel_inv_parts)

lemma sched_inv_ipc_frame: "ipc_frame s s' \<Longrightarrow> sched_inv s \<Longrightarrow> sched_inv s'"
  using ipc_frame_more(2) sched_inv_core by blast

lemma kernel_inv_wake:
  "kernel_inv k \<Longrightarrow> kernel_inv (restore_original_priority t (mark_thread_ready t k))"
  by (rule kernel_inv_sched [of k])
    (simp_all add: sched_frame_restore sched_frame_mark_ready sched_inv_restore sched_inv_mark_ready kernel_inv_parts)

text \<open>
  The two port operations that also wake threads: on the way they leave the ports in a
  state between two invariants, so the parts are followed separately.
\<close>

definition lower_ok :: "kernel \<Rightarrow> kernel \<Rightarrow> bool" where
  "lower_ok k k' \<longleftrightarrow> sched_inv k' \<and> cap_core k' = cap_core k \<and> tid_core k' = tid_core k \<and> ipc_sys.more k' = ipc_sys.more k"

lemma lower_ok_refl: "sched_inv k \<Longrightarrow> lower_ok k k"
  by (simp add: lower_ok_def)

lemma lower_ok_ipc: "lower_ok k k1 \<Longrightarrow> ipc_frame k1 k2 \<Longrightarrow> lower_ok k k2"
  using ipc_frame_more [of k1 k2] sched_inv_ipc_frame [of k1 k2] by (simp add: lower_ok_def)

lemma lower_ok_wake: "lower_ok k k1 \<Longrightarrow> lower_ok k (restore_original_priority t (mark_thread_ready t k1))"
  using sched_frame_more [of k1 "restore_original_priority t (mark_thread_ready t k1)"]
  by (simp add: lower_ok_def sched_inv_restore sched_inv_mark_ready sched_frame_restore sched_frame_mark_ready)

lemma kernel_inv_lower: "kernel_inv k \<Longrightarrow> lower_ok k k' \<Longrightarrow> ipc_inv k' \<Longrightarrow> kernel_inv k'"
  using kernel_more [of k' k] by (simp add: lower_ok_def kernel_inv_def cap_inv_core threads_ok_core)

lemma lower_ok_send_batch:
  assumes "sched_inv k"
  shows "lower_ok k (snd (ipc_send_batch rs i ms k))"
proof -
  have e: "enqueue_batch i prep (p, k) = (p1, k1) \<Longrightarrow> ipc_frame k k1" for prep p p1 k1
    using ipc_frame_enqueue [of k k i prep p] by simp
  have w: "ipc_frame k k1 \<Longrightarrow> lower_ok k (wake_receiver t (ipc_set_port i p k1))" for t p k1
    unfolding wake_receiver_def
    by (rule lower_ok_wake, rule lower_ok_ipc [OF lower_ok_refl [OF assms]]) simp
  have n: "ipc_frame k k1 \<Longrightarrow> lower_ok k (ipc_set_port i p k1)" for p k1
    by (rule lower_ok_ipc [OF lower_ok_refl [OF assms]]) simp
  show ?thesis using lower_ok_refl [OF assms]
    by (auto simp: ipc_send_batch_def Let_def dest!: e intro: w n split: option.split sum.split prod.split)
qed

lemma lower_ok_timeouts:
  assumes "sched_inv k"
  shows "lower_ok k (handle_timeouts now k)"
proof -
  have w: "lower_ok k k1 \<Longrightarrow> lower_ok k (fold (\<lambda>(t, _) s. restore_original_priority t (mark_thread_ready t s)) es k1)"
    for es :: "(thread_id \<times> port_id) list" and k1
    by (induction es arbitrary: k1) (auto intro: lower_ok_wake)
  have "lower_ok k (k\<lparr>ipc_ports := p, ipc_waiting := v\<rparr>)" for p v
    by (rule lower_ok_ipc [OF lower_ok_refl [OF assms]]) simp
  from w [OF this] lower_ok_refl [OF assms] show ?thesis by (simp add: handle_timeouts_def Let_def)
qed

lemma kernel_inv_timeouts: "kernel_inv k \<Longrightarrow> kernel_inv (handle_timeouts now k)"
  by (rule kernel_inv_lower [of k]) (simp_all add: lower_ok_timeouts ipc_inv_timeouts kernel_inv_parts)

section \<open>Capabilities and messages\<close>

lemma create_root_registered:
  assumes "create_root_capability res owner perms s = (Inr cap, s1)"
  shows "bt_get (cm_global s1) (c_handle cap) = Some cap \<and> c_owner cap = owner"
  using assms
  by (auto simp: create_root_capability_def capability_new_root_def cap_register_def cap_handle_new_def Let_def
      split: prod.splits if_splits)

lemma kernel_inv_create:
  assumes "kernel_inv k" and "cm_next_handle k \<noteq> u64_max"
  shows "kernel_inv (snd (create_root_capability res owner perms k))"
  by (rule kernel_inv_cap [OF assms(1) cap_frame_create cap_inv_create]) (use assms kernel_inv_parts in auto)

lemma kernel_inv_create_grant:
  assumes "kernel_inv k" and "cm_next_handle k \<noteq> u64_max" and "create_root_capability res owner perms k = (Inr cap, k1)"
  shows "kernel_inv (snd (sys_add_cap owner cap k1))"
proof -
  have k1: "kernel_inv k1" using kernel_inv_create [OF assms(1,2), of res owner perms] assms(3) by simp
  obtain r k2 where add: "sys_add_cap owner cap k1 = (r, k2)" by fastforce
  from create_root_registered [OF assms(3)] kernel_inv_parts(1) [OF k1] have "cap_inv k2"
    by (intro cap_inv_grant [OF _ add, of cap]) auto
  with k1 cap_frame_add [of k1 k1 owner cap] add show ?thesis by (simp add: kernel_inv_cap [of k1])
qed

lemma kernel_inv_send: "kernel_inv k \<Longrightarrow> kernel_inv (snd (send_message i m k))"
  by (rule kernel_inv_ipc [of k]) (simp_all add: send_message_def ipc_frame_ops ipc_inv_send kernel_inv_parts)

lemma kernel_inv_try_receive: "kernel_inv k \<Longrightarrow> kernel_inv (snd (try_receive_message i caller k))"
  by (rule kernel_inv_ipc [of k]) (simp_all add: try_receive_message_def ipc_frame_ops ipc_inv_try_recv kernel_inv_parts)

lemma kernel_inv_block: "kernel_inv k \<Longrightarrow> kernel_inv (snd (ipc_block_recv i caller prio d k))"
  by (rule kernel_inv_ipc [of k]) (simp_all add: ipc_frame_ops ipc_inv_block_recv kernel_inv_parts)

section \<open>Handlers\<close>

text \<open>The 64-bit identifier counters have not reached their last value.\<close>

definition ids_left :: "kernel \<Rightarrow> bool" where
  "ids_left k \<longleftrightarrow> cm_next_handle k \<noteq> u64_max \<and> ipc_next_port k \<noteq> u64_max \<and> sys_next_tid k \<noteq> u64_max
     \<and> as_next_id (k_mem k) \<noteq> u64_max \<and> shm_next_id (k_mem k) \<noteq> u64_max"

lemma inv_with_caller: "kernel_inv k \<Longrightarrow> (\<And>caller. kernel_inv (snd (f caller k))) \<Longrightarrow> kernel_inv (snd (with_caller f k))"
  by (simp add: with_caller_def split: option.split)

lemma snd_ret [simp]: "snd (ret p) = snd p"
  by (cases p) (simp add: ret_def)

lemma inv_user_store [simp]: "kernel_inv (user_store p bs k) = kernel_inv k"
  by (simp add: user_store_def)

lemma snd_on_mem [simp]: "snd (on_mem f k) = k\<lparr>k_mem := snd (f (k_mem k))\<rparr>"
  by (simp add: on_mem_def case_prod_beta)

lemma inv_on_mem: "kernel_inv k \<Longrightarrow> mem_inv (snd (f (k_mem k))) \<Longrightarrow> kernel_inv (snd (on_mem f k))"
  by (simp add: kernel_inv_mem)

lemma mem_inv_spaces:
  assumes "mem_inv m"
  shows "as_next_id m \<noteq> u64_max \<Longrightarrow> mem_inv (snd (create_address_space owner m))"
    "mem_inv (snd (destroy_address_space i owner m))" "mem_inv (snd (map_region i owner v p sz f m))"
    "mem_inv (snd (unmap_region i owner v sz m))" "mem_inv (snd (remap_region i owner v w sz m))"
proof -
  from assms obtain R D where m: "shm_inv R D m" by (auto simp: mem_inv_def)
  show "as_next_id m \<noteq> u64_max \<Longrightarrow> mem_inv (snd (create_address_space owner m))"
    using create_space_inv [OF m, of owner] unfolding mem_inv_def by blast
  show "mem_inv (snd (destroy_address_space i owner m))" using destroy_space_inv [OF m, of i owner] unfolding mem_inv_def by blast
  show "mem_inv (snd (map_region i owner v p sz f m))"
    using shm_inv_as [OF m] map_region_inv map_region_more shm_inv_spaces [OF m] unfolding mem_inv_def by meson
  show "mem_inv (snd (unmap_region i owner v sz m))"
    using shm_inv_as [OF m] unmap_region_inv unmap_region_more shm_inv_spaces [OF m] unfolding mem_inv_def by meson
  show "mem_inv (snd (remap_region i owner v w sz m))"
    using shm_inv_as [OF m] remap_region_inv remap_region_more shm_inv_spaces [OF m] unfolding mem_inv_def by meson
qed

lemma mem_inv_shared:
  assumes "mem_inv m"
  shows "shm_next_id m \<noteq> u64_max \<Longrightarrow> mem_inv (snd (create_region owner sz m))"
    "mem_inv (snd (shm_map_region i t v fl m))" "mem_inv (snd (shm_unmap_region i t m))"
    "mem_inv (snd (destroy_region i owner m))"
proof -
  from assms obtain R D where m: "shm_inv R D m" by (auto simp: mem_inv_def)
  show "shm_next_id m \<noteq> u64_max \<Longrightarrow> mem_inv (snd (create_region owner sz m))"
    using create_shared_inv [OF m, of owner sz] unfolding mem_inv_def by blast
  show "mem_inv (snd (shm_map_region i t v fl m))" "mem_inv (snd (shm_unmap_region i t m))"
    unfolding mem_inv_def using shm_map_inv [OF m] shm_unmap_inv [OF m] by blast+
  show "mem_inv (snd (destroy_region i owner m))" using destroy_shared_inv [OF m, of i owner] unfolding mem_inv_def by blast
qed

lemmas handler_simps = inv_on_mem mem_inv_spaces mem_inv_shared kernel_inv_parts ids_left_def case_prod_beta Let_def

lemma inv_memory_calls:
  assumes "kernel_inv k" and "ids_left k"
  shows "kernel_inv (snd (sys_shared_region_create sz k))" "kernel_inv (snd (sys_shared_region_map i v fl k))"
    "kernel_inv (snd (sys_shared_region_unmap i k))" "kernel_inv (snd (sys_shared_region_destroy i k))"
    "kernel_inv (snd (sys_addrspace_create k))" "kernel_inv (snd (sys_addrspace_destroy i k))"
    "kernel_inv (snd (sys_map_region i v p sz fl k))" "kernel_inv (snd (sys_unmap_region i v sz k))"
    "kernel_inv (snd (sys_remap_region i v w sz k))"
  unfolding sys_shared_region_create_def sys_shared_region_map_def sys_shared_region_unmap_def
    sys_shared_region_destroy_def sys_addrspace_create_def sys_addrspace_destroy_def sys_map_region_def
    sys_unmap_region_def sys_remap_region_def
  by (rule inv_with_caller [OF assms(1)], use assms in \<open>simp add: handler_simps kernel_inv_mem\<close>)+

lemma inv_send_like:
  assumes "kernel_inv k"
  shows "kernel_inv (snd (sys_ipc_send i ty n t k))" "kernel_inv (snd (sys_ipc_send_async i ty p n k))"
    "kernel_inv (snd (sys_ipc_send_with_cap i ty n h mp k))"
  unfolding sys_ipc_send_def sys_ipc_send_async_def sys_ipc_send_with_cap_def
  using assms by (auto intro!: inv_with_caller simp: case_prod_beta Let_def kernel_inv_send)

lemma inv_copy_message [simp]: "kernel_inv (snd (copy_message p n m k)) = kernel_inv k"
  by (simp add: copy_message_def Let_def)

lemma inv_receive:
  assumes "kernel_inv k" and "try_receive_message i caller k = (r, k1)"
  shows "kernel_inv k1"
  using kernel_inv_try_receive [OF assms(1), of i caller] assms(2) by simp

lemma inv_try_recv: "kernel_inv k \<Longrightarrow> kernel_inv (snd (sys_ipc_try_recv i p n k))"
  unfolding sys_ipc_try_recv_def
  by (rule inv_with_caller) (auto dest: inv_receive split: prod.split sum.split option.split)

lemma inv_recv_after_block: "kernel_inv k \<Longrightarrow> kernel_inv (snd (recv_after_block caller i p n k))"
  by (auto simp: recv_after_block_def dest: inv_receive split: prod.split sum.split option.split)

lemma inv_recv: "kernel_inv k \<Longrightarrow> kernel_inv (snd (sys_ipc_recv rip i p n t k))"
proof -
  assume inv: "kernel_inv k"
  have b: "try_receive_message i caller k = (x, k1) \<Longrightarrow> ipc_block_recv j c prio d k1 = (r, k2) \<Longrightarrow> kernel_inv k2"
    for caller x k1 j c prio d r k2 using kernel_inv_block inv_receive [OF inv] by (metis snd_conv)
  show ?thesis using inv
    by (auto simp: sys_ipc_recv_def Let_def kernel_inv_drive kernel_inv_set_state dest: inv_receive b
        split: prod.split sum.split option.split ipc_error.split)
qed

lemma inv_wait_scan: "kernel_inv k \<Longrightarrow> kernel_inv (snd (wait_scan caller idx ports k))"
  by (induction caller idx ports k rule: wait_scan.induct)
    (auto dest: inv_receive split: prod.split sum.split option.split)

lemma inv_wait_round: "kernel_inv k \<Longrightarrow> kernel_inv (snd (wait_round rip caller ports d t k))"
  using inv_wait_scan [of k caller 0 ports]
  by (cases "wait_scan caller 0 ports k") (simp add: wait_round_def kernel_inv_drive kernel_inv_set_state split: option.split)

lemma inv_wait_any: "kernel_inv k \<Longrightarrow> kernel_inv (snd (sys_ipc_wait_any rip p n t k))"
  by (simp add: sys_ipc_wait_any_def Let_def inv_wait_round split: option.split)

lemma inv_batches:
  assumes "kernel_inv k"
  shows "kernel_inv (snd (sys_ipc_send_batch i p n k))" "kernel_inv (snd (sys_ipc_recv_batch i p n k))"
proof -
  have s: "kernel_inv (snd (ipc_send_batch rs i ms k))" for rs ms
    by (rule kernel_inv_lower [OF assms]) (simp_all add: lower_ok_send_batch ipc_inv_send_batch kernel_inv_parts assms)
  have r: "kernel_inv (snd (ipc_recv_batch rs i c m k))" for rs c m
    by (rule kernel_inv_ipc [OF assms]) (simp_all add: ipc_frame_recv_batch ipc_inv_recv_batch kernel_inv_parts assms)
  show "kernel_inv (snd (sys_ipc_send_batch i p n k))" "kernel_inv (snd (sys_ipc_recv_batch i p n k))"
    unfolding sys_ipc_send_batch_def sys_ipc_recv_batch_def
    using assms s r by (auto intro!: inv_with_caller simp: case_prod_beta Let_def)
qed

lemma inv_ports:
  assumes "kernel_inv k" and "ids_left k"
  shows "kernel_inv (snd (sys_ipc_create_port k))" "kernel_inv (snd (sys_ipc_close_port i k))"
proof -
  have cp: "kernel_inv (snd (create_port owner k))" for owner
    by (rule kernel_inv_ipc [OF assms(1)]) (use assms in \<open>simp_all add: ipc_frame_ops ipc_inv_create_port kernel_inv_parts ids_left_def\<close>)
  have nh: "cm_next_handle (snd (create_port owner k)) \<noteq> u64_max" for owner
    using assms(2) by (simp add: create_port_def ipc_set_port_def Let_def ids_left_def)
  show "kernel_inv (snd (sys_ipc_create_port k))" unfolding sys_ipc_create_port_def
  proof (rule inv_with_caller [OF assms(1)])
    fix owner
    obtain i k1 where c: "create_port owner k = (i, k1)" by fastforce
    from cp [of owner] nh [of owner] c have k1: "kernel_inv k1" "cm_next_handle k1 \<noteq> u64_max" by simp_all
    have "kernel_inv k2" if "create_root_capability res owner perms k1 = (r, k2)" for res perms r k2
      using kernel_inv_create [OF k1, of res owner perms] that by simp
    with kernel_inv_create_grant [OF k1] c show "kernel_inv (snd (let (port_id, k1) = create_port owner k
        in (port_id, case create_root_capability (ResIpcPort port_id) owner (perm_union PERM_READ PERM_WRITE) k1 of
            (Inl x, k2) \<Rightarrow> k2 | (Inr cap, k2) \<Rightarrow> snd (sys_add_cap owner cap k2))))"
      by (auto split: prod.split sum.split)
  qed
  have "kernel_inv (snd (close_port i c k))" for c
    by (rule kernel_inv_ipc [OF assms(1)]) (simp_all add: ipc_frame_ops ipc_inv_close_port kernel_inv_parts assms)
  then show "kernel_inv (snd (sys_ipc_close_port i k))" unfolding sys_ipc_close_port_def
    by (intro inv_with_caller [OF assms(1)]) (simp add: case_prod_beta Let_def)
qed

lemma inv_cap_create:
  assumes "kernel_inv k" and "ids_left k"
  shows "kernel_inv (snd (sys_cap_create ty i p k))"
proof -
  have nh: "cm_next_handle k \<noteq> u64_max" using assms(2) by (simp add: ids_left_def)
  have c: "kernel_inv k2" if "create_root_capability res owner perms k = (r, k2)" for res owner perms r k2
    using kernel_inv_create [OF assms(1) nh, of res owner perms] that by simp
  have g: "kernel_inv k2" if "create_root_capability res owner perms k = (Inr cap, k1)" "sys_add_cap owner cap k1 = (r, k2)"
    for res owner perms cap k1 r k2
    using kernel_inv_create_grant [OF assms(1) nh that(1)] that(2) by simp
  have "kernel_inv (snd (case rr of Inl e \<Rightarrow> (e, k)
      | Inr res \<Rightarrow> (case create_root_capability res caller perms k of
          (Inr cap, k1) \<Rightarrow> let (r, k2) = sys_add_cap caller cap k1 in (case r of Inr _ \<Rightarrow> c_handle cap | Inl _ \<Rightarrow> EINVAL, k2)
        | (Inl _, k1) \<Rightarrow> (EINVAL, k1))))" for rr :: "u64 + resource_type" and caller perms
    using assms(1) by (auto simp: Let_def dest: c g split: prod.split sum.split)
  then show ?thesis unfolding sys_cap_create_def Let_def by (intro inv_with_caller [OF assms(1)])
qed

lemma inv_cap_calls:
  assumes "kernel_inv k" and "ids_left k"
  shows "kernel_inv (snd (sys_cap_revoke h k))" "kernel_inv (snd (sys_cap_derive h t p k))"
    "kernel_inv (snd (sys_cap_transfer h t k))" "kernel_inv (snd (sys_cap_query_parent h k))"
    "kernel_inv (snd (sys_cap_query_children h p n k))"
proof -
  have r: "kernel_inv (snd (revoke h c k))" for c
    by (rule kernel_inv_cap [OF assms(1)]) (simp_all add: cap_frame_revoke cap_inv_revoke kernel_inv_parts assms)
  have d: "kernel_inv (snd (derive_capability h c t ps k))" for c ps
    by (rule kernel_inv_cap [OF assms(1)]) (use assms in \<open>simp_all add: cap_frame_derive cap_inv_derive kernel_inv_parts ids_left_def\<close>)
  have m: "kernel_inv (snd (transfer_capability h c t k))" for c
    by (rule kernel_inv_cap [OF assms(1)]) (simp_all add: cap_frame_transfer cap_inv_transfer kernel_inv_parts assms)
  show "kernel_inv (snd (sys_cap_revoke h k))" "kernel_inv (snd (sys_cap_derive h t p k))"
    "kernel_inv (snd (sys_cap_transfer h t k))" "kernel_inv (snd (sys_cap_query_parent h k))"
    "kernel_inv (snd (sys_cap_query_children h p n k))"
    unfolding sys_cap_revoke_def sys_cap_derive_def sys_cap_transfer_def sys_cap_query_parent_def sys_cap_query_children_def
    by (rule inv_with_caller [OF assms(1)], simp add: case_prod_beta Let_def r d m assms split: sum.split)+
qed

section \<open>New threads\<close>

text \<open>A run of pages taken for a kernel stack is in no table, so its contents are free to change.\<close>

lemma stack_alloc_inv:
  assumes inv: "shm_inv R D m" and al: "alloc_pages n m = (Some a, m')"
  shows "shm_inv R D (ram_write_u64 a v m')"
proof -
  have vi: "vm_inv R D m" by (rule active_facts(1) [OF inv])
  note a1 = alloc_run_vm [OF vi al] and fr = alloc_pages_frame [of n m, unfolded al snd_conv]
  have "n \<noteq> 0" using al by (cases "n = 0") (simp_all add: alloc_pages_def)
  then have a: "a \<in> set (region_virt a n)" by (force simp: region_virt_def image_iff)
  have ad: "align_down a = a" using a1 by (simp add: align_down_mod is_page_aligned_def)
  have v1: "vm_inv R (D \<union> set (region_virt a n)) m'" using a1 by simp
  then have "pmm_inv m'" by (auto simp only: vm_inv_def vm_ok_def)
  then have wf: "free_addrs (ram_write_u64 a v m') = free_addrs m'" "managed_addrs (ram_write_u64 a v m') = managed_addrs m'"
      "pmm_inv (ram_write_u64 a v m')"
    by (simp_all add: ram_write_u64_def free_addrs_def managed_addrs_def free_set_def is_page_free_def pmm_inv_def)
  have "ram_mem (ram_write_u64 a v m') t = ram_mem m' t" if "t \<notin> D \<union> set (region_virt a n)" for t
    using that a by (auto simp: ram_write_u64_def ad)
  from vm_data_write [OF v1 this wf(3,1,2)] have "vm_inv R (D \<union> set (region_virt a n)) (ram_write_u64 a v m')" ..
  then have "vm_inv R D (ram_write_u64 a v m')" by (rule vm_inv_fewer) simp
  then show ?thesis by (rule shm_inv_vm [OF inv]) (simp_all add: ram_write_u64_def fr)
qed

lemma kernel_inv_add:
  assumes inv: "kernel_inv k" and id: "sys_next_tid k \<noteq> u64_max" "t_id t = sys_next_tid k" "t_caps t = cap_table_new (t_id t)"
    and cm: "cm_global k' = cm_global k" "cm_next_handle k' = cm_next_handle k" "cm_audit k' = cm_audit k"
    and ids: "map t_id (sys_threads k') = map t_id (sys_threads k) @ [t_id t]" "sys_next_tid k' = sys_next_tid k + 1"
    and caps: "thread_cap (sys_threads k') = thread_cap (list_add_thread t (sys_threads k))"
    and sched: "sched_inv k'" and more: "sched_sys.more k' = sched_sys.more k"
  shows "kernel_inv k'"
proof -
  have "held_cap k' = held_cap k"
    using held_cap_spawn [where t = t and s = k, OF id(3)] caps by (simp add: held_cap_def [abs_def])
  then have "cap_inv k'" using kernel_inv_parts(1) [OF inv] cm by (simp add: cap_inv_def)
  moreover have "ipc_core k' = ipc_core k" "ipc_sys.more k' = ipc_sys.more k"
    using more by (cases k; cases k'; simp add: ipc_core_def)+
  moreover have "threads_ok (sys_next_tid k + 1) (list_add_thread t (sys_threads k))"
    by (rule threads_ok_add [OF kernel_inv_parts(4) [OF inv] id(1,2)])
  then have "threads_ok (sys_next_tid k') (sys_threads k')"
    using ids by (simp add: threads_ok_ids list_add_thread_def del: set_map)
  ultimately show ?thesis using inv sched kernel_more [of k' k] ipc_inv_core [of k' k] by (simp add: kernel_inv_def)
qed

lemma kernel_inv_spawn:
  assumes "kernel_inv k" and "sys_next_tid k \<noteq> u64_max" and "t_id t = sys_next_tid k" and "t_state t = Ready"
    and "t_caps t = cap_table_new (t_id t)"
  shows "kernel_inv (snd (sched_add_thread t (k\<lparr>sys_next_tid := sys_next_tid k + 1\<rparr>)))"
proof (rule kernel_inv_add [OF assms(1,2,3,5)])
  have "sched_inv (k\<lparr>sys_next_tid := sys_next_tid k + 1\<rparr>)"
    using kernel_inv_parts(2) [OF assms(1)] by (simp add: sched_inv_def get_priority_def get_base_priority_def)
  then show "sched_inv (snd (sched_add_thread t (k\<lparr>sys_next_tid := sys_next_tid k + 1\<rparr>)))"
    by (rule sched_inv_add_thread) (simp add: assms(4))
qed (simp_all add: sched_add_thread_def Let_def list_add_thread_def)

lemma kernel_inv_sched_init:
  assumes "kernel_inv k" and "sys_next_tid k \<noteq> u64_max" and "t_id t = sys_next_tid k"
    and "t_caps t = cap_table_new (t_id t)" and "sc_current k = None"
  shows "kernel_inv (snd (sched_init t (k\<lparr>sys_next_tid := sys_next_tid k + 1\<rparr>)))"
proof (rule kernel_inv_add [OF assms(1-4)])
  let ?k = "k\<lparr>sys_next_tid := sys_next_tid k + 1\<rparr>"
  have "sched_inv ?k"
    using kernel_inv_parts(2) [OF assms(1)] by (simp add: sched_inv_def get_priority_def get_base_priority_def)
  moreover have "sys_next_tid k \<notin> t_id ` set (sys_threads k)"
    using kernel_inv_parts(4) [OF assms(1)] by (auto simp: threads_ok_def)
  then have "find_tcb (t_id t) (sys_threads ?k) = None" by (simp add: find_tcb_None assms(3))
  ultimately show "sched_inv (snd (sched_init t ?k))" using assms(5) by (intro sched_inv_init) simp_all
qed (simp_all add: sched_init_def sys_set_state_def Let_def list_add_thread_def ids_set_state thread_cap_set_state)

lemma inv_thread_create:
  assumes "kernel_inv k" and "ids_left k"
  shows "kernel_inv (snd (sys_thread_create e st fl k))"
proof -
  have stk: "kernel_inv (k\<lparr>k_mem := ram_write_u64 a v m'\<rparr>)" if al: "alloc_pages n (k_mem k) = (Some a, m')" for n a m' v
  proof -
    obtain R D where "shm_inv R D (k_mem k)" using kernel_inv_parts(5) [OF assms(1)] by (auto simp: mem_inv_def)
    from stack_alloc_inv [OF this al] have "mem_inv (ram_write_u64 a v m')" unfolding mem_inv_def by blast
    with assms(1) show ?thesis by (rule kernel_inv_mem)
  qed
  have none: "alloc_pages (unat (KERNEL_STACK_SIZE div 4096)) (k_mem k) = (None, m') \<Longrightarrow> m' = k_mem k" for m'
    using alloc_pages_None [of "k_mem k" "unat (KERNEL_STACK_SIZE div 4096)" m'] kernel_inv_parts(5) [OF assms(1)]
    by (auto simp: mem_inv_def shm_inv_def as_inv_def vm_inv_def vm_ok_def KERNEL_STACK_SIZE_def)
  have sp: "kernel_inv (snd (sched_add_thread t (k\<lparr>sys_next_tid := sys_next_tid k + 1, k_mem := ram_write_u64 a v m'\<rparr>)))"
    if "alloc_pages n (k_mem k) = (Some a, m')" "t_id t = sys_next_tid k" "t_state t = Ready" "t_caps t = cap_table_new (sys_next_tid k)"
    for n a m' v t
  proof -
    have eq: "k\<lparr>sys_next_tid := sys_next_tid k + 1, k_mem := ram_write_u64 a v m'\<rparr>
        = k\<lparr>k_mem := ram_write_u64 a v m', sys_next_tid := sys_next_tid k + 1\<rparr>" by (cases k) simp
    show ?thesis unfolding eq
      using kernel_inv_spawn [OF stk [OF that(1), of v], of t] that(2-4) assms(2) by (simp add: ids_left_def)
  qed
  show ?thesis unfolding sys_thread_create_def
    using assms(1) by (auto intro!: inv_with_caller sp simp: on_mem_def thread_new_def thread_id_new_def Let_def dest!: none split: prod.split option.split)
qed

section \<open>Every step of the kernel\<close>

lemma inv_thread_calls:
  assumes "kernel_inv k"
  shows "kernel_inv (snd (sys_thread_yield rip k))" "kernel_inv (snd (sys_thread_exit rip c k))"
    "kernel_inv (snd (sys_thread_sleep rip t k))"
  using assms by (simp_all add: sys_thread_yield_def sys_thread_exit_def sys_thread_sleep_def kernel_inv_drive
      kernel_inv_set_state split: option.split)

lemma rb_ok_pop: "rb_ok n rb \<Longrightarrow> rb_ok n (snd (rb_pop rb))"
  using rb_pop_step [of n rb] by (cases "rb_pop rb") auto

lemma rb_ok_push: "rb_ok n rb \<Longrightarrow> rb_ok n (snd (rb_push b rb))"
  using rb_push_step [of n rb b] by (cases "rb_push b rb") auto

lemma inv_polls:
  assumes "kernel_inv k"
  shows "kernel_inv (snd (sys_mouse_poll k))" "kernel_inv (snd (sys_keyboard_poll k))"
  using kernel_inv_parts(6) [OF assms]
  by (auto simp: sys_mouse_poll_def sys_keyboard_poll_def poll_mouse_byte_def poll_keyboard_byte_def Let_def case_prod_beta
      dev_inv_def rb_ok_pop intro!: kernel_inv_dev(2) [OF assms])

lemma dev_inv_insert:
  assumes "dev_inv h inp" and "irq \<in> set ALLOWED_IRQS"
  shows "dev_inv (bt_insert irq x h) inp"
proof -
  have "set (bt_keys (bt_insert irq x m)) \<subseteq> insert irq (set (bt_keys m))" for m
    by (induction irq x m rule: bt_insert.induct) (auto simp: bt_keys_def)
  with assms show ?thesis by (auto simp: dev_inv_def)
qed

lemma dev_inv_remove: "dev_inv h inp \<Longrightarrow> dev_inv (bt_remove irq h) inp"
proof -
  have "set (bt_keys (bt_remove irq h)) \<subseteq> set (bt_keys h)" by (auto simp: bt_keys_def bt_remove_def)
  then show "dev_inv h inp \<Longrightarrow> dev_inv (bt_remove irq h) inp" by (auto simp: dev_inv_def)
qed

lemma inv_devices:
  assumes "kernel_inv k"
  shows "kernel_inv (snd (sys_io_port_read p n k))" "kernel_inv (snd (sys_io_port_write p v k))"
    "kernel_inv (snd (sys_get_framebuffer q k))" "kernel_inv (snd (sys_get_ticks k))" "kernel_inv (snd (sys_debug_log q m k))"
    "kernel_inv (snd (sys_register_irq_handler irq i k))" "kernel_inv (snd (sys_unregister_irq_handler irq k))"
    "kernel_inv (snd (sys_map_framebuffer_to_user q k))" "kernel_inv (snd (sys_get_irq_count irq k))"
    "kernel_inv (snd (sys_register_fault_handler i k))" "kernel_inv (snd (sys_cap_check h ps k))"
    "kernel_inv (snd (sys_cap_list q m k))" "kernel_inv (snd (sys_ipc_trace_read q m k))" "kernel_inv (snd (sys_ipc_port_stats i q k))"
proof -
  note a = assms kernel_inv_dev(1) [OF assms] dev_inv_insert [OF kernel_inv_parts(6) [OF assms]]
    dev_inv_remove [OF kernel_inv_parts(6) [OF assms]]
  show "kernel_inv (snd (sys_io_port_read p n k))" "kernel_inv (snd (sys_io_port_write p v k))"
    "kernel_inv (snd (sys_get_framebuffer q k))" "kernel_inv (snd (sys_get_ticks k))" "kernel_inv (snd (sys_debug_log q m k))"
    "kernel_inv (snd (sys_cap_check h ps k))" "kernel_inv (snd (sys_cap_list q m k))" "kernel_inv (snd (sys_ipc_trace_read q m k))"
    "kernel_inv (snd (sys_ipc_port_stats i q k))"
    by (simp_all add: assms sys_io_port_read_def sys_io_port_write_def sys_get_framebuffer_def sys_get_ticks_def sys_debug_log_def
        sys_cap_check_def sys_cap_list_def sys_ipc_trace_read_def sys_ipc_port_stats_def Let_def split: option.split sum.split)
  show "kernel_inv (snd (sys_register_irq_handler irq i k))" "kernel_inv (snd (sys_unregister_irq_handler irq k))"
    "kernel_inv (snd (sys_map_framebuffer_to_user q k))" "kernel_inv (snd (sys_get_irq_count irq k))"
    "kernel_inv (snd (sys_register_fault_handler i k))"
    unfolding sys_register_irq_handler_def sys_unregister_irq_handler_def sys_map_framebuffer_to_user_def sys_get_irq_count_def
      sys_register_fault_handler_def register_page_fault_handler_def
    using a by (auto intro!: inv_with_caller simp: Let_def case_prod_beta split: option.split)
qed

lemma inv_if: "kernel_inv (snd a) \<Longrightarrow> kernel_inv (snd b) \<Longrightarrow> kernel_inv (snd (if c then a else b))"
  by simp

lemma inv_dispatcher:
  assumes "kernel_inv k" and "ids_left k"
  shows "kernel_inv (snd (rust_syscall_dispatcher rip num a0 a1 a2 a3 a4 a5 k))"
  unfolding rust_syscall_dispatcher_def
  by (intro inv_if) (simp_all add: assms inv_thread_calls inv_thread_create inv_ports inv_send_like inv_recv inv_cap_create inv_cap_calls inv_memory_calls
      inv_batches inv_try_recv inv_polls inv_devices inv_wait_any)

lemma inv_resume: "kernel_inv k \<Longrightarrow> kernel_inv (snd (resume_syscall rip c k))"
  by (cases c) (simp_all add: inv_recv_after_block inv_wait_round kernel_inv_set_state)

lemma inv_eoi [simp]: "kernel_inv (send_eoi k) = kernel_inv k"
  by (simp add: send_eoi_def apic_write_def send_pic_eoi_def outb_def)

lemma inv_notify_irq: "kernel_inv k \<Longrightarrow> kernel_inv (notify_irq_handler irq k)"
  by (simp add: notify_irq_handler_def kernel_inv_send split: option.split)

lemma inv_exception: "kernel_inv k \<Longrightarrow> kernel_inv (rust_exception_handler cr2 frame k)"
proof -
  assume inv: "kernel_inv k"
  have "send_message i m k = (r, k1) \<Longrightarrow> kernel_inv k1" for i m r k1 using kernel_inv_send [OF inv, of i m] by simp
  with inv show ?thesis
    by (auto simp: rust_exception_handler_def notify_page_fault_def split: option.split prod.split sum.split)
qed

lemma inv_timer: "kernel_inv k \<Longrightarrow> kernel_inv (timer_interrupt_handler frame k)"
  by (simp add: timer_interrupt_handler_def Let_def kernel_inv_timeouts)

lemma keyboard_loop_ok: "keyboard_irq_loop status data n (d, rb) = Some (d', rb') \<Longrightarrow> rb_ok m rb \<Longrightarrow> rb_ok m rb'"
  by (induction n arbitrary: d rb) (auto simp: Let_def rb_ok_push split: prod.splits if_splits)

lemma mouse_loop_ok: "mouse_irq_loop status data n (d, rb) = Some (d', rb') \<Longrightarrow> rb_ok m rb \<Longrightarrow> rb_ok m rb'"
  by (induction n arbitrary: d rb) (auto simp: Let_def rb_ok_push split: prod.splits if_splits)

lemma inv_input_irqs:
  assumes "kernel_inv k"
  shows "keyboard_interrupt_handler status data n (d, k) = Some (d', k') \<Longrightarrow> kernel_inv k'"
    and "mouse_interrupt_handler status data n (d, k) = Some (d', k') \<Longrightarrow> kernel_inv k'"
proof -
  have dev: "kernel_inv (k\<lparr>k_input := inp\<rparr>)" if "dev_inv (k_irq_handlers k) inp" for inp
    using kernel_inv_dev(2) [OF assms that] .
  have i: "kernel_inv (if has_userspace_irq_handler irq k1 then notify_irq_handler irq k1 else k1)" if "kernel_inv k1" for irq k1
    using that by (simp add: inv_notify_irq)
  show "keyboard_interrupt_handler status data n (d, k) = Some (d', k') \<Longrightarrow> kernel_inv k'"
    using kernel_inv_parts(6) [OF assms]
    by (auto simp: keyboard_interrupt_handler_def on_keyboard_irq_def Let_def dev_inv_def keyboard_loop_ok simp del: if_split
        intro!: i dev inv_notify_irq)
  show "mouse_interrupt_handler status data n (d, k) = Some (d', k') \<Longrightarrow> kernel_inv k'"
    using kernel_inv_parts(6) [OF assms]
    by (auto simp: mouse_interrupt_handler_def on_mouse_irq_def Let_def dev_inv_def mouse_loop_ok simp del: if_split
        intro!: i dev inv_notify_irq)
qed

section \<open>Reachable states\<close>

text \<open>
  The steps of the running system, in any order: a system call, the second half of a
  suspended one, an interrupt, the exception handler up to the halt, and everything else
  that happens in between, which is user code writing its memory and using the registers,
  and devices changing what their ports answer. \<open>Init\<close> and \<open>Spawn\<close> are the threads made
  while the kernel starts.
\<close>

inductive kernel_step :: "kernel \<Rightarrow> kernel \<Rightarrow> bool" where
  Syscall: "ids_left k \<Longrightarrow> kernel_step k (snd (rust_syscall_dispatcher rip num a0 a1 a2 a3 a4 a5 k))"
| Resume: "kernel_step k (snd (resume_syscall rip c k))"
| Timer: "kernel_step k (timer_interrupt_handler frame k)"
| Keyboard: "keyboard_interrupt_handler status data n (d :: (bool \<times> u8) list, k) = Some (d', k') \<Longrightarrow> kernel_step k k'"
| Mouse: "mouse_interrupt_handler status data n (d :: (bool \<times> u8) list, k) = Some (d', k') \<Longrightarrow> kernel_step k k'"
| Trap: "kernel_step k (user_trap_interrupt_handler frame k)"
| Unexpected: "kernel_step k (rust_unexpected_interrupt_handler vec frame k)"
| Fault: "kernel_step k (rust_exception_handler cr2 iframe k)"
| UserCode: "kernel_step k (k\<lparr>k_user := m, sc_cpu := regs\<rparr>)"
| Device: "kernel_step k (k\<lparr>k_inb := ports\<rparr>)"
| Init: "ids_left k \<Longrightarrow> sc_current k = None \<Longrightarrow> t_id t = sys_next_tid k \<Longrightarrow> t_caps t = cap_table_new (t_id t) \<Longrightarrow>
    kernel_step k (snd (sched_init t (k\<lparr>sys_next_tid := sys_next_tid k + 1\<rparr>)))"
| Spawn: "ids_left k \<Longrightarrow> t_id t = sys_next_tid k \<Longrightarrow> t_state t = Ready \<Longrightarrow> t_caps t = cap_table_new (t_id t) \<Longrightarrow>
    kernel_step k (snd (sched_add_thread t (k\<lparr>sys_next_tid := sys_next_tid k + 1\<rparr>)))"

lemma kernel_inv_step: "kernel_step k k' \<Longrightarrow> kernel_inv k \<Longrightarrow> kernel_inv k'"
proof (induction rule: kernel_step.induct)
  case (Init k t)
  then show ?case by (intro kernel_inv_sched_init) (simp_all add: ids_left_def)
next
  case (Spawn k t)
  then show ?case by (intro kernel_inv_spawn) (simp_all add: ids_left_def)
next
  case (Keyboard status data n d k d' k')
  from inv_input_irqs(1) [OF Keyboard.prems Keyboard.hyps] show ?case .
next
  case (Mouse status data n d k d' k')
  from inv_input_irqs(2) [OF Mouse.prems Mouse.hyps] show ?case .
qed (simp_all add: inv_dispatcher inv_resume inv_timer inv_exception user_trap_interrupt_handler_def
    rust_unexpected_interrupt_handler_def)

lemma kernel_inv_steps: "kernel_step\<^sup>*\<^sup>* k k' \<Longrightarrow> kernel_inv k \<Longrightarrow> kernel_inv k'"
  by (induction rule: rtranclp_induct) (auto intro: kernel_inv_step)

text \<open>The state the managers start in, over a memory set up by the boot code.\<close>

definition kernel_boot :: "shm_sys \<Rightarrow> kernel" where
  "kernel_boot m = ipc_sys.extend ipc_boot
     \<lparr>k_mem = m, k_fault_port = None, k_irq_handlers = bt_empty, k_irq_counts = bt_empty, k_input = input_boot,
      k_graphics = \<lparr>gfx_framebuffer = None, gfx_initialized = False, gfx_mem = \<lambda>_. 0\<rparr>, k_user = \<lambda>_. 0, k_inb = \<lambda>_. 0,
      k_outb = [], k_apic_enabled = False, k_pic_active = False, k_apic_base = 0xFEE00000, k_apic_writes = [],
      k_ioapic_writes = [], k_user_interrupted = False\<rparr>"

lemma kernel_boot_inv: "mem_inv m \<Longrightarrow> kernel_inv (kernel_boot m)"
proof -
  assume m: "mem_inv m"
  have "cap_inv (kernel_boot m)" "sched_inv (kernel_boot m)" "threads_ok (sys_next_tid (kernel_boot m)) (sys_threads (kernel_boot m))"
    by (simp_all add: kernel_boot_def ipc_boot_def ipc_sys.defs sched_sys.defs sched_boot_def cap_inv_def registry_empty cap_tree_def held_ok_def
        held_cap_def thread_cap_def find_tcb_def sched_inv_def rq_ok_def rq_new_def one_running_def get_priority_def
        get_base_priority_def threads_ok_def)
  moreover have "ipc_inv (kernel_boot m)"
    by (rule ipc_inv_core [OF _ ipc_inv_boot]) (simp add: kernel_boot_def ipc_sys.defs ipc_core_def)
  moreover have "dev_inv bt_empty input_boot"
    using rb_ok_new(1) [of KEYBOARD_BUFFER_SIZE] rb_ok_new(1) [of MOUSE_BUFFER_SIZE]
    by (simp add: dev_inv_def input_boot_def KEYBOARD_BUFFER_SIZE_def MOUSE_BUFFER_SIZE_def) (simp add: bt_keys_def bt_empty_def)
  ultimately show ?thesis using m by (simp add: kernel_inv_def) (simp add: kernel_boot_def ipc_sys.defs)
qed


definition kernel_example :: kernel where
  "kernel_example =
     (let k1 = snd (sched_init idle_example ((kernel_boot shm_example)\<lparr>sys_next_tid := 2\<rparr>))
      in snd (sched_add_thread (thread_example 2) (k1\<lparr>sys_next_tid := 3\<rparr>)))"

lemma kernel_example_reach: "kernel_step\<^sup>*\<^sup>* (kernel_boot shm_example) kernel_example"
proof -
  let ?k0 = "kernel_boot shm_example"
  let ?k1 = "snd (sched_init idle_example (?k0\<lparr>sys_next_tid := 2\<rparr>))"
  have f0: "sys_next_tid ?k0 = 1" "ids_left ?k0" "sc_current ?k0 = None"
    by (simp_all add: kernel_boot_def ipc_boot_def sched_boot_def ipc_sys.defs sched_sys.defs ids_left_def shm_example_def
        as_example_def as_sys.defs vmm.defs)
  have s1: "kernel_step ?k0 ?k1"
    using kernel_step.Init [OF f0(2,3), of idle_example] f0(1) by (simp add: idle_example_def thread_example_def)
  have f1: "sys_next_tid ?k1 = 2" "ids_left ?k1"
    using f0(2) by (simp_all add: sched_init_def sys_set_state_def Let_def ids_left_def)
  have s2: "kernel_step ?k1 kernel_example"
    using kernel_step.Spawn [OF f1(2), of "thread_example 2"] f1(1) by (simp add: kernel_example_def Let_def thread_example_def)
  from s1 s2 show ?thesis by (meson r_into_rtranclp rtranclp.rtrancl_into_rtrancl)
qed

lemma kernel_example_ids: "ids_left kernel_example"
  by (simp add: kernel_example_def Let_def ids_left_def sched_add_thread_def sched_init_def sys_set_state_def kernel_boot_def
      ipc_boot_def sched_boot_def ipc_sys.defs sched_sys.defs)

lemma shm_example_mem_inv: "mem_inv shm_example"
  unfolding mem_inv_def using shm_example_inv by blast


end
