(* ===== verification/Kernel_Props.thy ===== *)
theory Kernel_Props
  imports Kernel_Inv
begin

text \<open>
  End-to-end properties of system calls and interrupts: what a thread observes through the
  dispatcher, across the capability manager, the scheduler, the ports and user memory.
\<close>

section \<open>Dispatch\<close>

lemma dispatch_calls:
  "rust_syscall_dispatcher rip SYS_IPC_SEND_ASYNC a0 a1 a2 a3 a4 a5 k = ret (sys_ipc_send_async a0 a1 a2 a3 k)"
  "rust_syscall_dispatcher rip SYS_IPC_TRY_RECV a0 a1 a2 a3 a4 a5 k = ret (sys_ipc_try_recv a0 a1 a2 k)"
  "rust_syscall_dispatcher rip SYS_IPC_RECV a0 a1 a2 a3 a4 a5 k = sys_ipc_recv rip a0 a1 a2 a3 k"
  "rust_syscall_dispatcher rip SYS_IPC_CREATE_PORT a0 a1 a2 a3 a4 a5 k = ret (sys_ipc_create_port k)"
  "rust_syscall_dispatcher rip SYS_THREAD_CREATE a0 a1 a2 a3 a4 a5 k = ret (sys_thread_create a0 a1 a2 k)"
  "rust_syscall_dispatcher rip SYS_CAP_REVOKE a0 a1 a2 a3 a4 a5 k = ret (sys_cap_revoke a0 k)"
  "rust_syscall_dispatcher rip SYS_REGISTER_FAULT_HANDLER a0 a1 a2 a3 a4 a5 k = ret (sys_register_fault_handler a0 k)"
  "rust_syscall_dispatcher rip SYS_REGISTER_IRQ_HANDLER a0 a1 a2 a3 a4 a5 k = ret (sys_register_irq_handler (ucast a0) a1 k)"
  "rust_syscall_dispatcher rip SYS_UNREGISTER_IRQ_HANDLER a0 a1 a2 a3 a4 a5 k = ret (sys_unregister_irq_handler (ucast a0) k)"
  "rust_syscall_dispatcher rip SYS_GET_IRQ_COUNT a0 a1 a2 a3 a4 a5 k = ret (sys_get_irq_count (ucast a0) k)"
  "rust_syscall_dispatcher rip SYS_KEYBOARD_POLL a0 a1 a2 a3 a4 a5 k = ret (sys_keyboard_poll k)"
  "rust_syscall_dispatcher rip SYS_MAP_REGION a0 a1 a2 a3 a4 a5 k = ret (sys_map_region a0 a1 a2 a3 a4 k)"
  by (simp_all add: rust_syscall_dispatcher_def syscall_numbers)

lemma ret_pair [simp]: "ret (v, k) = (Ret v, k)"
  by (simp add: ret_def)

section \<open>Messages\<close>

lemma send_message_ok:
  assumes "bt_get (ipc_ports k) i = Some p" and "length (p_messages p) < MAX_QUEUE_DEPTH" and "m_shared_region m = None"
    and "length (m_payload m) \<le> ZERO_COPY_THRESHOLD"
  shows "\<exists>p'. send_message i m k = (Inr (), record_trace_event (send_event i (stamp (current_time_ms k) m)
        (of_nat (length (m_payload m)))) (ipc_set_port i p' k))
      \<and> p_messages p' = p_messages p @ [stamp (current_time_ms k) m]"
  using assms by (simp add: send_message_def ipc_send_def validate_payload_and_size_def Let_def) (rule exI, rule conjI, rule refl, simp)

lemma try_receive_ok:
  assumes "bt_get (ipc_ports k) i = Some p" and "p_messages p = m # ms" and "m_shared_region m = None"
    and "length (m_payload m) \<le> ZERO_COPY_THRESHOLD"
  shows "\<exists>p' ev. try_receive_message i c k = (Inr (Some m), record_trace_event ev (ipc_set_port i p' k)) \<and> p_messages p' = ms"
  using assms by (simp add: try_receive_message_def ipc_try_recv_def validate_payload_and_size_def Let_def)
    (rule exI, rule conjI, rule exI, rule refl, simp)

lemma stamp_fields [simp]: "m_payload (stamp n m) = m_payload m" "m_shared_region (stamp n m) = m_shared_region m"
  by (simp_all add: stamp_def)

lemma kernel_port_frame [simp]:
  "k_user (record_trace_event ev k) = k_user k" "k_user (ipc_set_port i p k) = k_user k"
  "sc_current (record_trace_event ev k) = sc_current k" "sc_current (ipc_set_port i p k) = sc_current k"
  by (simp_all add: record_trace_event_def ipc_set_port_def)

lemma message_new_fields [simp]:
  "m_payload (message_new n s t pl) = pl" "m_shared_region (message_new n s t pl) = None"
  by (simp_all add: message_new_def)

lemma write_bytes_outside_range:
  assumes "unat (x - a) \<ge> length bs" and "length bs < 2 ^ 64"
  shows "write_bytes a bs m x = m x"
proof (rule write_bytes_outside, intro allI impI)
  fix i assume "i < length bs"
  then have "unat (of_nat i :: u64) = i" using assms(2) by (simp add: unat_of_nat)
  with \<open>i < length bs\<close> assms(1) show "x \<noteq> a + of_nat i" by auto
qed

text \<open>
  C4. A message carries its bytes from the sender's memory to the receiver's: when a thread
  sends up to 128 bytes to a port with an empty queue and any thread then receives from it
  into a buffer that is large enough, both calls succeed, the receiver learns the length and
  finds the sender's bytes in its buffer, no other byte of user memory changes, and the
  queue is empty again.
\<close>

theorem ipc_data_round_trip:
  assumes "current_thread k = Some sender" and "bt_get (ipc_ports k) i = Some p" and "p_messages p = []"
    and "0 < len" and "len \<le> 128" and "len \<le> bufsz" and "src \<noteq> 0" and "dst \<noteq> 0"
  shows "\<exists>k1 k2 p2. rust_syscall_dispatcher rip SYS_IPC_SEND_ASYNC i ty src len a4 a5 k = (Ret ESUCCESS, k1)
    \<and> rust_syscall_dispatcher rip' SYS_IPC_TRY_RECV i dst bufsz b3 b4 b5 (k1\<lparr>sc_current := Some receiver\<rparr>) = (Ret len, k2)
    \<and> read_bytes dst (unat len) (k_user k2) = read_bytes src (unat len) (k_user k)
    \<and> (\<forall>a. unat (a - dst) \<ge> unat len \<longrightarrow> k_user k2 a = k_user k a)
    \<and> bt_get (ipc_ports k2) i = Some p2 \<and> p_messages p2 = []"
proof -
  let ?bs = "read_bytes src (unat len) (k_user k)"
  let ?m = "message_new (current_time_ms k) sender (ucast ty) ?bs"
  have n: "unat len \<le> 128" "unat len > 0" "unat len \<le> unat bufsz"
    using assms(4-6) by (simp_all add: word_le_nat_alt word_less_nat_alt)
  have big: "\<not> len > of_nat MAX_MESSAGE_SIZE" using n by (simp add: word_less_nat_alt)
  obtain p1 where s: "send_message i ?m k = (Inr (), record_trace_event (send_event i (stamp (current_time_ms k) ?m) (of_nat (unat len)))
        (ipc_set_port i p1 k))" and p1: "p_messages p1 = [stamp (current_time_ms k) ?m]"
    using send_message_ok [OF assms(2), of ?m] assms(3) n by auto
  let ?k1 = "record_trace_event (send_event i (stamp (current_time_ms k) ?m) (of_nat (unat len))) (ipc_set_port i p1 k)"
  have k1: "rust_syscall_dispatcher rip SYS_IPC_SEND_ASYNC i ty src len a4 a5 k = (Ret ESUCCESS, ?k1)"
    using assms(1,4,7) big s by (simp add: dispatch_calls sys_ipc_send_async_def with_caller_def Let_def)
  let ?k1' = "?k1\<lparr>sc_current := Some receiver\<rparr>"
  have port: "bt_get (ipc_ports ?k1') i = Some p1" by simp
  obtain p2 ev where r: "try_receive_message i receiver ?k1' = (Inr (Some (stamp (current_time_ms k) ?m)),
      record_trace_event ev (ipc_set_port i p2 ?k1'))" and p2: "p_messages p2 = []"
    using try_receive_ok [OF port, of "stamp (current_time_ms k) ?m" "[]" receiver] p1 n by auto
  let ?k2 = "user_store dst ?bs (record_trace_event ev (ipc_set_port i p2 ?k1'))"
  have k2: "rust_syscall_dispatcher rip' SYS_IPC_TRY_RECV i dst bufsz b3 b4 b5 ?k1' = (Ret len, ?k2)"
    using r n assms(8) by (simp add: dispatch_calls sys_ipc_try_recv_def with_caller_def copy_message_def Let_def min_absorb1)
  have u: "k_user ?k2 = write_bytes dst ?bs (k_user k)" by (simp add: user_store_def)
  have "read_bytes dst (unat len) (k_user ?k2) = ?bs"
    unfolding u using read_write_bytes [of ?bs dst "k_user k"] n by simp
  moreover have "k_user ?k2 a = k_user k a" if "unat (a - dst) \<ge> unat len" for a
    unfolding u by (rule write_bytes_outside_range) (use that n in simp_all)
  moreover have "bt_get (ipc_ports ?k2) i = Some p2" by (simp add: user_store_def)
  ultimately show ?thesis using k1 k2 p2 by blast
qed

lemma cap_frame_kernel:
  fixes k k' :: kernel
  assumes "cap_frame k k'"
  shows "ipc_ports k' = ipc_ports k \<and> sc_current k' = sc_current k \<and> k_user k' = k_user k \<and> k_mem k' = k_mem k
    \<and> sc_ready k' = sc_ready k \<and> sc_initialized k' = sc_initialized k \<and> ipc_waiting k' = ipc_waiting k \<and> sys_ticks k' = sys_ticks k
    \<and> map t_id (sys_threads k') = map t_id (sys_threads k) \<and> sc_effective k' = sc_effective k"
proof -
  have "thread_view (sys_threads k') = thread_view (sys_threads k)" using assms by (simp add: cap_frame_def)
  then have "map fst (thread_view (sys_threads k')) = map fst (thread_view (sys_threads k))" by simp
  then have "map t_id (sys_threads k') = map t_id (sys_threads k)" by (simp add: thread_view_def comp_def)
  with assms show ?thesis by (cases k; cases k') (simp add: cap_frame_def)
qed

lemma create_port_frame:
  assumes "current_thread k = Some owner"
  shows "case rust_syscall_dispatcher rip SYS_IPC_CREATE_PORT a0 a1 a2 a3 a4 a5 k of (r, k') \<Rightarrow>
    r = Ret (ipc_next_port k) \<and> ipc_ports k' = bt_insert (ipc_next_port k) (port_new (ipc_next_port k) owner) (ipc_ports k)
      \<and> current_thread k' = Some owner \<and> k_mem k' = k_mem k
      \<and> sc_ready k' = sc_ready k \<and> sc_initialized k' = sc_initialized k \<and> ipc_waiting k' = ipc_waiting k \<and> sys_ticks k' = sys_ticks k
      \<and> map t_id (sys_threads k') = map t_id (sys_threads k) \<and> sc_effective k' = sc_effective k"
proof -
  let ?i = "ipc_next_port k"
  let ?k1 = "ipc_set_port ?i (port_new ?i owner) (k\<lparr>ipc_next_port := ?i + 1\<rparr>)"
  obtain x k2 where c: "create_root_capability (ResIpcPort ?i) owner (perm_union PERM_READ PERM_WRITE) ?k1 = (x, k2)" by fastforce
  have f2: "cap_frame ?k1 k2" using cap_frame_create [where s = ?k1] c by (metis snd_conv)
  have f: "cap_frame ?k1 (case x of Inr cap \<Rightarrow> snd (sys_add_cap owner cap k2) | Inl _ \<Rightarrow> k2)"
    using f2 by (auto split: sum.split intro: cap_frame_add)
  from cap_frame_kernel [OF f] assms c show ?thesis
    by (auto simp: dispatch_calls sys_ipc_create_port_def with_caller_def create_port_def Let_def ipc_set_port_def split: sum.splits)
qed

lemmas kernel_example_defs = kernel_example_def Let_def sched_add_thread_def sched_init_def sys_set_state_def idle_example_def
  thread_example_def kernel_boot_def ipc_boot_def sched_boot_def ipc_sys.defs sched_sys.defs

lemma kernel_example_fields [simp]:
  "current_thread kernel_example = Some 1" "ipc_ports kernel_example = bt_empty" "ipc_next_port kernel_example = 1"
  "k_user kernel_example = (\<lambda>_. 0)" "k_mem kernel_example = shm_example"
  "sys_ticks kernel_example = 0" "k_irq_handlers kernel_example = bt_empty" "k_fault_port kernel_example = None"
  by (simp_all add: kernel_example_defs)

lemma kernel_example_sched:
  "sc_ready kernel_example = [[], [], [2], []]" "sc_initialized kernel_example" "ipc_waiting kernel_example = bt_empty"
  "sc_effective kernel_example = bt_insert 2 PrioNormal (bt_insert 1 PrioIdle bt_empty)"
  "map t_id (sys_threads kernel_example) = [1, 2]"
proof -
  show "map t_id (sys_threads kernel_example) = [1, 2]"
    by (simp add: kernel_example_defs list_add_thread_def ids_set_state)
qed (simp_all add: kernel_example_defs rq_push_def rq_new_def numeral_eq_Suc)

lemma kernel_example_inv: "kernel_inv kernel_example"
  by (rule kernel_inv_steps [OF kernel_example_reach kernel_boot_inv [OF shm_example_mem_inv]])

definition port_example :: kernel where
  "port_example = snd (rust_syscall_dispatcher 0x400000 SYS_IPC_CREATE_PORT 0 0 0 0 0 0 kernel_example)"

lemma port_example_inv: "kernel_inv port_example"
  unfolding port_example_def
  by (rule kernel_inv_step [OF kernel_step.Syscall [OF kernel_example_ids] kernel_example_inv])

lemma port_example_fields:
  "current_thread port_example = Some 1" "ipc_ports port_example = bt_insert 1 (port_new 1 1) bt_empty" "k_mem port_example = shm_example"
  using create_port_frame [of kernel_example 1 "0x400000" 0 0 0 0 0 0] by (simp_all add: port_example_def case_prod_beta)

theorem ipc_data_round_trip_witness:
  "\<exists>k1 k2 p2. rust_syscall_dispatcher 0x400000 SYS_IPC_SEND_ASYNC 1 7 0x1000 64 0 0 port_example = (Ret ESUCCESS, k1)
    \<and> rust_syscall_dispatcher 0x500000 SYS_IPC_TRY_RECV 1 0x2000 80 0 0 0 (k1\<lparr>sc_current := Some 2\<rparr>) = (Ret 64, k2)
    \<and> read_bytes 0x2000 64 (k_user k2) = read_bytes 0x1000 64 (k_user port_example)
    \<and> bt_get (ipc_ports k2) 1 = Some p2 \<and> p_messages p2 = []"
proof -
  have "bt_get (ipc_ports port_example) 1 = Some (port_new 1 1)" "p_messages (port_new 1 1) = []"
    by (simp_all add: port_example_fields port_new_def)
  from ipc_data_round_trip [OF port_example_fields(1) this, of 64 80 "0x1000" "0x2000" "0x400000" 7 0 0 "0x500000" 0 0 0 2]
  show ?thesis by auto
qed

section \<open>Creating threads\<close>

lemma validate_by_type_held:
  "validate_thread_capability_by_type t perm res (sys_threads k) \<longleftrightarrow>
     (\<exists>h c. held_cap k t h = Some c \<and> res (c_resource c) \<and> has_permission c perm)"
proof -
  have "h \<in> set (bt_keys m)" if "bt_get m h = Some c" for m :: "(cap_handle, capability) btree" and h c
    using that by (force simp: bt_get_def bt_keys_def dest: map_of_SomeD)
  then show ?thesis
    by (auto simp: validate_thread_capability_by_type_def held_cap_def thread_cap_def cap_table_list_def cap_table_get_def
        list_ex_iff split: option.split) (metis option.inject)+
qed

definition has_live_cap :: "kernel \<Rightarrow> thread_id \<Rightarrow> cap_permissions \<Rightarrow> (resource_type \<Rightarrow> bool) \<Rightarrow> bool" where
  "has_live_cap k t perm res \<longleftrightarrow> (\<exists>h g. bt_get (cm_global k) h = Some g \<and> thread_has_capability t h (sys_threads k)
     \<and> c_owner g = t \<and> res (c_resource g) \<and> has_permission g perm)"

lemma validate_by_type_live:
  assumes "cap_inv k"
  shows "validate_thread_capability_by_type t perm res (sys_threads k) \<longleftrightarrow> has_live_cap k t perm res"
proof -
  have reg: "\<exists>g. bt_get (cm_global k) h = Some g \<and> c_owner g = t \<and> c_resource c = c_resource g \<and> c_permissions c = c_permissions g"
    if "held_cap k t h = Some c" for h c
    using cap_inv_held [OF assms that] by (metis authority_def prod.inject)
  have "has_live_cap k t perm res" if "held_cap k t h = Some c" "res (c_resource c)" "has_permission c perm" for h c
  proof -
    from reg [OF that(1)] obtain g where "bt_get (cm_global k) h = Some g" "c_owner g = t"
      "c_resource c = c_resource g" "c_permissions c = c_permissions g" by blast
    moreover have "thread_has_capability t h (sys_threads k)"
      using that(1) by (simp add: thread_has_capability_iff held_cap_def)
    ultimately show ?thesis using that(2,3) unfolding has_live_cap_def has_permission_def by metis
  qed
  moreover have "\<exists>h c. held_cap k t h = Some c \<and> res (c_resource c) \<and> has_permission c perm" if live: "has_live_cap k t perm res"
  proof -
    from live obtain h g where g: "bt_get (cm_global k) h = Some g" "thread_has_capability t h (sys_threads k)"
      "res (c_resource g)" "has_permission g perm" by (auto simp: has_live_cap_def)
    from g(2) obtain c where c: "held_cap k t h = Some c" by (auto simp: thread_has_capability_iff held_cap_def)
    from reg [OF c] g have "res (c_resource c)" "has_permission c perm" by (auto simp: has_permission_def)
    with c show ?thesis by blast
  qed
  ultimately have "has_live_cap k t perm res \<longleftrightarrow> (\<exists>h c. held_cap k t h = Some c \<and> res (c_resource c) \<and> has_permission c perm)"
    by blast
  then show ?thesis by (simp add: validate_by_type_held)
qed

lemma free_set_ram_write: "free_set (ram_write_u64 a v m) = free_set m"
  by (simp only: free_set_def is_page_free_def ram_write_u64_def ram.ext_inject pmm.select_convs Let_def) simp

text \<open>
  C3. Thread creation is exactly as privileged as its capability: without a live capability
  of the caller on a thread with write permission the call returns the permission error and
  changes nothing. With one, it either finds no four adjacent free pages and changes nothing,
  or appends one new thread with a fresh identifier, which is ready, holds no capability,
  is queued last at normal priority, and has an intact stack in pages that were free and are
  now taken; no other thread changes.
\<close>

theorem thread_create_guarded:
  assumes inv: "kernel_inv k" and cur: "current_thread k = Some caller" and args: "e \<noteq> 0" "st \<noteq> 0"
  shows "case rust_syscall_dispatcher rip SYS_THREAD_CREATE e st fl a3 a4 a5 k of (r, k') \<Rightarrow>
    if \<not> has_live_cap k caller PERM_WRITE is_thread_resource then r = Ret EPERM \<and> k' = k
    else r = Ret ENOMEM \<and> k' = k \<and> (\<nexists>s. {s ..< s + 4} \<subseteq> free_set (k_mem k))
      \<or> (\<exists>t s. r = Ret (t_id t) \<and> sys_threads k' = sys_threads k @ [t] \<and> find_tcb (t_id t) (sys_threads k) = None
          \<and> t_state t = Ready \<and> (\<forall>h. held_cap k' (t_id t) h = None) \<and> reg_rip (t_context t) = e
          \<and> sc_ready k' = rq_push (t_id t) PrioNormal (sc_ready k) \<and> validate_stack t (k_mem k')
          \<and> t_kernel_stack t - t_kernel_stack_size t = page_to_addr s
          \<and> {s ..< s + 4} \<subseteq> free_set (k_mem k) \<and> free_set (k_mem k') = free_set (k_mem k) - {s ..< s + 4})"
proof -
  let ?n = "unat (KERNEL_STACK_SIZE div 4096)"
  have n: "?n = 4" by (simp add: KERNEL_STACK_SIZE_def)
  note live = validate_by_type_live [OF kernel_inv_parts(1) [OF inv], of caller PERM_WRITE is_thread_resource]
  show ?thesis
  proof (cases "has_live_cap k caller PERM_WRITE is_thread_resource")
    case False
    with live args cur show ?thesis by (simp add: dispatch_calls sys_thread_create_def with_caller_def)
  next
    case True
    obtain x m where al: "alloc_pages 4 (k_mem k) = (x, m)" by fastforce
    show ?thesis
    proof (cases x)
      case None
      have "pmm_inv (k_mem k)"
        using kernel_inv_parts(5) [OF inv] by (auto simp: mem_inv_def shm_inv_def as_inv_def vm_inv_def vm_ok_def)
      from alloc_pages_None [OF this al [unfolded None]] have "m = k_mem k" "\<nexists>s. {s ..< s + 4} \<subseteq> free_set (k_mem k)" by auto
      with None True live args cur al show ?thesis
        by (simp add: dispatch_calls sys_thread_create_def with_caller_def on_mem_def n)
    next
      case (Some a)
      obtain s where s: "a = page_to_addr s" "{s ..< s + 4} \<subseteq> free_set (k_mem k)" "free_set m = free_set (k_mem k) - {s ..< s + 4}"
        by (rule alloc_pages_run [OF al [unfolded Some]]) metis
      obtain t nid w where t: "thread_new (sys_next_tid k) e (a + KERNEL_STACK_SIZE) KERNEL_STACK_SIZE 0 PrioNormal ''user_thread'' m = (t, nid, w)"
        by (metis surj_pair)
      have tf: "t_id t = sys_next_tid k" "t_state t = Ready" "t_priority t = PrioNormal" "t_caps t = cap_table_new (t_id t)"
        "t_kernel_stack t = a + KERNEL_STACK_SIZE" "t_kernel_stack_size t = KERNEL_STACK_SIZE" "w = ram_write_u64 a STACK_CANARY m"
        "reg_rip (t_context t) = e"
        using t by (auto simp: thread_new_def thread_id_new_def Let_def context_new_def)
      define k' where "k' = snd (sched_add_thread t (k\<lparr>sys_next_tid := nid, k_mem := w\<rparr>))"
      have d: "rust_syscall_dispatcher rip SYS_THREAD_CREATE e st fl a3 a4 a5 k = (Ret (t_id t), k')"
        using True live args cur al Some t
        by (simp add: dispatch_calls sys_thread_create_def with_caller_def on_mem_def n Let_def k'_def sched_add_thread_def)
      have f: "sys_threads k' = sys_threads k @ [t]" "sc_ready k' = rq_push (t_id t) PrioNormal (sc_ready k)" "k_mem k' = w"
        by (simp_all add: k'_def sched_add_thread_def Let_def tf list_add_thread_def)
      have fresh: "find_tcb (t_id t) (sys_threads k) = None"
        using kernel_inv_parts(4) [OF inv] by (auto simp: find_tcb_None threads_ok_def tf(1))
      have caps: "held_cap k' (t_id t) h = None" for h
        by (simp add: held_cap_def thread_cap_def f(1) find_tcb_append fresh tf(4) cap_table_get_def cap_table_new_def)
      have free: "free_set (k_mem k') = free_set (k_mem k) - {s ..< s + 4}"
        using s(3) by (simp add: f(3) tf(7) free_set_ram_write)
      have stack: "validate_stack t (k_mem k')"
        by (simp add: validate_stack_def tf f(3) ram_read_u64_def ram_write_u64_def)
      show ?thesis using d f fresh caps free stack tf s True by auto
    qed
  qed
qed

theorem thread_create_guarded_witness:
  "\<not> has_live_cap kernel_example 1 PERM_WRITE is_thread_resource
   \<and> rust_syscall_dispatcher 0x400000 SYS_THREAD_CREATE 0x600000 0x700000 0 0 0 0 kernel_example = (Ret EPERM, kernel_example)"
proof -
  have "\<not> has_live_cap kernel_example 1 PERM_WRITE is_thread_resource"
    by (simp add: has_live_cap_def kernel_example_defs)
  with thread_create_guarded [OF kernel_example_inv kernel_example_fields(1), of "0x600000" "0x700000" "0x400000" 0 0 0 0]
  show ?thesis by (simp add: case_prod_beta prod_eq_iff)
qed

section \<open>Faults and interrupts\<close>

lemma fault_payload_fields:
  "length (fault_payload tid cr2 err rip) = 32"
  "of_le (fault_payload tid cr2 err rip) = cr2"
  "of_le (drop 8 (fault_payload tid cr2 err rip)) = err"
  "of_le (drop 16 (fault_payload tid cr2 err rip)) = rip"
  "of_le (drop 24 (fault_payload tid cr2 err rip)) = tid"
  by (simp_all add: fault_payload_def of_le_append of_le_le_bytes)

lemma stamp_more [simp]: "m_type (stamp n m) = m_type m" "m_sender (stamp n m) = m_sender m"
  by (simp_all add: stamp_def)

lemma send_message_appends:
  assumes "bt_get (ipc_ports k) i = Some p" and "length (p_messages p) < MAX_QUEUE_DEPTH"
    and "length pl \<le> ZERO_COPY_THRESHOLD"
  shows "\<exists>p' m k'. send_message i (message_new (current_time_ms k) sender ty pl) k = (Inr (), k')
    \<and> ipc_ports k' = bt_insert i p' (ipc_ports k) \<and> p_messages p' = p_messages p @ [m]
    \<and> m_sender m = sender \<and> m_type m = ty \<and> m_payload m = pl"
proof -
  let ?m = "message_new (current_time_ms k) sender ty pl"
  obtain p' where s: "send_message i ?m k = (Inr (), record_trace_event (send_event i (stamp (current_time_ms k) ?m)
        (of_nat (length pl))) (ipc_set_port i p' k))" and p': "p_messages p' = p_messages p @ [stamp (current_time_ms k) ?m]"
    using send_message_ok [OF assms(1,2), of ?m] assms(3) by auto
  show ?thesis
    by (rule exI [of _ p'], rule exI [of _ "stamp (current_time_ms k) ?m"], rule exI, rule conjI, rule s)
      (simp add: p' ipc_set_port_def record_trace_event_def message_new_def)
qed

text \<open>
  C6. A page fault of user code reaches the registered pager: the exception handler appends
  one page-fault message to the queue of the registered port, sent in the name of the
  faulting thread, whose 32 bytes decode to the faulting address, the error code, the
  instruction pointer and the thread; the queues of all other ports stay as they are.
\<close>

theorem page_fault_reported:
  assumes "k_fault_port k = Some i" and "bt_get (ipc_ports k) i = Some p" and "length (p_messages p) < MAX_QUEUE_DEPTH"
    and "current_thread k = Some tid" and "if_exception_number f = 14" and "if_error_code f AND 4 \<noteq> 0"
  shows "\<exists>p' m. ipc_ports (rust_exception_handler cr2 f k) = bt_insert i p' (ipc_ports k)
    \<and> p_messages p' = p_messages p @ [m] \<and> m_type m = MSG_TYPE_PAGE_FAULT \<and> m_sender m = tid
    \<and> length (m_payload m) = 32 \<and> of_le (m_payload m) = cr2 \<and> of_le (drop 8 (m_payload m)) = if_error_code f
    \<and> of_le (drop 16 (m_payload m)) = if_rip f \<and> of_le (drop 24 (m_payload m)) = tid"
proof -
  let ?pl = "fault_payload tid cr2 (if_error_code f) (if_rip f)"
  have "length ?pl \<le> ZERO_COPY_THRESHOLD" by (simp add: fault_payload_fields)
  from send_message_appends [OF assms(2,3) this, of tid MSG_TYPE_PAGE_FAULT]
  obtain p' m k' where s: "send_message i (message_new (current_time_ms k) tid MSG_TYPE_PAGE_FAULT ?pl) k = (Inr (), k')"
      and f: "ipc_ports k' = bt_insert i p' (ipc_ports k)" "p_messages p' = p_messages p @ [m]" "m_sender m = tid"
        "m_type m = MSG_TYPE_PAGE_FAULT" "m_payload m = ?pl" by blast
  have "rust_exception_handler cr2 f k = k'"
    using assms(1,4-6) s by (simp add: rust_exception_handler_def notify_page_fault_def)
  with f show ?thesis by (auto simp: fault_payload_fields)
qed

theorem page_fault_reported_witness:
  "\<exists>p' m. ipc_ports (rust_exception_handler 0xDEAD000
        \<lparr>if_exception_number = 14, if_error_code = 6, if_rip = 0x401000, if_cs = 0x1B, if_rflags = 0x202, if_rsp = 0, if_ss = 0x23\<rparr>
        (port_example\<lparr>k_fault_port := Some 1\<rparr>)) = bt_insert 1 p' (ipc_ports port_example)
    \<and> p_messages p' = [m] \<and> m_sender m = 1 \<and> of_le (m_payload m) = (0xDEAD000 :: u64)"
  using page_fault_reported [of "port_example\<lparr>k_fault_port := Some 1\<rparr>" 1 "port_new 1 1" 1
      "\<lparr>if_exception_number = 14, if_error_code = 6, if_rip = 0x401000, if_cs = 0x1B, if_rflags = 0x202, if_rsp = 0, if_ss = 0x23\<rparr>"
      "0xDEAD000"]
  by (auto simp: port_example_fields port_new_def)

section \<open>Timeouts\<close>

definition queued :: "thread_id \<Rightarrow> 'a sched_sys_scheme \<Rightarrow> bool" where
  "queued t s \<longleftrightarrow> (\<exists>p. t \<in> set (rq_level (sc_ready s) p))"

definition woken :: "thread_id \<Rightarrow> 'a sched_sys_scheme \<Rightarrow> bool" where
  "woken t s \<longleftrightarrow> (\<exists>tcb. find_tcb t (sys_threads s) = Some tcb \<and> t_state tcb = Ready) \<and> queued t s"

abbreviation wake_all :: "(thread_id \<times> port_id) list \<Rightarrow> 'a sched_sys_scheme \<Rightarrow> 'a sched_sys_scheme" where
  "wake_all E \<equiv> fold (\<lambda>(t, _) s. restore_original_priority t (mark_thread_ready t s)) E"

lemma wake_one:
  assumes "rq_ok (sc_ready s)"
  shows "rq_ok (sc_ready (restore_original_priority i (mark_thread_ready i s)))"
    and "woken t s \<Longrightarrow> woken t (restore_original_priority i (mark_thread_ready i s))"
    and "find_tcb i (sys_threads s) \<noteq> None \<Longrightarrow> woken i (restore_original_priority i (mark_thread_ready i s))"
    and "find_tcb t (sys_threads (restore_original_priority i (mark_thread_ready i s))) = None \<longleftrightarrow> find_tcb t (sys_threads s) = None"
proof -
  let ?s = "restore_original_priority i (mark_thread_ready i s)"
  have q: "queued t ?s \<longleftrightarrow> t = i \<or> queued t s" for t
    using assms by (auto simp: queued_def restore_original_priority_def mark_thread_ready_def sys_set_state_def Let_def rq.level_push)
      metis
  have f: "find_tcb t (sys_threads ?s) = (if t = i then map_option (\<lambda>x. x\<lparr>t_state := Ready\<rparr>) (find_tcb i (sys_threads s))
      else find_tcb t (sys_threads s))" for t
    by (simp add: restore_original_priority_def mark_thread_ready_def sys_set_state_def Let_def)
  show "rq_ok (sc_ready ?s)"
    using assms by (simp add: restore_original_priority_def mark_thread_ready_def sys_set_state_def Let_def rq.push_ok)
  show "woken t s \<Longrightarrow> woken t ?s" "find_tcb i (sys_threads s) \<noteq> None \<Longrightarrow> woken i ?s"
    "find_tcb t (sys_threads ?s) = None \<longleftrightarrow> find_tcb t (sys_threads s) = None"
    by (auto simp: woken_def q f)
qed

lemma wake_all_keeps: "rq_ok (sc_ready s) \<Longrightarrow> woken t s \<Longrightarrow> woken t (wake_all E s)"
  by (induction E arbitrary: s) (auto simp: wake_one)

lemma wake_all_wakes:
  "rq_ok (sc_ready s) \<Longrightarrow> t \<in> fst ` set E \<Longrightarrow> find_tcb t (sys_threads s) \<noteq> None \<Longrightarrow> woken t (wake_all E s)"
proof (induction E arbitrary: s)
  case (Cons e E)
  obtain i j where e: "e = (i, j)" by fastforce
  show ?case
  proof (cases "t = i")
    case True
    with Cons.prems e show ?thesis by (simp add: wake_one wake_all_keeps del: fst_conv)
  next
    case False
    with Cons.prems e have "t \<in> fst ` set E" by force
    with Cons.prems e show ?thesis using Cons.IH by (simp add: wake_one del: not_None_eq)
  qed
qed simp

lemma handle_timeouts_fold:
  "handle_timeouts now s = (let E = expired_waiters now (ipc_waiting s) in
     wake_all E (s\<lparr>ipc_ports := fold clear_waiter E (ipc_ports s), ipc_waiting := fold (\<lambda>(t, _). bt_remove t) E (ipc_waiting s)\<rparr>))"
  by (simp add: handle_timeouts_def Let_def)

lemma timer_tick:
  assumes inv: "kernel_inv k"
  shows "sys_ticks (timer_interrupt_handler f k) = sys_ticks k + 1"
    and "bt_get (ipc_waiting (timer_interrupt_handler f k)) t =
      (case bt_get (ipc_waiting k) t of None \<Rightarrow> None
       | Some w \<Rightarrow> (case w_deadline w of None \<Rightarrow> Some w | Some d \<Rightarrow> if d \<le> sys_ticks k + 1 then None else Some w))"
    and "woken t k \<Longrightarrow> woken t (timer_interrupt_handler f k)"
    and "bt_get (ipc_waiting k) t = Some w \<Longrightarrow> w_deadline w = Some d \<Longrightarrow> d \<le> sys_ticks k + 1 \<Longrightarrow>
      find_tcb t (sys_threads k) \<noteq> None \<Longrightarrow> woken t (timer_interrupt_handler f k)"
    and "find_tcb t (sys_threads (timer_interrupt_handler f k)) = None \<longleftrightarrow> find_tcb t (sys_threads k) = None"
    and "map_option p_messages (bt_get (ipc_ports (timer_interrupt_handler f k)) i) = map_option p_messages (bt_get (ipc_ports k) i)"
proof -
  define u where "u = (if coming_from_user f \<and> \<not> k_user_interrupted k then k\<lparr>k_user_interrupted := True\<rparr> else k)\<lparr>sys_ticks := sys_ticks k + 1\<rparr>"
  define E where "E = expired_waiters (sys_ticks k + 1) (ipc_waiting k)"
  define v where "v = u\<lparr>ipc_ports := fold clear_waiter E (ipc_ports u), ipc_waiting := fold (\<lambda>(t, _). bt_remove t) E (ipc_waiting u)\<rparr>"
  have u: "sys_ticks u = sys_ticks k + 1" "ipc_waiting u = ipc_waiting k" "sys_threads u = sys_threads k" "sc_ready u = sc_ready k"
    "ipc_ports u = ipc_ports k" by (simp_all add: u_def)
  have h: "timer_interrupt_handler f k = send_eoi (wake_all E v)"
    by (simp add: timer_interrupt_handler_def handle_timeouts_fold Let_def E_def v_def u_def)
  have eoi: "sys_ticks (send_eoi s) = sys_ticks s" "ipc_ports (send_eoi s) = ipc_ports s" "ipc_waiting (send_eoi s) = ipc_waiting s" "woken t (send_eoi s) = woken t s"
    "sys_threads (send_eoi s) = sys_threads s" for t s
    by (simp_all add: send_eoi_def apic_write_def send_pic_eoi_def outb_def woken_def queued_def)
  have wk: "woken t v = woken t k" for t by (simp add: v_def u woken_def queued_def)
  have rq: "rq_ok (sc_ready v)" using kernel_inv_parts(2) [OF inv] by (simp add: v_def u sched_inv_def)
  have wf: "bt_wf (ipc_waiting k)" using kernel_inv_parts(3) [OF inv] by (simp add: ipc_inv_def)
  have mem: "t \<in> fst ` set E \<longleftrightarrow> (\<exists>w d. bt_get (ipc_waiting k) t = Some w \<and> w_deadline w = Some d \<and> d \<le> sys_ticks k + 1)" for t
    using expired_waiters_mem [OF wf, of t _ "sys_ticks k + 1"] by (force simp: E_def image_iff)
  have "sys_ticks (wake_all E s) = sys_ticks s" for s :: kernel
    by (induction E arbitrary: s) (auto simp: restore_original_priority_def mark_thread_ready_def sys_set_state_def Let_def)
  then show "sys_ticks (timer_interrupt_handler f k) = sys_ticks k + 1" by (simp add: h eoi v_def u)
  show "bt_get (ipc_waiting (timer_interrupt_handler f k)) t =
      (case bt_get (ipc_waiting k) t of None \<Rightarrow> None
       | Some w \<Rightarrow> (case w_deadline w of None \<Rightarrow> Some w | Some d \<Rightarrow> if d \<le> sys_ticks k + 1 then None else Some w))"
    by (auto simp: h eoi wake_fold_frame v_def u remove_waiters_get mem split: option.split)
  show "woken t k \<Longrightarrow> woken t (timer_interrupt_handler f k)" by (simp add: h eoi wk wake_all_keeps [OF rq])
  show "bt_get (ipc_waiting k) t = Some w \<Longrightarrow> w_deadline w = Some d \<Longrightarrow> d \<le> sys_ticks k + 1 \<Longrightarrow>
      find_tcb t (sys_threads k) \<noteq> None \<Longrightarrow> woken t (timer_interrupt_handler f k)"
    using wake_all_wakes [OF rq, of t E] mem [of t] by (simp add: h eoi v_def u)
  have "find_tcb t (sys_threads (wake_all E s)) = None \<longleftrightarrow> find_tcb t (sys_threads s) = None" if "rq_ok (sc_ready s)" for s :: kernel
    using that by (induction E arbitrary: s) (auto simp: wake_one)
  from this [OF rq] show "find_tcb t (sys_threads (timer_interrupt_handler f k)) = None \<longleftrightarrow> find_tcb t (sys_threads k) = None"
    by (simp add: h eoi v_def u)
  show "map_option p_messages (bt_get (ipc_ports (timer_interrupt_handler f k)) i) = map_option p_messages (bt_get (ipc_ports k) i)"
    by (simp add: h eoi wake_fold_frame v_def u clear_waiters_get option.map_comp comp_def)
      (rule map_option_cong, simp_all add: unblocked_def)
qed

lemma timer_ticks:
  assumes inv: "kernel_inv k" and w: "bt_get (ipc_waiting k) t = Some w" and d: "w_deadline w = Some (sys_ticks k + of_nat D)"
    and D: "0 < D" and fits: "unat (sys_ticks k) + D + n < 2 ^ 64" and known: "find_tcb t (sys_threads k) \<noteq> None"
  shows "let k' = (timer_interrupt_handler f ^^ n) k in
    kernel_inv k' \<and> sys_ticks k' = sys_ticks k + of_nat n \<and> find_tcb t (sys_threads k') \<noteq> None
    \<and> (if n < D then bt_get (ipc_waiting k') t = Some w else bt_get (ipc_waiting k') t = None \<and> woken t k')
    \<and> map_option p_messages (bt_get (ipc_ports k') i) = map_option p_messages (bt_get (ipc_ports k) i)"
  using fits
proof (induction n)
  case (Suc n)
  define k1 where "k1 = (timer_interrupt_handler f ^^ n) k"
  from Suc have IH: "kernel_inv k1" "sys_ticks k1 = sys_ticks k + of_nat n" "find_tcb t (sys_threads k1) \<noteq> None"
    "if n < D then bt_get (ipc_waiting k1) t = Some w else bt_get (ipc_waiting k1) t = None \<and> woken t k1"
    "map_option p_messages (bt_get (ipc_ports k1) i) = map_option p_messages (bt_get (ipc_ports k) i)"
    by (simp_all add: k1_def Let_def)
  have le: "sys_ticks k + of_nat D \<le> sys_ticks k1 + 1 \<longleftrightarrow> D \<le> Suc n"
  proof -
    have at: "unat (sys_ticks k + of_nat x) = unat (sys_ticks k) + x" if "unat (sys_ticks k) + x < 2 ^ 64" for x
    proof -
      from that have "x < 2 ^ 64" by linarith
      then have "unat (of_nat x :: u64) = x" by (simp add: unat_of_nat)
      with that show ?thesis by (simp add: unat_word_ariths)
    qed
    have "sys_ticks k1 + 1 = sys_ticks k + of_nat (Suc n)" by (simp add: IH(2))
    then show ?thesis using Suc.prems D at [of D] at [of "Suc n"] by (simp add: word_le_nat_alt del: of_nat_Suc)
  qed
  note tick = timer_tick [OF IH(1), where f = f]
  have "bt_get (ipc_waiting (timer_interrupt_handler f k1)) t = (if Suc n < D then Some w else None)"
    using tick(2) [of t] IH(4) d le by (auto split: if_splits)
  moreover have "woken t (timer_interrupt_handler f k1)" if "\<not> Suc n < D"
    using that tick(3) [of t] tick(4) [of t w "sys_ticks k + of_nat D"] IH(3,4) d le by (cases "n < D") auto
  ultimately show ?case
    using inv_timer [OF IH(1)] tick(1) tick(5) [of t] tick(6) [of i] IH(2,3,5) by (simp add: k1_def [symmetric] Let_def algebra_simps)
qed (use assms in \<open>simp add: Let_def\<close>)

lemma sched_frame_kernel:
  fixes k k' :: kernel
  assumes "sched_frame k k'"
  shows "ipc_ports k' = ipc_ports k \<and> ipc_waiting k' = ipc_waiting k \<and> sys_ticks k' = sys_ticks k
    \<and> (find_tcb t (sys_threads k') = None \<longleftrightarrow> find_tcb t (sys_threads k) = None)"
proof -
  have "map t_id (sys_threads k') = map t_id (sys_threads k)" using assms by (simp add: sched_frame_def tid_core_def)
  then have "t_id ` set (sys_threads k') = t_id ` set (sys_threads k)" by (metis list.set_map)
  moreover have "ipc_ports k' = ipc_ports k \<and> ipc_waiting k' = ipc_waiting k \<and> sys_ticks k' = sys_ticks k"
    using assms by (cases k; cases k') (simp add: sched_frame_def)
  ultimately show ?thesis by (simp add: find_tcb_None)
qed

lemma recv_ticks:
  assumes "unat ms + 9 < 2 ^ 64"
  shows "(ms + 9) div 10 = (of_nat ((unat ms + 9) div 10) :: u64)"
proof -
  have "unat (ms + 9) = unat ms + 9" using assms by (simp add: unat_word_ariths)
  then have "unat ((ms + 9) div 10) = (unat ms + 9) div 10" by (simp add: unat_div)
  then show ?thesis using assms by (simp add: word_unat_eq_iff unat_of_nat)
qed


lemma drive_current: "sc_current (drive_cooperative_tick rip k) = sc_current (snd (on_timer_tick k))"
proof -
  have "sc_current (perform_context_switch rip a b s) = sc_current s" for a b and s :: "'a sched_sys_scheme"
    by (simp add: perform_context_switch_def Let_def set_rsp0_def split: prod.split option.split)
  then show ?thesis by (auto simp: drive_cooperative_tick_def split: prod.split option.split)
qed

definition yield_example :: kernel where
  "yield_example = snd (rust_syscall_dispatcher 0x400000 SYS_THREAD_YIELD 0 0 0 0 0 0 port_example)"

lemma yield_example_fields:
  "current_thread yield_example = Some 2" "ipc_ports yield_example = bt_insert 1 (port_new 1 1) bt_empty"
  "ipc_waiting yield_example = bt_empty" "sys_ticks yield_example = 0" "find_tcb 2 (sys_threads yield_example) \<noteq> None"
proof -
  have y: "yield_example = drive_cooperative_tick 0x400000 port_example"
    by (simp add: yield_example_def rust_syscall_dispatcher_def SYS_THREAD_YIELD_def sys_thread_yield_def)
  have p: "sc_ready port_example = [[], [], [2], []]" "sc_initialized port_example" "ipc_waiting port_example = bt_empty"
    "sys_ticks port_example = 0" "map t_id (sys_threads port_example) = [1, 2]" "get_priority 1 port_example = PrioIdle"
    using create_port_frame [of kernel_example 1 "0x400000" 0 0 0 0 0 0]
    by (simp_all add: port_example_def case_prod_beta kernel_example_sched get_priority_def)
  show "current_thread yield_example = Some 2"
    by (simp add: y drive_current on_timer_tick_def p port_example_fields rq_is_empty_def rq_push_def rq_pop_next_unfold Let_def
        apply_switch_with_previous_def)
  have fr: "sched_frame port_example yield_example" unfolding y by (intro sched_frame_drive sched_frame_refl)
  show "ipc_ports yield_example = bt_insert 1 (port_new 1 1) bt_empty"
    "ipc_waiting yield_example = bt_empty" "sys_ticks yield_example = 0"
    using sched_frame_kernel [OF fr] by (simp_all add: p port_example_fields)
  have "2 \<in> t_id ` set (sys_threads port_example)" using p(5) by (metis list.set_intros list.set_map)
  then show "find_tcb 2 (sys_threads yield_example) \<noteq> None" using sched_frame_kernel [OF fr, of 2] by (simp add: find_tcb_None)
qed

lemma yield_example_inv: "kernel_inv yield_example"
  using port_example_inv
  by (simp add: yield_example_def rust_syscall_dispatcher_def SYS_THREAD_YIELD_def sys_thread_yield_def kernel_inv_drive)

definition user_frame_example :: interrupt_stack_frame where
  "user_frame_example = \<lparr>isf_instruction_pointer = 0x401000, isf_code_segment = 0x1B, isf_cpu_flags = 0x202,
     isf_stack_pointer = 0x7FFF0000, isf_stack_segment = 0x23\<rparr>"


section \<open>Interrupts for user space\<close>

lemma allowed_irq [simp]: "irq \<in> set ALLOWED_IRQS \<longleftrightarrow> irq = 1 \<or> irq = 12"
  by (auto simp: ALLOWED_IRQS_def)

text \<open>
  C7. An interrupt line has one owner: registration is refused for every line but the
  keyboard's and the mouse's, and for a line that is taken. A successful registration binds
  the line to the caller and the port it names, and from then on every other thread is
  refused both a registration and an unregistration of that line, with nothing changed.
\<close>

theorem irq_line_exclusive:
  assumes "current_thread k = Some t"
  shows "case rust_syscall_dispatcher rip SYS_REGISTER_IRQ_HANDLER irq port a2 a3 a4 a5 k of (r, k') \<Rightarrow>
    if (ucast irq :: u8) \<noteq> 1 \<and> (ucast irq :: u8) \<noteq> 12 then r = Ret EPERM \<and> k' = k
    else if bt_get (k_irq_handlers k) (ucast irq) \<noteq> None then r = Ret EBUSY \<and> k' = k
    else r = Ret ESUCCESS \<and> bt_get (k_irq_handlers k') = (bt_get (k_irq_handlers k))(ucast irq \<mapsto> (t, port))
      \<and> (\<forall>u port'. u \<noteq> t \<longrightarrow>
          rust_syscall_dispatcher rip' SYS_REGISTER_IRQ_HANDLER irq port' b2 b3 b4 b5 (k'\<lparr>sc_current := Some u\<rparr>)
            = (Ret EBUSY, k'\<lparr>sc_current := Some u\<rparr>)
        \<and> rust_syscall_dispatcher rip' SYS_UNREGISTER_IRQ_HANDLER irq b1 b2 b3 b4 b5 (k'\<lparr>sc_current := Some u\<rparr>)
            = (Ret EPERM, k'\<lparr>sc_current := Some u\<rparr>))"
  using assms
  by (auto simp: dispatch_calls sys_register_irq_handler_def sys_unregister_irq_handler_def with_caller_def bt_contains_def
      bt_get_insert_fun)

theorem irq_line_exclusive_witness:
  "fst (rust_syscall_dispatcher 0x400000 SYS_REGISTER_IRQ_HANDLER 1 1 0 0 0 0 kernel_example) = Ret ESUCCESS
   \<and> fst (rust_syscall_dispatcher 0x400000 SYS_REGISTER_IRQ_HANDLER 3 1 0 0 0 0 kernel_example) = Ret EPERM"
  using irq_line_exclusive [OF kernel_example_fields(1), where rip = "0x400000" and irq = 1 and port = 1 and ?a2.0 = 0 and ?a3.0 = 0 and ?a4.0 = 0 and ?a5.0 = 0]
    irq_line_exclusive [OF kernel_example_fields(1), where rip = "0x400000" and irq = 3 and port = 1 and ?a2.0 = 0 and ?a3.0 = 0 and ?a4.0 = 0 and ?a5.0 = 0]
  by (auto simp: case_prod_beta)

lemma send_message_k_input [simp]: "k_input (snd (send_message i m k)) = k_input k"
  by (auto simp: send_message_def ipc_send_def Let_def ipc_set_port_def record_trace_event_def split: option.split sum.split)

text \<open>
  C8. A key press reaches the driver in user space: when a thread has registered a port for
  the keyboard line and that port has room, the interrupt handler ends, the scancodes that
  were waiting in the controller are behind the earlier ones in the buffer that the poll
  calls read, up to its capacity, and the port has received exactly one more message, which carries the line's number.
\<close>

theorem keyboard_interrupt_notifies:
  assumes ctl: "ps2_controller status data pending" and inv: "kernel_inv k"
    and n: "length (from_keyboard (pending d)) < n"
    and h: "bt_get (k_irq_handlers k) 1 = Some (t, i)" and p: "bt_get (ipc_ports k) i = Some p"
    and room: "length (p_messages p) < MAX_QUEUE_DEPTH"
  shows "\<exists>d' k' p' m. keyboard_interrupt_handler status data n (d, k) = Some (d', k')
    \<and> pending d' = dropWhile (\<lambda>e. \<not> fst e) (pending d)
    \<and> rb_items (in_keyboard (k_input k')) = List.take (KEYBOARD_BUFFER_SIZE - 1) (rb_items (in_keyboard (k_input k)) @ from_keyboard (pending d))
    \<and> ipc_ports k' = bt_insert i p' (ipc_ports k) \<and> p_messages p' = p_messages p @ [m] \<and> m_payload m = [1] \<and> m_type m = 1"
proof -
  let ?rb = "snd (put_all rb_push (from_keyboard (pending d)) (in_keyboard (k_input k)))"
  obtain d' where d': "keyboard_irq_loop status data n (d, in_keyboard (k_input k)) = Some (d', ?rb)"
    "pending d' = dropWhile (\<lambda>e. \<not> fst e) (pending d)" using keyboard_irq_loop_spec [OF ctl n] by blast
  have ok: "rb_ok KEYBOARD_BUFFER_SIZE (in_keyboard (k_input k))"
    using inv by (simp add: kernel_inv_def dev_inv_def)
  have items: "rb_items ?rb = List.take (KEYBOARD_BUFFER_SIZE - 1) (rb_items (in_keyboard (k_input k)) @ from_keyboard (pending d))"
    using ring.put_all_items [OF ok, of "from_keyboard (pending d)"] by simp
  define k1 where "k1 = k\<lparr>k_input := (k_input k)\<lparr>in_keyboard := ?rb\<rparr>\<rparr>"
  have "bt_get (ipc_ports k1) i = Some p" using p by (simp add: k1_def)
  from send_message_appends [OF this room, of "[1]" 0 1] obtain p' m k2
    where s: "send_message i (message_new (current_time_ms k1) 0 1 [1]) k1 = (Inr (), k2)"
      and f: "ipc_ports k2 = bt_insert i p' (ipc_ports k1)" "p_messages p' = p_messages p @ [m]" "m_payload m = [1]" "m_type m = 1"
    by auto
  have k2: "k_input k2 = k_input k1" using send_message_k_input [of i "message_new (current_time_ms k1) 0 1 [1]" k1] s by simp
  have eoi: "k_input (send_eoi k2) = k_input k2" "ipc_ports (send_eoi k2) = ipc_ports k2"
    by (simp_all add: send_eoi_def apic_write_def send_pic_eoi_def outb_def)
  have "keyboard_interrupt_handler status data n (d, k) = Some (d', send_eoi k2)"
    using d'(1) h s by (simp add: keyboard_interrupt_handler_def on_keyboard_irq_def has_userspace_irq_handler_def bt_contains_def
        notify_irq_handler_def Let_def k1_def [symmetric])
  with d'(2) items k2 eoi f show ?thesis by (auto simp: k1_def)
qed

theorem keyboard_interrupt_notifies_witness:
  "\<exists>d' k' p' m. keyboard_interrupt_handler list_status list_data 5 ([(False, 30), (False, 158), (True, 8)],
        port_example\<lparr>k_irq_handlers := bt_insert 1 (1, 1) bt_empty\<rparr>) = Some (d', k')
    \<and> ipc_ports k' = bt_insert 1 p' (ipc_ports port_example) \<and> p_messages p' = [m] \<and> m_payload m = [1]"
proof -
  let ?k = "port_example\<lparr>k_irq_handlers := bt_insert 1 (1, 1) bt_empty\<rparr>"
  have "kernel_inv ?k"
    using kernel_inv_parts(6) [OF port_example_inv]
    by (intro kernel_inv_dev [of port_example, OF port_example_inv]) (simp add: dev_inv_def, simp add: bt_keys_def bt_empty_def)
  moreover have "length (from_keyboard (id [(False, 30), (False, 158), (True, 8)])) < 5" by (simp add: from_keyboard_def)
  moreover have "bt_get (k_irq_handlers ?k) 1 = Some (1, 1)" "bt_get (ipc_ports ?k) 1 = Some (port_new 1 1)"
    "length (p_messages (port_new 1 1)) < MAX_QUEUE_DEPTH"
    by (simp_all add: port_example_fields port_new_def)
  ultimately show ?thesis
    using keyboard_interrupt_notifies [OF list_controller, of ?k "[(False, 30), (False, 158), (True, 8)]" 5 1 1 "port_new 1 1"]
    by (auto simp: port_new_def)
qed

end
