(* ===== verification/Libipc.thy ===== *)
theory Libipc
  imports Le_Bytes "HOL-Library.Monad_Syntax"
begin

text \<open>
  The message library of user space, \<^verbatim>\<open>userspace/libs/libipc\<close>: the wire format of every message
  (\<^verbatim>\<open>messages.rs\<close>), the primitive readers and writers (\<^verbatim>\<open>serialization.rs\<close>), the framing of a
  payload with a header (\<^verbatim>\<open>protocol.rs\<close>) and sets of ports (\<^verbatim>\<open>ports.rs\<close>). What is sent is what is
  decoded, and decoding any bytes at all ends with a message or with \<open>None\<close>.
\<close>

type_synonym i16 = "16 word"
type_synonym i32 = "32 word"

section \<open>Primitive values\<close>

text \<open>The \<open>n\<close> bytes at \<open>off\<close>, read little-endian.\<close>

definition field :: "nat \<Rightarrow> nat \<Rightarrow> u8 list \<Rightarrow> 'a::len word" where
  "field n off bs = of_le (take n (drop off bs))"

definition read_le :: "nat \<Rightarrow> u8 list \<Rightarrow> 'a::len word option" where
  "read_le n bs = (if length bs < n then None else Some (field n 0 bs))"

definition write_le :: "nat \<Rightarrow> 'a::len word \<Rightarrow> u8 list \<Rightarrow> bool \<times> u8 list" where
  "write_le n v bs = (if length bs < n then (False, bs) else (True, le_bytes n v @ drop n bs))"

definition read_u32 :: "u8 list \<Rightarrow> u32 option" where "read_u32 = read_le 4"
definition read_u64 :: "u8 list \<Rightarrow> u64 option" where "read_u64 = read_le 8"
definition read_i32 :: "u8 list \<Rightarrow> i32 option" where "read_i32 = read_le 4"
definition read_i16 :: "u8 list \<Rightarrow> i16 option" where "read_i16 = read_le 2"
definition write_u32 :: "u32 \<Rightarrow> u8 list \<Rightarrow> bool \<times> u8 list" where "write_u32 = write_le 4"
definition write_u64 :: "u64 \<Rightarrow> u8 list \<Rightarrow> bool \<times> u8 list" where "write_u64 = write_le 8"
definition write_i32 :: "i32 \<Rightarrow> u8 list \<Rightarrow> bool \<times> u8 list" where "write_i32 = write_le 4"
definition write_i16 :: "i16 \<Rightarrow> u8 list \<Rightarrow> bool \<times> u8 list" where "write_i16 = write_le 2"

section \<open>Messages\<close>

datatype message_type =
    KeyDown | KeyUp | KeyPress | MouseMove | MouseButtonDown | MouseButtonUp | MouseScroll
  | CreateWindow | CreateWindowResponse | DestroyWindow | ResizeWindow | MoveWindow | FocusWindow | WindowEvent
  | GetFramebuffer | FramebufferInfo | InvalidateRect | Present | CreateSurface | DestroySurface | BlitSurface
  | RegisterService | LookupService | ServiceInfo
  | Ping | Pong | Shutdown | ErrorMessage

fun message_type_code :: "message_type \<Rightarrow> u32" where
  "message_type_code KeyDown = 1"
| "message_type_code KeyUp = 2"
| "message_type_code KeyPress = 3"
| "message_type_code MouseMove = 10"
| "message_type_code MouseButtonDown = 11"
| "message_type_code MouseButtonUp = 12"
| "message_type_code MouseScroll = 13"
| "message_type_code CreateWindow = 100"
| "message_type_code CreateWindowResponse = 101"
| "message_type_code DestroyWindow = 102"
| "message_type_code ResizeWindow = 103"
| "message_type_code MoveWindow = 104"
| "message_type_code FocusWindow = 105"
| "message_type_code WindowEvent = 106"
| "message_type_code GetFramebuffer = 200"
| "message_type_code FramebufferInfo = 201"
| "message_type_code InvalidateRect = 202"
| "message_type_code Present = 203"
| "message_type_code CreateSurface = 210"
| "message_type_code DestroySurface = 211"
| "message_type_code BlitSurface = 212"
| "message_type_code RegisterService = 300"
| "message_type_code LookupService = 301"
| "message_type_code ServiceInfo = 302"
| "message_type_code Ping = 400"
| "message_type_code Pong = 401"
| "message_type_code Shutdown = 402"
| "message_type_code ErrorMessage = 499"

text \<open>The match of \<open>from_u32\<close>, as the table it is.\<close>

definition message_type_table :: "(u32 \<times> message_type) list" where
  "message_type_table =
     [(1, KeyDown), (2, KeyUp), (3, KeyPress), (10, MouseMove), (11, MouseButtonDown), (12, MouseButtonUp),
      (13, MouseScroll), (100, CreateWindow), (101, CreateWindowResponse), (102, DestroyWindow), (103, ResizeWindow),
      (104, MoveWindow), (105, FocusWindow), (106, WindowEvent), (200, GetFramebuffer), (201, FramebufferInfo),
      (202, InvalidateRect), (203, Present), (210, CreateSurface), (211, DestroySurface), (212, BlitSurface),
      (300, RegisterService), (301, LookupService), (302, ServiceInfo), (400, Ping), (401, Pong), (402, Shutdown),
      (499, ErrorMessage)]"

definition message_type_from_u32 :: "u32 \<Rightarrow> message_type option" where
  "message_type_from_u32 v = map_of message_type_table v"

record message_header =
  msg_type :: message_type
  payload_size :: u32
  sequence :: u32

definition MESSAGE_HEADER_SIZE :: nat where "MESSAGE_HEADER_SIZE = 12"

text \<open>The static counter is passed as a state.\<close>

definition header_new :: "message_type \<Rightarrow> u32 \<Rightarrow> u32 \<Rightarrow> message_header \<times> u32" where
  "header_new t n seq = (\<lparr>msg_type = t, payload_size = n, sequence = seq\<rparr>, seq + 1)"

definition header_to_bytes :: "message_header \<Rightarrow> u8 list" where
  "header_to_bytes h = le_bytes 4 (message_type_code (msg_type h)) @ le_bytes 4 (payload_size h) @ le_bytes 4 (sequence h)"

definition header_from_bytes :: "u8 list \<Rightarrow> message_header option" where
  "header_from_bytes bs =
     (if length bs < MESSAGE_HEADER_SIZE then None
      else do {
        t \<leftarrow> message_type_from_u32 (field 4 0 bs);
        Some \<lparr>msg_type = t, payload_size = field 4 4 bs, sequence = field 4 8 bs\<rparr> })"

record key_modifiers =
  km_shift :: bool
  km_ctrl :: bool
  km_alt :: bool
  km_caps_lock :: bool

definition modifiers_to_u8 :: "key_modifiers \<Rightarrow> u8" where
  "modifiers_to_u8 m =
     (if km_shift m then 0x01 else 0) OR (if km_ctrl m then 0x02 else 0) OR (if km_alt m then 0x04 else 0)
       OR (if km_caps_lock m then 0x08 else 0)"

definition modifiers_from_u8 :: "u8 \<Rightarrow> key_modifiers" where
  "modifiers_from_u8 f =
     \<lparr>km_shift = (f AND 0x01 \<noteq> 0), km_ctrl = (f AND 0x02 \<noteq> 0), km_alt = (f AND 0x04 \<noteq> 0),
      km_caps_lock = (f AND 0x08 \<noteq> 0)\<rparr>"

record lib_key_event =
  kv_scancode :: u8
  kv_character :: u8
  kv_modifiers :: key_modifiers

definition key_event_to_bytes :: "lib_key_event \<Rightarrow> u8 list" where
  "key_event_to_bytes e = [kv_scancode e, kv_character e, modifiers_to_u8 (kv_modifiers e)]"

definition key_event_from_bytes :: "u8 list \<Rightarrow> lib_key_event option" where
  "key_event_from_bytes bs =
     (if length bs < 3 then None
      else Some \<lparr>kv_scancode = bs ! 0, kv_character = bs ! 1, kv_modifiers = modifiers_from_u8 (bs ! 2)\<rparr>)"

datatype mouse_button = LeftButton | RightButton | MiddleButton

fun mouse_button_code :: "mouse_button \<Rightarrow> u8" where
  "mouse_button_code LeftButton = 0"
| "mouse_button_code RightButton = 1"
| "mouse_button_code MiddleButton = 2"

definition mouse_button_from_u8 :: "u8 \<Rightarrow> mouse_button option" where
  "mouse_button_from_u8 v = map_of [(0, LeftButton), (1, RightButton), (2, MiddleButton)] v"

record mouse_move_event =
  mm_x :: i32
  mm_y :: i32
  mm_dx :: i16
  mm_dy :: i16

definition mouse_move_to_bytes :: "mouse_move_event \<Rightarrow> u8 list" where
  "mouse_move_to_bytes e = le_bytes 4 (mm_x e) @ le_bytes 4 (mm_y e) @ le_bytes 2 (mm_dx e) @ le_bytes 2 (mm_dy e)"

definition mouse_move_from_bytes :: "u8 list \<Rightarrow> mouse_move_event option" where
  "mouse_move_from_bytes bs =
     (if length bs < 12 then None
      else Some \<lparr>mm_x = field 4 0 bs, mm_y = field 4 4 bs, mm_dx = field 2 8 bs, mm_dy = field 2 10 bs\<rparr>)"

record mouse_button_event =
  mb_button :: mouse_button
  mb_x :: i32
  mb_y :: i32

definition mouse_button_to_bytes :: "mouse_button_event \<Rightarrow> u8 list" where
  "mouse_button_to_bytes e = [mouse_button_code (mb_button e)] @ le_bytes 4 (mb_x e) @ le_bytes 4 (mb_y e)"

definition mouse_button_from_bytes :: "u8 list \<Rightarrow> mouse_button_event option" where
  "mouse_button_from_bytes bs =
     (if length bs < 9 then None
      else do { b \<leftarrow> mouse_button_from_u8 (bs ! 0); Some \<lparr>mb_button = b, mb_x = field 4 1 bs, mb_y = field 4 5 bs\<rparr> })"

text \<open>
  A Rust string is a sequence of bytes that is valid UTF-8; \<open>from_utf8\<close> accepts exactly the
  well-formed sequences of the Unicode standard.
\<close>

definition between :: "u8 \<Rightarrow> u8 \<Rightarrow> u8 \<Rightarrow> bool" where
  "between a b x \<longleftrightarrow> a \<le> x \<and> x \<le> b"

abbreviation continuation :: "u8 \<Rightarrow> bool" where
  "continuation \<equiv> between 0x80 0xBF"

fun utf8 :: "u8 list \<Rightarrow> bool" where
  "utf8 [] = True"
| "utf8 (a # bs) =
     (if a < 0x80 then utf8 bs
      else if between 0xC2 0xDF a then (case bs of b # r \<Rightarrow> continuation b \<and> utf8 r | _ \<Rightarrow> False)
      else if between 0xE0 0xEF a then
        (case bs of
           b # c # r \<Rightarrow>
             (if a = 0xE0 then between 0xA0 0xBF b else if a = 0xED then between 0x80 0x9F b else continuation b)
               \<and> continuation c \<and> utf8 r
         | _ \<Rightarrow> False)
      else if between 0xF0 0xF4 a then
        (case bs of
           b # c # d # r \<Rightarrow>
             (if a = 0xF0 then between 0x90 0xBF b else if a = 0xF4 then between 0x80 0x8F b else continuation b)
               \<and> continuation c \<and> continuation d \<and> utf8 r
         | _ \<Rightarrow> False)
      else False)"

record create_window_request =
  cw_width :: u32
  cw_height :: u32
  cw_title :: "u8 list"

definition create_window_to_bytes :: "create_window_request \<Rightarrow> u8 list" where
  "create_window_to_bytes r =
     le_bytes 4 (cw_width r) @ le_bytes 4 (cw_height r) @ le_bytes 4 (of_nat (length (cw_title r)) :: u32) @ cw_title r"

definition create_window_from_bytes :: "u8 list \<Rightarrow> create_window_request option" where
  "create_window_from_bytes bs =
     (if length bs < 12 then None
      else
        let title_len = unat (field 4 8 bs :: u32)
        in if length bs < 12 + title_len then None
           else
             let title = take title_len (drop 12 bs)
             in if utf8 title then Some \<lparr>cw_width = field 4 0 bs, cw_height = field 4 4 bs, cw_title = title\<rparr> else None)"

record create_window_response =
  cr_window_id :: u32
  cr_success :: bool

definition window_response_to_bytes :: "create_window_response \<Rightarrow> u8 list" where
  "window_response_to_bytes r = le_bytes 4 (cr_window_id r) @ [if cr_success r then 1 else 0]"

definition window_response_from_bytes :: "u8 list \<Rightarrow> create_window_response option" where
  "window_response_from_bytes bs =
     (if length bs < 5 then None else Some \<lparr>cr_window_id = field 4 0 bs, cr_success = (bs ! 4 \<noteq> 0)\<rparr>)"

datatype window_event_type = Resize | Move | Focus | Unfocus | Close | Expose

fun window_event_code :: "window_event_type \<Rightarrow> u8" where
  "window_event_code Resize = 1"
| "window_event_code Move = 2"
| "window_event_code Focus = 3"
| "window_event_code Unfocus = 4"
| "window_event_code Close = 5"
| "window_event_code Expose = 6"

definition window_event_from_u8 :: "u8 \<Rightarrow> window_event_type option" where
  "window_event_from_u8 v = map_of [(1, Resize), (2, Move), (3, Focus), (4, Unfocus), (5, Close), (6, Expose)] v"

record window_event_msg =
  we_window_id :: u32
  we_event_type :: window_event_type
  we_x :: i32
  we_y :: i32
  we_width :: u32
  we_height :: u32

definition window_event_to_bytes :: "window_event_msg \<Rightarrow> u8 list" where
  "window_event_to_bytes e =
     le_bytes 4 (we_window_id e) @ [window_event_code (we_event_type e)] @ le_bytes 4 (we_x e) @ le_bytes 4 (we_y e)
       @ le_bytes 4 (we_width e) @ le_bytes 4 (we_height e)"

definition window_event_from_bytes :: "u8 list \<Rightarrow> window_event_msg option" where
  "window_event_from_bytes bs =
     (if length bs < 21 then None
      else do {
        t \<leftarrow> window_event_from_u8 (bs ! 4);
        Some \<lparr>we_window_id = field 4 0 bs, we_event_type = t, we_x = field 4 5 bs, we_y = field 4 9 bs,
              we_width = field 4 13 bs, we_height = field 4 17 bs\<rparr> })"

record lib_framebuffer_info =
  lf_address :: u64
  lf_width :: u32
  lf_height :: u32
  lf_stride :: u32
  lf_bytes_per_pixel :: u32
  lf_size :: u64

definition framebuffer_to_bytes :: "lib_framebuffer_info \<Rightarrow> u8 list" where
  "framebuffer_to_bytes f =
     le_bytes 8 (lf_address f) @ le_bytes 4 (lf_width f) @ le_bytes 4 (lf_height f) @ le_bytes 4 (lf_stride f)
       @ le_bytes 4 (lf_bytes_per_pixel f) @ le_bytes 8 (lf_size f)"

definition framebuffer_from_bytes :: "u8 list \<Rightarrow> lib_framebuffer_info option" where
  "framebuffer_from_bytes bs =
     (if length bs < 32 then None
      else Some \<lparr>lf_address = field 8 0 bs, lf_width = field 4 8 bs, lf_height = field 4 12 bs, lf_stride = field 4 16 bs,
                 lf_bytes_per_pixel = field 4 20 bs, lf_size = field 8 24 bs\<rparr>)"

record rect =
  rc_x :: i32
  rc_y :: i32
  rc_width :: u32
  rc_height :: u32

definition rect_to_bytes :: "rect \<Rightarrow> u8 list" where
  "rect_to_bytes r = le_bytes 4 (rc_x r) @ le_bytes 4 (rc_y r) @ le_bytes 4 (rc_width r) @ le_bytes 4 (rc_height r)"

definition rect_from_bytes :: "u8 list \<Rightarrow> rect option" where
  "rect_from_bytes bs =
     (if length bs < 16 then None
      else Some \<lparr>rc_x = field 4 0 bs, rc_y = field 4 4 bs, rc_width = field 4 8 bs, rc_height = field 4 12 bs\<rparr>)"

section \<open>Framing\<close>

text \<open>The bytes \<open>send_message\<close> and \<open>send_message_async\<close> hand to the kernel, and the next sequence number.\<close>

definition frame_message :: "message_type \<Rightarrow> u8 list \<Rightarrow> u32 \<Rightarrow> u8 list \<times> u32" where
  "frame_message t payload seq =
     (let (h, seq1) = header_new t (of_nat (length payload)) seq in (header_to_bytes h @ payload, seq1))"

text \<open>
  What \<open>recv_message\<close> and \<open>try_recv_message\<close> make of \<open>len\<close> bytes received into \<open>buffer\<close>:
  \<open>Inl\<close> is \<open>InvalidArgument\<close>; the slice of the header panics when the buffer is too short.
\<close>

definition parse_received :: "u8 list \<Rightarrow> nat \<Rightarrow> (unit + message_header \<times> nat) option" where
  "parse_received buffer len =
     (if len < MESSAGE_HEADER_SIZE then Some (Inl ())
      else if length buffer < MESSAGE_HEADER_SIZE then None
      else Some (case header_from_bytes (take MESSAGE_HEADER_SIZE buffer) of None \<Rightarrow> Inl () | Some h \<Rightarrow> Inr (h, len)))"

definition get_payload :: "u8 list \<Rightarrow> nat \<Rightarrow> u8 list option" where
  "get_payload buffer total_len =
     (if MESSAGE_HEADER_SIZE < total_len then
        (if total_len \<le> length buffer then Some (take (total_len - MESSAGE_HEADER_SIZE) (drop MESSAGE_HEADER_SIZE buffer)) else None)
      else Some [])"

definition is_message_type :: "message_header \<Rightarrow> message_type \<Rightarrow> bool" where
  "is_message_type h t \<longleftrightarrow> msg_type h = t"

section \<open>Port sets\<close>

type_synonym port_set = "u64 list"

definition port_set_add :: "u64 \<Rightarrow> port_set \<Rightarrow> port_set" where
  "port_set_add p ps = (if p \<in> set ps then ps else ps @ [p])"

definition port_set_remove :: "u64 \<Rightarrow> port_set \<Rightarrow> port_set" where
  "port_set_remove p ps = filter (\<lambda>q. q \<noteq> p) ps"

definition port_set_get :: "nat \<Rightarrow> port_set \<Rightarrow> u64 option" where
  "port_set_get i ps = (if i < length ps then Some (ps ! i) else None)"

section \<open>What is encoded is decoded\<close>

named_theorems wire_simps \<open>fields of a concatenation of encoded fields\<close>

lemma field_here [wire_simps]: "LENGTH('a) = 8 * n \<Longrightarrow> field n 0 (le_bytes n w @ r) = (w :: 'a::len word)"
  by (simp add: field_def of_le_le_bytes)

lemma field_last [wire_simps]: "LENGTH('a) = 8 * n \<Longrightarrow> field n 0 (le_bytes n w) = (w :: 'a::len word)"
  by (simp add: field_def of_le_le_bytes)

lemma field_skip [wire_simps]: "length a \<le> off \<Longrightarrow> field n off (a @ r) = field n (off - length a) r"
  by (simp add: field_def)

lemma field_skip1 [wire_simps]: "0 < off \<Longrightarrow> field n off (b # r) = field n (off - 1) r"
  by (cases off) (simp_all add: field_def)

lemma nth_skip [wire_simps]: "length a \<le> i \<Longrightarrow> (a @ r) ! i = r ! (i - length a)"
  by (simp add: nth_append)

lemma write_read:
  assumes "LENGTH('a) = 8 * n" and "n \<le> length bs"
  shows "\<exists>bs'. write_le n (v :: 'a::len word) bs = (True, bs') \<and> length bs' = length bs \<and> read_le n bs' = Some v"
  using assms by (simp add: write_le_def read_le_def wire_simps)

lemma message_type_codes: "message_type_from_u32 (message_type_code t) = Some t"
  by (cases t) (simp_all add: message_type_from_u32_def message_type_table_def)

lemma message_type_from_u32_Some: "message_type_from_u32 v = Some t \<Longrightarrow> message_type_code t = v"
  unfolding message_type_from_u32_def by (drule map_of_SomeD) (auto simp: message_type_table_def)

lemma msg_header_round_trip: "header_from_bytes (header_to_bytes h @ r) = Some h"
  by (simp add: header_from_bytes_def header_to_bytes_def MESSAGE_HEADER_SIZE_def wire_simps message_type_codes)

lemma length_header [simp]: "length (header_to_bytes h) = 12"
  by (simp add: header_to_bytes_def)

lemma frame_fst:
  "fst (frame_message t payload seq)
     = header_to_bytes \<lparr>msg_type = t, payload_size = of_nat (length payload), sequence = seq\<rparr> @ payload"
  by (simp add: frame_message_def header_new_def)

text \<open>
  The contract of a message body: whatever follows it in the buffer, what was encoded is what
  is decoded. The client lemma is the whole path of a message, header included.
\<close>

locale wire_format =
  fixes enc :: "'m \<Rightarrow> u8 list"
    and dec :: "u8 list \<Rightarrow> 'm option"
    and valid :: "'m \<Rightarrow> bool"
  assumes round_trip: "valid m \<Longrightarrow> dec (enc m @ r) = Some m"
begin

lemma enc_inj: "valid m \<Longrightarrow> valid m' \<Longrightarrow> enc m = enc m' \<Longrightarrow> m = m'"
  using round_trip [of m "[]"] round_trip [of m' "[]"] by simp

text \<open>
  A framed message put into a large enough buffer, whatever was in the buffer before, is
  received with its type, size and sequence number, and its payload decodes to the message.
\<close>

lemma delivered:
  assumes "valid m" and "length (fst (frame_message t (enc m) seq)) = n" and "buffer = fst (frame_message t (enc m) seq) @ old"
  shows "parse_received buffer n = Some (Inr (\<lparr>msg_type = t, payload_size = of_nat (length (enc m)), sequence = seq\<rparr>, n))
    \<and> (\<exists>p. get_payload buffer n = Some p \<and> p = enc m \<and> dec p = Some m)"
proof -
  let ?h = "\<lparr>msg_type = t, payload_size = of_nat (length (enc m)), sequence = seq\<rparr>"
  have b: "buffer = header_to_bytes ?h @ enc m @ old" and n: "n = 12 + length (enc m)"
    using assms by (simp_all add: frame_fst)
  have "parse_received buffer n = Some (Inr (?h, n))"
    using msg_header_round_trip [of ?h "[]"] by (simp add: parse_received_def b n MESSAGE_HEADER_SIZE_def)
  moreover have "get_payload buffer n = Some (enc m)"
    by (auto simp: get_payload_def b n MESSAGE_HEADER_SIZE_def)
  ultimately show ?thesis using round_trip [OF assms(1), of "[]"] by simp
qed

end

lemma modifiers_round_trip: "modifiers_from_u8 (modifiers_to_u8 m) = m"
  by (cases m) (simp add: modifiers_from_u8_def modifiers_to_u8_def)

interpretation key_wire: wire_format key_event_to_bytes key_event_from_bytes "\<lambda>_. True"
  by unfold_locales (simp add: key_event_to_bytes_def key_event_from_bytes_def modifiers_round_trip)

interpretation mouse_move_wire: wire_format mouse_move_to_bytes mouse_move_from_bytes "\<lambda>_. True"
  by unfold_locales (simp add: mouse_move_to_bytes_def mouse_move_from_bytes_def wire_simps)

lemma mouse_button_codes: "mouse_button_from_u8 (mouse_button_code b) = Some b"
  by (cases b) (simp_all add: mouse_button_from_u8_def)

interpretation mouse_button_wire: wire_format mouse_button_to_bytes mouse_button_from_bytes "\<lambda>_. True"
  by unfold_locales (simp add: mouse_button_to_bytes_def mouse_button_from_bytes_def wire_simps mouse_button_codes)

interpretation window_response_wire: wire_format window_response_to_bytes window_response_from_bytes "\<lambda>_. True"
  by unfold_locales (simp add: window_response_to_bytes_def window_response_from_bytes_def wire_simps)

lemma window_event_codes: "window_event_from_u8 (window_event_code t) = Some t"
  by (cases t) (simp_all add: window_event_from_u8_def)

interpretation window_event_wire: wire_format window_event_to_bytes window_event_from_bytes "\<lambda>_. True"
  by unfold_locales (simp add: window_event_to_bytes_def window_event_from_bytes_def wire_simps window_event_codes)

interpretation framebuffer_wire: wire_format framebuffer_to_bytes framebuffer_from_bytes "\<lambda>_. True"
  by unfold_locales (simp add: framebuffer_to_bytes_def framebuffer_from_bytes_def wire_simps)

interpretation rect_wire: wire_format rect_to_bytes rect_from_bytes "\<lambda>_. True"
  by unfold_locales (simp add: rect_to_bytes_def rect_from_bytes_def wire_simps)

text \<open>A window title is a string shorter than 4 GiB.\<close>

definition title_ok :: "create_window_request \<Rightarrow> bool" where
  "title_ok r \<longleftrightarrow> utf8 (cw_title r) \<and> length (cw_title r) < 2 ^ 32"

interpretation window_request_wire: wire_format create_window_to_bytes create_window_from_bytes title_ok
proof
  fix m r assume ok: "title_ok m"
  then have "unat (of_nat (length (cw_title m)) :: u32) = length (cw_title m)" by (simp add: title_ok_def unat_of_nat)
  with ok show "create_window_from_bytes (create_window_to_bytes m @ r) = Some m"
    by (simp add: create_window_from_bytes_def create_window_to_bytes_def wire_simps title_ok_def Let_def)
qed

definition arrives :: "('m \<Rightarrow> u8 list) \<Rightarrow> (u8 list \<Rightarrow> 'm option) \<Rightarrow> message_type \<Rightarrow> u32 \<Rightarrow> u8 list \<Rightarrow> 'm \<Rightarrow> bool" where
  "arrives enc dec t seq old m \<longleftrightarrow>
     (let b = fst (frame_message t (enc m) seq)
      in parse_received (b @ old) (length b)
           = Some (Inr (\<lparr>msg_type = t, payload_size = of_nat (length (enc m)), sequence = seq\<rparr>, length b))
         \<and> (case get_payload (b @ old) (length b) of None \<Rightarrow> False | Some p \<Rightarrow> dec p = Some m))"

lemma arrivesI:
  assumes "wire_format enc dec valid" and "valid m"
  shows "arrives enc dec t seq old m"
  using wire_format.delivered [OF assms refl refl, of t seq old] by (auto simp: arrives_def Let_def)

text \<open>
  C10. A typed message arrives as it was sent. For each message body of the library (keys, mouse
  motion and buttons, window requests, responses and events, framebuffer data, rectangles): the
  bytes framed for it, lying at the start of a receive buffer of any content, give back the
  header with its type, payload size and sequence number, and the payload decodes to the
  message. A window title must be a string of less than 4 GiB.
\<close>

theorem typed_message_arrives:
  assumes "title_ok w"
  shows "arrives create_window_to_bytes create_window_from_bytes t seq old w
    \<and> arrives key_event_to_bytes key_event_from_bytes t seq old k
    \<and> arrives mouse_move_to_bytes mouse_move_from_bytes t seq old mv
    \<and> arrives mouse_button_to_bytes mouse_button_from_bytes t seq old mb
    \<and> arrives window_response_to_bytes window_response_from_bytes t seq old wr
    \<and> arrives window_event_to_bytes window_event_from_bytes t seq old we
    \<and> arrives framebuffer_to_bytes framebuffer_from_bytes t seq old fb
    \<and> arrives rect_to_bytes rect_from_bytes t seq old rc"
  by (intro conjI arrivesI [OF key_wire.wire_format_axioms] arrivesI [OF mouse_move_wire.wire_format_axioms]
      arrivesI [OF mouse_button_wire.wire_format_axioms] arrivesI [OF window_response_wire.wire_format_axioms]
      arrivesI [OF window_event_wire.wire_format_axioms] arrivesI [OF framebuffer_wire.wire_format_axioms]
      arrivesI [OF rect_wire.wire_format_axioms] arrivesI [OF window_request_wire.wire_format_axioms assms] TrueI)

theorem typed_message_arrives_witness:
  "title_ok \<lparr>cw_width = 640, cw_height = 400, cw_title = [0x41, 0xC3, 0xA9]\<rparr>
   \<and> arrives create_window_to_bytes create_window_from_bytes CreateWindow 7 [1, 2, 3]
       \<lparr>cw_width = 640, cw_height = 400, cw_title = [0x41, 0xC3, 0xA9]\<rparr>"
  using typed_message_arrives [of "\<lparr>cw_width = 640, cw_height = 400, cw_title = [0x41, 0xC3, 0xA9]\<rparr>" CreateWindow 7 "[1, 2, 3]"]
  by (simp add: title_ok_def between_def)

text \<open>
  A message that was cut off in its header is refused with an error, and so is one of an
  unknown type; nothing is decoded from it.
\<close>

lemma parse_received_short: "n < 12 \<Longrightarrow> parse_received buffer n = Some (Inl ())"
  by (simp add: parse_received_def MESSAGE_HEADER_SIZE_def)

lemma parse_received_unknown:
  assumes "12 \<le> n" and "n \<le> length buffer" and "\<forall>t. message_type_code t \<noteq> field 4 0 buffer"
  shows "parse_received buffer n = Some (Inl ())"
proof -
  have "field 4 0 (take 12 buffer) = (field 4 0 buffer :: u32)" by (simp add: field_def min_def)
  moreover have "message_type_from_u32 (field 4 0 buffer) = None"
    using assms(3) message_type_from_u32_Some by (cases "message_type_from_u32 (field 4 0 buffer)") blast+
  ultimately show ?thesis using assms(1,2)
    by (simp add: parse_received_def MESSAGE_HEADER_SIZE_def header_from_bytes_def min_def)
qed

lemma port_set_ops:
  assumes "distinct ps"
  shows "distinct (port_set_add p ps)" "set (port_set_add p ps) = insert p (set ps)"
    "distinct (port_set_remove p ps)" "set (port_set_remove p ps) = set ps - {p}"
  using assms by (auto simp: port_set_add_def port_set_remove_def)

end
