(* ===== verification/User_Syscalls.thy ===== *)
theory User_Syscalls
  imports Kernel_Props Libipc
begin

text \<open>
  The two sides of the system call boundary. The entry stub \<^verbatim>\<open>kernel/src/syscall/handler.asm\<close> is
  modelled as a transformation of the register file around the call of the dispatcher. The
  wrappers of \<^verbatim>\<open>userspace/libs/syscall\<close> are modelled as calls of the dispatcher followed by
  their decoding of the result; registers a wrapper does not load keep an arbitrary value.
\<close>

section \<open>The entry stub\<close>

record regs =
  reg_rax :: u64
  reg_rbx :: u64
  reg_rcx :: u64
  reg_rdx :: u64
  reg_rsi :: u64
  reg_rdi :: u64
  reg_rbp :: u64
  reg_rsp :: u64
  reg_r8 :: u64
  reg_r9 :: u64
  reg_r10 :: u64
  reg_r11 :: u64
  reg_r12 :: u64
  reg_r13 :: u64
  reg_r14 :: u64
  reg_r15 :: u64
  reg_rip :: u64
  reg_rflags :: u64

text \<open>The stub's own variables and its stack, a memory of quadwords.\<close>

record stub =
  temp_user_rsp :: u64
  temp_user_rcx :: u64
  temp_user_r11 :: u64
  temp_arg4 :: u64
  temp_arg5 :: u64
  stack_mem :: "u64 \<Rightarrow> u64"

definition stub_push :: "u64 \<Rightarrow> regs \<times> stub \<Rightarrow> regs \<times> stub" where
  "stub_push v s =
     (let r = fst s; sp = reg_rsp r - 8
      in (r\<lparr>reg_rsp := sp\<rparr>, (snd s)\<lparr>stack_mem := (stack_mem (snd s))(sp := v)\<rparr>))"

definition stub_top :: "regs \<times> stub \<Rightarrow> u64" where
  "stub_top s = stack_mem (snd s) (reg_rsp (fst s))"

definition stub_store :: "u64 \<Rightarrow> u64 \<Rightarrow> regs \<times> stub \<Rightarrow> regs \<times> stub" where
  "stub_store off v s = (fst s, (snd s)\<lparr>stack_mem := (stack_mem (snd s))(reg_rsp (fst s) + off := v)\<rparr>)"

text \<open>From the \<open>syscall\<close> instruction to the call of the dispatcher; \<open>base\<close> is the aligned end of the stack.\<close>

definition entry_prologue :: "u64 \<Rightarrow> regs \<times> stub \<Rightarrow> regs \<times> stub" where
  "entry_prologue base s0 =
     (let r0 = fst s0;
          s1 = (r0\<lparr>reg_rsp := base\<rparr>,
                (snd s0)\<lparr>temp_user_rsp := reg_rsp r0, temp_user_rcx := reg_rcx r0, temp_user_r11 := reg_r11 r0, temp_arg4 := reg_r8 r0,
                         temp_arg5 := reg_r9 r0\<rparr>);
          s2 = stub_push (reg_rbx r0) s1;
          s3 = stub_push (reg_rbp r0) s2;
          s4 = stub_push (reg_r12 r0) s3;
          s5 = stub_push (reg_r13 r0) s4;
          s6 = stub_push (reg_r14 r0) s5;
          s7 = stub_push (reg_r15 r0) s6;
          r7 = fst s7;
          rc = r7\<lparr>reg_rcx := reg_rax r7, reg_rax := reg_rdx r7, reg_rdx := reg_rdi r7, reg_r8 := reg_rsi r7, reg_r9 := reg_rdx r7, reg_rsp := reg_rsp r7 - 56\<rparr>;
          s9 = stub_store 32 (reg_r10 rc) (rc, snd s7);
          s10 = stub_store 40 (temp_arg4 (snd s9)) s9;
          s11 = stub_store 48 (temp_arg5 (snd s10)) s10
      in ((fst s11)\<lparr>reg_rax := temp_arg5 (snd s10)\<rparr>, snd s11))"

text \<open>The arguments the dispatcher finds, in the calling convention it is compiled for.\<close>

definition call_args :: "regs \<times> stub \<Rightarrow> u64 list" where
  "call_args s =
     (let r = fst s; m = stack_mem (snd s)
      in [reg_rcx r, reg_rdx r, reg_r8 r, reg_r9 r, m (reg_rsp r + 32), m (reg_rsp r + 40), m (reg_rsp r + 48)])"

text \<open>From the return of the dispatcher to the return to user mode through \<open>iretq\<close>.\<close>

definition entry_epilogue :: "regs \<times> stub \<Rightarrow> regs" where
  "entry_epilogue s =
     (let r = fst s; t = snd s; m = stack_mem t; sp = reg_rsp r + 56;
          r1 = r\<lparr>reg_r15 := m sp, reg_r14 := m (sp + 8), reg_r13 := m (sp + 16), reg_r12 := m (sp + 24), reg_rbp := m (sp + 32),
                 reg_rbx := m (sp + 40)\<rparr>;
          ret_ip = signed_drop_bit 16 (push_bit 16 (temp_user_rcx t));
          flags = ((temp_user_r11 t) AND 0x3C7FD7) OR 0x200
      in r1\<lparr>reg_rcx := ret_ip, reg_r11 := flags, reg_r10 := temp_user_rsp t, reg_rsp := temp_user_rsp t, reg_rip := ret_ip, reg_rflags := flags\<rparr>)"

text \<open>
  What the convention promises of the dispatcher: it returns with the stack pointer and the
  non-volatile registers unchanged and leaves its caller's part of the stack and the stub's
  variables alone. Any other system call that runs in the meantime breaks the last promise.
\<close>

definition win64_return :: "regs \<times> stub \<Rightarrow> regs \<times> stub \<Rightarrow> bool" where
  "win64_return s s' \<longleftrightarrow>
     (let r = fst s; r' = fst s'
      in reg_rsp r' = reg_rsp r \<and> reg_rbx r' = reg_rbx r \<and> reg_rbp r' = reg_rbp r \<and> reg_rsi r' = reg_rsi r \<and> reg_rdi r' = reg_rdi r \<and> reg_r12 r' = reg_r12 r
         \<and> reg_r13 r' = reg_r13 r \<and> reg_r14 r' = reg_r14 r \<and> reg_r15 r' = reg_r15 r
         \<and> temp_user_rsp (snd s') = temp_user_rsp (snd s) \<and> temp_user_rcx (snd s') = temp_user_rcx (snd s)
         \<and> temp_user_r11 (snd s') = temp_user_r11 (snd s)
         \<and> list_all (\<lambda>i. stack_mem (snd s') (reg_rsp r + 56 + 8 * of_nat i) = stack_mem (snd s) (reg_rsp r + 56 + 8 * of_nat i)) [0 ..< 6])"

lemma stub_simps [simp]:
  "fst (stub_push v s) = (fst s)\<lparr>reg_rsp := reg_rsp (fst s) - 8\<rparr>"
  "stack_mem (snd (stub_push v s)) = (stack_mem (snd s))(reg_rsp (fst s) - 8 := v)"
  "temp_user_rsp (snd (stub_push v s)) = temp_user_rsp (snd s)" "temp_user_rcx (snd (stub_push v s)) = temp_user_rcx (snd s)"
  "temp_user_r11 (snd (stub_push v s)) = temp_user_r11 (snd s)" "temp_arg4 (snd (stub_push v s)) = temp_arg4 (snd s)"
  "temp_arg5 (snd (stub_push v s)) = temp_arg5 (snd s)"
  by (simp_all add: stub_push_def Let_def)

lemma stub_store_simps [simp]:
  "fst (stub_store off v s) = fst s"
  "stack_mem (snd (stub_store off v s)) = (stack_mem (snd s))(reg_rsp (fst s) + off := v)"
  "temp_user_rsp (snd (stub_store off v s)) = temp_user_rsp (snd s)" "temp_user_rcx (snd (stub_store off v s)) = temp_user_rcx (snd s)"
  "temp_user_r11 (snd (stub_store off v s)) = temp_user_r11 (snd s)" "temp_arg4 (snd (stub_store off v s)) = temp_arg4 (snd s)"
  "temp_arg5 (snd (stub_store off v s)) = temp_arg5 (snd s)"
  by (simp_all add: stub_store_def)

lemma entry_args:
  "call_args (entry_prologue base (r, t)) = [reg_rax r, reg_rdi r, reg_rsi r, reg_rdx r, reg_r10 r, reg_r8 r, reg_r9 r]"
  by (simp add: call_args_def entry_prologue_def Let_def)

lemma entry_return:
  assumes "win64_return (entry_prologue base (r, t)) s'"
  shows "reg_rax (entry_epilogue s') = reg_rax (fst s')" "reg_rbx (entry_epilogue s') = reg_rbx r" "reg_rbp (entry_epilogue s') = reg_rbp r"
    "reg_rsi (entry_epilogue s') = reg_rsi r" "reg_rdi (entry_epilogue s') = reg_rdi r" "reg_rsp (entry_epilogue s') = reg_rsp r"
    "reg_r12 (entry_epilogue s') = reg_r12 r" "reg_r13 (entry_epilogue s') = reg_r13 r" "reg_r14 (entry_epilogue s') = reg_r14 r"
    "reg_r15 (entry_epilogue s') = reg_r15 r" "reg_rip (entry_epilogue s') = signed_drop_bit 16 (push_bit 16 (reg_rcx r))"
    "reg_rflags (entry_epilogue s') = (reg_r11 r AND 0x3C7FD7) OR 0x200"
  using assms by (simp_all add: win64_return_def entry_epilogue_def entry_prologue_def Let_def upt_rec)


definition regs_zero :: regs where
  "regs_zero =
     \<lparr>reg_rax = 38, reg_rbx = 1, reg_rcx = 0x400123, reg_rdx = 2, reg_rsi = 3, reg_rdi = 4, reg_rbp = 5, reg_rsp = 0x7FFF0000,
      reg_r8 = 6, reg_r9 = 7, reg_r10 = 8, reg_r11 = 0x3202, reg_r12 = 9, reg_r13 = 10, reg_r14 = 11, reg_r15 = 12, reg_rip = 0,
      reg_rflags = 0\<rparr>"

definition stub_zero :: stub where
  "stub_zero = \<lparr>temp_user_rsp = 0, temp_user_rcx = 0, temp_user_r11 = 0, temp_arg4 = 0, temp_arg5 = 0, stack_mem = (\<lambda>_. 0)\<rparr>"

text \<open>A dispatcher that answers 77 and overwrites every volatile register.\<close>

definition busy_dispatcher :: "regs \<times> stub \<Rightarrow> regs \<times> stub" where
  "busy_dispatcher s =
     ((fst s)\<lparr>reg_rax := 77, reg_rcx := 0, reg_rdx := 0, reg_r8 := 0, reg_r9 := 0, reg_r10 := 0, reg_r11 := 0\<rparr>, snd s)"


text \<open>
  The wrappers declare only \<open>rcx\<close> and \<open>r11\<close> as overwritten, but the argument registers \<open>rdx\<close>,
  \<open>r8\<close>, \<open>r9\<close> and \<open>r10\<close> come back changed as well.
\<close>

lemma syscall_clobbers_arguments:
  "reg_rdx (entry_epilogue (busy_dispatcher (entry_prologue base (r, t)))) = 0"
  "reg_r10 (entry_epilogue (busy_dispatcher (entry_prologue base (r, t)))) = reg_rsp r"
  by (simp_all add: entry_epilogue_def busy_dispatcher_def entry_prologue_def Let_def)

section \<open>The wrappers\<close>

datatype syscall_error =
    Success | InvalidArgument | NotImplemented | OutOfMemory | PermissionDenied | Busy | MessageTooLarge | TimedOut
  | WouldBlock | Deadlock

definition from_raw :: "u64 \<Rightarrow> syscall_error option" where
  "from_raw v =
     map_of [(0, Success), (u64_max - 1, InvalidArgument), (u64_max - 2, NotImplemented), (u64_max - 3, OutOfMemory),
             (u64_max - 4, PermissionDenied), (u64_max - 5, Busy), (u64_max - 6, MessageTooLarge), (u64_max - 7, TimedOut),
             (u64_max - 8, WouldBlock), (u64_max - 9, Deadlock)] v"

definition is_would_block :: "u64 \<Rightarrow> bool" where
  "is_would_block v \<longleftrightarrow> v = u64_max - 8"

text \<open>
  The registers \<open>r10\<close>, \<open>r8\<close> and \<open>r9\<close> as they happen to be, for the wrappers that do not load
  them. A call that gives up the processor has no result yet.
\<close>

type_synonym leftover = "u64 \<times> u64 \<times> u64"

definition syscall3 :: "u64 \<Rightarrow> leftover \<Rightarrow> u64 \<Rightarrow> u64 \<Rightarrow> u64 \<Rightarrow> u64 \<Rightarrow> kernel \<Rightarrow> sys_out \<times> kernel" where
  "syscall3 pc x num a0 a1 a2 k = rust_syscall_dispatcher pc num a0 a1 a2 (fst x) (fst (snd x)) (snd (snd x)) k"

definition decoded :: "(u64 \<Rightarrow> 'r) \<Rightarrow> sys_out \<times> kernel \<Rightarrow> 'r option \<times> kernel" where
  "decoded f = map_prod (\<lambda>out. case out of Ret v \<Rightarrow> Some (f v) | Suspended _ \<Rightarrow> None) id"

definition user_create_port :: "u64 \<Rightarrow> leftover \<Rightarrow> kernel \<Rightarrow> (syscall_error + u64) option \<times> kernel" where
  "user_create_port pc x k =
     decoded (\<lambda>result. if result = 0 \<or> result \<ge> u64_max - 10 then Inl OutOfMemory else Inr result)
       (syscall3 pc x SYS_IPC_CREATE_PORT 0 0 0 k)"

definition user_close_port :: "u64 \<Rightarrow> leftover \<Rightarrow> u64 \<Rightarrow> kernel \<Rightarrow> (syscall_error + unit) option \<times> kernel" where
  "user_close_port pc x port k =
     decoded (\<lambda>result. if result = ESUCCESS then Inr () else Inl InvalidArgument)
       (syscall3 pc x SYS_IPC_CLOSE_PORT port 0 0 k)"

definition user_send :: "u64 \<Rightarrow> leftover \<Rightarrow> u64 \<Rightarrow> u64 \<Rightarrow> u64 \<Rightarrow> kernel \<Rightarrow> (syscall_error + unit) option \<times> kernel" where
  "user_send pc x port data_ptr len k =
     decoded (\<lambda>result. if result = ESUCCESS then Inr () else if result = EPERM then Inl PermissionDenied else Inl InvalidArgument)
       (syscall3 pc x SYS_IPC_SEND port data_ptr len k)"

definition user_recv :: "u64 \<Rightarrow> leftover \<Rightarrow> u64 \<Rightarrow> u64 \<Rightarrow> u64 \<Rightarrow> kernel \<Rightarrow> (syscall_error + u64) option \<times> kernel" where
  "user_recv pc x port buffer_ptr len k =
     decoded (\<lambda>result. if result \<ge> u64_max - 10 then (if result = EWOULDBLOCK then Inl WouldBlock else Inl InvalidArgument)
                       else Inr result)
       (syscall3 pc x SYS_IPC_RECV port buffer_ptr len k)"

definition user_try_recv :: "u64 \<Rightarrow> leftover \<Rightarrow> u64 \<Rightarrow> u64 \<Rightarrow> u64 \<Rightarrow> kernel \<Rightarrow> (syscall_error + u64 option) option \<times> kernel" where
  "user_try_recv pc x port buffer_ptr len k =
     decoded (\<lambda>result. if result = EWOULDBLOCK then Inr None
                       else if result \<ge> u64_max - 10 then Inl InvalidArgument
                       else Inr (Some result))
       (syscall3 pc x SYS_IPC_TRY_RECV port buffer_ptr len k)"

definition user_send_async :: "u64 \<Rightarrow> leftover \<Rightarrow> u64 \<Rightarrow> u64 \<Rightarrow> u64 \<Rightarrow> kernel \<Rightarrow> (syscall_error + unit) option \<times> kernel" where
  "user_send_async pc x port data_ptr len k =
     decoded (\<lambda>result. if result = ESUCCESS then Inr () else Inl InvalidArgument)
       (syscall3 pc x SYS_IPC_SEND_ASYNC port data_ptr len k)"

definition user_wait_any :: "u64 \<Rightarrow> leftover \<Rightarrow> u64 \<Rightarrow> u64 \<Rightarrow> u64 \<Rightarrow> kernel \<Rightarrow> (syscall_error + u64) option \<times> kernel" where
  "user_wait_any pc x ports_ptr n timeout_ms k =
     (if n = 0 \<or> n > 64 then (Some (Inl InvalidArgument), k)
      else decoded (\<lambda>result. if result < n then Inr result
                             else if result = EWOULDBLOCK then Inl WouldBlock
                             else if result = ETIMEDOUT then Inl TimedOut
                             else Inl InvalidArgument)
             (syscall3 pc x SYS_IPC_WAIT_ANY ports_ptr n timeout_ms k))"

definition keyboard_poll :: "u64 \<Rightarrow> leftover \<Rightarrow> kernel \<Rightarrow> u8 option option \<times> kernel" where
  "keyboard_poll pc x k =
     decoded (\<lambda>result. if result = EWOULDBLOCK then None else Some (ucast result)) (syscall3 pc x SYS_KEYBOARD_POLL 0 0 0 k)"

definition mouse_poll_byte :: "u64 \<Rightarrow> leftover \<Rightarrow> kernel \<Rightarrow> u8 option option \<times> kernel" where
  "mouse_poll_byte pc x k =
     decoded (\<lambda>result. if result = EWOULDBLOCK then None else Some (ucast result)) (syscall3 pc x SYS_MOUSE_POLL 0 0 0 k)"

definition port_read_u8 :: "u64 \<Rightarrow> leftover \<Rightarrow> u16 \<Rightarrow> kernel \<Rightarrow> (syscall_error + u8) option \<times> kernel" where
  "port_read_u8 pc x port k =
     decoded (\<lambda>result. if result = EPERM then Inl PermissionDenied
                       else if result = EINVAL then Inl InvalidArgument
                       else Inr (ucast result))
       (syscall3 pc x SYS_IO_PORT_READ (ucast port) 1 0 k)"

definition port_write_u8 :: "u64 \<Rightarrow> leftover \<Rightarrow> u16 \<Rightarrow> u8 \<Rightarrow> kernel \<Rightarrow> (syscall_error + unit) option \<times> kernel" where
  "port_write_u8 pc x port v k =
     decoded (\<lambda>result. if result = ESUCCESS then Inr ()
                       else if result = EPERM then Inl PermissionDenied
                       else Inl InvalidArgument)
       (syscall3 pc x SYS_IO_PORT_WRITE (ucast port) (ucast v) 0 k)"

definition get_ticks :: "u64 \<Rightarrow> leftover \<Rightarrow> kernel \<Rightarrow> u64 option \<times> kernel" where
  "get_ticks pc x k = decoded id (syscall3 pc x SYS_GET_TICKS 0 0 0 k)"

definition get_time_ms :: "u64 \<Rightarrow> leftover \<Rightarrow> kernel \<Rightarrow> u64 option \<times> kernel" where
  "get_time_ms pc x k = decoded (\<lambda>result. result * 10) (syscall3 pc x SYS_GET_TICKS 0 0 0 k)"

definition yield_now :: "u64 \<Rightarrow> leftover \<Rightarrow> kernel \<Rightarrow> unit option \<times> kernel" where
  "yield_now pc x k = decoded (\<lambda>_. ()) (syscall3 pc x SYS_THREAD_YIELD 0 0 0 k)"

definition sleep_ms :: "u64 \<Rightarrow> leftover \<Rightarrow> u64 \<Rightarrow> kernel \<Rightarrow> unit option \<times> kernel" where
  "sleep_ms pc x milliseconds k = decoded (\<lambda>_. ()) (syscall3 pc x SYS_THREAD_SLEEP milliseconds 0 0 k)"

section \<open>Results are told apart\<close>

lemma dispatch_devices:
  "rust_syscall_dispatcher pc SYS_MOUSE_POLL a0 a1 a2 a3 a4 a5 k = ret (sys_mouse_poll k)"
  "rust_syscall_dispatcher pc SYS_IO_PORT_READ a0 a1 a2 a3 a4 a5 k = ret (sys_io_port_read (ucast a0) (ucast a1) k)"
  "rust_syscall_dispatcher pc SYS_IO_PORT_WRITE a0 a1 a2 a3 a4 a5 k = ret (sys_io_port_write (ucast a0) (ucast a1) k)"
  "rust_syscall_dispatcher pc SYS_GET_TICKS a0 a1 a2 a3 a4 a5 k = ret (sys_get_ticks k)"
  by (simp_all add: rust_syscall_dispatcher_def syscall_numbers)

lemma decoded_ret [simp]: "decoded f (Ret v, k) = (Some (f v), k)"
  by (simp add: decoded_def)

text \<open>Every error code of the kernel is an error for the wrappers, and no length of a message is.\<close>

lemma kernel_errors_decoded:
  "map from_raw [ESUCCESS, EINVAL, ENOSYS, ENOMEM, EPERM, EBUSY, EMSGSIZE, ETIMEDOUT, EWOULDBLOCK, EDEADLK]
     = map Some [Success, InvalidArgument, NotImplemented, OutOfMemory, PermissionDenied, Busy, MessageTooLarge, TimedOut,
                 WouldBlock, Deadlock]"
  by (simp add: from_raw_def error_codes)

lemma kernel_errors_high:
  "list_all (\<lambda>e. e \<ge> u64_max - 10) [EINVAL, ENOSYS, ENOMEM, EPERM, EBUSY, EMSGSIZE, ETIMEDOUT, EWOULDBLOCK, EDEADLK]"
  by (simp add: error_codes)

lemma length_not_error: "n \<le> MAX_MESSAGE_SIZE \<Longrightarrow> (of_nat n :: u64) < u64_max - 10"
  by (simp add: word_less_nat_alt unat_of_nat)

section \<open>Polling the devices\<close>

lemma byte_not_error: "(ucast (b :: u8) :: u64) \<noteq> EWOULDBLOCK" "ucast (ucast (b :: u8) :: u64) = b"
proof -
  have "unat (ucast b :: u64) \<le> unat b" by (simp add: unsigned_ucast_eq take_bit_nat_less_eq_self)
  also have "unat b < 256" using unsigned_less [of b, where ?'a = nat] by simp
  finally have "unat (ucast b :: u64) < 256" .
  moreover have "unat EWOULDBLOCK = 18446744073709551607" by (simp add: EWOULDBLOCK_def)
  ultimately show "(ucast b :: u64) \<noteq> EWOULDBLOCK" by auto
  show "ucast (ucast b :: u64) = b" by (rule bit_word_eqI) (simp add: bit_unsigned_iff)
qed

lemma keyboard_poll_fifo:
  assumes "rb_ok KEYBOARD_BUFFER_SIZE (in_keyboard (k_input k))"
  shows "\<exists>rb. keyboard_poll pc x k = (Some (case rb_items (in_keyboard (k_input k)) of [] \<Rightarrow> None | b # _ \<Rightarrow> Some b),
        k\<lparr>k_input := (k_input k)\<lparr>in_keyboard := rb\<rparr>\<rparr>)
     \<and> rb_ok KEYBOARD_BUFFER_SIZE rb \<and> rb_items rb = tl (rb_items (in_keyboard (k_input k)))"
proof -
  obtain b rb where p: "rb_pop (in_keyboard (k_input k)) = (b, rb)" by fastforce
  note st = rb_pop_step [OF assms p]
  have "keyboard_poll pc x k = (Some b, k\<lparr>k_input := (k_input k)\<lparr>in_keyboard := rb\<rparr>\<rparr>)"
    by (cases b) (simp_all add: keyboard_poll_def syscall3_def dispatch_calls sys_keyboard_poll_def poll_keyboard_byte_def p
        byte_not_error)
  with st show ?thesis by (cases "rb_items (in_keyboard (k_input k))") auto
qed

lemma mouse_poll_fifo:
  assumes "rb_ok MOUSE_BUFFER_SIZE (in_mouse (k_input k))"
  shows "\<exists>rb. mouse_poll_byte pc x k = (Some (case rb_items (in_mouse (k_input k)) of [] \<Rightarrow> None | b # _ \<Rightarrow> Some b),
        k\<lparr>k_input := (k_input k)\<lparr>in_mouse := rb\<rparr>\<rparr>)
     \<and> rb_ok MOUSE_BUFFER_SIZE rb \<and> rb_items rb = tl (rb_items (in_mouse (k_input k)))"
proof -
  obtain b rb where p: "rb_pop (in_mouse (k_input k)) = (b, rb)" by fastforce
  note st = rb_pop_step [OF assms p]
  have "mouse_poll_byte pc x k = (Some b, k\<lparr>k_input := (k_input k)\<lparr>in_mouse := rb\<rparr>\<rparr>)"
    by (cases b) (simp_all add: mouse_poll_byte_def syscall3_def dispatch_devices sys_mouse_poll_def poll_mouse_byte_def p
        byte_not_error)
  with st show ?thesis by (cases "rb_items (in_mouse (k_input k))") auto
qed

section \<open>The send wrappers and the kernel disagree\<close>

text \<open>
  The wrapper passes port, buffer and length; the kernel expects port, message type, buffer and
  length. So the buffer address becomes the message type, the length becomes the address of
  the payload, and the length is whatever is left in \<open>r10\<close>: with zero there, the message that
  is queued is empty and carries the address as its type, while the wrapper reports success.
\<close>

lemma send_async_misplaced:
  assumes "sc_current k = Some sender" and "bt_get (ipc_ports k) port = Some p" and "length (p_messages p) < MAX_QUEUE_DEPTH"
    and "fst x = 0"
  shows "\<exists>k' p' m. user_send_async pc x port data_ptr len k = (Some (Inr ()), k')
    \<and> bt_get (ipc_ports k') port = Some p' \<and> p_messages p' = p_messages p @ [m] \<and> m_payload m = [] \<and> m_type m = ucast data_ptr"
proof -
  obtain p' m k' where "send_message port (message_new (current_time_ms k) sender (ucast data_ptr) []) k = (Inr (), k')"
    "ipc_ports k' = bt_insert port p' (ipc_ports k)" "p_messages p' = p_messages p @ [m]" "m_type m = ucast data_ptr" "m_payload m = []"
    using send_message_appends [OF assms(2,3), of "[]" sender "ucast data_ptr"] by auto
  with assms(1,4) show ?thesis
    by (simp add: user_send_async_def syscall3_def dispatch_calls sys_ipc_send_async_def with_caller_def bt_get_insert)
qed

end
