(* ===== verification/Poll_Loop.thy ===== *)
theory Poll_Loop
  imports User_Syscalls
begin

text \<open>
  The loop by which user space empties a device buffer of the kernel,
  \<^verbatim>\<open>while let Some(byte) = poll() { if let Some(event) = self.process(byte) { return Some(event); } }\<close>,
  once for the keyboard and once for the mouse: what it returns is the next event of the
  decoded stream. The contract it relies on is the locale \<open>byte_source\<close>, which the two polling
  system calls of the kernel provide.
\<close>

fun poll_loop ::
  "('k \<Rightarrow> u8 option option \<times> 'k) \<Rightarrow> (u8 \<Rightarrow> 's \<Rightarrow> 'e option \<times> 's) \<Rightarrow> nat \<Rightarrow> 's \<Rightarrow> 'k \<Rightarrow> ('e option \<times> 's \<times> 'k) option" where
  "poll_loop poll process 0 s k = None"
| "poll_loop poll process (Suc n) s k =
     (case poll k of
        (None, _) \<Rightarrow> None
      | (Some None, k1) \<Rightarrow> Some (None, s, k1)
      | (Some (Some byte), k1) \<Rightarrow>
          (case process byte s of
             (Some ev, s1) \<Rightarrow> Some (Some ev, s1, k1)
           | (None, s1) \<Rightarrow> poll_loop poll process n s1 k1))"

text \<open>The events of a sequence of bytes.\<close>

fun decode_bytes :: "(u8 \<Rightarrow> 's \<Rightarrow> 'e option \<times> 's) \<Rightarrow> u8 list \<Rightarrow> 's \<Rightarrow> 'e list \<times> 's" where
  "decode_bytes process [] s = ([], s)"
| "decode_bytes process (b # bs) s =
     (let (e, s1) = process b s; (es, s2) = decode_bytes process bs s1 in (case e of None \<Rightarrow> es | Some ev \<Rightarrow> ev # es, s2))"

text \<open>A client that calls the loop until it has nothing to return, at most \<open>m\<close> times.\<close>

fun drain_events ::
  "('k \<Rightarrow> u8 option option \<times> 'k) \<Rightarrow> (u8 \<Rightarrow> 's \<Rightarrow> 'e option \<times> 's) \<Rightarrow> nat \<Rightarrow> nat \<Rightarrow> 's \<Rightarrow> 'k \<Rightarrow> ('e list \<times> 's \<times> 'k) option" where
  "drain_events poll process n 0 s k = None"
| "drain_events poll process n (Suc m) s k =
     (case poll_loop poll process n s k of
        None \<Rightarrow> None
      | Some (None, s1, k1) \<Rightarrow> Some ([], s1, k1)
      | Some (Some e, s1, k1) \<Rightarrow> map_option (\<lambda>(es, r). (e # es, r)) (drain_events poll process n m s1 k1))"

lemma decode_bytes_append:
  "decode_bytes p (xs @ ys) s = (let (es, s1) = decode_bytes p xs s; (fs, s2) = decode_bytes p ys s1 in (es @ fs, s2))"
  by (induction xs arbitrary: s) (auto simp: split_beta Let_def split: option.split)

locale byte_source =
  fixes poll :: "'k \<Rightarrow> u8 option option \<times> 'k"
    and items :: "'k \<Rightarrow> u8 list"
    and ok :: "'k \<Rightarrow> bool"
  assumes poll_step:
    "ok k \<Longrightarrow> \<exists>k'. poll k = (Some (case items k of [] \<Rightarrow> None | b # _ \<Rightarrow> Some b), k') \<and> ok k' \<and> items k' = tl (items k)"
begin

text \<open>
  With more fuel than there are bytes the loop ends. It answers None exactly when the bytes
  complete no event, and otherwise the first event of the stream; the rest of the stream decodes
  from the state it leaves.
\<close>

lemma loop_decodes:
  assumes "ok k" and "items k = bs" and "length bs < n"
  shows "\<exists>ev s' k'. poll_loop poll p n s k = Some (ev, s', k') \<and> ok k' \<and> length (items k') \<le> length bs
    \<and> (case ev of None \<Rightarrow> decode_bytes p bs s = ([], s') \<and> items k' = []
       | Some e \<Rightarrow> length (items k') < length bs
           \<and> decode_bytes p bs s = (e # fst (decode_bytes p (items k') s'), snd (decode_bytes p (items k') s')))"
  using assms
proof (induction bs arbitrary: n s k)
  case Nil
  then obtain m where n: "n = Suc m" by (cases n) auto
  from poll_step [OF Nil(1)] Nil(2) obtain k' where "poll k = (Some None, k')" "ok k'" "items k' = []" by auto
  then show ?case by (simp add: n)
next
  case (Cons b bs)
  then obtain m where n: "n = Suc m" by (cases n) auto
  from poll_step [OF Cons.prems(1)] Cons.prems(2) obtain k1 where k1: "poll k = (Some (Some b), k1)" "ok k1" "items k1 = bs" by auto
  obtain e s1 where st: "p b s = (e, s1)" by fastforce
  show ?case
  proof (cases e)
    case (Some ev)
    with k1 st n show ?thesis by (simp add: split_beta)
  next
    case None
    from Cons.IH [OF k1(2,3), of m s1] Cons.prems(3) n obtain ev s' k' where
      "poll_loop poll p m s1 k1 = Some (ev, s', k')" "ok k'" "length (items k') \<le> length bs"
      "case ev of None \<Rightarrow> decode_bytes p bs s1 = ([], s') \<and> items k' = []
       | Some e \<Rightarrow> length (items k') < length bs
           \<and> decode_bytes p bs s1 = (e # fst (decode_bytes p (items k') s'), snd (decode_bytes p (items k') s'))" by auto
    with None k1(1) st n show ?thesis
      by (intro exI [of _ ev] exI [of _ s'] exI [of _ k']) (simp add: split_beta split: option.splits)
  qed
qed

text \<open>Called until it has nothing more to return, the loop yields the events of the whole buffer, in order.\<close>

lemma drain_decodes:
  assumes "ok k" and "length (items k) < n" and "length (items k) < m"
  shows "\<exists>k'. drain_events poll p n m s k = Some (fst (decode_bytes p (items k) s), snd (decode_bytes p (items k) s), k')
    \<and> ok k' \<and> items k' = []"
  using assms
proof (induction m arbitrary: s k)
  case (Suc m)
  from loop_decodes [OF Suc.prems(1) refl Suc.prems(2), of p s] obtain ev s1 k1 where
    l: "poll_loop poll p n s k = Some (ev, s1, k1)" "ok k1"
    and c: "case ev of None \<Rightarrow> decode_bytes p (items k) s = ([], s1) \<and> items k1 = []
       | Some e \<Rightarrow> length (items k1) < length (items k)
           \<and> decode_bytes p (items k) s = (e # fst (decode_bytes p (items k1) s1), snd (decode_bytes p (items k1) s1))" by blast
  show ?case
  proof (cases ev)
    case None
    with l c show ?thesis by simp
  next
    case (Some e)
    with c Suc.prems have "length (items k1) < n" "length (items k1) < m" by auto
    from Suc.IH [OF l(2) this, of s1] obtain k' where
      "drain_events poll p n m s1 k1 = Some (fst (decode_bytes p (items k1) s1), snd (decode_bytes p (items k1) s1), k')"
      "ok k'" "items k' = []" by blast
    with Some l c show ?thesis by simp
  qed
qed simp

end

interpretation keyboard_bytes: byte_source "keyboard_poll pc x" "\<lambda>k. rb_items (in_keyboard (k_input k))"
  "\<lambda>k. rb_ok KEYBOARD_BUFFER_SIZE (in_keyboard (k_input k))" for pc x
  by unfold_locales (drule keyboard_poll_fifo, fastforce)

interpretation mouse_bytes: byte_source "mouse_poll_byte pc x" "\<lambda>k. rb_items (in_mouse (k_input k))"
  "\<lambda>k. rb_ok MOUSE_BUFFER_SIZE (in_mouse (k_input k))" for pc x
  by unfold_locales (drule mouse_poll_fifo, fastforce)

end
