(* ===== verification/Key_Input.thy ===== *)
theory Key_Input
  imports Poll_Loop Terminal_Parser
begin

text \<open>
  From scancodes to characters in user space: the keyboard driver
  (\<^verbatim>\<open>userspace/drivers/keyboard/src/main.rs\<close>), the terminal's input handler
  (\<^verbatim>\<open>userspace/drivers/terminal/src/input.rs\<close>) and the table of the system call library
  (\<^verbatim>\<open>userspace/libs/syscall/src/input.rs\<close>). The three carry the same layout in three forms; they
  are shown to agree, and typing a text on this layout is shown to produce the text.
\<close>

section \<open>The keyboard layout\<close>

datatype keysym = Sym char char | Letter char

definition letter :: "char \<Rightarrow> bool \<Rightarrow> bool \<Rightarrow> char" where
  "letter base shift caps = (if shift \<noteq> caps then to_ascii_uppercase base else base)"

fun keysym_char :: "keysym \<Rightarrow> bool \<Rightarrow> bool \<Rightarrow> char" where
  "keysym_char (Sym plain shifted) shift caps = (if shift then shifted else plain)"
| "keysym_char (Letter base) shift caps = letter base shift caps"

definition driver_keys :: "(u8 \<times> keysym) list" where
  "driver_keys =
     [(0x02, Sym (CHR ''1'') (CHR ''!'')), (0x03, Sym (CHR ''2'') (CHR ''@'')), (0x04, Sym (CHR ''3'') (CHR ''#'')),
      (0x05, Sym (CHR ''4'') (CHR ''$'')), (0x06, Sym (CHR ''5'') (CHR ''%'')), (0x07, Sym (CHR ''6'') (CHR ''^'')),
      (0x08, Sym (CHR ''7'') (CHR ''&'')), (0x09, Sym (CHR ''8'') (CHR ''*'')), (0x0A, Sym (CHR ''9'') (CHR ''('')),
      (0x0B, Sym (CHR ''0'') (CHR '')'')), (0x0C, Sym (CHR ''-'') (CHR ''_'')), (0x0D, Sym (CHR ''='') (CHR ''+'')),
      (0x0E, Sym (CHR 0x08) (CHR 0x08)), (0x0F, Sym (CHR 0x09) (CHR 0x09)), (0x1C, Sym (CHR 0x0A) (CHR 0x0A)),
      (0x39, Sym (CHR '' '') (CHR '' '')), (0x01, Sym (CHR 0x1B) (CHR 0x1B)), (0x1A, Sym (CHR ''['') (CHR ''{'')),
      (0x1B, Sym (CHR '']'') (CHR ''}'')), (0x27, Sym (CHR '';'') (CHR '':'')), (0x28, Sym (CHR 0x27) (CHR 0x22)),
      (0x29, Sym (CHR 0x60) (CHR ''~'')), (0x2B, Sym (CHR 0x5C) (CHR ''|'')), (0x33, Sym (CHR '','') (CHR ''<'')),
      (0x34, Sym (CHR ''.'') (CHR ''>'')), (0x35, Sym (CHR ''/'') (CHR ''?'')), (0x10, Letter (CHR ''q'')),
      (0x11, Letter (CHR ''w'')), (0x12, Letter (CHR ''e'')), (0x13, Letter (CHR ''r'')), (0x14, Letter (CHR ''t'')),
      (0x15, Letter (CHR ''y'')), (0x16, Letter (CHR ''u'')), (0x17, Letter (CHR ''i'')), (0x18, Letter (CHR ''o'')),
      (0x19, Letter (CHR ''p'')), (0x1E, Letter (CHR ''a'')), (0x1F, Letter (CHR ''s'')), (0x20, Letter (CHR ''d'')),
      (0x21, Letter (CHR ''f'')), (0x22, Letter (CHR ''g'')), (0x23, Letter (CHR ''h'')), (0x24, Letter (CHR ''j'')),
      (0x25, Letter (CHR ''k'')), (0x26, Letter (CHR ''l'')), (0x2C, Letter (CHR ''z'')), (0x2D, Letter (CHR ''x'')),
      (0x2E, Letter (CHR ''c'')), (0x2F, Letter (CHR ''v'')), (0x30, Letter (CHR ''b'')), (0x31, Letter (CHR ''n'')),
      (0x32, Letter (CHR ''m''))]"

definition driver_translate :: "u8 \<Rightarrow> bool \<Rightarrow> bool \<Rightarrow> u8" where
  "driver_translate code shift caps =
     (case map_of driver_keys code of None \<Rightarrow> 0 | Some s \<Rightarrow> of_char (keysym_char s shift caps))"

definition terminal_keys :: "(u8 \<times> keysym) list" where
  "terminal_keys =
     [(0x02, Sym (CHR ''1'') (CHR ''!'')), (0x03, Sym (CHR ''2'') (CHR ''@'')), (0x04, Sym (CHR ''3'') (CHR ''#'')),
      (0x05, Sym (CHR ''4'') (CHR ''$'')), (0x06, Sym (CHR ''5'') (CHR ''%'')), (0x07, Sym (CHR ''6'') (CHR ''^'')),
      (0x08, Sym (CHR ''7'') (CHR ''&'')), (0x09, Sym (CHR ''8'') (CHR ''*'')), (0x0A, Sym (CHR ''9'') (CHR ''('')),
      (0x0B, Sym (CHR ''0'') (CHR '')'')), (0x0C, Sym (CHR ''-'') (CHR ''_'')), (0x0D, Sym (CHR ''='') (CHR ''+'')),
      (0x10, Letter (CHR ''q'')), (0x11, Letter (CHR ''w'')), (0x12, Letter (CHR ''e'')), (0x13, Letter (CHR ''r'')),
      (0x14, Letter (CHR ''t'')), (0x15, Letter (CHR ''y'')), (0x16, Letter (CHR ''u'')), (0x17, Letter (CHR ''i'')),
      (0x18, Letter (CHR ''o'')), (0x19, Letter (CHR ''p'')), (0x1A, Sym (CHR ''['') (CHR ''{'')),
      (0x1B, Sym (CHR '']'') (CHR ''}'')), (0x1E, Letter (CHR ''a'')), (0x1F, Letter (CHR ''s'')),
      (0x20, Letter (CHR ''d'')), (0x21, Letter (CHR ''f'')), (0x22, Letter (CHR ''g'')), (0x23, Letter (CHR ''h'')),
      (0x24, Letter (CHR ''j'')), (0x25, Letter (CHR ''k'')), (0x26, Letter (CHR ''l'')),
      (0x27, Sym (CHR '';'') (CHR '':'')), (0x28, Sym (CHR 0x27) (CHR 0x22)), (0x29, Sym (CHR 0x60) (CHR ''~'')),
      (0x2B, Sym (CHR 0x5C) (CHR ''|'')), (0x2C, Letter (CHR ''z'')), (0x2D, Letter (CHR ''x'')),
      (0x2E, Letter (CHR ''c'')), (0x2F, Letter (CHR ''v'')), (0x30, Letter (CHR ''b'')), (0x31, Letter (CHR ''n'')),
      (0x32, Letter (CHR ''m'')), (0x33, Sym (CHR '','') (CHR ''<'')), (0x34, Sym (CHR ''.'') (CHR ''>'')),
      (0x35, Sym (CHR ''/'') (CHR ''?'')), (0x39, Sym (CHR '' '') (CHR '' ''))]"

definition terminal_translate :: "u8 \<Rightarrow> bool \<Rightarrow> bool \<Rightarrow> char option" where
  "terminal_translate code shift caps = map_option (\<lambda>s. keysym_char s shift caps) (map_of terminal_keys code)"

definition SCANCODE_MAP :: "nat list" where
  "SCANCODE_MAP =
     [0, 27, 49, 50, 51, 52, 53, 54, 55, 56, 57, 48, 45, 61, 8, 9,
      113, 119, 101, 114, 116, 121, 117, 105, 111, 112, 91, 93, 10, 0, 97, 115,
      100, 102, 103, 104, 106, 107, 108, 59, 39, 96, 0, 92, 122, 120, 99, 118,
      98, 110, 109, 44, 46, 47, 0, 42, 0, 32, 0, 0, 0, 0, 0, 0,
      0, 0, 0, 0, 0, 0, 0, 55, 56, 57, 45, 52, 53, 54, 43, 49,
      50, 51, 48, 46, 0, 0, 0, 0, 0, 0, 0, 0, 0, 0, 0, 0,
      0, 0, 0, 0, 0, 0, 0, 0, 0, 0, 0, 0, 0, 0, 0, 0,
      0, 0, 0, 0, 0, 0, 0, 0, 0, 0, 0, 0, 0, 0, 0, 0]"

definition SCANCODE_MAP_SHIFTED :: "nat list" where
  "SCANCODE_MAP_SHIFTED =
     [0, 27, 33, 64, 35, 36, 37, 94, 38, 42, 40, 41, 95, 43, 8, 9,
      81, 87, 69, 82, 84, 89, 85, 73, 79, 80, 123, 125, 10, 0, 65, 83,
      68, 70, 71, 72, 74, 75, 76, 58, 34, 126, 0, 124, 90, 88, 67, 86,
      66, 78, 77, 60, 62, 63, 0, 42, 0, 32, 0, 0, 0, 0, 0, 0,
      0, 0, 0, 0, 0, 0, 0, 55, 56, 57, 45, 52, 53, 54, 43, 49,
      50, 51, 48, 46, 0, 0, 0, 0, 0, 0, 0, 0, 0, 0, 0, 0,
      0, 0, 0, 0, 0, 0, 0, 0, 0, 0, 0, 0, 0, 0, 0, 0,
      0, 0, 0, 0, 0, 0, 0, 0, 0, 0, 0, 0, 0, 0, 0, 0]"

definition scancode_to_ascii :: "u8 \<Rightarrow> bool \<Rightarrow> char option" where
  "scancode_to_ascii scancode shift =
     (if scancode \<ge> 128 then None
      else
        let c = (if shift then SCANCODE_MAP_SHIFTED ! unat scancode else SCANCODE_MAP ! unat scancode)
        in if c = 0 then None else Some (char_of c))"

section \<open>The keyboard driver\<close>

record keyboard_state =
  kb_shift :: bool
  kb_ctrl :: bool
  kb_alt :: bool
  kb_caps_lock :: bool
  kb_extended :: bool

definition keyboard_state_new :: keyboard_state where
  "keyboard_state_new = \<lparr>kb_shift = False, kb_ctrl = False, kb_alt = False, kb_caps_lock = False, kb_extended = False\<rparr>"

definition kb_modifiers :: "keyboard_state \<Rightarrow> key_modifiers" where
  "kb_modifiers s = \<lparr>km_shift = kb_shift s, km_ctrl = kb_ctrl s, km_alt = kb_alt s, km_caps_lock = kb_caps_lock s\<rparr>"

definition kb_process_scancode :: "u8 \<Rightarrow> keyboard_state \<Rightarrow> (u8 \<times> u8 \<times> bool) option \<times> keyboard_state" where
  "kb_process_scancode scancode s =
     (if scancode = 0xE0 then (None, s\<lparr>kb_extended := True\<rparr>)
      else
        let s1 = s\<lparr>kb_extended := False\<rparr>;
            is_release = (scancode AND 0x80 \<noteq> 0);
            code = scancode AND 0x7F
        in if code = 0x2A \<or> code = 0x36 then (None, s1\<lparr>kb_shift := \<not> is_release\<rparr>)
           else if code = 0x1D then (None, s1\<lparr>kb_ctrl := \<not> is_release\<rparr>)
           else if code = 0x38 then (None, s1\<lparr>kb_alt := \<not> is_release\<rparr>)
           else if code = 0x3A then (None, if is_release then s1 else s1\<lparr>kb_caps_lock := \<not> kb_caps_lock s1\<rparr>)
           else
             (Some (scancode,
                    if is_release then 0 else driver_translate code (kb_shift s1) (kb_caps_lock s1),
                    \<not> is_release), s1))"

record keyboard_driver =
  kd_state :: keyboard_state
  kd_desktop_port :: "u64 option"
  kd_event_count :: u64

definition keyboard_driver_new :: keyboard_driver where
  "keyboard_driver_new = \<lparr>kd_state = keyboard_state_new, kd_desktop_port = None, kd_event_count = 0\<rparr>"

text \<open>The body of the polling loop, with the message it sends.\<close>

definition kd_handle :: "u8 \<Rightarrow> keyboard_driver \<Rightarrow> (u64 \<times> message_type \<times> u8 list) option \<times> keyboard_driver" where
  "kd_handle scancode d =
     (case kb_process_scancode scancode (kd_state d) of
        (None, s) \<Rightarrow> (None, d\<lparr>kd_state := s\<rparr>)
      | (Some (sc, ascii, pressed), s) \<Rightarrow>
          (case kd_desktop_port d of
             None \<Rightarrow> None
           | Some port \<Rightarrow>
               Some (port, if pressed then KeyDown else KeyUp,
                     key_event_to_bytes \<lparr>kv_scancode = sc, kv_character = ascii, kv_modifiers = kb_modifiers s\<rparr>),
           d\<lparr>kd_state := s, kd_event_count := kd_event_count d + 1\<rparr>))"

fun kd_drain :: "u8 list \<Rightarrow> keyboard_driver \<Rightarrow> (u64 \<times> message_type \<times> u8 list) list \<times> keyboard_driver" where
  "kd_drain [] d = ([], d)"
| "kd_drain (b # bs) d =
     (let (m, d1) = kd_handle b d; (ms, d2) = kd_drain bs d1 in (case m of None \<Rightarrow> ms | Some x \<Rightarrow> x # ms, d2))"

section \<open>The terminal's input handler\<close>

datatype term_key =
    KChar char | KControl char | KAlt char | KEnter | KBackspace | KTab | KEscape | KDelete
  | KArrowUp | KArrowDown | KArrowLeft | KArrowRight | KHome | KEnd | KPageUp | KPageDown | KFunction u8 | KInsert

record input_handler =
  ih_shift_left :: bool
  ih_shift_right :: bool
  ih_ctrl :: bool
  ih_alt :: bool
  ih_caps_lock :: bool
  ih_extended :: bool

definition input_handler_new :: input_handler where
  "input_handler_new =
     \<lparr>ih_shift_left = False, ih_shift_right = False, ih_ctrl = False, ih_alt = False, ih_caps_lock = False,
      ih_extended = False\<rparr>"

definition ih_shift :: "input_handler \<Rightarrow> bool" where
  "ih_shift h \<longleftrightarrow> ih_shift_left h \<or> ih_shift_right h"

definition special_keys :: "(u8 \<times> term_key) list" where
  "special_keys =
     [(0x01, KEscape), (0x0E, KBackspace), (0x0F, KTab), (0x1C, KEnter), (0x3B, KFunction 1), (0x3C, KFunction 2),
      (0x3D, KFunction 3), (0x3E, KFunction 4), (0x3F, KFunction 5), (0x40, KFunction 6), (0x41, KFunction 7),
      (0x42, KFunction 8), (0x43, KFunction 9), (0x44, KFunction 10), (0x57, KFunction 11), (0x58, KFunction 12)]"

definition extended_keys :: "(u8 \<times> term_key) list" where
  "extended_keys =
     [(0x48, KArrowUp), (0x50, KArrowDown), (0x4B, KArrowLeft), (0x4D, KArrowRight), (0x47, KHome), (0x4F, KEnd),
      (0x49, KPageUp), (0x51, KPageDown), (0x52, KInsert), (0x53, KDelete)]"

definition process_extended_scancode :: "u8 \<Rightarrow> bool \<Rightarrow> input_handler \<Rightarrow> term_key option \<times> input_handler" where
  "process_extended_scancode code is_release h =
     (if is_release then (None, h)
      else case map_of extended_keys code of
          Some k \<Rightarrow> (Some k, h)
        | None \<Rightarrow>
            if code = 0x1D then (None, h\<lparr>ih_ctrl := True\<rparr>)
            else if code = 0x38 then (None, h\<lparr>ih_alt := True\<rparr>)
            else (None, h))"

definition is_ascii_alphabetic :: "char \<Rightarrow> bool" where
  "is_ascii_alphabetic c \<longleftrightarrow> of_char c \<in> {65 .. 90 :: nat} \<or> of_char c \<in> {97 .. 122 :: nat}"

definition ctrl_char :: "char \<Rightarrow> char" where
  "ctrl_char c = (if is_ascii_alphabetic c then char_of (of_char (to_ascii_lowercase c) - 97 + 1 :: nat) else c)"

definition process_scancode :: "u8 \<Rightarrow> input_handler \<Rightarrow> term_key option \<times> input_handler" where
  "process_scancode scancode h =
     (if scancode = 0xE0 then (None, h\<lparr>ih_extended := True\<rparr>)
      else
        let is_extended = ih_extended h;
            h1 = h\<lparr>ih_extended := False\<rparr>;
            is_release = (scancode AND 0x80 \<noteq> 0);
            code = scancode AND 0x7F
        in if is_extended then process_extended_scancode code is_release h1
           else if code = 0x2A then (None, h1\<lparr>ih_shift_left := \<not> is_release\<rparr>)
           else if code = 0x36 then (None, h1\<lparr>ih_shift_right := \<not> is_release\<rparr>)
           else if code = 0x1D then (None, h1\<lparr>ih_ctrl := \<not> is_release\<rparr>)
           else if code = 0x38 then (None, h1\<lparr>ih_alt := \<not> is_release\<rparr>)
           else if code = 0x3A then (None, if is_release then h1 else h1\<lparr>ih_caps_lock := \<not> ih_caps_lock h1\<rparr>)
           else if is_release then (None, h1)
           else
             (case map_of special_keys code of
                Some k \<Rightarrow> (Some k, h1)
              | None \<Rightarrow>
                  (case terminal_translate code (ih_shift h1) (ih_caps_lock h1) of
                     None \<Rightarrow> (None, h1)
                   | Some c \<Rightarrow>
                       (Some (if ih_ctrl h1 then KControl (ctrl_char c) else if ih_alt h1 then KAlt c else KChar c), h1))))"

text \<open>
  \<open>poll\<close> asks the kernel for scancodes until one completes a key event or there are none; it
  ends, because every answer takes a byte out of the kernel's buffer, whose length bounds the
  fuel.
\<close>

definition input_poll :: "u64 \<Rightarrow> leftover \<Rightarrow> nat \<Rightarrow> input_handler \<Rightarrow> kernel \<Rightarrow> (term_key option \<times> input_handler \<times> kernel) option" where
  "input_poll pc x = poll_loop (keyboard_poll pc x) process_scancode"

abbreviation decode_keys :: "u8 list \<Rightarrow> input_handler \<Rightarrow> term_key list \<times> input_handler" where
  "decode_keys \<equiv> decode_bytes process_scancode"

section \<open>One layout in three forms\<close>

lemma terminal_keys_driver: "list_all (\<lambda>(code, s). map_of driver_keys code = Some s) terminal_keys"
  by (simp add: terminal_keys_def driver_keys_def)

lemma terminal_keys_library:
  "list_all (\<lambda>(code, s). scancode_to_ascii code False = Some (keysym_char s False False)) terminal_keys"
  "list_all (\<lambda>(code, s). scancode_to_ascii code True = Some (keysym_char s True False)) terminal_keys"
  by (simp_all add: terminal_keys_def scancode_to_ascii_def SCANCODE_MAP_def SCANCODE_MAP_SHIFTED_def Let_def letter_def
      to_ascii_uppercase_def char_of_def bit_0)

text \<open>
  The three keyboard tables agree: on every key for which the terminal's input handler has
  a character, with any state of shift and caps lock, the keyboard driver reports the same
  character, and so does the table of the system call library when caps lock is off.
\<close>

lemma keymaps_agree:
  assumes "terminal_translate code shift caps = Some c"
  shows "driver_translate code shift caps = of_char c \<and> (caps \<or> scancode_to_ascii code shift = Some c)"
proof -
  obtain s where s: "map_of terminal_keys code = Some s" "c = keysym_char s shift caps"
    using assms by (auto simp: terminal_translate_def)
  from map_of_SomeD [OF s(1)] terminal_keys_driver terminal_keys_library
  have "map_of driver_keys code = Some s" "scancode_to_ascii code False = Some (keysym_char s False False)"
    "scancode_to_ascii code True = Some (keysym_char s True False)" by (auto simp: list_all_iff)
  with s(2) show ?thesis by (cases shift; cases caps) (simp_all add: driver_translate_def)
qed

section \<open>Typing a text produces the text\<close>

definition typeable :: "char \<Rightarrow> bool" where
  "typeable c \<longleftrightarrow> of_char c \<in> {32 .. 126 :: nat}"

text \<open>Pressing and releasing the key of a character, inside a press and release of shift where it is needed.\<close>

definition keystrokes :: "char \<Rightarrow> u8 list" where
  "keystrokes c =
     (case find (\<lambda>(code, s). keysym_char s False False = c) terminal_keys of
        Some (code, _) \<Rightarrow> [code, code OR 0x80]
      | None \<Rightarrow>
          (case find (\<lambda>(code, s). keysym_char s True False = c) terminal_keys of
             Some (code, _) \<Rightarrow> [0x2A, code, code OR 0x80, 0xAA]
           | None \<Rightarrow> []))"

lemmas scan_defs = process_scancode_def process_extended_scancode_def input_handler_new_def special_keys_def extended_keys_def
  Let_def terminal_translate_def ih_shift_def

lemma key_decodes:
  "list_all (\<lambda>(code, s). decode_keys [code, code OR 0x80] input_handler_new
      = ([KChar (keysym_char s False False)], input_handler_new)) terminal_keys"
  "list_all (\<lambda>(code, s). decode_keys [0x2A, code, code OR 0x80, 0xAA] input_handler_new
      = ([KChar (keysym_char s True False)], input_handler_new)) terminal_keys"
  by (simp_all add: terminal_keys_def scan_defs)

lemma every_character_has_a_key: "list_all (\<lambda>n. keystrokes (char_of n) \<noteq> []) [32 ..< 127 :: nat]"
  by (simp add: keystrokes_def terminal_keys_def letter_def to_ascii_uppercase_def char_of_def bit_0)

lemma keystrokes_decode:
  assumes "typeable c"
  shows "decode_keys (keystrokes c) input_handler_new = ([KChar c], input_handler_new)"
proof -
  have "of_char c \<in> set [32 ..< 127 :: nat]" using assms
    by (simp only: typeable_def set_upt atLeastLessThan_iff atLeastAtMost_iff) arith
  with every_character_has_a_key have "keystrokes (char_of (of_char c :: nat)) \<noteq> []" by (simp only: list_all_iff) blast
  then consider (plain) code s where "find (\<lambda>(code, s). keysym_char s False False = c) terminal_keys = Some (code, s)"
    | (shifted) code s where "find (\<lambda>(code, s). keysym_char s False False = c) terminal_keys = None"
        "find (\<lambda>(code, s). keysym_char s True False = c) terminal_keys = Some (code, s)"
    by (auto simp: keystrokes_def split: option.splits)
  then show ?thesis
  proof cases
    case plain
    from find_Some_mem [OF this] key_decodes(1) have "keysym_char s False False = c"
      "decode_keys [code, code OR 0x80] input_handler_new = ([KChar c], input_handler_new)" by (auto simp: list_all_iff)
    with plain show ?thesis by (simp add: keystrokes_def)
  next
    case shifted
    from find_Some_mem [OF shifted(2)] key_decodes(2) have "keysym_char s True False = c"
      "decode_keys [0x2A, code, code OR 0x80, 0xAA] input_handler_new = ([KChar c], input_handler_new)" by (auto simp: list_all_iff)
    with shifted show ?thesis by (simp add: keystrokes_def)
  qed
qed

lemma decode_typed:
  "\<forall>c \<in> set cs. typeable c \<Longrightarrow> decode_keys (concat (map keystrokes cs)) input_handler_new = (map KChar cs, input_handler_new)"
  by (induction cs) (simp_all add: decode_bytes_append keystrokes_decode)

lemmas input_poll_decodes = keyboard_bytes.loop_decodes [of _ _ _ _ _ process_scancode, folded input_poll_def]

text \<open>
  The right control key sets the control state when it is pressed and leaves it set when it is
  released, because the release of an extended key returns before the modifiers are handled.
\<close>

lemma right_ctrl_sticks: "decode_keys [0xE0, 0x1D, 0xE0, 0x9D, 0x1E, 0x9E] input_handler_new
    = ([KControl (CHR 0x01)], input_handler_new\<lparr>ih_ctrl := True\<rparr>)"
  by (simp add: scan_defs terminal_keys_def letter_def ctrl_char_def is_ascii_alphabetic_def to_ascii_lowercase_def char_of_def bit_0)

text \<open>The driver keeps one flag for both shift keys: releasing one of them ends shift although the other is held.\<close>

lemma driver_loses_shift:
  "kb_shift (snd (kb_process_scancode 0xB6 (snd (kb_process_scancode 0x36 (snd (kb_process_scancode 0x2A keyboard_state_new)))))) = False"
  by (simp add: kb_process_scancode_def keyboard_state_new_def Let_def)

text \<open>The driver never learns a port to send to, so it sends nothing.\<close>

lemma driver_sends_nothing: "kd_desktop_port d = None \<Longrightarrow> fst (kd_drain bs d) = [] \<and> kd_desktop_port (snd (kd_drain bs d)) = None"
proof (induction bs arbitrary: d)
  case (Cons b bs)
  have "fst (kd_handle b d) = None" "kd_desktop_port (snd (kd_handle b d)) = None"
    using Cons.prems by (auto simp: kd_handle_def split: prod.split option.split)
  with Cons.IH [of "snd (kd_handle b d)"] show ?case by (simp add: split_beta)
qed simp

end
