(* ===== verification/Terminal.thy ===== *)
theory Terminal
  imports Terminal_Commands Key_Input
begin

text \<open>
  The terminal, \<^verbatim>\<open>userspace/drivers/terminal/src/main.rs\<close>: key events act on the edit line, the
  history, the display and, on Enter, on the command interpreter. Two results span its parts:
  no sequence of keys makes it panic, and a line typed on the keyboard goes from the
  scancodes in the kernel's buffer to the text on the screen.
\<close>

section \<open>The window\<close>

record window_config =
  wc_x :: u32
  wc_y :: u32
  wc_width :: u32
  wc_height :: u32
  title_bar_height :: u32
  border_width :: u32
  padding :: u32
  char_width :: u32
  char_height :: u32

definition window_config_new :: window_config where
  "window_config_new =
     \<lparr>wc_x = 80, wc_y = 60, wc_width = 640, wc_height = 400, title_bar_height = 24, border_width = 1, padding = 8,
      char_width = 8, char_height = 8\<rparr>"

definition content_x :: "window_config \<Rightarrow> u32" where
  "content_x c = wc_x c + border_width c + padding c"

definition content_y :: "window_config \<Rightarrow> u32" where
  "content_y c = wc_y c + title_bar_height c + padding c"

definition content_width :: "window_config \<Rightarrow> u32" where
  "content_width c = wc_width c - 2 * border_width c - 2 * padding c"

definition content_height :: "window_config \<Rightarrow> u32" where
  "content_height c = wc_height c - title_bar_height c - 2 * padding c - border_width c"

definition cfg_cols :: "window_config \<Rightarrow> u32" where
  "cfg_cols c = content_width c div char_width c"

definition cfg_rows :: "window_config \<Rightarrow> u32" where
  "cfg_rows c = content_height c div char_height c"

text \<open>
  What the window asks the framebuffer to draw: a filled rectangle or one glyph of eight by
  eight pixels.
\<close>

datatype draw = FillRect u32 u32 u32 u32 color | DrawChar u32 u32 u8 color color

definition CURSOR_BG :: color where "CURSOR_BG = rgb 200 200 200"

definition win_draw_char :: "window_config \<Rightarrow> u32 \<Rightarrow> u32 \<Rightarrow> u8 \<Rightarrow> color \<Rightarrow> color \<Rightarrow> draw list" where
  "win_draw_char cfg row col c f b =
     (let x = content_x cfg + col * char_width cfg; y = content_y cfg + row * char_height cfg
      in [FillRect x y (char_width cfg) (char_height cfg) b, DrawChar x y c f b])"

definition win_draw_cursor :: "window_config \<Rightarrow> u32 \<Rightarrow> u32 \<Rightarrow> draw list" where
  "win_draw_cursor cfg row col =
     (let x = content_x cfg + col * char_width cfg; y = content_y cfg + row * char_height cfg
      in [FillRect x y (char_width cfg) (char_height cfg) CURSOR_BG])"

definition draw_char_with_cursor :: "window_config \<Rightarrow> u32 \<Rightarrow> u32 \<Rightarrow> u8 \<Rightarrow> draw list" where
  "draw_char_with_cursor cfg row col c =
     (let x = content_x cfg + col * char_width cfg; y = content_y cfg + row * char_height cfg
      in [FillRect x y (char_width cfg) (char_height cfg) CURSOR_BG, DrawChar x y c WINDOW_BG CURSOR_BG])"

definition clear_row :: "window_config \<Rightarrow> u32 \<Rightarrow> draw list" where
  "clear_row cfg row =
     (let y = content_y cfg + row * char_height cfg
      in [FillRect (content_x cfg) y (content_width cfg) (char_height cfg) WINDOW_BG])"

definition clear_to_eol :: "window_config \<Rightarrow> u32 \<Rightarrow> u32 \<Rightarrow> draw list" where
  "clear_to_eol cfg row col =
     (let x = content_x cfg + col * char_width cfg; y = content_y cfg + row * char_height cfg;
          remaining_width = (if content_width cfg < col * char_width cfg then 0 else content_width cfg - col * char_width cfg)
      in [FillRect x y remaining_width (char_height cfg) WINDOW_BG])"

section \<open>The terminal\<close>

record terminal =
  t_display :: display
  t_input :: input_buffer
  t_history :: history
  t_config :: window_config
  t_cwd :: cwd
  t_running :: bool
  prompt_row :: nat
  prompt_col :: nat

definition terminal_new :: terminal where
  "terminal_new =
     \<lparr>t_display = display_new, t_input = input_new, t_history = history_new, t_config = window_config_new, t_cwd = cwd_new,
      t_running = True, prompt_row = 0, prompt_col = 0\<rparr>"

definition show_welcome :: "terminal \<Rightarrow> terminal option" where
  "show_welcome t =
     do { d \<leftarrow> display_writeln [] TEXT_NORMAL (t_display t);
          d \<leftarrow> display_writeln (lit ''  Atom Terminal v0.1.0'') TEXT_INFO d;
          d \<leftarrow> display_writeln (lit ''  Type 'help' for available commands.'') TEXT_DIM d;
          d \<leftarrow> display_writeln [] TEXT_NORMAL d;
          Some (t\<lparr>t_display := d\<rparr>) }"

definition show_prompt :: "terminal \<Rightarrow> terminal option" where
  "show_prompt t =
     do { d \<leftarrow> write_str (lit ''user'') PROMPT_USER (t_display t);
          d \<leftarrow> write_str (lit ''@'') TEXT_DIM d;
          d \<leftarrow> write_str (lit ''atom'') PROMPT_USER d;
          d \<leftarrow> write_str (lit '':'') TEXT_DIM d;
          d \<leftarrow> write_str (lit ''/'') PROMPT_PATH d;
          d \<leftarrow> write_str (lit ''$ '') PROMPT_SYMBOL d;
          let (row, col) = cursor_position d;
          Some (t\<lparr>t_display := d, prompt_row := row, prompt_col := col\<rparr>) }"

text \<open>
  The state after \<open>init\<close>. The port it creates for the client is never used, and drawing the
  frame and the first rendering only write the framebuffer.
\<close>

definition terminal_init :: "terminal \<Rightarrow> terminal option" where
  "terminal_init t =
     do { let cfg = t_config t;
          let d = set_dimensions (unat (cfg_rows cfg)) (unat (cfg_cols cfg)) (t_display t);
          t \<leftarrow> show_welcome (t\<lparr>t_display := d\<rparr>);
          show_prompt t }"

section \<open>Key events\<close>

definition handle_enter :: "u64 \<Rightarrow> terminal \<Rightarrow> terminal option" where
  "handle_enter ticks t =
     do { d \<leftarrow> display_newline (t_display t);
          let t = t\<lparr>t_display := d\<rparr>;
          cmd_str \<leftarrow> as_str (t_input t);
          (stop, t) \<leftarrow>
            (if cmd_str = [] then Some (False, t)
             else do {
               h \<leftarrow> history_push cmd_str (t_history t);
               let t = t\<lparr>t_history := h\<rparr>;
               (case parse_command (byte_chars cmd_str) of
                  None \<Rightarrow> Some (False, t)
                | Some cmd \<Rightarrow> do {
                    (r, out, w) \<leftarrow> execute ticks cmd (t_cwd t);
                    d \<leftarrow> for_each emit out (t_display t);
                    let t = t\<lparr>t_display := d, t_cwd := w\<rparr>;
                    Some (case r of
                        CmdExit \<Rightarrow> (True, t\<lparr>t_running := False\<rparr>)
                      | CmdClear \<Rightarrow> (False, t\<lparr>t_display := display_clear d\<rparr>)
                      | _ \<Rightarrow> (False, t)) }) });
          if stop then Some t else show_prompt (t\<lparr>t_input := input_clear (t_input t)\<rparr>) }"

text \<open>\<open>while self.input.cursor() < self.input.len() { self.input.delete(); }\<close>, with the length as fuel.\<close>

fun kill_to_end :: "nat \<Rightarrow> input_buffer \<Rightarrow> input_buffer option" where
  "kill_to_end 0 b = None"
| "kill_to_end (Suc n) b =
     (if cursor b < ib_len b then do { (_, b1) \<leftarrow> input_delete b; kill_to_end n b1 } else Some b)"

definition with_input :: "terminal \<Rightarrow> input_buffer \<Rightarrow> terminal" where
  "with_input t b = t\<lparr>t_input := b\<rparr>"

definition handle_control :: "char \<Rightarrow> terminal \<Rightarrow> terminal option" where
  "handle_control c t =
     (if c = CHR 0x03 then do {
        d \<leftarrow> display_writeln (lit ''^C'') TEXT_DIM (t_display t);
        show_prompt (t\<lparr>t_display := d, t_input := input_clear (t_input t)\<rparr>) }
      else if c = CHR 0x04 then Some (if ib_len (t_input t) = 0 then t\<lparr>t_running := False\<rparr> else t)
      else if c = CHR 0x0C then show_prompt (t\<lparr>t_display := display_clear (t_display t)\<rparr>)
      else if c = CHR 0x01 then Some (with_input t (cursor_home (t_input t)))
      else if c = CHR 0x05 then Some (with_input t (cursor_end (t_input t)))
      else if c = CHR 0x15 then Some (with_input t (input_clear (t_input t)))
      else if c = CHR 0x0B then map_option (with_input t) (kill_to_end (Suc (ib_len (t_input t))) (t_input t))
      else Some t)"

definition is_ascii_control :: "char \<Rightarrow> bool" where
  "is_ascii_control c \<longleftrightarrow> of_char c < (32 :: nat) \<or> of_char c = (127 :: nat)"

fun handle_key :: "u64 \<Rightarrow> term_key \<Rightarrow> terminal \<Rightarrow> terminal option" where
  "handle_key ticks (KChar c) t =
     (if of_char c < (128 :: nat) \<and> \<not> is_ascii_control c then
        do { (_, b) \<leftarrow> input_insert (of_char c) (t_input t); Some (with_input t b) }
      else Some t)"
| "handle_key ticks KEnter t = handle_enter ticks t"
| "handle_key ticks KBackspace t = do { (_, b) \<leftarrow> input_backspace (t_input t); Some (with_input t b) }"
| "handle_key ticks KDelete t = do { (_, b) \<leftarrow> input_delete (t_input t); Some (with_input t b) }"
| "handle_key ticks KArrowLeft t = Some (with_input t (snd (cursor_left (t_input t))))"
| "handle_key ticks KArrowRight t = Some (with_input t (snd (cursor_right (t_input t))))"
| "handle_key ticks KArrowUp t =
     do { (prev, h) \<leftarrow> history_previous (t_history t);
          b \<leftarrow> (case prev of Some s \<Rightarrow> input_set s (t_input t) | None \<Rightarrow> Some (t_input t));
          Some (t\<lparr>t_history := h, t_input := b\<rparr>) }"
| "handle_key ticks KArrowDown t =
     do { (nxt, h) \<leftarrow> history_next (t_history t);
          b \<leftarrow> (case nxt of Some s \<Rightarrow> input_set s (t_input t) | None \<Rightarrow> Some (input_clear (t_input t)));
          Some (t\<lparr>t_history := h, t_input := b\<rparr>) }"
| "handle_key ticks KHome t = Some (with_input t (cursor_home (t_input t)))"
| "handle_key ticks KEnd t = Some (with_input t (cursor_end (t_input t)))"
| "handle_key ticks KTab t =
     map_option (with_input t) (for_each (\<lambda>_ b. map_option snd (input_insert 32 b)) [0 ..< 4 :: nat] (t_input t))"
| "handle_key ticks KEscape t = Some (with_input t (input_clear (t_input t)))"
| "handle_key ticks (KControl c) t = handle_control c t"
| "handle_key ticks _ t = Some t"

text \<open>
  The inner loop of \<open>run\<close>: every key event there is, handled in turn. \<open>n\<close> and \<open>m\<close> bound the
  scancodes per event and the events; the kernel's buffer bounds both.
\<close>

fun handle_pending ::
  "u64 \<Rightarrow> leftover \<Rightarrow> u64 \<Rightarrow> nat \<Rightarrow> nat \<Rightarrow> input_handler \<Rightarrow> terminal \<Rightarrow> kernel \<Rightarrow> (input_handler \<times> terminal \<times> kernel) option" where
  "handle_pending pc x ticks n 0 h t k = None"
| "handle_pending pc x ticks n (Suc m) h t k =
     (case input_poll pc x n h k of
        None \<Rightarrow> None
      | Some (None, h1, k1) \<Rightarrow> Some (h1, t, k1)
      | Some (Some ev, h1, k1) \<Rightarrow> do { t1 \<leftarrow> handle_key ticks ev t; handle_pending pc x ticks n m h1 t1 k1 })"

section \<open>Rendering\<close>

definition render_cell :: "window_config \<Rightarrow> line \<Rightarrow> nat \<Rightarrow> nat \<Rightarrow> draw list option" where
  "render_cell cfg l row col =
     map_option (\<lambda>c. case c of
         Some c \<Rightarrow> win_draw_char cfg (of_nat row) (of_nat col) (ch c) (fg c) (bg c)
       | None \<Rightarrow> win_draw_char cfg (of_nat row) (of_nat col) 32 TEXT_NORMAL WINDOW_BG) (line_get l col)"

definition render_row :: "terminal \<Rightarrow> nat \<Rightarrow> nat \<Rightarrow> draw list option" where
  "render_row t cols row =
     do { l \<leftarrow> get_line (t_display t) row;
          case l of
            Some l \<Rightarrow> map_option concat (map_opt (render_cell (t_config t) l row) [0 ..< cols])
          | None \<Rightarrow> Some (clear_row (t_config t) (of_nat row)) }"

definition render_input :: "terminal \<Rightarrow> nat \<Rightarrow> draw list option" where
  "render_input t cols =
     do { bytes \<leftarrow> as_str (t_input t);
          let cfg = t_config t;
          let row = of_nat (prompt_row t);
          let cursor_pos = cursor (t_input t);
          Some (clear_to_eol cfg row (of_nat (prompt_col t))
                @ concat (map (\<lambda>i. let col = prompt_col t + i in
                     if col < cols then
                       (if i = cursor_pos then draw_char_with_cursor cfg row (of_nat col) (bytes ! i)
                        else win_draw_char cfg row (of_nat col) (bytes ! i) TEXT_NORMAL WINDOW_BG)
                     else []) [0 ..< length bytes])
                @ (if length bytes \<le> cursor_pos \<and> prompt_col t + length bytes < cols
                   then win_draw_cursor cfg row (of_nat (prompt_col t + length bytes)) else [])) }"

definition render :: "terminal \<Rightarrow> draw list option" where
  "render t =
     do { let rows = unat (cfg_rows (t_config t));
          let cols = unat (cfg_cols (t_config t));
          body \<leftarrow> map_opt (render_row t cols) [0 ..< rows];
          inp \<leftarrow> render_input t cols;
          Some (concat body @ inp) }"

section \<open>Output on the screen\<close>

text \<open>The text on an abstract screen after a sequence of operations.\<close>

definition after :: "nat \<Rightarrow> screen_op list \<Rightarrow> screen_text \<Rightarrow> screen_text" where
  "after w ops a = snd (run_spec (screen_spec w) ops a)"

lemma run_spec_append: "snd (run_spec spec (xs @ ys) a) = snd (run_spec spec ys (snd (run_spec spec xs a)))"
  by (induction xs arbitrary: a) (simp_all add: split_beta)

lemma after_append: "after w (xs @ ys) a = after w ys (after w xs a)"
  by (simp add: after_def run_spec_append)

lemma after_Nil [simp]: "after w [] a = a"
  by (simp add: after_def)

definition text_ops :: "u8 list \<Rightarrow> color \<Rightarrow> screen_op list" where
  "text_ops s f = map (\<lambda>c. WriteChar c f) s"

fun emit_ops :: "printed \<Rightarrow> screen_op list" where
  "emit_ops (Print s f) = text_ops s f"
| "emit_ops (Println s f) = text_ops s f @ [Newline]"

lemma write_str_rel:
  assumes "screen_rel h w d a"
  shows "\<exists>d'. write_str s f d = Some d' \<and> screen_rel h w d' (after w (text_ops s f) a)"
proof -
  obtain d' where "run_ops screen_step (text_ops s f) d = Some (fst (run_spec (screen_spec w) (text_ops s f) a), d')"
    "screen_rel h w d' (after w (text_ops s f) a)"
    using screen.runs [OF assms, of "text_ops s f"] by (auto simp: after_def)
  then show ?thesis by (simp add: write_str_ops text_ops_def)
qed

lemma newline_rel:
  assumes "screen_rel h w d a"
  shows "\<exists>d'. display_newline d = Some d' \<and> screen_rel h w d' (after w [Newline] a)"
proof -
  obtain rows col where a: "a = (rows, col)" by (cases a)
  with assms newline_core [of h w d rows] show ?thesis by (auto simp: screen_rel_def after_def)
qed

lemma writeln_rel:
  assumes "screen_rel h w d a"
  shows "\<exists>d'. display_writeln s f d = Some d' \<and> screen_rel h w d' (after w (text_ops s f @ [Newline]) a)"
proof -
  obtain d1 where "write_str s f d = Some d1" "screen_rel h w d1 (after w (text_ops s f) a)"
    using write_str_rel [OF assms] by blast
  with newline_rel [OF this(2)] show ?thesis by (auto simp: display_writeln_def after_append)
qed

lemma emit_rel:
  assumes "screen_rel h w d a"
  shows "\<exists>d'. for_each emit out d = Some d' \<and> screen_rel h w d' (after w (concat (map emit_ops out)) a)"
  using assms
proof (induction out arbitrary: d a)
  case (Cons x out)
  have "\<exists>d1. emit x d = Some d1 \<and> screen_rel h w d1 (after w (emit_ops x) a)"
    using write_str_rel [OF Cons.prems] writeln_rel [OF Cons.prems] by (cases x) simp_all
  then obtain d1 where "emit x d = Some d1" "screen_rel h w d1 (after w (emit_ops x) a)" by blast
  with Cons.IH [OF this(2)] show ?case by (auto simp: after_append)
qed simp

lemma clear_rel:
  assumes "screen_rel h w d a"
  shows "screen_rel h w (display_clear d) ([[]], 0)"
proof -
  obtain rows col where a: "a = (rows, col)" by (cases a)
  with screen.simulates [OF assms, of ClearScreen] show ?thesis by auto
qed

definition prompt_ops :: "screen_op list" where
  "prompt_ops = text_ops (lit ''user'') PROMPT_USER @ text_ops (lit ''@'') TEXT_DIM @ text_ops (lit ''atom'') PROMPT_USER
     @ text_ops (lit '':'') TEXT_DIM @ text_ops (lit ''/'') PROMPT_PATH @ text_ops (lit ''$ '') PROMPT_SYMBOL"

lemma show_prompt_rel:
  assumes "screen_rel h w (t_display t) a"
  shows "\<exists>d row col. show_prompt t = Some (t\<lparr>t_display := d, prompt_row := row, prompt_col := col\<rparr>)
    \<and> screen_rel h w d (after w prompt_ops a) \<and> row < h \<and> col < w"
proof -
  let ?o = "[Print (lit ''user'') PROMPT_USER, Print (lit ''@'') TEXT_DIM, Print (lit ''atom'') PROMPT_USER,
    Print (lit '':'') TEXT_DIM, Print (lit ''/'') PROMPT_PATH, Print (lit ''$ '') PROMPT_SYMBOL]"
  have "show_prompt t = map_option (\<lambda>d. t\<lparr>t_display := d, prompt_row := cursor_row d, prompt_col := cursor_col d\<rparr>)
      (for_each emit ?o (t_display t))"
    by (simp add: show_prompt_def cursor_position_def split: Option.bind_splits)
  moreover have "concat (map emit_ops ?o) = prompt_ops" by (simp add: prompt_ops_def)
  moreover obtain d where "for_each emit ?o (t_display t) = Some d" "screen_rel h w d (after w (concat (map emit_ops ?o)) a)"
    using emit_rel [OF assms, of ?o] by blast
  moreover from this(2) have "cursor_row d < h" "cursor_col d < w" by (auto simp: screen_rel_def screen_core_def)
  ultimately show ?thesis by auto
qed

definition welcome_ops :: "screen_op list" where
  "welcome_ops = [Newline] @ (text_ops (lit ''  Atom Terminal v0.1.0'') TEXT_INFO @ [Newline])
     @ (text_ops (lit ''  Type 'help' for available commands.'') TEXT_DIM @ [Newline]) @ [Newline]"

lemma show_welcome_rel:
  assumes "screen_rel h w (t_display t) a"
  shows "\<exists>d. show_welcome t = Some (t\<lparr>t_display := d\<rparr>) \<and> screen_rel h w d (after w welcome_ops a)"
proof -
  let ?o = "[Println [] TEXT_NORMAL, Println (lit ''  Atom Terminal v0.1.0'') TEXT_INFO,
    Println (lit ''  Type 'help' for available commands.'') TEXT_DIM, Println [] TEXT_NORMAL]"
  have "show_welcome t = map_option (\<lambda>d. t\<lparr>t_display := d\<rparr>) (for_each emit ?o (t_display t))"
    by (simp add: show_welcome_def split: Option.bind_splits)
  moreover have "concat (map emit_ops ?o) = welcome_ops" by (simp add: welcome_ops_def text_ops_def)
  ultimately show ?thesis using emit_rel [OF assms, of ?o] by auto
qed

section \<open>No key makes the terminal panic\<close>

definition screen_ok :: "display \<Rightarrow> bool" where
  "screen_ok d \<longleftrightarrow> (\<exists>a. screen_rel 44 77 d a)"

definition edit_ok :: "input_buffer \<Rightarrow> bool" where
  "edit_ok b \<longleftrightarrow> (\<exists>lr. edit_rel b lr)"

definition history_ok :: "history \<Rightarrow> bool" where
  "history_ok h \<longleftrightarrow> (\<exists>hs. history_rel h hs)"

definition term_ok :: "terminal \<Rightarrow> bool" where
  "term_ok t \<longleftrightarrow> screen_ok (t_display t) \<and> edit_ok (t_input t) \<and> history_ok (t_history t) \<and> cwd_ok (t_cwd t)
     \<and> t_config t = window_config_new \<and> prompt_row t < 44 \<and> prompt_col t < 77"

lemma window_size: "unat (cfg_rows window_config_new) = 44" "unat (cfg_cols window_config_new) = 77"
proof -
  have "cfg_rows window_config_new = 359 div 8" "cfg_cols window_config_new = 622 div 8"
    by (simp_all add: cfg_rows_def cfg_cols_def content_height_def content_width_def window_config_new_def)
  then show "unat (cfg_rows window_config_new) = 44" "unat (cfg_cols window_config_new) = 77" by (simp_all add: unat_div_distrib)
qed

lemma terminal_init_rel:
  "\<exists>d row col. terminal_init terminal_new = Some (terminal_new\<lparr>t_display := d, prompt_row := row, prompt_col := col\<rparr>)
     \<and> screen_rel 44 77 d (after 77 (welcome_ops @ prompt_ops) ([[]], 0)) \<and> row < 44 \<and> col < 77"
proof -
  let ?t = "terminal_new\<lparr>t_display := set_dimensions 44 77 display_new\<rparr>"
  have "screen_rel 44 77 (t_display ?t) ([[]], 0)" by (simp add: screen_rel_new)
  from show_welcome_rel [OF this] obtain d where d: "show_welcome ?t = Some (?t\<lparr>t_display := d\<rparr>)"
    "screen_rel 44 77 d (after 77 welcome_ops ([[]], 0))" by blast
  have r: "screen_rel 44 77 (t_display (?t\<lparr>t_display := d\<rparr>)) (after 77 welcome_ops ([[]], 0))" using d(2) by simp
  from show_prompt_rel [OF r] obtain d' row col where
    "show_prompt (?t\<lparr>t_display := d\<rparr>) = Some (?t\<lparr>t_display := d, t_display := d', prompt_row := row, prompt_col := col\<rparr>)"
    "screen_rel 44 77 d' (after 77 prompt_ops (after 77 welcome_ops ([[]], 0)))" "row < 44" "col < 77" by blast
  moreover have "terminal_init terminal_new = do { t \<leftarrow> show_welcome ?t; show_prompt t }"
    by (simp add: terminal_init_def window_size) (simp add: terminal_new_def window_size)
  ultimately show ?thesis using d(1) by (auto simp: after_append)
qed

lemma ok_new: "edit_ok input_new" "history_ok history_new" "cwd_ok cwd_new"
  using edit_rel_new history_rel_new cwd_ok_new unfolding edit_ok_def history_ok_def by blast+

lemma term_ok_init: "\<exists>t. terminal_init terminal_new = Some t \<and> term_ok t"
proof -
  obtain d row col where "terminal_init terminal_new = Some (terminal_new\<lparr>t_display := d, prompt_row := row, prompt_col := col\<rparr>)"
    "screen_ok d" "row < 44" "col < 77" using terminal_init_rel unfolding screen_ok_def by blast
  then show ?thesis by (simp add: term_ok_def ok_new) (simp add: terminal_new_def ok_new)
qed

lemma parse_command_args: "parse_command s = Some c \<Longrightarrow> length (args c) \<le> 16"
proof -
  have step: "length (tk_args k) \<le> 16 \<Longrightarrow> length (tk_args (parse_step s i k)) \<le> 16" for s i k
    by (auto simp: parse_step_def add_token_def MAX_ARGS_def Let_def)
  have "length (tk_args k) \<le> 16 \<Longrightarrow> length (tk_args (fold (parse_step s) is k)) \<le> 16" for s "is" k
    by (induction "is" arbitrary: k) (auto intro: step)
  from this [of tokenizer_init "trim s" "[0 ..< length (trim s) + 1]"]
  have "length (tk_args (fold (parse_step (trim s)) [0 ..< length (trim s) + 1] tokenizer_init)) \<le> 16"
    by (simp add: tokenizer_init_def)
  then show "parse_command s = Some c \<Longrightarrow> length (args c) \<le> 16"
    by (auto simp: parse_command_def Let_def split: if_splits)
qed

lemma kill_to_end_rel:
  "edit_rel b (l, r) \<Longrightarrow> length r < n \<Longrightarrow> \<exists>b'. kill_to_end n b = Some b' \<and> edit_rel b' (l, [])"
proof (induction r arbitrary: b n)
  case Nil
  then obtain m where "n = Suc m" by (cases n) auto
  with Nil show ?case by (auto elim!: edit_relE)
next
  case (Cons c r)
  then obtain m where m: "n = Suc m" by (cases n) auto
  have lt: "cursor b < ib_len b" using Cons.prems(1) by (auto elim!: edit_relE)
  obtain b1 where "input_delete b = Some (True, b1)" "edit_rel b1 (l, r)" using sim_delete [OF Cons.prems(1)] by auto
  with Cons.IH [of b1 m] Cons.prems(2) lt m show ?case by auto
qed

text \<open>No operation of the three buffers panics, and each keeps its buffer in order.\<close>

lemma edit_keeps: "edit_ok b \<Longrightarrow> \<exists>r b'. edit_step e b = Some (r, b') \<and> edit_ok b'"
  using editor.simulates [of b _ e] unfolding edit_ok_def by blast

lemma history_keeps: "history_ok h \<Longrightarrow> \<exists>r h'. history_step x h = Some (r, h') \<and> history_ok h'"
  using commands.simulates [of h _ x] unfolding history_ok_def by blast

lemma screen_keeps:
  assumes "screen_ok d"
  shows "\<exists>d'. display_newline d = Some d' \<and> screen_ok d'" "\<exists>d'. display_writeln s f d = Some d' \<and> screen_ok d'"
    "\<exists>d'. for_each emit out d = Some d' \<and> screen_ok d'" "screen_ok (display_clear d)"
proof -
  from assms obtain a where a: "screen_rel 44 77 d a" by (auto simp: screen_ok_def simp del: split_paired_Ex)
  show "\<exists>d'. display_newline d = Some d' \<and> screen_ok d'" "\<exists>d'. display_writeln s f d = Some d' \<and> screen_ok d'"
    "\<exists>d'. for_each emit out d = Some d' \<and> screen_ok d'" "screen_ok (display_clear d)"
    using newline_rel [OF a] writeln_rel [OF a, of s f] emit_rel [OF a, of out] clear_rel [OF a] unfolding screen_ok_def by blast+
qed

lemma prompt_keeps: "term_ok t \<Longrightarrow> \<exists>t'. show_prompt t = Some t' \<and> term_ok t'"
proof -
  assume t: "term_ok t"
  then obtain a where "screen_rel 44 77 (t_display t) a" unfolding term_ok_def screen_ok_def by blast
  from show_prompt_rel [OF this] obtain d row col where
    "show_prompt t = Some (t\<lparr>t_display := d, prompt_row := row, prompt_col := col\<rparr>)" "screen_ok d" "row < 44" "col < 77"
    unfolding screen_ok_def by blast
  with t show ?thesis by (simp add: term_ok_def)
qed

lemma enter_keeps:
  assumes "term_ok t"
  shows "\<exists>t'. handle_enter ticks t = Some t' \<and> term_ok t'"
proof -
  from assms have t: "screen_ok (t_display t)" "edit_ok (t_input t)" "history_ok (t_history t)" "cwd_ok (t_cwd t)"
    and pos: "t_config t = window_config_new" "prompt_row t < 44" "prompt_col t < 77" by (simp_all add: term_ok_def)
  obtain d where d: "display_newline (t_display t) = Some d" "screen_ok d" using screen_keeps(1) [OF t(1)] by blast
  obtain l r where "edit_rel (t_input t) (l, r)" using t(2) unfolding edit_ok_def by (metis surj_pair)
  then have s: "as_str (t_input t) = Some (l @ r)" by (rule as_str_rel)
  obtain h where h: "history_push (l @ r) (t_history t) = Some h" "history_ok h"
    using history_keeps [OF t(3), of "Push (l @ r)"] by (auto split: Option.bind_splits)
  have cl: "edit_ok (input_clear (t_input t))" using edit_keeps [OF t(2), of Clear] by simp
  let ?t = "t\<lparr>t_display := d, t_history := h\<rparr>"
  have pr: "\<exists>t'. show_prompt (u\<lparr>t_input := input_clear (t_input t)\<rparr>) = Some t' \<and> term_ok t'"
    if "screen_ok (t_display u)" "history_ok (t_history u)" "cwd_ok (t_cwd u)" "t_config u = t_config t"
      "prompt_row u = prompt_row t" "prompt_col u = prompt_col t" for u
    by (rule prompt_keeps) (use that cl pos in \<open>simp add: term_ok_def\<close>)
  show ?thesis
  proof (cases "l @ r = [] \<or> parse_command (byte_chars (l @ r)) = None")
    case True
    with d s h pr [of "t\<lparr>t_display := d\<rparr>"] pr [of ?t] t show ?thesis
      by (cases "l @ r = []") (auto simp: handle_enter_def Let_def)
  next
    case False
    then obtain cmd where cmd: "parse_command (byte_chars (l @ r)) = Some cmd" by auto
    obtain res out w where ex: "execute ticks cmd (t_cwd t) = Some (res, out, w)" "cwd_ok w"
      using execute_total [OF parse_command_args [OF cmd] t(4), of ticks] unfolding returns_def by blast
    obtain d1 where d1: "for_each emit out d = Some d1" "screen_ok d1" using screen_keeps(3) [OF d(2)] by blast
    have c: "screen_ok (display_clear d1)" by (rule screen_keeps(4) [OF d1(2)])
    show ?thesis
      using False d s h cmd ex d1 c t pos pr [of "?t\<lparr>t_display := d1, t_cwd := w\<rparr>"]
        pr [of "?t\<lparr>t_cwd := w, t_display := display_clear d1\<rparr>"]
      by (cases res) (auto simp: handle_enter_def Let_def term_ok_def)
  qed
qed

lemma input_keeps: "term_ok t \<Longrightarrow> edit_ok b \<Longrightarrow> term_ok (with_input t b)"
  by (simp add: term_ok_def with_input_def)

lemma edit_key_keeps:
  assumes "term_ok t"
  shows "\<exists>r b. edit_step e (t_input t) = Some (r, b) \<and> term_ok (with_input t b)"
  using edit_keeps [of "t_input t" e] assms input_keeps [OF assms] by (auto simp: term_ok_def)

lemma control_keeps:
  assumes "term_ok t"
  shows "\<exists>t'. handle_control c t = Some t' \<and> term_ok t'"
proof -
  from assms have t: "screen_ok (t_display t)" "edit_ok (t_input t)" by (simp_all add: term_ok_def)
  have cl: "edit_ok (input_clear (t_input t))" using edit_keeps [OF t(2), of Clear] by simp
  obtain d where d: "display_writeln (lit ''^C'') TEXT_DIM (t_display t) = Some d" "screen_ok d"
    using screen_keeps(2) [OF t(1)] by blast
  have c: "\<exists>t'. show_prompt (t\<lparr>t_display := d, t_input := input_clear (t_input t)\<rparr>) = Some t' \<and> term_ok t'"
    by (rule prompt_keeps) (use assms d(2) cl in \<open>simp add: term_ok_def\<close>)
  have l: "\<exists>t'. show_prompt (t\<lparr>t_display := display_clear (t_display t)\<rparr>) = Some t' \<and> term_ok t'"
    by (rule prompt_keeps) (use assms screen_keeps(4) [OF t(1)] in \<open>simp add: term_ok_def\<close>)
  obtain l r where lr: "edit_rel (t_input t) (l, r)" using t(2) unfolding edit_ok_def by (metis surj_pair)
  obtain n where n: "Suc (ib_len (t_input t)) = n" by blast
  have "length r < n" using lr by (auto simp: n [symmetric] elim!: edit_relE)
  from kill_to_end_rel [OF lr this] obtain b where k: "kill_to_end n (t_input t) = Some b" "edit_ok b"
    unfolding edit_ok_def by blast
  have "term_ok (t\<lparr>t_running := False\<rparr>)" using assms by (simp add: term_ok_def)
  then show ?thesis
    using assms c l d(1) k edit_key_keeps [OF assms, of CursorHome] edit_key_keeps [OF assms, of CursorEnd]
      edit_key_keeps [OF assms, of Clear] input_keeps [OF assms k(2)]
    by (cases "c = CHR 0x0B") (simp_all add: handle_control_def n del: kill_to_end.simps)
qed

lemma insert_keeps: "edit_ok b \<Longrightarrow> \<exists>b'. map_option snd (input_insert c b) = Some b' \<and> edit_ok b'"
  using edit_keeps [of b "Insert c"] by auto

lemma recall_keeps:
  assumes "term_ok t" and "x = Previous \<or> x = Next" and "other = t_input t \<or> other = input_clear (t_input t)"
  shows "\<exists>s h b. history_step x (t_history t) = Some (s, h)
    \<and> (case s of Some c \<Rightarrow> input_set c (t_input t) | None \<Rightarrow> Some other) = Some b \<and> term_ok (t\<lparr>t_history := h, t_input := b\<rparr>)"
proof -
  from assms(1) have t: "edit_ok (t_input t)" "history_ok (t_history t)" by (simp_all add: term_ok_def)
  obtain s h where s: "history_step x (t_history t) = Some (s, h)" "history_ok h" using history_keeps [OF t(2)] by blast
  have o: "edit_ok other" using assms(3) t(1) edit_keeps [OF t(1), of Clear] by auto
  have "\<exists>b. (case s of Some c \<Rightarrow> input_set c (t_input t) | None \<Rightarrow> Some other) = Some b \<and> edit_ok b"
  proof (cases s)
    case (Some c)
    with edit_keeps [OF t(1), of "SetText c"] show ?thesis by (auto split: Option.bind_splits)
  qed (use o in simp)
  with s assms(1) show ?thesis by (auto simp: term_ok_def)
qed

lemma handle_key_keeps:
  assumes "term_ok t"
  shows "\<exists>t'. handle_key ticks ev t = Some t' \<and> term_ok t'"
proof (cases ev)
  case (KChar c)
  with edit_key_keeps [OF assms, of "Insert (of_char c)"] assms show ?thesis by auto
next
  case KEnter
  with enter_keeps [OF assms] show ?thesis by simp
next
  case (KControl c)
  with control_keeps [OF assms] show ?thesis by simp
next
  case KTab
  from assms have "edit_ok (t_input t)" by (simp add: term_ok_def)
  then have "\<exists>b. for_each (\<lambda>_ b. map_option snd (input_insert 32 b)) is (t_input t) = Some b \<and> edit_ok b" for "is" :: "nat list"
  proof (induction "is" arbitrary: t)
    case (Cons i "is")
    from insert_keeps [OF Cons.prems, of 32] obtain b where b: "map_option snd (input_insert 32 (t_input t)) = Some b" "edit_ok b" by blast
    from Cons.IH [of "with_input t b"] b show ?case by (auto simp: with_input_def)
  qed simp
  from this [of "[0 ..< 4]"] obtain b where
    "for_each (\<lambda>_ b. map_option snd (input_insert 32 b)) [0 ..< 4 :: nat] (t_input t) = Some b" "edit_ok b" by blast
  with KTab input_keeps [OF assms] show ?thesis by (simp del: upt.simps upt_rec_numeral)
next
  case KArrowUp
  with recall_keeps [OF assms, of Previous "t_input t"] show ?thesis by (auto simp: split_beta)
next
  case KArrowDown
  with recall_keeps [OF assms, of Next "input_clear (t_input t)"] show ?thesis by (auto simp: split_beta)
qed (use assms edit_key_keeps [OF assms, of Backspace] edit_key_keeps [OF assms, of Delete] edit_key_keeps [OF assms, of CursorLeft]
    edit_key_keeps [OF assms, of CursorRight] edit_key_keeps [OF assms, of CursorHome] edit_key_keeps [OF assms, of CursorEnd]
    edit_key_keeps [OF assms, of Clear] in auto)

section \<open>Whole runs\<close>

lemma keys_keep: "term_ok t \<Longrightarrow> \<exists>t'. for_each (handle_key ticks) evs t = Some t' \<and> term_ok t'"
proof (induction evs arbitrary: t)
  case (Cons ev evs)
  from handle_key_keeps [OF Cons.prems, of ticks ev] obtain t1 where "handle_key ticks ev t = Some t1" "term_ok t1" by blast
  with Cons.IH [OF this(2)] show ?case by simp
qed simp

text \<open>The loop handles exactly the events of the bytes in the kernel's buffer, in order.\<close>

lemma pending_events:
  assumes "rb_ok KEYBOARD_BUFFER_SIZE (in_keyboard (k_input k))" and "length (rb_items (in_keyboard (k_input k))) < n"
    and "length (rb_items (in_keyboard (k_input k))) < m"
    and "for_each (handle_key ticks) (fst (decode_keys (rb_items (in_keyboard (k_input k))) h)) t = Some t'"
  shows "\<exists>k'. handle_pending pc x ticks n m h t k = Some (snd (decode_keys (rb_items (in_keyboard (k_input k))) h), t', k')
    \<and> rb_items (in_keyboard (k_input k')) = []"
  using assms
proof (induction m arbitrary: h t k)
  case (Suc m)
  let ?bs = "rb_items (in_keyboard (k_input k))"
  from keyboard_bytes.loop_decodes [OF Suc.prems(1) refl Suc.prems(2), of pc x process_scancode h]
  obtain ev h1 k1 where p: "input_poll pc x n h k = Some (ev, h1, k1)" "rb_ok KEYBOARD_BUFFER_SIZE (in_keyboard (k_input k1))"
    and c: "case ev of None \<Rightarrow> decode_keys ?bs h = ([], h1) \<and> rb_items (in_keyboard (k_input k1)) = []
       | Some e \<Rightarrow> length (rb_items (in_keyboard (k_input k1))) < length ?bs
           \<and> decode_keys ?bs h = (e # fst (decode_keys (rb_items (in_keyboard (k_input k1))) h1),
               snd (decode_keys (rb_items (in_keyboard (k_input k1))) h1))"
    unfolding input_poll_def by blast
  show ?case
  proof (cases ev)
    case None
    with p(1) c Suc.prems(4) show ?thesis by (auto simp del: length_rb_items)
  next
    case (Some e)
    let ?b1 = "rb_items (in_keyboard (k_input k1))"
    from Some c have l: "length ?b1 < length ?bs" and dk: "decode_keys ?bs h = (e # fst (decode_keys ?b1 h1), snd (decode_keys ?b1 h1))"
      by (simp_all del: length_rb_items)
    from Suc.prems(4) dk obtain t1 where t1: "handle_key ticks e t = Some t1"
      "for_each (handle_key ticks) (fst (decode_keys ?b1 h1)) t1 = Some t'" by (auto split: Option.bind_splits)
    have "length ?b1 < n" "length ?b1 < m" using l Suc.prems(2,3) by linarith+
    from Suc.IH [OF p(2) this t1(2)] p(1) Some t1(1) dk show ?thesis by simp
  qed
qed simp

text \<open>
  C31. The terminal never panics. From its initial state, whatever scancodes are in the
  kernel's keyboard buffer and whatever the state of the modifier keys, the loop takes them all,
  handles every event they make up, including every command line they spell, and leaves the
  terminal in a state for which the same holds.
\<close>

theorem terminal_never_panics:
  assumes "rb_ok KEYBOARD_BUFFER_SIZE (in_keyboard (k_input k))" and "term_ok t"
  shows "(\<exists>h' t' k'. handle_pending pc x ticks KEYBOARD_BUFFER_SIZE KEYBOARD_BUFFER_SIZE h t k = Some (h', t', k')
      \<and> term_ok t' \<and> rb_items (in_keyboard (k_input k')) = [])
    \<and> (\<exists>t0. terminal_init terminal_new = Some t0 \<and> term_ok t0)"
proof -
  let ?bs = "rb_items (in_keyboard (k_input k))"
  have l: "length ?bs < KEYBOARD_BUFFER_SIZE" using rb_len_less [OF assms(1)] by simp
  obtain t' where t': "for_each (handle_key ticks) (fst (decode_keys ?bs h)) t = Some t'" "term_ok t'"
    using keys_keep [OF assms(2)] by blast
  from pending_events [OF assms(1) l l t'(1), of pc x] t'(2) term_ok_init show ?thesis by auto
qed

definition keyboard_holds :: "u8 list \<Rightarrow> kernel" where
  "keyboard_holds bs =
     kernel_example\<lparr>k_input := input_boot\<lparr>in_keyboard := snd (put_all rb_push bs (rb_new KEYBOARD_BUFFER_SIZE))\<rparr>\<rparr>"

lemma keyboard_holds_ok:
  "rb_ok KEYBOARD_BUFFER_SIZE (in_keyboard (k_input (keyboard_holds bs)))"
  "rb_items (in_keyboard (k_input (keyboard_holds bs))) = take (KEYBOARD_BUFFER_SIZE - 1) bs"
  using ring.put_all_items [OF rb_ok_new(1), of KEYBOARD_BUFFER_SIZE bs]
  by (simp_all add: keyboard_holds_def rb_ok_new KEYBOARD_BUFFER_SIZE_def)

theorem terminal_never_panics_witness:
  "\<exists>t0 h' t' k'. terminal_init terminal_new = Some t0
     \<and> handle_pending 0 (0, 0, 0) 7 KEYBOARD_BUFFER_SIZE KEYBOARD_BUFFER_SIZE input_handler_new t0 (keyboard_holds [0x26, 0x1F, 0x1C])
       = Some (h', t', k') \<and> term_ok t'"
proof -
  obtain t0 where "terminal_init terminal_new = Some t0" "term_ok t0" using term_ok_init by blast
  with terminal_never_panics [OF keyboard_holds_ok(1) this(2), of 0 "(0, 0, 0)" 7 input_handler_new "[0x26, 0x1F, 0x1C]"] show ?thesis by blast
qed

section \<open>Nothing is drawn outside the content area\<close>

fun inside_content :: "window_config \<Rightarrow> draw \<Rightarrow> bool" where
  "inside_content cfg (FillRect x y w h _) \<longleftrightarrow>
     unat (content_x cfg) \<le> unat x \<and> unat x + unat w \<le> unat (content_x cfg) + unat (content_width cfg)
     \<and> unat (content_y cfg) \<le> unat y \<and> unat y + unat h \<le> unat (content_y cfg) + unat (content_height cfg)"
| "inside_content cfg (DrawChar x y _ _ _) \<longleftrightarrow>
     unat (content_x cfg) \<le> unat x \<and> unat x + 8 \<le> unat (content_x cfg) + unat (content_width cfg)
     \<and> unat (content_y cfg) \<le> unat y \<and> unat y + 8 \<le> unat (content_y cfg) + unat (content_height cfg)"

lemma content_area:
  "content_x window_config_new = 89" "content_y window_config_new = 92" "content_width window_config_new = 622"
  "content_height window_config_new = 359" "char_width window_config_new = 8" "char_height window_config_new = 8"
  by (simp_all add: content_x_def content_y_def content_width_def content_height_def window_config_new_def)

lemma unat_small: "n < 2 ^ 32 \<Longrightarrow> unat (of_nat n :: u32) = n"
  by (simp add: unsigned_of_nat take_bit_nat_eq_self)

lemma pixel_position:
  assumes "row < 44" and "col < 77"
  shows "unat (89 + of_nat col * 8 :: u32) = 89 + 8 * col" "unat (92 + of_nat row * 8 :: u32) = 92 + 8 * row"
    "unat (of_nat col * 8 :: u32) = 8 * col"
  using assms unat_small [of "89 + 8 * col"] unat_small [of "92 + 8 * row"] unat_small [of "8 * col"]
  by (simp_all add: mult.commute)

lemma draws_inside:
  assumes "row < 44" and "col < 77"
  shows "list_all (inside_content window_config_new) (win_draw_char window_config_new (of_nat row) (of_nat col) c f b)"
    "list_all (inside_content window_config_new) (draw_char_with_cursor window_config_new (of_nat row) (of_nat col) c)"
    "list_all (inside_content window_config_new) (win_draw_cursor window_config_new (of_nat row) (of_nat col))"
    "list_all (inside_content window_config_new) (clear_row window_config_new (of_nat row))"
  using assms pixel_position [OF assms]
  by (simp_all add: win_draw_char_def draw_char_with_cursor_def win_draw_cursor_def clear_row_def Let_def content_area)

lemma clear_to_eol_inside:
  assumes "row < 44" and "col < 77"
  shows "list_all (inside_content window_config_new) (clear_to_eol window_config_new (of_nat row) (of_nat col))"
proof -
  have "\<not> 622 < (of_nat col * 8 :: u32)" using assms pixel_position(3) [OF assms] by (simp add: word_less_nat_alt)
  moreover from this have "unat (622 - of_nat col * 8 :: u32) = 622 - 8 * col"
    using pixel_position(3) [OF assms] by (simp add: unat_sub_if_size not_less word_le_nat_alt)
  ultimately show ?thesis using assms pixel_position [OF assms] by (simp add: clear_to_eol_def Let_def content_area)
qed

lemma map_opt_all:
  assumes "\<And>x. x \<in> set xs \<Longrightarrow> \<exists>ys. f x = Some ys \<and> list_all P ys"
  shows "\<exists>yss. map_opt f xs = Some yss \<and> list_all P (concat yss)"
  using assms
proof (induction xs)
  case (Cons x xs)
  then obtain ys where "f x = Some ys" "list_all P ys" by auto
  moreover obtain yss where "map_opt f xs = Some yss" "list_all P (concat yss)" using Cons by auto
  ultimately show ?case by simp
qed simp

lemma render_row_inside:
  assumes "screen_ok (t_display t)" and "t_config t = window_config_new" and "row < 44"
  shows "\<exists>ds. render_row t 77 row = Some ds \<and> list_all (inside_content window_config_new) ds"
proof -
  from assms(1) obtain a where "screen_rel 44 77 (t_display t) a" unfolding screen_ok_def by blast
  then have d: "length (lines (t_display t)) = 50" "\<forall>l \<in> set (lines (t_display t)). line_ok l" "max_rows (t_display t) = 44"
    by (simp_all add: screen_rel_def screen_core_def lines_show_def)
  have cell: "\<exists>ds. render_cell window_config_new l row col = Some ds \<and> list_all (inside_content window_config_new) ds"
    if "line_ok l" "col < 77" for l col
    using that assms(3) draws_inside(1) [OF assms(3) that(2)]
    by (auto simp: render_cell_def line_get_def arr_get_def line_ok_def split: option.split)
  show ?thesis
  proof (cases "row < line_count (t_display t)")
    case True
    let ?l = "lines (t_display t) ! row"
    have g: "get_line (t_display t) row = Some (Some ?l)" "line_ok ?l" using True d assms(3) by (simp_all add: get_line_def arr_get_def)
    have "\<exists>yss. map_opt (render_cell window_config_new ?l row) [0 ..< 77] = Some yss
        \<and> list_all (inside_content window_config_new) (concat yss)"
      by (rule map_opt_all) (use cell [OF g(2)] in simp)
    with g(1) assms(2) show ?thesis by (auto simp: render_row_def simp del: upt_rec_numeral upt.simps)
  next
    case False
    then have "get_line (t_display t) row = Some None" by (simp add: get_line_def)
    with assms draws_inside(4) [OF assms(3), of 0] show ?thesis by (simp add: render_row_def)
  qed
qed

text \<open>
  C32. Rendering never fails and never draws outside: in every state the terminal can reach, the
  renderer reads its buffers in range, and every rectangle it fills and every character it
  draws, the text, the input line past the prompt and the cursor, lies inside the content
  area of the window.
\<close>

theorem render_stays_inside:
  assumes "term_ok t"
  shows "\<exists>ds. render t = Some ds \<and> list_all (inside_content (t_config t)) ds"
proof -
  from assms have t: "screen_ok (t_display t)" "edit_ok (t_input t)" "t_config t = window_config_new"
    "prompt_row t < 44" "prompt_col t < 77" by (simp_all add: term_ok_def)
  have "\<exists>yss. map_opt (render_row t 77) [0 ..< 44] = Some yss \<and> list_all (inside_content window_config_new) (concat yss)"
    by (rule map_opt_all) (use render_row_inside [OF t(1,3)] in simp)
  then obtain body where body: "map_opt (render_row t 77) [0 ..< 44] = Some body"
    "list_all (inside_content window_config_new) (concat body)" by blast
  obtain l r where "edit_rel (t_input t) (l, r)" using t(2) unfolding edit_ok_def by (metis surj_pair)
  then have s: "as_str (t_input t) = Some (l @ r)" by (rule as_str_rel)
  note dr = draws_inside [OF t(4)] clear_to_eol_inside [OF t(4,5)]
  have "\<exists>ds. render_input t 77 = Some ds \<and> list_all (inside_content window_config_new) ds"
    using t(3) s dr unfolding render_input_def
    by (auto simp: Let_def list_all_iff)
  then obtain inp where "render_input t 77 = Some inp" "list_all (inside_content window_config_new) inp" by blast
  with body t(3) show ?thesis by (simp add: render_def window_size del: upt_rec_numeral upt.simps)
qed

theorem render_stays_inside_witness:
  "\<exists>t ds. terminal_init terminal_new = Some t \<and> render t = Some ds \<and> list_all (inside_content (t_config t)) ds"
proof -
  obtain t where "terminal_init terminal_new = Some t" "term_ok t" using term_ok_init by blast
  with render_stays_inside [OF this(2)] show ?thesis by blast
qed

section \<open>From the keyboard to the screen\<close>

lemma byte_chars_lit [simp]: "byte_chars (lit s) = s"
proof -
  have "unat (of_char c :: u8) = of_char c" for c
  proof -
    have "(of_char c :: u8) = of_nat (of_char c)" by (simp add: of_char_def)
    moreover have "(of_char c :: nat) < 256" by simp
    ultimately show ?thesis by (simp only: unsigned_of_nat) (simp add: take_bit_eq_mod)
  qed
  then show ?thesis by (simp add: byte_chars_def str_bytes_def comp_def)
qed

lemma typeable_key: "typeable c \<Longrightarrow> of_char c < (128 :: nat) \<and> \<not> is_ascii_control c"
  by (auto simp: typeable_def is_ascii_control_def)

lemma typed_keys:
  assumes "edit_rel (t_input t) (l, [])" and "\<forall>c \<in> set cs. typeable c" and "length l + length cs \<le> 255"
  shows "\<exists>b. for_each (handle_key ticks) (map KChar cs) t = Some (t\<lparr>t_input := b\<rparr>) \<and> edit_rel b (l @ lit cs, [])"
  using assms
proof (induction cs arbitrary: t l)
  case Nil
  then show ?case by (intro exI [of _ "t_input t"]) (simp add: str_bytes_def)
next
  case (Cons c cs)
  from sim_insert [OF Cons.prems(1), of "of_char c"] Cons.prems(3) obtain b where
    b: "input_insert (of_char c) (t_input t) = Some (True, b)" "edit_rel b (l @ [of_char c], [])" by auto
  from Cons.IH [of "t\<lparr>t_input := b\<rparr>" "l @ [of_char c]"] b(2) Cons.prems obtain b' where
    "for_each (handle_key ticks) (map KChar cs) (t\<lparr>t_input := b\<rparr>) = Some (t\<lparr>t_input := b, t_input := b'\<rparr>)"
    "edit_rel b' ((l @ [of_char c]) @ lit cs, [])" by auto
  with b(1) typeable_key [of c] Cons.prems(2) show ?case by (auto simp: with_input_def str_bytes_def)
qed

definition join_words :: "string list \<Rightarrow> string" where
  "join_words ws = (case ws of [] \<Rightarrow> [] | w # vs \<Rightarrow> w @ concat (map (\<lambda>v. CHR '' '' # v) vs))"

lemma join_words_snoc: "join_words (ws @ [v]) = join_words ws @ (if ws = [] then [] else '' '') @ v"
  by (cases ws) (simp_all add: join_words_def)

lemma lit_append [simp]: "lit (a @ b) = lit a @ lit b" "lit [] = []"
  by (simp_all add: str_bytes_def)

lemma echo_prints:
  assumes "length (join_words (args cmd)) \<le> 256"
  shows "cmd_echo cmd = Some (CmdOk, [println (lit (join_words (args cmd)))])"
proof -
  have "for_each (echo_step cmd) [0 ..< k] (replicate 256 0, 0)
      = Some (lbuf (lit (join_words (take k (args cmd)))) (replicate (256 - length (join_words (take k (args cmd)))) 0))"
    if "k \<le> length (args cmd)" "length (join_words (take k (args cmd))) \<le> 256" for k
    using that
  proof (induction k)
    case 0
    then show ?case by (simp add: lbuf_new join_words_def)
  next
    case (Suc k)
    let ?s = "join_words (take k (args cmd))"
    have j: "join_words (take (Suc k) (args cmd)) = ?s @ (if k = 0 then [] else '' '') @ args cmd ! k"
      using Suc.prems(1) join_words_snoc [of "take k (args cmd)" "args cmd ! k"] by (auto simp: take_Suc_conv_app_nth)
    with Suc have ih: "for_each (echo_step cmd) [0 ..< k] (replicate 256 0, 0) = Some (lbuf (lit ?s) (replicate (256 - length ?s) 0))"
      by auto
    have l: "lit (CHR '' '' # v) = 32 # lit v" for v by (simp add: str_bytes_def)
    from Suc.prems j have "echo_step cmd k (lbuf (lit ?s) (replicate (256 - length ?s) 0))
        = Some (lbuf (lit (join_words (take (Suc k) (args cmd)))) (replicate (256 - length (join_words (take (Suc k) (args cmd)))) 0))"
      by (cases "k = 0") (simp_all add: echo_step_def arr_get_def put_lbuf put_upto_lbuf l Suc_le_eq)
    with ih show ?case by (simp add: for_each_append)
  qed
  from this [of "length (args cmd)"] assms show ?thesis by (simp add: cmd_echo_def line_str_lbuf)
qed

lemma execute_echo:
  assumes "length (join_words ws) \<le> 256"
  shows "execute ticks \<lparr>command = ''echo'', args = ws\<rparr> w = Some (CmdOk, [println (lit (join_words ws))], w)"
proof -
  have "map to_ascii_lowercase ''echo'' = ''echo''" by (simp add: to_ascii_lowercase_def)
  with echo_prints [of "\<lparr>command = ''echo'', args = ws\<rparr>"] assms show ?thesis by (simp add: execute_def)
qed

lemma enter_echo:
  assumes "screen_rel 44 77 (t_display t) a" and "edit_rel (t_input t) (lit (''echo'' @ concat (map (\<lambda>v. CHR '' '' # v) ws)), [])"
    and "history_ok (t_history t)" and "\<forall>v \<in> set ws. plain_word v" and "length ws \<le> 16"
  shows "\<exists>t'. handle_enter ticks t = Some t'
    \<and> screen_rel 44 77 (t_display t') (after 77 ([Newline] @ text_ops (lit (join_words ws)) TEXT_NORMAL @ [Newline] @ prompt_ops) a)"
proof -
  let ?line = "''echo'' @ concat (map (\<lambda>v. CHR '' '' # v) ws)"
  have s: "as_str (t_input t) = Some (lit ?line)" using as_str_rel [OF assms(2)] by simp
  have ne: "lit ?line \<noteq> []" by (simp add: str_bytes_def)
  have "length ?line \<le> 255" using assms(2) by (auto simp: edit_rel_def input_ok_def buffer_consts)
  moreover have "length (join_words ws) \<le> length ?line" by (cases ws) (simp_all add: join_words_def)
  ultimately have j: "length (join_words ws) \<le> 256" by linarith
  obtain d1 where d1: "display_newline (t_display t) = Some d1" "screen_rel 44 77 d1 (after 77 [Newline] a)"
    using newline_rel [OF assms(1)] by blast
  obtain h where h: "history_push (lit ?line) (t_history t) = Some h"
    using history_keeps [OF assms(3), of "Push (lit ?line)"] by (auto split: Option.bind_splits)
  have ew: "plain_word ''echo''" by (simp add: plain_word_def is_ws_def)
  have bw: "\<forall>(b, v) \<in> set (map (Pair '' '') ws). blank b \<and> plain_word v"
    using assms(4) by (auto simp: blank_def is_ascii_whitespace_def)
  have p: "parse_command ?line = Some \<lparr>command = ''echo'', args = ws\<rparr>"
    using parse_command_words [OF ew bw, of "[]" "[]"] assms(5) by (simp add: spaced_def comp_def)
  obtain d2 where d2: "for_each emit [println (lit (join_words ws))] d1 = Some d2"
    "screen_rel 44 77 d2 (after 77 (text_ops (lit (join_words ws)) TEXT_NORMAL @ [Newline]) (after 77 [Newline] a))"
    using emit_rel [OF d1(2), of "[println (lit (join_words ws))]"] by (auto simp: println_def)
  let ?t = "t\<lparr>t_history := h, t_display := d2, t_input := input_clear (t_input t)\<rparr>"
  from d2(2) have r: "screen_rel 44 77 (t_display ?t) (after 77 (text_ops (lit (join_words ws)) TEXT_NORMAL @ [Newline]) (after 77 [Newline] a))"
    by simp
  have e: "after 77 ([Newline] @ text_ops (lit (join_words ws)) TEXT_NORMAL @ [Newline] @ prompt_ops) a
      = after 77 prompt_ops (after 77 (text_ops (lit (join_words ws)) TEXT_NORMAL @ [Newline]) (after 77 [Newline] a))"
    by (simp only: after_append)
  from show_prompt_rel [OF r] obtain d3 row col where "show_prompt ?t = Some (?t\<lparr>t_display := d3, prompt_row := row, prompt_col := col\<rparr>)"
    "screen_rel 44 77 d3 (after 77 prompt_ops (after 77 (text_ops (lit (join_words ws)) TEXT_NORMAL @ [Newline]) (after 77 [Newline] a)))"
    by blast
  moreover have "emit (println (lit (join_words ws))) d1 = Some d2" using d2(1) by (simp split: Option.bind_splits)
  then have "handle_enter ticks t = show_prompt ?t"
    using d1(1) s ne h p execute_echo [OF j] by (simp add: handle_enter_def Let_def)
  ultimately show ?thesis unfolding e by simp
qed

lemma keystrokes_length: "typeable c \<Longrightarrow> 1 \<le> length (keystrokes c)"
  using keystrokes_decode [of c] by (cases "keystrokes c") auto

lemma typed_length: "\<forall>c \<in> set cs. typeable c \<Longrightarrow> length cs \<le> length (concat (map keystrokes cs))"
proof (induction cs)
  case (Cons c cs)
  with keystrokes_length [of c] show ?case by simp
qed simp

lemma decode_enter: "decode_keys [0x1C, 0x9C] input_handler_new = ([KEnter], input_handler_new)"
  by (simp add: scan_defs)

lemma decode_line:
  assumes "\<forall>c \<in> set cs. typeable c"
  shows "decode_keys (concat (map keystrokes cs) @ [0x1C, 0x9C]) input_handler_new = (map KChar cs @ [KEnter], input_handler_new)"
  by (simp only: decode_bytes_append decode_typed [OF assms] Let_def prod.case decode_enter)

text \<open>
  C30. From the keyboard to the screen. When the scancodes of a line \<open>echo\<close> with up to sixteen plain
  words, followed by Enter, wait in the kernel's keyboard buffer, the freshly started terminal
  takes them through the system call, decodes them, edits them into its input line, splits and
  runs the command, and the screen then shows the last 44 rows of: the welcome, the prompt, and
  on the next line the words separated by single spaces, followed by a new prompt.
\<close>

theorem typed_echo_is_shown:
  assumes "rb_ok KEYBOARD_BUFFER_SIZE (in_keyboard (k_input k))"
    and "rb_items (in_keyboard (k_input k))
      = concat (map keystrokes (''echo'' @ concat (map (\<lambda>v. CHR '' '' # v) ws))) @ [0x1C, 0x9C]"
    and "\<forall>v \<in> set ws. plain_word v \<and> list_all typeable v" and "length ws \<le> 16"
    and "terminal_init terminal_new = Some t"
  shows "\<exists>t' k'. handle_pending pc x ticks KEYBOARD_BUFFER_SIZE KEYBOARD_BUFFER_SIZE input_handler_new t k
        = Some (input_handler_new, t', k')
    \<and> visible (t_display t') = last_rows 44 (fst (after 77 (welcome_ops @ prompt_ops @ [Newline]
        @ text_ops (lit (join_words ws)) TEXT_NORMAL @ [Newline] @ prompt_ops) ([[]], 0)))"
proof -
  let ?line = "''echo'' @ concat (map (\<lambda>v. CHR '' '' # v) ws)"
  let ?a = "after 77 (welcome_ops @ prompt_ops) ([[]], 0)"
  let ?ops = "[Newline] @ text_ops (lit (join_words ws)) TEXT_NORMAL @ [Newline] @ prompt_ops"
  have pr: "\<forall>c \<in> set ?line. typeable c" using assms(3) by (auto simp: typeable_def list_all_iff)
  have l: "length (rb_items (in_keyboard (k_input k))) < KEYBOARD_BUFFER_SIZE" using rb_len_less [OF assms(1)] by simp
  have ll: "length ([] :: u8 list) + length ?line \<le> 255"
    using typed_length [OF pr] l by (simp only: assms(2) length_append KEYBOARD_BUFFER_SIZE_def list.size)
  from terminal_init_rel assms(5) obtain d row col where t: "t = terminal_new\<lparr>t_display := d, prompt_row := row, prompt_col := col\<rparr>"
    "screen_rel 44 77 d ?a" by auto
  have "edit_rel (t_input t) ([], [])" using edit_rel_new by (simp add: t(1) terminal_new_def)
  from typed_keys [OF this pr ll, of ticks, unfolded append_Nil] obtain b where
    b: "for_each (handle_key ticks) (map KChar ?line) t = Some (t\<lparr>t_input := b\<rparr>)" "edit_rel b (lit ?line, [])" by blast
  have "screen_rel 44 77 (t_display (t\<lparr>t_input := b\<rparr>)) ?a" "edit_rel (t_input (t\<lparr>t_input := b\<rparr>)) (lit ?line, [])"
    "history_ok (t_history (t\<lparr>t_input := b\<rparr>))" using t b(2) ok_new(2) by (simp_all add: terminal_new_def)
  from enter_echo [OF this _ assms(4), of ticks] assms(3) obtain t' where
    t': "handle_enter ticks (t\<lparr>t_input := b\<rparr>) = Some t'" "screen_rel 44 77 (t_display t') (after 77 ?ops ?a)" by blast
  have "for_each (handle_key ticks) (fst (decode_keys (rb_items (in_keyboard (k_input k))) input_handler_new)) t = Some t'"
    unfolding assms(2) decode_line [OF pr] fst_conv for_each_append b(1) using t'(1) by simp
  from pending_events [OF assms(1) l l this, of pc x] obtain k' where
    "handle_pending pc x ticks KEYBOARD_BUFFER_SIZE KEYBOARD_BUFFER_SIZE input_handler_new t k = Some (input_handler_new, t', k')"
    unfolding assms(2) decode_line [OF pr] snd_conv by blast
  moreover have "visible (t_display t') = last_rows 44 (fst (after 77 ?ops ?a))"
    using visible_rel t'(2) by (metis prod.collapse)
  moreover have "after 77 ?ops ?a = after 77 (welcome_ops @ prompt_ops @ ?ops) ([[]], 0)" by (simp only: after_append)
  ultimately show ?thesis by simp
qed

theorem typed_echo_is_shown_witness:
  "\<exists>t t' k'. terminal_init terminal_new = Some t
     \<and> handle_pending 0 (0, 0, 0) 7 KEYBOARD_BUFFER_SIZE KEYBOARD_BUFFER_SIZE input_handler_new t
         (keyboard_holds (concat (map keystrokes ''echo hi You'') @ [0x1C, 0x9C])) = Some (input_handler_new, t', k')
     \<and> visible (t_display t') = last_rows 44 (fst (after 77 (welcome_ops @ prompt_ops @ [Newline]
         @ text_ops (lit ''hi You'') TEXT_NORMAL @ [Newline] @ prompt_ops) ([[]], 0)))"
proof -
  let ?bs = "concat (map keystrokes ''echo hi You'') @ [0x1C, 0x9C]"
  have "length (keystrokes c) \<le> 4" for c by (simp add: keystrokes_def split: option.split)
  then have "length (concat (map keystrokes cs)) \<le> 4 * length cs" for cs by (induction cs) (simp_all add: add_mono)
  from this [of "''echo hi You''"] have l: "take (KEYBOARD_BUFFER_SIZE - 1) ?bs = ?bs" by (simp add: KEYBOARD_BUFFER_SIZE_def)
  obtain t where t: "terminal_init terminal_new = Some t" using term_ok_init by blast
  have w: "\<forall>v \<in> set [''hi'', ''You'']. plain_word v \<and> list_all typeable v"
    by (simp add: plain_word_def typeable_def is_ws_def)
  have it: "rb_items (in_keyboard (k_input (keyboard_holds ?bs)))
      = concat (map keystrokes (''echo'' @ concat (map (\<lambda>v. CHR '' '' # v) [''hi'', ''You'']))) @ [0x1C, 0x9C]"
    unfolding keyboard_holds_ok(2) l by simp
  have "\<exists>t' k'. handle_pending 0 (0, 0, 0) 7 KEYBOARD_BUFFER_SIZE KEYBOARD_BUFFER_SIZE input_handler_new t (keyboard_holds ?bs)
        = Some (input_handler_new, t', k')
      \<and> visible (t_display t') = last_rows 44 (fst (after 77 (welcome_ops @ prompt_ops @ [Newline]
         @ text_ops (lit (join_words [''hi'', ''You''])) TEXT_NORMAL @ [Newline] @ prompt_ops) ([[]], 0)))"
    by (rule typed_echo_is_shown [OF keyboard_holds_ok(1) it w _ t]) simp
  with t show ?thesis by (simp add: join_words_def)
qed

end
