(* ===== verification/Mouse_Driver.thy ===== *)
theory Mouse_Driver
  imports Poll_Loop
begin

text \<open>
  The mouse in user space: the decoder of the system call library
  (\<^verbatim>\<open>userspace/libs/syscall/src/input.rs\<close>, used by the desktop) and the PS/2 mouse driver
  (\<^verbatim>\<open>userspace/drivers/mouse/src/main.rs\<close>) with its initialisation dialogue. The controller is a
  parameter: two functions on its state that read and write a port.
\<close>

section \<open>The decoder of the library\<close>

record lib_mouse_event =
  lm_dx :: u32
  lm_dy :: u32
  lm_left :: bool
  lm_right :: bool
  lm_middle :: bool

record lib_mouse =
  lib_packet :: "u8 list"
  lib_cycle :: u8
  lib_prev_left :: bool

definition lib_mouse_new :: lib_mouse where
  "lib_mouse_new = \<lparr>lib_packet = replicate 3 0, lib_cycle = 0, lib_prev_left = False\<rparr>"

definition lib_process_byte :: "u8 \<Rightarrow> lib_mouse \<Rightarrow> lib_mouse_event option \<times> lib_mouse" where
  "lib_process_byte byte m =
     (if lib_cycle m = 0 then
        if byte AND 0x08 \<noteq> 0 then (None, m\<lparr>lib_packet := (lib_packet m)[0 := byte], lib_cycle := 1\<rparr>) else (None, m)
      else if lib_cycle m = 1 then (None, m\<lparr>lib_packet := (lib_packet m)[1 := byte], lib_cycle := 2\<rparr>)
      else if lib_cycle m = 2 then
        let m1 = m\<lparr>lib_packet := (lib_packet m)[2 := byte], lib_cycle := 0\<rparr>;
            flags = lib_packet m1 ! 0
        in if flags AND 0xC0 \<noteq> 0 then (None, m1)
           else let dx = ucast (lib_packet m1 ! 1); dy = ucast (lib_packet m1 ! 2) in
             (Some \<lparr>lm_dx = if flags AND 0x10 \<noteq> 0 then dx - 256 else dx, lm_dy = if flags AND 0x20 \<noteq> 0 then dy - 256 else dy,
                    lm_left = (flags AND 0x01 \<noteq> 0), lm_right = (flags AND 0x02 \<noteq> 0), lm_middle = (flags AND 0x04 \<noteq> 0)\<rparr>, m1)
      else (None, m\<lparr>lib_cycle := 0\<rparr>))"

definition lib_poll_event :: "u64 \<Rightarrow> leftover \<Rightarrow> nat \<Rightarrow> lib_mouse \<Rightarrow> kernel \<Rightarrow> (lib_mouse_event option \<times> lib_mouse \<times> kernel) option" where
  "lib_poll_event pc x = poll_loop (mouse_poll_byte pc x) lib_process_byte"

definition lib_poll :: "u64 \<Rightarrow> leftover \<Rightarrow> nat \<Rightarrow> lib_mouse \<Rightarrow> kernel \<Rightarrow> ((u32 \<times> u32) option \<times> lib_mouse \<times> kernel) option" where
  "lib_poll pc x n m k =
     map_option (\<lambda>(ev, r). (map_option (\<lambda>e. (lm_dx e, lm_dy e)) ev, r)) (poll_loop (mouse_poll_byte pc x) lib_process_byte n m k)"

section \<open>The decoder of the driver\<close>

record mouse_state =
  ms_delta_x :: "16 word"
  ms_delta_y :: "16 word"
  ms_left_button :: bool
  ms_right_button :: bool
  ms_middle_button :: bool

record mouse_driver =
  md_packet :: "u8 list"
  md_cycle :: u8
  md_state :: mouse_state
  md_initialized :: bool

definition mouse_driver_new :: mouse_driver where
  "mouse_driver_new =
     \<lparr>md_packet = replicate 3 0, md_cycle = 0,
      md_state = \<lparr>ms_delta_x = 0, ms_delta_y = 0, ms_left_button = False, ms_right_button = False, ms_middle_button = False\<rparr>,
      md_initialized = False\<rparr>"

definition finalize_packet :: "mouse_driver \<Rightarrow> mouse_state option \<times> mouse_driver" where
  "finalize_packet m =
     (let flags = md_packet m ! 0 in
      if flags AND 0x08 = 0 then (None, m)
      else if flags AND 0xC0 \<noteq> 0 then (None, m)
      else let dx = ucast (md_packet m ! 1); dy = ucast (md_packet m ! 2);
               st = \<lparr>ms_delta_x = if flags AND 0x10 \<noteq> 0 then dx - 256 else dx,
                     ms_delta_y = if flags AND 0x20 \<noteq> 0 then dy - 256 else dy,
                     ms_left_button = (flags AND 0x01 \<noteq> 0), ms_right_button = (flags AND 0x02 \<noteq> 0),
                     ms_middle_button = (flags AND 0x04 \<noteq> 0)\<rparr>
           in (Some st, m\<lparr>md_state := st\<rparr>))"

definition driver_process_byte :: "u8 \<Rightarrow> mouse_driver \<Rightarrow> mouse_state option \<times> mouse_driver" where
  "driver_process_byte byte m =
     (if md_cycle m = 0 then
        if byte AND 0x08 = 0 then (None, m)
        else (None, m\<lparr>md_packet := (md_packet m)[0 := byte], md_cycle := 1\<rparr>)
      else if md_cycle m = 1 then (None, m\<lparr>md_packet := (md_packet m)[1 := byte], md_cycle := 2\<rparr>)
      else if md_cycle m = 2 then finalize_packet (m\<lparr>md_packet := (md_packet m)[2 := byte], md_cycle := 0\<rparr>)
      else (None, m\<lparr>md_cycle := 0\<rparr>))"

definition get_mouse_state :: "mouse_driver \<Rightarrow> mouse_state \<times> mouse_driver" where
  "get_mouse_state m = (md_state m, m\<lparr>md_state := (md_state m)\<lparr>ms_delta_x := 0, ms_delta_y := 0\<rparr>\<rparr>)"

section \<open>The dialogue with the controller\<close>

text \<open>
  \<open>rd\<close> reads a port and \<open>wr\<close> writes one; they stand for the port system calls and the
  hardware behind them, so that a failed call reads as zero, as \<open>unwrap_or(0)\<close> has it.
\<close>

record 'd bus =
  rd :: "u16 \<Rightarrow> 'd \<Rightarrow> u8 \<times> 'd"
  wr :: "u16 \<Rightarrow> u8 \<Rightarrow> 'd \<Rightarrow> 'd"

definition PS2_DATA_PORT :: u16 where "PS2_DATA_PORT = 0x60"
definition PS2_STATUS_PORT :: u16 where "PS2_STATUS_PORT = 0x64"
definition PS2_COMMAND_PORT :: u16 where "PS2_COMMAND_PORT = 0x64"

definition STATUS_INPUT_FULL :: u8 where "STATUS_INPUT_FULL = 2"

definition read_data :: "'d bus \<Rightarrow> 'd \<Rightarrow> u8 \<times> 'd" where
  "read_data io = rd io PS2_DATA_PORT"

definition read_status :: "'d bus \<Rightarrow> 'd \<Rightarrow> u8 \<times> 'd" where
  "read_status io = rd io PS2_STATUS_PORT"

definition aux_data_available :: "'d bus \<Rightarrow> 'd \<Rightarrow> bool \<times> 'd" where
  "aux_data_available io d =
     (let (status, d1) = read_status io d
      in (status AND (STATUS_OUTPUT_FULL OR STATUS_AUX_DATA) = STATUS_OUTPUT_FULL OR STATUS_AUX_DATA, d1))"

fun drain_buffer :: "'d bus \<Rightarrow> nat \<Rightarrow> 'd \<Rightarrow> 'd" where
  "drain_buffer io 0 d = d"
| "drain_buffer io (Suc n) d =
     (let (avail, d1) = aux_data_available io d in if \<not> avail then d1 else drain_buffer io n (snd (read_data io d1)))"

fun wait_status :: "'d bus \<Rightarrow> (u8 \<Rightarrow> bool) \<Rightarrow> nat \<Rightarrow> 'd \<Rightarrow> bool \<times> 'd" where
  "wait_status io p 0 d = (False, d)"
| "wait_status io p (Suc n) d = (let (status, d1) = read_status io d in if p status then (True, d1) else wait_status io p n d1)"

definition wait_for_input_empty :: "'d bus \<Rightarrow> 'd \<Rightarrow> bool \<times> 'd" where
  "wait_for_input_empty io = wait_status io (\<lambda>status. status AND STATUS_INPUT_FULL = 0) 50000"

definition wait_for_output :: "'d bus \<Rightarrow> 'd \<Rightarrow> bool \<times> 'd" where
  "wait_for_output io = wait_status io (\<lambda>status. status AND STATUS_OUTPUT_FULL \<noteq> 0) 50000"

definition send_controller_command :: "'d bus \<Rightarrow> u8 \<Rightarrow> 'd \<Rightarrow> 'd" where
  "send_controller_command io cmd d = wr io PS2_COMMAND_PORT cmd (snd (wait_for_input_empty io d))"

definition write_data :: "'d bus \<Rightarrow> u8 \<Rightarrow> 'd \<Rightarrow> 'd" where
  "write_data io v d = wr io PS2_DATA_PORT v (snd (wait_for_input_empty io d))"

definition mouse_command :: "'d bus \<Rightarrow> u8 \<Rightarrow> 'd \<Rightarrow> bool \<times> 'd" where
  "mouse_command io cmd d =
     (let d1 = send_controller_command io 0xD4 d;
          d2 = write_data io cmd d1;
          (ready, d3) = wait_for_output io d2
      in if \<not> ready then (False, d3)
         else let (response, d4) = read_data io d3 in (response = 0xFA, d4))"

definition mouse_write_data :: "'d bus \<Rightarrow> u8 \<Rightarrow> 'd \<Rightarrow> bool \<times> 'd" where
  "mouse_write_data io v d =
     (let d1 = send_controller_command io 0xD4 d;
          d2 = write_data io v d1;
          (ready, d3) = wait_for_output io d2
      in if \<not> ready then (False, d3)
         else let (response, d4) = read_data io d3 in (response = 0xFA, d4))"

definition mouse_init :: "'d bus \<Rightarrow> mouse_driver \<Rightarrow> 'd \<Rightarrow> bool \<times> mouse_driver \<times> 'd" where
  "mouse_init io m d =
     (let d1 = drain_buffer io 100 d;
          d2 = send_controller_command io 0xA8 d1;
          d3 = send_controller_command io 0x20 d2;
          (ready, d4) = wait_for_output io d3
      in if \<not> ready then (False, m, d4) else
      let (config, d5) = read_data io d4;
          new_config = (config OR 0x03) AND NOT 0x20;
          d6 = send_controller_command io 0x60 d5;
          d7 = write_data io new_config d6;
          (ok, d8) = mouse_command io 0xF6 d7
      in if \<not> ok then (False, m, d8) else
      let (ok, d9) = mouse_command io 0xE6 d8 in if \<not> ok then (False, m, d9) else
      let (ok, d10) = mouse_command io 0xE8 d9 in if \<not> ok then (False, m, d10) else
      let (ok, d11) = mouse_write_data io 0x02 d10 in if \<not> ok then (False, m, d11) else
      let (ok, d12) = mouse_command io 0xF3 d11 in if \<not> ok then (False, m, d12) else
      let (ok, d13) = mouse_write_data io 100 d12 in if \<not> ok then (False, m, d13) else
      let (ok, d14) = mouse_command io 0xF4 d13 in if \<not> ok then (False, m, d14) else
      (True, m\<lparr>md_initialized := True\<rparr>, d14))"

definition poll_mouse :: "'d bus \<Rightarrow> mouse_driver \<Rightarrow> 'd \<Rightarrow> mouse_state option \<times> mouse_driver \<times> 'd" where
  "poll_mouse io m d =
     (if \<not> md_initialized m then (None, m, d)
      else let (avail, d1) = aux_data_available io d in
        if avail then
          let (byte, d2) = read_data io d1; (st, m1) = driver_process_byte byte m in (st, m1, d2)
        else (None, m, d1))"

section \<open>The decoders implement the PS/2 protocol\<close>

text \<open>
  The protocol: a byte with bit 3 set starts a packet of three bytes; other bytes are skipped
  where a packet would start; a packet with an overflow flag carries no event. A displacement
  is a nine-bit two's complement number whose sign is a flag.
\<close>

definition displacement :: "bool \<Rightarrow> u8 \<Rightarrow> int" where
  "displacement neg b = int (unat b) - (if neg then 256 else 0)"

fun ps2_events :: "u8 list \<Rightarrow> (int \<times> int \<times> bool \<times> bool \<times> bool) list" where
  "ps2_events (f # x # y # bs) =
     (if bit f 3 then
        (if bit f 6 \<or> bit f 7 then []
         else [(displacement (bit f 4) x, displacement (bit f 5) y, bit f 0, bit f 1, bit f 2)]) @ ps2_events bs
      else ps2_events (x # y # bs))"
| "ps2_events _ = []"

definition lib_event_abs :: "lib_mouse_event \<Rightarrow> int \<times> int \<times> bool \<times> bool \<times> bool" where
  "lib_event_abs e = (sint (lm_dx e), sint (lm_dy e), lm_left e, lm_right e, lm_middle e)"

definition mouse_state_abs :: "mouse_state \<Rightarrow> int \<times> int \<times> bool \<times> bool \<times> bool" where
  "mouse_state_abs e = (sint (ms_delta_x e), sint (ms_delta_y e), ms_left_button e, ms_right_button e, ms_middle_button e)"

lemma flag_bits:
  fixes f :: u8
  shows "f AND 8 = 0 \<longleftrightarrow> \<not> bit f 3" "f AND 0x10 = 0 \<longleftrightarrow> \<not> bit f 4" "f AND 0x20 = 0 \<longleftrightarrow> \<not> bit f 5"
    "f AND 1 = 0 \<longleftrightarrow> \<not> bit f 0" "f AND 2 = 0 \<longleftrightarrow> \<not> bit f 1" "f AND 4 = 0 \<longleftrightarrow> \<not> bit f 2"
    "f AND 0xC0 = 0 \<longleftrightarrow> \<not> (bit f 6 \<or> bit f 7)"
proof -
  have "f AND 0xC0 = (f AND 2 ^ 6) OR (f AND 2 ^ 7)" by (simp flip: bit.conj_disj_distrib)
  then show "f AND 0xC0 = 0 \<longleftrightarrow> \<not> (bit f 6 \<or> bit f 7)" using and_flag [of 6 f] and_flag [of 7 f] by (auto simp: or_eq_0_iff)
qed (use and_flag [of 3 f] and_flag [of 4 f] and_flag [of 5 f] and_flag [of 0 f] and_flag [of 1 f] and_flag [of 2 f] in auto)

lemma sint_displacement:
  fixes b :: u8
  shows "sint (if neg then ucast b - 256 else ucast b :: u32) = displacement neg b"
    "sint (if neg then ucast b - 256 else ucast b :: 16 word) = displacement neg b"
proof -
  have b: "0 \<le> int (unat b)" "int (unat b) < 256" using unsigned_less [of b, where ?'a = int] by simp_all
  have "(if neg then ucast b - 256 else ucast b :: u32) = word_of_int (displacement neg b)"
    "(if neg then ucast b - 256 else ucast b :: 16 word) = word_of_int (displacement neg b)"
    by (simp_all add: displacement_def)
  moreover have "0 \<le> uint b" by simp
  then have "- 2147483648 \<le> uint b" "- 32768 \<le> uint b" by linarith+
  ultimately show "sint (if neg then ucast b - 256 else ucast b :: u32) = displacement neg b"
    "sint (if neg then ucast b - 256 else ucast b :: 16 word) = displacement neg b"
    using b by (simp_all only: signed_of_int, auto simp: displacement_def signed_take_bit_int_eq_self)
qed

lemma lib_skip: "lib_cycle m = 0 \<Longrightarrow> \<not> bit b 3 \<Longrightarrow> lib_process_byte b m = (None, m)"
  by (simp add: lib_process_byte_def flag_bits)

lemma lib_packet_step:
  assumes "lib_cycle m = 0" and "length (lib_packet m) = 3" and "bit f 3"
  shows "\<exists>m'. lib_cycle m' = 0 \<and> length (lib_packet m') = 3
    \<and> decode_bytes lib_process_byte (f # x # y # bs) m =
        ((if bit f 6 \<or> bit f 7 then []
          else [\<lparr>lm_dx = if bit f 4 then ucast x - 256 else ucast x, lm_dy = if bit f 5 then ucast y - 256 else ucast y,
                 lm_left = bit f 0, lm_right = bit f 1, lm_middle = bit f 2\<rparr>]) @ fst (decode_bytes lib_process_byte bs m'),
         snd (decode_bytes lib_process_byte bs m'))"
  using assms
  by (intro exI [of _ "m\<lparr>lib_packet := [f, x, y], lib_cycle := 0\<rparr>"])
    (auto simp: lib_process_byte_def flag_bits Let_def split_beta length_Suc_conv numeral_3_eq_3 numeral_2_eq_2)

lemma lib_decodes:
  "lib_cycle m = 0 \<Longrightarrow> length (lib_packet m) = 3 \<Longrightarrow>
     map lib_event_abs (fst (decode_bytes lib_process_byte bs m)) = ps2_events bs"
proof (induction bs arbitrary: m rule: ps2_events.induct)
  case (1 f x y bs)
  show ?case
  proof (cases "bit f 3")
    case True
    from lib_packet_step [OF 1(3,4) True, of x y bs] obtain m' where m': "lib_cycle m' = 0" "length (lib_packet m') = 3"
      "decode_bytes lib_process_byte (f # x # y # bs) m =
        ((if bit f 6 \<or> bit f 7 then []
          else [\<lparr>lm_dx = if bit f 4 then ucast x - 256 else ucast x, lm_dy = if bit f 5 then ucast y - 256 else ucast y,
                 lm_left = bit f 0, lm_right = bit f 1, lm_middle = bit f 2\<rparr>]) @ fst (decode_bytes lib_process_byte bs m'),
         snd (decode_bytes lib_process_byte bs m'))" by blast
    with 1(1) [OF True m'(1,2)] True show ?thesis
      by (simp only: m'(3)) (simp add: lib_event_abs_def sint_displacement)
  next
    case False
    with 1(2) [OF False 1(3,4)] 1(3) show ?thesis by (simp add: lib_skip split_beta del: decode_bytes.simps(2) add: decode_bytes.simps(2) [of _ f])
  qed
qed (auto simp: lib_process_byte_def Let_def)

lemma driver_skip: "md_cycle m = 0 \<Longrightarrow> \<not> bit b 3 \<Longrightarrow> driver_process_byte b m = (None, m)"
  by (simp add: driver_process_byte_def flag_bits)

text \<open>
  The two decoders go through the same states: the driver's answer is the library's, at
  sixteen bits.
\<close>

definition same_decoder :: "lib_mouse \<Rightarrow> mouse_driver \<Rightarrow> bool" where
  "same_decoder l m \<longleftrightarrow> lib_packet l = md_packet m \<and> lib_cycle l = md_cycle m \<and> length (md_packet m) = 3
     \<and> (md_cycle m = 0 \<or> bit (md_packet m ! 0) 3)"

lemma decoders_step:
  assumes "same_decoder l m"
  shows "same_decoder (snd (lib_process_byte b l)) (snd (driver_process_byte b m))
    \<and> map_option lib_event_abs (fst (lib_process_byte b l)) = map_option mouse_state_abs (fst (driver_process_byte b m))"
  using assms
  by (auto simp: same_decoder_def lib_process_byte_def driver_process_byte_def finalize_packet_def flag_bits Let_def
      lib_event_abs_def mouse_state_abs_def sint_displacement nth_list_update)

lemma decoders_agree:
  "same_decoder l m \<Longrightarrow> map lib_event_abs (fst (decode_bytes lib_process_byte bs l))
     = map mouse_state_abs (fst (decode_bytes driver_process_byte bs m))"
proof (induction bs arbitrary: l m)
  case (Cons b bs)
  note st = decoders_step [OF Cons.prems, of b]
  from Cons.IH [OF st [THEN conjunct1]] st [THEN conjunct2] show ?case
    by (cases "fst (lib_process_byte b l)"; cases "fst (driver_process_byte b m)") (simp_all add: split_beta Let_def)
qed simp

text \<open>
  C39. The two mouse decoders of user space implement the PS/2 protocol: on every sequence of
  bytes, aligned or not, the library's decoder and the driver's decoder return exactly the
  events of the protocol, in order, with displacements in the nine-bit range.
\<close>

theorem mouse_decoders_implement_ps2:
  "map lib_event_abs (fst (decode_bytes lib_process_byte bs lib_mouse_new)) = ps2_events bs
   \<and> map mouse_state_abs (fst (decode_bytes driver_process_byte bs mouse_driver_new)) = ps2_events bs"
proof -
  have l: "map lib_event_abs (fst (decode_bytes lib_process_byte bs lib_mouse_new)) = ps2_events bs"
    by (rule lib_decodes) (simp_all add: lib_mouse_new_def)
  have "same_decoder lib_mouse_new mouse_driver_new" by (simp add: same_decoder_def lib_mouse_new_def mouse_driver_new_def)
  from decoders_agree [OF this, of bs] l show ?thesis by simp
qed

text \<open>Through the kernel: polled until it is empty, the mouse buffer yields the events of its bytes.\<close>

lemma mouse_events_polled:
  assumes "rb_ok MOUSE_BUFFER_SIZE (in_mouse (k_input k))" and "MOUSE_BUFFER_SIZE \<le> n"
  shows "\<exists>evs m' k'. drain_events (mouse_poll_byte pc x) lib_process_byte n n lib_mouse_new k = Some (evs, m', k')
    \<and> map lib_event_abs evs = ps2_events (rb_items (in_mouse (k_input k))) \<and> rb_items (in_mouse (k_input k')) = []"
proof -
  have "length (rb_items (in_mouse (k_input k))) < n" using rb_len_less [OF assms(1)] assms(2) by simp
  from mouse_bytes.drain_decodes [OF assms(1) this this, of pc x lib_process_byte lib_mouse_new]
    lib_decodes [of lib_mouse_new] show ?thesis by (auto simp: lib_mouse_new_def)
qed

section \<open>The controller\<close>

text \<open>
  What the driver relies on of the controller and the mouse behind it. The controller has a
  queue of bytes to read, each from the mouse or from the keyboard side, a configuration byte,
  and remembers the command that takes the next data byte; a byte sent to the mouse is
  acknowledged. The contract says that reading and writing ports acts on this state.
\<close>

record controller =
  ctl_queue :: "(bool \<times> u8) list"
  ctl_config :: u8
  ctl_command :: "u8 option"
  ctl_sent :: "u8 list"

definition ctl_write :: "u16 \<Rightarrow> u8 \<Rightarrow> controller \<Rightarrow> controller" where
  "ctl_write port v c =
     (if port = 0x64 then
        if v = 0x20 then c\<lparr>ctl_queue := ctl_queue c @ [(False, ctl_config c)], ctl_command := None\<rparr>
        else c\<lparr>ctl_command := Some v\<rparr>
      else if ctl_command c = Some 0x60 then c\<lparr>ctl_config := v, ctl_command := None\<rparr>
      else if ctl_command c = Some 0xD4 then
        c\<lparr>ctl_queue := ctl_queue c @ [(True, 0xFA)], ctl_sent := ctl_sent c @ [v], ctl_command := None\<rparr>
      else c)"

definition i8042 :: "'d bus \<Rightarrow> ('d \<Rightarrow> controller) \<Rightarrow> bool" where
  "i8042 io view \<longleftrightarrow>
     (\<forall>d. view (snd (rd io 0x64 d)) = view d
        \<and> \<not> bit (fst (rd io 0x64 d)) 1
        \<and> (bit (fst (rd io 0x64 d)) 0 \<longleftrightarrow> ctl_queue (view d) \<noteq> [])
        \<and> (bit (fst (rd io 0x64 d)) 5 \<longleftrightarrow> (\<exists>b q. ctl_queue (view d) = (True, b) # q)))
   \<and> (\<forall>d e q. ctl_queue (view d) = e # q \<longrightarrow>
        fst (rd io 0x60 d) = snd e \<and> view (snd (rd io 0x60 d)) = (view d)\<lparr>ctl_queue := q\<rparr>)
   \<and> (\<forall>d port v. view (wr io port v d) = ctl_write port v (view d))"

lemma wait_status_now: "0 < n \<Longrightarrow> p (fst (read_status io d)) \<Longrightarrow> wait_status io p n d = (True, snd (read_status io d))"
  by (cases n) (simp_all add: split_beta)

lemma wait_status_never: "\<forall>d. \<not> p (fst (read_status io d)) \<Longrightarrow> fst (wait_status io p n d) = False"
  by (induction n arbitrary: d) (simp_all add: split_beta)

lemma waits:
  assumes "i8042 io view"
  shows "view (snd (wait_for_input_empty io d)) = view d"
    and "ctl_queue (view d) \<noteq> [] \<Longrightarrow> fst (wait_for_output io d) \<and> view (snd (wait_for_output io d)) = view d"
  using assms
  by (simp_all add: wait_for_input_empty_def wait_for_output_def wait_status_now read_status_def i8042_def PS2_STATUS_PORT_def
      STATUS_INPUT_FULL_def STATUS_OUTPUT_FULL_def flag_bits)

lemma sends:
  assumes "i8042 io view"
  shows "view (send_controller_command io cmd d) = ctl_write 0x64 cmd (view d)"
    and "view (write_data io v d) = ctl_write 0x60 v (view d)"
  using assms waits(1) [OF assms]
  by (simp_all add: send_controller_command_def write_data_def i8042_def PS2_COMMAND_PORT_def PS2_DATA_PORT_def)

lemma reads:
  assumes "i8042 io view" and "ctl_queue (view d) = e # q"
  shows "fst (read_data io d) = snd e" and "view (snd (read_data io d)) = (view d)\<lparr>ctl_queue := q\<rparr>"
  using assms by (cases e; simp add: read_data_def i8042_def PS2_DATA_PORT_def)+

lemma drains:
  assumes "i8042 io view" and "list_all fst (ctl_queue (view d))" and "length (ctl_queue (view d)) \<le> n"
  shows "view (drain_buffer io n d) = (view d)\<lparr>ctl_queue := []\<rparr>"
  using assms(2,3)
proof (induction n arbitrary: d)
  case (Suc n)
  let ?d = "snd (aux_data_available io d)"
  have av: "fst (aux_data_available io d) \<longleftrightarrow> (\<exists>b q. ctl_queue (view d) = (True, b) # q)" "view ?d = view d"
    using assms(1)
    by (auto simp: aux_data_available_def read_status_def PS2_STATUS_PORT_def status_flags split_beta i8042_def)
  show ?case
  proof (cases "ctl_queue (view d)")
    case Nil
    with av show ?thesis by (simp add: split_beta)
  next
    case (Cons e q)
    with Suc.prems obtain b where e: "e = (True, b)" by (cases e) auto
    from reads(2) [OF assms(1), of ?d e q] Cons av(2) have "view (snd (read_data io ?d)) = (view d)\<lparr>ctl_queue := q\<rparr>" by simp
    with Suc.IH [of "snd (read_data io ?d)"] Suc.prems Cons av(1) e show ?thesis by (simp add: split_beta)
  qed
qed simp

text \<open>A command to the mouse, and a data byte, are acknowledged, with whatever is read first.\<close>

lemma commands_acknowledged:
  assumes "i8042 io view"
  shows "fst (mouse_command io v d) = (snd (hd (ctl_queue (view d) @ [(True, 0xFA)])) = 0xFA)"
    and "view (snd (mouse_command io v d)) =
      (view d)\<lparr>ctl_queue := tl (ctl_queue (view d) @ [(True, 0xFA)]), ctl_command := None, ctl_sent := ctl_sent (view d) @ [v]\<rparr>"
proof -
  let ?d = "write_data io v (send_controller_command io 0xD4 d)"
  have v: "view ?d = (view d)\<lparr>ctl_queue := ctl_queue (view d) @ [(True, 0xFA)], ctl_command := None, ctl_sent := ctl_sent (view d) @ [v]\<rparr>"
    by (simp add: sends [OF assms] ctl_write_def)
  then obtain e q where q: "ctl_queue (view ?d) = e # q" "ctl_queue (view d) @ [(True, 0xFA)] = e # q"
    by (cases "ctl_queue (view d) @ [(True, 0xFA)]") simp_all
  let ?w = "snd (wait_for_output io ?d)"
  from waits(2) [OF assms, of ?d] q have w: "fst (wait_for_output io ?d)" "view ?w = view ?d" by simp_all
  from reads [OF assms, of ?w e q] w q have "fst (read_data io ?w) = snd e" "view (snd (read_data io ?w)) = (view ?d)\<lparr>ctl_queue := q\<rparr>" by simp_all
  with w(1) v q(2) show "fst (mouse_command io v d) = (snd (hd (ctl_queue (view d) @ [(True, 0xFA)])) = 0xFA)"
    "view (snd (mouse_command io v d)) =
      (view d)\<lparr>ctl_queue := tl (ctl_queue (view d) @ [(True, 0xFA)]), ctl_command := None, ctl_sent := ctl_sent (view d) @ [v]\<rparr>"
    by (simp_all add: mouse_command_def split_beta Let_def)
qed

lemma mouse_write_data_is_command: "mouse_write_data io v d = mouse_command io v d"
  by (simp add: mouse_write_data_def mouse_command_def)

text \<open>The state in which the configuration byte is read, after the pending mouse bytes were drained.\<close>

definition before_config :: "'d bus \<Rightarrow> 'd \<Rightarrow> 'd" where
  "before_config io d =
     snd (wait_for_output io (send_controller_command io 0x20 (send_controller_command io 0xA8 (drain_buffer io 100 d))))"

definition after_config :: "'d bus \<Rightarrow> 'd \<Rightarrow> 'd" where
  "after_config io d =
     (let (config, d1) = read_data io (before_config io d)
      in write_data io ((config OR 0x03) AND NOT 0x20) (send_controller_command io 0x60 d1))"

definition mouse_setup :: "u8 list" where
  "mouse_setup = [0xF6, 0xE6, 0xE8, 0x02, 0xF3, 100, 0xF4]"

fun send_setup :: "'d bus \<Rightarrow> u8 list \<Rightarrow> 'd \<Rightarrow> bool \<times> 'd" where
  "send_setup io [] d = (True, d)"
| "send_setup io (v # vs) d = (let (ok, d1) = mouse_command io v d in if ok then send_setup io vs d1 else (False, d1))"

lemma mouse_init_phases:
  assumes "fst (wait_for_output io (send_controller_command io 0x20 (send_controller_command io 0xA8 (drain_buffer io 100 d))))"
  shows "mouse_init io m d =
    (let (ok, d') = send_setup io mouse_setup (after_config io d) in (ok, if ok then m\<lparr>md_initialized := True\<rparr> else m, d'))"
  using assms
  by (simp add: mouse_init_def mouse_setup_def mouse_write_data_is_command after_config_def before_config_def split_beta Let_def)

lemma config_read:
  assumes "i8042 io view" and "view (drain_buffer io 100 d) = c"
  shows "fst (wait_for_output io (send_controller_command io 0x20 (send_controller_command io 0xA8 (drain_buffer io 100 d))))"
    and "view (after_config io d) = c\<lparr>ctl_queue := tl (ctl_queue c @ [(False, ctl_config c)]),
           ctl_config := (snd (hd (ctl_queue c @ [(False, ctl_config c)])) OR 0x03) AND NOT 0x20, ctl_command := None\<rparr>"
proof -
  let ?d = "send_controller_command io 0x20 (send_controller_command io 0xA8 (drain_buffer io 100 d))"
  have v: "view ?d = c\<lparr>ctl_queue := ctl_queue c @ [(False, ctl_config c)], ctl_command := None\<rparr>"
    by (simp add: sends [OF assms(1)] ctl_write_def assms(2))
  then obtain e q where q: "ctl_queue (view ?d) = e # q" "ctl_queue c @ [(False, ctl_config c)] = e # q"
    by (cases "ctl_queue c @ [(False, ctl_config c)]") simp_all
  from waits(2) [OF assms(1), of ?d] q show w: "fst (wait_for_output io ?d)" by simp
  from waits(2) [OF assms(1), of ?d] q have b: "view (before_config io d) = view ?d" by (simp add: before_config_def)
  from reads [OF assms(1), of "before_config io d" e q] b q
  have "fst (read_data io (before_config io d)) = snd e"
    "view (snd (read_data io (before_config io d))) = (view ?d)\<lparr>ctl_queue := q\<rparr>" by simp_all
  with v q(2) show "view (after_config io d) = c\<lparr>ctl_queue := tl (ctl_queue c @ [(False, ctl_config c)]),
           ctl_config := (snd (hd (ctl_queue c @ [(False, ctl_config c)])) OR 0x03) AND NOT 0x20, ctl_command := None\<rparr>"
    by (simp add: after_config_def split_beta sends [OF assms(1)] ctl_write_def)
qed

lemma setup_sent:
  assumes "i8042 io view" and "ctl_queue (view d) = []" and "ctl_command (view d) = None"
  shows "fst (send_setup io vs d) \<and> view (snd (send_setup io vs d)) = (view d)\<lparr>ctl_sent := ctl_sent (view d) @ vs\<rparr>"
  using assms(2,3)
proof (induction vs arbitrary: d)
  case (Cons v vs)
  have "fst (mouse_command io v d)" "view (snd (mouse_command io v d)) = (view d)\<lparr>ctl_sent := ctl_sent (view d) @ [v]\<rparr>"
    using commands_acknowledged [OF assms(1), of v d] Cons.prems by simp_all
  with Cons.IH [of "snd (mouse_command io v d)"] Cons.prems show ?case by (simp add: split_beta)
qed simp


definition bus_example :: "controller bus" where
  "bus_example =
     \<lparr>rd = \<lambda>port c. if port = 0x64 then (case ctl_queue c of [] \<Rightarrow> 0 | (True, _) # _ \<Rightarrow> 0x21 | (False, _) # _ \<Rightarrow> 0x01, c)
                     else (case ctl_queue c of [] \<Rightarrow> (0, c) | (_, b) # q \<Rightarrow> (b, c\<lparr>ctl_queue := q\<rparr>)),
      wr = ctl_write\<rparr>"

lemma bus_example_ok: "i8042 bus_example id"
  by (auto simp: i8042_def bus_example_def bit_0 bit_numeral_rec split: list.splits prod.splits bool.splits)


text \<open>Without a device, when every port reads as zero, the waits are bounded and initialisation reports failure.\<close>

lemma mouse_init_no_device:
  assumes "\<forall>d. fst (read_status io d) = 0"
  shows "fst (mouse_init io m d) = False"
proof -
  have "fst (wait_for_output io d) = False" for d
    unfolding wait_for_output_def by (rule wait_status_never) (simp add: assms)
  then show ?thesis by (simp add: mouse_init_def split_beta Let_def)
qed

lemma drain_stops: "\<not> fst (aux_data_available io d) \<Longrightarrow> 0 < n \<Longrightarrow> drain_buffer io n d = snd (aux_data_available io d)"
  by (cases n) (simp_all add: split_beta)

text \<open>
  Draining stops at a byte from the keyboard. The driver then takes this key code for the
  configuration byte and writes it back, and the real configuration byte for the first
  acknowledgement, so that initialisation fails on a working mouse and the controller is
  left with a configuration made from the key code.
\<close>

lemma mouse_init_misreads_config:
  assumes "i8042 io view" and "ctl_queue (view d) = [(False, key)]" and "ctl_config (view d) \<noteq> 0xFA"
  shows "fst (mouse_init io m d) = False \<and> ctl_config (view (snd (snd (mouse_init io m d)))) = (key OR 0x03) AND NOT 0x20"
proof -
  have "\<not> fst (aux_data_available io d)" "view (snd (aux_data_available io d)) = view d"
    using assms(1,2) by (auto simp: aux_data_available_def read_status_def PS2_STATUS_PORT_def status_flags split_beta i8042_def)
  then have "view (drain_buffer io 100 d) = view d" by (simp add: drain_stops)
  note cfg = config_read [OF assms(1) this]
  let ?d = "after_config io d"
  have "ctl_queue (view ?d) = [(False, ctl_config (view d))]" "ctl_config (view ?d) = (key OR 0x03) AND NOT 0x20"
    using cfg(2) assms(2) by simp_all
  with commands_acknowledged [OF assms(1), where v = "0xF6" and d = ?d] assms(3) show ?thesis
    by (simp add: mouse_init_phases [OF cfg(1)] mouse_setup_def split_beta)
qed

end
