(* ===== verification/Spec2Isabelle.thy ===== *)
theory Spec2Isabelle
  imports Service_Manager Executable Terminal Mouse_Driver
begin

text \<open>
  A verification development of the Atom microkernel and of the user space that talks to it.
  Paths are relative to \<^verbatim>\<open>src\<close>; kernel files are under \<^verbatim>\<open>kernel/src\<close>.

  \<^bold>\<open>The program.\<close> The kernel manages physical pages, page tables and address spaces, shared
  memory, threads with capability tables, a priority scheduler and IPC ports. User code enters
  it through the entry stub and the system call dispatcher; devices enter it through the
  interrupt handlers, which fill the input rings and wake sleeping threads. A loader places
  executable images in address spaces and a service manager orders the services of the boot
  manifest. In user space a system call library wraps the calls, a message library fixes the
  wire formats, the keyboard and mouse drivers decode device bytes, and a terminal edits,
  parses and runs command lines.

  \<^bold>\<open>Conventions.\<close> Machine integers are words of their width and wrap as in the release build;
  counts and indices of collections are natural numbers. A struct is a record, an enum a
  datatype, \<open>Result\<close> a sum with the error on the left, \<open>Option\<close> an option. A \<open>BTreeMap\<close> is a
  sorted association list, a fixed array a list whose reads and writes fail out of range. A
  panic, and a loop that does not end, is \<open>None\<close>. Locks and logging are left out. A handler that gives up the processor is split into the part before
  the switch and the part that runs when the thread resumes.

  \<^bold>\<open>Foundations.\<close>
  \<^item> \<^verbatim>\<open>Atom_Prelude\<close>, \<^verbatim>\<open>Rust_Str\<close>, \<^verbatim>\<open>Le_Bytes\<close>, \<^verbatim>\<open>Array_Ops\<close>: integers, vectors, strings,
    little-endian bytes and arrays as Rust has them. The locale \<open>simulation\<close> lifts a
    one-step refinement to runs.
  \<^item> \<^verbatim>\<open>BTree_Map\<close>: the map with its laws as the locale \<open>ordered_map\<close>.
  \<^item> \<^verbatim>\<open>Bounded_Fifo\<close>: the contract of a bounded queue, provided by the ports and by the rings.

  \<^bold>\<open>Kernel memory.\<close>
  \<^item> \<^verbatim>\<open>Pmm\<close> models \<^verbatim>\<open>mm/pmm.rs\<close>: the bitmap, initialisation from the firmware map, allocation
    and release. Counts stay exact and a contiguous allocation takes the lowest free run. The
    locale \<open>page_allocator\<close> is what the other managers rely on.
  \<^item> \<^verbatim>\<open>Vm\<close>, \<^verbatim>\<open>Vm_Tables\<close>, \<^verbatim>\<open>Page_Mapper\<close>, \<^verbatim>\<open>Vm_Spaces\<close> model \<^verbatim>\<open>mm/vm.rs\<close>: the four-level
    walk over physical memory, its meaning as a partial map of pages, the locale \<open>page_mapper\<close>
    for loops over regions with rollback, and isolation of address spaces.
  \<^item> \<^verbatim>\<open>Addr_Space\<close>, \<^verbatim>\<open>Shared_Mem\<close>, \<^verbatim>\<open>Data_Pages\<close> model \<^verbatim>\<open>mm/addrspace.rs\<close> and \<^verbatim>\<open>shared_mem.rs\<close>:
    regions are mapped completely or not at all, only the owner changes a space, and one
    memory invariant holds in every reachable state.
  \<^item> \<^verbatim>\<open>Executable\<close> models \<^verbatim>\<open>executable.rs\<close>: the parser accepts well-formed images only, and
    loading maps all segments with the bytes of the image or leaves every mapping as it was.

  \<^bold>\<open>Kernel objects.\<close>
  \<^item> \<^verbatim>\<open>Capability\<close>, \<^verbatim>\<open>Cap_Manager\<close> model \<^verbatim>\<open>cap.rs\<close>: permissions, derivation, transfer and
    recursive revocation. The locale \<open>cap_tables\<close> is the thread list seen by the manager.
  \<^item> \<^verbatim>\<open>Threads\<close> models \<^verbatim>\<open>thread.rs\<close> and \<^verbatim>\<open>interrupts/switch.asm\<close>: control blocks and the
    switch as a transformation of registers and memory.
  \<^item> \<^verbatim>\<open>Scheduler\<close> models \<^verbatim>\<open>sched.rs\<close>: strict priority, round robin within a level (locale
    \<open>ready_queue\<close>), priority boosts, wake-up and switching.
  \<^item> \<^verbatim>\<open>Ipc\<close> models \<^verbatim>\<open>ipc.rs\<close>: port queues lose and reorder nothing, batches are atomic,
    deadlock detection is exact on the wait-for graph.
  \<^item> \<^verbatim>\<open>Input_Buffers\<close> models \<^verbatim>\<open>input.rs\<close>, \<^verbatim>\<open>Graphics\<close> models \<^verbatim>\<open>graphics.rs\<close>: rings and packet
    decoding; drawing that stays inside the framebuffer.
  \<^item> \<^verbatim>\<open>Service_Manager\<close> models \<^verbatim>\<open>service_manager.rs\<close>: the manifest parser with its printer,
    and the startup order as a topological order, found whenever there is one.

  \<^bold>\<open>The kernel as a whole.\<close>
  \<^item> \<^verbatim>\<open>Kernel\<close> joins the managers in one record, with \<^verbatim>\<open>mm/policy.rs\<close>; \<^verbatim>\<open>Syscalls\<close> models every
    handler and the dispatcher of \<^verbatim>\<open>syscall/mod.rs\<close>; \<^verbatim>\<open>Interrupts\<close> models
    \<^verbatim>\<open>interrupts/handlers.rs\<close> and \<^verbatim>\<open>interrupts/apic.rs\<close>.
  \<^item> \<^verbatim>\<open>Kernel_Inv\<close> shows that all component invariants hold together in every state that system
    calls, resumptions, interrupts and user stores reach from boot. \<^verbatim>\<open>Kernel_Props\<close> holds the
    end-to-end results: guarded thread creation, data through IPC, receive deadlines, fault
    messages, interrupt lines.

  \<^bold>\<open>User space.\<close>
  \<^item> \<^verbatim>\<open>User_Syscalls\<close> models \<^verbatim>\<open>syscall/handler.asm\<close> and the wrappers of
    \<^verbatim>\<open>userspace/libs/syscall\<close>, run on the model of the dispatcher.
  \<^item> \<^verbatim>\<open>Libipc\<close> models \<^verbatim>\<open>userspace/libs/libipc\<close>; every format satisfies the locale
    \<open>wire_format\<close>, so a framed message arrives as it was sent.
  \<^item> \<^verbatim>\<open>Poll_Loop\<close>, \<^verbatim>\<open>Key_Input\<close>, \<^verbatim>\<open>Mouse_Driver\<close> model the polling loops (locale \<open>byte_source\<close>),
    the keyboard driver, the terminal's input handler and the mouse driver. The two mouse
    decoders are shown to implement one description of the packet stream, and the driver's
    initialisation is run against a controller given by its documented contract.
  \<^item> \<^verbatim>\<open>Terminal_Buffer\<close>, \<^verbatim>\<open>Terminal_Parser\<close>, \<^verbatim>\<open>Line_Format\<close>, \<^verbatim>\<open>Terminal_Commands\<close>, \<^verbatim>\<open>Terminal\<close>
    model \<^verbatim>\<open>userspace/drivers/terminal\<close>: the edit line, history and display refine texts, the
    parser splits lines into words, no key or command panics, rendering stays inside the
    window, and a line typed on the keyboard appears as its output on the display.

  \<^bold>\<open>Bounds and fuel.\<close> Loops that empty a buffer take the buffer's length as fuel, and the lemmas
  assume fuel above that length, so that the result is reached. The depth-first search of the
  service manager and the recursion of revocation have termination proofs. The walk of deadlock
  detection has the step bound of the source, the number of ports and waiters, which is shown
  to be enough for an exact answer. The busy waits of the mouse driver
  keep the counts of the source. The main loop of \<open>glob_match\<close> is a partial function, and is shown
  to end on every text without a star.

  \<^bold>\<open>Assumptions.\<close> Hardware answers and firmware data are arguments: the memory map, the cpuid and
  MSR values, the PS/2 controller as a bus with the contract of the i8042, the frame on the
  stack at an interrupt. Memory of user processes is a component of its own, so user stores
  do not reach kernel structures. The dispatcher keeps to its calling convention when it returns
  to the entry stub, and no second system call overlaps it.

  \<^bold>\<open>Not modelled.\<close>
  \<^item> \<^verbatim>\<open>log.rs\<close>, \<^verbatim>\<open>serial.rs\<close>, \<^verbatim>\<open>vga.rs\<close>: diagnostic output that nothing reads.
  \<^item> \<^verbatim>\<open>mm/heap.rs\<close>: hands memory to an allocator that is a third-party package.
  \<^item> \<^verbatim>\<open>kernel.rs\<close>, \<^verbatim>\<open>system.rs\<close>, \<^verbatim>\<open>arch/x86_64\<close>: start-up calls in order, firmware calls.
  \<^item> \<^verbatim>\<open>interrupts/idt.rs\<close>, \<^verbatim>\<open>arch/gdt.rs\<close>, \<^verbatim>\<open>interrupts/handlers.asm\<close>: encodings of processor
    tables and register saving; only the selectors are used.
  \<^item> \<^verbatim>\<open>init_process.rs\<close>: start of the services and a demonstration desktop that never returns.
  \<^item> \<^verbatim>\<open>userspace/drivers/ui_shell\<close>, \<^verbatim>\<open>userspace/drivers/display\<close>, \<^verbatim>\<open>userspace/libs/libgui\<close>: drawing
    through raw pointers. The terminal's rendering is the list of its drawing requests.
  \<^item> Of the terminal, the window frame and the panic screen; of the system call library, the
    debug log, thread exit and the framebuffer wrappers.
\<close>

end
